(* ===== verification/Prelude.thy ===== *)
theory Prelude
  imports Main "HOL-Library.Word"
begin

unbundle bit_operations_syntax

text \<open>
  The base of the development: the integer types of the source, the shape of an effectful
  Rust function, bytes in little-endian order, and the generic lemmas the components share.

  \<^item> A fixed-width integer is a word of that width, so that \<open>+\<close>, \<open>-\<close> and \<open>*\<close> wrap as
    \<open>wrapping_add\<close> and the release profile do. \<open>i32\<close> is the same bit pattern as \<open>u32\<close>
    (\<open>as\<close> casts between the two are the identity) read with \<open>sint\<close> or compared with \<open><s\<close>.
    \<open>usize\<close> values are indices and lengths and are natural numbers.
  \<^item> A function that takes \<open>&mut self\<close> and returns a value is
    \<open>'s \<Rightarrow> ('a \<times> 's) option\<close>. \<open>None\<close> is a panic of the code: an index out of bounds, a
    failed \<open>assert!\<close>, an \<open>expect\<close> on \<open>None\<close>, a reached \<open>unreachable!\<close>. A \<open>Result\<close> is a
    sum, \<open>Inl\<close> the error.
  \<^item> \<open>and_then\<close> is the \<open>?\<close> operator; \<open>wp\<close> states that a function does not panic and that
    its result and final state satisfy a postcondition.
\<close>

type_synonym u8 = "8 word"
type_synonym u16 = "16 word"
type_synonym u32 = "32 word"
type_synonym i32 = "32 word"
type_synonym u64 = "64 word"

type_synonym ('a, 's) outcome = "('a \<times> 's) option"

named_theorems wp_intro "weakest-precondition rules of the effectful operations"
named_theorems masks "bit masks and other named constants of the source"

subsection \<open>Effectful functions\<close>

definition wp :: "('a, 's) outcome \<Rightarrow> ('a \<Rightarrow> 's \<Rightarrow> bool) \<Rightarrow> bool" where
  "wp m Q = (case m of None \<Rightarrow> False | Some (r, s) \<Rightarrow> Q r s)"

definition and_then ::
  "('e + 'a, 's) outcome \<Rightarrow> ('a \<Rightarrow> 's \<Rightarrow> ('e + 'c, 's) outcome) \<Rightarrow> ('e + 'c, 's) outcome" where
  "and_then m f = (case m of
     None \<Rightarrow> None
   | Some (Inl e, s) \<Rightarrow> Some (Inl e, s)
   | Some (Inr a, s) \<Rightarrow> f a s)"

lemma wp_Some [simp]: "wp (Some (r, s)) Q = Q r s"
  by (simp add: wp_def)

lemma wp_None [simp]: "\<not> wp None Q"
  by (simp add: wp_def)

lemma wp_elim: "wp m Q \<Longrightarrow> (\<And>r s. m = Some (r, s) \<Longrightarrow> Q r s \<Longrightarrow> P) \<Longrightarrow> P"
  by (auto simp: wp_def split: option.splits prod.splits)

lemma wp_mono: "wp m Q \<Longrightarrow> (\<And>r s. Q r s \<Longrightarrow> Q' r s) \<Longrightarrow> wp m Q'"
  by (auto simp: wp_def split: option.splits prod.splits)

lemma wp_result: "wp m Q \<Longrightarrow> m = Some (r, s) \<Longrightarrow> Q r s"
  by simp

lemma wp_not_panic: "wp m Q \<Longrightarrow> m \<noteq> None"
  by (cases m) simp_all

lemma and_then_simps [simp]:
  "and_then None f = None"
  "and_then (Some (Inl e, s)) f = Some (Inl e, s)"
  "and_then (Some (Inr a, s)) f = f a s"
  by (simp_all add: and_then_def)

lemma wp_and_then:
  "wp m (\<lambda>r s. case r of Inl e \<Rightarrow> Q (Inl e) s | Inr a \<Rightarrow> wp (f a s) Q) \<Longrightarrow> wp (and_then m f) Q"
  by (auto simp: wp_def and_then_def split: option.splits sum.splits)

lemma wp_case_option:
  "(x = None \<Longrightarrow> wp a Q) \<Longrightarrow> (\<And>y. x = Some y \<Longrightarrow> wp (b y) Q) \<Longrightarrow>
   wp (case x of None \<Rightarrow> a | Some y \<Rightarrow> b y) Q"
  by (cases x) auto

text \<open>Indexing that panics out of bounds, and the update \<open>xs[i] = v\<close> that does.\<close>

definition idx :: "'a list \<Rightarrow> nat \<Rightarrow> 'a option" where
  "idx xs i = (if i < length xs then Some (xs ! i) else None)"

definition idx_set :: "'a list \<Rightarrow> nat \<Rightarrow> 'a \<Rightarrow> 'a list option" where
  "idx_set xs i v = (if i < length xs then Some (xs[i := v]) else None)"

lemma idx_Some [simp]: "i < length xs \<Longrightarrow> idx xs i = Some (xs ! i)"
  by (simp add: idx_def)

lemma idx_None [simp]: "length xs \<le> i \<Longrightarrow> idx xs i = None"
  by (simp add: idx_def)

lemma idx_set_Some [simp]: "i < length xs \<Longrightarrow> idx_set xs i v = Some (xs[i := v])"
  by (simp add: idx_set_def)

lemma idx_set_None [simp]: "length xs \<le> i \<Longrightarrow> idx_set xs i v = None"
  by (simp add: idx_set_def)

lemma idx_eq_SomeD: "idx xs i = Some v \<Longrightarrow> i < length xs \<and> v = xs ! i"
  by (simp add: idx_def split: if_splits)

text \<open>\<open>Iterator::position\<close>: the index of the first element that satisfies a predicate.\<close>

fun position :: "('a \<Rightarrow> bool) \<Rightarrow> 'a list \<Rightarrow> nat option" where
  "position P [] = None"
| "position P (x # xs) = (if P x then Some 0 else map_option Suc (position P xs))"

lemma position_None: "position P xs = None \<longleftrightarrow> (\<forall>x \<in> set xs. \<not> P x)"
  by (induction xs) auto

lemma position_Some:
  "position P xs = Some i \<Longrightarrow> i < length xs \<and> P (xs ! i) \<and> (\<forall>j < i. \<not> P (xs ! j))"
proof (induction xs arbitrary: i)
  case Nil
  then show ?case by simp
next
  case (Cons x xs)
  show ?case
  proof (cases "P x")
    case True
    with Cons.prems show ?thesis by simp
  next
    case False
    with Cons.prems obtain k where k: "position P xs = Some k" "i = Suc k"
      by auto
    have "\<forall>j < Suc k. \<not> P ((x # xs) ! j)"
      using Cons.IH [OF k(1)] False by (auto simp: nth_Cons split: nat.split)
    with Cons.IH [OF k(1)] k(2) show ?thesis by simp
  qed
qed

lemma position_eq_Some:
  "i < length xs \<Longrightarrow> P (xs ! i) \<Longrightarrow> (\<And>j. j < i \<Longrightarrow> \<not> P (xs ! j)) \<Longrightarrow> position P xs = Some i"
proof (induction xs arbitrary: i)
  case Nil
  then show ?case by simp
next
  case (Cons x xs)
  show ?case
  proof (cases i)
    case 0
    with Cons.prems show ?thesis by simp
  next
    case (Suc k)
    have "\<not> P x" using Cons.prems(3) [of 0] Suc by simp
    moreover have "position P xs = Some k"
    proof (rule Cons.IH)
      show "k < length xs" using Cons.prems(1) Suc by simp
      show "P (xs ! k)" using Cons.prems(2) Suc by simp
      show "\<not> P (xs ! j)" if "j < k" for j
        using Cons.prems(3) [of "Suc j"] that Suc by simp
    qed
    ultimately show ?thesis using Suc by simp
  qed
qed

text \<open>\<open>n\<close> steps of a transition that may panic.\<close>

fun iterate :: "('s \<Rightarrow> 's option) \<Rightarrow> nat \<Rightarrow> 's \<Rightarrow> 's option" where
  "iterate f 0 s = Some s"
| "iterate f (Suc n) s = (case f s of None \<Rightarrow> None | Some s \<Rightarrow> iterate f n s)"

lemma iterate_add:
  "iterate f (m + n) s = (case iterate f m s of None \<Rightarrow> None | Some s \<Rightarrow> iterate f n s)"
  by (induction m arbitrary: s) (simp_all split: option.split)

lemma iterate_invariant:
  assumes "\<And>s. P s \<Longrightarrow> \<exists>s'. f s = Some s' \<and> P s'" "P s"
  shows "\<exists>s'. iterate f n s = Some s' \<and> P s'"
  using assms(2)
proof (induction n arbitrary: s)
  case (Suc n)
  then show ?case using assms(1) by fastforce
qed simp

text \<open>\<open>each_index f [0..<n]\<close> is \<open>for index in 0..n { f(index) }\<close>.\<close>

fun each_index :: "(nat \<Rightarrow> 's \<Rightarrow> (unit, 's) outcome) \<Rightarrow> nat list \<Rightarrow> 's \<Rightarrow> (unit, 's) outcome" where
  "each_index f [] s = Some ((), s)"
| "each_index f (i # is) s = (case f i s of None \<Rightarrow> None | Some (_, s) \<Rightarrow> each_index f is s)"

lemma each_index_safe:
  assumes "\<And>i s. P s \<Longrightarrow> i \<in> set is \<Longrightarrow> wp (f i s) (\<lambda>_. P)" "P s"
  shows "wp (each_index f is s) (\<lambda>_. P)"
  using assms
proof (induction "is" arbitrary: s)
  case (Cons i "is")
  obtain s' where "f i s = Some ((), s')" "P s'"
    using Cons.prems(1) [OF Cons.prems(2), of i] by (auto elim!: wp_elim)
  then show ?case using Cons.IH [of s'] Cons.prems(1) by simp
qed simp

subsection \<open>Bits\<close>

lemma not_bit_ge: "LENGTH('a) \<le> n \<Longrightarrow> \<not> bit (w :: 'a::len word) n"
  using bit_imp_le_length not_less by blast

lemma bit_of_mask: "m = push_bit k 1 \<Longrightarrow> (w AND m = 0) = (\<not> bit w k)" for w :: "'a::len word"
  by (simp add: bit_iff_and_push_bit_not_eq_0)

lemma mask_of_bit: "m = push_bit k 1 \<Longrightarrow> k < LENGTH('a) \<Longrightarrow> bit m n = (n = k)" for m :: "'a::len word"
  by (auto simp: bit_simps)

text \<open>\<open>within x m\<close>: only bits of the mask \<open>m\<close> are set in \<open>x\<close>.\<close>

definition within :: "'a::len word \<Rightarrow> 'a word \<Rightarrow> bool" where
  "within x m \<longleftrightarrow> x AND NOT m = 0"

lemma within_bits: "within x m \<longleftrightarrow> (\<forall>n. bit x n \<longrightarrow> bit m n)"
  by (auto simp: within_def bit_eq_iff bit_simps dest: bit_imp_le_length)

lemma within_0 [simp]: "within 0 m"
  by (simp add: within_def)

lemma within_and_mask [intro]: "within k m \<Longrightarrow> within (x AND k) m"
  by (auto simp: within_bits bit_and_iff)

lemma within_and [intro]: "within x m \<Longrightarrow> within (x AND y) m"
  by (auto simp: within_bits bit_and_iff)

lemma within_or [simp]: "within (x OR y) m \<longleftrightarrow> within x m \<and> within y m"
  by (auto simp: within_bits bit_or_iff)

lemma within_absorb: "within x m \<Longrightarrow> x AND m = x"
  by (rule bit_word_eqI) (auto simp: within_bits bit_and_iff)

lemma within_clear: "within x m \<Longrightarrow> x AND NOT m = 0"
  by (simp add: within_def)

lemma not_within_bit: "within x m \<Longrightarrow> \<not> bit m n \<Longrightarrow> \<not> bit x n"
  by (auto simp: within_bits)

subsection \<open>Bytes in little-endian order\<close>

definition le_bytes32 :: "u32 \<Rightarrow> u8 list" where
  "le_bytes32 v = [ucast v, ucast (drop_bit 8 v), ucast (drop_bit 16 v), ucast (drop_bit 24 v)]"

definition from_le32 :: "u8 \<Rightarrow> u8 \<Rightarrow> u8 \<Rightarrow> u8 \<Rightarrow> u32" where
  "from_le32 b0 b1 b2 b3 =
     ucast b0 OR push_bit 8 (ucast b1) OR push_bit 16 (ucast b2) OR push_bit 24 (ucast b3)"

definition from_le32_list :: "u8 list \<Rightarrow> u32" where
  "from_le32_list bs = from_le32 (bs ! 0) (bs ! 1) (bs ! 2) (bs ! 3)"

definition le_bytes16 :: "u16 \<Rightarrow> u8 list" where
  "le_bytes16 v = [ucast v, ucast (drop_bit 8 v)]"

definition from_le16 :: "u8 \<Rightarrow> u8 \<Rightarrow> u16" where
  "from_le16 b0 b1 = ucast b0 OR push_bit 8 (ucast b1)"

lemma length_le_bytes32 [simp]: "length (le_bytes32 v) = 4"
  by (simp add: le_bytes32_def)

lemma length_le_bytes16 [simp]: "length (le_bytes16 v) = 2"
  by (simp add: le_bytes16_def)

lemma from_le32_bytes [simp]:
  "from_le32 (ucast v) (ucast (drop_bit 8 v)) (ucast (drop_bit 16 v)) (ucast (drop_bit 24 v)) = v"
proof (rule bit_word_eqI)
  fix n assume n: "n < LENGTH(32)"
  consider "n < 8" | "8 \<le> n \<and> n < 16" | "16 \<le> n \<and> n < 24" | "24 \<le> n \<and> n < 32"
    using n by fastforce
  then show "bit (from_le32 (ucast v) (ucast (drop_bit 8 v)) (ucast (drop_bit 16 v))
      (ucast (drop_bit 24 v))) n = bit v n"
    by cases (auto simp: from_le32_def bit_simps)
qed

lemma from_le32_list_bytes [simp]: "from_le32_list (le_bytes32 v) = v"
  by (simp add: from_le32_list_def le_bytes32_def)

lemma le_bytes32_from [simp]: "le_bytes32 (from_le32 b0 b1 b2 b3) = [b0, b1, b2, b3]"
proof -
  have "ucast (from_le32 b0 b1 b2 b3) = b0"
    by (rule bit_word_eqI) (auto simp: from_le32_def bit_simps)
  moreover have "ucast (drop_bit 8 (from_le32 b0 b1 b2 b3)) = b1"
    by (rule bit_word_eqI) (auto simp: from_le32_def bit_simps dest: bit_imp_le_length)
  moreover have "ucast (drop_bit 16 (from_le32 b0 b1 b2 b3)) = b2"
    by (rule bit_word_eqI) (auto simp: from_le32_def bit_simps dest: bit_imp_le_length)
  moreover have "ucast (drop_bit 24 (from_le32 b0 b1 b2 b3)) = b3"
    by (rule bit_word_eqI) (auto simp: from_le32_def bit_simps dest: bit_imp_le_length)
  ultimately show ?thesis by (simp add: le_bytes32_def)
qed

lemma from_le16_bytes [simp]: "from_le16 (ucast v) (ucast (drop_bit 8 v)) = v"
  by (rule bit_word_eqI) (auto simp: from_le16_def bit_simps)

lemma le_bytes16_from [simp]: "le_bytes16 (from_le16 b0 b1) = [b0, b1]"
proof -
  have "ucast (from_le16 b0 b1) = b0"
    by (rule bit_word_eqI) (auto simp: from_le16_def bit_simps)
  moreover have "ucast (drop_bit 8 (from_le16 b0 b1)) = b1"
    by (rule bit_word_eqI) (auto simp: from_le16_def bit_simps dest: bit_imp_le_length)
  ultimately show ?thesis by (simp add: le_bytes16_def)
qed

text \<open>The bytes of a sequence of words.\<close>

definition bytes_of :: "u32 list \<Rightarrow> u8 list" where
  "bytes_of ws = concat (map le_bytes32 ws)"

lemma length_bytes_of [simp]: "length (bytes_of ws) = 4 * length ws"
  by (induction ws) (simp_all add: bytes_of_def)

lemma bytes_of_append: "bytes_of (ws @ vs) = bytes_of ws @ bytes_of vs"
  by (simp add: bytes_of_def)

lemma bytes_of_split:
  assumes "i < length ws"
  shows "bytes_of ws = bytes_of (take i ws) @ le_bytes32 (ws ! i) @ bytes_of (drop (Suc i) ws)"
proof -
  have "ws = take i ws @ ws ! i # drop (Suc i) ws" using assms by (rule id_take_nth_drop)
  then have "bytes_of ws = bytes_of (take i ws @ ws ! i # drop (Suc i) ws)" by simp
  then show ?thesis by (simp add: bytes_of_append) (simp add: bytes_of_def)
qed

lemma bytes_of_nth:
  assumes "i < length ws" "j < 4"
  shows "bytes_of ws ! (4 * i + j) = le_bytes32 (ws ! i) ! j"
  using assms by (simp add: bytes_of_split [OF assms(1)] nth_append)

lemma bytes_of_update:
  assumes "i < length ws"
  shows "bytes_of (ws[i := v]) = take (4 * i) (bytes_of ws) @ le_bytes32 v @ drop (4 * i + 4) (bytes_of ws)"
  using assms
  by (simp add: bytes_of_split [of i "ws[i := v]"] bytes_of_split [OF assms] take_update_cancel)

lemma le_bytes32_list [simp]: "length bs = 4 \<Longrightarrow> le_bytes32 (from_le32_list bs) = bs"
  by (auto simp: numeral_eq_Suc length_Suc_conv from_le32_list_def)

end
