(* ===== verification/Isa.thy ===== *)
theory Isa
  imports Prelude
begin

text \<open>
  The instruction-set vocabulary of \<open>crates/isa/src\<close>: the decoded instruction classes of
  \<open>opcode.rs\<close>, the decoded instruction of \<open>instruction.rs\<close>, traps and their cause codes of
  \<open>exception.rs\<close>, and the CSR addresses of \<open>csr.rs\<close>. Constructors keep the source's names, with
  a prefix where two enumerations share one. The lemmas show that a CSR address and its
  12-bit code determine each other, and that a trap's cause bits determine its cause.
\<close>

subsection \<open>Instruction classes (opcode.rs)\<close>

datatype alu_op = Add | Sub | AndOp | OrOp | XorOp | Sll | Slt | Sltu | Srl | Sra

datatype branch_kind = Beq | Bne | Blt | Bge | Bltu | Bgeu

datatype load_kind = LoadByte | LoadHalf | LoadWord | LoadByteUnsigned | LoadHalfUnsigned

datatype store_kind = StoreByte | StoreHalf | StoreWord

datatype csr_op =
    ReadWrite | ReadSet | ReadClear
  | ReadWriteImmediate | ReadSetImmediate | ReadClearImmediate

datatype system_kind = Ecall | Ebreak | SfenceVma | Wfi | Mret | Sret

datatype instruction_kind =
    Lui | Auipc | Jal | Jalr
  | Branch branch_kind | Load load_kind | Store store_kind
  | OpImm alu_op | Op alu_op | Csr csr_op | System system_kind

subsection \<open>CSR addresses (csr.rs)\<close>

datatype csr_address =
    Sstatus | Sie | Stvec | Scounteren | Satp
  | Mstatus | Medeleg | Mideleg | Mie | Mtvec | Mcounteren
  | Mcycle | Minstret | Mcycleh | Minstreth
  | Cycle | Time | Instret | Cycleh | Timeh | Instreth
  | Sepc | Scause | Stval | Sip
  | Mepc | Mcause | Mtval | Mip

text \<open>The discriminant of the \<open>repr(u16)\<close> enumeration, \<open>self as u16\<close>.\<close>

fun csr_code :: "csr_address \<Rightarrow> u16" where
  "csr_code Sstatus = 0x100"
| "csr_code Sie = 0x104"
| "csr_code Stvec = 0x105"
| "csr_code Scounteren = 0x106"
| "csr_code Satp = 0x180"
| "csr_code Mstatus = 0x300"
| "csr_code Medeleg = 0x302"
| "csr_code Mideleg = 0x303"
| "csr_code Mie = 0x304"
| "csr_code Mtvec = 0x305"
| "csr_code Mcounteren = 0x306"
| "csr_code Mcycle = 0xb00"
| "csr_code Minstret = 0xb02"
| "csr_code Mcycleh = 0xb80"
| "csr_code Minstreth = 0xb82"
| "csr_code Cycle = 0xc00"
| "csr_code Time = 0xc01"
| "csr_code Instret = 0xc02"
| "csr_code Cycleh = 0xc80"
| "csr_code Timeh = 0xc81"
| "csr_code Instreth = 0xc82"
| "csr_code Sepc = 0x141"
| "csr_code Scause = 0x142"
| "csr_code Stval = 0x143"
| "csr_code Sip = 0x144"
| "csr_code Mepc = 0x341"
| "csr_code Mcause = 0x342"
| "csr_code Mtval = 0x343"
| "csr_code Mip = 0x344"

definition min_privilege_level :: "csr_address \<Rightarrow> u8" where
  "min_privilege_level a = ucast (drop_bit 8 (csr_code a) AND 0b11)"

definition is_read_only :: "csr_address \<Rightarrow> bool" where
  "is_read_only a \<longleftrightarrow> drop_bit 10 (csr_code a) AND 0b11 = 0b11"

fun counteren_mask :: "csr_address \<Rightarrow> u32 option" where
  "counteren_mask Cycle = Some 1"
| "counteren_mask Cycleh = Some 1"
| "counteren_mask Time = Some 2"
| "counteren_mask Timeh = Some 2"
| "counteren_mask Instret = Some 4"
| "counteren_mask Instreth = Some 4"
| "counteren_mask _ = None"

text \<open>\<open>TryFrom<u16>\<close>: \<open>Inl\<close> carries the unsupported code, as \<open>CsrAddressError\<close> does.\<close>

definition csr_try_from :: "u16 \<Rightarrow> u16 + csr_address" where
  "csr_try_from v =
     (if v = 0x100 then Inr Sstatus
      else if v = 0x104 then Inr Sie
      else if v = 0x105 then Inr Stvec
      else if v = 0x106 then Inr Scounteren
      else if v = 0x180 then Inr Satp
      else if v = 0x300 then Inr Mstatus
      else if v = 0x302 then Inr Medeleg
      else if v = 0x303 then Inr Mideleg
      else if v = 0x304 then Inr Mie
      else if v = 0x305 then Inr Mtvec
      else if v = 0x306 then Inr Mcounteren
      else if v = 0xb00 then Inr Mcycle
      else if v = 0xb02 then Inr Minstret
      else if v = 0xb80 then Inr Mcycleh
      else if v = 0xb82 then Inr Minstreth
      else if v = 0xc00 then Inr Cycle
      else if v = 0xc01 then Inr Time
      else if v = 0xc02 then Inr Instret
      else if v = 0xc80 then Inr Cycleh
      else if v = 0xc81 then Inr Timeh
      else if v = 0xc82 then Inr Instreth
      else if v = 0x141 then Inr Sepc
      else if v = 0x142 then Inr Scause
      else if v = 0x143 then Inr Stval
      else if v = 0x144 then Inr Sip
      else if v = 0x341 then Inr Mepc
      else if v = 0x342 then Inr Mcause
      else if v = 0x343 then Inr Mtval
      else if v = 0x344 then Inr Mip
      else Inl v)"

lemma csr_try_from_code [simp]: "csr_try_from (csr_code a) = Inr a"
  by (cases a) (simp_all add: csr_try_from_def)

lemma csr_code_try_from: "csr_try_from v = Inr a \<Longrightarrow> csr_code a = v"
  by (auto simp: csr_try_from_def split: if_splits)

lemma csr_code_inj: "csr_code a = csr_code b \<Longrightarrow> a = b"
  by (metis csr_try_from_code sum.inject(2))

lemma counteren_mask_read_only: "counteren_mask a = Some m \<Longrightarrow> is_read_only a \<and> min_privilege_level a = 0"
  by (cases a) (simp_all add: is_read_only_def min_privilege_level_def)

subsection \<open>Decoded instructions (instruction.rs)\<close>

record decoded_instruction =
  d_raw :: u32
  d_pc :: u32
  d_kind :: instruction_kind
  d_rd :: "u8 option"
  d_rs1 :: "u8 option"
  d_rs2 :: "u8 option"
  d_imm :: i32
  d_csr :: "csr_address option"

definition new_decoded ::
  "u32 \<Rightarrow> u32 \<Rightarrow> instruction_kind \<Rightarrow> u8 option \<Rightarrow> u8 option \<Rightarrow> u8 option \<Rightarrow> i32 \<Rightarrow>
   csr_address option \<Rightarrow> decoded_instruction" where
  "new_decoded raw pc kind rd rs1 rs2 imm csr =
     \<lparr>d_raw = raw, d_pc = pc, d_kind = kind, d_rd = rd, d_rs1 = rs1, d_rs2 = rs2,
      d_imm = imm, d_csr = csr\<rparr>"

lemma new_decoded_fields [simp]:
  "d_raw (new_decoded raw pc kind rd rs1 rs2 imm csr) = raw"
  "d_pc (new_decoded raw pc kind rd rs1 rs2 imm csr) = pc"
  "d_kind (new_decoded raw pc kind rd rs1 rs2 imm csr) = kind"
  "d_rd (new_decoded raw pc kind rd rs1 rs2 imm csr) = rd"
  "d_rs1 (new_decoded raw pc kind rd rs1 rs2 imm csr) = rs1"
  "d_rs2 (new_decoded raw pc kind rd rs1 rs2 imm csr) = rs2"
  "d_imm (new_decoded raw pc kind rd rs1 rs2 imm csr) = imm"
  "d_csr (new_decoded raw pc kind rd rs1 rs2 imm csr) = csr"
  by (simp_all add: new_decoded_def)

subsection \<open>Traps (exception.rs)\<close>

datatype interrupt =
    SupervisorSoftware | MachineSoftware | SupervisorTimer | MachineTimer
  | SupervisorExternal | MachineExternal

fun interrupt_cause_code :: "interrupt \<Rightarrow> u32" where
  "interrupt_cause_code SupervisorSoftware = 1"
| "interrupt_cause_code MachineSoftware = 3"
| "interrupt_cause_code SupervisorTimer = 5"
| "interrupt_cause_code MachineTimer = 7"
| "interrupt_cause_code SupervisorExternal = 9"
| "interrupt_cause_code MachineExternal = 11"

definition is_supervisor :: "interrupt \<Rightarrow> bool" where
  "is_supervisor i \<longleftrightarrow>
     i = SupervisorSoftware \<or> i = SupervisorTimer \<or> i = SupervisorExternal"

datatype exception =
    InstructionAddressMisaligned u32
  | InstructionAccessFault u32
  | InstructionPageFault u32
  | IllegalInstruction u32
  | Breakpoint
  | LoadAddressMisaligned u32
  | LoadAccessFault u32
  | LoadPageFault u32
  | StoreAddressMisaligned u32
  | StoreAccessFault u32
  | StorePageFault u32
  | EnvironmentCallFromUMode
  | EnvironmentCallFromSMode
  | EnvironmentCallFromMMode

datatype trap = TrapException exception | TrapInterrupt interrupt

fun is_interrupt :: "trap \<Rightarrow> bool" where
  "is_interrupt (TrapInterrupt _) = True"
| "is_interrupt (TrapException _) = False"

fun cause_code :: "trap \<Rightarrow> u32" where
  "cause_code (TrapInterrupt i) = interrupt_cause_code i"
| "cause_code (TrapException (InstructionAddressMisaligned _)) = 0"
| "cause_code (TrapException (InstructionAccessFault _)) = 1"
| "cause_code (TrapException (IllegalInstruction _)) = 2"
| "cause_code (TrapException Breakpoint) = 3"
| "cause_code (TrapException (LoadAddressMisaligned _)) = 4"
| "cause_code (TrapException (LoadAccessFault _)) = 5"
| "cause_code (TrapException (StoreAddressMisaligned _)) = 6"
| "cause_code (TrapException (StoreAccessFault _)) = 7"
| "cause_code (TrapException EnvironmentCallFromUMode) = 8"
| "cause_code (TrapException EnvironmentCallFromSMode) = 9"
| "cause_code (TrapException EnvironmentCallFromMMode) = 11"
| "cause_code (TrapException (InstructionPageFault _)) = 12"
| "cause_code (TrapException (LoadPageFault _)) = 13"
| "cause_code (TrapException (StorePageFault _)) = 15"

definition cause_bits :: "trap \<Rightarrow> u32" where
  "cause_bits t = cause_code t OR (if is_interrupt t then push_bit 31 1 else 0)"

fun tval :: "trap \<Rightarrow> u32" where
  "tval (TrapException (InstructionAddressMisaligned a)) = a"
| "tval (TrapException (InstructionAccessFault a)) = a"
| "tval (TrapException (InstructionPageFault a)) = a"
| "tval (TrapException (IllegalInstruction i)) = i"
| "tval (TrapException (LoadAddressMisaligned a)) = a"
| "tval (TrapException (LoadAccessFault a)) = a"
| "tval (TrapException (LoadPageFault a)) = a"
| "tval (TrapException (StoreAddressMisaligned a)) = a"
| "tval (TrapException (StoreAccessFault a)) = a"
| "tval (TrapException (StorePageFault a)) = a"
| "tval (TrapException Breakpoint) = 0"
| "tval (TrapException EnvironmentCallFromUMode) = 0"
| "tval (TrapException EnvironmentCallFromSMode) = 0"
| "tval (TrapException EnvironmentCallFromMMode) = 0"
| "tval (TrapInterrupt _) = 0"

text \<open>
  The pair that a handler reads from \<open>mcause\<close> and \<open>mtval\<close> identifies the trap: no two
  traps share both.
\<close>

lemma interrupt_cause_code_inj: "interrupt_cause_code i = interrupt_cause_code j \<longleftrightarrow> i = j"
  by (cases i; cases j) simp_all

lemma cause_bits_interrupt: "cause_bits (TrapInterrupt i) = interrupt_cause_code i OR 0x80000000"
  by (simp add: cause_bits_def)

lemma cause_bits_exception: "cause_bits (TrapException e) = cause_code (TrapException e)"
  by (simp add: cause_bits_def)

lemma cause_bits_not_mixed: "cause_bits (TrapInterrupt i) \<noteq> cause_bits (TrapException e)"
  by (cases i; cases e) (simp_all add: cause_bits_interrupt cause_bits_exception)

lemma cause_bits_interrupt_inj: "cause_bits (TrapInterrupt i) = cause_bits (TrapInterrupt j) \<Longrightarrow> i = j"
  by (cases i; cases j) (simp_all add: cause_bits_interrupt)

lemma cause_bits_exception_inj:
  "cause_bits (TrapException e) = cause_bits (TrapException f) \<Longrightarrow>
   tval (TrapException e) = tval (TrapException f) \<Longrightarrow> e = f"
  by (cases e; cases f) (simp_all add: cause_bits_exception)

lemma cause_code_less: "unat (cause_code t) < 16"
proof (cases t)
  case (TrapException e)
  then show ?thesis by (cases e) simp_all
next
  case (TrapInterrupt i)
  then show ?thesis by (cases i) simp_all
qed

text \<open>
  A trap handler can tell every trap apart: the pair of values that trap entry writes to
  \<open>mcause\<close> (\<open>Trap::cause_bits\<close>) and \<open>mtval\<close> (\<open>Trap::tval\<close>) is the same for two traps only
  if they are the same trap.
\<close>

theorem trap_report_injective: "inj (\<lambda>t. (cause_bits t, tval t))"
proof (rule injI)
  fix s t :: trap
  assume "(cause_bits s, tval s) = (cause_bits t, tval t)"
  then have c: "cause_bits s = cause_bits t" and v: "tval s = tval t" by simp_all
  show "s = t"
    using c v cause_bits_not_mixed cause_bits_not_mixed [symmetric]
      cause_bits_interrupt_inj cause_bits_exception_inj
    by (cases s; cases t) (auto simp del: tval.simps)
qed

end
