(* ===== verification/Bus.thy ===== *)
theory Bus
  imports Prelude
begin

text \<open>
  The bus vocabulary of \<open>crates/system/src/bus.rs\<close>: interrupt lines and sets, address ranges,
  bus errors, transaction and burst requests with their phases, and the requests of bus masters.

  The traits \<open>Bus\<close>, \<open>TransactionBus\<close>, \<open>BurstBus\<close> and \<open>CacheMaintenance\<close> are records of
  functions over the state type \<open>'b\<close> of an implementation (\<open>bus_ops\<close> and its extensions), so a
  definition that takes \<open>&mut dyn Bus\<close> or a \<open>B: BurstBus\<close> in the source takes such a record and a
  state here. The default methods of the trait are definitions over \<open>load8\<close> and \<open>store8\<close>.
  The locale \<open>bus_safe\<close> is the contract a client of a bus relies on: no operation panics, and
  each keeps an invariant of the implementation.
\<close>

datatype access_kind = Fetch | LoadAccess | StoreAccess

datatype interrupt_line =
    LineSupervisorSoftware | LineMachineSoftware | LineSupervisorTimer | LineMachineTimer
  | LineSupervisorExternal | LineMachineExternal

subsection \<open>Interrupt sets\<close>

datatype interrupt_set = InterruptSet (line_bits: u8)

fun mask_for :: "interrupt_line \<Rightarrow> u8" where
  "mask_for LineSupervisorSoftware = 1"
| "mask_for LineMachineSoftware = 2"
| "mask_for LineSupervisorTimer = 4"
| "mask_for LineMachineTimer = 8"
| "mask_for LineSupervisorExternal = 16"
| "mask_for LineMachineExternal = 32"

definition no_interrupts :: interrupt_set where
  "no_interrupts = InterruptSet 0"

definition from_line :: "interrupt_line \<Rightarrow> interrupt_set" where
  "from_line l = InterruptSet (mask_for l)"

definition has_line :: "interrupt_set \<Rightarrow> interrupt_line \<Rightarrow> bool" where
  "has_line s l \<longleftrightarrow> line_bits s AND mask_for l \<noteq> 0"

definition union_set :: "interrupt_set \<Rightarrow> interrupt_set \<Rightarrow> interrupt_set" where
  "union_set s t = InterruptSet (line_bits s OR line_bits t)"

definition highest_priority :: "interrupt_set \<Rightarrow> interrupt_line option" where
  "highest_priority s =
     (if has_line s LineMachineExternal then Some LineMachineExternal
      else if has_line s LineMachineSoftware then Some LineMachineSoftware
      else if has_line s LineMachineTimer then Some LineMachineTimer
      else if has_line s LineSupervisorExternal then Some LineSupervisorExternal
      else if has_line s LineSupervisorSoftware then Some LineSupervisorSoftware
      else if has_line s LineSupervisorTimer then Some LineSupervisorTimer
      else None)"

lemma line_mask_bit: "\<exists>k < 8. mask_for l = push_bit k 1 \<and> (\<forall>x. (x AND mask_for l \<noteq> 0) = bit x k)"
proof -
  have "\<exists>k < 8. mask_for l = push_bit k 1"
  proof (cases l)
    case LineSupervisorSoftware then show ?thesis by (intro exI [of _ 0]) simp
  next
    case LineMachineSoftware then show ?thesis by (intro exI [of _ 1]) simp
  next
    case LineSupervisorTimer then show ?thesis by (intro exI [of _ 2]) simp
  next
    case LineMachineTimer then show ?thesis by (intro exI [of _ 3]) simp
  next
    case LineSupervisorExternal then show ?thesis by (intro exI [of _ 4]) simp
  next
    case LineMachineExternal then show ?thesis by (intro exI [of _ 5]) simp
  qed
  moreover have "(x AND push_bit k 1 \<noteq> 0) = bit x k" for k and x :: u8
    by (simp add: bit_iff_and_push_bit_not_eq_0)
  ultimately show ?thesis by metis
qed

lemma has_line_union [simp]: "has_line (union_set s t) l \<longleftrightarrow> has_line s l \<or> has_line t l"
proof -
  obtain k where "\<forall>x. (x AND mask_for l \<noteq> 0) = bit x k"
    using line_mask_bit by blast
  then show ?thesis by (simp add: has_line_def union_set_def bit_or_iff)
qed

lemma has_line_from_line [simp]: "has_line (from_line l) l' \<longleftrightarrow> l = l'"
  by (cases l; cases l') (simp_all add: has_line_def from_line_def)

lemma has_line_empty [simp]: "\<not> has_line no_interrupts l"
  by (simp add: has_line_def no_interrupts_def)

subsection \<open>Address ranges\<close>

record address_range =
  range_start :: u64
  range_size :: u64

definition range_end :: "address_range \<Rightarrow> u64" where
  "range_end r = range_start r + range_size r"

definition range_contains :: "address_range \<Rightarrow> u64 \<Rightarrow> bool" where
  "range_contains r addr \<longleftrightarrow> addr \<ge> range_start r \<and> addr < range_end r"

definition range_overlaps :: "address_range \<Rightarrow> address_range \<Rightarrow> bool" where
  "range_overlaps r other \<longleftrightarrow> range_start r < range_end other \<and> range_start other < range_end r"

text \<open>A range that does not wrap: \<open>start + size\<close> does not overflow a \<open>u64\<close>.\<close>

definition range_ok :: "address_range \<Rightarrow> bool" where
  "range_ok r \<longleftrightarrow> unat (range_start r) + unat (range_size r) < 2 ^ 64"

lemma unat_range_end: "range_ok r \<Longrightarrow> unat (range_end r) = unat (range_start r) + unat (range_size r)"
  by (simp add: range_ok_def range_end_def unat_word_ariths)

lemma range_contains_unat:
  "range_ok r \<Longrightarrow> range_contains r a \<longleftrightarrow>
     unat (range_start r) \<le> unat a \<and> unat a < unat (range_start r) + unat (range_size r)"
  by (simp add: range_contains_def word_le_nat_alt word_less_nat_alt unat_range_end)

lemma not_overlaps_disjoint:
  "\<not> range_overlaps r s \<Longrightarrow> \<not> (range_contains r a \<and> range_contains s a)"
  by (auto simp: range_overlaps_def range_contains_def)

lemma offset_in_range:
  "range_ok r \<Longrightarrow> range_contains r a \<Longrightarrow> unat (a - range_start r) < unat (range_size r)"
  using less_diff_conv2 by (auto simp: range_contains_unat unat_sub word_le_nat_alt)

subsection \<open>Errors, transactions and bursts\<close>

datatype bus_error =
    Busy u32
  | UnmappedAddress u64
  | MisalignedAccess u64 nat
  | ReadOnlyAddress u64
  | DeviceFault u64 string

definition is_busy_error :: "bus_error \<Rightarrow> bool" where
  "is_busy_error e \<longleftrightarrow> (case e of Busy _ \<Rightarrow> True | _ \<Rightarrow> False)"

lemma is_busy_error_simps [simp]:
  "is_busy_error (Busy n)" "\<not> is_busy_error (UnmappedAddress a)"
  "\<not> is_busy_error (MisalignedAccess a w)" "\<not> is_busy_error (ReadOnlyAddress a)"
  "\<not> is_busy_error (DeviceFault a m)"
  by (simp_all add: is_busy_error_def)

record transaction_request =
  tr_addr :: u64
  tr_kind :: access_kind
  tr_width :: nat
  tr_write_data :: "u8 list"

definition fetch32_request :: "u64 \<Rightarrow> transaction_request" where
  "fetch32_request addr =
     \<lparr>tr_addr = addr, tr_kind = Fetch, tr_width = 4, tr_write_data = [0, 0, 0, 0]\<rparr>"

definition load_request :: "u64 \<Rightarrow> nat \<Rightarrow> transaction_request" where
  "load_request addr width =
     \<lparr>tr_addr = addr, tr_kind = LoadAccess, tr_width = width, tr_write_data = [0, 0, 0, 0]\<rparr>"

definition store_request :: "u64 \<Rightarrow> nat \<Rightarrow> u8 list \<Rightarrow> transaction_request" where
  "store_request addr width bytes =
     \<lparr>tr_addr = addr, tr_kind = StoreAccess, tr_width = width, tr_write_data = bytes\<rparr>"

datatype transaction_response = ReadData "u8 list" nat | WriteComplete

fun read_u32 :: "transaction_response \<Rightarrow> u32 option" where
  "read_u32 (ReadData bytes width) = (if width = 4 then Some (from_le32_list bytes) else None)"
| "read_u32 WriteComplete = None"

datatype transaction_phase =
    TrAccepted
  | TrInFlight u32
  | TrReady transaction_response
  | TrFailed bus_error

datatype burst_request =
    BurstRead u64 nat access_kind
  | BurstWrite u64 "u32 list"

fun beats :: "burst_request \<Rightarrow> nat" where
  "beats (BurstRead _ n _) = n"
| "beats (BurstWrite _ ws) = length ws"

fun base_addr :: "burst_request \<Rightarrow> u64" where
  "base_addr (BurstRead a _ _) = a"
| "base_addr (BurstWrite a _) = a"

definition beat_addr :: "burst_request \<Rightarrow> nat \<Rightarrow> u64" where
  "beat_addr r beat_index = base_addr r + of_nat beat_index * 4"

fun beat_kind :: "burst_request \<Rightarrow> access_kind" where
  "beat_kind (BurstRead _ _ k) = k"
| "beat_kind (BurstWrite _ _) = StoreAccess"

datatype burst_response = BurstWords "u32 list" | BurstWritten nat

datatype burst_phase =
    BuAccepted nat nat
  | BuInFlight nat nat u32
  | BuReady nat
  | BuFailed bus_error

datatype bus_master_request =
    MasterLoad32 u64
  | MasterStore32 u64 u32
  | MasterReadWords u64 nat
  | MasterWriteWords u64 "u32 list"

datatype bus_master_response =
    MasterLoaded u32
  | MasterStored
  | MasterWords "u32 list"
  | MasterWritten nat

subsection \<open>The bus traits\<close>

type_synonym ('b, 'a) bus_call = "'b \<Rightarrow> (bus_error + 'a, 'b) outcome"

record 'b bus_ops =
  bus_load8 :: "u64 \<Rightarrow> ('b, u8) bus_call"
  bus_store8 :: "u64 \<Rightarrow> u8 \<Rightarrow> ('b, unit) bus_call"
  bus_fetch32 :: "u64 \<Rightarrow> ('b, u32) bus_call"
  bus_load16 :: "u64 \<Rightarrow> ('b, u16) bus_call"
  bus_load32 :: "u64 \<Rightarrow> ('b, u32) bus_call"
  bus_store16 :: "u64 \<Rightarrow> u16 \<Rightarrow> ('b, unit) bus_call"
  bus_store32 :: "u64 \<Rightarrow> u32 \<Rightarrow> ('b, unit) bus_call"
  bus_reset :: "'b \<Rightarrow> (unit, 'b) outcome"
  bus_tick :: "'b \<Rightarrow> (unit, 'b) outcome"
  bus_machine_time :: "'b \<Rightarrow> u64 option"
  bus_is_busy :: "'b \<Rightarrow> bool"
  bus_pending_interrupts :: "'b \<Rightarrow> interrupt_set"

record 'b burst_ops = "'b bus_ops" +
  bus_submit_burst :: "burst_request \<Rightarrow> ('b, u64) bus_call"
  bus_burst_phase :: "'b \<Rightarrow> u64 \<Rightarrow> burst_phase option"
  bus_advance_burst :: "u64 \<Rightarrow> 'b \<Rightarrow> (burst_phase option, 'b) outcome"
  bus_take_burst_response :: "u64 \<Rightarrow> 'b \<Rightarrow> ((bus_error + burst_response) option, 'b) outcome"

record 'b fabric_ops = "'b burst_ops" +
  bus_submit_transaction :: "transaction_request \<Rightarrow> ('b, u64) bus_call"
  bus_transaction_phase :: "'b \<Rightarrow> u64 \<Rightarrow> transaction_phase option"
  bus_advance_transaction :: "u64 \<Rightarrow> 'b \<Rightarrow> (transaction_phase option, 'b) outcome"
  bus_take_transaction_response ::
    "u64 \<Rightarrow> 'b \<Rightarrow> ((bus_error + transaction_response) option, 'b) outcome"

text \<open>
  The default methods of \<open>trait Bus\<close>, over \<open>load8\<close> and \<open>store8\<close>. \<open>store_each\<close> is the loop over
  the bytes of the value.
\<close>

definition default_load16 ::
  "(u64 \<Rightarrow> ('b, u8) bus_call) \<Rightarrow> u64 \<Rightarrow> ('b, u16) bus_call" where
  "default_load16 load8 addr b =
     (if addr mod 2 \<noteq> 0 then Some (Inl (MisalignedAccess addr 2), b)
      else
        and_then (load8 addr b) (\<lambda>b0 b.
        and_then (load8 (addr + 1) b) (\<lambda>b1 b.
        Some (Inr (from_le16 b0 b1), b))))"

definition default_load32 ::
  "(u64 \<Rightarrow> ('b, u8) bus_call) \<Rightarrow> u64 \<Rightarrow> ('b, u32) bus_call" where
  "default_load32 load8 addr b =
     (if addr mod 4 \<noteq> 0 then Some (Inl (MisalignedAccess addr 4), b)
      else
        and_then (load8 addr b) (\<lambda>b0 b.
        and_then (load8 (addr + 1) b) (\<lambda>b1 b.
        and_then (load8 (addr + 2) b) (\<lambda>b2 b.
        and_then (load8 (addr + 3) b) (\<lambda>b3 b.
        Some (Inr (from_le32 b0 b1 b2 b3), b))))))"

fun store_each ::
  "(u64 \<Rightarrow> u8 \<Rightarrow> ('b, unit) bus_call) \<Rightarrow> u64 \<Rightarrow> u8 list \<Rightarrow> ('b, unit) bus_call" where
  "store_each store8 addr [] b = Some (Inr (), b)"
| "store_each store8 addr (v # vs) b =
     and_then (store8 addr v b) (\<lambda>_ b. store_each store8 (addr + 1) vs b)"

definition default_store16 ::
  "(u64 \<Rightarrow> u8 \<Rightarrow> ('b, unit) bus_call) \<Rightarrow> u64 \<Rightarrow> u16 \<Rightarrow> ('b, unit) bus_call" where
  "default_store16 store8 addr v b =
     (if addr mod 2 \<noteq> 0 then Some (Inl (MisalignedAccess addr 2), b)
      else store_each store8 addr (le_bytes16 v) b)"

definition default_store32 ::
  "(u64 \<Rightarrow> u8 \<Rightarrow> ('b, unit) bus_call) \<Rightarrow> u64 \<Rightarrow> u32 \<Rightarrow> ('b, unit) bus_call" where
  "default_store32 store8 addr v b =
     (if addr mod 4 \<noteq> 0 then Some (Inl (MisalignedAccess addr 4), b)
      else store_each store8 addr (le_bytes32 v) b)"

subsection \<open>Memory-mapped devices\<close>

text \<open>
  The trait \<open>Addressable\<close>. \<open>access_latency\<close> takes \<open>&self\<close> in the source, but the DRAM model
  updates \<open>Cell\<close>s in it, so it returns a new device state here. \<open>tick\<close> can panic, so it is partial.
\<close>

record 'd addressable =
  ad_name :: "'d \<Rightarrow> string"
  ad_range :: "'d \<Rightarrow> address_range"
  ad_reset :: "'d \<Rightarrow> 'd"
  ad_tick :: "'d \<Rightarrow> 'd option"
  ad_machine_time :: "'d \<Rightarrow> u64 option"
  ad_access_latency :: "u64 \<Rightarrow> access_kind \<Rightarrow> nat \<Rightarrow> 'd \<Rightarrow> u32 \<times> 'd"
  ad_pending_interrupts :: "'d \<Rightarrow> interrupt_set"
  ad_load8 :: "u64 \<Rightarrow> ('d, u8) bus_call"
  ad_store8 :: "u64 \<Rightarrow> u8 \<Rightarrow> ('d, unit) bus_call"

text \<open>
  The contract of a device: its byte accesses do not panic, and every operation keeps the
  device's invariant.
\<close>

locale addressable_device =
  fixes dev :: "('d, 'z) addressable_scheme"
    and dinv :: "'d \<Rightarrow> bool"
  assumes reset_dev: "dinv d \<Longrightarrow> dinv (ad_reset dev d)"
    and tick_dev: "dinv d \<Longrightarrow> \<exists>d'. ad_tick dev d = Some d' \<and> dinv d'"
    and latency_dev: "dinv d \<Longrightarrow> dinv (snd (ad_access_latency dev a k w d))"
    and load8_dev: "dinv d \<Longrightarrow> wp (ad_load8 dev a d) (\<lambda>_. dinv)"
    and store8_dev: "dinv d \<Longrightarrow> wp (ad_store8 dev a v d) (\<lambda>_. dinv)"

text \<open>Decimal numerals and enumeration names in error messages.\<close>

fun show_nat :: "nat \<Rightarrow> string" where
  "show_nat n = (if n < 10 then [char_of (48 + n)] else show_nat (n div 10) @ [char_of (48 + n mod 10)])"

declare show_nat.simps [simp del]

subsection \<open>The contract of a bus\<close>

locale bus_safe =
  fixes ops :: "('b, 'z) bus_ops_scheme"
    and binv :: "'b \<Rightarrow> bool"
  assumes load8_safe: "binv b \<Longrightarrow> wp (bus_load8 ops a b) (\<lambda>_. binv)"
    and store8_safe: "binv b \<Longrightarrow> wp (bus_store8 ops a v8 b) (\<lambda>_. binv)"
    and fetch32_safe: "binv b \<Longrightarrow> wp (bus_fetch32 ops a b) (\<lambda>_. binv)"
    and load16_safe: "binv b \<Longrightarrow> wp (bus_load16 ops a b) (\<lambda>_. binv)"
    and load32_safe: "binv b \<Longrightarrow> wp (bus_load32 ops a b) (\<lambda>_. binv)"
    and store16_safe: "binv b \<Longrightarrow> wp (bus_store16 ops a v16 b) (\<lambda>_. binv)"
    and store32_safe: "binv b \<Longrightarrow> wp (bus_store32 ops a v32 b) (\<lambda>_. binv)"
    and reset_safe: "binv b \<Longrightarrow> wp (bus_reset ops b) (\<lambda>_. binv)"
    and tick_safe: "binv b \<Longrightarrow> wp (bus_tick ops b) (\<lambda>_. binv)"
begin

lemmas calls_safe = load8_safe store8_safe fetch32_safe load16_safe load32_safe store16_safe
  store32_safe

text \<open>A call followed by a continuation: the continuation starts from a state in the invariant.\<close>

lemma call_then:
  assumes "wp (call b) (\<lambda>_. binv)" "\<And>r b'. binv b' \<Longrightarrow> call b = Some (r, b') \<Longrightarrow> wp (k (r, b')) Q"
  shows "wp (case call b of None \<Rightarrow> None | Some p \<Rightarrow> k p) Q"
  using assms by (auto elim: wp_elim)

end

text \<open>
  The same with bursts. A burst request has at least one beat; the source asserts it.
\<close>

locale burst_bus_safe = bus_safe ops binv
  for ops :: "('b, 'z) burst_ops_scheme" and binv :: "'b \<Rightarrow> bool" +
  assumes submit_burst_safe: "binv b \<Longrightarrow> 0 < beats r \<Longrightarrow> wp (bus_submit_burst ops r b) (\<lambda>_. binv)"
    and advance_burst_safe: "binv b \<Longrightarrow> wp (bus_advance_burst ops i b) (\<lambda>_. binv)"
    and take_burst_safe: "binv b \<Longrightarrow> wp (bus_take_burst_response ops i b) (\<lambda>_. binv)"

text \<open>
  The trait \<open>BusMaster\<close>. The arbiter owns a \<open>Box<dyn BusMaster>\<close> of type \<open>'m\<close>; a master that it
  shares with the memory map (\<open>Rc<RefCell<..>>\<close>) is a handle of type \<open>'m\<close> to a device inside the
  bus state \<open>'b\<close>, so its methods take and return both. \<open>None\<close> is a handle to no such device.
\<close>

record ('m, 'b) master_ops =
  mo_max_outstanding :: "'m \<Rightarrow> 'b \<Rightarrow> nat option"
  mo_request :: "'m \<Rightarrow> 'b \<Rightarrow> (bus_master_request option \<times> 'm \<times> 'b) option"
  mo_on_response :: "bus_error + bus_master_response \<Rightarrow> 'm \<Rightarrow> 'b \<Rightarrow> ('m \<times> 'b) option"

end
