(* ===== verification/Csr_File.thy ===== *)
theory Csr_File
  imports Isa Bus
begin

text \<open>
  The CSR file of a hart (\<open>crates/cpu/src/state/csr_file.rs\<close>) and the privilege modes
  (\<open>privilege.rs\<close>): reads and writes with their masks, interrupt synchronisation and
  selection, delegation, trap entry and the two trap returns. A method that takes
  \<open>&mut self\<close> returns the new \<open>csr_file\<close> last.

  The lemmas give the WARL invariant \<open>csr_ok\<close> and its preservation, the refinement of reads and
  writes to an array of architectural slots, the interrupt priority, and the round trip of
  trap entry and trap return.
\<close>

datatype privilege_mode = User | Supervisor | Machine

fun csr_level :: "privilege_mode \<Rightarrow> u8" where
  "csr_level User = 0"
| "csr_level Supervisor = 1"
| "csr_level Machine = 3"

subsection \<open>Masks\<close>

abbreviation MSTATUS_SIE :: u32 where "MSTATUS_SIE \<equiv> 0x2"
abbreviation MSTATUS_MIE :: u32 where "MSTATUS_MIE \<equiv> 0x8"
abbreviation MSTATUS_SPIE :: u32 where "MSTATUS_SPIE \<equiv> 0x20"
abbreviation MSTATUS_MPIE :: u32 where "MSTATUS_MPIE \<equiv> 0x80"
abbreviation MSTATUS_SPP :: u32 where "MSTATUS_SPP \<equiv> 0x100"
abbreviation MSTATUS_TVM :: u32 where "MSTATUS_TVM \<equiv> 0x100000"
abbreviation MSTATUS_TW :: u32 where "MSTATUS_TW \<equiv> 0x200000"
abbreviation MSTATUS_TSR :: u32 where "MSTATUS_TSR \<equiv> 0x400000"
abbreviation MSTATUS_MPP_MASK :: u32 where "MSTATUS_MPP_MASK \<equiv> 0x1800"
abbreviation SSTATUS_MASK :: u32 where "SSTATUS_MASK \<equiv> 0xC0122"
abbreviation MIE_MASK :: u32 where "MIE_MASK \<equiv> 0xAAA"
abbreviation SIE_MASK :: u32 where "SIE_MASK \<equiv> 0x222"
abbreviation SIP_MASK :: u32 where "SIP_MASK \<equiv> 0x222"
abbreviation MANAGED_INTERRUPT_MASK :: u32 where "MANAGED_INTERRUPT_MASK \<equiv> 0xAAA"
abbreviation MIP_WRITABLE_MASK :: u32 where "MIP_WRITABLE_MASK \<equiv> 0xA"
abbreviation SIP_WRITABLE_MASK :: u32 where "SIP_WRITABLE_MASK \<equiv> 0x2"
abbreviation MEDELEG_MASK :: u32 where "MEDELEG_MASK \<equiv> 0xB3FF"
abbreviation MIDELEG_MASK :: u32 where "MIDELEG_MASK \<equiv> 0x222"
abbreviation COUNTEREN_MASK :: u32 where "COUNTEREN_MASK \<equiv> 0x7"

definition interrupt_priority :: "interrupt list" where
  "interrupt_priority =
     [MachineExternal, MachineSoftware, MachineTimer,
      SupervisorExternal, SupervisorSoftware, SupervisorTimer]"

fun interrupt_pending_mask :: "interrupt \<Rightarrow> u32" where
  "interrupt_pending_mask SupervisorSoftware = 0x2"
| "interrupt_pending_mask MachineSoftware = 0x8"
| "interrupt_pending_mask SupervisorTimer = 0x20"
| "interrupt_pending_mask MachineTimer = 0x80"
| "interrupt_pending_mask SupervisorExternal = 0x200"
| "interrupt_pending_mask MachineExternal = 0x800"

fun interrupt_enable_mask :: "interrupt \<Rightarrow> u32" where
  "interrupt_enable_mask SupervisorSoftware = 0x2"
| "interrupt_enable_mask MachineSoftware = 0x8"
| "interrupt_enable_mask SupervisorTimer = 0x20"
| "interrupt_enable_mask MachineTimer = 0x80"
| "interrupt_enable_mask SupervisorExternal = 0x200"
| "interrupt_enable_mask MachineExternal = 0x800"

fun privilege_bits :: "privilege_mode \<Rightarrow> u32" where
  "privilege_bits User = push_bit 11 0"
| "privilege_bits Supervisor = push_bit 11 1"
| "privilege_bits Machine = push_bit 11 3"

definition privilege_from_bits :: "u32 \<Rightarrow> privilege_mode" where
  "privilege_from_bits bits = (if bits = 0 then User else if bits = 1 then Supervisor else Machine)"

definition low_half :: "u64 \<Rightarrow> u32" where
  "low_half value = ucast value"

definition high_half :: "u64 \<Rightarrow> u32" where
  "high_half value = ucast (drop_bit 32 value)"

definition write_low_half :: "u64 \<Rightarrow> u32 \<Rightarrow> u64" where
  "write_low_half target value = (target AND NOT 0xffffffff) OR ucast value"

definition write_high_half :: "u64 \<Rightarrow> u32 \<Rightarrow> u64" where
  "write_high_half target value = push_bit 32 (ucast value) OR (target AND 0xffffffff)"

definition set_flag :: "u32 \<Rightarrow> u32 \<Rightarrow> bool \<Rightarrow> u32" where
  "set_flag value mask_bits enabled = (if enabled then value OR mask_bits else value AND NOT mask_bits)"

subsection \<open>The registers\<close>

record machine_csrs =
  mstatus :: u32
  medeleg :: u32
  mideleg :: u32
  mie :: u32
  mtvec :: u32
  mcounteren :: u32
  mcycle :: u64
  time :: u64
  minstret :: u64
  mepc :: u32
  mcause :: u32
  mtval :: u32
  mip :: u32

record supervisor_csrs =
  stvec :: u32
  scounteren :: u32
  sepc :: u32
  scause :: u32
  stval :: u32
  satp :: u32

record csr_file =
  machine :: machine_csrs
  supervisor :: supervisor_csrs
  software_pending :: u32
  external_pending :: u32

definition csr_file_default :: csr_file where
  "csr_file_default =
     \<lparr>machine = \<lparr>mstatus = 0, medeleg = 0, mideleg = 0, mie = 0, mtvec = 0, mcounteren = 0,
        mcycle = 0, time = 0, minstret = 0, mepc = 0, mcause = 0, mtval = 0, mip = 0\<rparr>,
      supervisor = \<lparr>stvec = 0, scounteren = 0, sepc = 0, scause = 0, stval = 0, satp = 0\<rparr>,
      software_pending = 0, external_pending = 0\<rparr>"

definition refresh_mip :: "csr_file \<Rightarrow> csr_file" where
  "refresh_mip c = c\<lparr>machine := (machine c)\<lparr>mip :=
     (mip (machine c) AND NOT MANAGED_INTERRUPT_MASK)
       OR (software_pending c AND MIP_WRITABLE_MASK)
       OR (external_pending c AND MANAGED_INTERRUPT_MASK)\<rparr>\<rparr>"

fun csr_read :: "csr_file \<Rightarrow> csr_address \<Rightarrow> u32" where
  "csr_read c Sstatus = mstatus (machine c) AND SSTATUS_MASK"
| "csr_read c Sie = mie (machine c) AND SIE_MASK"
| "csr_read c Stvec = stvec (supervisor c)"
| "csr_read c Scounteren = scounteren (supervisor c)"
| "csr_read c Satp = satp (supervisor c)"
| "csr_read c Mstatus = mstatus (machine c)"
| "csr_read c Medeleg = medeleg (machine c)"
| "csr_read c Mideleg = mideleg (machine c)"
| "csr_read c Mie = mie (machine c)"
| "csr_read c Mtvec = mtvec (machine c)"
| "csr_read c Mcounteren = mcounteren (machine c)"
| "csr_read c Mcycle = low_half (mcycle (machine c))"
| "csr_read c Minstret = low_half (minstret (machine c))"
| "csr_read c Mcycleh = high_half (mcycle (machine c))"
| "csr_read c Minstreth = high_half (minstret (machine c))"
| "csr_read c Cycle = low_half (mcycle (machine c))"
| "csr_read c Time = low_half (time (machine c))"
| "csr_read c Instret = low_half (minstret (machine c))"
| "csr_read c Cycleh = high_half (mcycle (machine c))"
| "csr_read c Timeh = high_half (time (machine c))"
| "csr_read c Instreth = high_half (minstret (machine c))"
| "csr_read c Sepc = sepc (supervisor c)"
| "csr_read c Scause = scause (supervisor c)"
| "csr_read c Stval = stval (supervisor c)"
| "csr_read c Sip = mip (machine c) AND SIP_MASK"
| "csr_read c Mepc = mepc (machine c)"
| "csr_read c Mcause = mcause (machine c)"
| "csr_read c Mtval = mtval (machine c)"
| "csr_read c Mip = mip (machine c)"

fun csr_write :: "csr_address \<Rightarrow> u32 \<Rightarrow> csr_file \<Rightarrow> csr_file" where
  "csr_write Sstatus v c = c\<lparr>machine := (machine c)\<lparr>mstatus :=
     (mstatus (machine c) AND NOT SSTATUS_MASK) OR (v AND SSTATUS_MASK)\<rparr>\<rparr>"
| "csr_write Sie v c = c\<lparr>machine := (machine c)\<lparr>mie :=
     (mie (machine c) AND NOT SIE_MASK) OR (v AND SIE_MASK)\<rparr>\<rparr>"
| "csr_write Stvec v c = c\<lparr>supervisor := (supervisor c)\<lparr>stvec := v\<rparr>\<rparr>"
| "csr_write Scounteren v c = c\<lparr>supervisor := (supervisor c)\<lparr>scounteren := v AND COUNTEREN_MASK\<rparr>\<rparr>"
| "csr_write Satp v c = c\<lparr>supervisor := (supervisor c)\<lparr>satp := v\<rparr>\<rparr>"
| "csr_write Mstatus v c = c\<lparr>machine := (machine c)\<lparr>mstatus := v\<rparr>\<rparr>"
| "csr_write Medeleg v c = c\<lparr>machine := (machine c)\<lparr>medeleg := v AND MEDELEG_MASK\<rparr>\<rparr>"
| "csr_write Mideleg v c = c\<lparr>machine := (machine c)\<lparr>mideleg := v AND MIDELEG_MASK\<rparr>\<rparr>"
| "csr_write Mie v c = c\<lparr>machine := (machine c)\<lparr>mie := v AND MIE_MASK\<rparr>\<rparr>"
| "csr_write Mtvec v c = c\<lparr>machine := (machine c)\<lparr>mtvec := v\<rparr>\<rparr>"
| "csr_write Mcounteren v c = c\<lparr>machine := (machine c)\<lparr>mcounteren := v AND COUNTEREN_MASK\<rparr>\<rparr>"
| "csr_write Mcycle v c = c\<lparr>machine := (machine c)\<lparr>mcycle := write_low_half (mcycle (machine c)) v\<rparr>\<rparr>"
| "csr_write Cycle v c = c\<lparr>machine := (machine c)\<lparr>mcycle := write_low_half (mcycle (machine c)) v\<rparr>\<rparr>"
| "csr_write Time v c = c\<lparr>machine := (machine c)\<lparr>time := write_low_half (time (machine c)) v\<rparr>\<rparr>"
| "csr_write Minstret v c = c\<lparr>machine := (machine c)\<lparr>minstret := write_low_half (minstret (machine c)) v\<rparr>\<rparr>"
| "csr_write Instret v c = c\<lparr>machine := (machine c)\<lparr>minstret := write_low_half (minstret (machine c)) v\<rparr>\<rparr>"
| "csr_write Mcycleh v c = c\<lparr>machine := (machine c)\<lparr>mcycle := write_high_half (mcycle (machine c)) v\<rparr>\<rparr>"
| "csr_write Cycleh v c = c\<lparr>machine := (machine c)\<lparr>mcycle := write_high_half (mcycle (machine c)) v\<rparr>\<rparr>"
| "csr_write Timeh v c = c\<lparr>machine := (machine c)\<lparr>time := write_high_half (time (machine c)) v\<rparr>\<rparr>"
| "csr_write Minstreth v c = c\<lparr>machine := (machine c)\<lparr>minstret := write_high_half (minstret (machine c)) v\<rparr>\<rparr>"
| "csr_write Instreth v c = c\<lparr>machine := (machine c)\<lparr>minstret := write_high_half (minstret (machine c)) v\<rparr>\<rparr>"
| "csr_write Sepc v c = c\<lparr>supervisor := (supervisor c)\<lparr>sepc := v\<rparr>\<rparr>"
| "csr_write Scause v c = c\<lparr>supervisor := (supervisor c)\<lparr>scause := v\<rparr>\<rparr>"
| "csr_write Stval v c = c\<lparr>supervisor := (supervisor c)\<lparr>stval := v\<rparr>\<rparr>"
| "csr_write Sip v c = refresh_mip (c\<lparr>software_pending :=
     (software_pending c AND NOT SIP_WRITABLE_MASK) OR (v AND SIP_WRITABLE_MASK)\<rparr>)"
| "csr_write Mepc v c = c\<lparr>machine := (machine c)\<lparr>mepc := v\<rparr>\<rparr>"
| "csr_write Mcause v c = c\<lparr>machine := (machine c)\<lparr>mcause := v\<rparr>\<rparr>"
| "csr_write Mtval v c = c\<lparr>machine := (machine c)\<lparr>mtval := v\<rparr>\<rparr>"
| "csr_write Mip v c = refresh_mip (c\<lparr>software_pending :=
     (software_pending c AND NOT MIP_WRITABLE_MASK) OR (v AND MIP_WRITABLE_MASK)\<rparr>)"

definition increment_cycle :: "csr_file \<Rightarrow> csr_file" where
  "increment_cycle c = c\<lparr>machine := (machine c)\<lparr>mcycle := mcycle (machine c) + 1\<rparr>\<rparr>"

definition increment_time :: "csr_file \<Rightarrow> csr_file" where
  "increment_time c = c\<lparr>machine := (machine c)\<lparr>time := time (machine c) + 1\<rparr>\<rparr>"

definition set_time :: "u64 \<Rightarrow> csr_file \<Rightarrow> csr_file" where
  "set_time t c = c\<lparr>machine := (machine c)\<lparr>time := t\<rparr>\<rparr>"

definition increment_instret :: "u64 \<Rightarrow> csr_file \<Rightarrow> csr_file" where
  "increment_instret retired c = c\<lparr>machine := (machine c)\<lparr>minstret := minstret (machine c) + retired\<rparr>\<rparr>"

text \<open>\<open>raise_if\<close> is one \<open>if interrupts.contains(..) { self.external_pending |= .. }\<close>.\<close>

definition raise_if :: "interrupt_set \<Rightarrow> interrupt_line \<Rightarrow> u32 \<Rightarrow> u32 \<Rightarrow> u32" where
  "raise_if interrupts l m pending = (if has_line interrupts l then pending OR m else pending)"

definition sync_interrupts :: "interrupt_set \<Rightarrow> csr_file \<Rightarrow> csr_file" where
  "sync_interrupts interrupts c =
     refresh_mip (c\<lparr>external_pending :=
       raise_if interrupts LineSupervisorExternal 0x200
      (raise_if interrupts LineMachineTimer 0x80
      (raise_if interrupts LineSupervisorTimer 0x20
      (raise_if interrupts LineMachineSoftware 0x8
      (raise_if interrupts LineMachineExternal 0x800
      (raise_if interrupts LineSupervisorSoftware 0x2 0)))))\<rparr>)"

definition sync_interrupt_line :: "interrupt_line option \<Rightarrow> csr_file \<Rightarrow> csr_file" where
  "sync_interrupt_line i c =
     sync_interrupts (case i of Some l \<Rightarrow> from_line l | None \<Rightarrow> no_interrupts) c"

subsection \<open>Interrupt selection and access control\<close>

definition interrupt_is_pending :: "csr_file \<Rightarrow> interrupt \<Rightarrow> bool" where
  "interrupt_is_pending c i \<longleftrightarrow> mip (machine c) AND interrupt_pending_mask i \<noteq> 0"

definition interrupt_is_enabled :: "csr_file \<Rightarrow> interrupt \<Rightarrow> bool" where
  "interrupt_is_enabled c i \<longleftrightarrow> mie (machine c) AND interrupt_enable_mask i \<noteq> 0"

definition delegates_interrupt_to_supervisor :: "csr_file \<Rightarrow> interrupt \<Rightarrow> bool" where
  "delegates_interrupt_to_supervisor c i \<longleftrightarrow>
     is_supervisor i \<and> mideleg (machine c) AND push_bit (unat (interrupt_cause_code i)) 1 \<noteq> 0"

definition delegates_trap_to_supervisor :: "csr_file \<Rightarrow> trap \<Rightarrow> privilege_mode \<Rightarrow> bool" where
  "delegates_trap_to_supervisor c t current =
     (if current = Machine then False
      else (case t of
              TrapException _ \<Rightarrow> medeleg (machine c) AND push_bit (unat (cause_code t)) 1 \<noteq> 0
            | TrapInterrupt i \<Rightarrow> delegates_interrupt_to_supervisor c i))"

definition interrupt_target_privilege ::
  "csr_file \<Rightarrow> interrupt \<Rightarrow> privilege_mode \<Rightarrow> privilege_mode option" where
  "interrupt_target_privilege c i current =
     (if delegates_interrupt_to_supervisor c i
      then (if current = Machine then None else Some Supervisor)
      else Some Machine)"

fun interrupt_globally_enabled :: "csr_file \<Rightarrow> privilege_mode \<Rightarrow> privilege_mode \<Rightarrow> bool" where
  "interrupt_globally_enabled c Machine current \<longleftrightarrow>
     current \<noteq> Machine \<or> mstatus (machine c) AND MSTATUS_MIE \<noteq> 0"
| "interrupt_globally_enabled c Supervisor current \<longleftrightarrow>
     current = User \<or> (current = Supervisor \<and> mstatus (machine c) AND MSTATUS_SIE \<noteq> 0)"
| "interrupt_globally_enabled c User current \<longleftrightarrow> False"

fun first_interrupt :: "csr_file \<Rightarrow> privilege_mode \<Rightarrow> interrupt list \<Rightarrow> interrupt option" where
  "first_interrupt c current [] = None"
| "first_interrupt c current (i # is) =
     (if \<not> interrupt_is_pending c i \<or> \<not> interrupt_is_enabled c i
      then first_interrupt c current is
      else (case interrupt_target_privilege c i current of
              None \<Rightarrow> first_interrupt c current is
            | Some target \<Rightarrow>
                if interrupt_globally_enabled c target current then Some i
                else first_interrupt c current is))"

definition pending_interrupt :: "csr_file \<Rightarrow> privilege_mode \<Rightarrow> interrupt option" where
  "pending_interrupt c current = first_interrupt c current interrupt_priority"

definition allows_csr_access :: "csr_file \<Rightarrow> privilege_mode \<Rightarrow> csr_address \<Rightarrow> bool" where
  "allows_csr_access c p a =
     (if csr_level p < min_privilege_level a then False
      else (case counteren_mask a of
              None \<Rightarrow> True
            | Some m \<Rightarrow>
                (case p of
                   Machine \<Rightarrow> True
                 | Supervisor \<Rightarrow> mcounteren (machine c) AND m \<noteq> 0
                 | User \<Rightarrow> mcounteren (machine c) AND m \<noteq> 0 \<and> scounteren (supervisor c) AND m \<noteq> 0)))"

definition tvm_enabled :: "csr_file \<Rightarrow> bool" where
  "tvm_enabled c \<longleftrightarrow> mstatus (machine c) AND MSTATUS_TVM \<noteq> 0"

definition tsr_enabled :: "csr_file \<Rightarrow> bool" where
  "tsr_enabled c \<longleftrightarrow> mstatus (machine c) AND MSTATUS_TSR \<noteq> 0"

definition tw_enabled :: "csr_file \<Rightarrow> bool" where
  "tw_enabled c \<longleftrightarrow> mstatus (machine c) AND MSTATUS_TW \<noteq> 0"

subsection \<open>Trap entry and return\<close>

definition trap_vector :: "u32 \<Rightarrow> trap \<Rightarrow> u32" where
  "trap_vector tvec t =
     (let base = tvec AND NOT 3; mode = tvec AND 3 in
      if is_interrupt t \<and> mode = 1 then base + cause_code t * 4 else base)"

definition enter_machine_trap :: "trap \<Rightarrow> u32 \<Rightarrow> privilege_mode \<Rightarrow> csr_file \<Rightarrow> u32 \<times> csr_file" where
  "enter_machine_trap t current_pc current c =
     (let s = mstatus (machine c);
          e = (s AND MSTATUS_MIE \<noteq> 0);
          s = set_flag s MSTATUS_MPIE e;
          s = s AND NOT MSTATUS_MIE;
          s = (s AND NOT MSTATUS_MPP_MASK) OR privilege_bits current
      in (trap_vector (mtvec (machine c)) t,
          c\<lparr>machine := (machine c)\<lparr>mepc := current_pc, mcause := cause_bits t, mtval := tval t,
              mstatus := s\<rparr>\<rparr>))"

definition enter_supervisor_trap :: "trap \<Rightarrow> u32 \<Rightarrow> privilege_mode \<Rightarrow> csr_file \<Rightarrow> u32 \<times> csr_file" where
  "enter_supervisor_trap t current_pc current c =
     (let s = mstatus (machine c);
          e = (s AND MSTATUS_SIE \<noteq> 0);
          s = set_flag s MSTATUS_SPIE e;
          s = s AND NOT MSTATUS_SIE;
          s = set_flag s MSTATUS_SPP (current = Supervisor)
      in (trap_vector (stvec (supervisor c)) t,
          c\<lparr>machine := (machine c)\<lparr>mstatus := s\<rparr>,
            supervisor := (supervisor c)\<lparr>sepc := current_pc, scause := cause_bits t,
              stval := tval t\<rparr>\<rparr>))"

definition enter_trap ::
  "trap \<Rightarrow> u32 \<Rightarrow> privilege_mode \<Rightarrow> csr_file \<Rightarrow> (privilege_mode \<times> u32) \<times> csr_file" where
  "enter_trap t current_pc current c =
     (if delegates_trap_to_supervisor c t current
      then (case enter_supervisor_trap t current_pc current c of (v, c') \<Rightarrow> ((Supervisor, v), c'))
      else (case enter_machine_trap t current_pc current c of (v, c') \<Rightarrow> ((Machine, v), c')))"

definition return_from_machine_trap :: "csr_file \<Rightarrow> (privilege_mode \<times> u32) \<times> csr_file" where
  "return_from_machine_trap c =
     (let s = mstatus (machine c);
          mpie = (s AND MSTATUS_MPIE \<noteq> 0);
          mpp = drop_bit 11 (s AND MSTATUS_MPP_MASK);
          s = set_flag s MSTATUS_MIE mpie;
          s = s OR MSTATUS_MPIE;
          s = s AND NOT MSTATUS_MPP_MASK
      in ((privilege_from_bits mpp, mepc (machine c)), c\<lparr>machine := (machine c)\<lparr>mstatus := s\<rparr>\<rparr>))"

definition return_from_supervisor_trap :: "csr_file \<Rightarrow> (privilege_mode \<times> u32) \<times> csr_file" where
  "return_from_supervisor_trap c =
     (let s = mstatus (machine c);
          spie = (s AND MSTATUS_SPIE \<noteq> 0);
          spp = (s AND MSTATUS_SPP \<noteq> 0);
          s = set_flag s MSTATUS_SIE spie;
          s = s OR MSTATUS_SPIE;
          s = s AND NOT MSTATUS_SPP
      in ((if spp then Supervisor else User, sepc (supervisor c)),
          c\<lparr>machine := (machine c)\<lparr>mstatus := s\<rparr>\<rparr>))"

subsection \<open>The WARL invariant\<close>

definition csr_ok :: "csr_file \<Rightarrow> bool" where
  "csr_ok c \<longleftrightarrow>
     within (mie (machine c)) MIE_MASK \<and> within (medeleg (machine c)) MEDELEG_MASK \<and>
     within (mideleg (machine c)) MIDELEG_MASK \<and> within (mcounteren (machine c)) COUNTEREN_MASK \<and>
     within (scounteren (supervisor c)) COUNTEREN_MASK \<and>
     within (software_pending c) MIP_WRITABLE_MASK \<and>
     within (external_pending c) MANAGED_INTERRUPT_MASK \<and>
     mip (machine c) = (software_pending c OR external_pending c)"

lemma within_mask [intro!, simp]: "k AND NOT m = 0 \<Longrightarrow> within (x AND k) m"
  by (rule within_and_mask) (simp add: within_def)

lemma within_trans: "within x k \<Longrightarrow> within k m \<Longrightarrow> within x m"
  by (simp add: within_bits)

lemma csr_ok_default: "csr_ok csr_file_default"
  by (simp add: csr_ok_def csr_file_default_def)

lemma refresh_mip_frame [simp]:
  "mie (machine (refresh_mip c)) = mie (machine c)"
  "medeleg (machine (refresh_mip c)) = medeleg (machine c)"
  "mideleg (machine (refresh_mip c)) = mideleg (machine c)"
  "mcounteren (machine (refresh_mip c)) = mcounteren (machine c)"
  "mstatus (machine (refresh_mip c)) = mstatus (machine c)"
  "supervisor (refresh_mip c) = supervisor c"
  "software_pending (refresh_mip c) = software_pending c"
  "external_pending (refresh_mip c) = external_pending c"
  by (simp_all add: refresh_mip_def)

lemma refresh_mip_value:
  assumes "within (software_pending c) MIP_WRITABLE_MASK"
    "within (external_pending c) MANAGED_INTERRUPT_MASK"
    "within (mip (machine c)) MANAGED_INTERRUPT_MASK"
  shows "mip (machine (refresh_mip c)) = (software_pending c OR external_pending c)"
proof -
  have "mip (machine c) AND NOT MANAGED_INTERRUPT_MASK = 0"
    using assms(3) by (rule within_clear)
  moreover have "software_pending c AND MIP_WRITABLE_MASK = software_pending c"
    using assms(1) by (rule within_absorb)
  moreover have "external_pending c AND MANAGED_INTERRUPT_MASK = external_pending c"
    using assms(2) by (rule within_absorb)
  ultimately show ?thesis by (simp add: refresh_mip_def)
qed

lemma csr_ok_mip_within: "csr_ok c \<Longrightarrow> within (mip (machine c)) MANAGED_INTERRUPT_MASK"
proof -
  assume "csr_ok c"
  moreover have "within (software_pending c) MIP_WRITABLE_MASK \<Longrightarrow>
      within (software_pending c) MANAGED_INTERRUPT_MASK"
    by (rule within_trans [where k = MIP_WRITABLE_MASK]) (simp_all add: within_def [of MIP_WRITABLE_MASK])
  ultimately show ?thesis by (simp add: csr_ok_def)
qed

lemma csr_write_ok: "csr_ok c \<Longrightarrow> csr_ok (csr_write a v c)"
proof (cases "a = Sip \<or> a = Mip")
  case True
  assume ok: "csr_ok c"
  have m: "within (mip (machine c)) MANAGED_INTERRUPT_MASK"
    using ok by (rule csr_ok_mip_within)
  from ok have c: "within (software_pending c) MIP_WRITABLE_MASK"
    "within (external_pending c) MANAGED_INTERRUPT_MASK" by (simp_all add: csr_ok_def)
  from True show ?thesis
  proof
    assume a: "a = Sip"
    show ?thesis using ok m c unfolding a csr_write.simps csr_ok_def
      by (subst refresh_mip_value) (simp_all add: within_and)
  next
    assume a: "a = Mip"
    show ?thesis using ok m c unfolding a csr_write.simps csr_ok_def
      by (subst refresh_mip_value) (simp_all add: within_and)
  qed
next
  case False
  assume "csr_ok c"
  with False show ?thesis
    by (cases a) (simp_all add: csr_ok_def within_and)
qed

lemma raise_if_within:
  "within p m \<Longrightarrow> within k m \<Longrightarrow> within (raise_if is l k p) m"
  by (simp add: raise_if_def)

definition external_mask :: "interrupt_set \<Rightarrow> u32" where
  "external_mask is = external_pending (sync_interrupts is csr_file_default)"

lemma external_mask_eq: "external_pending (sync_interrupts is c) = external_mask is"
  by (simp add: external_mask_def sync_interrupts_def)

lemma external_mask_within: "within (external_mask is) MANAGED_INTERRUPT_MASK"
proof -
  have k: "within (0x200::u32) MANAGED_INTERRUPT_MASK" "within (0x80::u32) MANAGED_INTERRUPT_MASK"
    "within (0x20::u32) MANAGED_INTERRUPT_MASK" "within (0x8::u32) MANAGED_INTERRUPT_MASK"
    "within (0x800::u32) MANAGED_INTERRUPT_MASK" "within (0x2::u32) MANAGED_INTERRUPT_MASK"
    by (simp_all add: within_def)
  show ?thesis
    unfolding external_mask_def sync_interrupts_def refresh_mip_frame csr_file.simps
      csr_file.update_convs csr_file_default_def
    by (intro raise_if_within k within_0)
qed

lemma sync_interrupts_mip:
  assumes "csr_ok c"
  shows "mip (machine (sync_interrupts is c)) = (software_pending c OR external_mask is)"
proof -
  have e: "external_mask is = external_pending
      (c\<lparr>external_pending := external_pending (sync_interrupts is c)\<rparr>)"
    by (simp add: external_mask_eq)
  have "sync_interrupts is c = refresh_mip (c\<lparr>external_pending := external_mask is\<rparr>)"
    by (simp add: sync_interrupts_def external_mask_def)
  then show ?thesis
    using assms external_mask_within csr_ok_mip_within [OF assms]
    by (simp add: refresh_mip_value csr_ok_def)
qed

lemma sync_interrupts_ok: "csr_ok c \<Longrightarrow> csr_ok (sync_interrupts is c)"
proof -
  assume ok: "csr_ok c"
  have s: "sync_interrupts is c = refresh_mip (c\<lparr>external_pending := external_mask is\<rparr>)"
    by (simp add: sync_interrupts_def external_mask_def)
  show ?thesis
    using ok external_mask_within sync_interrupts_mip [OF ok, of "is"]
    by (simp add: csr_ok_def s)
qed

lemma csr_counters_ok:
  "csr_ok c \<Longrightarrow> csr_ok (increment_cycle c)" "csr_ok c \<Longrightarrow> csr_ok (increment_time c)"
  "csr_ok c \<Longrightarrow> csr_ok (set_time t c)" "csr_ok c \<Longrightarrow> csr_ok (increment_instret n c)"
  by (simp_all add: csr_ok_def increment_cycle_def increment_time_def set_time_def
      increment_instret_def)

lemma enter_trap_ok: "csr_ok c \<Longrightarrow> csr_ok (snd (enter_trap t pc p c))"
  by (simp add: csr_ok_def enter_trap_def enter_machine_trap_def enter_supervisor_trap_def Let_def)

lemma return_ok:
  "csr_ok c \<Longrightarrow> csr_ok (snd (return_from_machine_trap c))"
  "csr_ok c \<Longrightarrow> csr_ok (snd (return_from_supervisor_trap c))"
  by (simp_all add: csr_ok_def return_from_machine_trap_def return_from_supervisor_trap_def Let_def)

subsection \<open>Reads and writes as views of architectural slots\<close>

text \<open>
  The abstract CSR file is an array of 64-bit slots. An address is a view of one slot: the half of
  it that it shows, the bits of that half it reads and the bits it writes.
\<close>

datatype csr_slot =
    StatusSlot | EnableSlot | PendingSlot | CycleSlot | TimeSlot | InstretSlot
  | MedelegSlot | MidelegSlot | MtvecSlot | McounterenSlot | MepcSlot | McauseSlot | MtvalSlot
  | StvecSlot | ScounterenSlot | SepcSlot | ScauseSlot | StvalSlot | SatpSlot

fun slot_value :: "csr_file \<Rightarrow> csr_slot \<Rightarrow> u64" where
  "slot_value c StatusSlot = ucast (mstatus (machine c))"
| "slot_value c EnableSlot = ucast (mie (machine c))"
| "slot_value c PendingSlot = ucast (software_pending c)"
| "slot_value c CycleSlot = mcycle (machine c)"
| "slot_value c TimeSlot = time (machine c)"
| "slot_value c InstretSlot = minstret (machine c)"
| "slot_value c MedelegSlot = ucast (medeleg (machine c))"
| "slot_value c MidelegSlot = ucast (mideleg (machine c))"
| "slot_value c MtvecSlot = ucast (mtvec (machine c))"
| "slot_value c McounterenSlot = ucast (mcounteren (machine c))"
| "slot_value c MepcSlot = ucast (mepc (machine c))"
| "slot_value c McauseSlot = ucast (mcause (machine c))"
| "slot_value c MtvalSlot = ucast (mtval (machine c))"
| "slot_value c StvecSlot = ucast (stvec (supervisor c))"
| "slot_value c ScounterenSlot = ucast (scounteren (supervisor c))"
| "slot_value c SepcSlot = ucast (sepc (supervisor c))"
| "slot_value c ScauseSlot = ucast (scause (supervisor c))"
| "slot_value c StvalSlot = ucast (stval (supervisor c))"
| "slot_value c SatpSlot = ucast (satp (supervisor c))"

fun view_slot :: "csr_address \<Rightarrow> csr_slot" where
  "view_slot Sstatus = StatusSlot"
| "view_slot Mstatus = StatusSlot"
| "view_slot Sie = EnableSlot"
| "view_slot Mie = EnableSlot"
| "view_slot Sip = PendingSlot"
| "view_slot Mip = PendingSlot"
| "view_slot Mcycle = CycleSlot"
| "view_slot Cycle = CycleSlot"
| "view_slot Mcycleh = CycleSlot"
| "view_slot Cycleh = CycleSlot"
| "view_slot Time = TimeSlot"
| "view_slot Timeh = TimeSlot"
| "view_slot Minstret = InstretSlot"
| "view_slot Instret = InstretSlot"
| "view_slot Minstreth = InstretSlot"
| "view_slot Instreth = InstretSlot"
| "view_slot Medeleg = MedelegSlot"
| "view_slot Mideleg = MidelegSlot"
| "view_slot Mtvec = MtvecSlot"
| "view_slot Mcounteren = McounterenSlot"
| "view_slot Mepc = MepcSlot"
| "view_slot Mcause = McauseSlot"
| "view_slot Mtval = MtvalSlot"
| "view_slot Stvec = StvecSlot"
| "view_slot Scounteren = ScounterenSlot"
| "view_slot Sepc = SepcSlot"
| "view_slot Scause = ScauseSlot"
| "view_slot Stval = StvalSlot"
| "view_slot Satp = SatpSlot"

definition view_shift :: "csr_address \<Rightarrow> nat" where
  "view_shift a = (if a \<in> {Mcycleh, Cycleh, Timeh, Minstreth, Instreth} then 32 else 0)"

text \<open>The supervisor views of the shared registers hide the machine bits.\<close>

fun read_mask :: "csr_address \<Rightarrow> u32" where
  "read_mask Sstatus = SSTATUS_MASK"
| "read_mask Sie = SIE_MASK"
| "read_mask Sip = SIP_MASK"
| "read_mask _ = 0xffffffff"

fun write_mask :: "csr_address \<Rightarrow> u32" where
  "write_mask Sstatus = SSTATUS_MASK"
| "write_mask Sie = SIE_MASK"
| "write_mask Sip = SIP_WRITABLE_MASK"
| "write_mask Mie = MIE_MASK"
| "write_mask Mip = MIP_WRITABLE_MASK"
| "write_mask Medeleg = MEDELEG_MASK"
| "write_mask Mideleg = MIDELEG_MASK"
| "write_mask Mcounteren = COUNTEREN_MASK"
| "write_mask Scounteren = COUNTEREN_MASK"
| "write_mask _ = 0xffffffff"

definition merge64 :: "u64 \<Rightarrow> u32 \<Rightarrow> u32 \<Rightarrow> nat \<Rightarrow> u64" where
  "merge64 old k v sh = (old AND NOT (push_bit sh (ucast k))) OR push_bit sh (ucast (v AND k))"

definition view_read :: "(csr_slot \<Rightarrow> u64) \<Rightarrow> u32 \<Rightarrow> csr_address \<Rightarrow> u32" where
  "view_read slots external a =
     (ucast (drop_bit (view_shift a) (slots (view_slot a)))
        OR (if view_slot a = PendingSlot then external else 0)) AND read_mask a"

definition view_write :: "csr_address \<Rightarrow> u32 \<Rightarrow> (csr_slot \<Rightarrow> u64) \<Rightarrow> csr_slot \<Rightarrow> u64" where
  "view_write a v slots =
     slots(view_slot a := merge64 (slots (view_slot a)) (write_mask a) v (view_shift a))"

lemma merge64_partial: "merge64 (ucast x) k v 0 = ucast ((x AND NOT k) OR (v AND k))"
  by (rule bit_word_eqI) (auto simp: merge64_def bit_simps not_bit_ge dest: bit_imp_le_length)

lemma merge64_whole: "within x k \<Longrightarrow> merge64 (ucast x) k v 0 = ucast (v AND k)"
  by (simp add: merge64_partial within_clear)

lemma and_full32 [simp]: "v AND 0xffffffff = (v :: u32)"
proof -
  have "(0xffffffff :: u32) = - 1" by simp
  then show ?thesis by (metis and.right_neutral)
qed

lemma ucast_via_64 [simp]: "ucast (ucast (x :: u32) :: u64) = x"
  by (rule bit_word_eqI) (simp add: bit_simps)

lemma merge64_low: "merge64 t 0xffffffff v 0 = write_low_half t v"
  by (simp only: merge64_def write_low_half_def and_full32) simp

lemma merge64_high: "merge64 t 0xffffffff v 32 = write_high_half t v"
proof -
  have "NOT (push_bit 32 (ucast (0xffffffff::u32))) = (0xffffffff :: u64)" by simp
  then show ?thesis by (simp only: merge64_def write_high_half_def or.commute and_full32)
qed

lemma write_low_half_ucast: "write_low_half (ucast (x :: u32)) v = ucast v"
proof -
  have "ucast x AND NOT (0xffffffff :: u64) = ucast (x AND NOT 0xffffffff)"
    by (rule bit_word_eqI) (auto simp: bit_simps not_bit_ge dest: bit_imp_le_length)
  also have "x AND NOT 0xffffffff = 0"
  proof -
    have "NOT (0xffffffff :: u32) = 0" by simp
    then show ?thesis by (simp only: bit.conj_zero_right)
  qed
  finally show ?thesis by (simp only: write_low_half_def) simp
qed

lemma csr_read_view: "csr_ok c \<Longrightarrow> csr_read c a = view_read (slot_value c) (external_pending c) a"
  by (cases a) (simp_all add: view_read_def view_shift_def low_half_def high_half_def csr_ok_def)

lemma csr_write_slot:
  assumes "csr_ok c"
  shows "slot_value (csr_write a v c) (view_slot a) =
     merge64 (slot_value c (view_slot a)) (write_mask a) v (view_shift a)"
proof (cases "a \<in> {Sstatus, Sie, Sip, Mip}")
  case True
  then show ?thesis by (auto simp: view_shift_def merge64_partial)
next
  case False
  from assms have "within (mie (machine c)) MIE_MASK" "within (medeleg (machine c)) MEDELEG_MASK"
    "within (mideleg (machine c)) MIDELEG_MASK" "within (mcounteren (machine c)) COUNTEREN_MASK"
    "within (scounteren (supervisor c)) COUNTEREN_MASK" by (simp_all add: csr_ok_def)
  with False show ?thesis
    by (cases a) (simp_all add: view_shift_def merge64_low merge64_high merge64_whole
        write_low_half_ucast)
qed

lemma csr_write_other_slot:
  "s \<noteq> view_slot a \<Longrightarrow> slot_value (csr_write a v c) s = slot_value c s"
  by (cases a; cases s) (simp_all add: refresh_mip_def)

text \<open>
  C17. The CSR file implements the array of slots: every read of a file that satisfies the WARL
  invariant is the read of its view, and every write changes only the slot of the address
  written, only in the half and the bits the view may write, and leaves the interrupt inputs
  alone. So \<open>sstatus\<close>, \<open>sie\<close> and \<open>sip\<close> are restricted views of the machine registers, the
  user counters are views of the machine counters, and no other two addresses alias.
\<close>

theorem csr_file_refines_slots:
  assumes "csr_ok c"
  shows "csr_read c a = view_read (slot_value c) (external_pending c) a \<and>
    slot_value (csr_write a v c) = view_write a v (slot_value c) \<and>
    external_pending (csr_write a v c) = external_pending c \<and> csr_ok (csr_write a v c)"
proof -
  have "slot_value (csr_write a v c) = view_write a v (slot_value c)"
    using csr_write_slot [OF assms] csr_write_other_slot
    by (auto simp: view_write_def)
  moreover have "external_pending (csr_write a v c) = external_pending c"
    by (cases a) simp_all
  ultimately show ?thesis
    using csr_read_view [OF assms] csr_write_ok [OF assms] by simp
qed

theorem csr_file_refines_slots_witness:
  "csr_read csr_file_default Sstatus = view_read (slot_value csr_file_default) 0 Sstatus \<and>
   slot_value (csr_write Mstatus 0xffffffff csr_file_default) StatusSlot = 0xffffffff"
  using csr_file_refines_slots 
    [OF csr_ok_default, where a = Sstatus and v = "0xffffffff"]
    csr_file_refines_slots [OF csr_ok_default, where a = Mstatus and v = "0xffffffff"]
  by (simp add: csr_file_default_def view_write_def merge64_def view_shift_def)

subsection \<open>Which interrupt is taken\<close>

lemma mask_bits [masks]:
  "bit (0x2::u32) n \<longleftrightarrow> n = 1" "bit (0x8::u32) n \<longleftrightarrow> n = 3" "bit (0x20::u32) n \<longleftrightarrow> n = 5"
  "bit (0x80::u32) n \<longleftrightarrow> n = 7" "bit (0x100::u32) n \<longleftrightarrow> n = 8" "bit (0x200::u32) n \<longleftrightarrow> n = 9"
  "bit (0x800::u32) n \<longleftrightarrow> n = 11"
  by (rule mask_of_bit, simp, simp)+

lemma mpp_mask_bits [masks]: "bit (0x1800::u32) n \<longleftrightarrow> n = 11 \<or> n = 12"
proof -
  have "(0x1800::u32) = 0x800 OR 0x1000" by simp
  moreover have "bit (0x1000::u32) n \<longleftrightarrow> n = 12" by (rule mask_of_bit) simp_all
  ultimately show ?thesis by (simp only: bit_or_iff mask_bits)
qed

lemma flag_bits [masks]:
  "(x AND (0x2::u32) = 0) = (\<not> bit x 1)" "(x AND (0x8::u32) = 0) = (\<not> bit x 3)"
  "(x AND (0x20::u32) = 0) = (\<not> bit x 5)" "(x AND (0x80::u32) = 0) = (\<not> bit x 7)"
  "(x AND (0x100::u32) = 0) = (\<not> bit x 8)" "(x AND (0x200::u32) = 0) = (\<not> bit x 9)"
  "(x AND (0x800::u32) = 0) = (\<not> bit x 11)"
  by (rule bit_of_mask, simp)+

lemma cause_flag_bits [masks]: "(x AND push_bit k (1::u32) = 0) = (\<not> bit x k)"
  by (simp add: bit_iff_and_push_bit_not_eq_0)

lemma bit_set_flag [masks]: "bit (set_flag x m b) n = (if bit m n then b else bit x n)"
  by (auto simp: set_flag_def bit_simps dest: bit_imp_le_length)

lemma privilege_bits_bit [masks]:
  "bit (privilege_bits p) n \<longleftrightarrow> (p \<noteq> User \<and> n = 11) \<or> (p = Machine \<and> n = 12)"
proof (cases p)
  case Machine
  have "(0x1800::u32) = push_bit 11 3" by simp
  then show ?thesis using Machine mpp_mask_bits [of n] by auto
next
  case Supervisor
  then show ?thesis using mask_bits(7) [of n] by simp
qed simp

text \<open>
  The conditions of the privileged architecture for taking an interrupt: it is pending and
  enabled, and the privilege mode it is delivered to either is higher than the current one or
  has its interrupts enabled; an interrupt delegated to S-mode is never taken in M-mode.
\<close>

definition delegated :: "csr_file \<Rightarrow> interrupt \<Rightarrow> bool" where
  "delegated c i \<longleftrightarrow> is_supervisor i \<and> bit (mideleg (machine c)) (unat (interrupt_cause_code i))"

definition deliverable :: "csr_file \<Rightarrow> privilege_mode \<Rightarrow> interrupt \<Rightarrow> bool" where
  "deliverable c p i \<longleftrightarrow>
     bit (mip (machine c)) (unat (interrupt_cause_code i)) \<and>
     bit (mie (machine c)) (unat (interrupt_cause_code i)) \<and>
     (if delegated c i then p = User \<or> (p = Supervisor \<and> bit (mstatus (machine c)) 1)
      else p \<noteq> Machine \<or> bit (mstatus (machine c)) 3)"

fun interrupt_rank :: "interrupt \<Rightarrow> nat" where
  "interrupt_rank MachineExternal = 0"
| "interrupt_rank MachineSoftware = 1"
| "interrupt_rank MachineTimer = 2"
| "interrupt_rank SupervisorExternal = 3"
| "interrupt_rank SupervisorSoftware = 4"
| "interrupt_rank SupervisorTimer = 5"

lemma interrupt_masks_bit [masks]:
  "(x AND interrupt_pending_mask i = 0) = (\<not> bit x (unat (interrupt_cause_code i)))"
  "(x AND interrupt_enable_mask i = 0) = (\<not> bit x (unat (interrupt_cause_code i)))"
  by (cases i; simp add: masks)+

lemma delegated_iff: "delegates_interrupt_to_supervisor c i = delegated c i"
  by (simp only: delegates_interrupt_to_supervisor_def delegated_def cause_flag_bits not_not)

lemma first_interrupt_find:
  "first_interrupt c p is = List.find (deliverable c p) is"
proof (induction "is")
  case Nil
  then show ?case by simp
next
  case (Cons i "is")
  then show ?case
    by (auto simp: interrupt_is_pending_def interrupt_is_enabled_def deliverable_def
        interrupt_target_privilege_def delegated_iff masks)
qed

lemma interrupt_priority_complete: "i \<in> set interrupt_priority"
  by (cases i) (simp_all add: interrupt_priority_def)

lemma interrupt_priority_rank:
  "k < length interrupt_priority \<Longrightarrow> interrupt_rank (interrupt_priority ! k) = k"
proof -
  assume "k < length interrupt_priority"
  then consider "k = 0" | "k = 1" | "k = 2" | "k = 3" | "k = 4" | "k = 5"
    by (simp add: interrupt_priority_def) (atomize_elim, arith)
  then show ?thesis by cases (simp_all add: interrupt_priority_def)
qed

lemma pending_interrupt_None: "pending_interrupt c p = None \<longleftrightarrow> (\<forall>i. \<not> deliverable c p i)"
  using interrupt_priority_complete
  by (auto simp: pending_interrupt_def first_interrupt_find find_None_iff)

lemma pending_interrupt_Some:
  assumes "pending_interrupt c p = Some i"
  shows "deliverable c p i \<and> (\<forall>j. deliverable c p j \<longrightarrow> interrupt_rank i \<le> interrupt_rank j)"
proof -
  obtain k where k: "k < length interrupt_priority" "deliverable c p i"
    "i = interrupt_priority ! k" "\<forall>j < k. \<not> deliverable c p (interrupt_priority ! j)"
    using assms by (auto simp: pending_interrupt_def first_interrupt_find find_Some_iff)
  have "interrupt_rank i \<le> interrupt_rank j" if d: "deliverable c p j" for j
  proof -
    obtain m where m: "m < length interrupt_priority" "j = interrupt_priority ! m"
      using interrupt_priority_complete by (metis in_set_conv_nth)
    with k d have "k \<le> m" by (meson not_less)
    then show ?thesis using k m interrupt_priority_rank by simp
  qed
  with k show ?thesis by simp
qed

lemma interrupt_rank_inj: "interrupt_rank i = interrupt_rank j \<longleftrightarrow> i = j"
  by (cases i; cases j) simp_all

text \<open>
  C20. The interrupt that the hart takes is exactly the deliverable one of the highest priority
  (external before software before timer, machine before supervisor), and none is taken only
  when none is deliverable.
\<close>

theorem pending_interrupt_highest:
  "pending_interrupt c p = Some i \<longleftrightarrow>
     deliverable c p i \<and> (\<forall>j. deliverable c p j \<longrightarrow> interrupt_rank i \<le> interrupt_rank j)"
proof
  assume "pending_interrupt c p = Some i"
  then show "deliverable c p i \<and> (\<forall>j. deliverable c p j \<longrightarrow> interrupt_rank i \<le> interrupt_rank j)"
    by (rule pending_interrupt_Some)
next
  assume i: "deliverable c p i \<and> (\<forall>j. deliverable c p j \<longrightarrow> interrupt_rank i \<le> interrupt_rank j)"
  then obtain j where j: "pending_interrupt c p = Some j"
    using pending_interrupt_None by fastforce
  with i pending_interrupt_Some [OF j] have "interrupt_rank i = interrupt_rank j"
    by (meson le_antisym)
  with j show "pending_interrupt c p = Some i" by (simp add: interrupt_rank_inj)
qed

text \<open>Timer and external interrupt pending and enabled: the external one is taken in U-mode.\<close>

definition sample_pending :: csr_file where
  "sample_pending = csr_file_default\<lparr>machine := (machine csr_file_default)\<lparr>mie := 0x880, mip := 0x880\<rparr>\<rparr>"

theorem pending_interrupt_highest_witness:
  "deliverable sample_pending User MachineExternal \<and> deliverable sample_pending User MachineTimer \<and>
     interrupt_rank MachineExternal \<le> interrupt_rank MachineTimer"
proof -
  have p: "pending_interrupt sample_pending User = Some MachineExternal"
    by (simp add: sample_pending_def pending_interrupt_def interrupt_priority_def
        interrupt_is_pending_def interrupt_is_enabled_def interrupt_target_privilege_def
        delegates_interrupt_to_supervisor_def is_supervisor_def)
  have t: "deliverable sample_pending User MachineTimer"
    by (simp add: deliverable_def sample_pending_def interrupt_is_pending_def
        interrupt_is_enabled_def interrupt_target_privilege_def
        delegates_interrupt_to_supervisor_def is_supervisor_def)
  show ?thesis using p t unfolding pending_interrupt_highest by blast
qed

subsection \<open>Facts about trap entry and return\<close>

lemma enter_trap_target:
  "fst (fst (enter_trap t pc p c)) = (if delegates_trap_to_supervisor c t p then Supervisor else Machine)"
  by (simp add: enter_trap_def enter_machine_trap_def enter_supervisor_trap_def Let_def)

lemma delegates_below_machine: "delegates_trap_to_supervisor c t p \<Longrightarrow> p \<noteq> Machine"
  by (auto simp: delegates_trap_to_supervisor_def)

lemma machine_entry_mstatus:
  "bit (mstatus (machine (snd (enter_machine_trap t pc p c)))) n =
     (if n = 3 then False else if n = 7 then bit (mstatus (machine c)) 3
      else if n = 11 then p \<noteq> User else if n = 12 then p = Machine
      else bit (mstatus (machine c)) n)"
proof -
  have "mstatus (machine (snd (enter_machine_trap t pc p c))) =
     (set_flag (set_flag (set_flag (mstatus (machine c)) MSTATUS_MPIE (bit (mstatus (machine c)) 3))
       MSTATUS_MIE False) MSTATUS_MPP_MASK False OR privilege_bits p)"
    by (simp add: enter_machine_trap_def Let_def masks set_flag_def)
  then show ?thesis by (simp only: bit_or_iff masks) auto
qed

lemma supervisor_entry_mstatus:
  "bit (mstatus (machine (snd (enter_supervisor_trap t pc p c)))) n =
     (if n = 1 then False else if n = 5 then bit (mstatus (machine c)) 1
      else if n = 8 then p = Supervisor else bit (mstatus (machine c)) n)"
proof -
  have "mstatus (machine (snd (enter_supervisor_trap t pc p c))) =
     set_flag (set_flag (set_flag (mstatus (machine c)) MSTATUS_SPIE (bit (mstatus (machine c)) 1))
       MSTATUS_SIE False) MSTATUS_SPP (p = Supervisor)"
    by (simp add: enter_supervisor_trap_def Let_def masks set_flag_def)
  then show ?thesis by (simp only: masks) auto
qed

lemma machine_return_mstatus:
  "bit (mstatus (machine (snd (return_from_machine_trap c)))) n =
     (if n = 3 then bit (mstatus (machine c)) 7 else if n = 7 then True
      else if n = 11 \<or> n = 12 then False else bit (mstatus (machine c)) n)"
proof -
  have "mstatus (machine (snd (return_from_machine_trap c))) =
     set_flag (set_flag (set_flag (mstatus (machine c)) MSTATUS_MIE (bit (mstatus (machine c)) 7))
       MSTATUS_MPIE True) MSTATUS_MPP_MASK False"
    by (simp add: return_from_machine_trap_def Let_def masks set_flag_def)
  then show ?thesis by (simp only: masks) auto
qed

lemma supervisor_return_mstatus:
  "bit (mstatus (machine (snd (return_from_supervisor_trap c)))) n =
     (if n = 1 then bit (mstatus (machine c)) 5 else if n = 5 then True
      else if n = 8 then False else bit (mstatus (machine c)) n)"
proof -
  have "mstatus (machine (snd (return_from_supervisor_trap c))) =
     set_flag (set_flag (set_flag (mstatus (machine c)) MSTATUS_SIE (bit (mstatus (machine c)) 5))
       MSTATUS_SPIE True) MSTATUS_SPP False"
    by (simp add: return_from_supervisor_trap_def Let_def masks set_flag_def)
  then show ?thesis by (simp only: masks) auto
qed

lemma privilege_from_mpp:
  assumes "bit s 11 \<longleftrightarrow> p \<noteq> User" "bit s 12 \<longleftrightarrow> p = Machine"
  shows "privilege_from_bits (drop_bit 11 (s AND MSTATUS_MPP_MASK)) = p"
proof -
  have "s AND MSTATUS_MPP_MASK = privilege_bits p"
    by (rule bit_word_eqI) (simp only: bit_and_iff masks, use assms in auto)
  then show ?thesis by (cases p) (simp_all add: privilege_from_bits_def)
qed

lemma machine_return_after_entry:
  "fst (return_from_machine_trap (snd (enter_machine_trap t pc p c))) = (p, pc)"
proof -
  have "privilege_from_bits (drop_bit 11
      (mstatus (machine (snd (enter_machine_trap t pc p c))) AND MSTATUS_MPP_MASK)) = p"
    by (rule privilege_from_mpp) (simp_all add: machine_entry_mstatus)
  moreover have "mepc (machine (snd (enter_machine_trap t pc p c))) = pc"
    by (simp add: enter_machine_trap_def Let_def)
  ultimately show ?thesis by (simp add: return_from_machine_trap_def Let_def)
qed

lemma supervisor_return_after_entry:
  "p \<noteq> Machine \<Longrightarrow> fst (return_from_supervisor_trap (snd (enter_supervisor_trap t pc p c))) = (p, pc)"
proof -
  assume "p \<noteq> Machine"
  moreover have "mstatus (machine (snd (enter_supervisor_trap t pc p c))) AND MSTATUS_SPP \<noteq> 0
      \<longleftrightarrow> p = Supervisor"
    by (simp add: masks supervisor_entry_mstatus)
  moreover have "sepc (supervisor (snd (enter_supervisor_trap t pc p c))) = pc"
    by (simp add: enter_supervisor_trap_def Let_def)
  ultimately show ?thesis
    by (cases p) (simp_all add: return_from_supervisor_trap_def Let_def)
qed

lemma entry_return_mstatus:
  "bit (mstatus (machine (snd (return_from_machine_trap (snd (enter_machine_trap t pc p c)))))) n =
     (if n = 7 then True else if n = 11 \<or> n = 12 then False else bit (mstatus (machine c)) n)"
  "bit (mstatus (machine (snd (return_from_supervisor_trap (snd (enter_supervisor_trap t pc p c)))))) n =
     (if n = 5 then True else if n = 8 then False else bit (mstatus (machine c)) n)"
  by (simp_all add: machine_return_mstatus machine_entry_mstatus supervisor_return_mstatus
      supervisor_entry_mstatus)

text \<open>
  C18. A trap can be undone: after trap entry, the return instruction of the mode that the trap
  was delivered to (\<open>mret\<close> in M-mode, \<open>sret\<close> in S-mode) goes back to the interrupted program
  counter and privilege mode, and leaves \<open>mstatus\<close> as it was before the trap except for the
  previous-mode fields of that mode, which the architecture resets (\<open>MPIE\<close> set and \<open>MPP\<close>
  cleared, \<open>SPIE\<close> set and \<open>SPP\<close> cleared).
\<close>

theorem trap_entry_return_roundtrip:
  "case enter_trap t pc p c of ((target, _), c') \<Rightarrow>
     (case (if target = Machine then return_from_machine_trap c'
            else return_from_supervisor_trap c') of (back, c'') \<Rightarrow>
        back = (p, pc) \<and>
        (\<forall>n. bit (mstatus (machine c'')) n =
          (if target = Machine
           then (if n = 7 then True else if n = 11 \<or> n = 12 then False
                 else bit (mstatus (machine c)) n)
           else (if n = 5 then True else if n = 8 then False
                 else bit (mstatus (machine c)) n))))"
proof (cases "delegates_trap_to_supervisor c t p")
  case True
  obtain v c' where e: "enter_supervisor_trap t pc p c = (v, c')" by fastforce
  obtain b c'' where r: "return_from_supervisor_trap c' = (b, c'')" by fastforce
  show ?thesis
    using True supervisor_return_after_entry [OF delegates_below_machine [OF True], of t pc c]
      entry_return_mstatus(2) [of t pc p c]
    by (simp add: enter_trap_def e r)
next
  case False
  obtain v c' where e: "enter_machine_trap t pc p c = (v, c')" by fastforce
  obtain b c'' where r: "return_from_machine_trap c' = (b, c'')" by fastforce
  show ?thesis
    using False machine_return_after_entry [of t pc p c] entry_return_mstatus(1) [of t pc p c]
    by (simp add: enter_trap_def e r)
qed

text \<open>
  The handler reads the trap's report from the registers of the mode it runs in, and nothing
  else that software can see changes except \<open>mstatus\<close>.
\<close>

lemma enter_trap_report:
  "case enter_trap t pc p c of ((target, v), c') \<Rightarrow>
     (if target = Machine
      then mepc (machine c') = pc \<and> mcause (machine c') = cause_bits t \<and> mtval (machine c') = tval t \<and>
        supervisor c' = supervisor c \<and> v = trap_vector (mtvec (machine c)) t
      else sepc (supervisor c') = pc \<and> scause (supervisor c') = cause_bits t \<and>
        stval (supervisor c') = tval t \<and> mepc (machine c') = mepc (machine c) \<and>
        v = trap_vector (stvec (supervisor c)) t)"
  by (simp add: enter_trap_def enter_machine_trap_def enter_supervisor_trap_def Let_def)

lemma enter_trap_frame:
  assumes "enter_trap t pc p c = ((target, v), c')"
  shows "mie (machine c') = mie (machine c)" "mip (machine c') = mip (machine c)"
    "mideleg (machine c') = mideleg (machine c)" "medeleg (machine c') = medeleg (machine c)"
    "minstret (machine c') = minstret (machine c)"
  using assms
  by (auto simp: enter_trap_def enter_machine_trap_def enter_supervisor_trap_def Let_def
      split: if_splits)

lemma enter_trap_cases:
  assumes "enter_trap t pc p c = ((target, v), c')"
  shows "(target = Supervisor \<and> p \<noteq> Machine \<and> c' = snd (enter_supervisor_trap t pc p c)) \<or>
         (target = Machine \<and> c' = snd (enter_machine_trap t pc p c))"
  using assms delegates_below_machine
  by (auto simp: enter_trap_def split: if_splits prod.splits)

text \<open>
  C19. Taking a trap never lowers the privilege mode, and the handler is entered with interrupts
  closed: in M-mode no interrupt is deliverable right after the entry, whatever is pending, and
  in S-mode the only deliverable ones are those that M-mode has not delegated.
\<close>

theorem trap_entry_closes_interrupts:
  "case enter_trap t pc p c of ((target, v), c') \<Rightarrow>
     csr_level p \<le> csr_level target \<and>
     (case pending_interrupt c' target of
        None \<Rightarrow> True | Some i \<Rightarrow> target = Supervisor \<and> \<not> delegated c i)"
proof -
  obtain target v c' where e: "enter_trap t pc p c = ((target, v), c')" by (metis surj_pair)
  have level: "csr_level p \<le> csr_level target"
    using enter_trap_cases [OF e] by (cases p; cases target) auto
  have "target = Supervisor \<and> \<not> delegated c i" if "pending_interrupt c' target = Some i" for i
  proof -
    from pending_interrupt_Some [OF that] have d: "deliverable c' target i" by simp
    have "delegated c' i = delegated c i"
      using enter_trap_frame [OF e] by (simp add: delegated_def)
    then show ?thesis
      using d enter_trap_cases [OF e]
      by (auto simp: deliverable_def machine_entry_mstatus supervisor_entry_mstatus split: if_splits)
  qed
  with e level show ?thesis by (auto split: option.split)
qed

end
