(* ===== verification/Hart.thy ===== *)
theory Hart
  imports Csr_File
begin

text \<open>
  The architectural state of a hart: the register file (\<open>crates/cpu/src/state/registers.rs\<close>) and
  \<open>HartState\<close> (\<open>state/mod.rs\<close>). Register indices out of range panic in the source and are \<open>None\<close>
  here; the invariant \<open>hart_ok\<close> (32 registers, \<open>x0 = 0\<close>, the WARL invariant of the CSR file) rules
  this out for the indices that the decoder produces.
\<close>

type_synonym register_file = "u32 list"

definition num_registers :: nat where
  "num_registers = 32"

definition register_file_default :: register_file where
  "register_file_default = replicate num_registers 0"

definition register_read :: "register_file \<Rightarrow> u8 \<Rightarrow> u32 option" where
  "register_read regs index = idx regs (unat index)"

definition register_write :: "u8 \<Rightarrow> u32 \<Rightarrow> register_file \<Rightarrow> register_file option" where
  "register_write index v regs = (if index \<noteq> 0 then idx_set regs (unat index) v else Some regs)"

record hart_state =
  reset_vector :: u32
  pc :: u32
  registers :: register_file
  csrs :: csr_file
  privilege :: privilege_mode
  halted :: bool

definition hart_new :: "u32 \<Rightarrow> hart_state" where
  "hart_new vector =
     \<lparr>reset_vector = vector, pc = vector, registers = register_file_default,
      csrs = csr_write Stvec vector (csr_write Mtvec vector csr_file_default),
      privilege = Machine, halted = False\<rparr>"

definition hart_reset :: "u32 \<Rightarrow> hart_state \<Rightarrow> hart_state" where
  "hart_reset vector s =
     s\<lparr>reset_vector := vector, pc := vector, registers := register_file_default,
       csrs := csr_write Stvec vector (csr_write Mtvec vector csr_file_default),
       privilege := Machine, halted := False\<rparr>"

subsection \<open>The invariant\<close>

definition regs_ok :: "register_file \<Rightarrow> bool" where
  "regs_ok regs \<longleftrightarrow> length regs = 32 \<and> regs ! 0 = 0"

definition hart_ok :: "hart_state \<Rightarrow> bool" where
  "hart_ok s \<longleftrightarrow> regs_ok (registers s) \<and> csr_ok (csrs s)"

lemma regs_ok_default: "regs_ok register_file_default"
  by (simp add: regs_ok_def register_file_default_def num_registers_def)

lemma register_read_ok:
  "regs_ok regs \<Longrightarrow> unat i < 32 \<Longrightarrow> register_read regs i = Some (regs ! unat i)"
  by (simp add: register_read_def regs_ok_def)

lemma register_write_ok:
  "regs_ok regs \<Longrightarrow> unat i < 32 \<Longrightarrow>
     \<exists>regs'. register_write i v regs = Some regs' \<and> regs_ok regs' \<and>
       regs' = (if i = 0 then regs else regs[unat i := v])"
  by (auto simp: register_write_def regs_ok_def unat_eq_0)

lemma register_read_write:
  "regs_ok regs \<Longrightarrow> unat i < 32 \<Longrightarrow> unat j < 32 \<Longrightarrow> register_write i v regs = Some regs' \<Longrightarrow>
     register_read regs' j = Some (if j = i \<and> i \<noteq> 0 then v else regs ! unat j)"
  using word_unat_eq_iff [of i j]
  by (auto simp: register_write_def register_read_def regs_ok_def nth_list_update split: if_splits)

lemma hart_ok_new: "hart_ok (hart_new v)"
  by (simp add: hart_ok_def hart_new_def regs_ok_default csr_write_ok csr_ok_default
      del: csr_write.simps)

lemma hart_reset_new: "hart_reset v s = hart_new v"
  by (simp add: hart_reset_def hart_new_def)

lemma hart_ok_reset: "hart_ok (hart_reset v s)"
  by (simp add: hart_reset_new hart_ok_new)

lemma hart_ok_csrs: "hart_ok s \<Longrightarrow> csr_ok c \<Longrightarrow> hart_ok (s\<lparr>csrs := c\<rparr>)"
  by (simp add: hart_ok_def)

lemma hart_ok_updates [simp]:
  "hart_ok (s\<lparr>pc := x\<rparr>) = hart_ok s" "hart_ok (s\<lparr>privilege := p\<rparr>) = hart_ok s"
  "hart_ok (s\<lparr>halted := h\<rparr>) = hart_ok s" "hart_ok (s\<lparr>reset_vector := x\<rparr>) = hart_ok s"
  by (simp_all add: hart_ok_def)

end
