(* ===== verification/Exec.thy ===== *)
theory Exec
  imports Hart
begin

text \<open>
  The pure execution helpers of \<open>crates/cpu/src/exec\<close>: the ALU (\<open>alu.rs\<close>), branches (\<open>branch.rs\<close>),
  effective addresses and sign extension (\<open>load_store.rs\<close>) and the CSR instructions (\<open>csr.rs\<close>).
\<close>

fun execute_alu :: "alu_op \<Rightarrow> u32 \<Rightarrow> u32 \<Rightarrow> u32" where
  "execute_alu Add lhs rhs = lhs + rhs"
| "execute_alu Sub lhs rhs = lhs - rhs"
| "execute_alu AndOp lhs rhs = lhs AND rhs"
| "execute_alu OrOp lhs rhs = lhs OR rhs"
| "execute_alu XorOp lhs rhs = lhs XOR rhs"
| "execute_alu Sll lhs rhs = push_bit (unat (rhs AND 0x1f)) lhs"
| "execute_alu Slt lhs rhs = (if lhs <s rhs then 1 else 0)"
| "execute_alu Sltu lhs rhs = (if lhs < rhs then 1 else 0)"
| "execute_alu Srl lhs rhs = drop_bit (unat (rhs AND 0x1f)) lhs"
| "execute_alu Sra lhs rhs = signed_drop_bit (unat (rhs AND 0x1f)) lhs"

fun branch_taken :: "branch_kind \<Rightarrow> u32 \<Rightarrow> u32 \<Rightarrow> bool" where
  "branch_taken Beq lhs rhs \<longleftrightarrow> lhs = rhs"
| "branch_taken Bne lhs rhs \<longleftrightarrow> lhs \<noteq> rhs"
| "branch_taken Blt lhs rhs \<longleftrightarrow> lhs <s rhs"
| "branch_taken Bge lhs rhs \<longleftrightarrow> rhs \<le>s lhs"
| "branch_taken Bltu lhs rhs \<longleftrightarrow> lhs < rhs"
| "branch_taken Bgeu lhs rhs \<longleftrightarrow> lhs \<ge> rhs"

definition branch_target :: "u32 \<Rightarrow> i32 \<Rightarrow> u32" where
  "branch_target from imm = from + imm"

definition effective_address :: "u32 \<Rightarrow> i32 \<Rightarrow> u32" where
  "effective_address base offset = base + offset"

definition sign_extend_byte :: "u8 \<Rightarrow> u32" where
  "sign_extend_byte v = scast v"

definition sign_extend_half :: "u16 \<Rightarrow> u32" where
  "sign_extend_half v = scast v"

subsection \<open>CSR instructions\<close>

record csr_write_effect =
  cw_address :: csr_address
  cw_value :: u32

record csr_outcome =
  read_value :: u32
  csr_write_back :: "csr_write_effect option"

fun write_value :: "csr_op \<Rightarrow> csr_address \<Rightarrow> u32 \<Rightarrow> u32 \<Rightarrow> csr_write_effect option" where
  "write_value ReadWrite a current src = Some \<lparr>cw_address = a, cw_value = src\<rparr>"
| "write_value ReadWriteImmediate a current src = Some \<lparr>cw_address = a, cw_value = src\<rparr>"
| "write_value ReadSet a current src =
     (if src = 0 then None else Some \<lparr>cw_address = a, cw_value = current OR src\<rparr>)"
| "write_value ReadSetImmediate a current src =
     (if src = 0 then None else Some \<lparr>cw_address = a, cw_value = current OR src\<rparr>)"
| "write_value ReadClear a current src =
     (if src = 0 then None else Some \<lparr>cw_address = a, cw_value = current AND NOT src\<rparr>)"
| "write_value ReadClearImmediate a current src =
     (if src = 0 then None else Some \<lparr>cw_address = a, cw_value = current AND NOT src\<rparr>)"

definition csr_execute :: "decoded_instruction \<Rightarrow> csr_file \<Rightarrow> u32 \<Rightarrow> csr_outcome option" where
  "csr_execute d c rs1_value =
     (case d_kind d of
        Csr op \<Rightarrow>
          (case d_csr d of
             None \<Rightarrow> None
           | Some a \<Rightarrow>
               let current = csr_read c a;
                   src = (if op = ReadWriteImmediate \<or> op = ReadSetImmediate \<or> op = ReadClearImmediate
                          then (case d_rs1 d of None \<Rightarrow> 0 | Some r \<Rightarrow> ucast r)
                          else rs1_value)
               in Some \<lparr>read_value = current, csr_write_back = write_value op a current src\<rparr>)
      | _ \<Rightarrow> None)"

subsection \<open>Properties\<close>

lemma shift_amount: "unat (x AND 0x1f) = unat (x :: u32) mod 32"
proof -
  have "x AND 0x1f = take_bit 5 x"
    by (simp add: take_bit_eq_mask mask_eq_exp_minus_1)
  then show ?thesis by (simp only: unsigned_take_bit_eq) (simp add: take_bit_eq_mod)
qed

lemma branch_taken_dual:
  "branch_taken Bne a b = (\<not> branch_taken Beq a b)"
  "branch_taken Bge a b = (\<not> branch_taken Blt a b)"
  "branch_taken Bgeu a b = (\<not> branch_taken Bltu a b)"
  by (auto simp: word_sless_alt word_sle_eq)

lemma write_value_address: "write_value op a cur src = Some w \<Longrightarrow> cw_address w = a"
  by (cases op) (auto split: if_splits)

lemma sint_sign_extend:
  "sint (sign_extend_byte v) = sint v" "sint (sign_extend_half h) = sint h"
  by (simp_all add: sign_extend_byte_def sign_extend_half_def sint_up_scast is_up)

text \<open>
  C39. The ALU computes the RV32I operations of the instruction set manual on the integer values
  of its operands: addition and subtraction modulo \<open>2^32\<close>, shifts by the low five bits of the
  second operand (the arithmetic one rounds towards minus infinity), the two comparisons on the
  signed and unsigned values, and the three logical operations bit by bit.
\<close>

theorem alu_arithmetic:
  "uint (execute_alu Add a b) = (uint a + uint b) mod 2 ^ 32 \<and>
   uint (execute_alu Sub a b) = (uint a - uint b) mod 2 ^ 32 \<and>
   uint (execute_alu Sll a b) = uint a * 2 ^ (unat b mod 32) mod 2 ^ 32 \<and>
   uint (execute_alu Srl a b) = uint a div 2 ^ (unat b mod 32) \<and>
   sint (execute_alu Sra a b) = sint a div 2 ^ (unat b mod 32) \<and>
   execute_alu Slt a b = of_bool (sint a < sint b) \<and>
   execute_alu Sltu a b = of_bool (uint a < uint b) \<and>
   bit (execute_alu AndOp a b) i = (bit a i \<and> bit b i) \<and>
   bit (execute_alu OrOp a b) i = (bit a i \<or> bit b i) \<and>
   bit (execute_alu XorOp a b) i = (bit a i \<noteq> bit b i)"
proof (intro conjI)
  show "uint (execute_alu Add a b) = (uint a + uint b) mod 2 ^ 32"
    by (simp add: uint_word_ariths)
  show "uint (execute_alu Sub a b) = (uint a - uint b) mod 2 ^ 32"
    by (simp add: uint_word_ariths)
  show "uint (execute_alu Sll a b) = uint a * 2 ^ (unat b mod 32) mod 2 ^ 32"
    by (simp only: execute_alu.simps shift_amount unsigned_push_bit_eq)
      (simp add: push_bit_eq_mult take_bit_eq_mod)
  show "uint (execute_alu Srl a b) = uint a div 2 ^ (unat b mod 32)"
    by (simp only: execute_alu.simps shift_amount unsigned_drop_bit_eq drop_bit_take_bit [symmetric])
      (use uint_bounded [of a] in \<open>simp add: drop_bit_eq_div take_bit_eq_mod\<close>)
  show "sint (execute_alu Sra a b) = sint a div 2 ^ (unat b mod 32)"
    by (simp add: shift_amount sint_signed_drop_bit_eq drop_bit_eq_div)
  show "execute_alu Slt a b = of_bool (sint a < sint b)"
    by (simp add: word_sless_alt)
  show "execute_alu Sltu a b = of_bool (uint a < uint b)"
    by (simp add: word_less_def)
  show "bit (execute_alu AndOp a b) i = (bit a i \<and> bit b i)"
    "bit (execute_alu OrOp a b) i = (bit a i \<or> bit b i)"
    "bit (execute_alu XorOp a b) i = (bit a i \<noteq> bit b i)"
    by (simp_all add: bit_and_iff bit_or_iff bit_xor_iff)
qed

end
