(* ===== verification/Mmu.thy ===== *)
theory Mmu
  imports Hart
begin

text \<open>
  The Sv32 page walker (\<open>crates/cpu/src/mmu.rs\<close>): translation requests, the eight-entry TLB and
  its fences, the walk as a resumable state machine that stalls while the bus is busy, and
  \<open>translate\<close>, the loop that drains an abandoned walk, looks up the TLB and walks.

  \<open>translate\<close> is total: the loop ends because every iteration that continues either removes the
  active walk or goes one level down. \<open>StepResult\<close> and \<open>WalkPhase\<close> keep their constructors with a
  prefix. The bus is a parameter (\<open>bus_ops\<close>), and state is the pair of the walker and the bus.
\<close>

abbreviation PAGE_OFFSET_MASK :: u32 where "PAGE_OFFSET_MASK \<equiv> 0xFFF"
abbreviation SUPERPAGE_OFFSET_MASK :: u32 where "SUPERPAGE_OFFSET_MASK \<equiv> 0x3FFFFF"
abbreviation SATP_ASID_MASK :: u32 where "SATP_ASID_MASK \<equiv> 0x1FF"
abbreviation SATP_PPN_MASK :: u32 where "SATP_PPN_MASK \<equiv> 0x3FFFFF"
abbreviation MSTATUS_MPRV :: u32 where "MSTATUS_MPRV \<equiv> 0x20000"
abbreviation MSTATUS_SUM :: u32 where "MSTATUS_SUM \<equiv> 0x40000"
abbreviation MSTATUS_MXR :: u32 where "MSTATUS_MXR \<equiv> 0x80000"
abbreviation PTE_V :: u32 where "PTE_V \<equiv> 0x1"
abbreviation PTE_R :: u32 where "PTE_R \<equiv> 0x2"
abbreviation PTE_W :: u32 where "PTE_W \<equiv> 0x4"
abbreviation PTE_X :: u32 where "PTE_X \<equiv> 0x8"
abbreviation PTE_U :: u32 where "PTE_U \<equiv> 0x10"
abbreviation PTE_G :: u32 where "PTE_G \<equiv> 0x20"
abbreviation PTE_A :: u32 where "PTE_A \<equiv> 0x40"
abbreviation PTE_D :: u32 where "PTE_D \<equiv> 0x80"
abbreviation PTE_PPN_MASK :: u32 where "PTE_PPN_MASK \<equiv> 0x3FFFFF"
abbreviation PTE_PPN0_MASK :: u32 where "PTE_PPN0_MASK \<equiv> 0x3FF"
abbreviation NONLEAF_RESERVED_MASK :: u32 where "NONLEAF_RESERVED_MASK \<equiv> 0xD0"

definition tlb_entry_count :: nat where
  "tlb_entry_count = 8"

datatype memory_access = InstructionAccess | LoadMemory | StoreMemory

datatype translation_result = PhysicalAddress u32 | TranslationStall | TranslationFault trap

record translation_fence =
  fence_virtual_address :: "u32 option"
  fence_asid :: "u16 option"

record translation_request =
  rq_satp :: u32
  rq_status :: u32
  rq_privilege :: privilege_mode
  rq_virtual_address :: u32
  rq_access :: memory_access

datatype walk_phase = ReadPte | WriteLeaf u32 u32 u32

record walk_state =
  walk_request :: translation_request
  walk_level :: u32
  walk_pte_address :: u32
  walk_global_mapping :: bool
  walk_phase :: walk_phase

record tlb_entry =
  te_satp :: u32
  te_virtual_base :: u32
  te_physical_base :: u32
  te_page_mask :: u32
  te_flags :: u32
  te_global_mapping :: bool

record page_walker =
  active :: "walk_state option"
  tlb :: "tlb_entry option list"
  next_tlb_entry :: nat

datatype step_result = StepStall | StepDrained | StepReady u32 | StepFault trap

subsection \<open>Requests and page-table entries\<close>

definition translation_enabled :: "u32 \<Rightarrow> privilege_mode \<Rightarrow> bool" where
  "translation_enabled satp_value p \<longleftrightarrow> p \<noteq> Machine \<and> drop_bit 31 satp_value = 1"

definition satp_asid :: "u32 \<Rightarrow> u16" where
  "satp_asid satp_value = ucast (drop_bit 22 satp_value AND SATP_ASID_MASK)"

definition translation_status :: "csr_file \<Rightarrow> u32" where
  "translation_status c = csr_read c Mstatus AND (MSTATUS_SUM OR MSTATUS_MXR)"

definition effective_privilege :: "csr_file \<Rightarrow> privilege_mode \<Rightarrow> memory_access \<Rightarrow> privilege_mode" where
  "effective_privilege c current access =
     (if access = InstructionAccess \<or> current \<noteq> Machine then current
      else let s = csr_read c Mstatus in
        if s AND MSTATUS_MPRV = 0 then current
        else privilege_from_bits (drop_bit 11 (s AND MSTATUS_MPP_MASK)))"

definition vpn :: "u32 \<Rightarrow> u32 \<Rightarrow> u32" where
  "vpn va level =
     (if level = 0 then drop_bit 12 va AND 0x3ff
      else if level = 1 then drop_bit 22 va AND 0x3ff else 0)"

definition root_pte_address :: "translation_request \<Rightarrow> u32" where
  "root_pte_address r =
     push_bit 12 (rq_satp r AND SATP_PPN_MASK) + vpn (rq_virtual_address r) 1 * 4"

definition pte_flags :: "u32 \<Rightarrow> u32" where
  "pte_flags pte = pte AND 0xff"

definition pte_ppn :: "u32 \<Rightarrow> u32" where
  "pte_ppn pte = drop_bit 10 pte AND PTE_PPN_MASK"

definition pte_is_global :: "u32 \<Rightarrow> bool" where
  "pte_is_global flags \<longleftrightarrow> flags AND PTE_G \<noteq> 0"

definition nonleaf_flags_valid :: "u32 \<Rightarrow> bool" where
  "nonleaf_flags_valid flags \<longleftrightarrow> flags AND NONLEAF_RESERVED_MASK = 0"

definition access_bits_for :: "translation_request \<Rightarrow> u32" where
  "access_bits_for r = PTE_A OR (if rq_access r = StoreMemory then PTE_D else 0)"

definition needs_access_bit_update :: "translation_request \<Rightarrow> u32 \<Rightarrow> bool" where
  "needs_access_bit_update r flags \<longleftrightarrow> flags AND access_bits_for r \<noteq> access_bits_for r"

definition updated_flags :: "translation_request \<Rightarrow> u32 \<Rightarrow> u32" where
  "updated_flags r flags = flags OR access_bits_for r"

definition updated_pte :: "u32 \<Rightarrow> translation_request \<Rightarrow> u32" where
  "updated_pte pte r = pte OR access_bits_for r"

definition translate_leaf :: "walk_state \<Rightarrow> u32 \<Rightarrow> u32 option" where
  "translate_leaf st pte =
     (let va = rq_virtual_address (walk_request st);
          offset = va AND PAGE_OFFSET_MASK;
          ppn = pte_ppn pte;
          ppn1 = drop_bit 10 ppn;
          ppn0 = ppn AND PTE_PPN0_MASK
      in if walk_level st = 1 then
           (if ppn0 \<noteq> 0 then None
            else Some (push_bit 12 (push_bit 10 ppn1 OR vpn va 0) OR offset))
         else if walk_level st = 0 then Some (push_bit 12 (push_bit 10 ppn1 OR ppn0) OR offset)
         else None)"

definition permissions_allow :: "translation_request \<Rightarrow> u32 \<Rightarrow> bool" where
  "permissions_allow r flags =
     (let user_page = (flags AND PTE_U \<noteq> 0);
          readable = (flags AND PTE_R \<noteq> 0);
          writable = (flags AND PTE_W \<noteq> 0);
          executable = (flags AND PTE_X \<noteq> 0);
          mxr = (rq_status r AND MSTATUS_MXR \<noteq> 0);
          sum = (rq_status r AND MSTATUS_SUM \<noteq> 0);
          load_permitted = readable \<or> (mxr \<and> executable);
          by_access = (case rq_access r of
              InstructionAccess \<Rightarrow> executable | LoadMemory \<Rightarrow> load_permitted | StoreMemory \<Rightarrow> writable)
      in case rq_privilege r of
           Machine \<Rightarrow> True
         | Supervisor \<Rightarrow>
             (if user_page
              then (if rq_access r = InstructionAccess \<or> \<not> sum then False else by_access)
              else by_access)
         | User \<Rightarrow> (if \<not> user_page then False else by_access))"

definition page_fault :: "translation_request \<Rightarrow> trap" where
  "page_fault r = TrapException (case rq_access r of
       InstructionAccess \<Rightarrow> InstructionPageFault (rq_virtual_address r)
     | LoadMemory \<Rightarrow> LoadPageFault (rq_virtual_address r)
     | StoreMemory \<Rightarrow> StorePageFault (rq_virtual_address r))"

definition access_fault :: "translation_request \<Rightarrow> trap" where
  "access_fault r = TrapException (case rq_access r of
       InstructionAccess \<Rightarrow> InstructionAccessFault (rq_virtual_address r)
     | LoadMemory \<Rightarrow> LoadAccessFault (rq_virtual_address r)
     | StoreMemory \<Rightarrow> StoreAccessFault (rq_virtual_address r))"

subsection \<open>Fences and the TLB\<close>

definition fence_all :: translation_fence where
  "fence_all = \<lparr>fence_virtual_address = None, fence_asid = None\<rparr>"

definition fence_from_operands :: "u8 option \<Rightarrow> u32 \<Rightarrow> u8 option \<Rightarrow> u32 \<Rightarrow> translation_fence" where
  "fence_from_operands rs1 rs1_value rs2 rs2_value =
     \<lparr>fence_virtual_address =
        (case rs1 of None \<Rightarrow> None | Some r \<Rightarrow> if r = 0 then None else Some rs1_value),
      fence_asid =
        (case rs2 of None \<Rightarrow> None
         | Some r \<Rightarrow> if r = 0 then None else Some (ucast (rs2_value AND SATP_ASID_MASK)))\<rparr>"

definition fence_is_global :: "translation_fence \<Rightarrow> bool" where
  "fence_is_global f \<longleftrightarrow> fence_virtual_address f = None \<and> fence_asid f = None"

definition matches_asid :: "translation_fence \<Rightarrow> tlb_entry \<Rightarrow> bool" where
  "matches_asid f e =
     (if fence_asid f \<noteq> None \<and> te_global_mapping e then False
      else (case fence_asid f of Some asid \<Rightarrow> satp_asid (te_satp e) = asid | None \<Rightarrow> True))"

definition matches_virtual_address :: "translation_fence \<Rightarrow> tlb_entry \<Rightarrow> bool" where
  "matches_virtual_address f e =
     (case fence_virtual_address f of
        Some va \<Rightarrow> va AND NOT (te_page_mask e) = te_virtual_base e
      | None \<Rightarrow> True)"

definition matches_entry :: "translation_fence \<Rightarrow> tlb_entry \<Rightarrow> bool" where
  "matches_entry f e \<longleftrightarrow> matches_asid f e \<and> matches_virtual_address f e"

definition entry_matches :: "tlb_entry \<Rightarrow> translation_request \<Rightarrow> bool" where
  "entry_matches e r \<longleftrightarrow>
     (te_global_mapping e \<or> te_satp e = rq_satp r) \<and>
     rq_virtual_address r AND NOT (te_page_mask e) = te_virtual_base e"

definition entry_translate :: "tlb_entry \<Rightarrow> translation_request \<Rightarrow> u32" where
  "entry_translate e r = te_physical_base e OR (rq_virtual_address r AND te_page_mask e)"

definition page_walker_default :: page_walker where
  "page_walker_default =
     \<lparr>active = None, tlb = replicate tlb_entry_count None, next_tlb_entry = 0\<rparr>"

definition flush_fence :: "translation_fence \<Rightarrow> page_walker \<Rightarrow> page_walker" where
  "flush_fence f w =
     (if fence_is_global f then w\<lparr>tlb := replicate tlb_entry_count None\<rparr>
      else w\<lparr>tlb := map (\<lambda>slot. case slot of
               Some e \<Rightarrow> if matches_entry f e then None else slot
             | None \<Rightarrow> slot) (tlb w)\<rparr>)"

definition walker_flush :: "page_walker \<Rightarrow> page_walker" where
  "walker_flush w = flush_fence fence_all w"

definition walker_reset :: "page_walker \<Rightarrow> page_walker" where
  "walker_reset w = (walker_flush (w\<lparr>active := None\<rparr>))\<lparr>next_tlb_entry := 0\<rparr>"

text \<open>\<open>scan_tlb\<close> is the loop of \<open>lookup_tlb\<close>, \<open>saw\<close> its \<open>saw_permission_fault\<close>.\<close>

fun scan_tlb :: "translation_request \<Rightarrow> bool \<Rightarrow> tlb_entry option list \<Rightarrow> translation_result option" where
  "scan_tlb r saw [] = (if saw then Some (TranslationFault (page_fault r)) else None)"
| "scan_tlb r saw (None # es) = scan_tlb r saw es"
| "scan_tlb r saw (Some e # es) =
     (if \<not> entry_matches e r then scan_tlb r saw es
      else if \<not> permissions_allow r (te_flags e) then scan_tlb r True es
      else if needs_access_bit_update r (te_flags e) then scan_tlb r saw es
      else Some (PhysicalAddress (entry_translate e r)))"

definition lookup_tlb :: "translation_request \<Rightarrow> page_walker \<Rightarrow> translation_result option" where
  "lookup_tlb r w = scan_tlb r False (tlb w)"

definition insert_tlb :: "walk_state \<Rightarrow> u32 \<Rightarrow> u32 \<Rightarrow> page_walker \<Rightarrow> page_walker option" where
  "insert_tlb st flags pa w =
     (let insert_masked = (\<lambda>page_mask.
        let entry =
          \<lparr>te_satp = rq_satp (walk_request st),
           te_virtual_base = rq_virtual_address (walk_request st) AND NOT page_mask,
           te_physical_base = pa AND NOT page_mask,
           te_page_mask = page_mask,
           te_flags = flags,
           te_global_mapping = (walk_global_mapping st \<or> pte_is_global flags)\<rparr>
        in (case idx_set (tlb w) (next_tlb_entry w) (Some entry) of
              None \<Rightarrow> None
            | Some t \<Rightarrow>
                Some (w\<lparr>tlb := t, next_tlb_entry := (next_tlb_entry w + 1) mod tlb_entry_count\<rparr>)))
      in if walk_level st = 1 then insert_masked SUPERPAGE_OFFSET_MASK
         else if walk_level st = 0 then insert_masked PAGE_OFFSET_MASK
         else Some w)"

subsection \<open>The walk\<close>

text \<open>The walker's state and the bus it is called with.\<close>

type_synonym ('b, 'a) walk_call = "page_walker \<times> 'b \<Rightarrow> (bus_error + 'a, page_walker \<times> 'b) outcome"

text \<open>\<open>self.active = None; return Ok(if drain_only { Drained } else { .. })\<close>\<close>

definition end_walk :: "bool \<Rightarrow> step_result \<Rightarrow> page_walker \<Rightarrow> 'b \<Rightarrow>
    (bus_error + step_result, page_walker \<times> 'b) outcome" where
  "end_walk drain_only res w b =
     Some (Inr (if drain_only then StepDrained else res), (w\<lparr>active := None\<rparr>, b))"

definition finish_leaf_update ::
  "('b, 'z) bus_ops_scheme \<Rightarrow> walk_state \<Rightarrow> u32 \<Rightarrow> u32 \<Rightarrow> u32 \<Rightarrow> bool \<Rightarrow> ('b, step_result) walk_call" where
  "finish_leaf_update ops st pa flags v drain_only s =
     (case s of (w, b) \<Rightarrow>
       (case bus_store32 ops (ucast (walk_pte_address st)) v b of
          None \<Rightarrow> None
        | Some (Inr _, b) \<Rightarrow>
            (case (if drain_only then Some w else insert_tlb st flags pa w) of
               None \<Rightarrow> None
             | Some w \<Rightarrow> end_walk drain_only (StepReady pa) w b)
        | Some (Inl e, b) \<Rightarrow>
            (if is_busy_error e then Some (Inr StepStall, (w, b))
             else end_walk drain_only (StepFault (access_fault (walk_request st))) w b)))"

text \<open>
  One step of the walk. The source stores the \<open>WriteLeaf\<close> phase and calls \<open>step\<close> again, whose
  first action is \<open>finish_leaf_update\<close> of that phase: here that call is written directly.
\<close>

definition walk_step :: "('b, 'z) bus_ops_scheme \<Rightarrow> bool \<Rightarrow> ('b, step_result) walk_call" where
  "walk_step ops drain_only s =
     (case s of (w, b) \<Rightarrow>
      (case active w of
         None \<Rightarrow> None
       | Some st \<Rightarrow>
         (case walk_phase st of
            WriteLeaf pa flags v \<Rightarrow> finish_leaf_update ops st pa flags v drain_only (w, b)
          | ReadPte \<Rightarrow>
            (case bus_load32 ops (ucast (walk_pte_address st)) b of
               None \<Rightarrow> None
             | Some (Inl e, b) \<Rightarrow>
                 (if is_busy_error e then Some (Inr StepStall, (w, b))
                  else end_walk drain_only (StepFault (access_fault (walk_request st))) w b)
             | Some (Inr pte, b) \<Rightarrow>
                 (let flags = pte_flags pte; rq = walk_request st; trap = page_fault rq in
                  if flags AND PTE_V = 0 \<or> (flags AND PTE_R = 0 \<and> flags AND PTE_W \<noteq> 0)
                  then end_walk drain_only (StepFault trap) w b
                  else if flags AND (PTE_R OR PTE_X) \<noteq> 0 then
                    (case translate_leaf st pte of
                       None \<Rightarrow> end_walk drain_only (StepFault trap) w b
                     | Some pa \<Rightarrow>
                         if \<not> permissions_allow rq flags then end_walk drain_only (StepFault trap) w b
                         else if needs_access_bit_update rq flags then
                           (let st' = st\<lparr>walk_phase :=
                                  WriteLeaf pa (updated_flags rq flags) (updated_pte pte rq)\<rparr>
                            in finish_leaf_update ops st' pa (updated_flags rq flags) (updated_pte pte rq)
                                 drain_only (w\<lparr>active := Some st'\<rparr>, b))
                         else
                           (case (if drain_only then Some w else insert_tlb st flags pa w) of
                              None \<Rightarrow> None
                            | Some w \<Rightarrow> end_walk drain_only (StepReady pa) w b))
                  else if \<not> nonleaf_flags_valid flags then end_walk drain_only (StepFault trap) w b
                  else if walk_level st = 0 then end_walk drain_only (StepFault trap) w b
                  else
                    (let next_level = walk_level st - 1;
                         st' = \<lparr>walk_request = rq, walk_level = next_level,
                            walk_pte_address =
                              push_bit 12 (pte_ppn pte) + vpn (rq_virtual_address rq) next_level * 4,
                            walk_global_mapping = (walk_global_mapping st \<or> pte_is_global flags),
                            walk_phase = ReadPte\<rparr>
                     in Some (Inr StepDrained, (w\<lparr>active := Some st'\<rparr>, b))))))))"

text \<open>How far the walk of the request \<open>r\<close> is from its end.\<close>

definition walk_measure :: "translation_request \<Rightarrow> page_walker \<Rightarrow> nat" where
  "walk_measure r w =
     (case active w of
        None \<Rightarrow> 3
      | Some st \<Rightarrow> if walk_request st = r then unat (walk_level st) else unat (walk_level st) + 4)"

lemma finish_not_drained:
  "finish_leaf_update ops st pa flags v drain (w, b) = Some (Inr StepDrained, (w', b')) \<Longrightarrow>
     drain \<and> active w' = None"
  by (auto simp: finish_leaf_update_def end_walk_def split: option.splits sum.splits if_splits)

lemma walk_step_drained:
  assumes "walk_step ops drain (w, b) = Some (Inr StepDrained, (w', b'))"
  shows "(drain \<and> active w' = None) \<or>
    (\<exists>st st'. active w = Some st \<and> active w' = Some st' \<and> walk_request st' = walk_request st \<and>
       walk_level st \<noteq> 0 \<and> walk_level st' = walk_level st - 1)"
  using assms
  by (auto simp: walk_step_def end_walk_def Let_def dest!: finish_not_drained
      split: option.splits sum.splits walk_phase.splits if_splits)

lemma walk_measure_drain:
  assumes "active w = Some st" "walk_request st \<noteq> r"
    "walk_step ops True (w, b) = Some (Inr StepDrained, (w', b'))"
  shows "walk_measure r w' < walk_measure r w"
  using walk_step_drained [OF assms(3)] assms(1,2)
  by (auto simp: walk_measure_def unat_minus_one unat_gt_0)

lemma walk_measure_level:
  assumes "active w = Some st" "walk_request st = r"
    "walk_step ops False (w, b) = Some (Inr StepDrained, (w', b'))"
  shows "walk_measure r w' < unat (walk_level st)"
  using walk_step_drained [OF assms(3)] assms(1,2)
  by (auto simp: walk_measure_def unat_minus_one unat_gt_0)

definition root_walk :: "translation_request \<Rightarrow> walk_state" where
  "root_walk r =
     \<lparr>walk_request = r, walk_level = 1, walk_pte_address = root_pte_address r,
      walk_global_mapping = False, walk_phase = ReadPte\<rparr>"

text \<open>The \<open>loop\<close> of \<open>translate\<close>.\<close>

function translate_loop ::
  "('b, 'z) bus_ops_scheme \<Rightarrow> translation_request \<Rightarrow> page_walker \<Rightarrow> 'b \<Rightarrow>
   (bus_error + translation_result, page_walker \<times> 'b) outcome" where
  "translate_loop ops r w b =
     (if (case active w of Some st \<Rightarrow> walk_request st \<noteq> r | None \<Rightarrow> False) then
        (case walk_step ops True (w, b) of
           None \<Rightarrow> None
         | Some (Inl e, s) \<Rightarrow> Some (Inl e, s)
         | Some (Inr StepStall, s) \<Rightarrow> Some (Inr TranslationStall, s)
         | Some (Inr StepDrained, (w', b')) \<Rightarrow> translate_loop ops r w' b'
         | Some (Inr (StepReady _), s) \<Rightarrow> None
         | Some (Inr (StepFault _), s) \<Rightarrow> None)
      else if \<not> translation_enabled (rq_satp r) (rq_privilege r) then
        Some (Inr (PhysicalAddress (rq_virtual_address r)), (w, b))
      else
        (case (if active w = None then lookup_tlb r w else None) of
           Some result \<Rightarrow> Some (Inr result, (w, b))
         | None \<Rightarrow>
            (case walk_step ops False
                    (if active w = None then w\<lparr>active := Some (root_walk r)\<rparr> else w, b) of
               None \<Rightarrow> None
             | Some (Inl e, s) \<Rightarrow> Some (Inl e, s)
             | Some (Inr (StepReady pa), s) \<Rightarrow> Some (Inr (PhysicalAddress pa), s)
             | Some (Inr (StepFault t), s) \<Rightarrow> Some (Inr (TranslationFault t), s)
             | Some (Inr StepStall, s) \<Rightarrow> Some (Inr TranslationStall, s)
             | Some (Inr StepDrained, (w', b')) \<Rightarrow> translate_loop ops r w' b')))"
  by pat_completeness auto

termination
proof (relation "measure (\<lambda>(ops, r, w, b). walk_measure r w)", goal_cases)
  case 1
  then show ?case by simp
next
  case (2 ops r w b)
  then show ?case
    by (auto split: option.splits intro!: walk_measure_drain)
next
  case (3 ops r w b)
  show ?case
  proof (cases "active w")
    case None
    then show ?thesis
      using 3 walk_measure_level [of "w\<lparr>active := Some (root_walk r)\<rparr>" "root_walk r" r ops b]
      by (fastforce simp: walk_measure_def [of r w] root_walk_def)
  next
    case (Some st)
    then show ?thesis
      using 3 walk_measure_level [of w st r ops b]
      by (fastforce simp: walk_measure_def [of r w])
  qed
qed

definition make_request :: "csr_file \<Rightarrow> privilege_mode \<Rightarrow> u32 \<Rightarrow> memory_access \<Rightarrow> translation_request" where
  "make_request c p va access =
     \<lparr>rq_satp = csr_read c Satp, rq_status = translation_status c,
      rq_privilege = effective_privilege c p access, rq_virtual_address = va, rq_access = access\<rparr>"

definition translate ::
  "('b, 'z) bus_ops_scheme \<Rightarrow> csr_file \<Rightarrow> privilege_mode \<Rightarrow> u32 \<Rightarrow> memory_access \<Rightarrow>
   ('b, translation_result) walk_call" where
  "translate ops c p va access s =
     (case s of (w, b) \<Rightarrow> translate_loop ops (make_request c p va access) w b)"

declare translate_loop.simps [simp del]

subsection \<open>Safety of the walk\<close>

definition walker_ok :: "page_walker \<Rightarrow> bool" where
  "walker_ok w \<longleftrightarrow> length (tlb w) = 8 \<and> next_tlb_entry w < 8"

lemma walker_ok_default: "walker_ok page_walker_default"
  by (simp add: walker_ok_def page_walker_default_def tlb_entry_count_def)

lemma walker_ok_flush: "walker_ok w \<Longrightarrow> walker_ok (flush_fence f w)"
  by (simp add: walker_ok_def flush_fence_def tlb_entry_count_def)

lemma walker_ok_reset: "walker_ok (walker_reset w)"
  by (simp add: walker_ok_def walker_reset_def walker_flush_def flush_fence_def fence_is_global_def
      fence_all_def tlb_entry_count_def)

lemma walker_ok_active [simp]: "walker_ok (w\<lparr>active := a\<rparr>) = walker_ok w"
  by (simp add: walker_ok_def)

lemma insert_tlb_ok: "walker_ok w \<Longrightarrow> \<exists>w'. insert_tlb st flags pa w = Some w' \<and> walker_ok w'"
  by (auto simp: insert_tlb_def walker_ok_def tlb_entry_count_def Let_def)

lemma wp_end_walk [simp]:
  "wp (end_walk drain res w b) Q = Q (Inr (if drain then StepDrained else res)) (w\<lparr>active := None\<rparr>, b)"
  by (simp add: end_walk_def)

text \<open>What a step may return: an error never, and no result at all while draining.\<close>

definition step_allowed :: "bool \<Rightarrow> bus_error + step_result \<Rightarrow> bool" where
  "step_allowed drain r \<longleftrightarrow>
     (\<exists>x. r = Inr x \<and> (drain \<longrightarrow> x = StepStall \<or> x = StepDrained))"

lemma step_allowed_simps [simp]:
  "step_allowed drain (Inr StepStall)" "step_allowed drain (Inr StepDrained)"
  "step_allowed drain (Inr (if drain then StepDrained else x))" "\<not> step_allowed drain (Inl e)"
  "step_allowed False (Inr x)"
  by (simp_all add: step_allowed_def)

definition walk_ok_post :: "('b \<Rightarrow> bool) \<Rightarrow> bus_error + 'a \<Rightarrow> page_walker \<times> 'b \<Rightarrow> bool" where
  "walk_ok_post binv r s \<longleftrightarrow> (\<exists>x. r = Inr x) \<and> walker_ok (fst s) \<and> binv (snd s)"

definition walk_post ::
  "('b \<Rightarrow> bool) \<Rightarrow> bool \<Rightarrow> bus_error + step_result \<Rightarrow> page_walker \<times> 'b \<Rightarrow> bool" where
  "walk_post binv drain r s \<longleftrightarrow> step_allowed drain r \<and> walker_ok (fst s) \<and> binv (snd s)"

context bus_safe begin

lemma wp_call:
  assumes "wp m (\<lambda>_. binv)" "\<And>r b'. binv b' \<Longrightarrow> wp (k (r, b')) Q"
  shows "wp (case m of None \<Rightarrow> None | Some x \<Rightarrow> k x) Q"
  using assms by (auto elim!: wp_elim)

lemma finish_safe:
  assumes "binv b" "walker_ok w"
  shows "wp (finish_leaf_update ops st pa flags v drain (w, b)) (walk_post binv drain)"
  using store32_safe [OF assms(1), of "ucast (walk_pte_address st)" v]
    insert_tlb_ok [OF assms(2), of st flags pa] assms(2)
  by (auto simp: finish_leaf_update_def walk_post_def elim!: wp_elim split: sum.splits)

lemma walk_step_safe:
  assumes "binv b" "walker_ok w" "active w = Some st"
  shows "wp (walk_step ops drain (w, b)) (walk_post binv drain)"
proof (cases "walk_phase st")
  case (WriteLeaf pa flags v)
  then show ?thesis using finish_safe assms by (simp add: walk_step_def)
next
  case ReadPte
  obtain r b' where l: "bus_load32 ops (ucast (walk_pte_address st)) b = Some (r, b')" "binv b'"
    using load32_safe [OF assms(1)] by (blast elim: wp_elim)
  show ?thesis
  proof (cases r)
    case (Inl e)
    then show ?thesis using l assms ReadPte by (simp add: walk_step_def walk_post_def)
  next
    case (Inr pte)
    have leaf: "wp (case (if drain then Some w else insert_tlb st f pa w) of
          None \<Rightarrow> None | Some w \<Rightarrow> end_walk drain (StepReady pa) w b') (walk_post binv drain)" for f pa
      using insert_tlb_ok [OF assms(2), of st f pa] l assms(2) by (auto simp: walk_post_def)
    have stop: "wp (end_walk drain x w b') (walk_post binv drain)" for x
      using l assms(2) by (simp add: walk_post_def)
    show ?thesis
      using l assms ReadPte Inr
      by (simp add: walk_step_def Let_def leaf stop finish_safe del: wp_end_walk split: option.split)
        (simp add: walk_post_def)
  qed
qed

lemma translate_loop_safe:
  "binv b \<Longrightarrow> walker_ok w \<Longrightarrow>
   wp (translate_loop ops r w b) (walk_ok_post binv)"
proof (induction "walk_measure r w" arbitrary: w b rule: less_induct)
  case less
  show ?case
  proof (cases "case active w of Some st \<Rightarrow> walk_request st \<noteq> r | None \<Rightarrow> False")
    case True
    then obtain st where st: "active w = Some st" "walk_request st \<noteq> r"
      by (auto split: option.splits)
    obtain res w' b' where s: "walk_step ops True (w, b) = Some (res, (w', b'))"
      "step_allowed True res" "walker_ok w'" "binv b'"
      using walk_step_safe [OF less.prems st(1), of True]
      by (auto simp: walk_post_def elim!: wp_elim)
    from s(2) consider "res = Inr StepStall" | "res = Inr StepDrained"
      by (auto simp: step_allowed_def)
    then show ?thesis
    proof cases
      case 1
      with s st show ?thesis by (subst translate_loop.simps) (simp add: walk_ok_post_def)
    next
      case 2
      have "walk_measure r w' < walk_measure r w"
        using walk_measure_drain [OF st] s(1) 2 by simp
      with less.hyps [of w' b'] s(3,4) have "wp (translate_loop ops r w' b') (walk_ok_post binv)" by simp
      with 2 s st show ?thesis by (subst translate_loop.simps) simp
    qed
  next
    case False
    let ?w = "if active w = None then w\<lparr>active := Some (root_walk r)\<rparr> else w"
    obtain st where st: "active ?w = Some st" "walk_request st = r"
        "unat (walk_level st) \<le> walk_measure r w"
      using False by (cases "active w") (auto simp: root_walk_def walk_measure_def)
    have w: "walker_ok ?w" using less.prems by simp
    obtain res w' b' where s: "walk_step ops False (?w, b) = Some (res, (w', b'))"
      "step_allowed False res" "walker_ok w'" "binv b'"
      using walk_step_safe [OF less.prems(1) w st(1), of False]
      by (auto simp: walk_post_def elim!: wp_elim)
    show ?thesis
    proof (cases "translation_enabled (rq_satp r) (rq_privilege r) \<and>
        (if active w = None then lookup_tlb r w else None) = None")
      case False
      with \<open>\<not> (case active w of Some st \<Rightarrow> walk_request st \<noteq> r | None \<Rightarrow> False)\<close> less.prems
      show ?thesis
        by (subst translate_loop.simps) (auto simp: walk_ok_post_def split: option.splits if_splits)
    next
      case True
      have unfold: "translate_loop ops r w b = (case res of
            Inl e \<Rightarrow> Some (Inl e, (w', b'))
          | Inr (StepReady pa) \<Rightarrow> Some (Inr (PhysicalAddress pa), (w', b'))
          | Inr (StepFault t) \<Rightarrow> Some (Inr (TranslationFault t), (w', b'))
          | Inr StepStall \<Rightarrow> Some (Inr TranslationStall, (w', b'))
          | Inr StepDrained \<Rightarrow> translate_loop ops r w' b')"
        using True \<open>\<not> (case active w of Some st \<Rightarrow> walk_request st \<noteq> r | None \<Rightarrow> False)\<close>
        by (subst translate_loop.simps) (simp add: s(1) split: sum.splits step_result.splits)
      have "wp (translate_loop ops r w' b') (walk_ok_post binv)" if d: "res = Inr StepDrained"
      proof -
        have "walk_measure r w' < walk_measure r w"
          using walk_measure_level [OF st(1,2)] s(1) d st(3) by fastforce
        with less.hyps s(3,4) show ?thesis by simp
      qed
      then show ?thesis
        using s(2-4) unfolding unfold
        by (auto simp: step_allowed_def walk_ok_post_def split: sum.splits step_result.splits)
    qed
  qed
qed

lemma translate_safe:
  "binv b \<Longrightarrow> walker_ok w \<Longrightarrow>
   wp (translate ops c p va access (w, b)) (walk_ok_post binv)"
  by (simp add: translate_def translate_loop_safe)

end

end
