(* ===== verification/Decode.thy ===== *)
theory Decode
  imports Isa
begin

text \<open>
  Instruction decoding, \<open>crates/isa/src/decode.rs\<close>: one definition per function of the file,
  with \<open>Result<_, DecodeError>\<close> as a sum. An opcode or a \<open>funct\<close> field is a \<open>u8\<close> as in the
  source. The lemmas show what a decoded instruction carries (\<open>decoded_ok\<close>), and that decoding
  inverts the RV32I encoding: \<open>encode\<close> writes the base instruction formats down
  independently of the decoder, with immediates and register numbers of exactly the encoded
  width.
\<close>

datatype decode_error = DecodeError u32

subsection \<open>Immediates\<close>

definition sign_extend :: "u32 \<Rightarrow> nat \<Rightarrow> i32" where
  "sign_extend value bits = (let shift = 32 - bits in signed_drop_bit shift (push_bit shift value))"

definition imm_i :: "u32 \<Rightarrow> i32" where
  "imm_i raw = sign_extend (drop_bit 20 raw) 12"

definition imm_s :: "u32 \<Rightarrow> i32" where
  "imm_s raw =
     (let imm = (drop_bit 7 raw AND 0x1f) OR push_bit 5 (drop_bit 25 raw AND 0x7f)
      in sign_extend imm 12)"

definition imm_b :: "u32 \<Rightarrow> i32" where
  "imm_b raw =
     (let imm = push_bit 1 (drop_bit 8 raw AND 0x0f)
              OR push_bit 5 (drop_bit 25 raw AND 0x3f)
              OR push_bit 11 (drop_bit 7 raw AND 0x01)
              OR push_bit 12 (drop_bit 31 raw AND 0x01)
      in sign_extend imm 13)"

definition imm_u :: "u32 \<Rightarrow> i32" where
  "imm_u raw = raw AND 0xfffff000"

definition imm_j :: "u32 \<Rightarrow> i32" where
  "imm_j raw =
     (let imm = push_bit 1 (drop_bit 21 raw AND 0x03ff)
              OR push_bit 11 (drop_bit 20 raw AND 0x0001)
              OR push_bit 12 (drop_bit 12 raw AND 0x00ff)
              OR push_bit 20 (drop_bit 31 raw AND 0x0001)
      in sign_extend imm 21)"

subsection \<open>The decoder\<close>

definition decode_branch :: "u8 \<Rightarrow> u32 \<Rightarrow> decode_error + branch_kind" where
  "decode_branch funct3 raw =
     (if funct3 = 0b000 then Inr Beq
      else if funct3 = 0b001 then Inr Bne
      else if funct3 = 0b100 then Inr Blt
      else if funct3 = 0b101 then Inr Bge
      else if funct3 = 0b110 then Inr Bltu
      else if funct3 = 0b111 then Inr Bgeu
      else Inl (DecodeError raw))"

definition decode_load :: "u8 \<Rightarrow> u32 \<Rightarrow> decode_error + load_kind" where
  "decode_load funct3 raw =
     (if funct3 = 0b000 then Inr LoadByte
      else if funct3 = 0b001 then Inr LoadHalf
      else if funct3 = 0b010 then Inr LoadWord
      else if funct3 = 0b100 then Inr LoadByteUnsigned
      else if funct3 = 0b101 then Inr LoadHalfUnsigned
      else Inl (DecodeError raw))"

definition decode_store :: "u8 \<Rightarrow> u32 \<Rightarrow> decode_error + store_kind" where
  "decode_store funct3 raw =
     (if funct3 = 0b000 then Inr StoreByte
      else if funct3 = 0b001 then Inr StoreHalf
      else if funct3 = 0b010 then Inr StoreWord
      else Inl (DecodeError raw))"

definition decode_op_imm :: "u8 \<Rightarrow> u8 \<Rightarrow> u32 \<Rightarrow> decode_error + alu_op" where
  "decode_op_imm funct3 funct7 raw =
     (if funct3 = 0b000 then Inr Add
      else if funct3 = 0b010 then Inr Slt
      else if funct3 = 0b011 then Inr Sltu
      else if funct3 = 0b100 then Inr XorOp
      else if funct3 = 0b110 then Inr OrOp
      else if funct3 = 0b111 then Inr AndOp
      else if funct3 = 0b001 \<and> funct7 = 0b0000000 then Inr Sll
      else if funct3 = 0b101 \<and> funct7 = 0b0000000 then Inr Srl
      else if funct3 = 0b101 \<and> funct7 = 0b0100000 then Inr Sra
      else Inl (DecodeError raw))"

definition decode_op :: "u8 \<Rightarrow> u8 \<Rightarrow> u32 \<Rightarrow> decode_error + alu_op" where
  "decode_op funct3 funct7 raw =
     (if funct3 = 0b000 \<and> funct7 = 0b0000000 then Inr Add
      else if funct3 = 0b000 \<and> funct7 = 0b0100000 then Inr Sub
      else if funct3 = 0b001 \<and> funct7 = 0b0000000 then Inr Sll
      else if funct3 = 0b010 \<and> funct7 = 0b0000000 then Inr Slt
      else if funct3 = 0b011 \<and> funct7 = 0b0000000 then Inr Sltu
      else if funct3 = 0b100 \<and> funct7 = 0b0000000 then Inr XorOp
      else if funct3 = 0b101 \<and> funct7 = 0b0000000 then Inr Srl
      else if funct3 = 0b101 \<and> funct7 = 0b0100000 then Inr Sra
      else if funct3 = 0b110 \<and> funct7 = 0b0000000 then Inr OrOp
      else if funct3 = 0b111 \<and> funct7 = 0b0000000 then Inr AndOp
      else Inl (DecodeError raw))"

definition decode_system :: "u32 \<Rightarrow> decode_error + system_kind" where
  "decode_system raw =
     (if raw = 0x00000073 then Inr Ecall
      else if raw = 0x00100073 then Inr Ebreak
      else if raw = 0x10500073 then Inr Wfi
      else if raw = 0x10200073 then Inr Sret
      else if raw = 0x30200073 then Inr Mret
      else if raw AND 0xfe007fff = 0x12000073 then Inr SfenceVma
      else Inl (DecodeError raw))"

definition decode_csr_op :: "u8 \<Rightarrow> u32 \<Rightarrow> decode_error + csr_op" where
  "decode_csr_op funct3 raw =
     (if funct3 = 0b001 then Inr ReadWrite
      else if funct3 = 0b010 then Inr ReadSet
      else if funct3 = 0b011 then Inr ReadClear
      else if funct3 = 0b101 then Inr ReadWriteImmediate
      else if funct3 = 0b110 then Inr ReadSetImmediate
      else if funct3 = 0b111 then Inr ReadClearImmediate
      else Inl (DecodeError raw))"

definition decode_csr_address :: "u32 \<Rightarrow> decode_error + csr_address" where
  "decode_csr_address raw =
     (case csr_try_from (ucast (drop_bit 20 raw AND 0x0fff)) of
        Inl _ \<Rightarrow> Inl (DecodeError raw)
      | Inr a \<Rightarrow> Inr a)"

definition decode :: "u32 \<Rightarrow> u32 \<Rightarrow> decode_error + decoded_instruction" where
  "decode raw pc =
     (let opcode = (ucast (raw AND 0x7f) :: u8);
          rd = (ucast (drop_bit 7 raw AND 0x1f) :: u8);
          funct3 = (ucast (drop_bit 12 raw AND 0x7) :: u8);
          rs1 = (ucast (drop_bit 15 raw AND 0x1f) :: u8);
          rs2 = (ucast (drop_bit 20 raw AND 0x1f) :: u8);
          funct7 = (ucast (drop_bit 25 raw AND 0x7f) :: u8)
      in
      if opcode = 0x37 then
        Inr (new_decoded raw pc Lui (Some rd) None None (imm_u raw) None)
      else if opcode = 0x17 then
        Inr (new_decoded raw pc Auipc (Some rd) None None (imm_u raw) None)
      else if opcode = 0x6f then
        Inr (new_decoded raw pc Jal (Some rd) None None (imm_j raw) None)
      else if opcode = 0x67 \<and> funct3 = 0 then
        Inr (new_decoded raw pc Jalr (Some rd) (Some rs1) None (imm_i raw) None)
      else if opcode = 0x63 then
        (case decode_branch funct3 raw of
           Inl e \<Rightarrow> Inl e
         | Inr k \<Rightarrow> Inr (new_decoded raw pc (Branch k) None (Some rs1) (Some rs2) (imm_b raw) None))
      else if opcode = 0x03 then
        (case decode_load funct3 raw of
           Inl e \<Rightarrow> Inl e
         | Inr k \<Rightarrow> Inr (new_decoded raw pc (Load k) (Some rd) (Some rs1) None (imm_i raw) None))
      else if opcode = 0x23 then
        (case decode_store funct3 raw of
           Inl e \<Rightarrow> Inl e
         | Inr k \<Rightarrow> Inr (new_decoded raw pc (Store k) None (Some rs1) (Some rs2) (imm_s raw) None))
      else if opcode = 0x13 then
        (case decode_op_imm funct3 funct7 raw of
           Inl e \<Rightarrow> Inl e
         | Inr k \<Rightarrow> Inr (new_decoded raw pc (OpImm k) (Some rd) (Some rs1) None (imm_i raw) None))
      else if opcode = 0x33 then
        (case decode_op funct3 funct7 raw of
           Inl e \<Rightarrow> Inl e
         | Inr k \<Rightarrow> Inr (new_decoded raw pc (Op k) (Some rd) (Some rs1) (Some rs2) 0 None))
      else if opcode = 0x73 \<and> funct3 = 0 then
        (case decode_system raw of
           Inl e \<Rightarrow> Inl e
         | Inr k \<Rightarrow>
             (let (system_rs1, system_rs2) =
                (case k of SfenceVma \<Rightarrow> (Some rs1, Some rs2) | _ \<Rightarrow> (None, None))
              in Inr (new_decoded raw pc (System k) None system_rs1 system_rs2 0 None)))
      else if opcode = 0x73 then
        (case decode_csr_op funct3 raw of
           Inl e \<Rightarrow> Inl e
         | Inr k \<Rightarrow>
             (case decode_csr_address raw of
                Inl e \<Rightarrow> Inl e
              | Inr a \<Rightarrow>
                  Inr (new_decoded raw pc (Csr k) (Some rd) (Some rs1) None 0 (Some a))))
      else Inl (DecodeError raw))"

subsection \<open>What a decoded instruction carries\<close>

text \<open>
  Every register number is below 32, so the register file is never indexed out of bounds, and a
  CSR address is present exactly on the CSR instructions, so the \<open>expect\<close> of the execute
  code never fails.
\<close>

definition reg_ok :: "u8 option \<Rightarrow> bool" where
  "reg_ok r \<longleftrightarrow> (case r of None \<Rightarrow> True | Some i \<Rightarrow> unat i < 32)"

definition decoded_ok :: "decoded_instruction \<Rightarrow> bool" where
  "decoded_ok d \<longleftrightarrow>
     reg_ok (d_rd d) \<and> reg_ok (d_rs1 d) \<and> reg_ok (d_rs2 d) \<and>
     (d_csr d \<noteq> None \<longleftrightarrow> (\<exists>op. d_kind d = Csr op))"

lemma reg_ok_simps [simp]: "reg_ok None" "reg_ok (Some i) = (unat i < 32)"
  by (simp_all add: reg_ok_def)

lemma mask_numerals:
  "(1 :: 'a::len word) = mask 1" "(3 :: 'a word) = mask 2" "(7 :: 'a word) = mask 3"
  "(15 :: 'a word) = mask 4" "(31 :: 'a word) = mask 5" "(63 :: 'a word) = mask 6"
  "(127 :: 'a word) = mask 7" "(255 :: 'a word) = mask 8" "(1023 :: 'a word) = mask 10"
  "(4095 :: 'a word) = mask 12"
  by (simp_all add: mask_eq_exp_minus_1)

lemma and_mask_numerals:
  fixes x :: "'a::len word"
  shows "x AND 1 = take_bit 1 x" "x AND 3 = take_bit 2 x" "x AND 7 = take_bit 3 x"
    "x AND 15 = take_bit 4 x" "x AND 31 = take_bit 5 x" "x AND 63 = take_bit 6 x"
    "x AND 127 = take_bit 7 x" "x AND 255 = take_bit 8 x" "x AND 1023 = take_bit 10 x"
    "x AND 4095 = take_bit 12 x"
  by (simp_all only: mask_numerals(1-10) take_bit_eq_mask [symmetric])

lemma register_field_less: "unat (ucast (x AND 31 :: u32) :: u8) < 32"
proof -
  have "unat (x AND 31) < 32"
    using take_bit_nat_less_exp [of 5 "unat x"] by (simp add: and_mask_numerals unsigned_take_bit_eq)
  then show ?thesis by (simp add: unsigned_ucast_eq take_bit_nat_eq_self)
qed

lemma decode_fields: "decode raw pc = Inr d \<Longrightarrow> d_raw d = raw \<and> d_pc d = pc"
  by (auto simp: decode_def Let_def split: if_splits sum.splits prod.splits)

lemma decode_decoded_ok: "decode raw pc = Inr d \<Longrightarrow> decoded_ok d"
  by (auto simp: decode_def decoded_ok_def Let_def register_field_less
      split: if_splits sum.splits prod.splits system_kind.splits)

text \<open>
  Whatever word is decoded, a successful decode yields a well-formed instruction: it keeps
  the raw word and the program counter, its register numbers are below 32, and it has a CSR
  address exactly when it is a CSR instruction.
\<close>

theorem decode_wellformed:
  assumes "decode raw pc = Inr d"
  shows "d_raw d = raw \<and> d_pc d = pc \<and> decoded_ok d"
  using decode_fields [OF assms] decode_decoded_ok [OF assms] by simp

theorem decode_wellformed_witness:
  "decode 0x305312f3 64 = Inr (new_decoded 0x305312f3 64 (Csr ReadWrite) (Some 5) (Some 6) None 0 (Some Mtvec)) \<and>
   decoded_ok (new_decoded 0x305312f3 64 (Csr ReadWrite) (Some 5) (Some 6) None 0 (Some Mtvec))"
proof -
  have d: "decode 0x305312f3 64 =
      Inr (new_decoded 0x305312f3 64 (Csr ReadWrite) (Some 5) (Some 6) None 0 (Some Mtvec))"
    by (simp add: decode_def Let_def decode_csr_op_def decode_csr_address_def csr_try_from_def)
  with decode_wellformed [OF d] show ?thesis by simp
qed

subsection \<open>The base instruction formats\<close>

text \<open>
  The encoding side, from the RV32I instruction formats: an instruction word is six fields,
  and each format splits its immediate over some of them. Fields and immediates have exactly
  the encoded width, so every value of \<open>asm\<close> is a valid instruction. A branch or jump offset is
  a multiple of two, and its immediate is the offset without the zero bit.
\<close>

type_synonym reg = "5 word"

definition fields :: "7 word \<Rightarrow> reg \<Rightarrow> reg \<Rightarrow> 3 word \<Rightarrow> reg \<Rightarrow> 7 word \<Rightarrow> u32" where
  "fields funct7 rs2 rs1 funct3 rd opcode =
     ucast opcode OR push_bit 7 (ucast rd) OR push_bit 12 (ucast funct3)
     OR push_bit 15 (ucast rs1) OR push_bit 20 (ucast rs2) OR push_bit 25 (ucast funct7)"

datatype asm =
    ALui reg "20 word"
  | AAuipc reg "20 word"
  | AJal reg "20 word"
  | AJalr reg reg "12 word"
  | ABranch branch_kind reg reg "12 word"
  | ALoad load_kind reg reg "12 word"
  | AStore store_kind reg reg "12 word"
  | AAddi reg reg "12 word" | ASlti reg reg "12 word" | ASltiu reg reg "12 word"
  | AXori reg reg "12 word" | AOri reg reg "12 word" | AAndi reg reg "12 word"
  | ASlli reg reg "5 word" | ASrli reg reg "5 word" | ASrai reg reg "5 word"
  | AOp alu_op reg reg reg
  | ACsr csr_op reg reg csr_address
  | AEcall | AEbreak | AWfi | AMret | ASret
  | ASfenceVma reg reg

definition enc_i :: "12 word \<Rightarrow> reg \<Rightarrow> 3 word \<Rightarrow> reg \<Rightarrow> 7 word \<Rightarrow> u32" where
  "enc_i imm rs1 funct3 rd opcode =
     fields (ucast (drop_bit 5 imm)) (ucast imm) rs1 funct3 rd opcode"

definition enc_s :: "12 word \<Rightarrow> reg \<Rightarrow> reg \<Rightarrow> 3 word \<Rightarrow> 7 word \<Rightarrow> u32" where
  "enc_s imm rs2 rs1 funct3 opcode =
     fields (ucast (drop_bit 5 imm)) rs2 rs1 funct3 (ucast imm) opcode"

text \<open>Bits 12, 10 to 5, 4 to 1 and 11 of the offset are bits 11, 9 to 4, 3 to 0 and 10 of \<open>imm\<close>.\<close>

definition enc_b :: "12 word \<Rightarrow> reg \<Rightarrow> reg \<Rightarrow> 3 word \<Rightarrow> 7 word \<Rightarrow> u32" where
  "enc_b imm rs2 rs1 funct3 opcode =
     fields (push_bit 6 (ucast (drop_bit 11 imm)) OR (ucast (drop_bit 4 imm) AND 0x3f)) rs2 rs1 funct3
       (push_bit 1 (ucast imm AND 0xf) OR (ucast (drop_bit 10 imm) AND 1)) opcode"

definition enc_u :: "20 word \<Rightarrow> reg \<Rightarrow> 7 word \<Rightarrow> u32" where
  "enc_u imm rd opcode = ucast opcode OR push_bit 7 (ucast rd) OR push_bit 12 (ucast imm)"

text \<open>Bits 20, 10 to 1, 11 and 19 to 12 of the offset are bits 19, 9 to 0, 10 and 18 to 11 of \<open>imm\<close>.\<close>

definition enc_j :: "20 word \<Rightarrow> reg \<Rightarrow> 7 word \<Rightarrow> u32" where
  "enc_j imm rd opcode =
     ucast opcode OR push_bit 7 (ucast rd)
     OR push_bit 12 (ucast (drop_bit 11 imm) AND 0xff)
     OR push_bit 20 (ucast (drop_bit 10 imm) AND 1)
     OR push_bit 21 (ucast imm AND 0x3ff)
     OR push_bit 31 (ucast (drop_bit 19 imm) AND 1)"

fun branch_funct3 :: "branch_kind \<Rightarrow> 3 word" where
  "branch_funct3 Beq = 0" | "branch_funct3 Bne = 1" | "branch_funct3 Blt = 4"
| "branch_funct3 Bge = 5" | "branch_funct3 Bltu = 6" | "branch_funct3 Bgeu = 7"

fun load_funct3 :: "load_kind \<Rightarrow> 3 word" where
  "load_funct3 LoadByte = 0" | "load_funct3 LoadHalf = 1" | "load_funct3 LoadWord = 2"
| "load_funct3 LoadByteUnsigned = 4" | "load_funct3 LoadHalfUnsigned = 5"

fun store_funct3 :: "store_kind \<Rightarrow> 3 word" where
  "store_funct3 StoreByte = 0" | "store_funct3 StoreHalf = 1" | "store_funct3 StoreWord = 2"

fun op_functs :: "alu_op \<Rightarrow> 7 word \<times> 3 word" where
  "op_functs Add = (0, 0)" | "op_functs Sub = (32, 0)" | "op_functs Sll = (0, 1)"
| "op_functs Slt = (0, 2)" | "op_functs Sltu = (0, 3)" | "op_functs XorOp = (0, 4)"
| "op_functs Srl = (0, 5)" | "op_functs Sra = (32, 5)" | "op_functs OrOp = (0, 6)"
| "op_functs AndOp = (0, 7)"

fun csr_funct3 :: "csr_op \<Rightarrow> 3 word" where
  "csr_funct3 ReadWrite = 1" | "csr_funct3 ReadSet = 2" | "csr_funct3 ReadClear = 3"
| "csr_funct3 ReadWriteImmediate = 5" | "csr_funct3 ReadSetImmediate = 6"
| "csr_funct3 ReadClearImmediate = 7"

fun encode :: "asm \<Rightarrow> u32" where
  "encode (ALui rd imm) = enc_u imm rd 0x37"
| "encode (AAuipc rd imm) = enc_u imm rd 0x17"
| "encode (AJal rd imm) = enc_j imm rd 0x6f"
| "encode (AJalr rd rs1 imm) = enc_i imm rs1 0 rd 0x67"
| "encode (ABranch k rs1 rs2 imm) = enc_b imm rs2 rs1 (branch_funct3 k) 0x63"
| "encode (ALoad k rd rs1 imm) = enc_i imm rs1 (load_funct3 k) rd 0x03"
| "encode (AStore k rs1 rs2 imm) = enc_s imm rs2 rs1 (store_funct3 k) 0x23"
| "encode (AAddi rd rs1 imm) = enc_i imm rs1 0 rd 0x13"
| "encode (ASlti rd rs1 imm) = enc_i imm rs1 2 rd 0x13"
| "encode (ASltiu rd rs1 imm) = enc_i imm rs1 3 rd 0x13"
| "encode (AXori rd rs1 imm) = enc_i imm rs1 4 rd 0x13"
| "encode (AOri rd rs1 imm) = enc_i imm rs1 6 rd 0x13"
| "encode (AAndi rd rs1 imm) = enc_i imm rs1 7 rd 0x13"
| "encode (ASlli rd rs1 sh) = fields 0 sh rs1 1 rd 0x13"
| "encode (ASrli rd rs1 sh) = fields 0 sh rs1 5 rd 0x13"
| "encode (ASrai rd rs1 sh) = fields 32 sh rs1 5 rd 0x13"
| "encode (AOp k rd rs1 rs2) =
     fields (fst (op_functs k)) rs2 rs1 (snd (op_functs k)) rd 0x33"
| "encode (ACsr k rd rs1 a) = enc_i (ucast (csr_code a)) rs1 (csr_funct3 k) rd 0x73"
| "encode AEcall = fields 0 0 0 0 0 0x73"
| "encode AEbreak = fields 0 1 0 0 0 0x73"
| "encode AWfi = fields 8 5 0 0 0 0x73"
| "encode AMret = fields 24 2 0 0 0 0x73"
| "encode ASret = fields 8 2 0 0 0 0x73"
| "encode (ASfenceVma rs1 rs2) = fields 9 rs2 rs1 0 0 0x73"

subsection \<open>Field extraction\<close>

lemma fields_opcode: "fields f7 rs2 rs1 f3 rd op AND 127 = ucast op"
proof (rule bit_word_eqI)
  fix n assume "n < LENGTH(32)"
  then show "bit (fields f7 rs2 rs1 f3 rd op AND 127) n = bit (ucast op :: u32) n"
    by (cases "n < 7") (simp_all add: fields_def and_mask_numerals bit_simps not_bit_ge)
qed

lemma fields_rd: "drop_bit 7 (fields f7 rs2 rs1 f3 rd op) AND 31 = ucast rd"
proof (rule bit_word_eqI)
  fix n assume "n < LENGTH(32)"
  then show "bit (drop_bit 7 (fields f7 rs2 rs1 f3 rd op) AND 31) n = bit (ucast rd :: u32) n"
    by (cases "n < 5") (simp_all add: fields_def and_mask_numerals bit_simps not_bit_ge)
qed

lemma fields_funct3: "drop_bit 12 (fields f7 rs2 rs1 f3 rd op) AND 7 = ucast f3"
proof (rule bit_word_eqI)
  fix n assume "n < LENGTH(32)"
  then show "bit (drop_bit 12 (fields f7 rs2 rs1 f3 rd op) AND 7) n = bit (ucast f3 :: u32) n"
    by (cases "n < 3") (simp_all add: fields_def and_mask_numerals bit_simps not_bit_ge)
qed

lemma fields_rs1: "drop_bit 15 (fields f7 rs2 rs1 f3 rd op) AND 31 = ucast rs1"
proof (rule bit_word_eqI)
  fix n assume "n < LENGTH(32)"
  then show "bit (drop_bit 15 (fields f7 rs2 rs1 f3 rd op) AND 31) n = bit (ucast rs1 :: u32) n"
    by (cases "n < 5") (simp_all add: fields_def and_mask_numerals bit_simps not_bit_ge)
qed

lemma fields_rs2: "drop_bit 20 (fields f7 rs2 rs1 f3 rd op) AND 31 = ucast rs2"
proof (rule bit_word_eqI)
  fix n assume "n < LENGTH(32)"
  then show "bit (drop_bit 20 (fields f7 rs2 rs1 f3 rd op) AND 31) n = bit (ucast rs2 :: u32) n"
    by (cases "n < 5") (simp_all add: fields_def and_mask_numerals bit_simps not_bit_ge)
qed

lemma fields_funct7: "drop_bit 25 (fields f7 rs2 rs1 f3 rd op) AND 127 = ucast f7"
proof (rule bit_word_eqI)
  fix n assume "n < LENGTH(32)"
  then show "bit (drop_bit 25 (fields f7 rs2 rs1 f3 rd op) AND 127) n = bit (ucast f7 :: u32) n"
    by (cases "n < 7") (simp_all add: fields_def and_mask_numerals bit_simps not_bit_ge)
qed

lemmas fields_extract = fields_opcode fields_rd fields_funct3 fields_rs1 fields_rs2 fields_funct7

lemma bit_sign_extend:
  assumes "0 < k" "k \<le> 32" "n < 32"
  shows "bit (sign_extend v k) n = bit v (if n < k then n else k - 1)"
  using assms by (auto simp: sign_extend_def Let_def bit_simps not_less)

lemma imm_i_enc_i: "imm_i (enc_i imm rs1 f3 rd op) = scast imm"
proof -
  have "drop_bit 20 (enc_i imm rs1 f3 rd op) = ucast imm"
  proof (rule bit_word_eqI)
    fix n assume "n < LENGTH(32)"
    then show "bit (drop_bit 20 (enc_i imm rs1 f3 rd op)) n = bit (ucast imm :: u32) n"
      by (cases "n < 5"; cases "n < 12") (auto simp: enc_i_def fields_def bit_simps not_bit_ge)
  qed
  then show ?thesis
    by (intro bit_word_eqI) (simp add: imm_i_def bit_sign_extend bit_simps)
qed

lemma sign_extend_eqI:
  assumes "0 < k" "k \<le> 32"
    and "\<And>n. n < k \<Longrightarrow> bit v n = bit w n"
    and "\<And>n. k \<le> n \<Longrightarrow> n < 32 \<Longrightarrow> bit w n = bit w (k - 1)"
  shows "sign_extend v k = w"
  using assms by (intro bit_word_eqI) (simp add: bit_sign_extend)

lemma bit_and_numerals:
  fixes x :: "'a::len word"
  shows "bit (x AND 1) n \<longleftrightarrow> n < 1 \<and> bit x n" "bit (x AND 3) n \<longleftrightarrow> n < 2 \<and> bit x n"
    "bit (x AND 7) n \<longleftrightarrow> n < 3 \<and> bit x n" "bit (x AND 15) n \<longleftrightarrow> n < 4 \<and> bit x n"
    "bit (x AND 31) n \<longleftrightarrow> n < 5 \<and> bit x n" "bit (x AND 63) n \<longleftrightarrow> n < 6 \<and> bit x n"
    "bit (x AND 127) n \<longleftrightarrow> n < 7 \<and> bit x n" "bit (x AND 255) n \<longleftrightarrow> n < 8 \<and> bit x n"
    "bit (x AND 1023) n \<longleftrightarrow> n < 10 \<and> bit x n" "bit (x AND 4095) n \<longleftrightarrow> n < 12 \<and> bit x n"
  by (simp_all only: and_mask_numerals bit_take_bit_iff)

lemma imm_s_enc_s: "imm_s (enc_s imm rs2 rs1 f3 op) = scast imm"
proof -
  have v: "bit ((drop_bit 7 (enc_s imm rs2 rs1 f3 op) AND 0x1f)
      OR push_bit 5 (drop_bit 25 (enc_s imm rs2 rs1 f3 op) AND 0x7f)) n = bit (scast imm :: i32) n"
    if "n < 12" for n
    using that
    by (cases "n < 5") (auto simp: enc_s_def fields_rd fields_funct7 bit_simps not_bit_ge)
  show ?thesis
    unfolding imm_s_def Let_def by (rule sign_extend_eqI [OF _ _ v]) (simp_all add: bit_simps)
qed

lemma imm_b_enc_b: "imm_b (enc_b imm rs2 rs1 f3 op) = push_bit 1 (scast imm)"
proof -
  let ?r = "enc_b imm rs2 rs1 f3 op"
  have v: "bit (push_bit 1 (drop_bit 8 ?r AND 0x0f) OR push_bit 5 (drop_bit 25 ?r AND 0x3f)
      OR push_bit 11 (drop_bit 7 ?r AND 0x01) OR push_bit 12 (drop_bit 31 ?r AND 0x01)) n
      = bit (push_bit 1 (scast imm) :: i32) n" if "n < 13" for n
  proof -
    from that consider "n = 0" | "n = 1" | "n = 2" | "n = 3" | "n = 4" | "n = 5" | "n = 6" | "n = 7"
      | "n = 8" | "n = 9" | "n = 10" | "n = 11" | "n = 12"
      by atomize_elim arith
    then show ?thesis
      by cases (simp_all add: enc_b_def fields_def bit_and_numerals bit_simps not_bit_ge
          del: push_bit_Suc One_nat_def, simp_all)
  qed
  show ?thesis
    unfolding imm_b_def Let_def
    by (rule sign_extend_eqI [OF _ _ v])
      (auto simp: bit_simps min_def simp del: push_bit_Suc One_nat_def)
qed

lemma imm_j_enc_j: "imm_j (enc_j imm rd op) = push_bit 1 (scast imm)"
proof -
  let ?r = "enc_j imm rd op"
  have v: "bit (push_bit 1 (drop_bit 21 ?r AND 0x03ff) OR push_bit 11 (drop_bit 20 ?r AND 0x0001)
      OR push_bit 12 (drop_bit 12 ?r AND 0x00ff) OR push_bit 20 (drop_bit 31 ?r AND 0x0001)) n
      = bit (push_bit 1 (scast imm) :: i32) n" if "n < 21" for n
  proof -
    from that consider "n = 0" | "n = 1" | "n = 2" | "n = 3" | "n = 4" | "n = 5" | "n = 6" | "n = 7"
      | "n = 8" | "n = 9" | "n = 10" | "n = 11" | "n = 12" | "n = 13" | "n = 14" | "n = 15" | "n = 16"
      | "n = 17" | "n = 18" | "n = 19" | "n = 20"
      by atomize_elim arith
    then show ?thesis
      by cases (simp_all add: enc_j_def bit_and_numerals bit_simps not_bit_ge
          del: push_bit_Suc One_nat_def, simp_all)
  qed
  show ?thesis
    unfolding imm_j_def Let_def
    by (rule sign_extend_eqI [OF _ _ v])
      (auto simp: bit_simps min_def simp del: push_bit_Suc One_nat_def)
qed

lemma imm_u_enc_u: "imm_u (enc_u imm rd op) = push_bit 12 (ucast imm)"
proof -
  have m: "(0xfffff000 :: u32) = NOT (mask 12)"
    by (simp add: mask_eq_exp_minus_1)
  show ?thesis
  proof (rule bit_word_eqI)
    fix n assume "n < LENGTH(32)"
    then show "bit (imm_u (enc_u imm rd op)) n = bit (push_bit 12 (ucast imm) :: u32) n"
      unfolding imm_u_def m
      by (cases "n < 12") (simp_all add: enc_u_def bit_simps not_bit_ge)
  qed
qed

lemma enc_u_extract:
  "enc_u imm rd op AND 127 = ucast op"
  "drop_bit 7 (enc_u imm rd op) AND 31 = ucast rd"
proof -
  show "enc_u imm rd op AND 127 = ucast op"
  proof (rule bit_word_eqI)
    fix n assume "n < LENGTH(32)"
    then show "bit (enc_u imm rd op AND 127) n = bit (ucast op :: u32) n"
      by (cases "n < 7") (simp_all add: enc_u_def and_mask_numerals bit_simps not_bit_ge)
  qed
  show "drop_bit 7 (enc_u imm rd op) AND 31 = ucast rd"
  proof (rule bit_word_eqI)
    fix n assume "n < LENGTH(32)"
    then show "bit (drop_bit 7 (enc_u imm rd op) AND 31) n = bit (ucast rd :: u32) n"
      by (cases "n < 5") (simp_all add: enc_u_def and_mask_numerals bit_simps not_bit_ge)
  qed
qed

lemma enc_j_extract:
  "enc_j imm rd op AND 127 = ucast op"
  "drop_bit 7 (enc_j imm rd op) AND 31 = ucast rd"
proof -
  show "enc_j imm rd op AND 127 = ucast op"
  proof (rule bit_word_eqI)
    fix n assume "n < LENGTH(32)"
    then show "bit (enc_j imm rd op AND 127) n = bit (ucast op :: u32) n"
      by (cases "n < 7") (simp_all add: enc_j_def and_mask_numerals bit_simps not_bit_ge)
  qed
  show "drop_bit 7 (enc_j imm rd op) AND 31 = ucast rd"
  proof (rule bit_word_eqI)
    fix n assume "n < LENGTH(32)"
    then show "bit (drop_bit 7 (enc_j imm rd op) AND 31) n = bit (ucast rd :: u32) n"
      by (cases "n < 5") (simp_all add: enc_j_def and_mask_numerals bit_simps not_bit_ge)
  qed
qed

lemma drop_bit_20_fields_12: "drop_bit 20 (enc_i imm rs1 f3 rd op) AND 4095 = ucast imm"
proof (rule bit_word_eqI)
  fix n assume "n < LENGTH(32)"
  then show "bit (drop_bit 20 (enc_i imm rs1 f3 rd op) AND 4095) n = bit (ucast imm :: u32) n"
    by (cases "n < 5"; cases "n < 12")
      (auto simp: enc_i_def fields_def and_mask_numerals bit_simps not_bit_ge)
qed

lemma csr_address_field:
  "(ucast (ucast (ucast (csr_code a) :: 12 word) :: u32) :: u16) = csr_code a"
  by (cases a) simp_all

text \<open>The instruction that \<open>decode\<close> should return for an assembled one.\<close>

abbreviation num :: "reg \<Rightarrow> u8 option" where
  "num r \<equiv> Some (ucast r)"

fun assembled :: "asm \<Rightarrow> u32 \<Rightarrow> u32 \<Rightarrow> decoded_instruction" where
  "assembled (ALui rd imm) raw pc =
     new_decoded raw pc Lui (num rd) None None (push_bit 12 (ucast imm)) None"
| "assembled (AAuipc rd imm) raw pc =
     new_decoded raw pc Auipc (num rd) None None (push_bit 12 (ucast imm)) None"
| "assembled (AJal rd imm) raw pc =
     new_decoded raw pc Jal (num rd) None None (push_bit 1 (scast imm)) None"
| "assembled (AJalr rd rs1 imm) raw pc =
     new_decoded raw pc Jalr (num rd) (num rs1) None (scast imm) None"
| "assembled (ABranch k rs1 rs2 imm) raw pc =
     new_decoded raw pc (Branch k) None (num rs1) (num rs2) (push_bit 1 (scast imm)) None"
| "assembled (ALoad k rd rs1 imm) raw pc =
     new_decoded raw pc (Load k) (num rd) (num rs1) None (scast imm) None"
| "assembled (AStore k rs1 rs2 imm) raw pc =
     new_decoded raw pc (Store k) None (num rs1) (num rs2) (scast imm) None"
| "assembled (AAddi rd rs1 imm) raw pc =
     new_decoded raw pc (OpImm Add) (num rd) (num rs1) None (scast imm) None"
| "assembled (ASlti rd rs1 imm) raw pc =
     new_decoded raw pc (OpImm Slt) (num rd) (num rs1) None (scast imm) None"
| "assembled (ASltiu rd rs1 imm) raw pc =
     new_decoded raw pc (OpImm Sltu) (num rd) (num rs1) None (scast imm) None"
| "assembled (AXori rd rs1 imm) raw pc =
     new_decoded raw pc (OpImm XorOp) (num rd) (num rs1) None (scast imm) None"
| "assembled (AOri rd rs1 imm) raw pc =
     new_decoded raw pc (OpImm OrOp) (num rd) (num rs1) None (scast imm) None"
| "assembled (AAndi rd rs1 imm) raw pc =
     new_decoded raw pc (OpImm AndOp) (num rd) (num rs1) None (scast imm) None"
| "assembled (ASlli rd rs1 sh) raw pc =
     new_decoded raw pc (OpImm Sll) (num rd) (num rs1) None (ucast sh) None"
| "assembled (ASrli rd rs1 sh) raw pc =
     new_decoded raw pc (OpImm Srl) (num rd) (num rs1) None (ucast sh) None"
| "assembled (ASrai rd rs1 sh) raw pc =
     new_decoded raw pc (OpImm Sra) (num rd) (num rs1) None (1024 + ucast sh) None"
| "assembled (AOp k rd rs1 rs2) raw pc =
     new_decoded raw pc (Op k) (num rd) (num rs1) (num rs2) 0 None"
| "assembled (ACsr k rd rs1 a) raw pc =
     new_decoded raw pc (Csr k) (num rd) (num rs1) None 0 (Some a)"
| "assembled AEcall raw pc = new_decoded raw pc (System Ecall) None None None 0 None"
| "assembled AEbreak raw pc = new_decoded raw pc (System Ebreak) None None None 0 None"
| "assembled AWfi raw pc = new_decoded raw pc (System Wfi) None None None 0 None"
| "assembled AMret raw pc = new_decoded raw pc (System Mret) None None None 0 None"
| "assembled ASret raw pc = new_decoded raw pc (System Sret) None None None 0 None"
| "assembled (ASfenceVma rs1 rs2) raw pc =
     new_decoded raw pc (System SfenceVma) None (num rs1) (num rs2) 0 None"

lemma enc_i_extract:
  "enc_i imm rs1 f3 rd op AND 127 = ucast op"
  "drop_bit 7 (enc_i imm rs1 f3 rd op) AND 31 = ucast rd"
  "drop_bit 12 (enc_i imm rs1 f3 rd op) AND 7 = ucast f3"
  "drop_bit 15 (enc_i imm rs1 f3 rd op) AND 31 = ucast rs1"
  by (simp_all add: enc_i_def fields_extract)

lemma enc_s_extract:
  "enc_s imm rs2 rs1 f3 op AND 127 = ucast op"
  "drop_bit 12 (enc_s imm rs2 rs1 f3 op) AND 7 = ucast f3"
  "drop_bit 15 (enc_s imm rs2 rs1 f3 op) AND 31 = ucast rs1"
  "drop_bit 20 (enc_s imm rs2 rs1 f3 op) AND 31 = ucast rs2"
  by (simp_all add: enc_s_def fields_extract)

lemma enc_b_extract:
  "enc_b imm rs2 rs1 f3 op AND 127 = ucast op"
  "drop_bit 12 (enc_b imm rs2 rs1 f3 op) AND 7 = ucast f3"
  "drop_bit 15 (enc_b imm rs2 rs1 f3 op) AND 31 = ucast rs1"
  "drop_bit 20 (enc_b imm rs2 rs1 f3 op) AND 31 = ucast rs2"
  by (simp_all add: enc_b_def fields_extract)

lemma imm_i_shift: "imm_i (fields f7 sh rs1 f3 rd op) = scast (push_bit 5 (ucast f7) OR ucast sh :: 12 word)"
proof -
  have "fields f7 sh rs1 f3 rd op = enc_i (push_bit 5 (ucast f7) OR ucast sh) rs1 f3 rd op"
  proof -
    have "(ucast (drop_bit 5 (push_bit 5 (ucast f7) OR ucast sh :: 12 word)) :: 7 word) = f7"
      by (rule bit_word_eqI) (auto simp: bit_simps not_bit_ge)
    moreover have "(ucast (push_bit 5 (ucast f7) OR ucast sh :: 12 word) :: reg) = sh"
      by (rule bit_word_eqI) (auto simp: bit_simps not_bit_ge)
    ultimately show ?thesis by (simp add: enc_i_def)
  qed
  then show ?thesis by (simp add: imm_i_enc_i)
qed

lemma bit_1024: "bit (1024 :: 'a::len word) n \<longleftrightarrow> n < LENGTH('a) \<and> n = 10"
  using bit_exp_iff [of 10 n, where ?'a = "'a word"] by auto

lemma scast_shift_amount:
  fixes sh :: reg
  shows "(scast (ucast sh :: 12 word) :: i32) = ucast sh"
    "(scast (1024 OR ucast sh :: 12 word) :: i32) = 1024 + ucast sh"
proof -
  show "(scast (ucast sh :: 12 word) :: i32) = ucast sh"
    by (rule bit_word_eqI) (auto simp: bit_simps not_bit_ge min_def)
  have "(1024 :: i32) AND ucast sh = 0"
  proof (rule bit_word_eqI)
    fix n assume "n < LENGTH(32)"
    have "\<not> bit (ucast sh :: i32) 10" by (simp add: bit_simps not_bit_ge)
    then have "\<not> bit ((1024 :: i32) AND ucast sh) n"
      unfolding bit_and_iff bit_1024 by auto
    then show "bit ((1024 :: i32) AND ucast sh) n = bit (0 :: i32) n" by simp
  qed
  then have "(1024 + ucast sh :: i32) = 1024 OR ucast sh"
    by (rule disjunctive_add_eq_or)
  moreover have "(scast (1024 OR ucast sh :: 12 word) :: i32) = 1024 OR ucast sh"
  proof (rule bit_word_eqI)
    fix n assume n: "n < LENGTH(32)"
    have "bit (1024 OR ucast sh :: 12 word) (min 11 n) = bit (1024 OR ucast sh :: i32) n"
      unfolding bit_or_iff bit_1024 bit_unsigned_iff
      using n by (cases "n < 11") (simp_all add: not_bit_ge min_def)
    then show "bit (scast (1024 OR ucast sh :: 12 word) :: i32) n = bit (1024 OR ucast sh :: i32) n"
      using n by (simp only: bit_signed_iff) simp
  qed
  ultimately show "(scast (1024 OR ucast sh :: 12 word) :: i32) = 1024 + ucast sh" by simp
qed

lemmas decode_pieces = decode_def decode_branch_def decode_load_def decode_store_def
  decode_op_imm_def decode_op_def decode_system_def decode_csr_op_def decode_csr_address_def

lemma register_number [simp]: "(ucast (ucast r :: u32) :: u8) = ucast (r :: reg)"
  by (rule bit_word_eqI) (auto simp: bit_simps not_bit_ge)

lemma sfence_mask: "fields f7 rs2 rs1 f3 rd op AND 0xfe007fff = fields f7 0 0 f3 rd op"
proof -
  have m: "(0xfe007fff :: u32) = NOT (push_bit 15 (mask 10))"
    by (simp add: mask_eq_exp_minus_1)
  show ?thesis
  proof (rule bit_word_eqI)
    fix n assume "n < LENGTH(32)"
    then show "bit (fields f7 rs2 rs1 f3 rd op AND 0xfe007fff) n = bit (fields f7 0 0 f3 rd op) n"
      unfolding m
      by (cases "n < 15"; cases "n < 25") (auto simp: fields_def bit_simps not_bit_ge)
  qed
qed

lemma sfence_word: "fields 9 rs2 rs1 0 0 0x73 AND 0xfe007fff = 0x12000073"
  by (simp only: sfence_mask) (simp add: fields_def)

lemma decode_alu_register:
  "decode (encode (AOp k rd rs1 rs2)) pc = Inr (assembled (AOp k rd rs1 rs2) (encode (AOp k rd rs1 rs2)) pc)"
  by (cases k) (simp_all add: decode_pieces Let_def fields_extract)

lemma decode_alu_immediate:
  "decode (encode (AAddi rd rs1 imm)) pc = Inr (assembled (AAddi rd rs1 imm) (encode (AAddi rd rs1 imm)) pc)"
  "decode (encode (ASlti rd rs1 imm)) pc = Inr (assembled (ASlti rd rs1 imm) (encode (ASlti rd rs1 imm)) pc)"
  "decode (encode (ASltiu rd rs1 imm)) pc = Inr (assembled (ASltiu rd rs1 imm) (encode (ASltiu rd rs1 imm)) pc)"
  "decode (encode (AXori rd rs1 imm)) pc = Inr (assembled (AXori rd rs1 imm) (encode (AXori rd rs1 imm)) pc)"
  "decode (encode (AOri rd rs1 imm)) pc = Inr (assembled (AOri rd rs1 imm) (encode (AOri rd rs1 imm)) pc)"
  "decode (encode (AAndi rd rs1 imm)) pc = Inr (assembled (AAndi rd rs1 imm) (encode (AAndi rd rs1 imm)) pc)"
  by (simp_all add: decode_pieces Let_def enc_i_extract imm_i_enc_i)

lemma decode_shift_immediate:
  "decode (encode (ASlli rd rs1 sh)) pc = Inr (assembled (ASlli rd rs1 sh) (encode (ASlli rd rs1 sh)) pc)"
  "decode (encode (ASrli rd rs1 sh)) pc = Inr (assembled (ASrli rd rs1 sh) (encode (ASrli rd rs1 sh)) pc)"
  "decode (encode (ASrai rd rs1 sh)) pc = Inr (assembled (ASrai rd rs1 sh) (encode (ASrai rd rs1 sh)) pc)"
  by (simp_all add: decode_pieces Let_def fields_extract imm_i_shift scast_shift_amount)

lemma decode_upper:
  "decode (encode (ALui rd uimm)) pc = Inr (assembled (ALui rd uimm) (encode (ALui rd uimm)) pc)"
  "decode (encode (AAuipc rd uimm)) pc = Inr (assembled (AAuipc rd uimm) (encode (AAuipc rd uimm)) pc)"
  "decode (encode (AJal rd uimm)) pc = Inr (assembled (AJal rd uimm) (encode (AJal rd uimm)) pc)"
  "decode (encode (AJalr rd rs1 imm)) pc = Inr (assembled (AJalr rd rs1 imm) (encode (AJalr rd rs1 imm)) pc)"
  by (simp_all add: decode_pieces Let_def enc_u_extract imm_u_enc_u enc_j_extract imm_j_enc_j
      enc_i_extract imm_i_enc_i)

lemma decode_branch_encode:
  "decode (encode (ABranch k rs1 rs2 imm)) pc =
   Inr (assembled (ABranch k rs1 rs2 imm) (encode (ABranch k rs1 rs2 imm)) pc)"
  by (cases k) (simp_all add: decode_pieces Let_def enc_b_extract imm_b_enc_b)

lemma decode_load_encode:
  "decode (encode (ALoad k rd rs1 imm)) pc =
   Inr (assembled (ALoad k rd rs1 imm) (encode (ALoad k rd rs1 imm)) pc)"
  by (cases k) (simp_all add: decode_pieces Let_def enc_i_extract imm_i_enc_i)

lemma decode_store_encode:
  "decode (encode (AStore k rs1 rs2 imm)) pc =
   Inr (assembled (AStore k rs1 rs2 imm) (encode (AStore k rs1 rs2 imm)) pc)"
  by (cases k) (simp_all add: decode_pieces Let_def enc_s_extract imm_s_enc_s)

lemma decode_csr_encode:
  "decode (encode (ACsr k rd rs1 a)) pc =
   Inr (assembled (ACsr k rd rs1 a) (encode (ACsr k rd rs1 a)) pc)"
  by (cases k) (simp_all add: decode_pieces Let_def enc_i_extract drop_bit_20_fields_12 csr_address_field)

lemma decode_system_encode:
  "decode (encode AEcall) pc = Inr (assembled AEcall (encode AEcall) pc)"
  "decode (encode AEbreak) pc = Inr (assembled AEbreak (encode AEbreak) pc)"
  "decode (encode AWfi) pc = Inr (assembled AWfi (encode AWfi) pc)"
  "decode (encode AMret) pc = Inr (assembled AMret (encode AMret) pc)"
  "decode (encode ASret) pc = Inr (assembled ASret (encode ASret) pc)"
  by (simp_all add: decode_pieces Let_def fields_def)

lemma decode_sfence_encode:
  "decode (encode (ASfenceVma rs1 rs2)) pc =
   Inr (assembled (ASfenceVma rs1 rs2) (encode (ASfenceVma rs1 rs2)) pc)"
proof -
  let ?w = "fields 9 rs2 rs1 0 0 0x73"
  have ne: "?w \<noteq> 0x73" "?w \<noteq> 0x100073" "?w \<noteq> 0x10500073" "?w \<noteq> 0x10200073" "?w \<noteq> 0x30200073"
    using sfence_word [of rs2 rs1] by auto
  show ?thesis
    by (simp add: decode_def Let_def fields_extract decode_system_def ne sfence_word)
qed

lemma decode_assembled: "decode (encode i) pc = Inr (assembled i (encode i) pc)"
  by (cases i) (simp_all only: decode_alu_register decode_alu_immediate decode_shift_immediate
      decode_upper decode_branch_encode decode_load_encode decode_store_encode decode_csr_encode
      decode_system_encode decode_sfence_encode)

text \<open>
  C21. Decoding inverts the encoding of RV32I without \<open>FENCE\<close>, of Zicsr and of the privileged
  instructions: every assembled instruction, with any registers and any immediate of the encoded
  width, decodes to its own kind, registers, CSR address and immediate (sign-extended, and doubled
  for branch and jump offsets). \<open>FENCE\<close>, the one instruction of the base set that is missing, is not
  decoded: every word with its opcode \<open>0x0f\<close> (and so \<open>FENCE.I\<close> too) is an illegal instruction.
\<close>

theorem decode_encode:
  "decode (encode i) pc = Inr (assembled i (encode i) pc) \<and>
   decode (fields f7 rs2 rs1 f3 rd 0x0f) pc = Inl (DecodeError (fields f7 rs2 rs1 f3 rd 0x0f))"
  by (rule conjI [OF decode_assembled]) (simp add: decode_def Let_def fields_extract)

end
