(* ===== verification/Execute.thy ===== *)
theory Execute
  imports Exec Mmu Decode
begin

text \<open>
  Execution of one decoded instruction against the hart, the page walker and the bus
  (\<open>crates/cpu/src/exec/mod.rs\<close>), with trap entry, trap return and the mapping of bus errors to
  traps, and the error type of the cores (\<open>core/trait.rs\<close>). The state of \<open>execute_decoded\<close> is the
  triple of its three mutable arguments.
\<close>

datatype cpu_error = CpuBus bus_error | CpuDecode decode_error

record execution_result =
  er_retired :: u64
  er_trap :: "trap option"
  er_memory_access :: bool

definition execution_result_default :: execution_result where
  "execution_result_default = \<lparr>er_retired = 0, er_trap = None, er_memory_access = False\<rparr>"

definition apply_trap :: "trap \<Rightarrow> u32 \<Rightarrow> hart_state \<Rightarrow> execution_result \<times> hart_state" where
  "apply_trap t current_pc s =
     (case enter_trap t current_pc (privilege s) (csrs s) of
        ((p, vec), c) \<Rightarrow>
          (\<lparr>er_retired = 0, er_trap = Some t, er_memory_access = False\<rparr>,
           s\<lparr>csrs := c, privilege := p, pc := vec, halted := False\<rparr>))"

definition return_from_trap :: "system_kind \<Rightarrow> hart_state \<Rightarrow> (execution_result, hart_state) outcome" where
  "return_from_trap kind s =
     (case (case kind of
              Mret \<Rightarrow> Some (return_from_machine_trap (csrs s))
            | Sret \<Rightarrow> Some (return_from_supervisor_trap (csrs s))
            | _ \<Rightarrow> None) of
        None \<Rightarrow> None
      | Some ((p, next_pc), c) \<Rightarrow>
          Some (\<lparr>er_retired = 1, er_trap = None, er_memory_access = False\<rparr>,
            s\<lparr>csrs := c, privilege := p, pc := next_pc, halted := False\<rparr>))"

fun ecall_exception :: "privilege_mode \<Rightarrow> exception" where
  "ecall_exception User = EnvironmentCallFromUMode"
| "ecall_exception Supervisor = EnvironmentCallFromSMode"
| "ecall_exception Machine = EnvironmentCallFromMMode"

fun map_bus_error_to_trap :: "bus_error \<Rightarrow> u32 \<Rightarrow> memory_access \<Rightarrow> trap option" where
  "map_bus_error_to_trap (Busy _) a access = None"
| "map_bus_error_to_trap (MisalignedAccess _ _) a access = Some (TrapException (case access of
     InstructionAccess \<Rightarrow> InstructionAddressMisaligned a
   | LoadMemory \<Rightarrow> LoadAddressMisaligned a | StoreMemory \<Rightarrow> StoreAddressMisaligned a))"
| "map_bus_error_to_trap (UnmappedAddress _) a access = Some (TrapException (case access of
     InstructionAccess \<Rightarrow> InstructionAccessFault a
   | LoadMemory \<Rightarrow> LoadAccessFault a | StoreMemory \<Rightarrow> StoreAccessFault a))"
| "map_bus_error_to_trap (ReadOnlyAddress _) a access = Some (TrapException (case access of
     InstructionAccess \<Rightarrow> InstructionAccessFault a
   | LoadMemory \<Rightarrow> LoadAccessFault a | StoreMemory \<Rightarrow> StoreAccessFault a))"
| "map_bus_error_to_trap (DeviceFault _ _) a access = Some (TrapException (case access of
     InstructionAccess \<Rightarrow> InstructionAccessFault a
   | LoadMemory \<Rightarrow> LoadAccessFault a | StoreMemory \<Rightarrow> StoreAccessFault a))"

definition write_rd :: "u8 option \<Rightarrow> u32 \<Rightarrow> hart_state \<Rightarrow> hart_state option" where
  "write_rd rd v s =
     (case rd of
        None \<Rightarrow> Some s
      | Some r \<Rightarrow> map_option (\<lambda>regs. s\<lparr>registers := regs\<rparr>) (register_write r v (registers s)))"

definition read_operand :: "u8 option \<Rightarrow> hart_state \<Rightarrow> u32 option" where
  "read_operand r s = (case r of None \<Rightarrow> Some 0 | Some i \<Rightarrow> register_read (registers s) i)"

definition map_ok :: "('a \<Rightarrow> 'c) \<Rightarrow> ('e + 'a, 's) outcome \<Rightarrow> ('e + 'c, 's) outcome" where
  "map_ok f m = and_then m (\<lambda>a s. Some (Inr (f a), s))"

fun load_value :: "('b, 'z) bus_ops_scheme \<Rightarrow> load_kind \<Rightarrow> u64 \<Rightarrow> ('b, u32) bus_call" where
  "load_value ops LoadByte a b = map_ok sign_extend_byte (bus_load8 ops a b)"
| "load_value ops LoadHalf a b = map_ok sign_extend_half (bus_load16 ops a b)"
| "load_value ops LoadWord a b = bus_load32 ops a b"
| "load_value ops LoadByteUnsigned a b = map_ok ucast (bus_load8 ops a b)"
| "load_value ops LoadHalfUnsigned a b = map_ok ucast (bus_load16 ops a b)"

fun store_value :: "('b, 'z) bus_ops_scheme \<Rightarrow> store_kind \<Rightarrow> u64 \<Rightarrow> u32 \<Rightarrow> ('b, unit) bus_call" where
  "store_value ops StoreByte a v b = bus_store8 ops a (ucast v) b"
| "store_value ops StoreHalf a v b = bus_store16 ops a (ucast v) b"
| "store_value ops StoreWord a v b = bus_store32 ops a v b"

subsection \<open>The instruction\<close>

type_synonym 'b machine_state = "hart_state \<times> page_walker \<times> 'b"

type_synonym 'b exec_outcome = "(cpu_error + execution_result, 'b machine_state) outcome"

definition retire :: "bool \<Rightarrow> 'b machine_state \<Rightarrow> 'b exec_outcome" where
  "retire memory st = Some (Inr \<lparr>er_retired = 1, er_trap = None, er_memory_access = memory\<rparr>, st)"

definition wait_for_bus :: "'b machine_state \<Rightarrow> 'b exec_outcome" where
  "wait_for_bus st = Some (Inr \<lparr>er_retired = 0, er_trap = None, er_memory_access = True\<rparr>, st)"

definition trap_now :: "trap \<Rightarrow> u32 \<Rightarrow> bool \<Rightarrow> 'b machine_state \<Rightarrow> 'b exec_outcome" where
  "trap_now t current_pc memory st =
     (case st of (s, w, b) \<Rightarrow>
       (case apply_trap t current_pc s of
          (res, s') \<Rightarrow> Some (Inr (res\<lparr>er_memory_access := memory\<rparr>), (s', w, b))))"

definition illegal :: "decoded_instruction \<Rightarrow> 'b machine_state \<Rightarrow> 'b exec_outcome" where
  "illegal d st = trap_now (TrapException (IllegalInstruction (d_raw d))) (d_pc d) False st"

text \<open>\<open>write_rd\<close> followed by the assignment of the program counter.\<close>

definition write_back :: "u8 option \<Rightarrow> u32 \<Rightarrow> u32 \<Rightarrow> 'b machine_state \<Rightarrow> 'b exec_outcome" where
  "write_back rd v new_pc st =
     (case st of (s, w, b) \<Rightarrow>
       (case write_rd rd v s of
          None \<Rightarrow> None
        | Some s' \<Rightarrow> retire False (s'\<lparr>pc := new_pc\<rparr>, w, b)))"

definition execute_load ::
  "('b, 'z) bus_ops_scheme \<Rightarrow> decoded_instruction \<Rightarrow> load_kind \<Rightarrow> u32 \<Rightarrow> 'b machine_state \<Rightarrow> 'b exec_outcome" where
  "execute_load ops d kind rs1_value st =
     (case st of (s, w, b) \<Rightarrow>
      (let va = effective_address rs1_value (d_imm d) in
       case translate ops (csrs s) (privilege s) va LoadMemory (w, b) of
         None \<Rightarrow> None
       | Some (Inl e, (w, b)) \<Rightarrow> Some (Inl (CpuBus e), (s, w, b))
       | Some (Inr TranslationStall, (w, b)) \<Rightarrow> wait_for_bus (s, w, b)
       | Some (Inr (TranslationFault t), (w, b)) \<Rightarrow> trap_now t (d_pc d) True (s, w, b)
       | Some (Inr (PhysicalAddress pa), (w, b)) \<Rightarrow>
           (case load_value ops kind (ucast pa) b of
              None \<Rightarrow> None
            | Some (Inr v, b) \<Rightarrow>
                (case write_rd (d_rd d) v s of
                   None \<Rightarrow> None
                 | Some s' \<Rightarrow> retire True (s'\<lparr>pc := d_pc d + 4\<rparr>, w, b))
            | Some (Inl e, b) \<Rightarrow>
                (if is_busy_error e then wait_for_bus (s, w, b)
                 else (case map_bus_error_to_trap e va LoadMemory of
                         Some t \<Rightarrow> trap_now t (d_pc d) True (s, w, b)
                       | None \<Rightarrow> Some (Inl (CpuBus e), (s, w, b)))))))"

definition execute_store ::
  "('b, 'z) bus_ops_scheme \<Rightarrow> decoded_instruction \<Rightarrow> store_kind \<Rightarrow> u32 \<Rightarrow> u32 \<Rightarrow> 'b machine_state \<Rightarrow> 'b exec_outcome" where
  "execute_store ops d kind rs1_value rs2_value st =
     (case st of (s, w, b) \<Rightarrow>
      (let va = effective_address rs1_value (d_imm d) in
       case translate ops (csrs s) (privilege s) va StoreMemory (w, b) of
         None \<Rightarrow> None
       | Some (Inl e, (w, b)) \<Rightarrow> Some (Inl (CpuBus e), (s, w, b))
       | Some (Inr TranslationStall, (w, b)) \<Rightarrow> wait_for_bus (s, w, b)
       | Some (Inr (TranslationFault t), (w, b)) \<Rightarrow> trap_now t (d_pc d) True (s, w, b)
       | Some (Inr (PhysicalAddress pa), (w, b)) \<Rightarrow>
           (case store_value ops kind (ucast pa) rs2_value b of
              None \<Rightarrow> None
            | Some (Inr _, b) \<Rightarrow> retire True (s\<lparr>pc := d_pc d + 4\<rparr>, w, b)
            | Some (Inl e, b) \<Rightarrow>
                (if is_busy_error e then wait_for_bus (s, w, b)
                 else (case map_bus_error_to_trap e va StoreMemory of
                         Some t \<Rightarrow> trap_now t (d_pc d) True (s, w, b)
                       | None \<Rightarrow> Some (Inl (CpuBus e), (s, w, b)))))))"

definition execute_csr :: "decoded_instruction \<Rightarrow> u32 \<Rightarrow> 'b machine_state \<Rightarrow> 'b exec_outcome" where
  "execute_csr d rs1_value st =
     (case st of (s, w, b) \<Rightarrow>
      (case d_csr d of
         None \<Rightarrow> None
       | Some csr \<Rightarrow>
         if \<not> allows_csr_access (csrs s) (privilege s) csr then illegal d st
         else if privilege s = Supervisor \<and> tvm_enabled (csrs s) \<and> csr = Satp then illegal d st
         else
           (case csr_execute d (csrs s) rs1_value of
              None \<Rightarrow> None
            | Some out \<Rightarrow>
                if csr_write_back out \<noteq> None \<and> is_read_only csr then illegal d st
                else
                  (case write_rd (d_rd d) (read_value out) s of
                     None \<Rightarrow> None
                   | Some s \<Rightarrow>
                       let s = (case csr_write_back out of
                                  None \<Rightarrow> s
                                | Some cw \<Rightarrow>
                                    s\<lparr>csrs := csr_write (cw_address cw) (cw_value cw) (csrs s)\<rparr>)
                       in retire False (s\<lparr>pc := d_pc d + 4\<rparr>, w, b)))))"

fun execute_system ::
  "decoded_instruction \<Rightarrow> u32 \<Rightarrow> u32 \<Rightarrow> system_kind \<Rightarrow> 'b machine_state \<Rightarrow> 'b exec_outcome" where
  "execute_system d rs1_value rs2_value Ecall (s, w, b) =
     trap_now (TrapException (ecall_exception (privilege s))) (d_pc d) False (s, w, b)"
| "execute_system d rs1_value rs2_value Ebreak (s, w, b) =
     trap_now (TrapException Breakpoint) (d_pc d) False (s, w, b)"
| "execute_system d rs1_value rs2_value SfenceVma (s, w, b) =
     (if privilege s = User \<or> (privilege s = Supervisor \<and> tvm_enabled (csrs s))
      then illegal d (s, w, b)
      else retire False (s\<lparr>pc := d_pc d + 4\<rparr>,
             flush_fence (fence_from_operands (d_rs1 d) rs1_value (d_rs2 d) rs2_value) w, b))"
| "execute_system d rs1_value rs2_value Wfi (s, w, b) =
     (if privilege s \<noteq> Machine \<and> tw_enabled (csrs s) then illegal d (s, w, b)
      else retire False (s\<lparr>pc := d_pc d + 4, halted := True\<rparr>, w, b))"
| "execute_system d rs1_value rs2_value Mret (s, w, b) =
     (if privilege s \<noteq> Machine then illegal d (s, w, b)
      else (case return_from_trap Mret s of
              None \<Rightarrow> None
            | Some (res, s') \<Rightarrow> Some (Inr res, (s', w, b))))"
| "execute_system d rs1_value rs2_value Sret (s, w, b) =
     (if privilege s \<noteq> Supervisor \<or> tsr_enabled (csrs s) then illegal d (s, w, b)
      else (case return_from_trap Sret s of
              None \<Rightarrow> None
            | Some (res, s') \<Rightarrow> Some (Inr res, (s', w, b))))"

definition op_imm_operand :: "decoded_instruction \<Rightarrow> alu_op \<Rightarrow> u32" where
  "op_imm_operand d op =
     (if op = Sll \<or> op = Srl \<or> op = Sra then drop_bit 20 (d_raw d) else d_imm d)"

definition execute_decoded ::
  "('b, 'z) bus_ops_scheme \<Rightarrow> decoded_instruction \<Rightarrow> 'b machine_state \<Rightarrow> 'b exec_outcome" where
  "execute_decoded ops d st =
     (case st of (s, w, b) \<Rightarrow>
      (case (read_operand (d_rs1 d) s, read_operand (d_rs2 d) s) of
         (Some rs1_value, Some rs2_value) \<Rightarrow>
           (let current_pc = d_pc d; next_pc = current_pc + 4 in
            case d_kind d of
              Lui \<Rightarrow> write_back (d_rd d) (d_imm d) next_pc st
            | Auipc \<Rightarrow> write_back (d_rd d) (current_pc + d_imm d) next_pc st
            | Jal \<Rightarrow> write_back (d_rd d) next_pc (branch_target current_pc (d_imm d)) st
            | Jalr \<Rightarrow> write_back (d_rd d) next_pc (effective_address rs1_value (d_imm d) AND NOT 1) st
            | Branch kind \<Rightarrow>
                retire False (s\<lparr>pc := (if branch_taken kind rs1_value rs2_value
                                      then branch_target current_pc (d_imm d) else next_pc)\<rparr>, w, b)
            | Load kind \<Rightarrow> execute_load ops d kind rs1_value st
            | Store kind \<Rightarrow> execute_store ops d kind rs1_value rs2_value st
            | OpImm op \<Rightarrow> write_back (d_rd d) (execute_alu op rs1_value (op_imm_operand d op)) next_pc st
            | Op op \<Rightarrow> write_back (d_rd d) (execute_alu op rs1_value rs2_value) next_pc st
            | Csr _ \<Rightarrow> execute_csr d rs1_value st
            | System kind \<Rightarrow> execute_system d rs1_value rs2_value kind st)
       | _ \<Rightarrow> None))"

subsection \<open>Safety of execution\<close>

lemma read_operand_ok: "hart_ok s \<Longrightarrow> reg_ok r \<Longrightarrow> \<exists>v. read_operand r s = Some v"
  by (auto simp: read_operand_def hart_ok_def register_read_ok split: option.splits)

lemma write_rd_ok:
  "hart_ok s \<Longrightarrow> reg_ok rd \<Longrightarrow> \<exists>s'. write_rd rd v s = Some s' \<and> hart_ok s'"
  using register_write_ok [of "registers s" _ v]
  by (fastforce simp: write_rd_def hart_ok_def split: option.splits)

lemma write_rd_frame:
  "write_rd rd v s = Some s' \<Longrightarrow>
     csrs s' = csrs s \<and> privilege s' = privilege s \<and> pc s' = pc s \<and> halted s' = halted s"
  by (auto simp: write_rd_def split: option.splits)

lemma apply_trap_ok: "hart_ok s \<Longrightarrow> hart_ok (snd (apply_trap t a s))"
  using enter_trap_ok [of "csrs s" t a "privilege s"]
  by (auto simp: apply_trap_def hart_ok_def split: prod.splits)

lemma apply_trap_result:
  "fst (apply_trap t a s) = \<lparr>er_retired = 0, er_trap = Some t, er_memory_access = False\<rparr>"
  by (simp add: apply_trap_def split: prod.splits)

lemma return_from_trap_ok:
  "hart_ok s \<Longrightarrow> kind = Mret \<or> kind = Sret \<Longrightarrow>
     \<exists>s'. return_from_trap kind s =
       Some (\<lparr>er_retired = 1, er_trap = None, er_memory_access = False\<rparr>, s') \<and> hart_ok s'"
  using return_ok [of "csrs s"]
  by (auto simp: return_from_trap_def hart_ok_def split: prod.splits)

text \<open>
  The possible results of an instruction: it retires, traps without retiring, or waits for the
  bus, in which case it has not changed the hart.
\<close>

definition result_ok :: "execution_result \<Rightarrow> bool" where
  "result_ok res \<longleftrightarrow>
     (er_retired res = 1 \<and> er_trap res = None) \<or>
     (er_retired res = 0 \<and> (er_trap res \<noteq> None \<or> er_memory_access res))"

definition exec_post ::
  "('b \<Rightarrow> bool) \<Rightarrow> hart_state \<Rightarrow> cpu_error + execution_result \<Rightarrow> 'b machine_state \<Rightarrow> bool" where
  "exec_post binv s0 r st \<longleftrightarrow>
     (\<exists>res. r = Inr res \<and> result_ok res \<and>
        (er_retired res = 0 \<and> er_trap res = None \<longrightarrow> fst st = s0)) \<and>
     hart_ok (fst st) \<and> walker_ok (fst (snd st)) \<and> binv (snd (snd st))"

lemma retire_post:
  "hart_ok s \<Longrightarrow> walker_ok w \<Longrightarrow> binv b \<Longrightarrow> wp (retire m (s, w, b)) (exec_post binv s0)"
  by (simp add: retire_def exec_post_def result_ok_def)

lemma wait_post:
  "hart_ok s \<Longrightarrow> walker_ok w \<Longrightarrow> binv b \<Longrightarrow> wp (wait_for_bus (s, w, b)) (exec_post binv s)"
  by (simp add: wait_for_bus_def exec_post_def result_ok_def)

lemma trap_post:
  "hart_ok s \<Longrightarrow> walker_ok w \<Longrightarrow> binv b \<Longrightarrow> wp (trap_now t a m (s, w, b)) (exec_post binv s0)"
  using apply_trap_ok [of s t a] apply_trap_result [of t a s]
  by (cases "apply_trap t a s") (simp add: trap_now_def exec_post_def result_ok_def)

lemma illegal_post:
  "hart_ok s \<Longrightarrow> walker_ok w \<Longrightarrow> binv b \<Longrightarrow> wp (illegal d (s, w, b)) (exec_post binv s0)"
  by (simp add: illegal_def trap_post)

lemma map_error_busy: "is_busy_error e \<or> (\<exists>t. map_bus_error_to_trap e a acc = Some t)"
  by (cases e) simp_all

lemma write_back_post:
  "hart_ok s \<Longrightarrow> reg_ok rd \<Longrightarrow> walker_ok w \<Longrightarrow> binv b \<Longrightarrow>
     wp (write_back rd v new_pc (s, w, b)) (exec_post binv s0)"
  using write_rd_ok [of s rd v] by (auto simp: write_back_def retire_post)

lemma execute_csr_post:
  assumes "hart_ok s" "walker_ok w" "binv b" "decoded_ok d" "d_kind d = Csr op"
  shows "wp (execute_csr d v (s, w, b)) (exec_post binv s0)"
proof -
  obtain csr where csr: "d_csr d = Some csr"
    using assms by (auto simp: decoded_ok_def)
  obtain out where out: "csr_execute d (csrs s) v = Some out"
    using csr assms(5) by (simp add: csr_execute_def Let_def)
  obtain s' where s': "write_rd (d_rd d) (read_value out) s = Some s'" "hart_ok s'"
    using write_rd_ok [OF assms(1)] assms(4) unfolding decoded_ok_def by blast
  have "hart_ok (s'\<lparr>csrs := csr_write a x (csrs s')\<rparr>)" for a x
    using s'(2) by (simp add: hart_ok_def csr_write_ok)
  then show ?thesis
    using assms csr out s'
    by (auto simp: execute_csr_def Let_def illegal_post simp del: csr_write.simps
        intro!: retire_post split: option.split)
qed

lemma execute_system_post:
  assumes "hart_ok s" "walker_ok w" "binv b"
  shows "wp (execute_system d v1 v2 kind (s, w, b)) (exec_post binv s0)"
proof -
  have ret: "wp (case return_from_trap k s of None \<Rightarrow> None | Some (res, s') \<Rightarrow> Some (Inr res, (s', w, b)))
      (exec_post binv s0)" if "k = Mret \<or> k = Sret" for k
    using return_from_trap_ok [OF assms(1) that] assms by (auto simp: exec_post_def result_ok_def)
  show ?thesis
    using assms by (cases kind) (simp_all add: illegal_post trap_post retire_post walker_ok_flush ret)
qed

context bus_safe begin

lemma map_ok_safe: "wp m (\<lambda>_. binv) \<Longrightarrow> wp (map_ok f m) (\<lambda>_. binv)"
  by (auto simp: map_ok_def elim!: wp_elim intro!: wp_and_then split: sum.split)

lemma load_value_safe: "binv b \<Longrightarrow> wp (load_value ops kind a b) (\<lambda>_. binv)"
  by (cases kind) (simp_all add: map_ok_safe load8_safe load16_safe load32_safe)

lemma store_value_safe: "binv b \<Longrightarrow> wp (store_value ops kind a v b) (\<lambda>_. binv)"
  by (cases kind) (simp_all add: store8_safe store16_safe store32_safe)

lemma translate_obtain:
  assumes "binv b" "walker_ok w"
  obtains res w' b' where "translate ops c p va acc (w, b) = Some (Inr res, (w', b'))"
    "walker_ok w'" "binv b'"
  using translate_safe [OF assms, of c p va acc] by (auto simp: walk_ok_post_def elim!: wp_elim)

lemma execute_load_post:
  assumes "hart_ok s" "walker_ok w" "binv b" "reg_ok (d_rd d)"
  shows "wp (execute_load ops d kind v (s, w, b)) (exec_post binv s)"
proof -
  let ?va = "effective_address v (d_imm d)"
  obtain res w1 b1 where t: "translate ops (csrs s) (privilege s) ?va LoadMemory (w, b) =
      Some (Inr res, (w1, b1))" "walker_ok w1" "binv b1"
    using translate_obtain [OF assms(3,2)] by metis
  show ?thesis
  proof (cases res)
    case (PhysicalAddress pa)
    obtain r b2 where l: "load_value ops kind (ucast pa) b1 = Some (r, b2)" "binv b2"
      by (rule wp_elim [OF load_value_safe [OF t(3)]])
    show ?thesis
    proof (cases r)
      case (Inl e)
      then show ?thesis
        using t l PhysicalAddress assms map_error_busy [of e ?va LoadMemory]
        by (auto simp: execute_load_def wait_post trap_post)
    next
      case (Inr x)
      then show ?thesis
        using t l PhysicalAddress assms write_rd_ok [OF assms(1,4), of x]
        by (auto simp: execute_load_def retire_post)
    qed
  qed (use t assms in \<open>simp_all add: execute_load_def wait_post trap_post\<close>)
qed

lemma execute_store_post:
  assumes "hart_ok s" "walker_ok w" "binv b"
  shows "wp (execute_store ops d kind v v2 (s, w, b)) (exec_post binv s)"
proof -
  let ?va = "effective_address v (d_imm d)"
  obtain res w1 b1 where t: "translate ops (csrs s) (privilege s) ?va StoreMemory (w, b) =
      Some (Inr res, (w1, b1))" "walker_ok w1" "binv b1"
    using translate_obtain [OF assms(3,2)] by metis
  show ?thesis
  proof (cases res)
    case (PhysicalAddress pa)
    obtain r b2 where l: "store_value ops kind (ucast pa) v2 b1 = Some (r, b2)" "binv b2"
      by (rule wp_elim [OF store_value_safe [OF t(3)]])
    show ?thesis
    proof (cases r)
      case (Inl e)
      then show ?thesis
        using t l PhysicalAddress assms map_error_busy [of e ?va StoreMemory]
        by (auto simp: execute_store_def wait_post trap_post)
    next
      case (Inr x)
      then show ?thesis
        using t l PhysicalAddress assms by (simp add: execute_store_def retire_post)
    qed
  qed (use t assms in \<open>simp_all add: execute_store_def wait_post trap_post\<close>)
qed

lemma execute_decoded_post:
  assumes "hart_ok s" "walker_ok w" "binv b" "decoded_ok d"
  shows "wp (execute_decoded ops d (s, w, b)) (exec_post binv s)"
proof -
  obtain v1 v2 where v: "read_operand (d_rs1 d) s = Some v1" "read_operand (d_rs2 d) s = Some v2"
    using read_operand_ok [OF assms(1)] assms(4) unfolding decoded_ok_def by blast
  have rd: "reg_ok (d_rd d)" using assms by (simp add: decoded_ok_def)
  show ?thesis
  proof (cases "d_kind d")
    case (Csr op)
    then show ?thesis
      using v assms execute_csr_post by (simp add: execute_decoded_def)
  qed (use v assms rd in \<open>simp_all add: execute_decoded_def Let_def write_back_post retire_post
      execute_load_post execute_store_post execute_system_post\<close>)
qed

end

end
