(* ===== verification/Reference_Core.thy ===== *)
theory Reference_Core
  imports Execute
begin

text \<open>
  The architectural reference core (\<open>crates/cpu/src/core/reference.rs\<close>) and the status a processor
  returns for a cycle (\<open>crates/system/src/component.rs\<close>). \<open>step_cycle\<close> is one definition per phase:
  the counters and interrupt inputs, the fetch of the next instruction, and the whole cycle.
\<close>

record cpu_cycle =
  retired_instructions :: u64
  stalled :: bool

record reference_core =
  rc_reset_vector :: u32
  rc_cycle :: u64
  rc_state :: hart_state
  rc_walker :: page_walker
  rc_pending_decoded :: "decoded_instruction option"
  rc_last_result :: execution_result

definition reference_new :: "u32 \<Rightarrow> reference_core" where
  "reference_new vector =
     \<lparr>rc_reset_vector = vector, rc_cycle = 0, rc_state = hart_new vector,
      rc_walker = page_walker_default, rc_pending_decoded = None,
      rc_last_result = execution_result_default\<rparr>"

definition reference_reset :: "reference_core \<Rightarrow> reference_core" where
  "reference_reset c =
     c\<lparr>rc_cycle := 0, rc_state := hart_reset (rc_reset_vector c) (rc_state c),
       rc_walker := walker_reset (rc_walker c), rc_pending_decoded := None,
       rc_last_result := execution_result_default\<rparr>"

definition reference_last_trap :: "reference_core \<Rightarrow> trap option" where
  "reference_last_trap c = er_trap (rc_last_result c)"

type_synonym 'b reference_outcome = "(cpu_error + cpu_cycle, reference_core \<times> 'b) outcome"

definition stalled_cycle :: cpu_cycle where
  "stalled_cycle = \<lparr>retired_instructions = 0, stalled = True\<rparr>"

text \<open>The counters and the interrupt inputs, sampled at the start of a cycle by both cores.\<close>

definition sample_inputs :: "('b, 'z) bus_ops_scheme \<Rightarrow> 'b \<Rightarrow> csr_file \<Rightarrow> csr_file" where
  "sample_inputs ops b c =
     (let c = increment_cycle c;
          c = (case bus_machine_time ops b of Some t \<Rightarrow> set_time t c | None \<Rightarrow> increment_time c)
      in sync_interrupts (bus_pending_interrupts ops b) c)"

definition waiting_result :: execution_result where
  "waiting_result = \<lparr>er_retired = 0, er_trap = None, er_memory_access = True\<rparr>"

text \<open>\<open>self.last_result = apply_trap(..)\<close> at the address \<open>a\<close>, ending the cycle.\<close>

definition reference_trap :: "trap \<Rightarrow> u32 \<Rightarrow> reference_core \<Rightarrow> 'b \<Rightarrow> 'b reference_outcome" where
  "reference_trap t a c b =
     (case apply_trap t a (rc_state c) of
        (res, s) \<Rightarrow> Some (Inr stalled_cycle, (c\<lparr>rc_state := s, rc_last_result := res\<rparr>, b)))"

definition reference_wait :: "reference_core \<Rightarrow> 'b \<Rightarrow> 'b reference_outcome" where
  "reference_wait c b = Some (Inr stalled_cycle, (c\<lparr>rc_last_result := waiting_result\<rparr>, b))"

definition reference_execute ::
  "('b, 'z) bus_ops_scheme \<Rightarrow> decoded_instruction \<Rightarrow> reference_core \<Rightarrow> 'b \<Rightarrow> 'b reference_outcome" where
  "reference_execute ops d c b =
     (case execute_decoded ops d (rc_state c, rc_walker c, b) of
        None \<Rightarrow> None
      | Some (Inl e, (s, w, b)) \<Rightarrow> Some (Inl e, (c\<lparr>rc_state := s, rc_walker := w\<rparr>, b))
      | Some (Inr res, (s, w, b)) \<Rightarrow>
          Some (Inr \<lparr>retired_instructions = er_retired res, stalled = (er_retired res = 0)\<rparr>,
            (c\<lparr>rc_state := s\<lparr>csrs := increment_instret (er_retired res) (csrs s)\<rparr>, rc_walker := w,
               rc_last_result := res,
               rc_pending_decoded := (if er_retired res = 0 \<and> er_trap res = None then Some d else None)\<rparr>,
             b)))"

definition reference_fetch ::
  "('b, 'z) bus_ops_scheme \<Rightarrow> reference_core \<Rightarrow> 'b \<Rightarrow> 'b reference_outcome" where
  "reference_fetch ops c b =
     (let s = rc_state c; at = pc s in
      case translate ops (csrs s) (privilege s) at InstructionAccess (rc_walker c, b) of
        None \<Rightarrow> None
      | Some (Inl e, (w, b)) \<Rightarrow> Some (Inl (CpuBus e), (c\<lparr>rc_walker := w\<rparr>, b))
      | Some (Inr TranslationStall, (w, b)) \<Rightarrow> reference_wait (c\<lparr>rc_walker := w\<rparr>) b
      | Some (Inr (TranslationFault t), (w, b)) \<Rightarrow> reference_trap t at (c\<lparr>rc_walker := w\<rparr>) b
      | Some (Inr (PhysicalAddress pa), (w, b)) \<Rightarrow>
          (let c = c\<lparr>rc_walker := w\<rparr> in
           case bus_fetch32 ops (ucast pa) b of
             None \<Rightarrow> None
           | Some (Inl e, b) \<Rightarrow>
               (if is_busy_error e then reference_wait c b
                else (case map_bus_error_to_trap e at InstructionAccess of
                        Some t \<Rightarrow> reference_trap t at c b
                      | None \<Rightarrow> Some (Inl (CpuBus e), (c, b))))
           | Some (Inr raw, b) \<Rightarrow>
               (case decode raw at of
                  Inr d \<Rightarrow> reference_execute ops d c b
                | Inl _ \<Rightarrow> reference_trap (TrapException (IllegalInstruction raw)) at c b)))"

definition reference_step ::
  "('b, 'z) bus_ops_scheme \<Rightarrow> reference_core \<times> 'b \<Rightarrow> 'b reference_outcome" where
  "reference_step ops st =
     (case st of (c0, b) \<Rightarrow>
      (let s = rc_state c0;
           c = c0\<lparr>rc_cycle := rc_cycle c0 + 1, rc_state := s\<lparr>csrs := sample_inputs ops b (csrs s)\<rparr>\<rparr>;
           s = rc_state c
       in case (if rc_pending_decoded c = None \<and> \<not> bus_is_busy ops b
                then pending_interrupt (csrs s) (privilege s) else None) of
            Some i \<Rightarrow> reference_trap (TrapInterrupt i) (pc s) c b
          | None \<Rightarrow>
              if halted s then Some (Inr stalled_cycle, (c, b))
              else (case rc_pending_decoded c of
                      Some d \<Rightarrow> reference_execute ops d c b
                    | None \<Rightarrow> reference_fetch ops c b)))"

subsection \<open>Safety\<close>

definition reference_ok :: "reference_core \<Rightarrow> bool" where
  "reference_ok c \<longleftrightarrow>
     hart_ok (rc_state c) \<and> walker_ok (rc_walker c) \<and>
     (case rc_pending_decoded c of None \<Rightarrow> True | Some d \<Rightarrow> decoded_ok d)"

lemma reference_ok_new: "reference_ok (reference_new v)"
  by (simp add: reference_ok_def reference_new_def hart_ok_new walker_ok_default)

lemma reference_ok_reset: "reference_ok (reference_reset c)"
  by (simp add: reference_ok_def reference_reset_def hart_ok_reset walker_ok_reset)

lemma sample_inputs_ok: "csr_ok c \<Longrightarrow> csr_ok (sample_inputs ops b c)"
  by (simp add: sample_inputs_def Let_def sync_interrupts_ok csr_counters_ok split: option.split)

text \<open>A cycle never fails and retires at most one instruction.\<close>

definition reference_post ::
  "('b \<Rightarrow> bool) \<Rightarrow> cpu_error + cpu_cycle \<Rightarrow> reference_core \<times> 'b \<Rightarrow> bool" where
  "reference_post binv r st \<longleftrightarrow>
     (\<exists>rep. r = Inr rep \<and> (retired_instructions rep = 0 \<or> retired_instructions rep = 1) \<and>
        stalled rep = (retired_instructions rep = 0)) \<and>
     reference_ok (fst st) \<and> binv (snd st)"

lemma reference_wait_post:
  "reference_ok c \<Longrightarrow> binv b \<Longrightarrow> wp (reference_wait c b) (reference_post binv)"
  by (simp add: reference_wait_def reference_post_def stalled_cycle_def reference_ok_def)

lemma reference_trap_post:
  "reference_ok c \<Longrightarrow> binv b \<Longrightarrow> wp (reference_trap t a c b) (reference_post binv)"
  using apply_trap_ok [of "rc_state c" t a]
  by (cases "apply_trap t a (rc_state c)")
    (simp add: reference_trap_def reference_post_def stalled_cycle_def reference_ok_def)

context bus_safe begin

lemma reference_execute_post:
  assumes "reference_ok c" "binv b" "decoded_ok d"
  shows "wp (reference_execute ops d c b) (reference_post binv)"
proof -
  have "wp (execute_decoded ops d (rc_state c, rc_walker c, b)) (exec_post binv (rc_state c))"
    using assms by (intro execute_decoded_post) (simp_all add: reference_ok_def)
  then obtain res s w b' where r:
    "execute_decoded ops d (rc_state c, rc_walker c, b) = Some (Inr res, (s, w, b'))"
    "result_ok res" "hart_ok s" "walker_ok w" "binv b'"
    by (auto simp: exec_post_def elim!: wp_elim)
  show ?thesis
    using r assms
    by (auto simp: reference_execute_def reference_post_def reference_ok_def result_ok_def
        hart_ok_def csr_counters_ok)
qed

lemma reference_fetch_post:
  assumes "reference_ok c" "binv b"
  shows "wp (reference_fetch ops c b) (reference_post binv)"
proof -
  let ?s = "rc_state c"
  have w: "walker_ok (rc_walker c)" using assms by (simp add: reference_ok_def)
  obtain res w1 b1 where t: "translate ops (csrs ?s) (privilege ?s) (pc ?s) InstructionAccess
      (rc_walker c, b) = Some (Inr res, (w1, b1))" "walker_ok w1" "binv b1"
    using translate_obtain [OF assms(2) w] by metis
  have c1: "reference_ok (c\<lparr>rc_walker := w1\<rparr>)"
    using assms(1) t(2) by (simp add: reference_ok_def)
  show ?thesis
  proof (cases res)
    case (PhysicalAddress pa)
    obtain r b2 where l: "bus_fetch32 ops (ucast pa) b1 = Some (r, b2)" "binv b2"
      by (rule wp_elim [OF fetch32_safe [OF t(3)]])
    show ?thesis
    proof (cases r)
      case (Inl e)
      then show ?thesis
        using t l PhysicalAddress c1 map_error_busy [of e "pc ?s" InstructionAccess]
        by (auto simp: reference_fetch_def Let_def reference_wait_post reference_trap_post)
    next
      case (Inr raw)
      then show ?thesis
        using t l PhysicalAddress c1 decode_decoded_ok [of raw "pc ?s"]
        by (auto simp: reference_fetch_def Let_def reference_execute_post reference_trap_post
            split: sum.split)
    qed
  qed (use t c1 in \<open>simp_all add: reference_fetch_def Let_def reference_wait_post reference_trap_post\<close>)
qed

lemma reference_step_post:
  assumes "reference_ok c" "binv b"
  shows "wp (reference_step ops (c, b)) (reference_post binv)"
proof -
  let ?c = "c\<lparr>rc_cycle := rc_cycle c + 1,
    rc_state := (rc_state c)\<lparr>csrs := sample_inputs ops b (csrs (rc_state c))\<rparr>\<rparr>"
  have c: "reference_ok ?c"
    using assms(1) by (simp add: reference_ok_def hart_ok_def sample_inputs_ok)
  have halt: "wp (Some (Inr stalled_cycle, (?c, b))) (reference_post binv)"
    using c assms(2) by (simp add: reference_post_def stalled_cycle_def)
  have d: "decoded_ok d" if "rc_pending_decoded ?c = Some d" for d
    using c that by (simp add: reference_ok_def)
  show ?thesis
    using c assms(2) halt d
    by (auto simp: reference_step_def Let_def intro!: reference_trap_post reference_execute_post
        reference_fetch_post split: option.split)
qed

end

end
