(* ===== verification/Predictor.thy ===== *)
theory Predictor
  imports Prelude
begin

text \<open>
  The hazard helpers (\<open>crates/cpu/src/hazard\<close>) and the branch predictors (\<open>crates/cpu/src/predictor\<close>)
  of the pipeline. The trait \<open>BranchPredictor\<close> is the locale \<open>branch_predictor\<close>, which states what
  the front end relies on; both predictors of the source interpret it. A bimodal table that is
  empty makes the source's \<open>%\<close> panic, hence the \<open>option\<close> results.
\<close>

subsection \<open>Hazards\<close>

definition detect_branch_flush :: "u32 \<Rightarrow> u32 \<Rightarrow> bool" where
  "detect_branch_flush predicted_pc actual_pc \<longleftrightarrow> predicted_pc \<noteq> actual_pc"

definition detect_raw_hazard :: "u8 option \<Rightarrow> u8 option \<Rightarrow> u8 option \<Rightarrow> bool" where
  "detect_raw_hazard producer_rd consumer_rs1 consumer_rs2 =
     (case producer_rd of
        None \<Rightarrow> False
      | Some producer \<Rightarrow>
          producer \<noteq> 0 \<and> (consumer_rs1 = Some producer \<or> consumer_rs2 = Some producer))"

definition fetch_blocked_by_memory_access :: "bool \<Rightarrow> bool \<Rightarrow> bool" where
  "fetch_blocked_by_memory_access unified_memory memory_stage_accessed \<longleftrightarrow>
     unified_memory \<and> memory_stage_accessed"

subsection \<open>Predictors\<close>

record branch_prediction =
  bp_taken :: bool
  bp_target :: u32

definition always_not_taken_predict :: "u32 \<Rightarrow> u32 \<Rightarrow> u32 \<Rightarrow> branch_prediction" where
  "always_not_taken_predict at fallthrough target = \<lparr>bp_taken = False, bp_target = fallthrough\<rparr>"

type_synonym bimodal = "u8 list"

definition bimodal_new :: "nat \<Rightarrow> bimodal" where
  "bimodal_new entries = replicate (max entries 1) 1"

definition bimodal_default :: bimodal where
  "bimodal_default = bimodal_new 64"

definition bimodal_index :: "bimodal \<Rightarrow> u32 \<Rightarrow> nat" where
  "bimodal_index table at = unat (drop_bit 2 at) mod length table"

definition bimodal_predict :: "bimodal \<Rightarrow> u32 \<Rightarrow> u32 \<Rightarrow> u32 \<Rightarrow> branch_prediction option" where
  "bimodal_predict table at fallthrough target =
     (case idx table (bimodal_index table at) of
        None \<Rightarrow> None
      | Some counter \<Rightarrow>
          (let taken = (counter \<ge> 2) in
           Some \<lparr>bp_taken = taken, bp_target = (if taken then target else fallthrough)\<rparr>))"

definition next_counter :: "u8 \<Rightarrow> bool \<Rightarrow> u8" where
  "next_counter counter taken =
     (if counter = 0 then (if taken then 1 else 0)
      else if counter = 1 then (if taken then 2 else 0)
      else if counter = 2 then (if taken then 3 else 1)
      else if counter = 3 then (if taken then 3 else 2)
      else 1)"

definition bimodal_update :: "u32 \<Rightarrow> bool \<Rightarrow> bimodal \<Rightarrow> bimodal option" where
  "bimodal_update at taken table =
     (let i = bimodal_index table at in
      case idx table i of
        None \<Rightarrow> None
      | Some counter \<Rightarrow> idx_set table i (next_counter counter taken))"

subsection \<open>The contract of a predictor\<close>

text \<open>\<open>train update xs p\<close>: the outcomes \<open>xs\<close> of resolved branches, in order.\<close>

primrec train :: "(u32 \<Rightarrow> bool \<Rightarrow> 'p \<Rightarrow> 'p option) \<Rightarrow> (u32 \<times> bool) list \<Rightarrow> 'p \<Rightarrow> 'p option" where
  "train upd [] p = Some p"
| "train upd (x # xs) p =
     (case upd (fst x) (snd x) p of None \<Rightarrow> None | Some p' \<Rightarrow> train upd xs p')"

locale branch_predictor =
  fixes predict :: "'p \<Rightarrow> u32 \<Rightarrow> u32 \<Rightarrow> u32 \<Rightarrow> branch_prediction option"
    and update :: "u32 \<Rightarrow> bool \<Rightarrow> 'p \<Rightarrow> 'p option"
    and pinv :: "'p \<Rightarrow> bool"
  assumes predict_total: "pinv p \<Longrightarrow> \<exists>bp. predict p a f t = Some bp"
    and predict_target: "predict p a f t = Some bp \<Longrightarrow> bp_target bp = (if bp_taken bp then t else f)"
    and update_total: "pinv p \<Longrightarrow> \<exists>p'. update a b p = Some p' \<and> pinv p'"
begin

text \<open>Training on any sequence of branches neither panics nor breaks the predictor.\<close>

lemma train_total: "pinv p \<Longrightarrow> \<exists>p'. train update xs p = Some p' \<and> pinv p'"
proof (induction xs arbitrary: p)
  case Nil
  then show ?case by simp
next
  case (Cons x xs)
  obtain p' where "update (fst x) (snd x) p = Some p'" "pinv p'"
    using update_total Cons.prems by blast
  with Cons.IH show ?case by auto
qed

lemma prediction_follows:
  assumes "pinv p"
  obtains bp where "predict p a f t = Some bp" "bp_target bp = f \<or> bp_target bp = t"
    "bp_target bp = (if bp_taken bp then t else f)"
  using predict_total [OF assms] predict_target by (metis (full_types))

end

definition bimodal_ok :: "bimodal \<Rightarrow> bool" where
  "bimodal_ok table \<longleftrightarrow> table \<noteq> [] \<and> (\<forall>c \<in> set table. c \<le> 3)"

lemma bimodal_index_less: "table \<noteq> [] \<Longrightarrow> bimodal_index table a < length table"
  by (simp add: bimodal_index_def)

lemma next_counter_le: "next_counter c b \<le> 3"
  by (simp add: next_counter_def)

lemma bimodal_ok_new: "bimodal_ok (bimodal_new n)"
  by (auto simp: bimodal_ok_def bimodal_new_def max_def)

lemma bimodal_update_ok:
  "bimodal_ok p \<Longrightarrow> bimodal_update a b p =
     Some (p[bimodal_index p a := next_counter (p ! bimodal_index p a) b])"
  by (simp add: bimodal_ok_def bimodal_update_def bimodal_index_less Let_def)

lemma bimodal_ok_list_update: "bimodal_ok p \<Longrightarrow> bimodal_ok (p[i := next_counter c b])"
  using set_update_subset_insert [of p i "next_counter c b"] next_counter_le
  by (auto simp: bimodal_ok_def)

interpretation bimodal: branch_predictor bimodal_predict bimodal_update bimodal_ok
proof unfold_locales
  fix p a f t bp b
  show "\<exists>bp. bimodal_predict p a f t = Some bp" if "bimodal_ok p"
    using that by (simp add: bimodal_predict_def bimodal_ok_def bimodal_index_less Let_def)
  show "bp_target bp = (if bp_taken bp then t else f)" if "bimodal_predict p a f t = Some bp"
    using that by (auto simp: bimodal_predict_def Let_def split: option.splits)
  show "\<exists>p'. bimodal_update a b p = Some p' \<and> bimodal_ok p'" if "bimodal_ok p"
    using that by (simp add: bimodal_update_ok bimodal_ok_list_update)
qed

interpretation always_not_taken:
  branch_predictor "\<lambda>_ :: unit. \<lambda>a f t. Some (always_not_taken_predict a f t)" "\<lambda>_ _ p. Some p" "\<lambda>_. True"
  by unfold_locales (auto simp: always_not_taken_predict_def)

text \<open>
  C40. The bimodal predictor learns a branch: after the same outcome twice in a row, from any
  well-formed table, the branch is predicted that way, its prediction's target is the branch
  target when taken and the next instruction otherwise, and branches that use another table
  entry are predicted as before.
\<close>

theorem bimodal_learns:
  assumes "bimodal_ok p"
  shows "\<exists>p'. train bimodal_update [(a, b), (a, b)] p = Some p' \<and> bimodal_ok p' \<and>
    bimodal_predict p' a f t = Some \<lparr>bp_taken = b, bp_target = (if b then t else f)\<rparr> \<and>
    (\<forall>a'. bimodal_index p a' \<noteq> bimodal_index p a \<longrightarrow>
       bimodal_predict p' a' f t = bimodal_predict p a' f t)"
proof -
  let ?i = "bimodal_index p a"
  let ?c = "next_counter (next_counter (p ! ?i) b) b"
  have i: "?i < length p" and p: "p \<noteq> []"
    using assms bimodal_index_less by (auto simp: bimodal_ok_def)
  have idx: "bimodal_index (p[k := x]) y = bimodal_index p y" for k x y
    by (simp add: bimodal_index_def)
  have t: "train bimodal_update [(a, b), (a, b)] p = Some (p[?i := ?c])"
    using assms i by (simp add: bimodal_update_ok bimodal_ok_list_update idx)
  have "(?c \<ge> 2) = b"
    by (simp add: next_counter_def word_le_nat_alt)
  then have "bimodal_predict (p[?i := ?c]) a f t =
      Some \<lparr>bp_taken = b, bp_target = (if b then t else f)\<rparr>"
    using i by (simp add: bimodal_predict_def idx Let_def)
  moreover have "bimodal_predict (p[?i := ?c]) a' f t = bimodal_predict p a' f t"
    if "bimodal_index p a' \<noteq> ?i" for a'
    using that p by (simp add: bimodal_predict_def idx bimodal_index_less)
  ultimately show ?thesis using t assms by (simp add: bimodal_ok_list_update)
qed

theorem bimodal_learns_witness:
  "\<exists>p'. train bimodal_update [(8, True), (8, True)] [1, 1, 1, 1] = Some p' \<and>
     bimodal_predict p' 8 12 64 = Some \<lparr>bp_taken = True, bp_target = 64\<rparr>"
proof -
  have "bimodal_ok [1, 1, 1, 1]" by (simp add: bimodal_ok_def)
  from bimodal_learns [OF this, of 8 True 12 64] show ?thesis by auto
qed

end
