(* ===== verification/Stages.thy ===== *)
theory Stages
  imports Execute Predictor
begin

text \<open>
  The five pipeline stages (\<open>crates/cpu/src/pipeline\<close>) with the latch payloads between them
  (\<open>latches.rs\<close>) and the commit event of \<open>trace.rs\<close>. A latch of the source is a struct with the
  single field \<open>payload\<close>; \<open>pipeline_latches\<close> holds the four payloads.
\<close>

subsection \<open>Latches (latches.rs) and commit events (trace.rs)\<close>

record if_id_payload =
  ii_pc :: u32
  ii_raw :: u32
  ii_predicted_pc :: u32
  ii_predicted_taken :: bool

record id_ex_payload =
  ie_decoded :: decoded_instruction
  ie_rs1_value :: u32
  ie_rs2_value :: u32
  ie_predicted_pc :: u32
  ie_predicted_taken :: bool

record ex_mem_payload =
  em_decoded :: decoded_instruction
  em_writeback_value :: "u32 option"
  em_csr_write :: "csr_write_effect option"
  em_translation_fence :: "translation_fence option"
  em_memory_address :: "u32 option"
  em_store_value :: u32
  em_next_pc :: u32

record mem_wb_payload =
  mw_decoded :: decoded_instruction
  mw_writeback_value :: "u32 option"
  mw_csr_write :: "csr_write_effect option"
  mw_translation_fence :: "translation_fence option"
  mw_next_pc :: u32

record pipeline_latches =
  if_id :: "if_id_payload option"
  id_ex :: "id_ex_payload option"
  ex_mem :: "ex_mem_payload option"
  mem_wb :: "mem_wb_payload option"

definition latches_default :: pipeline_latches where
  "latches_default = \<lparr>if_id = None, id_ex = None, ex_mem = None, mem_wb = None\<rparr>"

record commit_event =
  ce_pc :: u32
  ce_next_pc :: u32
  ce_kind :: instruction_kind
  ce_destination :: "u8 option"
  ce_value :: "u32 option"
  ce_csr_write :: "csr_write_effect option"

subsection \<open>Fetch (if\_stage.rs)\<close>

datatype fetch_event = FetchAdvance if_id_payload | FetchStall | FetchTrap trap

definition fetch_sign_extend :: "u32 \<Rightarrow> nat \<Rightarrow> i32" where
  "fetch_sign_extend v bits = (let shift = 32 - bits in signed_drop_bit shift (push_bit shift v))"

definition fetch_imm_b :: "u32 \<Rightarrow> i32" where
  "fetch_imm_b raw =
     (let imm = push_bit 1 (drop_bit 8 raw AND 0x0f)
            OR push_bit 5 (drop_bit 25 raw AND 0x3f)
            OR push_bit 11 (drop_bit 7 raw AND 0x01)
            OR push_bit 12 (drop_bit 31 raw AND 0x01)
      in fetch_sign_extend imm 13)"

definition fetch_imm_j :: "u32 \<Rightarrow> i32" where
  "fetch_imm_j raw =
     (let imm = push_bit 1 (drop_bit 21 raw AND 0x03ff)
            OR push_bit 11 (drop_bit 20 raw AND 0x0001)
            OR push_bit 12 (drop_bit 12 raw AND 0x00ff)
            OR push_bit 20 (drop_bit 31 raw AND 0x0001)
      in fetch_sign_extend imm 21)"

text \<open>The predictor is the function \<open>predict\<close> of its trait, applied to the predictor \<open>p\<close>.\<close>

definition predict_from_raw ::
  "('p \<Rightarrow> u32 \<Rightarrow> u32 \<Rightarrow> u32 \<Rightarrow> branch_prediction option) \<Rightarrow> 'p \<Rightarrow> u32 \<Rightarrow> u32 \<Rightarrow> branch_prediction option" where
  "predict_from_raw predict p at raw =
     (let fallthrough = at + 4 in
      if raw AND 0x7f = 0x63 then predict p at fallthrough (at + fetch_imm_b raw)
      else if raw AND 0x7f = 0x6f then Some \<lparr>bp_taken = True, bp_target = at + fetch_imm_j raw\<rparr>
      else Some \<lparr>bp_taken = False, bp_target = fallthrough\<rparr>)"

definition fetch_stage ::
  "('b, 'z) bus_ops_scheme \<Rightarrow> ('p \<Rightarrow> u32 \<Rightarrow> u32 \<Rightarrow> u32 \<Rightarrow> branch_prediction option) \<Rightarrow> 'p \<Rightarrow>
   csr_file \<Rightarrow> privilege_mode \<Rightarrow> u32 \<Rightarrow> ('b, fetch_event) walk_call" where
  "fetch_stage ops predict p c priv at st =
     (case translate ops c priv at InstructionAccess st of
        None \<Rightarrow> None
      | Some (Inl e, st) \<Rightarrow> Some (Inl e, st)
      | Some (Inr TranslationStall, st) \<Rightarrow> Some (Inr FetchStall, st)
      | Some (Inr (TranslationFault t), st) \<Rightarrow> Some (Inr (FetchTrap t), st)
      | Some (Inr (PhysicalAddress pa), (w, b)) \<Rightarrow>
          (case bus_fetch32 ops (ucast pa) b of
             None \<Rightarrow> None
           | Some (Inl e, b) \<Rightarrow>
               (if is_busy_error e then Some (Inr FetchStall, (w, b))
                else (case map_bus_error_to_trap e at InstructionAccess of
                        Some t \<Rightarrow> Some (Inr (FetchTrap t), (w, b))
                      | None \<Rightarrow> Some (Inl e, (w, b))))
           | Some (Inr raw, b) \<Rightarrow>
               (case predict_from_raw predict p at raw of
                  None \<Rightarrow> None
                | Some bp \<Rightarrow>
                    Some (Inr (FetchAdvance \<lparr>ii_pc = at, ii_raw = raw, ii_predicted_pc = bp_target bp,
                        ii_predicted_taken = bp_taken bp\<rparr>), (w, b)))))"

subsection \<open>Decode (id\_stage.rs)\<close>

definition decode_stage :: "u32 \<Rightarrow> u32 \<Rightarrow> decode_error + decoded_instruction" where
  "decode_stage raw at = decode raw at"

subsection \<open>Execute (ex\_stage.rs)\<close>

record execute_outcome =
  xo_writeback_value :: "u32 option"
  xo_csr_write :: "csr_write_effect option"
  xo_translation_fence :: "translation_fence option"
  xo_memory_address :: "u32 option"
  xo_store_value :: u32
  xo_next_pc :: u32

datatype execute_event = ExecuteAdvance execute_outcome | ExecuteTrap trap

definition uses_memory :: "decoded_instruction \<Rightarrow> bool" where
  "uses_memory d = (case d_kind d of Load _ \<Rightarrow> True | Store _ \<Rightarrow> True | _ \<Rightarrow> False)"

definition is_load :: "decoded_instruction \<Rightarrow> bool" where
  "is_load d = (case d_kind d of Load _ \<Rightarrow> True | _ \<Rightarrow> False)"

definition writes_back :: "decoded_instruction \<Rightarrow> bool" where
  "writes_back d \<longleftrightarrow>
     (case d_kind d of
        Lui \<Rightarrow> True | Auipc \<Rightarrow> True | Jal \<Rightarrow> True | Jalr \<Rightarrow> True | Load _ \<Rightarrow> True
      | OpImm _ \<Rightarrow> True | Op _ \<Rightarrow> True | Csr _ \<Rightarrow> True | _ \<Rightarrow> False) \<and>
     d_rd d \<noteq> None \<and> d_rd d \<noteq> Some 0"

definition immediate_rhs :: "alu_op \<Rightarrow> decoded_instruction \<Rightarrow> u32" where
  "immediate_rhs op d =
     (if op = Sll \<or> op = Srl \<or> op = Sra then drop_bit 20 (d_raw d) else d_imm d)"

definition plain_outcome :: "u32 option \<Rightarrow> u32 \<Rightarrow> execute_outcome" where
  "plain_outcome v next_pc =
     \<lparr>xo_writeback_value = v, xo_csr_write = None, xo_translation_fence = None,
      xo_memory_address = None, xo_store_value = 0, xo_next_pc = next_pc\<rparr>"

definition execute_trap_illegal :: "decoded_instruction \<Rightarrow> execute_event" where
  "execute_trap_illegal d = ExecuteTrap (TrapException (IllegalInstruction (d_raw d)))"

definition execute_stage_csr ::
  "decoded_instruction \<Rightarrow> u32 \<Rightarrow> privilege_mode \<Rightarrow> csr_file \<Rightarrow> execute_event option" where
  "execute_stage_csr d rs1_value p c =
     (case d_csr d of
        None \<Rightarrow> None
      | Some csr \<Rightarrow>
        if \<not> allows_csr_access c p csr then Some (execute_trap_illegal d)
        else if p = Supervisor \<and> tvm_enabled c \<and> csr = Satp then Some (execute_trap_illegal d)
        else
          (case csr_execute d c rs1_value of
             None \<Rightarrow> None
           | Some out \<Rightarrow>
               if csr_write_back out \<noteq> None \<and> is_read_only csr then Some (execute_trap_illegal d)
               else Some (ExecuteAdvance
                 ((plain_outcome (Some (read_value out)) (d_pc d + 4))
                    \<lparr>xo_csr_write := csr_write_back out\<rparr>))))"

fun execute_stage_system ::
  "decoded_instruction \<Rightarrow> u32 \<Rightarrow> u32 \<Rightarrow> privilege_mode \<Rightarrow> csr_file \<Rightarrow> system_kind \<Rightarrow> execute_event" where
  "execute_stage_system d rs1_value rs2_value p c Ecall =
     ExecuteTrap (TrapException (case p of
        User \<Rightarrow> EnvironmentCallFromUMode | Supervisor \<Rightarrow> EnvironmentCallFromSMode
      | Machine \<Rightarrow> EnvironmentCallFromMMode))"
| "execute_stage_system d rs1_value rs2_value p c Ebreak = ExecuteTrap (TrapException Breakpoint)"
| "execute_stage_system d rs1_value rs2_value p c SfenceVma =
     (if p = User \<or> (p = Supervisor \<and> tvm_enabled c) then execute_trap_illegal d
      else ExecuteAdvance ((plain_outcome None (d_pc d + 4))\<lparr>xo_translation_fence :=
             Some (fence_from_operands (d_rs1 d) rs1_value (d_rs2 d) rs2_value)\<rparr>))"
| "execute_stage_system d rs1_value rs2_value p c Wfi =
     (if p \<noteq> Machine \<and> tw_enabled c then execute_trap_illegal d
      else ExecuteAdvance (plain_outcome None (d_pc d + 4)))"
| "execute_stage_system d rs1_value rs2_value p c Mret =
     (if p \<noteq> Machine then execute_trap_illegal d
      else ExecuteAdvance (plain_outcome None (csr_read c Mepc)))"
| "execute_stage_system d rs1_value rs2_value p c Sret =
     (if p \<noteq> Supervisor \<or> tsr_enabled c then execute_trap_illegal d
      else ExecuteAdvance (plain_outcome None (csr_read c Sepc)))"

definition execute_stage ::
  "decoded_instruction \<Rightarrow> u32 \<Rightarrow> u32 \<Rightarrow> privilege_mode \<Rightarrow> csr_file \<Rightarrow> execute_event option" where
  "execute_stage d rs1_value rs2_value p c =
     (let next_pc = d_pc d + 4 in
      case d_kind d of
        Lui \<Rightarrow> Some (ExecuteAdvance (plain_outcome (Some (d_imm d)) next_pc))
      | Auipc \<Rightarrow> Some (ExecuteAdvance (plain_outcome (Some (d_pc d + d_imm d)) next_pc))
      | Jal \<Rightarrow> Some (ExecuteAdvance
          (plain_outcome (Some next_pc) (branch_target (d_pc d) (d_imm d))))
      | Jalr \<Rightarrow> Some (ExecuteAdvance
          (plain_outcome (Some next_pc) (effective_address rs1_value (d_imm d) AND NOT 1)))
      | Branch kind \<Rightarrow> Some (ExecuteAdvance (plain_outcome None
          (if branch_taken kind rs1_value rs2_value then branch_target (d_pc d) (d_imm d) else next_pc)))
      | Load _ \<Rightarrow> Some (ExecuteAdvance ((plain_outcome None next_pc)
          \<lparr>xo_memory_address := Some (effective_address rs1_value (d_imm d))\<rparr>))
      | Store _ \<Rightarrow> Some (ExecuteAdvance ((plain_outcome None next_pc)
          \<lparr>xo_memory_address := Some (effective_address rs1_value (d_imm d)),
            xo_store_value := rs2_value\<rparr>))
      | OpImm op \<Rightarrow> Some (ExecuteAdvance
          (plain_outcome (Some (execute_alu op rs1_value (immediate_rhs op d))) next_pc))
      | Op op \<Rightarrow> Some (ExecuteAdvance
          (plain_outcome (Some (execute_alu op rs1_value rs2_value)) next_pc))
      | Csr _ \<Rightarrow> execute_stage_csr d rs1_value p c
      | System kind \<Rightarrow> Some (execute_stage_system d rs1_value rs2_value p c kind))"

text \<open>The EX/MEM payload that the core builds from an outcome.\<close>

definition execute_payload :: "decoded_instruction \<Rightarrow> execute_outcome \<Rightarrow> ex_mem_payload" where
  "execute_payload d out =
     \<lparr>em_decoded = d, em_writeback_value = xo_writeback_value out, em_csr_write = xo_csr_write out,
      em_translation_fence = xo_translation_fence out, em_memory_address = xo_memory_address out,
      em_store_value = xo_store_value out, em_next_pc = xo_next_pc out\<rparr>"

subsection \<open>Memory (mem\_stage.rs)\<close>

datatype memory_event = MemoryAdvance mem_wb_payload | MemoryStall ex_mem_payload | MemoryTrap trap

fun mem_load_value :: "('b, 'z) bus_ops_scheme \<Rightarrow> load_kind \<Rightarrow> u64 \<Rightarrow> ('b, u32) bus_call" where
  "mem_load_value ops LoadByte a b = map_ok sign_extend_byte (bus_load8 ops a b)"
| "mem_load_value ops LoadHalf a b = map_ok sign_extend_half (bus_load16 ops a b)"
| "mem_load_value ops LoadWord a b = bus_load32 ops a b"
| "mem_load_value ops LoadByteUnsigned a b = map_ok ucast (bus_load8 ops a b)"
| "mem_load_value ops LoadHalfUnsigned a b = map_ok ucast (bus_load16 ops a b)"

fun mem_store_value :: "('b, 'z) bus_ops_scheme \<Rightarrow> store_kind \<Rightarrow> u64 \<Rightarrow> u32 \<Rightarrow> ('b, unit) bus_call" where
  "mem_store_value ops StoreByte a v b = bus_store8 ops a (ucast v) b"
| "mem_store_value ops StoreHalf a v b = bus_store16 ops a (ucast v) b"
| "mem_store_value ops StoreWord a v b = bus_store32 ops a v b"

definition pass_through :: "ex_mem_payload \<Rightarrow> u32 option \<Rightarrow> mem_wb_payload" where
  "pass_through p v =
     \<lparr>mw_decoded = em_decoded p, mw_writeback_value = v, mw_csr_write = em_csr_write p,
      mw_translation_fence = em_translation_fence p, mw_next_pc = em_next_pc p\<rparr>"

text \<open>\<open>unwrap_or_default\<close> of the memory address.\<close>

definition payload_address :: "ex_mem_payload \<Rightarrow> u32" where
  "payload_address p = (case em_memory_address p of Some a \<Rightarrow> a | None \<Rightarrow> 0)"

definition memory_stage ::
  "('b, 'z) bus_ops_scheme \<Rightarrow> csr_file \<Rightarrow> privilege_mode \<Rightarrow> ex_mem_payload \<Rightarrow> ('b, memory_event) walk_call" where
  "memory_stage ops c priv p st =
     (case d_kind (em_decoded p) of
        Load kind \<Rightarrow>
          (let va = payload_address p in
           case translate ops c priv va LoadMemory st of
             None \<Rightarrow> None
           | Some (Inl e, st) \<Rightarrow> Some (Inl e, st)
           | Some (Inr TranslationStall, st) \<Rightarrow> Some (Inr (MemoryStall p), st)
           | Some (Inr (TranslationFault t), st) \<Rightarrow> Some (Inr (MemoryTrap t), st)
           | Some (Inr (PhysicalAddress pa), (w, b)) \<Rightarrow>
               (case mem_load_value ops kind (ucast pa) b of
                  None \<Rightarrow> None
                | Some (Inr v, b) \<Rightarrow> Some (Inr (MemoryAdvance (pass_through p (Some v))), (w, b))
                | Some (Inl e, b) \<Rightarrow>
                    (if is_busy_error e then Some (Inr (MemoryStall p), (w, b))
                     else (case map_bus_error_to_trap e va LoadMemory of
                             Some t \<Rightarrow> Some (Inr (MemoryTrap t), (w, b))
                           | None \<Rightarrow> Some (Inl e, (w, b))))))
      | Store kind \<Rightarrow>
          (let va = payload_address p in
           case translate ops c priv va StoreMemory st of
             None \<Rightarrow> None
           | Some (Inl e, st) \<Rightarrow> Some (Inl e, st)
           | Some (Inr TranslationStall, st) \<Rightarrow> Some (Inr (MemoryStall p), st)
           | Some (Inr (TranslationFault t), st) \<Rightarrow> Some (Inr (MemoryTrap t), st)
           | Some (Inr (PhysicalAddress pa), (w, b)) \<Rightarrow>
               (case mem_store_value ops kind (ucast pa) (em_store_value p) b of
                  None \<Rightarrow> None
                | Some (Inr _, b) \<Rightarrow> Some (Inr (MemoryAdvance (pass_through p None)), (w, b))
                | Some (Inl e, b) \<Rightarrow>
                    (if is_busy_error e then Some (Inr (MemoryStall p), (w, b))
                     else (case map_bus_error_to_trap e va StoreMemory of
                             Some t \<Rightarrow> Some (Inr (MemoryTrap t), (w, b))
                           | None \<Rightarrow> Some (Inl e, (w, b))))))
      | _ \<Rightarrow> Some (Inr (MemoryAdvance (pass_through p (em_writeback_value p))), st))"

subsection \<open>Write back (wb\_stage.rs)\<close>

definition write_back_stage ::
  "mem_wb_payload \<Rightarrow> hart_state \<times> page_walker \<Rightarrow> (commit_event, hart_state \<times> page_walker) outcome" where
  "write_back_stage p st =
     (case st of (s, w) \<Rightarrow>
      (let d = mw_decoded p;
           finish = (\<lambda>next_pc st.
             Some (\<lparr>ce_pc = d_pc d, ce_next_pc = next_pc, ce_kind = d_kind d,
                    ce_destination = d_rd d, ce_value = mw_writeback_value p,
                    ce_csr_write = mw_csr_write p\<rparr>, st))
       in if d_kind d = System Mret \<or> d_kind d = System Sret then
            (case return_from_trap (if d_kind d = System Mret then Mret else Sret) s of
               None \<Rightarrow> None
             | Some (_, s) \<Rightarrow> finish (pc s) (s, w))
          else
            (let w = (case mw_translation_fence p of Some f \<Rightarrow> flush_fence f w | None \<Rightarrow> w);
                 s = (case mw_csr_write p of
                        Some cw \<Rightarrow> s\<lparr>csrs := csr_write (cw_address cw) (cw_value cw) (csrs s)\<rparr>
                      | None \<Rightarrow> s)
             in case (case (d_rd d, mw_writeback_value p) of
                        (Some rd, Some v) \<Rightarrow> write_rd (Some rd) v s
                      | _ \<Rightarrow> Some s) of
                  None \<Rightarrow> None
                | Some s \<Rightarrow>
                    (let s = s\<lparr>pc := mw_next_pc p\<rparr>;
                         s = (if d_kind d = System Wfi then s\<lparr>halted := True\<rparr> else s)
                     in finish (mw_next_pc p) (s, w)))))"

subsection \<open>Safety of the stages\<close>

definition payload_ok :: "('p \<Rightarrow> decoded_instruction) \<Rightarrow> 'p option \<Rightarrow> bool" where
  "payload_ok f p \<longleftrightarrow> (case p of None \<Rightarrow> True | Some x \<Rightarrow> decoded_ok (f x))"

lemma payload_ok_simps [simp]: "payload_ok f None" "payload_ok f (Some x) = decoded_ok (f x)"
  by (simp_all add: payload_ok_def)

definition latches_ok :: "pipeline_latches \<Rightarrow> bool" where
  "latches_ok l \<longleftrightarrow>
     payload_ok ie_decoded (id_ex l) \<and> payload_ok em_decoded (ex_mem l) \<and>
     payload_ok mw_decoded (mem_wb l)"

lemma latches_ok_default: "latches_ok latches_default"
  by (simp add: latches_ok_def latches_default_def)

lemma execute_stage_total: "decoded_ok d \<Longrightarrow> \<exists>ev. execute_stage d v1 v2 p c = Some ev"
  by (cases "d_kind d")
    (auto simp: execute_stage_def Let_def execute_stage_csr_def csr_execute_def decoded_ok_def
      split: option.split)

lemma write_back_stage_ok:
  assumes "hart_ok s" "walker_ok w" "decoded_ok (mw_decoded p)"
  shows "\<exists>ev s' w'. write_back_stage p (s, w) = Some (ev, (s', w')) \<and> hart_ok s' \<and> walker_ok w'"
proof (cases "d_kind (mw_decoded p) = System Mret \<or> d_kind (mw_decoded p) = System Sret")
  case True
  then show ?thesis
    using return_from_trap_ok [OF assms(1), of Mret] return_from_trap_ok [OF assms(1), of Sret]
      assms(2) by (auto simp: write_back_stage_def Let_def)
next
  case False
  let ?s = "case mw_csr_write p of
      Some cw \<Rightarrow> s\<lparr>csrs := csr_write (cw_address cw) (cw_value cw) (csrs s)\<rparr> | None \<Rightarrow> s"
  let ?w = "case mw_translation_fence p of Some f \<Rightarrow> flush_fence f w | None \<Rightarrow> w"
  have s: "hart_ok ?s"
    using assms(1) by (simp add: hart_ok_def csr_write_ok del: csr_write.simps split: option.split)
  have w: "walker_ok ?w"
    using assms(2) by (simp add: walker_ok_flush split: option.split)
  obtain s' where s': "(case (d_rd (mw_decoded p), mw_writeback_value p) of
      (Some rd, Some v) \<Rightarrow> write_rd (Some rd) v ?s | _ \<Rightarrow> Some ?s) = Some s'" "hart_ok s'"
  proof (cases "d_rd (mw_decoded p)")
    case None
    then show ?thesis using that [of ?s] s by simp
  next
    case (Some rd)
    have rd: "reg_ok (Some rd)"
      using assms(3) Some unfolding decoded_ok_def by metis
    show ?thesis
    proof (cases "mw_writeback_value p")
      case None
      then show ?thesis using that [of ?s] s Some by simp
    next
      case (Some v)
      then show ?thesis
        using that write_rd_ok [OF s rd, of v] \<open>d_rd (mw_decoded p) = Some rd\<close> by auto
    qed
  qed
  show ?thesis
    using False s' w by (simp add: write_back_stage_def Let_def)
qed

context bus_safe begin

lemma mem_load_value_eq: "mem_load_value ops kind a b = load_value ops kind a b"
  by (cases kind) simp_all

lemma mem_store_value_eq: "mem_store_value ops kind a v b = store_value ops kind a v b"
  by (cases kind) simp_all

lemma memory_stage_safe:
  assumes "walker_ok w" "binv b"
  shows "\<exists>ev w' b'. memory_stage ops c priv p (w, b) = Some (Inr ev, (w', b')) \<and>
    walker_ok w' \<and> binv b' \<and>
    (case ev of MemoryAdvance q \<Rightarrow> mw_decoded q = em_decoded p | MemoryStall q \<Rightarrow> q = p | MemoryTrap _ \<Rightarrow> True)"
proof -
  have bus_load: "\<exists>r b'. load_value ops k a b = Some (r, b') \<and> binv b'" if "binv b" for k a b
    using load_value_safe [OF that, of k a] by (auto elim!: wp_elim)
  have bus_store: "\<exists>r b'. store_value ops k a v b = Some (r, b') \<and> binv b'" if "binv b" for k a v b
    using store_value_safe [OF that, of k a v] by (auto elim!: wp_elim)
  show ?thesis
  proof (cases "d_kind (em_decoded p)")
    case (Load k)
    obtain res w1 b1 where t: "translate ops c priv (payload_address p) LoadMemory (w, b) =
        Some (Inr res, (w1, b1))" "walker_ok w1" "binv b1"
      using translate_obtain [OF assms(2,1)] by metis
    show ?thesis
    proof (cases res)
      case (PhysicalAddress pa)
      obtain r b2 where l: "load_value ops k (ucast pa) b1 = Some (r, b2)" "binv b2"
        using bus_load [OF t(3)] by blast
      show ?thesis
        using Load t PhysicalAddress l map_error_busy [of "projl r" "payload_address p" LoadMemory]
        by (cases r) (auto simp: memory_stage_def Let_def mem_load_value_eq pass_through_def)
    qed (use Load t in \<open>simp_all add: memory_stage_def Let_def\<close>)
  next
    case (Store k)
    obtain res w1 b1 where t: "translate ops c priv (payload_address p) StoreMemory (w, b) =
        Some (Inr res, (w1, b1))" "walker_ok w1" "binv b1"
      using translate_obtain [OF assms(2,1)] by metis
    show ?thesis
    proof (cases res)
      case (PhysicalAddress pa)
      obtain r b2 where l: "store_value ops k (ucast pa) (em_store_value p) b1 = Some (r, b2)" "binv b2"
        using bus_store [OF t(3)] by blast
      show ?thesis
        using Store t PhysicalAddress l map_error_busy [of "projl r" "payload_address p" StoreMemory]
        by (cases r) (auto simp: memory_stage_def Let_def mem_store_value_eq pass_through_def)
    qed (use Store t in \<open>simp_all add: memory_stage_def Let_def\<close>)
  qed (use assms in \<open>simp_all add: memory_stage_def pass_through_def\<close>)
qed

lemma predict_from_raw_total: "bimodal_ok p \<Longrightarrow> \<exists>bp. predict_from_raw bimodal_predict p a raw = Some bp"
  using bimodal.predict_total by (simp add: predict_from_raw_def Let_def)

lemma fetch_stage_safe:
  assumes "walker_ok w" "binv b" "bimodal_ok p"
  shows "\<exists>ev w' b'. fetch_stage ops bimodal_predict p c priv a (w, b) = Some (Inr ev, (w', b')) \<and>
    walker_ok w' \<and> binv b'"
proof -
  obtain res w1 b1 where t: "translate ops c priv a InstructionAccess (w, b) =
      Some (Inr res, (w1, b1))" "walker_ok w1" "binv b1"
    using translate_obtain [OF assms(2,1)] by metis
  show ?thesis
  proof (cases res)
    case (PhysicalAddress pa)
    obtain r b2 where l: "bus_fetch32 ops (ucast pa) b1 = Some (r, b2)" "binv b2"
      by (rule wp_elim [OF fetch32_safe [OF t(3)]])
    show ?thesis
      using t PhysicalAddress l map_error_busy [of "projl r" a InstructionAccess]
        predict_from_raw_total [OF assms(3), of a "projr r"]
      by (cases r) (auto simp: fetch_stage_def Let_def)
  qed (use t in \<open>simp_all add: fetch_stage_def\<close>)
qed
end

end
