(* ===== verification/Pipeline_Core.thy ===== *)
theory Pipeline_Core
  imports Reference_Core Stages
begin

text \<open>
  The five-stage in-order pipeline (\<open>crates/cpu/src/core/pipeline.rs\<close>) with its trace and counters
  (\<open>trace.rs\<close>). \<open>step_cycle\<close> is the composition of its phases, in the order of the source: the
  inputs and the halted state, write back, interrupt, memory, execute, decode, fetch, and the
  bookkeeping at the end. The local variables of the source function are the record
  \<open>cycle_locals\<close>; each phase maps (core, bus, locals) to the next, and an error leaves the core
  as the phases before it left it, as \<open>?\<close> does.
\<close>

datatype flush_reason = BranchRedirect | FlushTrap | ReturnFromTrap | TranslationBarrier

record pipeline_stats =
  ps_cycles :: u64
  ps_retired_instructions :: u64
  ps_fetch_stall_cycles :: u64
  ps_decode_stall_cycles :: u64
  ps_flush_cycles :: u64
  ps_branch_flushes :: u64
  ps_trap_flushes :: u64
  ps_return_flushes :: u64
  ps_translation_barrier_flushes :: u64
  ps_predicted_taken_fetches :: u64
  ps_trap_count :: u64

definition pipeline_stats_default :: pipeline_stats where
  "pipeline_stats_default =
     \<lparr>ps_cycles = 0, ps_retired_instructions = 0, ps_fetch_stall_cycles = 0,
      ps_decode_stall_cycles = 0, ps_flush_cycles = 0, ps_branch_flushes = 0, ps_trap_flushes = 0,
      ps_return_flushes = 0, ps_translation_barrier_flushes = 0, ps_predicted_taken_fetches = 0,
      ps_trap_count = 0\<rparr>"

record pipeline_trace =
  pt_cycle :: u64
  pt_fetched_pc :: "u32 option"
  pt_decode_pc :: "u32 option"
  pt_execute_pc :: "u32 option"
  pt_memory_pc :: "u32 option"
  pt_writeback_pc :: "u32 option"
  pt_commit :: "commit_event option"
  pt_trap :: "trap option"
  pt_flush_reason :: "flush_reason option"
  pt_retired_instructions :: u64
  pt_predicted_taken :: bool
  pt_fetch_stalled :: bool
  pt_decode_stalled :: bool
  pt_flushed :: bool
  pt_note :: string

definition pipeline_trace_default :: pipeline_trace where
  "pipeline_trace_default =
     \<lparr>pt_cycle = 0, pt_fetched_pc = None, pt_decode_pc = None, pt_execute_pc = None,
      pt_memory_pc = None, pt_writeback_pc = None, pt_commit = None, pt_trap = None,
      pt_flush_reason = None, pt_retired_instructions = 0, pt_predicted_taken = False,
      pt_fetch_stalled = False, pt_decode_stalled = False, pt_flushed = False, pt_note = []\<rparr>"

text \<open>\<open>pl_unified_memory\<close> is the structural hazard policy, which has that one field.\<close>

record pipeline_core =
  pl_reset_vector :: u32
  pl_cycle :: u64
  pl_front_end_pc :: u32
  pl_state :: hart_state
  pl_walker :: page_walker
  pl_translation_barrier :: bool
  pl_predictor :: bimodal
  pl_latches :: pipeline_latches
  pl_unified_memory :: bool
  pl_last_commit :: "commit_event option"
  pl_last_trace :: pipeline_trace
  pl_last_result :: execution_result
  pl_stats :: pipeline_stats

definition pipeline_new :: "u32 \<Rightarrow> pipeline_core" where
  "pipeline_new vector =
     \<lparr>pl_reset_vector = vector, pl_cycle = 0, pl_front_end_pc = vector, pl_state = hart_new vector,
      pl_walker = page_walker_default, pl_translation_barrier = False,
      pl_predictor = bimodal_default, pl_latches = latches_default, pl_unified_memory = True,
      pl_last_commit = None, pl_last_trace = pipeline_trace_default,
      pl_last_result = execution_result_default, pl_stats = pipeline_stats_default\<rparr>"

definition pipeline_reset :: "pipeline_core \<Rightarrow> pipeline_core" where
  "pipeline_reset c =
     c\<lparr>pl_cycle := 0, pl_front_end_pc := pl_reset_vector c,
       pl_state := hart_reset (pl_reset_vector c) (pl_state c),
       pl_walker := walker_reset (pl_walker c), pl_translation_barrier := False,
       pl_latches := latches_default, pl_last_commit := None,
       pl_last_trace := pipeline_trace_default, pl_last_result := execution_result_default,
       pl_stats := pipeline_stats_default\<rparr>"

definition forwarded_operand ::
  "u8 option \<Rightarrow> u32 \<Rightarrow> ex_mem_payload option \<Rightarrow> mem_wb_payload option \<Rightarrow> u32" where
  "forwarded_operand src latched_value ex_payload wb_payload =
     (case src of
        None \<Rightarrow> latched_value
      | Some r \<Rightarrow>
        if r = 0 then 0
        else
          (case (case ex_payload of
                   None \<Rightarrow> None
                 | Some p \<Rightarrow>
                     if d_rd (em_decoded p) = Some r \<and> writes_back (em_decoded p)
                     then em_writeback_value p else None) of
             Some v \<Rightarrow> v
           | None \<Rightarrow>
               (case wb_payload of
                  None \<Rightarrow> latched_value
                | Some p \<Rightarrow>
                    if d_rd (mw_decoded p) = Some r \<and> mw_writeback_value p \<noteq> None
                    then the (mw_writeback_value p) else latched_value)))"

definition is_translation_barrier_payload :: "decoded_instruction \<Rightarrow> csr_write_effect option \<Rightarrow> bool" where
  "is_translation_barrier_payload d cw \<longleftrightarrow>
     d_kind d = System SfenceVma \<or> (case cw of Some e \<Rightarrow> cw_address e = Satp | None \<Rightarrow> False)"

definition is_csr_instruction :: "decoded_instruction \<Rightarrow> bool" where
  "is_csr_instruction d = (case d_kind d of Csr _ \<Rightarrow> True | _ \<Rightarrow> False)"

definition requires_csr_serialization :: "decoded_instruction \<Rightarrow> bool" where
  "requires_csr_serialization d \<longleftrightarrow>
     is_csr_instruction d \<or> d_kind d = System Mret \<or> d_kind d = System Sret"

definition has_in_flight_csr_instruction :: "pipeline_latches \<Rightarrow> bool" where
  "has_in_flight_csr_instruction l \<longleftrightarrow>
     (case id_ex l of Some p \<Rightarrow> is_csr_instruction (ie_decoded p) | None \<Rightarrow> False) \<or>
     (case ex_mem l of Some p \<Rightarrow> is_csr_instruction (em_decoded p) | None \<Rightarrow> False) \<or>
     (case mem_wb l of Some p \<Rightarrow> is_csr_instruction (mw_decoded p) | None \<Rightarrow> False)"

subsection \<open>The local variables of a cycle\<close>

record cycle_locals =
  lv_next :: pipeline_latches
  lv_front_end_pc :: u32
  lv_retired :: u64
  lv_fetch_stalled :: bool
  lv_decode_stalled :: bool
  lv_flushed :: bool
  lv_note :: string
  lv_fetched_pc :: "u32 option"
  lv_predicted_taken :: bool
  lv_trap_result :: "execution_result option"
  lv_commit :: "commit_event option"
  lv_flush_reason :: "flush_reason option"
  lv_memory_wait :: bool
  lv_translation_barrier :: bool

definition locals_start :: "pipeline_core \<Rightarrow> cycle_locals" where
  "locals_start c =
     \<lparr>lv_next = latches_default, lv_front_end_pc = pl_front_end_pc c, lv_retired = 0,
      lv_fetch_stalled = False, lv_decode_stalled = False, lv_flushed = False,
      lv_note = ''progress'', lv_fetched_pc = None, lv_predicted_taken = False,
      lv_trap_result = None, lv_commit = None, lv_flush_reason = None, lv_memory_wait = False,
      lv_translation_barrier = pl_translation_barrier c\<rparr>"

type_synonym 'b cycle_state = "pipeline_core \<times> 'b \<times> cycle_locals"

type_synonym 'b phase = "'b cycle_state \<Rightarrow> (cpu_error + unit, 'b cycle_state) outcome"

definition phase_done :: "'b phase" where
  "phase_done st = Some (Inr (), st)"

text \<open>
  \<open>trap_result = Some(apply_trap(..)); next_front_end_pc = self.state.pc; flushed = true;
  flush_reason = Some(FlushReason::Trap); note = ..\<close>
\<close>

definition take_trap :: "trap \<Rightarrow> u32 \<Rightarrow> string \<Rightarrow> 'b phase" where
  "take_trap t at msg st =
     (case st of (c, b, l) \<Rightarrow>
       (case apply_trap t at (pl_state c) of
          (res, s) \<Rightarrow>
            phase_done (c\<lparr>pl_state := s\<rparr>, b,
              l\<lparr>lv_trap_result := Some res, lv_front_end_pc := pc s, lv_flushed := True,
                lv_flush_reason := Some FlushTrap, lv_note := msg\<rparr>)))"

definition phase_write_back :: "'b phase" where
  "phase_write_back st =
     (case st of (c, b, l) \<Rightarrow>
       (case mem_wb (pl_latches c) of
          None \<Rightarrow> phase_done st
        | Some p \<Rightarrow>
            (case write_back_stage p (pl_state c, pl_walker c) of
               None \<Rightarrow> None
             | Some (ev, (s, w)) \<Rightarrow>
                 phase_done (c\<lparr>pl_state := s, pl_walker := w\<rparr>, b,
                   l\<lparr>lv_commit := Some ev, lv_retired := lv_retired l + 1,
                     lv_translation_barrier :=
                       (if is_translation_barrier_payload (mw_decoded p) (mw_csr_write p) then False
                        else lv_translation_barrier l)\<rparr>))))"

definition phase_interrupt :: "('b, 'z) bus_ops_scheme \<Rightarrow> 'b phase" where
  "phase_interrupt ops st =
     (case st of (c, b, l) \<Rightarrow>
       (case (if \<not> lv_translation_barrier l \<and> \<not> bus_is_busy ops b
              then pending_interrupt (csrs (pl_state c)) (privilege (pl_state c)) else None) of
          Some i \<Rightarrow> take_trap (TrapInterrupt i) (pc (pl_state c)) ''interrupt'' st
        | None \<Rightarrow> phase_done st))"

definition phase_memory :: "('b, 'z) bus_ops_scheme \<Rightarrow> 'b phase" where
  "phase_memory ops st =
     (case st of (c, b, l) \<Rightarrow>
       (case (if lv_flushed l then None else ex_mem (pl_latches c)) of
          None \<Rightarrow> phase_done st
        | Some p \<Rightarrow>
            (let l = l\<lparr>lv_fetch_stalled :=
                   fetch_blocked_by_memory_access (pl_unified_memory c) (uses_memory (em_decoded p))\<rparr>
             in case memory_stage ops (csrs (pl_state c)) (privilege (pl_state c)) p (pl_walker c, b) of
                  None \<Rightarrow> None
                | Some (Inl e, (w, b)) \<Rightarrow> Some (Inl (CpuBus e), (c\<lparr>pl_walker := w\<rparr>, b, l))
                | Some (Inr (MemoryAdvance q), (w, b)) \<Rightarrow>
                    phase_done (c\<lparr>pl_walker := w\<rparr>, b, l\<lparr>lv_next := (lv_next l)\<lparr>mem_wb := Some q\<rparr>\<rparr>)
                | Some (Inr (MemoryStall q), (w, b)) \<Rightarrow>
                    phase_done (c\<lparr>pl_walker := w\<rparr>, b,
                      l\<lparr>lv_memory_wait := True, lv_fetch_stalled := True,
                        lv_decode_stalled := (if_id (pl_latches c) \<noteq> None),
                        lv_next := (lv_next l)\<lparr>ex_mem := Some q, id_ex := id_ex (pl_latches c),
                                               if_id := if_id (pl_latches c)\<rparr>,
                        lv_note := ''memory wait''\<rparr>)
                | Some (Inr (MemoryTrap t), (w, b)) \<Rightarrow>
                    take_trap t (d_pc (em_decoded p)) ''memory trap'' (c\<lparr>pl_walker := w\<rparr>, b, l))))"

definition is_xret :: "decoded_instruction \<Rightarrow> bool" where
  "is_xret d \<longleftrightarrow> d_kind d = System Mret \<or> d_kind d = System Sret"

definition is_branch :: "decoded_instruction \<Rightarrow> bool" where
  "is_branch d = (case d_kind d of Branch _ \<Rightarrow> True | _ \<Rightarrow> False)"

definition phase_execute :: "'b phase" where
  "phase_execute st =
     (case st of (c, b, l) \<Rightarrow>
       (case (if \<not> lv_flushed l \<and> \<not> lv_memory_wait l \<and> \<not> lv_translation_barrier l
              then id_ex (pl_latches c) else None) of
          None \<Rightarrow> phase_done st
        | Some p \<Rightarrow>
            (let d = ie_decoded p;
                 rs1_value = forwarded_operand (d_rs1 d) (ie_rs1_value p)
                               (ex_mem (pl_latches c)) (mem_wb (pl_latches c));
                 rs2_value = forwarded_operand (d_rs2 d) (ie_rs2_value p)
                               (ex_mem (pl_latches c)) (mem_wb (pl_latches c))
             in case execute_stage d rs1_value rs2_value (privilege (pl_state c)) (csrs (pl_state c)) of
                  None \<Rightarrow> None
                | Some (ExecuteTrap t) \<Rightarrow> take_trap t (d_pc d) ''execute trap'' st
                | Some (ExecuteAdvance out) \<Rightarrow>
                    (case (if is_branch d
                           then bimodal_update (d_pc d) (xo_next_pc out \<noteq> d_pc d + 4) (pl_predictor c)
                           else Some (pl_predictor c)) of
                       None \<Rightarrow> None
                     | Some predictor \<Rightarrow>
                         (let serializing = is_translation_barrier_payload d (xo_csr_write out);
                              redirect = detect_branch_flush (ie_predicted_pc p) (xo_next_pc out);
                              l = (if serializing \<or> redirect
                                   then
                                     (let l = l\<lparr>lv_flushed := True, lv_front_end_pc := xo_next_pc out\<rparr> in
                                      if serializing
                                      then l\<lparr>lv_translation_barrier := True,
                                             lv_flush_reason := Some TranslationBarrier,
                                             lv_note := ''translation barrier''\<rparr>
                                      else l\<lparr>lv_flush_reason :=
                                               Some (if is_xret d then ReturnFromTrap else BranchRedirect),
                                             lv_note :=
                                               (if is_xret d then ''xret'' else ''branch flush'')\<rparr>)
                                   else l);
                              q = execute_payload d out
                          in phase_done (c\<lparr>pl_predictor := predictor\<rparr>, b,
                               l\<lparr>lv_next := (lv_next l)\<lparr>ex_mem := Some q\<rparr>\<rparr>))))))"

text \<open>The default register number of an instruction without that operand is 0.\<close>

definition operand_register :: "u8 option \<Rightarrow> u8" where
  "operand_register r = (case r of None \<Rightarrow> 0 | Some i \<Rightarrow> i)"

definition load_use_hazard :: "pipeline_latches \<Rightarrow> decoded_instruction \<Rightarrow> bool" where
  "load_use_hazard current d =
     (case id_ex current of
        None \<Rightarrow> False
      | Some producer \<Rightarrow>
          if is_load (ie_decoded producer)
          then detect_raw_hazard (d_rd (ie_decoded producer)) (d_rs1 d) (d_rs2 d) else False)"

definition phase_decode :: "'b phase" where
  "phase_decode st =
     (case st of (c, b, l) \<Rightarrow>
       if \<not> lv_flushed l \<and> \<not> lv_memory_wait l \<and> \<not> lv_translation_barrier l then
         (case if_id (pl_latches c) of
            None \<Rightarrow> phase_done st
          | Some p \<Rightarrow>
              (case decode_stage (ii_raw p) (ii_pc p) of
                 Inl _ \<Rightarrow>
                   take_trap (TrapException (IllegalInstruction (ii_raw p))) (ii_pc p)
                     ''illegal instruction'' st
               | Inr d \<Rightarrow>
                   (let load_use = load_use_hazard (pl_latches c) d;
                        csr_hazard = requires_csr_serialization d \<and>
                          has_in_flight_csr_instruction (pl_latches c)
                    in if load_use \<or> csr_hazard
                       then phase_done (c, b,
                              l\<lparr>lv_decode_stalled := True,
                                lv_next := (lv_next l)\<lparr>if_id := Some p\<rparr>,
                                lv_note := (if csr_hazard then ''csr stall'' else ''load-use stall'')\<rparr>)
                       else
                         (case (register_read (registers (pl_state c)) (operand_register (d_rs1 d)),
                                register_read (registers (pl_state c)) (operand_register (d_rs2 d))) of
                            (Some v1, Some v2) \<Rightarrow>
                              phase_done (c, b,
                                l\<lparr>lv_next := (lv_next l)\<lparr>id_ex := Some
                                    \<lparr>ie_decoded = d, ie_rs1_value = v1, ie_rs2_value = v2,
                                     ie_predicted_pc = ii_predicted_pc p,
                                     ie_predicted_taken = ii_predicted_taken p\<rparr>\<rparr>\<rparr>)
                          | _ \<Rightarrow> None))))
       else if \<not> lv_flushed l \<and> \<not> lv_memory_wait l \<and> lv_translation_barrier l then
         phase_done (c, b,
           l\<lparr>lv_fetch_stalled := True, lv_decode_stalled := (if_id (pl_latches c) \<noteq> None),
             lv_next := (lv_next l)\<lparr>if_id := if_id (pl_latches c), id_ex := id_ex (pl_latches c)\<rparr>,
             lv_note := ''translation barrier''\<rparr>)
       else phase_done st)"

definition phase_fetch :: "('b, 'z) bus_ops_scheme \<Rightarrow> 'b phase" where
  "phase_fetch ops st =
     (case st of (c, b, l) \<Rightarrow>
       if lv_flushed l then
         phase_done (c, b, l\<lparr>lv_next := (lv_next l)\<lparr>if_id := None, id_ex := None\<rparr>\<rparr>)
       else if \<not> lv_memory_wait l \<and> \<not> lv_decode_stalled l \<and> \<not> lv_fetch_stalled l \<and>
               \<not> lv_translation_barrier l then
         (let fetch_pc = lv_front_end_pc l in
          case fetch_stage ops bimodal_predict (pl_predictor c) (csrs (pl_state c))
                 (privilege (pl_state c)) fetch_pc (pl_walker c, b) of
            None \<Rightarrow> None
          | Some (Inl e, (w, b)) \<Rightarrow> Some (Inl (CpuBus e), (c\<lparr>pl_walker := w\<rparr>, b, l))
          | Some (Inr (FetchAdvance p), (w, b)) \<Rightarrow>
              phase_done (c\<lparr>pl_walker := w\<rparr>, b,
                l\<lparr>lv_fetched_pc := Some (ii_pc p), lv_predicted_taken := ii_predicted_taken p,
                  lv_next := (lv_next l)\<lparr>if_id := Some p\<rparr>,
                  lv_front_end_pc := ii_predicted_pc p,
                  lv_note := (if ii_predicted_taken p \<and> lv_note l = ''progress''
                              then ''predicted taken'' else lv_note l)\<rparr>)
          | Some (Inr FetchStall, (w, b)) \<Rightarrow>
              phase_done (c\<lparr>pl_walker := w\<rparr>, b,
                l\<lparr>lv_fetch_stalled := True,
                  lv_note := (if lv_note l = ''progress'' then ''fetch wait'' else lv_note l)\<rparr>)
          | Some (Inr (FetchTrap t), (w, b)) \<Rightarrow>
              take_trap t fetch_pc ''fetch trap'' (c\<lparr>pl_walker := w\<rparr>, b, l))
       else if lv_fetch_stalled l \<and> lv_note l = ''progress'' then
         phase_done (c, b, l\<lparr>lv_note := ''structural hazard''\<rparr>)
       else phase_done st)"

subsection \<open>The end of a cycle\<close>

definition count :: "bool \<Rightarrow> u64" where
  "count x = (if x then 1 else 0)"

definition cycle_result :: "pipeline_latches \<Rightarrow> cycle_locals \<Rightarrow> execution_result" where
  "cycle_result current l =
     \<lparr>er_retired = lv_retired l + (case lv_trap_result l of Some v \<Rightarrow> er_retired v | None \<Rightarrow> 0),
      er_trap = (case lv_trap_result l of Some v \<Rightarrow> er_trap v | None \<Rightarrow> None),
      er_memory_access =
        ((case ex_mem current of Some p \<Rightarrow> uses_memory (em_decoded p) | None \<Rightarrow> False) \<or>
         (case lv_trap_result l of Some v \<Rightarrow> er_memory_access v | None \<Rightarrow> False))\<rparr>"

definition cycle_stats :: "execution_result \<Rightarrow> cycle_locals \<Rightarrow> pipeline_stats \<Rightarrow> pipeline_stats" where
  "cycle_stats res l s =
     s\<lparr>ps_retired_instructions := ps_retired_instructions s + er_retired res,
       ps_fetch_stall_cycles := ps_fetch_stall_cycles s + count (lv_fetch_stalled l),
       ps_decode_stall_cycles := ps_decode_stall_cycles s + count (lv_decode_stalled l),
       ps_flush_cycles := ps_flush_cycles s + count (lv_flushed l),
       ps_predicted_taken_fetches := ps_predicted_taken_fetches s + count (lv_predicted_taken l),
       ps_branch_flushes := ps_branch_flushes s + count (lv_flush_reason l = Some BranchRedirect),
       ps_trap_flushes := ps_trap_flushes s + count (lv_flush_reason l = Some FlushTrap),
       ps_return_flushes := ps_return_flushes s + count (lv_flush_reason l = Some ReturnFromTrap),
       ps_translation_barrier_flushes :=
         ps_translation_barrier_flushes s + count (lv_flush_reason l = Some TranslationBarrier),
       ps_trap_count := ps_trap_count s + count (er_trap res \<noteq> None)\<rparr>"

definition cycle_trace :: "pipeline_core \<Rightarrow> execution_result \<Rightarrow> cycle_locals \<Rightarrow> pipeline_trace" where
  "cycle_trace c res l =
     (let current = pl_latches c in
      \<lparr>pt_cycle = pl_cycle c, pt_fetched_pc = lv_fetched_pc l,
       pt_decode_pc = map_option ii_pc (if_id current),
       pt_execute_pc = map_option (\<lambda>p. d_pc (ie_decoded p)) (id_ex current),
       pt_memory_pc = map_option (\<lambda>p. d_pc (em_decoded p)) (ex_mem current),
       pt_writeback_pc = map_option (\<lambda>p. d_pc (mw_decoded p)) (mem_wb current),
       pt_commit = lv_commit l, pt_trap = er_trap res, pt_flush_reason = lv_flush_reason l,
       pt_retired_instructions = lv_retired l, pt_predicted_taken = lv_predicted_taken l,
       pt_fetch_stalled = lv_fetch_stalled l, pt_decode_stalled = lv_decode_stalled l,
       pt_flushed = lv_flushed l, pt_note = lv_note l\<rparr>)"

definition finish_cycle :: "pipeline_core \<Rightarrow> cycle_locals \<Rightarrow> cpu_cycle \<times> pipeline_core" where
  "finish_cycle c l =
     (let res = cycle_result (pl_latches c) l in
      (\<lparr>retired_instructions = er_retired res, stalled = (lv_fetch_stalled l \<or> lv_decode_stalled l)\<rparr>,
       c\<lparr>pl_stats := cycle_stats res l (pl_stats c),
         pl_state := (pl_state c)\<lparr>csrs := increment_instret (er_retired res) (csrs (pl_state c))\<rparr>,
         pl_front_end_pc := lv_front_end_pc l, pl_translation_barrier := lv_translation_barrier l,
         pl_latches := lv_next l, pl_last_commit := lv_commit l, pl_last_result := res,
         pl_last_trace := cycle_trace c res l\<rparr>))"

definition halted_cycle :: "('b, 'z) bus_ops_scheme \<Rightarrow> 'b \<Rightarrow> pipeline_core \<Rightarrow> pipeline_core" where
  "halted_cycle ops b c =
     (let s = pl_state c; st = pl_stats c in
      case (if \<not> bus_is_busy ops b then pending_interrupt (csrs s) (privilege s) else None) of
        Some i \<Rightarrow>
          (case apply_trap (TrapInterrupt i) (pc s) s of
             (res, s') \<Rightarrow>
               c\<lparr>pl_state := s',
                 pl_stats := st\<lparr>ps_flush_cycles := ps_flush_cycles st + 1,
                                ps_trap_flushes := ps_trap_flushes st + 1,
                                ps_trap_count := ps_trap_count st + 1\<rparr>,
                 pl_front_end_pc := pc s', pl_latches := latches_default, pl_last_commit := None,
                 pl_last_result := res,
                 pl_last_trace := pipeline_trace_default
                   \<lparr>pt_cycle := pl_cycle c, pt_trap := er_trap res, pt_flush_reason := Some FlushTrap,
                    pt_fetch_stalled := True, pt_flushed := True, pt_note := ''interrupt''\<rparr>\<rparr>)
      | None \<Rightarrow>
          c\<lparr>pl_stats := st\<lparr>ps_fetch_stall_cycles := ps_fetch_stall_cycles st + 1\<rparr>,
            pl_last_commit := None, pl_last_result := execution_result_default,
            pl_last_trace := pipeline_trace_default
              \<lparr>pt_cycle := pl_cycle c, pt_note := ''halted'', pt_fetch_stalled := True\<rparr>\<rparr>)"

definition pipeline_phases :: "('b, 'z) bus_ops_scheme \<Rightarrow> 'b phase" where
  "pipeline_phases ops st =
     and_then (phase_write_back st) (\<lambda>_ st.
     and_then (phase_interrupt ops st) (\<lambda>_ st.
     and_then (phase_memory ops st) (\<lambda>_ st.
     and_then (phase_execute st) (\<lambda>_ st.
     and_then (phase_decode st) (\<lambda>_ st.
     phase_fetch ops st)))))"

definition begin_cycle :: "('b, 'z) bus_ops_scheme \<Rightarrow> 'b \<Rightarrow> pipeline_core \<Rightarrow> pipeline_core" where
  "begin_cycle ops b c =
     c\<lparr>pl_cycle := pl_cycle c + 1,
       pl_stats := (pl_stats c)\<lparr>ps_cycles := ps_cycles (pl_stats c) + 1\<rparr>,
       pl_state := (pl_state c)\<lparr>csrs := sample_inputs ops b (csrs (pl_state c))\<rparr>\<rparr>"

definition pipeline_step ::
  "('b, 'z) bus_ops_scheme \<Rightarrow> pipeline_core \<times> 'b \<Rightarrow> (cpu_error + cpu_cycle, pipeline_core \<times> 'b) outcome" where
  "pipeline_step ops st =
     (case st of (c0, b) \<Rightarrow>
      (let c = begin_cycle ops b c0 in
       if halted (pl_state c) then Some (Inr stalled_cycle, (halted_cycle ops b c, b))
       else
         (case pipeline_phases ops (c, b, locals_start c) of
            None \<Rightarrow> None
          | Some (Inl e, (c, b, l)) \<Rightarrow> Some (Inl e, (c, b))
          | Some (Inr _, (c, b, l)) \<Rightarrow>
              (case finish_cycle c l of (report, c) \<Rightarrow> Some (Inr report, (c, b))))))"

subsection \<open>Safety\<close>

definition pipeline_ok :: "pipeline_core \<Rightarrow> bool" where
  "pipeline_ok c \<longleftrightarrow>
     hart_ok (pl_state c) \<and> walker_ok (pl_walker c) \<and> bimodal_ok (pl_predictor c) \<and>
     latches_ok (pl_latches c)"

definition cycle_ok :: "('b \<Rightarrow> bool) \<Rightarrow> 'b cycle_state \<Rightarrow> bool" where
  "cycle_ok binv st \<longleftrightarrow>
     (case st of (c, b, l) \<Rightarrow>
        pipeline_ok c \<and> binv b \<and> latches_ok (lv_next l) \<and> lv_retired l \<le> 1 \<and>
        (case lv_trap_result l of Some v \<Rightarrow> er_retired v = 0 | None \<Rightarrow> True))"

definition phase_post :: "('b \<Rightarrow> bool) \<Rightarrow> cpu_error + unit \<Rightarrow> 'b cycle_state \<Rightarrow> bool" where
  "phase_post binv r st \<longleftrightarrow> r = Inr () \<and> cycle_ok binv st"

lemma pipeline_ok_new: "pipeline_ok (pipeline_new v)"
  by (simp add: pipeline_ok_def pipeline_new_def hart_ok_new walker_ok_default bimodal_default_def
      bimodal_ok_new latches_ok_default)

lemma pipeline_ok_reset: "pipeline_ok c \<Longrightarrow> pipeline_ok (pipeline_reset c)"
  by (simp add: pipeline_ok_def pipeline_reset_def hart_ok_reset walker_ok_reset latches_ok_default)

lemma phase_done_post: "cycle_ok binv st \<Longrightarrow> wp (phase_done st) (phase_post binv)"
  by (simp add: phase_done_def phase_post_def)

lemma take_trap_post: "cycle_ok binv st \<Longrightarrow> wp (take_trap t a msg st) (phase_post binv)"
proof -
  assume ok: "cycle_ok binv st"
  obtain c b l where st: "st = (c, b, l)" by (metis surj_pair)
  show ?thesis
    using ok apply_trap_ok [of "pl_state c" t a] apply_trap_result [of t a "pl_state c"]
    by (cases "apply_trap t a (pl_state c)")
      (simp add: st take_trap_def phase_done_def phase_post_def cycle_ok_def pipeline_ok_def)
qed

lemma phase_write_back_post:
  assumes "cycle_ok binv (c, b, l)" "lv_retired l = 0"
  shows "wp (phase_write_back (c, b, l)) (phase_post binv)"
proof (cases "mem_wb (pl_latches c)")
  case None
  then show ?thesis using assms by (simp add: phase_write_back_def phase_done_post)
next
  case (Some p)
  then have "decoded_ok (mw_decoded p)"
    using assms by (simp add: cycle_ok_def pipeline_ok_def latches_ok_def)
  then obtain ev s' w' where "write_back_stage p (pl_state c, pl_walker c) = Some (ev, (s', w'))"
    "hart_ok s'" "walker_ok w'"
    using assms write_back_stage_ok [of "pl_state c" "pl_walker c" p]
    by (auto simp: cycle_ok_def pipeline_ok_def)
  then show ?thesis
    using assms Some
    by (auto simp: phase_write_back_def intro!: phase_done_post simp: cycle_ok_def pipeline_ok_def)
qed

lemma phase_interrupt_post: "cycle_ok binv st \<Longrightarrow> wp (phase_interrupt ops st) (phase_post binv)"
  by (auto simp: phase_interrupt_def intro: take_trap_post phase_done_post split: option.split prod.split)

lemma phase_execute_post:
  assumes "cycle_ok binv (c, b, l)"
  shows "wp (phase_execute (c, b, l)) (phase_post binv)"
proof (cases "if \<not> lv_flushed l \<and> \<not> lv_memory_wait l \<and> \<not> lv_translation_barrier l
    then id_ex (pl_latches c) else None")
  case None
  then show ?thesis using assms by (simp add: phase_execute_def phase_done_post)
next
  case (Some p)
  have d: "decoded_ok (ie_decoded p)"
    using assms Some by (simp add: cycle_ok_def pipeline_ok_def latches_ok_def split: if_splits)
  let ?v1 = "forwarded_operand (d_rs1 (ie_decoded p)) (ie_rs1_value p)
      (ex_mem (pl_latches c)) (mem_wb (pl_latches c))"
  let ?v2 = "forwarded_operand (d_rs2 (ie_decoded p)) (ie_rs2_value p)
      (ex_mem (pl_latches c)) (mem_wb (pl_latches c))"
  obtain ev where ev: "execute_stage (ie_decoded p) ?v1 ?v2 (privilege (pl_state c))
      (csrs (pl_state c)) = Some ev"
    using execute_stage_total [OF d] by blast
  show ?thesis
  proof (cases ev)
    case (ExecuteTrap t)
    then show ?thesis using assms Some ev by (simp add: phase_execute_def take_trap_post)
  next
    case (ExecuteAdvance out)
    have "bimodal_ok (pl_predictor c)"
      using assms by (simp add: cycle_ok_def pipeline_ok_def)
    then obtain p' where p': "(if is_branch (ie_decoded p)
        then bimodal_update (d_pc (ie_decoded p)) (xo_next_pc out \<noteq> d_pc (ie_decoded p) + 4) (pl_predictor c)
        else Some (pl_predictor c)) = Some p'" "bimodal_ok p'"
      using bimodal.update_total by (cases "is_branch (ie_decoded p)") (simp, blast, simp)
    show ?thesis
      unfolding phase_execute_def prod.case Some option.case ev ExecuteAdvance execute_event.case
        Let_def p'(1)
      by (rule phase_done_post)
        (use assms d p'(2) in
          \<open>simp add: cycle_ok_def pipeline_ok_def latches_ok_def execute_payload_def\<close>)
  qed
qed

lemma operand_register_less: "reg_ok r \<Longrightarrow> unat (operand_register r) < 32"
  by (cases r) (simp_all add: operand_register_def)

lemma phase_decode_post:
  assumes "cycle_ok binv (c, b, l)"
  shows "wp (phase_decode (c, b, l)) (phase_post binv)"
proof -
  have next_ok: "cycle_ok binv (c, b, l\<lparr>lv_next := n, lv_decode_stalled := x, lv_note := y\<rparr>)"
    if "latches_ok n" for n x y
    using assms that by (simp add: cycle_ok_def)
  show ?thesis
  proof (cases "\<not> lv_flushed l \<and> \<not> lv_memory_wait l \<and> \<not> lv_translation_barrier l")
    case False
    then show ?thesis
      using assms
      by (auto simp: phase_decode_def intro!: phase_done_post)
        (simp add: cycle_ok_def pipeline_ok_def latches_ok_def)
  next
    case True
    show ?thesis
    proof (cases "if_id (pl_latches c)")
      case None
      then show ?thesis using True assms by (simp add: phase_decode_def phase_done_post)
    next
      case (Some p)
      show ?thesis
      proof (cases "decode_stage (ii_raw p) (ii_pc p)")
        case (Inl e)
        then show ?thesis using True Some assms by (simp add: phase_decode_def take_trap_post)
      next
        case (Inr d)
        then have d: "decoded_ok d" by (simp add: decode_stage_def decode_decoded_ok)
        have regs: "regs_ok (registers (pl_state c))"
          using assms by (simp add: cycle_ok_def pipeline_ok_def hart_ok_def)
        have r1: "unat (operand_register (d_rs1 d)) < 32" and r2: "unat (operand_register (d_rs2 d)) < 32"
          using d by (simp_all add: decoded_ok_def operand_register_less)
        show ?thesis
          using True Some Inr d assms register_read_ok [OF regs r1] register_read_ok [OF regs r2]
          by (auto simp: phase_decode_def Let_def intro!: phase_done_post)
            (auto simp: cycle_ok_def latches_ok_def)
      qed
    qed
  qed
qed

context bus_safe begin

lemma phase_memory_post:
  assumes "cycle_ok binv (c, b, l)"
  shows "wp (phase_memory ops (c, b, l)) (phase_post binv)"
proof (cases "if lv_flushed l then None else ex_mem (pl_latches c)")
  case None
  then show ?thesis using assms by (simp add: phase_memory_def phase_done_post)
next
  case (Some p)
  have d: "decoded_ok (em_decoded p)"
    using assms Some by (simp add: cycle_ok_def pipeline_ok_def latches_ok_def split: if_splits)
  have "walker_ok (pl_walker c)" "binv b"
    using assms by (simp_all add: cycle_ok_def pipeline_ok_def)
  from memory_stage_safe [OF this, of "csrs (pl_state c)" "privilege (pl_state c)" p]
  obtain ev w' b' where m: "memory_stage ops (csrs (pl_state c)) (privilege (pl_state c)) p
      (pl_walker c, b) = Some (Inr ev, (w', b'))" "walker_ok w'" "binv b'"
    "case ev of MemoryAdvance q \<Rightarrow> mw_decoded q = em_decoded p | MemoryStall q \<Rightarrow> q = p
     | MemoryTrap _ \<Rightarrow> True" by auto
  show ?thesis
    using assms Some d m
    by (cases ev) (auto simp: phase_memory_def Let_def intro!: phase_done_post take_trap_post,
        auto simp: cycle_ok_def pipeline_ok_def latches_ok_def)
qed

lemma phase_fetch_post:
  assumes "cycle_ok binv (c, b, l)"
  shows "wp (phase_fetch ops (c, b, l)) (phase_post binv)"
proof -
  have "walker_ok (pl_walker c)" "binv b" "bimodal_ok (pl_predictor c)"
    using assms by (simp_all add: cycle_ok_def pipeline_ok_def)
  from fetch_stage_safe [OF this, of "csrs (pl_state c)" "privilege (pl_state c)" "lv_front_end_pc l"]
  obtain ev w' b' where m: "fetch_stage ops bimodal_predict (pl_predictor c) (csrs (pl_state c))
      (privilege (pl_state c)) (lv_front_end_pc l) (pl_walker c, b) = Some (Inr ev, (w', b'))"
    "walker_ok w'" "binv b'" by auto
  then show ?thesis
    using assms
    by (cases ev) (auto simp: phase_fetch_def Let_def intro!: phase_done_post take_trap_post,
        auto simp: cycle_ok_def pipeline_ok_def latches_ok_def)
qed

lemma phase_then:
  assumes "wp m (phase_post binv)" "\<And>c b l. cycle_ok binv (c, b, l) \<Longrightarrow> wp (k (c, b, l)) (phase_post binv)"
  shows "wp (and_then m (\<lambda>_. k)) (phase_post binv)"
  using assms by (auto simp: phase_post_def elim!: wp_elim)

lemma pipeline_phases_post:
  assumes "cycle_ok binv (c, b, l)" "lv_retired l = 0"
  shows "wp (pipeline_phases ops (c, b, l)) (phase_post binv)"
  unfolding pipeline_phases_def
  by (intro phase_then phase_write_back_post phase_interrupt_post phase_memory_post phase_execute_post
      phase_decode_post phase_fetch_post assms)

text \<open>A cycle never fails and retires at most one instruction.\<close>

lemma pipeline_step_post:
  assumes "pipeline_ok c" "binv b"
  shows "\<exists>rep c' b'. pipeline_step ops (c, b) = Some (Inr rep, (c', b')) \<and>
    (retired_instructions rep = 0 \<or> retired_instructions rep = 1) \<and> pipeline_ok c' \<and> binv b'"
proof -
  let ?c = "begin_cycle ops b c"
  have c: "pipeline_ok ?c"
    using assms(1) by (simp add: pipeline_ok_def begin_cycle_def hart_ok_def sample_inputs_ok)
  show ?thesis
  proof (cases "halted (pl_state ?c)")
    case True
    have "pipeline_ok (halted_cycle ops b ?c)"
      using c apply_trap_ok [of "pl_state ?c"]
      by (auto simp: pipeline_ok_def halted_cycle_def Let_def latches_ok_default
          split: option.split prod.split dest: arg_cong [where f = snd])
        (metis snd_conv)
    then show ?thesis
      using True assms(2) by (simp add: pipeline_step_def Let_def stalled_cycle_def)
  next
    case False
    have "cycle_ok binv (?c, b, locals_start ?c)"
      using c assms(2) by (simp add: cycle_ok_def locals_start_def latches_ok_default)
    then obtain c1 b1 l1 where p: "pipeline_phases ops (?c, b, locals_start ?c) =
        Some (Inr (), (c1, b1, l1))" "cycle_ok binv (c1, b1, l1)"
      using pipeline_phases_post [of ?c b "locals_start ?c"]
      by (auto simp: locals_start_def phase_post_def elim!: wp_elim)
    have "lv_retired l1 = 0 \<or> lv_retired l1 = 1"
    proof -
      have "unat (lv_retired l1) \<le> 1"
        using p(2) by (simp add: cycle_ok_def word_le_nat_alt)
      then have "unat (lv_retired l1) = 0 \<or> unat (lv_retired l1) = 1" by arith
      then show ?thesis by (simp add: word_unat_eq_iff)
    qed
    then show ?thesis
      using False p
      by (auto simp: pipeline_step_def Let_def finish_cycle_def cycle_result_def cycle_ok_def
          pipeline_ok_def hart_ok_def csr_counters_ok split: option.splits)
  qed
qed

end

end
