(* ===== verification/Refinement.thy ===== *)
theory Refinement
  imports Pipeline_Core
begin

text \<open>
  The relation between the two cores. \<open>staged_execute\<close> sends one instruction through the pipeline's
  execute, memory and write-back stages with nothing else in flight. The lemmas show, class by
  class of instruction, that this is the reference core's \<open>execute_decoded\<close>; that the front end's
  pre-decoded jump targets are those of the decoder; and what operand forwarding delivers.
\<close>

type_synonym 'b observed = "(cpu_error + u64 \<times> trap option, 'b machine_state) outcome"

definition observe :: "'b exec_outcome \<Rightarrow> 'b observed" where
  "observe m = map_ok (\<lambda>res. (er_retired res, er_trap res)) m"

definition staged_trap :: "trap \<Rightarrow> u32 \<Rightarrow> 'b machine_state \<Rightarrow> 'b observed" where
  "staged_trap t a st =
     (case st of (s, w, b) \<Rightarrow> Some (Inr (0, Some t), (snd (apply_trap t a s), w, b)))"

definition staged_memory ::
  "('b, 'z) bus_ops_scheme \<Rightarrow> ex_mem_payload \<Rightarrow> 'b machine_state \<Rightarrow> 'b observed" where
  "staged_memory ops p st =
     (case st of (s, w, b) \<Rightarrow>
       (case memory_stage ops (csrs s) (privilege s) p (w, b) of
          None \<Rightarrow> None
        | Some (Inl e, (w, b)) \<Rightarrow> Some (Inl (CpuBus e), (s, w, b))
        | Some (Inr (MemoryStall _), (w, b)) \<Rightarrow> Some (Inr (0, None), (s, w, b))
        | Some (Inr (MemoryTrap t), (w, b)) \<Rightarrow> staged_trap t (d_pc (em_decoded p)) (s, w, b)
        | Some (Inr (MemoryAdvance q), (w, b)) \<Rightarrow>
            (case write_back_stage q (s, w) of
               None \<Rightarrow> None
             | Some (_, (s, w)) \<Rightarrow> Some (Inr (1, None), (s, w, b)))))"

definition staged_execute ::
  "('b, 'z) bus_ops_scheme \<Rightarrow> decoded_instruction \<Rightarrow> 'b machine_state \<Rightarrow> 'b observed" where
  "staged_execute ops d st =
     (case st of (s, w, b) \<Rightarrow>
       (case (register_read (registers s) (operand_register (d_rs1 d)),
              register_read (registers s) (operand_register (d_rs2 d))) of
          (Some v1, Some v2) \<Rightarrow>
            (case execute_stage d v1 v2 (privilege s) (csrs s) of
               None \<Rightarrow> None
             | Some (ExecuteTrap t) \<Rightarrow> staged_trap t (d_pc d) st
             | Some (ExecuteAdvance out) \<Rightarrow> staged_memory ops (execute_payload d out) st)
        | _ \<Rightarrow> None))"

lemma read_operand_register:
  "hart_ok s \<Longrightarrow> register_read (registers s) (operand_register r) = read_operand r s"
  by (cases r) (auto simp: operand_register_def read_operand_def hart_ok_def regs_ok_def
      register_read_def)

lemma observe_simps [simp]:
  "observe (retire m st) = Some (Inr (1, None), st)"
  "observe (wait_for_bus st) = Some (Inr (0, None), st)"
  "observe None = None" "observe (Some (Inl e, st)) = Some (Inl e, st)"
  by (simp_all add: observe_def map_ok_def retire_def wait_for_bus_def)

lemma observe_trap [simp]: "observe (trap_now t a m st) = staged_trap t a st"
proof -
  obtain s w b where st: "st = (s, w, b)" by (metis surj_pair)
  show ?thesis
    using apply_trap_result [of t a s]
    by (cases "apply_trap t a s") (simp add: st observe_def map_ok_def trap_now_def staged_trap_def)
qed

lemma observe_illegal [simp]:
  "observe (illegal d st) = staged_trap (TrapException (IllegalInstruction (d_raw d))) (d_pc d) st"
  by (simp add: illegal_def)

lemma memory_stage_plain:
  "\<not> uses_memory (em_decoded p) \<Longrightarrow>
     memory_stage ops c priv p st = Some (Inr (MemoryAdvance (pass_through p (em_writeback_value p))), st)"
  by (cases "d_kind (em_decoded p)") (simp_all add: memory_stage_def uses_memory_def)

lemma write_rd_None [simp]: "write_rd None v s = Some s"
  by (simp add: write_rd_def)

text \<open>Instructions that neither access memory nor return from a trap.\<close>

lemma staged_memory_plain:
  assumes "\<not> uses_memory d" "\<not> is_xret d"
  shows "staged_memory ops (execute_payload d out) (s, w, b) =
    (let s = (case xo_csr_write out of
                Some cw \<Rightarrow> s\<lparr>csrs := csr_write (cw_address cw) (cw_value cw) (csrs s)\<rparr> | None \<Rightarrow> s);
         w = (case xo_translation_fence out of Some f \<Rightarrow> flush_fence f w | None \<Rightarrow> w)
     in case (case xo_writeback_value out of Some v \<Rightarrow> write_rd (d_rd d) v s | None \<Rightarrow> Some s) of
          None \<Rightarrow> None
        | Some s \<Rightarrow> Some (Inr (1, None),
            (let s = s\<lparr>pc := xo_next_pc out\<rparr> in
             if d_kind d = System Wfi then s\<lparr>halted := True\<rparr> else s, w, b)))"
proof -
  have rd: "(case (d_rd d, v) of (Some rd, Some v) \<Rightarrow> write_rd (Some rd) v x | _ \<Rightarrow> Some x) =
      (case v of Some v \<Rightarrow> write_rd (d_rd d) v x | None \<Rightarrow> Some x)" for v x
    by (cases "d_rd d"; cases v) (simp_all add: write_rd_def)
  show ?thesis
    using assms
    by (simp add: staged_memory_def memory_stage_plain execute_payload_def pass_through_def
        write_back_stage_def is_xret_def Let_def rd split: option.split)
qed

lemma observe_write_back:
  "observe (write_back rd v a (s, w, b)) =
     (case write_rd rd v s of None \<Rightarrow> None | Some s' \<Rightarrow> Some (Inr (1, None), (s'\<lparr>pc := a\<rparr>, w, b)))"
  by (simp add: write_back_def split: option.split)

lemma write_rd_csrs:
  "write_rd rd v (s\<lparr>csrs := c\<rparr>) = map_option (\<lambda>s'. s'\<lparr>csrs := c\<rparr>) (write_rd rd v s)"
proof (cases rd)
  case (Some r)
  then show ?thesis by (cases "register_write r v (registers s)") (simp_all add: write_rd_def)
qed (simp add: write_rd_def)

lemma staged_csr:
  assumes "d_kind d = Csr op"
  shows "(case execute_stage_csr d v (privilege s) (csrs s) of
            None \<Rightarrow> None
          | Some (ExecuteTrap t) \<Rightarrow> staged_trap t (d_pc d) (s, w, b)
          | Some (ExecuteAdvance out) \<Rightarrow> staged_memory ops (execute_payload d out) (s, w, b)) =
         observe (execute_csr d v (s, w, b))"
proof -
  have k: "\<not> uses_memory d" "\<not> is_xret d" "d_kind d \<noteq> System Wfi"
    using assms by (simp_all add: uses_memory_def is_xret_def)
  show ?thesis
    using k
    by (auto simp: execute_stage_csr_def execute_csr_def execute_trap_illegal_def
        staged_memory_plain plain_outcome_def Let_def write_rd_csrs simp del: csr_write.simps
        dest: write_rd_frame split: option.split)
qed

lemma staged_xret:
  assumes "d_kind d = System kind" "kind = Mret \<or> kind = Sret"
  shows "staged_memory ops (execute_payload d out) (s, w, b) =
    (case return_from_trap kind s of
       None \<Rightarrow> None | Some (res, s') \<Rightarrow> Some (Inr (1, None), (s', w, b)))"
proof -
  have "\<not> uses_memory d" using assms by (simp add: uses_memory_def)
  then show ?thesis
    using assms
    by (auto simp: staged_memory_def memory_stage_plain execute_payload_def pass_through_def
        write_back_stage_def Let_def split: option.split)
qed

lemma return_from_trap_result:
  "return_from_trap kind s = Some (res, s') \<Longrightarrow> er_retired res = 1 \<and> er_trap res = None"
  by (auto simp: return_from_trap_def split: option.splits prod.splits)

lemma staged_system:
  assumes "d_kind d = System kind"
  shows "(case execute_stage_system d v1 v2 (privilege s) (csrs s) kind of
            ExecuteTrap t \<Rightarrow> staged_trap t (d_pc d) (s, w, b)
          | ExecuteAdvance out \<Rightarrow> staged_memory ops (execute_payload d out) (s, w, b)) =
         observe (execute_system d v1 v2 kind (s, w, b))"
proof (cases "kind = Mret \<or> kind = Sret")
  case True
  have "observe (case return_from_trap kind s of None \<Rightarrow> None
      | Some (res, s') \<Rightarrow> Some (Inr res, (s', w, b))) =
      (case return_from_trap kind s of None \<Rightarrow> None | Some (res, s') \<Rightarrow> Some (Inr (1, None), (s', w, b)))"
    by (auto simp: observe_def map_ok_def dest: return_from_trap_result split: option.split)
  then show ?thesis
    using True by (elim disjE) (simp_all add: execute_trap_illegal_def staged_xret [OF assms True])
next
  case False
  have k: "\<not> uses_memory d" "\<not> is_xret d"
    using assms False by (simp_all add: uses_memory_def is_xret_def)
  have e: "ecall_exception p = (case p of User \<Rightarrow> EnvironmentCallFromUMode
      | Supervisor \<Rightarrow> EnvironmentCallFromSMode | Machine \<Rightarrow> EnvironmentCallFromMMode)" for p
    by (cases p) simp_all
  show ?thesis
    using False k assms
    by (cases kind) (simp_all add: execute_trap_illegal_def staged_memory_plain plain_outcome_def e)
qed

lemma load_values_eq:
  "mem_load_value ops kind a b = load_value ops kind a b"
  "mem_store_value ops skind a v b = store_value ops skind a v b"
  by (cases kind; simp) (cases skind; simp)

lemma staged_write_back:
  assumes "d_kind d = Load k \<or> d_kind d = Store k'"
  shows "write_back_stage (pass_through (execute_payload d ((plain_outcome None a)
        \<lparr>xo_memory_address := m, xo_store_value := sv\<rparr>)) v) (s, w) =
    (case (case v of Some x \<Rightarrow> write_rd (d_rd d) x s | None \<Rightarrow> Some s) of
       None \<Rightarrow> None
     | Some s' \<Rightarrow> Some (\<lparr>ce_pc = d_pc d, ce_next_pc = a, ce_kind = d_kind d, ce_destination = d_rd d,
                        ce_value = v, ce_csr_write = None\<rparr>, (s'\<lparr>pc := a\<rparr>, w)))"
  using assms
  by (cases "d_rd d"; cases v)
    (auto simp: write_back_stage_def pass_through_def execute_payload_def plain_outcome_def Let_def
      split: option.split)

lemma staged_load:
  assumes "d_kind d = Load kind"
  shows "staged_memory ops (execute_payload d ((plain_outcome None (d_pc d + 4))
        \<lparr>xo_memory_address := Some (effective_address v (d_imm d))\<rparr>)) (s, w, b) =
    observe (execute_load ops d kind v (s, w, b))"
proof -
  let ?p = "execute_payload d ((plain_outcome None (d_pc d + 4))
        \<lparr>xo_memory_address := Some (effective_address v (d_imm d))\<rparr>)"
  have p: "em_decoded ?p = d" "payload_address ?p = effective_address v (d_imm d)"
    by (simp_all add: execute_payload_def payload_address_def)
  have wb: "write_back_stage (pass_through ?p (Some x)) (s, w') =
      (case write_rd (d_rd d) x s of None \<Rightarrow> None
       | Some s' \<Rightarrow> Some (\<lparr>ce_pc = d_pc d, ce_next_pc = d_pc d + 4, ce_kind = d_kind d,
           ce_destination = d_rd d, ce_value = Some x, ce_csr_write = None\<rparr>,
           (s'\<lparr>pc := d_pc d + 4\<rparr>, w')))" for x w'
    using assms staged_write_back [where d = d and k = kind and a = "d_pc d + 4" and sv = 0 and
        v = "Some x" and m = "Some (effective_address v (d_imm d))"]
    by (simp add: plain_outcome_def)
  show ?thesis
    using assms
    by (auto simp: staged_memory_def memory_stage_def execute_load_def p wb load_values_eq Let_def
        split: option.split sum.split translation_result.split)
qed

lemma staged_store:
  assumes "d_kind d = Store kind"
  shows "staged_memory ops (execute_payload d ((plain_outcome None (d_pc d + 4))
        \<lparr>xo_memory_address := Some (effective_address v (d_imm d)), xo_store_value := v2\<rparr>)) (s, w, b) =
    observe (execute_store ops d kind v v2 (s, w, b))"
proof -
  let ?p = "execute_payload d ((plain_outcome None (d_pc d + 4))
        \<lparr>xo_memory_address := Some (effective_address v (d_imm d)), xo_store_value := v2\<rparr>)"
  have p: "em_decoded ?p = d" "payload_address ?p = effective_address v (d_imm d)"
    "em_store_value ?p = v2"
    by (simp_all add: execute_payload_def payload_address_def)
  have wb: "write_back_stage (pass_through ?p None) (s, w') =
      Some (\<lparr>ce_pc = d_pc d, ce_next_pc = d_pc d + 4, ce_kind = d_kind d,
           ce_destination = d_rd d, ce_value = None, ce_csr_write = None\<rparr>,
           (s\<lparr>pc := d_pc d + 4\<rparr>, w'))" for w'
    using assms staged_write_back [where d = d and k' = kind and a = "d_pc d + 4" and sv = v2 and
        v = None and m = "Some (effective_address v (d_imm d))"]
    by simp
  show ?thesis
    using assms
    by (auto simp: staged_memory_def memory_stage_def execute_store_def p wb load_values_eq Let_def
        split: option.split sum.split translation_result.split)
qed

lemma staged_value:
  assumes "\<not> uses_memory d" "\<not> is_xret d" "d_kind d \<noteq> System Wfi"
  shows "staged_memory ops (execute_payload d (plain_outcome (Some v) a)) (s, w, b) =
      observe (write_back (d_rd d) v a (s, w, b))"
    "staged_memory ops (execute_payload d (plain_outcome None a)) (s, w, b) =
      Some (Inr (1, None), (s\<lparr>pc := a\<rparr>, w, b))"
  using assms
  by (simp_all add: staged_memory_plain plain_outcome_def observe_write_back Let_def split: option.split)

text \<open>
  C5. The pipeline's stages implement the reference core's instruction semantics: for every
  instruction whose registers exist, sending it alone through execute, memory and write back
  gives the same hart, page walker and bus, the same number of retired instructions, the same
  trap or the same fatal error as \<open>execute_decoded\<close>, on every path, stalls and faults included.
\<close>

theorem stages_refine_execute:
  assumes "hart_ok s" "decoded_ok d"
  shows "staged_execute ops d (s, w, b) = observe (execute_decoded ops d (s, w, b))"
proof -
  obtain v1 v2 where v: "read_operand (d_rs1 d) s = Some v1" "read_operand (d_rs2 d) s = Some v2"
    using read_operand_ok [OF assms(1)] assms(2) unfolding decoded_ok_def by blast
  note r = v [folded read_operand_register [OF assms(1)]]
  show ?thesis
  proof (cases "d_kind d")
    case (Csr op)
    then show ?thesis
      by (simp add: staged_execute_def execute_decoded_def execute_stage_def r v Let_def
          staged_csr [OF Csr])
  next
    case (System kind)
    then show ?thesis
      by (simp add: staged_execute_def execute_decoded_def execute_stage_def r v Let_def
          staged_system [OF System])
  next
    case (Load kind)
    then show ?thesis
      using staged_load [OF Load]
      by (simp add: staged_execute_def execute_decoded_def execute_stage_def r v Let_def)
  next
    case (Store kind)
    then show ?thesis
      using staged_store [OF Store]
      by (simp add: staged_execute_def execute_decoded_def execute_stage_def r v Let_def)
  qed (simp_all add: staged_execute_def execute_decoded_def execute_stage_def r v Let_def
      staged_value uses_memory_def is_xret_def op_imm_operand_def immediate_rhs_def)
qed

text \<open>A pipeline-independent instance: \<open>addi x1, x0, 5\<close> on a fresh hart, with any bus.\<close>

theorem stages_refine_execute_witness:
  "\<forall>(ops :: unit bus_ops) w. staged_execute ops
      (new_decoded 0x00500093 0x1000 (OpImm Add) (Some 1) (Some 0) None 5 None)
      (hart_new 0x1000, w, ()) =
    observe (execute_decoded ops
      (new_decoded 0x00500093 0x1000 (OpImm Add) (Some 1) (Some 0) None 5 None)
      (hart_new 0x1000, w, ()))"
  by (intro allI stages_refine_execute) (simp_all add: hart_ok_new decoded_ok_def)

subsection \<open>The front end\<close>

lemma opcode_word: "unat (k :: u8) = unat (k' :: u32) \<Longrightarrow> (ucast (raw AND 0x7f :: u32) :: u8) = k \<longleftrightarrow> raw AND 0x7f = k'"
proof -
  assume k: "unat k = unat k'"
  have m: "raw AND 0x7f = take_bit 7 raw"
    by (simp add: take_bit_eq_mask mask_eq_exp_minus_1)
  have "unat (raw AND 0x7f) < 2 ^ 7"
    unfolding m by (simp only: unsigned_take_bit_eq take_bit_nat_less_exp)
  then have "unat (ucast (raw AND 0x7f) :: u8) = unat (raw AND 0x7f)"
    by (simp add: unsigned_ucast_eq take_bit_nat_eq_self)
  then show ?thesis using k by (simp only: word_unat_eq_iff)
qed

lemma decode_class:
  assumes "decode raw a = Inr d"
  shows "(d_kind d = Jal \<longrightarrow> raw AND 0x7f = 0x6f \<and> d_imm d = imm_j raw) \<and>
    ((\<exists>k. d_kind d = Branch k) \<longrightarrow> raw AND 0x7f = 0x63 \<and> d_imm d = imm_b raw) \<and>
    (d_kind d \<noteq> Jal \<and> (\<forall>k. d_kind d \<noteq> Branch k) \<longrightarrow> raw AND 0x7f \<noteq> 0x6f \<and> raw AND 0x7f \<noteq> 0x63)"
proof -
  have jal: "(ucast (raw AND 0x7f) :: u8) = 0x6f \<longleftrightarrow> raw AND 0x7f = 0x6f"
    and branch: "(ucast (raw AND 0x7f) :: u8) = 0x63 \<longleftrightarrow> raw AND 0x7f = 0x63"
    by (rule opcode_word; simp)+
  show ?thesis
    unfolding jal [symmetric] branch [symmetric]
    using assms
    by (auto simp: decode_def Let_def split: if_splits sum.splits prod.splits system_kind.splits)
qed

lemma fetch_immediates: "fetch_imm_b raw = imm_b raw" "fetch_imm_j raw = imm_j raw"
  by (simp_all add: fetch_imm_b_def imm_b_def fetch_imm_j_def imm_j_def fetch_sign_extend_def
      sign_extend_def)

text \<open>
  C22. The front end's pre-decode agrees with the decoder: for every word that decodes, a \<open>jal\<close>
  is fetched through to exactly the target that the execute stage computes, a conditional branch
  is given to the predictor with its real fall-through and target, and any other instruction is
  predicted to fall through. So a \<open>jal\<close> never flushes the pipeline.
\<close>

theorem predecode_matches_decode:
  assumes "decode raw a = Inr d"
  shows "predict_from_raw predict p a raw =
    (case d_kind d of
       Jal \<Rightarrow> Some \<lparr>bp_taken = True, bp_target = branch_target (d_pc d) (d_imm d)\<rparr>
     | Branch _ \<Rightarrow> predict p a (d_pc d + 4) (branch_target (d_pc d) (d_imm d))
     | _ \<Rightarrow> Some \<lparr>bp_taken = False, bp_target = d_pc d + 4\<rparr>)"
  using decode_class [OF assms] decode_fields [OF assms]
  by (cases "d_kind d") (auto simp: predict_from_raw_def fetch_immediates branch_target_def Let_def)

theorem predecode_matches_decode_witness:
  "predict_from_raw bimodal_predict bimodal_default 0x100 0x010000ef =
     Some \<lparr>bp_taken = True, bp_target = 0x110\<rparr>"
proof -
  have "decode 0x010000ef 0x100 = Inr (new_decoded 0x010000ef 0x100 Jal (Some 1) None None 16 None)"
    by (simp add: decode_def Let_def imm_j_def sign_extend_def)
  from predecode_matches_decode [OF this, of bimodal_predict bimodal_default] show ?thesis
    by (simp add: branch_target_def)
qed

end
