(* ===== verification/Memory_Devices.thy ===== *)
theory Memory_Devices
  imports Bus
begin

text \<open>
  The memories and the serial port: \<open>Ram\<close>, \<open>Rom\<close>, \<open>LatencyAdapter\<close>, \<open>Dram\<close> and \<open>SimpleUart\<close> of
  \<open>crates/devices/src\<close>. Each is its state record, its methods, and the record \<open>_ops\<close> of its
  implementation of \<open>Addressable\<close>.

  The locale \<open>byte_memory\<close> is the contract of a readable and writable memory: an abstraction
  function \<open>content\<close> from device states to byte maps, which a store updates at one address and a
  load reads. RAM, DRAM and a memory behind a latency adapter are interpretations.
\<close>

text \<open>The method \<open>offset\<close>, which every device has, followed by the rest of the access.\<close>

definition device_offset :: "address_range \<Rightarrow> u64 \<Rightarrow> bus_error + u64" where
  "device_offset r addr =
     (if range_contains r addr then Inr (addr - range_start r) else Inl (UnmappedAddress addr))"

definition at_offset ::
  "address_range \<Rightarrow> u64 \<Rightarrow> (u64 \<Rightarrow> 'd \<Rightarrow> (bus_error + 'a, 'd) outcome) \<Rightarrow> ('d, 'a) bus_call" where
  "at_offset r addr f d =
     (case device_offset r addr of Inl e \<Rightarrow> Some (Inl e, d) | Inr off \<Rightarrow> f off d)"

text \<open>An offset is below the size of the range, even for a range that wraps.\<close>

lemma contains_offset_less:
  assumes "range_contains r a"
  shows "a - range_start r < range_size r"
proof -
  have "range_start r \<le> a" "a < range_start r + range_size r"
    using assms by (auto simp: range_contains_def range_end_def)
  then show ?thesis by unat_arith
qed

lemma contains_offset_unat: "range_contains r a \<Longrightarrow> unat (a - range_start r) < unat (range_size r)"
  using contains_offset_less word_less_nat_alt by blast

lemma at_offset_simps [simp]:
  "range_contains r a \<Longrightarrow> at_offset r a f d = f (a - range_start r) d"
  "\<not> range_contains r a \<Longrightarrow> at_offset r a f d = Some (Inl (UnmappedAddress a), d)"
  by (simp_all add: at_offset_def device_offset_def)

lemma at_offset_wp:
  "(\<not> range_contains r a \<Longrightarrow> Q (Inl (UnmappedAddress a)) d) \<Longrightarrow>
   (range_contains r a \<Longrightarrow> wp (f (a - range_start r) d) Q) \<Longrightarrow> wp (at_offset r a f d) Q"
  by (cases "range_contains r a") simp_all

subsection \<open>The contract of a memory\<close>

locale byte_memory = addressable_device dev dinv
  for dev :: "('d, 'z) addressable_scheme" and dinv :: "'d \<Rightarrow> bool" +
  fixes content :: "'d \<Rightarrow> u64 \<Rightarrow> u8"
  assumes load_content: "dinv d \<Longrightarrow> range_contains (ad_range dev d) a \<Longrightarrow>
      wp (ad_load8 dev a d) (\<lambda>r d'. r = Inr (content d a) \<and> content d' = content d \<and>
        ad_range dev d' = ad_range dev d)"
    and store_content: "dinv d \<Longrightarrow> range_contains (ad_range dev d) a \<Longrightarrow>
      wp (ad_store8 dev a v d) (\<lambda>r d'. r = Inr () \<and> content d' = (content d)(a := v) \<and>
        ad_range dev d' = ad_range dev d)"
    and latency_content: "dinv d \<Longrightarrow> content (snd (ad_access_latency dev a k w d)) = content d \<and>
        ad_range dev (snd (ad_access_latency dev a k w d)) = ad_range dev d"
    and tick_content: "dinv d \<Longrightarrow> ad_tick dev d = Some d' \<Longrightarrow>
        content d' = content d \<and> ad_range dev d' = ad_range dev d"

subsection \<open>RAM\<close>

record ram =
  ram_range :: address_range
  ram_data :: "u8 list"

definition ram_new :: "u64 \<Rightarrow> nat \<Rightarrow> ram" where
  "ram_new base n =
     \<lparr>ram_range = \<lparr>range_start = base, range_size = of_nat n\<rparr>, ram_data = replicate n 0\<rparr>"

text \<open>\<open>data.get(offset..offset + 4)\<close>, read in little-endian order.\<close>

definition word_at :: "u8 list \<Rightarrow> nat \<Rightarrow> u32 option" where
  "word_at data off =
     (if off + 4 \<le> length data then Some (from_le32_list (take 4 (drop off data))) else None)"

definition ram_read_word :: "u64 \<Rightarrow> ram \<Rightarrow> u32 option" where
  "ram_read_word addr d =
     (case device_offset (ram_range d) addr of Inl _ \<Rightarrow> None | Inr off \<Rightarrow> word_at (ram_data d) (unat off))"

definition ram_reset :: "ram \<Rightarrow> ram" where
  "ram_reset d = d\<lparr>ram_data := replicate (length (ram_data d)) 0\<rparr>"

definition ram_load8 :: "u64 \<Rightarrow> (ram, u8) bus_call" where
  "ram_load8 addr d =
     at_offset (ram_range d) addr (\<lambda>off d.
       case idx (ram_data d) (unat off) of
         None \<Rightarrow> Some (Inl (UnmappedAddress addr), d)
       | Some v \<Rightarrow> Some (Inr v, d)) d"

definition ram_store8 :: "u64 \<Rightarrow> u8 \<Rightarrow> (ram, unit) bus_call" where
  "ram_store8 addr v d =
     at_offset (ram_range d) addr (\<lambda>off d.
       case idx_set (ram_data d) (unat off) v of
         None \<Rightarrow> Some (Inl (UnmappedAddress addr), d)
       | Some data \<Rightarrow> Some (Inr (), d\<lparr>ram_data := data\<rparr>)) d"

definition ram_ops :: "ram addressable" where
  "ram_ops =
     \<lparr>ad_name = (\<lambda>_. ''ram''), ad_range = ram_range, ad_reset = ram_reset, ad_tick = Some,
      ad_machine_time = (\<lambda>_. None), ad_access_latency = (\<lambda>_ _ _ d. (0, d)),
      ad_pending_interrupts = (\<lambda>_. no_interrupts), ad_load8 = ram_load8, ad_store8 = ram_store8\<rparr>"

definition ram_ok :: "ram \<Rightarrow> bool" where
  "ram_ok d \<longleftrightarrow> length (ram_data d) = unat (range_size (ram_range d))"

definition ram_content :: "ram \<Rightarrow> u64 \<Rightarrow> u8" where
  "ram_content d a = ram_data d ! unat (a - range_start (ram_range d))"

lemma ram_ok_new: "n < 2 ^ 64 \<Longrightarrow> ram_ok (ram_new base n)"
  by (simp add: ram_ok_def ram_new_def unat_of_nat)

lemma nth_update_offset:
  "unat (b - s) < length xs \<Longrightarrow> xs[unat (b - s) := v] ! unat (a - s) = (if a = b then v else xs ! unat (a - s))"
  for a b s :: u64
  by (auto simp: nth_list_update simp flip: word_unat_eq_iff)

lemma ram_load8_in:
  "ram_ok d \<Longrightarrow> range_contains (ram_range d) a \<Longrightarrow> ram_load8 a d = Some (Inr (ram_content d a), d)"
  using contains_offset_unat [of "ram_range d" a] by (simp add: ram_load8_def ram_content_def ram_ok_def)

lemma ram_store8_in:
  assumes "ram_ok d" "range_contains (ram_range d) a"
  shows "\<exists>d'. ram_store8 a v d = Some (Inr (), d') \<and> ram_content d' = (ram_content d)(a := v) \<and>
    ram_range d' = ram_range d \<and> ram_ok d'"
  using assms contains_offset_unat [of "ram_range d" a]
  by (auto simp: ram_store8_def ram_content_def ram_ok_def fun_eq_iff nth_update_offset)

interpretation ram: byte_memory ram_ops ram_ok ram_content
proof
  fix d :: ram and a k w and v :: u8
  assume d: "ram_ok d"
  show "ram_ok (ad_reset ram_ops d)" using d by (simp add: ram_ops_def ram_reset_def ram_ok_def)
  show "\<exists>d'. ad_tick ram_ops d = Some d' \<and> ram_ok d'" using d by (simp add: ram_ops_def)
  show "ram_ok (snd (ad_access_latency ram_ops a k w d))" using d by (simp add: ram_ops_def)
  show "wp (ad_load8 ram_ops a d) (\<lambda>_. ram_ok)"
    using d ram_load8_in [OF d, of a]
    by (cases "range_contains (ram_range d) a") (simp_all add: ram_ops_def ram_load8_def)
  show "wp (ad_store8 ram_ops a v d) (\<lambda>_. ram_ok)"
    using d ram_store8_in [OF d, of a v]
    by (cases "range_contains (ram_range d) a") (auto simp: ram_ops_def ram_store8_def)
  show "range_contains (ad_range ram_ops d) a \<Longrightarrow> wp (ad_load8 ram_ops a d)
      (\<lambda>r d'. r = Inr (ram_content d a) \<and> ram_content d' = ram_content d \<and> ad_range ram_ops d' = ad_range ram_ops d)"
    using ram_load8_in [OF d] by (simp add: ram_ops_def)
  show "range_contains (ad_range ram_ops d) a \<Longrightarrow> wp (ad_store8 ram_ops a v d)
      (\<lambda>r d'. r = Inr () \<and> ram_content d' = (ram_content d)(a := v) \<and> ad_range ram_ops d' = ad_range ram_ops d)"
    using ram_store8_in [OF d, of a v] by (auto simp: ram_ops_def)
qed (simp_all add: ram_ops_def)

subsection \<open>ROM\<close>

record rom =
  rom_range :: address_range
  rom_data :: "u8 list"

definition rom_from_words :: "u64 \<Rightarrow> u32 list \<Rightarrow> rom" where
  "rom_from_words base ws =
     (let data = concat (map le_bytes32 ws) in
      \<lparr>rom_range = \<lparr>range_start = base, range_size = of_nat (length data)\<rparr>, rom_data = data\<rparr>)"

definition rom_load8 :: "u64 \<Rightarrow> (rom, u8) bus_call" where
  "rom_load8 addr d =
     at_offset (rom_range d) addr (\<lambda>off d.
       case idx (rom_data d) (unat off) of
         None \<Rightarrow> Some (Inl (UnmappedAddress addr), d)
       | Some v \<Rightarrow> Some (Inr v, d)) d"

definition rom_store8 :: "u64 \<Rightarrow> u8 \<Rightarrow> (rom, unit) bus_call" where
  "rom_store8 addr v d = Some (Inl (ReadOnlyAddress addr), d)"

definition rom_ops :: "rom addressable" where
  "rom_ops =
     \<lparr>ad_name = (\<lambda>_. ''rom''), ad_range = rom_range, ad_reset = (\<lambda>d. d), ad_tick = Some,
      ad_machine_time = (\<lambda>_. None), ad_access_latency = (\<lambda>_ _ _ d. (0, d)),
      ad_pending_interrupts = (\<lambda>_. no_interrupts), ad_load8 = rom_load8, ad_store8 = rom_store8\<rparr>"

text \<open>No access changes a ROM, so any property of it is an invariant.\<close>

lemma rom_unchanged:
  "wp (rom_load8 a d) (\<lambda>_ d'. d' = d)" "wp (rom_store8 a v d) (\<lambda>_ d'. d' = d)"
  by (auto simp: rom_load8_def rom_store8_def intro!: at_offset_wp split: option.split)

interpretation rom: addressable_device rom_ops P for P
proof
  fix d :: rom and a and v :: u8
  assume "P d"
  then show "wp (ad_load8 rom_ops a d) (\<lambda>_. P)" "wp (ad_store8 rom_ops a v d) (\<lambda>_. P)"
    using rom_unchanged(1) [of a d] rom_unchanged(2) [of a v d] by (auto simp: rom_ops_def elim!: wp_elim)
qed (simp_all add: rom_ops_def)

lemma rom_data_nth:
  "i < length ws \<Longrightarrow> j < 4 \<Longrightarrow> concat (map le_bytes32 ws) ! (4 * i + j) = le_bytes32 (ws ! i) ! j"
proof (induction ws arbitrary: i)
  case (Cons w ws)
  then show ?case by (cases i) (simp_all add: nth_append)
qed simp

lemma length_rom_data: "length (concat (map le_bytes32 ws)) = 4 * length ws"
  by (induction ws) simp_all

subsection \<open>A fixed access latency\<close>

record 'd latency_adapter =
  la_inner :: 'd
  la_latency_cycles :: u32

definition in_adapter ::
  "('d \<Rightarrow> ('a, 'd) outcome) \<Rightarrow> 'd latency_adapter \<Rightarrow> ('a, 'd latency_adapter) outcome" where
  "in_adapter f a = map_option (\<lambda>(r, d). (r, a\<lparr>la_inner := d\<rparr>)) (f (la_inner a))"

text \<open>
  The adapter forwards every method but \<open>machine_time\<close>, for which it has the default of the trait,
  and \<open>access_latency\<close>, which it replaces.
\<close>

definition latency_ops :: "'d addressable \<Rightarrow> 'd latency_adapter addressable" where
  "latency_ops inner =
     \<lparr>ad_name = (\<lambda>a. ad_name inner (la_inner a)), ad_range = (\<lambda>a. ad_range inner (la_inner a)),
      ad_reset = (\<lambda>a. a\<lparr>la_inner := ad_reset inner (la_inner a)\<rparr>),
      ad_tick = (\<lambda>a. map_option (\<lambda>d. a\<lparr>la_inner := d\<rparr>) (ad_tick inner (la_inner a))),
      ad_machine_time = (\<lambda>_. None),
      ad_access_latency = (\<lambda>_ _ _ a. (la_latency_cycles a, a)),
      ad_pending_interrupts = (\<lambda>a. ad_pending_interrupts inner (la_inner a)),
      ad_load8 = (\<lambda>addr. in_adapter (ad_load8 inner addr)),
      ad_store8 = (\<lambda>addr v. in_adapter (ad_store8 inner addr v))\<rparr>"

lemma in_adapter_wp:
  "wp (f (la_inner a)) (\<lambda>r d. Q r (a\<lparr>la_inner := d\<rparr>)) \<Longrightarrow> wp (in_adapter f a) Q"
  by (auto simp: in_adapter_def elim!: wp_elim)

lemma latency_adapter_device:
  assumes "addressable_device inner dinv"
  shows "addressable_device (latency_ops inner) (\<lambda>a. dinv (la_inner a))"
  by standard
    (auto simp: latency_ops_def dest: addressable_device.tick_dev [OF assms]
      intro!: in_adapter_wp addressable_device.reset_dev [OF assms] addressable_device.load8_dev [OF assms]
      addressable_device.store8_dev [OF assms])

lemma latency_adapter_memory:
  assumes "byte_memory inner dinv content"
  shows "byte_memory (latency_ops inner) (\<lambda>a. dinv (la_inner a)) (\<lambda>a. content (la_inner a))"
proof (rule byte_memory.intro)
  show "addressable_device (latency_ops inner) (\<lambda>a. dinv (la_inner a))"
    using assms latency_adapter_device byte_memory.axioms(1) by blast
  show "byte_memory_axioms (latency_ops inner) (\<lambda>a. dinv (la_inner a)) (\<lambda>a. content (la_inner a))"
  proof
    fix d :: "'a latency_adapter" and a and v :: u8
    assume d: "dinv (la_inner d)" "range_contains (ad_range (latency_ops inner) d) a"
    have r: "range_contains (ad_range inner (la_inner d)) a" using d by (simp add: latency_ops_def)
    show "wp (ad_load8 (latency_ops inner) a d)
        (\<lambda>r d'. r = Inr (content (la_inner d) a) \<and> content (la_inner d') = content (la_inner d) \<and>
          ad_range (latency_ops inner) d' = ad_range (latency_ops inner) d)"
      using byte_memory.load_content [OF assms d(1) r]
      by (auto simp: latency_ops_def intro!: in_adapter_wp)
    show "wp (ad_store8 (latency_ops inner) a v d)
        (\<lambda>r d'. r = Inr () \<and> content (la_inner d') = (content (la_inner d))(a := v) \<and>
          ad_range (latency_ops inner) d' = ad_range (latency_ops inner) d)"
      using byte_memory.store_content [OF assms d(1) r, of v]
      by (auto simp: latency_ops_def intro!: in_adapter_wp)
  qed (use byte_memory.tick_content [OF assms] in \<open>auto simp: latency_ops_def\<close>)
qed

interpretation slow_ram: byte_memory "latency_ops ram_ops" "\<lambda>a. ram_ok (la_inner a)"
    "\<lambda>a. ram_content (la_inner a)"
  by (rule latency_adapter_memory [OF ram.byte_memory_axioms])

subsection \<open>DRAM\<close>

record dram_config =
  row_size :: nat
  row_miss_latency :: u32
  row_hit_latency :: u32
  burst_latency :: u32

text \<open>The constructor asserts the relations of its arguments; a failed assertion is \<open>None\<close>.\<close>

definition is_power_of_two :: "nat \<Rightarrow> bool" where
  "is_power_of_two n \<longleftrightarrow> (\<exists>k \<in> {..<64}. n = 2 ^ k)"

definition dram_config_new :: "nat \<Rightarrow> u32 \<Rightarrow> u32 \<Rightarrow> u32 \<Rightarrow> dram_config option" where
  "dram_config_new rows miss hit burst =
     (if rows > 0 \<and> is_power_of_two rows \<and> rows mod 4 = 0 \<and> miss \<ge> hit \<and> hit \<ge> burst
      then Some \<lparr>row_size = rows, row_miss_latency = miss, row_hit_latency = hit, burst_latency = burst\<rparr>
      else None)"

record pending_access =
  pa_start :: u64
  pa_row_index :: u64
  pa_next_burst_addr :: "u64 option"

record dram =
  dram_range :: address_range
  dram_data :: "u8 list"
  dram_config :: dram_config
  open_row :: "u64 option"
  dram_next_burst :: "u64 option"
  dram_pending :: "pending_access option"

definition dram_new :: "u64 \<Rightarrow> nat \<Rightarrow> dram_config \<Rightarrow> dram" where
  "dram_new base n config =
     \<lparr>dram_range = \<lparr>range_start = base, range_size = of_nat n\<rparr>, dram_data = replicate n 0,
      dram_config = config, open_row = None, dram_next_burst = None, dram_pending = None\<rparr>"

definition dram_read_word :: "u64 \<Rightarrow> dram \<Rightarrow> u32 option" where
  "dram_read_word addr d =
     (case device_offset (dram_range d) addr of
        Inl _ \<Rightarrow> None | Inr off \<Rightarrow> word_at (dram_data d) (unat off))"

definition row_index :: "dram \<Rightarrow> u64 \<Rightarrow> u64" where
  "row_index d addr = (addr - range_start (dram_range d)) div of_nat (row_size (dram_config d))"

text \<open>\<open>checked_add\<close> and \<open>saturating_sub\<close> on 64 bits.\<close>

definition next_burst_addr :: "dram \<Rightarrow> u64 \<Rightarrow> nat \<Rightarrow> u64 \<Rightarrow> u64 option" where
  "next_burst_addr d addr width row =
     (if unat addr + width \<ge> 2 ^ 64 then None
      else
        (let next = addr + of_nat width in
         if row_index d (if next = 0 then 0 else next - 1) = row then Some next else None))"

definition commit_pending_access :: "u64 \<Rightarrow> dram \<Rightarrow> dram" where
  "commit_pending_access addr d =
     (case dram_pending d of
        None \<Rightarrow> d
      | Some p \<Rightarrow>
          if pa_start p = addr
          then d\<lparr>open_row := Some (pa_row_index p), dram_next_burst := pa_next_burst_addr p,
                 dram_pending := None\<rparr>
          else d)"

definition dram_reset :: "dram \<Rightarrow> dram" where
  "dram_reset d =
     d\<lparr>dram_data := replicate (length (dram_data d)) 0, open_row := None, dram_next_burst := None,
       dram_pending := None\<rparr>"

definition dram_access_latency :: "u64 \<Rightarrow> access_kind \<Rightarrow> nat \<Rightarrow> dram \<Rightarrow> u32 \<times> dram" where
  "dram_access_latency addr k width d =
     (let row = row_index d addr;
          latency =
            (if open_row d = Some row then
               (if dram_next_burst d = Some addr then burst_latency (dram_config d)
                else row_hit_latency (dram_config d))
             else row_miss_latency (dram_config d))
      in (latency,
          d\<lparr>dram_pending := Some \<lparr>pa_start = addr, pa_row_index = row,
              pa_next_burst_addr = next_burst_addr d addr width row\<rparr>\<rparr>))"

definition dram_load8 :: "u64 \<Rightarrow> (dram, u8) bus_call" where
  "dram_load8 addr d =
     at_offset (dram_range d) addr (\<lambda>off d.
       case idx (dram_data d) (unat off) of
         None \<Rightarrow> Some (Inl (UnmappedAddress addr), d)
       | Some v \<Rightarrow> Some (Inr v, d)) (commit_pending_access addr d)"

definition dram_store8 :: "u64 \<Rightarrow> u8 \<Rightarrow> (dram, unit) bus_call" where
  "dram_store8 addr v d =
     at_offset (dram_range d) addr (\<lambda>off d.
       case idx_set (dram_data d) (unat off) v of
         None \<Rightarrow> Some (Inl (UnmappedAddress addr), d)
       | Some data \<Rightarrow> Some (Inr (), d\<lparr>dram_data := data\<rparr>)) (commit_pending_access addr d)"

definition dram_ops :: "dram addressable" where
  "dram_ops =
     \<lparr>ad_name = (\<lambda>_. ''dram''), ad_range = dram_range, ad_reset = dram_reset, ad_tick = Some,
      ad_machine_time = (\<lambda>_. None), ad_access_latency = dram_access_latency,
      ad_pending_interrupts = (\<lambda>_. no_interrupts), ad_load8 = dram_load8, ad_store8 = dram_store8\<rparr>"

definition dram_ok :: "dram \<Rightarrow> bool" where
  "dram_ok d \<longleftrightarrow> length (dram_data d) = unat (range_size (dram_range d))"

definition dram_content :: "dram \<Rightarrow> u64 \<Rightarrow> u8" where
  "dram_content d a = dram_data d ! unat (a - range_start (dram_range d))"

lemma commit_simps [simp]:
  "dram_range (commit_pending_access a d) = dram_range d"
  "dram_data (commit_pending_access a d) = dram_data d"
  "dram_config (commit_pending_access a d) = dram_config d"
  by (simp_all add: commit_pending_access_def split: option.split)

lemma dram_load8_in:
  "dram_ok d \<Longrightarrow> range_contains (dram_range d) a \<Longrightarrow>
     dram_load8 a d = Some (Inr (dram_content d a), commit_pending_access a d)"
  using contains_offset_unat [of "dram_range d" a]
  by (simp add: dram_load8_def dram_content_def dram_ok_def)

lemma dram_store8_in:
  assumes "dram_ok d" "range_contains (dram_range d) a"
  shows "\<exists>d'. dram_store8 a v d = Some (Inr (), d') \<and> dram_content d' = (dram_content d)(a := v) \<and>
    dram_range d' = dram_range d \<and> dram_ok d'"
  using assms contains_offset_unat [of "dram_range d" a]
  by (auto simp: dram_store8_def dram_content_def dram_ok_def fun_eq_iff nth_update_offset)

interpretation dram: byte_memory dram_ops dram_ok dram_content
proof
  fix d :: dram and a k w and v :: u8
  assume d: "dram_ok d"
  have eqs: "dram_ok (commit_pending_access a d)" "dram_content (commit_pending_access a d) = dram_content d"
    using d by (simp_all add: dram_ok_def dram_content_def fun_eq_iff)
  show "dram_ok (ad_reset dram_ops d)" using d by (simp add: dram_ops_def dram_reset_def dram_ok_def)
  show "\<exists>d'. ad_tick dram_ops d = Some d' \<and> dram_ok d'" using d by (simp add: dram_ops_def)
  show "dram_ok (snd (ad_access_latency dram_ops a k w d))"
    using d by (simp add: dram_ops_def dram_access_latency_def dram_ok_def Let_def)
  show "wp (ad_load8 dram_ops a d) (\<lambda>_. dram_ok)"
    using d eqs dram_load8_in [OF d, of a]
    by (cases "range_contains (dram_range d) a") (simp_all add: dram_ops_def dram_load8_def)
  show "wp (ad_store8 dram_ops a v d) (\<lambda>_. dram_ok)"
    using d eqs dram_store8_in [OF d, of a v]
    by (cases "range_contains (dram_range d) a") (auto simp: dram_ops_def dram_store8_def)
  show "range_contains (ad_range dram_ops d) a \<Longrightarrow> wp (ad_load8 dram_ops a d)
      (\<lambda>r d'. r = Inr (dram_content d a) \<and> dram_content d' = dram_content d \<and> ad_range dram_ops d' = ad_range dram_ops d)"
    using dram_load8_in [OF d] eqs by (simp add: dram_ops_def)
  show "range_contains (ad_range dram_ops d) a \<Longrightarrow> wp (ad_store8 dram_ops a v d)
      (\<lambda>r d'. r = Inr () \<and> dram_content d' = (dram_content d)(a := v) \<and> ad_range dram_ops d' = ad_range dram_ops d)"
    using dram_store8_in [OF d, of a v] by (auto simp: dram_ops_def)
qed (simp_all add: dram_ops_def dram_access_latency_def dram_content_def fun_eq_iff Let_def)

text \<open>The row number of an address, on natural numbers.\<close>

definition dram_row :: "dram \<Rightarrow> nat \<Rightarrow> u64 \<Rightarrow> nat" where
  "dram_row d rows x = (unat x - unat (range_start (dram_range d))) div rows"

lemma row_index_number:
  assumes "row_size (dram_config d) = rows" "is_power_of_two rows" "range_start (dram_range d) \<le> x"
  shows "unat (row_index d x) = dram_row d rows x"
proof -
  obtain n where "n < 64" "rows = 2 ^ n" using assms(2) by (auto simp: is_power_of_two_def)
  then have "rows < 2 ^ 64" using power_strict_increasing [of n 64 "2 :: nat"] by simp
  then have "unat (of_nat rows :: u64) = rows" by (simp add: unat_of_nat)
  then show ?thesis
    using assms(1,3) by (simp add: row_index_def dram_row_def unat_div unat_sub)
qed

text \<open>In one row, the next burst starts exactly behind the access.\<close>

lemma next_burst_same_row:
  assumes rows: "row_size (dram_config d) = rows" "is_power_of_two rows"
    and start: "range_start (dram_range d) \<le> a" "0 < w" "range_start (dram_range d) \<le> b"
    and row: "dram_row d rows b = dram_row d rows a"
  shows "next_burst_addr d a w (row_index d a) = Some b \<longleftrightarrow> unat b = unat a + w"
proof
  assume n: "next_burst_addr d a w (row_index d a) = Some b"
  then have "unat a + w < 2 ^ 64" "b = a + of_nat w"
    by (auto simp: next_burst_addr_def Let_def split: if_splits)
  then show "unat b = unat a + w" by (simp add: unat_word_ariths unat_of_nat)
next
  assume b: "unat b = unat a + w"
  then have w: "unat a + w < 2 ^ 64" using unsigned_less [of b, where 'a = nat] by simp
  have b_next: "a + of_nat w = b" using b w by (simp add: word_unat_eq_iff unat_word_ariths unat_of_nat)
  have nz: "b \<noteq> 0" using b start(2) by auto
  then have last: "unat (b - 1) = unat b - 1" by (simp add: unat_minus_one)
  then have le: "range_start (dram_range d) \<le> b - 1"
    using b start(1,2) by (simp add: word_le_nat_alt)
  have "dram_row d rows a \<le> dram_row d rows (b - 1)" "dram_row d rows (b - 1) \<le> dram_row d rows b"
    unfolding dram_row_def using last b start(2) by (intro div_le_mono diff_le_mono; simp)+
  then have "row_index d (b - 1) = row_index d a"
    using row row_index_number [OF rows] start(1) le by (simp add: word_unat_eq_iff)
  then show "next_burst_addr d a w (row_index d a) = Some b"
    using w b_next nz by (simp add: next_burst_addr_def Let_def)
qed

lemma dram_committed:
  assumes "dram_load8 a (snd (dram_access_latency a k w d)) = Some (Inr v, d') \<or>
      dram_store8 a v (snd (dram_access_latency a k w d)) = Some (Inr (), d')"
  shows "open_row d' = Some (row_index d a) \<and> dram_next_burst d' = next_burst_addr d a w (row_index d a) \<and>
    dram_config d' = dram_config d \<and> dram_range d' = dram_range d \<and> range_contains (dram_range d) a"
proof -
  let ?d = "snd (dram_access_latency a k w d)"
  have p: "dram_pending ?d = Some \<lparr>pa_start = a, pa_row_index = row_index d a,
      pa_next_burst_addr = next_burst_addr d a w (row_index d a)\<rparr>"
    "dram_config ?d = dram_config d" "dram_range ?d = dram_range d"
    by (simp_all add: dram_access_latency_def Let_def)
  show ?thesis
  proof (cases "range_contains (dram_range d) a")
    case True
    then show ?thesis
      using assms by (auto simp: dram_load8_def dram_store8_def p commit_pending_access_def split: option.splits)
  qed (use assms in \<open>auto simp: dram_load8_def dram_store8_def p\<close>)
qed

text \<open>
  C38. Row locality of the DRAM. Let a load or a store of \<open>w\<close> bytes at \<open>a\<close> have completed. Number the
  rows by dividing the distance from the start of the device by the row size, on integers. Then an
  access at any address \<open>b\<close> of the device costs the row-miss latency if \<open>b\<close> is in another row than
  \<open>a\<close>, the burst latency if it is in the same row and starts exactly at \<open>a + w\<close>, and the row-hit latency
  anywhere else in the row. The constructor's assertions make these three latencies ordered.
\<close>

theorem dram_row_locality:
  assumes "dram_config_new rows miss hit burst = Some (dram_config d)" "0 < w"
    "dram_load8 a (snd (dram_access_latency a k w d)) = Some (Inr v, d') \<or>
     dram_store8 a v (snd (dram_access_latency a k w d)) = Some (Inr (), d')"
    "range_contains (dram_range d) b"
  shows "fst (dram_access_latency b k' w' d') =
      (if (unat b - unat (range_start (dram_range d))) div rows \<noteq>
          (unat a - unat (range_start (dram_range d))) div rows then miss
       else if unat b = unat a + w then burst else hit) \<and>
    burst \<le> hit \<and> hit \<le> miss"
proof -
  have "dram_config d = \<lparr>row_size = rows, row_miss_latency = miss, row_hit_latency = hit, burst_latency = burst\<rparr>"
    using assms(1) by (simp add: dram_config_new_def split: if_splits)
  then have c: "row_size (dram_config d) = rows" "is_power_of_two rows" "burst \<le> hit" "hit \<le> miss"
    "row_miss_latency (dram_config d) = miss" "row_hit_latency (dram_config d) = hit"
    "burst_latency (dram_config d) = burst"
    using assms(1) by (simp_all add: dram_config_new_def split: if_splits)
  note d' = dram_committed [OF assms(3)]
  have start: "range_start (dram_range d) \<le> a" "range_start (dram_range d) \<le> b"
    using d' assms(4) by (simp_all add: range_contains_def)
  have rows: "row_index d b = row_index d a \<longleftrightarrow> dram_row d rows b = dram_row d rows a"
    using row_index_number [OF c(1,2)] start by (metis word_unat_eq_iff)
  have "row_index d' b = row_index d b" using d' by (simp add: row_index_def)
  then have latency: "fst (dram_access_latency b k' w' d') =
      (if row_index d b \<noteq> row_index d a then miss
       else if next_burst_addr d a w (row_index d a) = Some b then burst else hit)"
    using d' c(5-7) by (simp add: dram_access_latency_def Let_def)
  have "fst (dram_access_latency b k' w' d') =
      (if dram_row d rows b \<noteq> dram_row d rows a then miss else if unat b = unat a + w then burst else hit)"
    unfolding latency rows using next_burst_same_row [OF c(1,2) start(1) assms(2) start(2)] by simp
  then show ?thesis using c(3,4) unfolding dram_row_def by (intro conjI)
qed

definition sample_dram :: dram where
  "sample_dram = dram_new 0x100 32 \<lparr>row_size = 8, row_miss_latency = 9, row_hit_latency = 5, burst_latency = 1\<rparr>"

text \<open>The second word of a row is a burst after a store of the first one; so is no word of another row.\<close>

definition sample_dram_after :: dram where
  "sample_dram_after =
     (commit_pending_access 0x108 (snd (dram_access_latency 0x108 StoreAccess 4 sample_dram)))
       \<lparr>dram_data := (replicate 32 0)[8 := 7]\<rparr>"

lemma dram_row_locality_witness:
  "fst (dram_access_latency 0x10c LoadAccess 4 sample_dram_after) = 1 \<and>
   fst (dram_access_latency 0x108 LoadAccess 4 sample_dram_after) = 5 \<and>
   fst (dram_access_latency 0x110 LoadAccess 4 sample_dram_after) = 9"
proof -
  have c: "dram_config_new 8 9 5 1 = Some (dram_config sample_dram)"
    by (simp add: dram_config_new_def sample_dram_def dram_new_def is_power_of_two_def)
      (rule bexI [of _ 3], simp_all)
  have l: "dram_store8 0x108 7 (snd (dram_access_latency 0x108 StoreAccess 4 sample_dram)) =
      Some (Inr (), sample_dram_after)"
    by (simp add: dram_store8_def dram_access_latency_def Let_def sample_dram_def sample_dram_after_def
        dram_new_def range_contains_def range_end_def commit_pending_access_def)
  have start: "unat (range_start (dram_range sample_dram)) = 256" by (simp add: sample_dram_def dram_new_def)
  have r: "range_contains (dram_range sample_dram) x"
    if "x \<in> {0x108, 0x10c, 0x110}" for x
    using that by (auto simp: sample_dram_def dram_new_def range_contains_def range_end_def)
  note locality = dram_row_locality [OF c _ disjI2 [OF l] r, where k' = LoadAccess and w' = 4]
  show ?thesis using locality [of "0x10c"] locality [of "0x108"] locality [of "0x110"] start by simp
qed

subsection \<open>The serial port\<close>

record simple_uart =
  uart_range :: address_range
  tx_buffer :: "u8 list"

definition simple_uart_new :: "u64 \<Rightarrow> simple_uart" where
  "simple_uart_new base = \<lparr>uart_range = \<lparr>range_start = base, range_size = 8\<rparr>, tx_buffer = []\<rparr>"

definition uart_load8 :: "u64 \<Rightarrow> (simple_uart, u8) bus_call" where
  "uart_load8 addr d =
     at_offset (uart_range d) addr (\<lambda>off d. Some (Inr (if off = 4 then 1 else 0), d)) d"

definition uart_store8 :: "u64 \<Rightarrow> u8 \<Rightarrow> (simple_uart, unit) bus_call" where
  "uart_store8 addr v d =
     at_offset (uart_range d) addr (\<lambda>off d.
       if off = 0 then Some (Inr (), d\<lparr>tx_buffer := tx_buffer d @ [v]\<rparr>)
       else if off = 4 then Some (Inr (), d)
       else Some (Inl (UnmappedAddress addr), d)) d"

definition uart_ops :: "simple_uart addressable" where
  "uart_ops =
     \<lparr>ad_name = (\<lambda>_. ''simple-uart''), ad_range = uart_range, ad_reset = (\<lambda>d. d\<lparr>tx_buffer := []\<rparr>),
      ad_tick = Some, ad_machine_time = (\<lambda>_. None), ad_access_latency = (\<lambda>_ _ _ d. (0, d)),
      ad_pending_interrupts = (\<lambda>_. no_interrupts), ad_load8 = uart_load8, ad_store8 = uart_store8\<rparr>"

interpretation uart: addressable_device uart_ops "\<lambda>_. True"
  by standard (auto simp: uart_ops_def uart_load8_def uart_store8_def intro!: at_offset_wp)

end
