(* ===== verification/Interrupt_Devices.thy ===== *)
theory Interrupt_Devices
  imports Memory_Devices
begin

text \<open>
  The devices that raise interrupts without moving data: the machine and supervisor software
  interrupt registers, the machine timer and the interrupt controller of \<open>crates/devices/src\<close>.
  Their registers are 32 bits wide and accessed by bytes.
\<close>

subsection \<open>Registers accessed by bytes\<close>

text \<open>\<open>value.to_le_bytes()[i]\<close>, and the byte update of a register; an index above 3 panics.\<close>

definition reg_byte :: "u32 \<Rightarrow> nat \<Rightarrow> u8 option" where
  "reg_byte v i = idx (le_bytes32 v) i"

definition reg_with_byte :: "u32 \<Rightarrow> nat \<Rightarrow> u8 \<Rightarrow> u32 option" where
  "reg_with_byte v i b = map_option from_le32_list (idx_set (le_bytes32 v) i b)"

lemma reg_byte_Some: "i < 4 \<Longrightarrow> reg_byte v i = Some (le_bytes32 v ! i)"
  by (simp add: reg_byte_def)

lemma reg_with_byte_Some: "i < 4 \<Longrightarrow> \<exists>v'. reg_with_byte v i b = Some v'"
  by (simp add: reg_with_byte_def)

text \<open>Four byte writes replace the register.\<close>

lemma reg_write_word:
  "reg_with_byte v 0 b0 = Some v0 \<Longrightarrow> reg_with_byte v0 1 b1 = Some v1 \<Longrightarrow>
   reg_with_byte v1 2 b2 = Some v2 \<Longrightarrow> reg_with_byte v2 3 b3 = Some v3 \<Longrightarrow> v3 = from_le32 b0 b1 b2 b3"
proof -
  have s: "le_bytes32 (from_le32_list xs) = xs" if "length xs = 4" for xs
    using that by (intro nth_equalityI) (auto simp: from_le32_list_def less_Suc_eq numeral_eq_Suc)
  assume "reg_with_byte v 0 b0 = Some v0" "reg_with_byte v0 1 b1 = Some v1"
    "reg_with_byte v1 2 b2 = Some v2" "reg_with_byte v2 3 b3 = Some v3"
  then have "v3 = from_le32_list ((((le_bytes32 v)[0 := b0])[1 := b1])[2 := b2, 3 := b3])"
    by (auto simp: reg_with_byte_def s)
  then show ?thesis by (simp add: from_le32_list_def le_bytes32_def)
qed

lemma reg_bytes_word: "from_le32 (le_bytes32 v ! 0) (le_bytes32 v ! 1) (le_bytes32 v ! 2) (le_bytes32 v ! 3) = v"
  using from_le32_list_bytes [of v] by (simp add: from_le32_list_def)

text \<open>An optional value, which panics on \<open>None\<close>, and a state to return with it.\<close>

definition returning :: "'d \<Rightarrow> 'a option \<Rightarrow> (bus_error + 'a, 'd) outcome" where
  "returning d = map_option (\<lambda>v. (Inr v, d))"

lemma returning_simps [simp]: "returning d (Some v) = Some (Inr v, d)" "returning d None = None"
  by (simp_all add: returning_def)

definition updating :: "'d option \<Rightarrow> (bus_error + unit, 'd) outcome" where
  "updating = map_option (\<lambda>d. (Inr (), d))"

lemma updating_simps [simp]: "updating (Some d) = Some (Inr (), d)" "updating None = None"
  by (simp_all add: updating_def)

subsection \<open>Software interrupts\<close>

record software_interrupt =
  si_range :: address_range
  si_register :: u32

definition software_interrupt_new :: "u64 \<Rightarrow> software_interrupt" where
  "software_interrupt_new base = \<lparr>si_range = \<lparr>range_start = base, range_size = 4\<rparr>, si_register = 0\<rparr>"

definition si_reset :: "software_interrupt \<Rightarrow> software_interrupt" where
  "si_reset d = d\<lparr>si_register := 0\<rparr>"

definition si_load8 :: "u64 \<Rightarrow> (software_interrupt, u8) bus_call" where
  "si_load8 addr d =
     at_offset (si_range d) addr (\<lambda>off d. returning d (reg_byte (si_register d) (unat off))) d"

definition si_store8 :: "u64 \<Rightarrow> u8 \<Rightarrow> (software_interrupt, unit) bus_call" where
  "si_store8 addr v d =
     at_offset (si_range d) addr (\<lambda>off d. updating (map_option
       (\<lambda>w. d\<lparr>si_register := w AND 1\<rparr>) (reg_with_byte (si_register d) (unat off) v))) d"

definition si_pending :: "interrupt_line \<Rightarrow> software_interrupt \<Rightarrow> interrupt_set" where
  "si_pending line d = (if si_register d AND 1 \<noteq> 0 then from_line line else no_interrupts)"

definition si_ops :: "string \<Rightarrow> interrupt_line \<Rightarrow> software_interrupt addressable" where
  "si_ops name line =
     \<lparr>ad_name = (\<lambda>_. name), ad_range = si_range, ad_reset = si_reset, ad_tick = Some,
      ad_machine_time = (\<lambda>_. None), ad_access_latency = (\<lambda>_ _ _ d. (0, d)),
      ad_pending_interrupts = si_pending line, ad_load8 = si_load8, ad_store8 = si_store8\<rparr>"

definition machine_software_interrupt_ops :: "software_interrupt addressable" where
  "machine_software_interrupt_ops = si_ops ''machine-software-interrupt'' LineMachineSoftware"

definition supervisor_software_interrupt_ops :: "software_interrupt addressable" where
  "supervisor_software_interrupt_ops = si_ops ''supervisor-software-interrupt'' LineSupervisorSoftware"

definition si_ok :: "software_interrupt \<Rightarrow> bool" where
  "si_ok d \<longleftrightarrow> range_size (si_range d) = 4 \<and> (si_register d = 0 \<or> si_register d = 1)"

lemma and_one_cases: "w AND 1 = 0 \<or> w AND 1 = 1" for w :: "'a::len word"
  by (simp add: and_one_eq mod_2_eq_odd)

lemma size4_offset: "range_size r = 4 \<Longrightarrow> range_contains r a \<Longrightarrow> unat (a - range_start r) < 4"
  using contains_offset_unat [of r a] by simp

lemma si_device: "addressable_device (si_ops name line) si_ok"
proof
  fix d :: software_interrupt and a and v :: u8
  assume d: "si_ok d"
  note off = size4_offset [of "si_range d" a]
  show "wp (ad_load8 (si_ops name line) a d) (\<lambda>_. si_ok)"
    using d off by (auto simp: si_ops_def si_load8_def si_ok_def reg_byte_Some intro!: at_offset_wp)
  show "wp (ad_store8 (si_ops name line) a v d) (\<lambda>_. si_ok)"
    using d off reg_with_byte_Some [of "unat (a - range_start (si_range d))" "si_register d" v]
    by (auto simp: si_ops_def si_store8_def si_ok_def and_one_cases intro!: at_offset_wp)
qed (simp_all add: si_ops_def si_reset_def si_ok_def)

interpretation msip: addressable_device machine_software_interrupt_ops si_ok
  unfolding machine_software_interrupt_ops_def by (rule si_device)

interpretation ssip: addressable_device supervisor_software_interrupt_ops si_ok
  unfolding supervisor_software_interrupt_ops_def by (rule si_device)

subsection \<open>The machine timer\<close>

record machine_timer =
  mt_range :: address_range
  mtime :: u64
  mtimecmp :: u64

definition machine_timer_new :: "u64 \<Rightarrow> machine_timer" where
  "machine_timer_new base =
     \<lparr>mt_range = \<lparr>range_start = base, range_size = 16\<rparr>, mtime = 0, mtimecmp = -1\<rparr>"

definition low_half :: "u64 \<Rightarrow> u32" where
  "low_half v = ucast v"

definition high_half :: "u64 \<Rightarrow> u32" where
  "high_half v = ucast (drop_bit 32 v)"

definition with_low_half :: "u64 \<Rightarrow> u32 \<Rightarrow> u64" where
  "with_low_half v w = (v AND NOT 0xffffffff) OR ucast w"

definition with_high_half :: "u64 \<Rightarrow> u32 \<Rightarrow> u64" where
  "with_high_half v w = push_bit 32 (ucast w) OR (v AND 0xffffffff)"

definition mt_read_register_byte :: "u64 \<Rightarrow> machine_timer \<Rightarrow> u8 option" where
  "mt_read_register_byte off d =
     (if off \<le> 3 then reg_byte (low_half (mtime d)) (unat off)
      else if off \<le> 7 then reg_byte (high_half (mtime d)) (unat (off - 4))
      else if off \<le> 11 then reg_byte (low_half (mtimecmp d)) (unat (off - 8))
      else if off \<le> 15 then reg_byte (high_half (mtimecmp d)) (unat (off - 12))
      else reg_byte 0 0)"

definition mt_write_register_byte :: "u64 \<Rightarrow> u8 \<Rightarrow> machine_timer \<Rightarrow> machine_timer option" where
  "mt_write_register_byte off v d =
     (if off \<le> 3 then map_option (\<lambda>w. d\<lparr>mtime := with_low_half (mtime d) w\<rparr>)
         (reg_with_byte (low_half (mtime d)) (unat off) v)
      else if off \<le> 7 then map_option (\<lambda>w. d\<lparr>mtime := with_high_half (mtime d) w\<rparr>)
         (reg_with_byte (high_half (mtime d)) (unat (off - 4)) v)
      else if off \<le> 11 then map_option (\<lambda>w. d\<lparr>mtimecmp := with_low_half (mtimecmp d) w\<rparr>)
         (reg_with_byte (low_half (mtimecmp d)) (unat (off - 8)) v)
      else if off \<le> 15 then map_option (\<lambda>w. d\<lparr>mtimecmp := with_high_half (mtimecmp d) w\<rparr>)
         (reg_with_byte (high_half (mtimecmp d)) (unat (off - 12)) v)
      else Some d)"

definition mt_reset :: "machine_timer \<Rightarrow> machine_timer" where
  "mt_reset d = d\<lparr>mtime := 0, mtimecmp := -1\<rparr>"

definition mt_tick :: "machine_timer \<Rightarrow> machine_timer" where
  "mt_tick d = d\<lparr>mtime := mtime d + 1\<rparr>"

definition mt_pending :: "machine_timer \<Rightarrow> interrupt_set" where
  "mt_pending d = (if mtime d \<ge> mtimecmp d then from_line LineMachineTimer else no_interrupts)"

definition mt_load8 :: "u64 \<Rightarrow> (machine_timer, u8) bus_call" where
  "mt_load8 addr d = at_offset (mt_range d) addr (\<lambda>off d. returning d (mt_read_register_byte off d)) d"

definition mt_store8 :: "u64 \<Rightarrow> u8 \<Rightarrow> (machine_timer, unit) bus_call" where
  "mt_store8 addr v d = at_offset (mt_range d) addr (\<lambda>off d. updating (mt_write_register_byte off v d)) d"

definition timer_ops :: "machine_timer addressable" where
  "timer_ops =
     \<lparr>ad_name = (\<lambda>_. ''machine-timer''), ad_range = mt_range, ad_reset = mt_reset, ad_tick = (\<lambda>d. Some (mt_tick d)),
      ad_machine_time = (\<lambda>d. Some (mtime d)), ad_access_latency = (\<lambda>_ _ _ d. (0, d)),
      ad_pending_interrupts = mt_pending, ad_load8 = mt_load8, ad_store8 = mt_store8\<rparr>"

lemma unat_offset_bounds:
  "off \<le> 3 \<Longrightarrow> unat off < 4" "\<not> off \<le> 3 \<Longrightarrow> off \<le> 7 \<Longrightarrow> unat (off - 4) < 4"
  "\<not> off \<le> 7 \<Longrightarrow> off \<le> 11 \<Longrightarrow> unat (off - 8) < 4" "\<not> off \<le> 11 \<Longrightarrow> off \<le> 15 \<Longrightarrow> unat (off - 12) < 4"
  "\<not> off \<le> 15 \<Longrightarrow> off \<le> 19 \<Longrightarrow> unat (off - 16) < 4"
  for off :: u64
  by unat_arith+

lemma mt_register_total:
  "\<exists>v. mt_read_register_byte off d = Some v" "\<exists>d'. mt_write_register_byte off v d = Some d'"
  using unat_offset_bounds [of off]
  by (auto simp: mt_read_register_byte_def mt_write_register_byte_def reg_byte_Some reg_with_byte_def)

interpretation timer: addressable_device timer_ops "\<lambda>_. True"
proof
  fix d :: machine_timer and a and v :: u8
  show "wp (ad_load8 timer_ops a d) (\<lambda>_ _. True)"
    using mt_register_total(1) [of "a - range_start (mt_range d)" d]
    by (auto simp: timer_ops_def mt_load8_def intro!: at_offset_wp)
  show "wp (ad_store8 timer_ops a v d) (\<lambda>_ _. True)"
    using mt_register_total(2) [of "a - range_start (mt_range d)" v d]
    by (auto simp: timer_ops_def mt_store8_def intro!: at_offset_wp)
qed (simp_all add: timer_ops_def)

subsection \<open>The interrupt controller\<close>

datatype interrupt_route = RouteMachineExternal | RouteSupervisorExternal

definition route_from_register :: "u32 \<Rightarrow> interrupt_route" where
  "route_from_register v = (if v AND 1 \<noteq> 0 then RouteSupervisorExternal else RouteMachineExternal)"

fun register_bits :: "interrupt_route \<Rightarrow> u32" where
  "register_bits RouteMachineExternal = 0"
| "register_bits RouteSupervisorExternal = 1"

fun route_interrupt_line :: "interrupt_route \<Rightarrow> interrupt_line" where
  "route_interrupt_line RouteMachineExternal = LineMachineExternal"
| "route_interrupt_line RouteSupervisorExternal = LineSupervisorExternal"

record interrupt_controller =
  ic_range :: address_range
  ic_pending :: u32
  ic_enable :: u32
  ic_claimed :: u32
  ic_route :: interrupt_route
  claim_latch :: "u32 option"
  complete_staging :: "u8 list"

definition interrupt_controller_new :: "u64 \<Rightarrow> interrupt_controller" where
  "interrupt_controller_new base =
     \<lparr>ic_range = \<lparr>range_start = base, range_size = 20\<rparr>, ic_pending = 0, ic_enable = 0,
      ic_claimed = 0, ic_route = RouteMachineExternal, claim_latch = None,
      complete_staging = [0, 0, 0, 0]\<rparr>"

definition enabled_pending :: "interrupt_controller \<Rightarrow> u32" where
  "enabled_pending d = ic_pending d AND ic_enable d"

definition source_mask :: "u32 \<Rightarrow> u32" where
  "source_mask source = (if 1 \<le> source \<and> source \<le> 32 then push_bit (unat (source - 1)) 1 else 0)"

text \<open>\<open>u32::trailing_zeros\<close>: the number of zero bits below the lowest one.\<close>

definition trailing_zeros :: "u32 \<Rightarrow> nat" where
  "trailing_zeros w = length (takeWhile (\<lambda>i. \<not> bit w i) [0..<32])"

definition highest_priority_pending_source :: "interrupt_controller \<Rightarrow> u32" where
  "highest_priority_pending_source d =
     (let e = enabled_pending d in if e = 0 then 0 else of_nat (trailing_zeros e) + 1)"

definition claim_next :: "interrupt_controller \<Rightarrow> u32 \<times> interrupt_controller" where
  "claim_next d =
     (let source = highest_priority_pending_source d; mask = source_mask source in
      if source \<noteq> 0
      then (source, d\<lparr>ic_pending := ic_pending d AND NOT mask, ic_claimed := ic_claimed d OR mask\<rparr>)
      else (source, d))"

definition complete_source :: "u32 \<Rightarrow> interrupt_controller \<Rightarrow> interrupt_controller" where
  "complete_source source d = d\<lparr>ic_claimed := ic_claimed d AND NOT (source_mask source)\<rparr>"

definition ic_read_register_byte :: "u64 \<Rightarrow> interrupt_controller \<Rightarrow> u8 option" where
  "ic_read_register_byte off d =
     (if off \<le> 3 then reg_byte (ic_pending d) (unat off)
      else if off \<le> 7 then reg_byte (ic_enable d) (unat (off - 4))
      else if off \<le> 11 then reg_byte 0 0
      else if off \<le> 15
      then reg_byte (case claim_latch d of Some v \<Rightarrow> v | None \<Rightarrow> 0) (unat (off - 12))
      else if off \<le> 19 then reg_byte (register_bits (ic_route d)) (unat (off - 16))
      else reg_byte 0 0)"

definition ic_reset :: "interrupt_controller \<Rightarrow> interrupt_controller" where
  "ic_reset d =
     d\<lparr>ic_pending := 0, ic_enable := 0, ic_claimed := 0, ic_route := RouteMachineExternal,
       claim_latch := None, complete_staging := [0, 0, 0, 0]\<rparr>"

definition ic_pending_interrupts :: "interrupt_controller \<Rightarrow> interrupt_set" where
  "ic_pending_interrupts d =
     (if enabled_pending d \<noteq> 0 then from_line (route_interrupt_line (ic_route d)) else no_interrupts)"

text \<open>The first byte of the claim register claims a source; the last one drops the latch.\<close>

definition ic_load8 :: "u64 \<Rightarrow> (interrupt_controller, u8) bus_call" where
  "ic_load8 addr d =
     at_offset (ic_range d) addr (\<lambda>off d.
       let d = (if off = 12 then (let (source, d) = claim_next d in d\<lparr>claim_latch := Some source\<rparr>)
                else d) in
       case ic_read_register_byte off d of
         None \<Rightarrow> None
       | Some v \<Rightarrow> Some (Inr v, if off = 15 then d\<lparr>claim_latch := None\<rparr> else d)) d"

definition ic_store8 :: "u64 \<Rightarrow> u8 \<Rightarrow> (interrupt_controller, unit) bus_call" where
  "ic_store8 addr v d =
     at_offset (ic_range d) addr (\<lambda>off d.
       let mask = push_bit (unat ((off AND 3) * 8)) (ucast v :: u32) in
       if off \<le> 3 then Some (Inl (ReadOnlyAddress addr), d)
       else if off \<le> 7 then
         updating (map_option (\<lambda>w. d\<lparr>ic_enable := w\<rparr>) (reg_with_byte (ic_enable d) (unat (off - 4)) v))
       else if off \<le> 11 then
         Some (Inr (), d\<lparr>ic_pending := ic_pending d OR (mask AND NOT (ic_claimed d))\<rparr>)
       else if off \<le> 15 then
         updating (map_option (\<lambda>bs.
           if off = 15
           then (complete_source (from_le32_list bs) d)\<lparr>complete_staging := [0, 0, 0, 0]\<rparr>
           else d\<lparr>complete_staging := bs\<rparr>)
           (idx_set (complete_staging d) (unat (off - 12)) v))
       else if off \<le> 19 then
         updating (map_option (\<lambda>w. d\<lparr>ic_route := route_from_register w\<rparr>)
           (reg_with_byte (register_bits (ic_route d)) (unat (off - 16)) v))
       else Some (Inl (UnmappedAddress addr), d)) d"

definition interrupt_controller_ops :: "interrupt_controller addressable" where
  "interrupt_controller_ops =
     \<lparr>ad_name = (\<lambda>_. ''interrupt-controller''), ad_range = ic_range, ad_reset = ic_reset,
      ad_tick = Some, ad_machine_time = (\<lambda>_. None), ad_access_latency = (\<lambda>_ _ _ d. (0, d)),
      ad_pending_interrupts = ic_pending_interrupts, ad_load8 = ic_load8, ad_store8 = ic_store8\<rparr>"

text \<open>A claimed source is not pending, and cannot become so before it is completed.\<close>

definition ic_ok :: "interrupt_controller \<Rightarrow> bool" where
  "ic_ok d \<longleftrightarrow> ic_pending d AND ic_claimed d = 0 \<and> length (complete_staging d) = 4"

lemma claim_next_ok: "ic_ok d \<Longrightarrow> ic_ok (snd (claim_next d))"
  by (auto simp: ic_ok_def claim_next_def Let_def bit_eq_iff bit_simps)

lemma complete_source_ok: "ic_ok d \<Longrightarrow> ic_ok (complete_source i d)"
  by (auto simp: ic_ok_def complete_source_def bit_eq_iff bit_simps)

lemma ic_read_total: "\<exists>v. ic_read_register_byte off d = Some v"
  using unat_offset_bounds [of off] by (auto simp: ic_read_register_byte_def reg_byte_Some)

lemma ic_ok_latch [simp]: "ic_ok (d\<lparr>claim_latch := l\<rparr>) = ic_ok d"
  by (simp add: ic_ok_def)

lemma ic_load8_ok: "ic_ok d \<Longrightarrow> wp (ic_load8 a d) (\<lambda>_. ic_ok)"
  unfolding ic_load8_def
proof (rule at_offset_wp)
  let ?off = "a - range_start (ic_range d)"
  define d1 where
    "d1 = (if ?off = 12 then (let (source, d) = claim_next d in d\<lparr>claim_latch := Some source\<rparr>) else d)"
  assume "ic_ok d"
  then have "ic_ok d1" using claim_next_ok [of d] by (simp add: d1_def split_def Let_def)
  moreover obtain v where "ic_read_register_byte ?off d1 = Some v" using ic_read_total by blast
  ultimately show "wp (let d = (if ?off = 12 then (let (source, d) = claim_next d in
          d\<lparr>claim_latch := Some source\<rparr>) else d) in
      case ic_read_register_byte ?off d of None \<Rightarrow> None
      | Some v \<Rightarrow> Some (Inr v, if ?off = 15 then d\<lparr>claim_latch := None\<rparr> else d)) (\<lambda>_. ic_ok)"
    by (simp add: Let_def flip: d1_def)
qed simp

lemma ic_store8_ok: "ic_ok d \<Longrightarrow> wp (ic_store8 a v d) (\<lambda>_. ic_ok)"
  unfolding ic_store8_def
proof (rule at_offset_wp)
  let ?off = "a - range_start (ic_range d)"
  assume d: "ic_ok d"
  have "ic_ok (d\<lparr>ic_pending := ic_pending d OR (m AND NOT (ic_claimed d))\<rparr>)" for m
    using d by (auto simp: ic_ok_def bit_eq_iff bit_simps)
  moreover have "ic_ok (d\<lparr>ic_enable := w\<rparr>)" "ic_ok (d\<lparr>ic_route := r\<rparr>)" for w r
    using d by (simp_all add: ic_ok_def)
  moreover have "ic_ok ((complete_source s d)\<lparr>complete_staging := [0, 0, 0, 0]\<rparr>)" for s
    using complete_source_ok [OF d] by (simp add: ic_ok_def)
  moreover have "length bs = 4 \<Longrightarrow> ic_ok (d\<lparr>complete_staging := bs\<rparr>)" for bs
    using d by (simp add: ic_ok_def)
  moreover have "length (complete_staging d) = 4" using d by (simp add: ic_ok_def)
  ultimately show "wp (let mask = push_bit (unat ((?off AND 3) * 8)) (ucast v :: u32) in
       if ?off \<le> 3 then Some (Inl (ReadOnlyAddress a), d)
       else if ?off \<le> 7 then
         updating (map_option (\<lambda>w. d\<lparr>ic_enable := w\<rparr>) (reg_with_byte (ic_enable d) (unat (?off - 4)) v))
       else if ?off \<le> 11 then
         Some (Inr (), d\<lparr>ic_pending := ic_pending d OR (mask AND NOT (ic_claimed d))\<rparr>)
       else if ?off \<le> 15 then
         updating (map_option (\<lambda>bs.
           if ?off = 15
           then (complete_source (from_le32_list bs) d)\<lparr>complete_staging := [0, 0, 0, 0]\<rparr>
           else d\<lparr>complete_staging := bs\<rparr>)
           (idx_set (complete_staging d) (unat (?off - 12)) v))
       else if ?off \<le> 19 then
         updating (map_option (\<lambda>w. d\<lparr>ic_route := route_from_register w\<rparr>)
           (reg_with_byte (register_bits (ic_route d)) (unat (?off - 16)) v))
       else Some (Inl (UnmappedAddress a), d)) (\<lambda>_. ic_ok)"
    using d unat_offset_bounds [of ?off]
    by (auto simp: Let_def reg_with_byte_def)
qed simp

interpretation ic: addressable_device interrupt_controller_ops ic_ok
  by standard
    (auto simp: interrupt_controller_ops_def ic_load8_ok ic_store8_ok, simp add: ic_ok_def ic_reset_def)

subsection \<open>What the registers do\<close>

lemma contains_plus:
  "range_ok r \<Longrightarrow> k < range_size r \<Longrightarrow> range_contains r (range_start r + k)"
proof -
  assume r: "range_ok r" "k < range_size r"
  have "unat (range_start r) + unat k < 2 ^ 64"
    using r by (simp add: range_ok_def word_less_nat_alt)
  then have "unat (range_start r + k) = unat (range_start r) + unat k"
    by (simp add: unat_word_ariths)
  then show ?thesis using r by (simp add: range_contains_unat word_less_nat_alt)
qed

lemma halves_of [simp]:
  "low_half (with_low_half v w) = w" "high_half (with_low_half v w) = high_half v"
  "high_half (with_high_half v w) = w" "low_half (with_high_half v w) = low_half v"
proof -
  have e: "(0xffffffff :: u64) = mask 32" by (simp add: mask_eq_exp_minus_1)
  note defs = low_half_def high_half_def with_low_half_def with_high_half_def e
  show "low_half (with_low_half v w) = w"
    by (rule bit_word_eqI; simp only: defs; auto simp: bit_simps)
  show "high_half (with_low_half v w) = high_half v"
    by (rule bit_word_eqI; simp only: defs; auto simp: bit_simps not_bit_ge)
  show "high_half (with_high_half v w) = w"
    by (rule bit_word_eqI; simp only: defs; auto simp: bit_simps not_bit_ge)
  show "low_half (with_high_half v w) = low_half v"
    by (rule bit_word_eqI; simp only: defs; auto simp: bit_simps)
qed

lemma halves_eq:
  assumes "low_half u = low_half v" "high_half u = high_half v"
  shows "u = v"
proof (rule bit_word_eqI)
  fix n assume n: "n < LENGTH(64)"
  show "bit u n = bit v n"
  proof (cases "n < 32")
    case True
    then show ?thesis using assms(1) by (auto simp: low_half_def bit_eq_iff bit_simps)
  next
    case False
    have "bit (high_half u) (n - 32) = bit (high_half v) (n - 32)" using assms(2) by simp
    moreover have "n - 32 < 32" using n by simp
    ultimately show ?thesis using False by (simp add: high_half_def bit_simps)
  qed
qed

lemma mt_store8_at:
  assumes "range_ok (mt_range d)" "range_size (mt_range d) = 16" "k < 16"
  shows "mt_store8 (range_start (mt_range d) + k) v d = updating (mt_write_register_byte k v d)"
  using contains_plus [of "mt_range d" k] assms by (simp add: mt_store8_def)

text \<open>The four byte writes of a 32-bit store to each half of \<open>mtimecmp\<close>.\<close>

lemma mtimecmp_low_store:
  assumes "range_ok (mt_range d)" "range_size (mt_range d) = 16"
  shows "store_each mt_store8 (range_start (mt_range d) + 8) (le_bytes32 lo) d =
    Some (Inr (), d\<lparr>mtimecmp := with_low_half (mtimecmp d) lo\<rparr>)"
proof -
  let ?c = "\<lambda>x. d\<lparr>mtimecmp := x\<rparr>"
  have s: "mt_store8 (range_start (mt_range d) + k) v (?c x) =
      updating (map_option (\<lambda>w. ?c (with_low_half x w)) (reg_with_byte (low_half x) (unat (k - 8)) v))"
    if "8 \<le> k" "k \<le> 11" for k v x
    using mt_store8_at [of "?c x" k v] that assms
    by (simp add: mt_write_register_byte_def word_le_nat_alt word_less_nat_alt)
  have n: "with_low_half (with_low_half x w) w' = with_low_half x w'" for x w w'
    by (rule halves_eq) simp_all
  obtain v0 where v0: "reg_with_byte (low_half (mtimecmp d)) 0 (ucast lo) = Some v0"
    using reg_with_byte_Some by fastforce
  obtain v1 where v1: "reg_with_byte v0 1 (ucast (drop_bit 8 lo)) = Some v1"
    using reg_with_byte_Some by fastforce
  obtain v2 where v2: "reg_with_byte v1 2 (ucast (drop_bit 16 lo)) = Some v2"
    using reg_with_byte_Some by fastforce
  obtain v3 where v3: "reg_with_byte v2 3 (ucast (drop_bit 24 lo)) = Some v3"
    using reg_with_byte_Some by fastforce
  have "v3 = lo" using reg_write_word [OF v0 v1 v2 v3] by simp
  then show ?thesis
    using s [of 8 _ "mtimecmp d"] s [of 9] s [of 10] s [of 11] v0 v1 v2 v3
    by (simp add: le_bytes32_def n add.assoc)
qed

lemma mtimecmp_high_store:
  assumes "range_ok (mt_range d)" "range_size (mt_range d) = 16"
  shows "store_each mt_store8 (range_start (mt_range d) + 12) (le_bytes32 hi) d =
    Some (Inr (), d\<lparr>mtimecmp := with_high_half (mtimecmp d) hi\<rparr>)"
proof -
  let ?c = "\<lambda>x. d\<lparr>mtimecmp := x\<rparr>"
  have s: "mt_store8 (range_start (mt_range d) + k) v (?c x) =
      updating (map_option (\<lambda>w. ?c (with_high_half x w)) (reg_with_byte (high_half x) (unat (k - 12)) v))"
    if "12 \<le> k" "k \<le> 15" for k v x
    using mt_store8_at [of "?c x" k v] that assms
    by (simp add: mt_write_register_byte_def word_le_nat_alt word_less_nat_alt)
  have n: "with_high_half (with_high_half x w) w' = with_high_half x w'" for x w w'
    by (rule halves_eq) simp_all
  obtain v0 where v0: "reg_with_byte (high_half (mtimecmp d)) 0 (ucast hi) = Some v0"
    using reg_with_byte_Some by fastforce
  obtain v1 where v1: "reg_with_byte v0 1 (ucast (drop_bit 8 hi)) = Some v1"
    using reg_with_byte_Some by fastforce
  obtain v2 where v2: "reg_with_byte v1 2 (ucast (drop_bit 16 hi)) = Some v2"
    using reg_with_byte_Some by fastforce
  obtain v3 where v3: "reg_with_byte v2 3 (ucast (drop_bit 24 hi)) = Some v3"
    using reg_with_byte_Some by fastforce
  have "v3 = hi" using reg_write_word [OF v0 v1 v2 v3] by simp
  then show ?thesis
    using s [of 12 _ "mtimecmp d"] s [of 13] s [of 14] s [of 15] v0 v1 v2 v3
    by (simp add: le_bytes32_def n add.assoc)
qed

lemma mt_ticks: "(mt_tick ^^ n) d = d\<lparr>mtime := mtime d + of_nat n\<rparr>"
  by (induction n) (simp_all add: mt_tick_def add.assoc add.commute)

text \<open>
  C37. Programming the timer: the byte stores of two 32-bit writes set \<open>mtimecmp\<close> to the 64-bit
  deadline they hold, whatever it was, and from then on the machine timer interrupt is pending
  after \<open>n\<close> ticks exactly if the counter has reached the deadline.
\<close>

theorem timer_programming:
  assumes "range_ok (mt_range d)" "range_size (mt_range d) = 16"
    and "unat (mtime d) + n < 2 ^ 64"
  shows "\<exists>d'. and_then (store_each mt_store8 (range_start (mt_range d) + 8) (le_bytes32 (low_half deadline)) d)
      (\<lambda>_. store_each mt_store8 (range_start (mt_range d) + 12) (le_bytes32 (high_half deadline))) =
        Some (Inr (), d') \<and>
    mtimecmp d' = deadline \<and> mtime d' = mtime d \<and>
    (has_line (mt_pending ((mt_tick ^^ n) d')) LineMachineTimer \<longleftrightarrow> unat deadline \<le> unat (mtime d) + n)"
proof -
  let ?d = "d\<lparr>mtimecmp := with_low_half (mtimecmp d) (low_half deadline)\<rparr>"
  have "with_high_half (mtimecmp ?d) (high_half deadline) = deadline"
    by (rule halves_eq) simp_all
  moreover have "unat (mtime d + of_nat n) = unat (mtime d) + n"
    using assms(3) by (simp add: unat_word_ariths unat_of_nat)
  ultimately show ?thesis
    using mtimecmp_low_store [OF assms(1,2), of "low_half deadline"]
      mtimecmp_high_store [of ?d "high_half deadline"] assms
    by (simp add: mt_ticks mt_pending_def word_le_nat_alt)
qed

lemma timer_programming_witness:
  "\<exists>d'. mtimecmp d' = 5 \<and> has_line (mt_pending ((mt_tick ^^ 7) d')) LineMachineTimer"
  using timer_programming [where d = "machine_timer_new 0x2000" and n = 7 and deadline = 5]
  by (auto simp: machine_timer_new_def range_ok_def)

lemma trailing_zeros_spec:
  assumes "w \<noteq> 0"
  shows "trailing_zeros w < 32" "bit w (trailing_zeros w)" "j < trailing_zeros w \<Longrightarrow> \<not> bit w j"
proof -
  let ?P = "\<lambda>i. \<not> bit w i"
  have "\<exists>i < 32. bit w i"
    using assms bit_imp_le_length by (fastforce simp: bit_eq_iff)
  then have "\<not> (\<forall>x \<in> set [0..<32]. ?P x)" by (auto simp: atLeast0LessThan)
  then have "length (takeWhile ?P [0..<32]) < length [0..<32::nat]"
    by (metis length_takeWhile_le nless_le takeWhile_eq_all_conv takeWhile_eq_take take_all_iff)
  then show lt: "trailing_zeros w < 32" and "bit w (trailing_zeros w)"
    using nth_length_takeWhile [of ?P "[0..<32]"] by (simp_all add: trailing_zeros_def)
  assume "j < trailing_zeros w"
  then have j: "j < length (takeWhile ?P [0..<32])" by (simp add: trailing_zeros_def)
  then have "takeWhile ?P [0..<32] ! j = j" using lt by (simp add: trailing_zeros_def takeWhile_nth)
  then have "j \<in> set (takeWhile ?P [0..<32])" using nth_mem [OF j] by simp
  then show "\<not> bit w j" by (metis set_takeWhileD)
qed

lemma highest_priority_spec:
  "highest_priority_pending_source d = 0 \<longleftrightarrow> enabled_pending d = 0"
  "enabled_pending d \<noteq> 0 \<Longrightarrow>
     unat (highest_priority_pending_source d) = trailing_zeros (enabled_pending d) + 1"
proof -
  have n: "unat (of_nat k + 1 :: u32) = k + 1" if "k < 32" for k
    using that by (simp add: unat_word_ariths unat_of_nat)
  show "enabled_pending d \<noteq> 0 \<Longrightarrow>
     unat (highest_priority_pending_source d) = trailing_zeros (enabled_pending d) + 1"
    using n trailing_zeros_spec(1) by (simp add: highest_priority_pending_source_def Let_def)
  then show "highest_priority_pending_source d = 0 \<longleftrightarrow> enabled_pending d = 0"
    by (cases "enabled_pending d = 0") (auto simp: highest_priority_pending_source_def)
qed

lemma source_mask_bit:
  "1 \<le> unat i \<Longrightarrow> unat i \<le> 32 \<Longrightarrow> bit (source_mask i) n \<longleftrightarrow> n = unat i - 1"
proof -
  assume i: "1 \<le> unat i" "unat i \<le> 32"
  then have "unat (i - 1) = unat i - 1" by (simp add: unat_sub word_le_nat_alt)
  then show ?thesis
    using i by (auto simp: source_mask_def word_le_nat_alt bit_simps)
qed

lemma ic_load8_claim:
  assumes "range_ok (ic_range d)" "range_size (ic_range d) = 20" "k \<in> {13, 14, 15}"
    and "claim_latch d = Some v"
  shows "ic_load8 (range_start (ic_range d) + k) d =
    Some (Inr (le_bytes32 v ! unat (k - 12)), if k = 15 then d\<lparr>claim_latch := None\<rparr> else d)"
proof -
  have "range_contains (ic_range d) (range_start (ic_range d) + k)"
    using contains_plus [of "ic_range d" k] assms by auto
  then show ?thesis
    using assms by (auto simp: ic_load8_def ic_read_register_byte_def reg_byte_def)
qed

lemma claim_read:
  assumes "range_ok (ic_range d)" "range_size (ic_range d) = 20" "range_start (ic_range d) mod 4 = 0"
  shows "default_load32 ic_load8 (range_start (ic_range d) + 12) d =
    Some (Inr (highest_priority_pending_source d), (snd (claim_next d))\<lparr>claim_latch := None\<rparr>)"
proof -
  let ?s = "range_start (ic_range d)" and ?v = "highest_priority_pending_source d"
  let ?d = "(snd (claim_next d))\<lparr>claim_latch := Some ?v\<rparr>"
  have f: "fst (claim_next d) = ?v" by (simp add: claim_next_def Let_def)
  have r: "ic_range (snd (claim_next d)) = ic_range d" by (simp add: claim_next_def Let_def)
  have "range_contains (ic_range d) (?s + 12)" using contains_plus [of "ic_range d" 12] assms by simp
  then have l0: "ic_load8 (?s + 12) d = Some (Inr (le_bytes32 ?v ! 0), ?d)"
    using f by (simp add: ic_load8_def ic_read_register_byte_def reg_byte_def split_def Let_def)
  have l: "ic_load8 (?s + 13) ?d = Some (Inr (le_bytes32 ?v ! 1), ?d)"
    "ic_load8 (?s + 14) ?d = Some (Inr (le_bytes32 ?v ! 2), ?d)"
    "ic_load8 (?s + 15) ?d = Some (Inr (le_bytes32 ?v ! 3), ?d\<lparr>claim_latch := None\<rparr>)"
    using ic_load8_claim [of ?d 13 ?v] ic_load8_claim [of ?d 14 ?v] ic_load8_claim [of ?d 15 ?v] r assms
    by simp_all
  have a: "(?s + 12) mod 4 = 0"
  proof -
    have "unat (?s mod 4) = 0" using assms(3) by simp
    then have "unat ?s mod 4 = 0" by (simp add: unat_mod)
    then show ?thesis by (simp add: word_unat_eq_iff unat_mod unat_word_ariths mod_mod_cancel) presburger
  qed
  show ?thesis
    using l0 l a by (simp add: default_load32_def add.assoc reg_bytes_word [simplified])
qed

text \<open>
  C31. A 32-bit read of the claim register returns the lowest-numbered source that is pending and
  enabled, or 0 when there is none; that source, and no other, moves from pending to claimed, and
  a claimed source is not pending.
\<close>

theorem claim_takes_highest_priority:
  assumes "ic_ok d" "range_ok (ic_range d)" "range_size (ic_range d) = 20"
    "range_start (ic_range d) mod 4 = 0"
  shows "\<exists>source d'. default_load32 ic_load8 (range_start (ic_range d) + 12) d = Some (Inr source, d') \<and>
    (source = 0 \<longleftrightarrow> enabled_pending d = 0) \<and>
    (source \<noteq> 0 \<longrightarrow> bit (enabled_pending d) (unat source - 1) \<and>
      (\<forall>j < unat source - 1. \<not> bit (enabled_pending d) j)) \<and>
    (\<forall>j. bit (ic_pending d') j \<longleftrightarrow> bit (ic_pending d) j \<and> \<not> (source \<noteq> 0 \<and> j = unat source - 1)) \<and>
    (\<forall>j. bit (ic_claimed d') j \<longleftrightarrow> bit (ic_claimed d) j \<or> (source \<noteq> 0 \<and> j = unat source - 1)) \<and>
    ic_ok d'"
proof -
  let ?e = "enabled_pending d" and ?v = "highest_priority_pending_source d"
  have "?v \<noteq> 0 \<Longrightarrow> bit ?e (unat ?v - 1) \<and> (\<forall>j < unat ?v - 1. \<not> bit ?e j)"
    using highest_priority_spec [of d] trailing_zeros_spec [of ?e] by auto
  moreover have "?v \<noteq> 0 \<Longrightarrow> bit (source_mask ?v) j \<longleftrightarrow> j = unat ?v - 1" for j
    using highest_priority_spec [of d] trailing_zeros_spec(1) [of ?e] source_mask_bit [of ?v j] by auto
  moreover have "bit (ic_claimed d) j \<or> j < 32" if "j = unat ?v - 1" "?v \<noteq> 0" for j
    using that highest_priority_spec [of d] trailing_zeros_spec(1) [of ?e] by auto
  ultimately show ?thesis
    using claim_read [OF assms(2-4)] highest_priority_spec(1) [of d] claim_next_ok [OF assms(1)]
    by (auto simp: claim_next_def Let_def bit_simps dest: bit_imp_le_length)
qed

lemma claim_takes_highest_priority_witness:
  "\<exists>d'. default_load32 ic_load8 12 ((interrupt_controller_new 0)\<lparr>ic_pending := 6, ic_enable := 4\<rparr>) =
     Some (Inr 3, d')"
proof -
  let ?d = "(interrupt_controller_new 0)\<lparr>ic_pending := 6, ic_enable := 4\<rparr>"
  have "ic_ok ?d" "range_ok (ic_range ?d)" "range_size (ic_range ?d) = 20"
    "range_start (ic_range ?d) mod 4 = 0"
    by (simp_all add: ic_ok_def interrupt_controller_new_def range_ok_def)
  note t = claim_takes_highest_priority [OF this]
  have "enabled_pending ?d = 4" by (simp add: enabled_pending_def)
  then obtain source d' where s: "default_load32 ic_load8 12 ?d = Some (Inr source, d')" "source \<noteq> 0"
      "bit (4 :: u32) (unat source - 1)"
    using t by (auto simp: interrupt_controller_new_def)
  have "unat source - 1 = 2"
  proof -
    have "(4 :: u32) = push_bit 2 1" by simp
    then show ?thesis using s(3) mask_of_bit [of "4 :: u32" 2] by simp
  qed
  moreover have "unat source \<noteq> 0" using s(2) by (simp add: unat_eq_zero)
  ultimately have "unat source = unat (3 :: u32)" by simp
  then have "source = 3" using word_unat_eq_iff by blast
  then show ?thesis using s(1) by blast
qed

end
