(* ===== verification/Dma_Controller.thy ===== *)
theory Dma_Controller
  imports Interrupt_Devices
begin

text \<open>
  The memory-to-memory DMA engine (\<open>crates/devices/src/dma_controller.rs\<close>): its registers, and the
  bus master that reads ahead in bursts of at most eight words and writes them back.
\<close>

record pending_write_burst =
  pw_destination :: u64
  pw_words :: "u32 list"

datatype issued_dma_request =
    IssuedRead u64 nat
  | IssuedWrite nat

record active_transfer =
  next_source :: u64
  next_destination :: u64
  remaining_words :: u32
  ready_writes :: "pending_write_burst list"
  issued_requests :: "issued_dma_request list"

fun is_issued_read :: "issued_dma_request \<Rightarrow> bool" where
  "is_issued_read (IssuedRead _ _) = True"
| "is_issued_read (IssuedWrite _) = False"

definition buffered_read_bursts :: "active_transfer \<Rightarrow> nat" where
  "buffered_read_bursts t =
     length (ready_writes t) + length (filter is_issued_read (issued_requests t))"

definition transfer_is_complete :: "active_transfer \<Rightarrow> bool" where
  "transfer_is_complete t \<longleftrightarrow> remaining_words t = 0 \<and> ready_writes t = [] \<and> issued_requests t = []"

record dma_controller =
  dc_range :: address_range
  dc_source :: u32
  dc_destination :: u32
  length_words :: u32
  transferred_words :: u32
  dc_irq_enabled :: bool
  dc_done :: bool
  dc_error :: bool
  dc_route :: interrupt_route
  dc_active :: "active_transfer option"

definition max_burst_words :: nat where [masks]: "max_burst_words = 8"
definition max_outstanding_requests :: nat where [masks]: "max_outstanding_requests = 4"

definition dma_controller_new :: "u64 \<Rightarrow> dma_controller" where
  "dma_controller_new base =
     \<lparr>dc_range = \<lparr>range_start = base, range_size = 24\<rparr>, dc_source = 0, dc_destination = 0,
      length_words = 0, transferred_words = 0, dc_irq_enabled = False, dc_done = False,
      dc_error = False, dc_route = RouteMachineExternal, dc_active = None\<rparr>"

subsection \<open>Registers\<close>

definition dc_is_busy :: "dma_controller \<Rightarrow> bool" where
  "dc_is_busy d \<longleftrightarrow> dc_active d \<noteq> None"

definition dc_control_word :: "dma_controller \<Rightarrow> u32" where
  "dc_control_word d =
     (if dc_is_busy d then 2 else 0) OR (if dc_done d then 4 else 0) OR
     (if dc_irq_enabled d then 8 else 0) OR (if dc_error d then 16 else 0)"

definition read_register_word :: "u64 \<Rightarrow> dma_controller \<Rightarrow> bus_error + u32" where
  "read_register_word off d =
     (if off = 0 then Inr (dc_source d)
      else if off = 4 then Inr (dc_destination d)
      else if off = 8 then Inr (length_words d)
      else if off = 12 then Inr (dc_control_word d)
      else if off = 16 then Inr (transferred_words d)
      else if off = 20 then Inr (register_bits (dc_route d))
      else Inl (UnmappedAddress (range_start (dc_range d) + off)))"

definition start_transfer :: "dma_controller \<Rightarrow> dma_controller" where
  "start_transfer d =
     (if dc_is_busy d then d
      else
        (let d = d\<lparr>dc_done := False, dc_error := False, transferred_words := 0\<rparr> in
         if length_words d = 0 then d\<lparr>dc_error := True\<rparr>
         else d\<lparr>dc_active := Some
           \<lparr>next_source = ucast (dc_source d), next_destination = ucast (dc_destination d),
            remaining_words = length_words d, ready_writes = [], issued_requests = []\<rparr>\<rparr>))"

definition burst_words :: "u32 \<Rightarrow> nat" where
  "burst_words remaining = unat (min remaining (of_nat max_burst_words))"

definition dc_apply_control_byte :: "u8 \<Rightarrow> dma_controller \<Rightarrow> dma_controller" where
  "dc_apply_control_byte v d =
     (let control = (ucast v :: u32);
          d = d\<lparr>dc_irq_enabled := (control AND 8 \<noteq> 0)\<rparr>;
          d = (if control AND 4 \<noteq> 0 then d\<lparr>dc_done := False\<rparr> else d);
          d = (if control AND 16 \<noteq> 0 then d\<lparr>dc_error := False\<rparr> else d)
      in if control AND 1 \<noteq> 0 then start_transfer d else d)"

definition dc_reset :: "dma_controller \<Rightarrow> dma_controller" where
  "dc_reset d =
     d\<lparr>dc_source := 0, dc_destination := 0, length_words := 0, transferred_words := 0,
       dc_irq_enabled := False, dc_done := False, dc_error := False,
       dc_route := RouteMachineExternal, dc_active := None\<rparr>"

definition dc_pending_interrupts :: "dma_controller \<Rightarrow> interrupt_set" where
  "dc_pending_interrupts d =
     (if dc_irq_enabled d \<and> (dc_done d \<or> dc_error d)
      then from_line (route_interrupt_line (dc_route d)) else no_interrupts)"

definition dc_load8 :: "u64 \<Rightarrow> (dma_controller, u8) bus_call" where
  "dc_load8 addr d =
     at_offset (dc_range d) addr (\<lambda>off d.
       case read_register_word (off AND NOT 3) d of
         Inl e \<Rightarrow> Some (Inl e, d)
       | Inr w \<Rightarrow> returning d (reg_byte w (unat (off AND 3)))) d"

definition dc_store8 :: "u64 \<Rightarrow> u8 \<Rightarrow> (dma_controller, unit) bus_call" where
  "dc_store8 addr v d =
     at_offset (dc_range d) addr (\<lambda>off d.
       let i = unat (off AND 3); base = off AND NOT 3 in
       if base = 0 then updating (map_option (\<lambda>w. d\<lparr>dc_source := w\<rparr>) (reg_with_byte (dc_source d) i v))
       else if base = 4 then
         updating (map_option (\<lambda>w. d\<lparr>dc_destination := w\<rparr>) (reg_with_byte (dc_destination d) i v))
       else if base = 8 then
         updating (map_option (\<lambda>w. d\<lparr>length_words := w\<rparr>) (reg_with_byte (length_words d) i v))
       else if base = 12 then Some (Inr (), if i = 0 then dc_apply_control_byte v d else d)
       else if base = 16 then Some (Inl (ReadOnlyAddress addr), d)
       else if base = 20 then
         updating (map_option (\<lambda>w. d\<lparr>dc_route := route_from_register w\<rparr>)
           (reg_with_byte (register_bits (dc_route d)) i v))
       else Some (Inl (UnmappedAddress addr), d)) d"

definition dma_controller_ops :: "dma_controller addressable" where
  "dma_controller_ops =
     \<lparr>ad_name = (\<lambda>_. ''dma-controller''), ad_range = dc_range, ad_reset = dc_reset, ad_tick = Some,
      ad_machine_time = (\<lambda>_. None), ad_access_latency = (\<lambda>_ _ _ d. (0, d)),
      ad_pending_interrupts = dc_pending_interrupts, ad_load8 = dc_load8, ad_store8 = dc_store8\<rparr>"

lemma and_3_less: "unat (off AND 3) < 4" for off :: u64
proof -
  have "off AND 3 = take_bit 2 off" by (simp add: take_bit_eq_mask mask_eq_exp_minus_1)
  then show ?thesis using take_bit_nat_less_exp [of 2 "unat off"] by (simp add: unsigned_take_bit_eq)
qed

text \<open>No burst of a transfer is empty.\<close>

fun issued_beats :: "issued_dma_request \<Rightarrow> nat" where
  "issued_beats (IssuedRead _ n) = n"
| "issued_beats (IssuedWrite n) = n"

definition dma_ok :: "dma_controller \<Rightarrow> bool" where
  "dma_ok d \<longleftrightarrow> (case dc_active d of
     None \<Rightarrow> True
   | Some t \<Rightarrow> (\<forall>w \<in> set (ready_writes t). pw_words w \<noteq> []) \<and>
       (\<forall>i \<in> set (issued_requests t). 0 < issued_beats i))"

lemma dma_ok_fields [simp]:
  "dma_ok (d\<lparr>dc_source := a\<rparr>) = dma_ok d" "dma_ok (d\<lparr>dc_destination := a\<rparr>) = dma_ok d"
  "dma_ok (d\<lparr>length_words := a\<rparr>) = dma_ok d" "dma_ok (d\<lparr>dc_route := r\<rparr>) = dma_ok d"
  "dma_ok (d\<lparr>dc_irq_enabled := b\<rparr>) = dma_ok d" "dma_ok (d\<lparr>dc_done := b\<rparr>) = dma_ok d"
  "dma_ok (d\<lparr>dc_error := b\<rparr>) = dma_ok d" "dma_ok (d\<lparr>transferred_words := a\<rparr>) = dma_ok d"
  "dma_ok (d\<lparr>dc_active := None\<rparr>)"
  by (simp_all add: dma_ok_def)

lemma dma_ok_start: "dma_ok d \<Longrightarrow> dma_ok (start_transfer d)"
  by (simp add: start_transfer_def Let_def) (simp add: dma_ok_def)

lemma dma_ok_control: "dma_ok d \<Longrightarrow> dma_ok (dc_apply_control_byte v d)"
  by (simp add: dc_apply_control_byte_def Let_def dma_ok_start)

lemma dma_ok_reset: "dma_ok (dc_reset d)"
  by (simp add: dc_reset_def dma_ok_def)

interpretation dma: addressable_device dma_controller_ops dma_ok
  by standard
    (auto simp: dma_controller_ops_def dc_load8_def dc_store8_def reg_byte_Some reg_with_byte_def
      and_3_less Let_def dma_ok_control dma_ok_reset intro!: at_offset_wp split: sum.split)

subsection \<open>The bus master\<close>

definition issue_write :: "dma_controller \<Rightarrow> active_transfer \<Rightarrow> (bus_master_request option \<times> dma_controller)" where
  "issue_write d t =
     (case ready_writes t of
        [] \<Rightarrow> (None, d)
      | w # ws \<Rightarrow>
          (Some (MasterWriteWords (pw_destination w) (pw_words w)),
           d\<lparr>dc_active := Some (t\<lparr>ready_writes := ws,
             issued_requests := issued_requests t @ [IssuedWrite (length (pw_words w))]\<rparr>)\<rparr>))"

definition dma_request :: "dma_controller \<Rightarrow> (bus_master_request option \<times> dma_controller)" where
  "dma_request d =
     (case dc_active d of
        None \<Rightarrow> (None, d)
      | Some t \<Rightarrow>
          if ready_writes t \<noteq> [] \<and>
             (remaining_words t = 0 \<or> buffered_read_bursts t \<ge> max_outstanding_requests)
          then issue_write d t
          else if remaining_words t > 0 \<and> buffered_read_bursts t < max_outstanding_requests
          then
            (let n = burst_words (remaining_words t); words = (of_nat n :: u32) in
             (Some (MasterReadWords (next_source t) n),
              d\<lparr>dc_active := Some (t\<lparr>next_source := next_source t + ucast words * 4,
                next_destination := next_destination t + ucast words * 4,
                remaining_words := remaining_words t - words,
                issued_requests := issued_requests t @ [IssuedRead (next_destination t) n]\<rparr>)\<rparr>))
          else issue_write d t)"

text \<open>The response completes the oldest request; any other response stops the transfer.\<close>

definition dma_on_response ::
  "bus_error + bus_master_response \<Rightarrow> dma_controller \<Rightarrow> dma_controller" where
  "dma_on_response r d =
     (case dc_active d of
        None \<Rightarrow> d
      | Some t \<Rightarrow>
          (let stopped = d\<lparr>dc_active := None, dc_error := True\<rparr> in
           case issued_requests t of
             [] \<Rightarrow> stopped
           | issued # rest \<Rightarrow>
               (let t = t\<lparr>issued_requests := rest\<rparr>;
                    continue_with = (\<lambda>t d. if transfer_is_complete t
                      then d\<lparr>dc_active := None, dc_done := True\<rparr> else d\<lparr>dc_active := Some t\<rparr>)
                in case (issued, r) of
                     (IssuedRead dest n, Inr (MasterWords ws)) \<Rightarrow>
                       (if length ws = n
                        then continue_with (t\<lparr>ready_writes := ready_writes t @
                          [\<lparr>pw_destination = dest, pw_words = ws\<rparr>]\<rparr>) d
                        else stopped)
                   | (IssuedWrite n, Inr (MasterWritten m)) \<Rightarrow>
                       (if m = n
                        then continue_with t (d\<lparr>transferred_words := transferred_words d + of_nat n\<rparr>)
                        else stopped)
                   | _ \<Rightarrow> stopped)))"

subsection \<open>Requests are bursts\<close>

lemma burst_words_pos: "0 < r \<Longrightarrow> 0 < burst_words r"
  by (simp add: burst_words_def max_burst_words_def min_def word_less_nat_alt)

lemma issue_write_ok:
  "dma_ok d \<Longrightarrow> dc_active d = Some t \<Longrightarrow> issue_write d t = (r, d') \<Longrightarrow>
     dma_ok d' \<and> (\<forall>q. r = Some q \<longrightarrow> (\<exists>a ws. q = MasterWriteWords a ws \<and> ws \<noteq> []))"
  by (auto simp: issue_write_def dma_ok_def split: list.splits)

lemma dma_request_ok:
  assumes "dma_ok d" "dma_request d = (r, d')"
  shows "dma_ok d' \<and> (\<forall>q. r = Some q \<longrightarrow>
    (\<exists>a n. q = MasterReadWords a n \<and> 0 < n) \<or> (\<exists>a ws. q = MasterWriteWords a ws \<and> ws \<noteq> []))"
proof (cases "dc_active d")
  case (Some t)
  show ?thesis
  proof (cases "issue_write d t = (r, d')")
    case True
    then show ?thesis using issue_write_ok [OF assms(1) Some] by blast
  next
    case False
    then show ?thesis
      using assms Some burst_words_pos [of "remaining_words t"]
      by (auto simp: dma_request_def Let_def dma_ok_def split: if_splits)
  qed
qed (use assms in \<open>auto simp: dma_request_def\<close>)

lemma dma_on_response_ok:
  assumes "dma_ok d"
  shows "dma_ok (dma_on_response r d)"
proof (cases "dc_active d")
  case (Some t)
  then show ?thesis
    using assms
    by (auto simp: dma_on_response_def Let_def dma_ok_def split: list.split issued_dma_request.split
        sum.split bus_master_response.split)
qed (use assms in \<open>simp add: dma_on_response_def\<close>)

end
