(* ===== verification/Dma_Transfer.thy ===== *)
theory Dma_Transfer
  imports Dma_Controller
begin

text \<open>
  What a DMA transfer does to memory. The engine's requests go to a byte memory through a queue:
  a request is issued, takes effect at some later point, and is answered in issue order, as the
  arbiter does for one master. Every interleaving of these steps is a run of \<open>dma_step\<close>.

  The invariant \<open>dma_inv\<close> says where each word of the transfer is: still to be read, in a read
  request, in a ready or issued write, or copied. The number of steps of a run is bounded by
  \<open>dma_work\<close>.
\<close>

type_synonym byte_map = "u64 \<Rightarrow> u8"
type_synonym master_entry = "bus_master_request \<times> bus_master_response option"
type_synonym transfer_state = "dma_controller \<times> master_entry list \<times> byte_map"

definition read_word_of :: "byte_map \<Rightarrow> u64 \<Rightarrow> u32" where
  "read_word_of m a = from_le32 (m a) (m (a + 1)) (m (a + 2)) (m (a + 3))"

definition read_words_of :: "byte_map \<Rightarrow> u64 \<Rightarrow> nat \<Rightarrow> u32 list" where
  "read_words_of m a n = map (\<lambda>i. read_word_of m (a + of_nat (4 * i))) [0..<n]"

definition write_bytes :: "byte_map \<Rightarrow> u64 \<Rightarrow> u8 list \<Rightarrow> byte_map" where
  "write_bytes m a bs = (\<lambda>x. if unat (x - a) < length bs then bs ! unat (x - a) else m x)"

text \<open>The effect of a request on the memory behind the bus, and its response.\<close>

fun memory_effect :: "bus_master_request \<Rightarrow> byte_map \<Rightarrow> bus_master_response \<times> byte_map" where
  "memory_effect (MasterLoad32 a) m = (MasterLoaded (read_word_of m a), m)"
| "memory_effect (MasterStore32 a v) m = (MasterStored, write_bytes m a (le_bytes32 v))"
| "memory_effect (MasterReadWords a n) m = (MasterWords (read_words_of m a n), m)"
| "memory_effect (MasterWriteWords a ws) m = (MasterWritten (length ws), write_bytes m a (bytes_of ws))"

inductive dma_step :: "transfer_state \<Rightarrow> transfer_state \<Rightarrow> bool" where
  issue: "dma_request d = (Some r, d') \<Longrightarrow> dma_step (d, q, m) (d', q @ [(r, None)], m)"
| perform: "memory_effect r m = (resp, m') \<Longrightarrow>
    dma_step (d, q @ (r, None) # q', m) (d, q @ (r, Some resp) # q', m')"
| respond: "dma_step (d, (r, Some resp) # q, m) (dma_on_response (Inr resp) d, q, m)"

inductive dma_run :: "nat \<Rightarrow> transfer_state \<Rightarrow> transfer_state \<Rightarrow> bool" where
  run_none: "dma_run 0 c c"
| run_step: "dma_run n c c' \<Longrightarrow> dma_step c' c'' \<Longrightarrow> dma_run (Suc n) c c''"

inductive_cases dma_stepE: "dma_step c c'"

subsection \<open>Bytes of words\<close>

lemma length_read_words [simp]: "length (read_words_of m a n) = n"
  by (simp add: read_words_of_def)

lemma bytes_of_read: "bytes_of (read_words_of m a n) = map (\<lambda>i. m (a + of_nat i)) [0..<4 * n]"
proof (induction n)
  case 0
  then show ?case by (simp add: bytes_of_def read_words_of_def)
next
  case (Suc n)
  have "[0..<4 * Suc n] = [0..<4 * n] @ [4 * n, 4 * n + 1, 4 * n + 2, 4 * n + 3]"
    by (simp add: upt_conv_Cons numeral_eq_Suc)
  then show ?case
    using Suc
    by (simp add: read_words_of_def bytes_of_append add.assoc del: upt_Suc)
      (simp add: bytes_of_def read_word_of_def add.assoc add.commute add.left_commute)
qed

subsection \<open>The invariant\<close>

text \<open>The address of a byte of a region.\<close>

definition at_byte :: "u64 \<Rightarrow> nat \<Rightarrow> u64" where
  "at_byte base i = base + of_nat i"

definition src_bytes :: "u64 \<Rightarrow> byte_map \<Rightarrow> nat \<Rightarrow> nat \<Rightarrow> u8 list" where
  "src_bytes s m0 k n = map (\<lambda>i. m0 (at_byte s (4 * k + i))) [0..<4 * n]"

definition word_offset :: "u64 \<Rightarrow> u64 \<Rightarrow> nat" where
  "word_offset base a = unat (a - base) div 4"

definition piece :: "u64 \<Rightarrow> u64 \<Rightarrow> nat \<Rightarrow> byte_map \<Rightarrow> u64 \<Rightarrow> u32 list \<Rightarrow> bool" where
  "piece s t L m0 dest ws \<longleftrightarrow> (\<exists>k. dest = at_byte t (4 * k) \<and> k + length ws \<le> L \<and>
     bytes_of ws = src_bytes s m0 k (length ws))"

fun entry_matches :: "u64 \<Rightarrow> u64 \<Rightarrow> nat \<Rightarrow> byte_map \<Rightarrow> issued_dma_request \<Rightarrow> master_entry \<Rightarrow> bool" where
  "entry_matches s t L m0 (IssuedRead dest n) (MasterReadWords src n', r) \<longleftrightarrow> n' = n \<and>
     (\<exists>k. k + n \<le> L \<and> src = at_byte s (4 * k) \<and> dest = at_byte t (4 * k) \<and>
       (\<forall>resp. r = Some resp \<longrightarrow> (\<exists>ws. resp = MasterWords ws \<and> length ws = n \<and>
         bytes_of ws = src_bytes s m0 k n)))"
| "entry_matches s t L m0 (IssuedWrite n) (MasterWriteWords dest ws, r) \<longleftrightarrow> n = length ws \<and>
     piece s t L m0 dest ws \<and> (\<forall>resp. r = Some resp \<longrightarrow> resp = MasterWritten n)"
| "entry_matches s t L m0 _ _ \<longleftrightarrow> False"

text \<open>The words of the transfer that a request or a ready write has yet to copy.\<close>

fun owed_entry :: "u64 \<Rightarrow> u64 \<Rightarrow> master_entry \<Rightarrow> nat set" where
  "owed_entry s t (MasterReadWords src n, _) = {word_offset s src ..< word_offset s src + n}"
| "owed_entry s t (MasterWriteWords dest ws, None) = {word_offset t dest ..< word_offset t dest + length ws}"
| "owed_entry s t _ = {}"

definition owed_write :: "u64 \<Rightarrow> pending_write_burst \<Rightarrow> nat set" where
  "owed_write t w = {word_offset t (pw_destination w) ..<
     word_offset t (pw_destination w) + length (pw_words w)}"

definition copied :: "u64 \<Rightarrow> u64 \<Rightarrow> byte_map \<Rightarrow> byte_map \<Rightarrow> nat \<Rightarrow> bool" where
  "copied s t m0 m j \<longleftrightarrow> (\<forall>c < 4. m (at_byte t (4 * j + c)) = m0 (at_byte s (4 * j + c)))"

definition outside :: "u64 \<Rightarrow> nat \<Rightarrow> u64 \<Rightarrow> bool" where
  "outside t L a \<longleftrightarrow> (\<forall>i < 4 * L. a \<noteq> at_byte t i)"

definition transfer_inv ::
  "u64 \<Rightarrow> u64 \<Rightarrow> nat \<Rightarrow> byte_map \<Rightarrow> u32 \<Rightarrow> active_transfer \<Rightarrow> master_entry list \<Rightarrow> byte_map \<Rightarrow> bool" where
  "transfer_inv s t L m0 done x q m \<longleftrightarrow>
     \<not> transfer_is_complete x \<and>
     list_all2 (entry_matches s t L m0) (issued_requests x) q \<and>
     (\<forall>w \<in> set (ready_writes x). piece s t L m0 (pw_destination w) (pw_words w)) \<and>
     unat done + sum_list (map issued_beats (issued_requests x)) +
       sum_list (map (\<lambda>w. length (pw_words w)) (ready_writes x)) + unat (remaining_words x) = L \<and>
     (\<exists>k. k + unat (remaining_words x) = L \<and> next_source x = at_byte s (4 * k) \<and>
       next_destination x = at_byte t (4 * k) \<and>
       (\<forall>j < k. copied s t m0 m j \<or> j \<in> \<Union> (owed_entry s t ` set q) \<union> \<Union> (owed_write t ` set (ready_writes x))))"

definition dma_inv :: "u64 \<Rightarrow> u64 \<Rightarrow> nat \<Rightarrow> byte_map \<Rightarrow> transfer_state \<Rightarrow> bool" where
  "dma_inv s t L m0 c \<longleftrightarrow> (case c of (d, q, m) \<Rightarrow>
     (\<forall>a. outside t L a \<longrightarrow> m a = m0 a) \<and> \<not> dc_error d \<and>
     (case dc_active d of
        None \<Rightarrow> q = [] \<and> dc_done d \<and> unat (transferred_words d) = L \<and> (\<forall>j < L. copied s t m0 m j)
      | Some x \<Rightarrow> transfer_inv s t L m0 (transferred_words d) x q m))"

fun entry_work :: "master_entry \<Rightarrow> nat" where
  "entry_work (MasterReadWords _ _, None) = 5"
| "entry_work (MasterReadWords _ _, Some _) = 4"
| "entry_work (_, None) = 2"
| "entry_work (_, Some _) = 1"

definition dma_work :: "transfer_state \<Rightarrow> nat" where
  "dma_work c = (case c of (d, q, m) \<Rightarrow>
     (case dc_active d of
        None \<Rightarrow> 0
      | Some x \<Rightarrow> 6 * unat (remaining_words x) + 3 * length (ready_writes x) +
          sum_list (map entry_work q)))"

text \<open>The two regions do not overlap; the length is a 32-bit register.\<close>

definition regions_ok :: "u64 \<Rightarrow> u64 \<Rightarrow> nat \<Rightarrow> bool" where
  "regions_ok s t L \<longleftrightarrow> L < 2 ^ 32 \<and> (\<forall>i < 4 * L. \<forall>j < 4 * L. at_byte s i \<noteq> at_byte t j)"

lemma regions_okI:
  assumes "L < 2 ^ 32" "unat s + 4 * L \<le> unat t" "unat t + 4 * L \<le> 2 ^ 64"
  shows "regions_ok s t L"
proof -
  have "s + of_nat i \<noteq> t + of_nat j" if i: "i < 4 * L" and j: "j < 4 * L" for i j :: nat
  proof -
    have "unat (s + of_nat i) = unat s + i" "unat (t + of_nat j) = unat t + j"
      using assms i j by (simp_all add: unat_word_ariths unat_of_nat)
    moreover have "unat s + i \<noteq> unat t + j" using assms(2) i by linarith
    ultimately show "s + of_nat i \<noteq> t + of_nat j" by metis
  qed
  then show ?thesis using assms(1) by (simp add: regions_ok_def at_byte_def)
qed

subsection \<open>Reads and writes of pieces\<close>

lemma unat_of_u64: "x < 2 ^ 64 \<Longrightarrow> unat (of_nat x :: u64) = x"
  by (simp add: unat_of_nat)

lemma word_offset_at [simp]: "4 * k < 2 ^ 64 \<Longrightarrow> word_offset b (at_byte b (4 * k)) = k"
  using unat_of_u64 [of "4 * k"] by (simp only: word_offset_def at_byte_def add_diff_cancel_left')

lemma at_byte_add: "at_byte b x + of_nat y = at_byte b (x + y)"
  by (simp add: at_byte_def add.assoc)

lemma at_byte_unat: "at_byte b (x + unat (a - at_byte b x)) = a"
  by (simp add: at_byte_def)

lemma at_byte_diff:
  assumes "y < 2 ^ 64" "x < 2 ^ 64"
  shows "unat (at_byte b x - at_byte b y) = (if y \<le> x then x - y else 2 ^ 64 - (y - x))"
proof -
  have d: "at_byte b x - at_byte b y = (of_nat x - of_nat y :: u64)" by (simp add: at_byte_def)
  show ?thesis
    unfolding d using assms
    by (simp add: unat_sub_if' unat_of_u64 unat_of_nat) linarith
qed

lemma source_kept:
  assumes "regions_ok s t L" "\<forall>a. outside t L a \<longrightarrow> m a = m0 a" "i < 4 * L"
  shows "m (at_byte s i) = m0 (at_byte s i)"
  using assms unfolding regions_ok_def outside_def by metis

lemma read_source:
  assumes "regions_ok s t L" "\<forall>a. outside t L a \<longrightarrow> m a = m0 a" "k + n \<le> L"
  shows "bytes_of (read_words_of m (at_byte s (4 * k)) n) = src_bytes s m0 k n"
proof -
  have "m (at_byte s (4 * k) + of_nat i) = m0 (at_byte s (4 * k + i))" if "i < 4 * n" for i
    using that assms(3) source_kept [OF assms(1,2), of "4 * k + i"] by (simp add: at_byte_add)
  then show ?thesis unfolding bytes_of_read src_bytes_def by (intro map_cong) auto
qed

lemma length_src_bytes [simp]: "length (src_bytes s m0 k n) = 4 * n"
  by (simp add: src_bytes_def)

lemma write_piece:
  assumes "4 * L < 2 ^ 64" "k + n \<le> L" "x < 4 * L"
  shows "write_bytes m (at_byte t (4 * k)) (src_bytes s m0 k n) (at_byte t x) =
    (if 4 * k \<le> x \<and> x < 4 * k + 4 * n then m0 (at_byte s x) else m (at_byte t x))"
proof -
  have b: "4 * k < 2 ^ 64" "x < 2 ^ 64" using assms by linarith+
  show ?thesis
  proof (cases "4 * k \<le> x")
    case True
    then have "unat (at_byte t x - at_byte t (4 * k)) = x - 4 * k" using at_byte_diff [OF b] by simp
    then show ?thesis using True by (auto simp: write_bytes_def src_bytes_def)
  next
    case False
    then have "unat (at_byte t x - at_byte t (4 * k)) = 2 ^ 64 - (4 * k - x)"
      using at_byte_diff [OF b] by simp
    moreover have "4 * n \<le> 2 ^ 64 - (4 * k - x)" using assms by linarith
    ultimately show ?thesis using False by (simp add: write_bytes_def)
  qed
qed

lemma write_outside:
  assumes "4 * L < 2 ^ 64" "k + n \<le> L" "outside t L a"
  shows "write_bytes m (at_byte t (4 * k)) (src_bytes s m0 k n) a = m a"
proof -
  have "\<not> unat (a - at_byte t (4 * k)) < 4 * n"
  proof
    assume u: "unat (a - at_byte t (4 * k)) < 4 * n"
    have "4 * k + unat (a - at_byte t (4 * k)) < 4 * L" using u assms(2) by linarith
    then show False using assms(3) at_byte_unat [of t "4 * k" a] unfolding outside_def by metis
  qed
  then show ?thesis by (simp add: write_bytes_def)
qed

lemma write_copies:
  assumes "4 * L < 2 ^ 64" "k + n \<le> L" "j < L"
  shows "copied s t m0 (write_bytes m (at_byte t (4 * k)) (src_bytes s m0 k n)) j \<longleftrightarrow>
    (k \<le> j \<and> j < k + n) \<or> copied s t m0 m j"
proof -
  have "write_bytes m (at_byte t (4 * k)) (src_bytes s m0 k n) (at_byte t (4 * j + c)) =
      (if k \<le> j \<and> j < k + n then m0 (at_byte s (4 * j + c)) else m (at_byte t (4 * j + c)))"
    if "c < 4" for c
  proof -
    have "4 * j + c < 4 * L" using that assms(3) by linarith
    moreover have "4 * k \<le> 4 * j + c \<and> 4 * j + c < 4 * k + 4 * n \<longleftrightarrow> k \<le> j \<and> j < k + n"
      using that by linarith
    ultimately show ?thesis using write_piece [OF assms(1,2), of "4 * j + c"] by (simp only:)
  qed
  then show ?thesis unfolding copied_def by (smt (verit))
qed

subsection \<open>Every step keeps the invariant and decreases the work\<close>

lemma burst_words_props:
  assumes "rem \<noteq> 0"
  shows "1 \<le> burst_words rem" "burst_words rem \<le> unat rem"
    "unat (rem - of_nat (burst_words rem)) = unat rem - burst_words rem"
    "ucast (of_nat (burst_words rem) :: u32) * 4 = (of_nat (4 * burst_words rem) :: u64)"
proof -
  have b: "burst_words rem = min (unat rem) 8"
    by (simp add: burst_words_def masks min_def word_le_nat_alt)
  have "unat rem \<noteq> 0" using assms by (simp add: unat_eq_zero)
  then show "1 \<le> burst_words rem" "burst_words rem \<le> unat rem" using b by auto
  have u: "unat (of_nat (burst_words rem) :: u32) = burst_words rem"
    by (simp add: b unat_of_nat)
  then show "unat (rem - of_nat (burst_words rem)) = unat rem - burst_words rem"
    using b by (simp add: unat_sub word_le_nat_alt)
  have "ucast (of_nat (burst_words rem) :: u32) = (of_nat (burst_words rem) :: u64)"
    by (rule word_unat_eq_iff [THEN iffD2]) (simp add: b unat_of_nat unsigned_ucast_eq take_bit_nat_eq_self)
  then show "ucast (of_nat (burst_words rem) :: u32) * 4 = (of_nat (4 * burst_words rem) :: u64)" by simp
qed

lemma request_cases:
  assumes "dma_request d = (Some r, d')"
  obtains (issue_wr) x w ws where "dc_active d = Some x" "ready_writes x = w # ws"
      "r = MasterWriteWords (pw_destination w) (pw_words w)"
      "d' = d\<lparr>dc_active := Some (x\<lparr>ready_writes := ws,
         issued_requests := issued_requests x @ [IssuedWrite (length (pw_words w))]\<rparr>)\<rparr>"
  | (issue_rd) x n rem where "dc_active d = Some x" "1 \<le> n" "unat rem + n = unat (remaining_words x)"
      "r = MasterReadWords (next_source x) n"
      "d' = d\<lparr>dc_active := Some (x\<lparr>next_source := next_source x + of_nat (4 * n),
         next_destination := next_destination x + of_nat (4 * n), remaining_words := rem,
         issued_requests := issued_requests x @ [IssuedRead (next_destination x) n]\<rparr>)\<rparr>"
proof -
  obtain x where x: "dc_active d = Some x"
    using assms by (auto simp: dma_request_def split: option.splits)
  consider (w) "issue_write d x = (Some r, d')"
    | (r) "remaining_words x \<noteq> 0"
      "r = MasterReadWords (next_source x) (burst_words (remaining_words x))"
      "d' = d\<lparr>dc_active := Some (x\<lparr>
         next_source := next_source x + ucast (of_nat (burst_words (remaining_words x)) :: u32) * 4,
         next_destination := next_destination x + ucast (of_nat (burst_words (remaining_words x)) :: u32) * 4,
         remaining_words := remaining_words x - of_nat (burst_words (remaining_words x)),
         issued_requests := issued_requests x @
           [IssuedRead (next_destination x) (burst_words (remaining_words x))]\<rparr>)\<rparr>"
    using assms x by (auto simp: dma_request_def Let_def word_greater_zero_iff split: if_splits)
  then show thesis
  proof cases
    case w
    then show thesis using x by (auto simp: issue_write_def split: list.splits intro: issue_wr)
  next
    case r
    note b = burst_words_props [OF r(1)]
    show thesis
      by (rule issue_rd [OF x b(1) _ r(2)]) (use b r(3) in auto)
  qed
qed

lemma issue_inv:
  assumes "regions_ok s t L" "dma_inv s t L m0 (d, q, m)" "dma_request d = (Some r, d')"
  shows "dma_inv s t L m0 (d', q @ [(r, None)], m) \<and>
    dma_work (d', q @ [(r, None)], m) < dma_work (d, q, m)"
  using assms(3)
proof (cases rule: request_cases)
  case (issue_wr x w ws)
  have i: "transfer_inv s t L m0 (transferred_words d) x q m" "\<not> dc_error d"
    "\<forall>a. outside t L a \<longrightarrow> m a = m0 a"
    using assms(2) issue_wr(1) by (auto simp: dma_inv_def)
  let ?x = "x\<lparr>ready_writes := ws, issued_requests := issued_requests x @ [IssuedWrite (length (pw_words w))]\<rparr>"
  have o: "\<Union> (owed_entry s t ` set (q @ [(r, None)])) \<union> \<Union> (owed_write t ` set ws) =
      \<Union> (owed_entry s t ` set q) \<union> \<Union> (owed_write t ` set (ready_writes x))"
    using issue_wr by (auto simp: owed_write_def)
  have "transfer_inv s t L m0 (transferred_words d) ?x (q @ [(r, None)]) m"
    using i(1) issue_wr unfolding transfer_inv_def
    by (auto simp: transfer_is_complete_def list_all2_appendI o [simplified] simp del: owed_entry.simps)
      (auto simp: owed_write_def)
  then show ?thesis
    using i issue_wr by (simp add: dma_inv_def dma_work_def)
next
  case (issue_rd x n rem)
  have i: "transfer_inv s t L m0 (transferred_words d) x q m" "\<not> dc_error d"
    "\<forall>a. outside t L a \<longrightarrow> m a = m0 a"
    using assms(2) issue_rd(1) by (auto simp: dma_inv_def)
  obtain k where k: "k + unat (remaining_words x) = L" "next_source x = at_byte s (4 * k)"
      "next_destination x = at_byte t (4 * k)"
      "\<forall>j < k. copied s t m0 m j \<or> j \<in> \<Union> (owed_entry s t ` set q) \<union> \<Union> (owed_write t ` set (ready_writes x))"
    using i(1) by (auto simp: transfer_inv_def)
  have kb: "4 * k < 2 ^ 64" using k(1) assms(1) by (simp add: regions_ok_def)
  let ?x = "x\<lparr>next_source := next_source x + of_nat (4 * n), next_destination := next_destination x + of_nat (4 * n),
     remaining_words := rem, issued_requests := issued_requests x @ [IssuedRead (next_destination x) n]\<rparr>"
  have m: "entry_matches s t L m0 (IssuedRead (next_destination x) n) (r, None)"
    unfolding issue_rd(4) using k(1-3) issue_rd(3) by (simp, intro exI [of _ k]) simp
  have ns: "next_source x + of_nat (4 * n) = at_byte s (4 * (k + n))"
    "next_destination x + of_nat (4 * n) = at_byte t (4 * (k + n))"
    unfolding k(2,3) at_byte_add by (simp_all add: distrib_left)
  have o: "owed_entry s t (r, None) = {k ..< k + n}" using kb k(2) issue_rd(4) by simp
  have c: "\<forall>j < k + n. copied s t m0 m j \<or> j \<in> \<Union> (owed_entry s t ` set (q @ [(r, None)])) \<union>
      \<Union> (owed_write t ` set (ready_writes x))"
  proof (intro allI impI)
    fix j assume "j < k + n"
    then show "copied s t m0 m j \<or> j \<in> \<Union> (owed_entry s t ` set (q @ [(r, None)])) \<union>
        \<Union> (owed_write t ` set (ready_writes x))"
      using k(4) o by (cases "j < k") auto
  qed
  have "transfer_inv s t L m0 (transferred_words d) ?x (q @ [(r, None)]) m"
    unfolding transfer_inv_def
  proof (intro conjI)
    show "\<exists>k. k + unat (remaining_words ?x) = L \<and> next_source ?x = at_byte s (4 * k) \<and>
        next_destination ?x = at_byte t (4 * k) \<and> (\<forall>j < k. copied s t m0 m j \<or>
          j \<in> \<Union> (owed_entry s t ` set (q @ [(r, None)])) \<union> \<Union> (owed_write t ` set (ready_writes ?x)))"
      using k(1) issue_rd(3) ns c by (intro exI [of _ "k + n"]) simp
  qed (use i(1) issue_rd m in \<open>auto simp: transfer_inv_def transfer_is_complete_def list_all2_appendI\<close>)
  then show ?thesis
    using i issue_rd by (simp add: dma_inv_def dma_work_def)
qed

lemma perform_inv:
  assumes ok: "regions_ok s t L" and inv: "dma_inv s t L m0 (d, q1 @ (r, None) # q2, m)"
    and eff: "memory_effect r m = (resp, m')"
  shows "dma_inv s t L m0 (d, q1 @ (r, Some resp) # q2, m') \<and>
    dma_work (d, q1 @ (r, Some resp) # q2, m') < dma_work (d, q1 @ (r, None) # q2, m)"
proof -
  have L: "4 * L < 2 ^ 64" using ok by (simp add: regions_ok_def)
  obtain x where x: "dc_active d = Some x" "\<not> dc_error d" "\<forall>a. outside t L a \<longrightarrow> m a = m0 a"
      and i: "transfer_inv s t L m0 (transferred_words d) x (q1 @ (r, None) # q2) m"
    using inv by (auto simp: dma_inv_def split: option.splits)
  obtain i1 e i2 where e: "issued_requests x = i1 @ e # i2" "list_all2 (entry_matches s t L m0) i1 q1"
      "entry_matches s t L m0 e (r, None)" "list_all2 (entry_matches s t L m0) i2 q2"
    using i by (auto simp: transfer_inv_def list_all2_append2 list_all2_Cons2)
  have key: "entry_matches s t L m0 e (r, Some resp) \<and> (\<forall>a. outside t L a \<longrightarrow> m' a = m0 a) \<and>
      (\<forall>j < L. copied s t m0 m j \<or> j \<in> owed_entry s t (r, None) \<longrightarrow>
        copied s t m0 m' j \<or> j \<in> owed_entry s t (r, Some resp)) \<and>
      entry_work (r, Some resp) < entry_work (r, None)"
  proof (cases e)
    case (IssuedRead dest n)
    then obtain k where k: "r = MasterReadWords (at_byte s (4 * k)) n" "dest = at_byte t (4 * k)" "k + n \<le> L"
      using e(3) by (cases r) auto
    have m': "m' = m" "resp = MasterWords (read_words_of m (at_byte s (4 * k)) n)" using eff k(1) by auto
    have "\<exists>k'. k' + n \<le> L \<and> at_byte s (4 * k) = at_byte s (4 * k') \<and> dest = at_byte t (4 * k') \<and>
        (\<exists>ws. resp = MasterWords ws \<and> length ws = n \<and> bytes_of ws = src_bytes s m0 k' n)"
      using k m'(2) read_source [OF ok x(3) k(3)]
      by (intro exI [of _ k]) (simp add: read_words_of_def)
    then show ?thesis using IssuedRead k(1) m'(1) x(3) by simp
  next
    case (IssuedWrite n)
    then obtain dest ws where ws: "r = MasterWriteWords dest ws" "n = length ws" "piece s t L m0 dest ws"
      using e(3) by (cases r) auto
    then obtain k where k: "dest = at_byte t (4 * k)" "k + length ws \<le> L"
        "bytes_of ws = src_bytes s m0 k (length ws)"
      by (auto simp: piece_def)
    have m': "m' = write_bytes m (at_byte t (4 * k)) (src_bytes s m0 k (length ws))"
      "resp = MasterWritten (length ws)"
      using eff ws(1) k by auto
    have "word_offset t dest = k" unfolding k(1) using k(2) L by (intro word_offset_at) linarith
    then show ?thesis
      using IssuedWrite ws m' write_outside [OF L k(2)] write_copies [OF L k(2)] x(3) by simp
  qed
  obtain k where k: "k + unat (remaining_words x) = L" "next_source x = at_byte s (4 * k)"
      "next_destination x = at_byte t (4 * k)"
      "\<forall>j < k. copied s t m0 m j \<or> j \<in> \<Union> (owed_entry s t ` set (q1 @ (r, None) # q2)) \<union>
        \<Union> (owed_write t ` set (ready_writes x))"
    using i by (auto simp: transfer_inv_def)
  have c: "\<forall>j < k. copied s t m0 m' j \<or> j \<in> \<Union> (owed_entry s t ` set (q1 @ (r, Some resp) # q2)) \<union>
        \<Union> (owed_write t ` set (ready_writes x))"
  proof (intro allI impI)
    fix j assume j: "j < k"
    then have "j < L" using k(1) by linarith
    then show "copied s t m0 m' j \<or> j \<in> \<Union> (owed_entry s t ` set (q1 @ (r, Some resp) # q2)) \<union>
        \<Union> (owed_write t ` set (ready_writes x))"
      using key k(4) j by auto
  qed
  have "transfer_inv s t L m0 (transferred_words d) x (q1 @ (r, Some resp) # q2) m'"
    unfolding transfer_inv_def
  proof (intro conjI)
    show "list_all2 (entry_matches s t L m0) (issued_requests x) (q1 @ (r, Some resp) # q2)"
      using e key by (auto intro: list_all2_appendI)
    show "\<exists>k. k + unat (remaining_words x) = L \<and> next_source x = at_byte s (4 * k) \<and>
        next_destination x = at_byte t (4 * k) \<and> (\<forall>j < k. copied s t m0 m' j \<or>
          j \<in> \<Union> (owed_entry s t ` set (q1 @ (r, Some resp) # q2)) \<union> \<Union> (owed_write t ` set (ready_writes x)))"
      using k c by blast
  qed (use i in \<open>auto simp: transfer_inv_def\<close>)
  then show ?thesis using x key by (simp add: dma_inv_def dma_work_def)
qed

lemma respond_inv:
  assumes ok: "regions_ok s t L" and inv: "dma_inv s t L m0 (d, (r, Some resp) # q, m)"
  shows "dma_inv s t L m0 (dma_on_response (Inr resp) d, q, m) \<and>
    dma_work (dma_on_response (Inr resp) d, q, m) < dma_work (d, (r, Some resp) # q, m)"
proof -
  have L: "4 * L < 2 ^ 64" using ok by (simp add: regions_ok_def)
  obtain x where x: "dc_active d = Some x" "\<not> dc_error d" "\<forall>a. outside t L a \<longrightarrow> m a = m0 a"
      and i: "transfer_inv s t L m0 (transferred_words d) x ((r, Some resp) # q) m"
    using inv by (auto simp: dma_inv_def split: option.splits)
  obtain e es where e: "issued_requests x = e # es" "entry_matches s t L m0 e (r, Some resp)"
      "list_all2 (entry_matches s t L m0) es q"
    using i by (auto simp: transfer_inv_def list_all2_Cons2)
  obtain k where k: "k + unat (remaining_words x) = L" "next_source x = at_byte s (4 * k)"
      "next_destination x = at_byte t (4 * k)"
      "\<forall>j < k. copied s t m0 m j \<or> j \<in> \<Union> (owed_entry s t ` set ((r, Some resp) # q)) \<union>
        \<Union> (owed_write t ` set (ready_writes x))"
    using i by (auto simp: transfer_inv_def)
  show ?thesis
  proof (cases e)
    case (IssuedRead dest n)
    then obtain b ws where b: "r = MasterReadWords (at_byte s (4 * b)) n" "dest = at_byte t (4 * b)"
        "b + n \<le> L" "resp = MasterWords ws" "length ws = n" "bytes_of ws = src_bytes s m0 b n"
      using e(2) by (cases r) auto
    let ?w = "\<lparr>pw_destination = dest, pw_words = ws\<rparr>"
    let ?x = "x\<lparr>issued_requests := es, ready_writes := ready_writes x @ [?w]\<rparr>"
    have d': "dma_on_response (Inr resp) d = d\<lparr>dc_active := Some ?x\<rparr>"
      using x(1) e(1) IssuedRead b by (simp add: dma_on_response_def transfer_is_complete_def)
    have b4: "4 * b < 2 ^ 64" using b(3) L by linarith
    have o: "owed_entry s t (r, Some resp) = owed_write t ?w"
      using b b4 by (simp add: owed_write_def)
    have "piece s t L m0 dest ws" using b by (auto simp: piece_def)
    moreover have "\<exists>k. k + unat (remaining_words ?x) = L \<and> next_source ?x = at_byte s (4 * k) \<and>
        next_destination ?x = at_byte t (4 * k) \<and> (\<forall>j < k. copied s t m0 m j \<or>
          j \<in> \<Union> (owed_entry s t ` set q) \<union> \<Union> (owed_write t ` set (ready_writes ?x)))"
      using k o by (intro exI [of _ k]) auto
    ultimately have "transfer_inv s t L m0 (transferred_words d) ?x q m"
      using i e IssuedRead b(5) by (auto simp: transfer_inv_def transfer_is_complete_def)
    then show ?thesis using x d' b(1) by (simp add: dma_inv_def dma_work_def)
  next
    case (IssuedWrite n)
    then obtain dest ws where ws: "r = MasterWriteWords dest ws" "resp = MasterWritten n"
      using e(2) by (cases r) auto
    let ?x = "x\<lparr>issued_requests := es\<rparr>" and ?t = "transferred_words d + of_nat n"
    have d': "dma_on_response (Inr resp) d =
        (if transfer_is_complete ?x then d\<lparr>transferred_words := ?t, dc_active := None, dc_done := True\<rparr>
         else d\<lparr>transferred_words := ?t, dc_active := Some ?x\<rparr>)"
      using x(1) e(1) IssuedWrite ws by (simp add: dma_on_response_def)
    have sum: "unat (transferred_words d) + n + sum_list (map issued_beats es) +
        sum_list (map (\<lambda>w. length (pw_words w)) (ready_writes x)) + unat (remaining_words x) = L"
      using i e(1) IssuedWrite by (simp add: transfer_inv_def)
    then have "unat (transferred_words d) + n < 2 ^ 32" using ok by (simp add: regions_ok_def)
    then have t: "unat ?t = unat (transferred_words d) + n"
      by (simp add: unat_word_ariths unat_of_nat)
    have o: "owed_entry s t (r, Some resp) = {}" using ws by simp
    show ?thesis
    proof (cases "transfer_is_complete ?x")
      case True
      then have z: "remaining_words x = 0" "ready_writes x = []" "es = []"
        by (auto simp: transfer_is_complete_def)
      then have "q = []" using e(3) by simp
      moreover have "k = L" using k(1) z(1) by simp
      ultimately show ?thesis
        using x d' True ws(1) z t sum k(4) o by (simp add: dma_inv_def dma_work_def)
    next
      case False
      have "\<exists>k. k + unat (remaining_words ?x) = L \<and> next_source ?x = at_byte s (4 * k) \<and>
          next_destination ?x = at_byte t (4 * k) \<and> (\<forall>j < k. copied s t m0 m j \<or>
            j \<in> \<Union> (owed_entry s t ` set q) \<union> \<Union> (owed_write t ` set (ready_writes ?x)))"
        using k o by (intro exI [of _ k]) auto
      then have "transfer_inv s t L m0 ?t ?x q m"
        using False i e(3) t sum by (auto simp: transfer_inv_def)
      then show ?thesis using x d' False ws(1) by (simp add: dma_inv_def dma_work_def)
    qed
  qed
qed

lemma dma_step_inv:
  assumes "regions_ok s t L" "dma_step c c'" "dma_inv s t L m0 c"
  shows "dma_inv s t L m0 c' \<and> dma_work c' < dma_work c"
  using assms(2,3)
proof cases
  case issue
  then show ?thesis using assms(1,3) issue_inv by blast
next
  case perform
  then show ?thesis using assms(1,3) perform_inv by blast
next
  case respond
  then show ?thesis using assms(1,3) respond_inv by blast
qed

lemma dma_run_inv:
  assumes "regions_ok s t L" "dma_run n c c'" "dma_inv s t L m0 c"
  shows "dma_inv s t L m0 c' \<and> dma_work c' + n \<le> dma_work c"
  using assms(2,3)
proof (induction rule: dma_run.induct)
  case (run_step n c c' c'')
  then show ?case using dma_step_inv [OF assms(1) run_step(2)] by fastforce
qed simp

subsection \<open>Progress\<close>

lemma dma_request_some:
  assumes "dc_active d = Some x" "\<not> transfer_is_complete x" "issued_requests x = []"
  shows "\<exists>r d'. dma_request d = (Some r, d')"
proof (cases "ready_writes x")
  case Nil
  then have "remaining_words x \<noteq> 0" using assms by (simp add: transfer_is_complete_def)
  then have "remaining_words x > 0" by (simp add: word_greater_zero_iff)
  then show ?thesis
    using assms Nil by (simp add: dma_request_def buffered_read_bursts_def masks Let_def)
next
  case (Cons w ws)
  then show ?thesis using assms(1) by (simp add: dma_request_def issue_write_def Let_def)
qed

lemma dma_progress:
  assumes "dma_inv s t L m0 (d, q, m)" "dc_active d = Some x"
  shows "\<exists>c. dma_step (d, q, m) c"
proof (cases q)
  case Nil
  then have "issued_requests x = []" "\<not> transfer_is_complete x"
    using assms by (auto simp: dma_inv_def transfer_inv_def)
  then show ?thesis using dma_request_some [OF assms(2)] Nil dma_step.issue by metis
next
  case (Cons e q')
  obtain r res where e: "e = (r, res)" by (cases e)
  show ?thesis
  proof (cases res)
    case None
    obtain resp m' where "memory_effect r m = (resp, m')" by (cases "memory_effect r m")
    from dma_step.perform [OF this, of d "[]" q'] show ?thesis using Cons e None by auto
  next
    case (Some resp)
    then show ?thesis using Cons e dma_step.respond by blast
  qed
qed

lemma start_inv:
  assumes "\<not> dc_is_busy d" "length_words d \<noteq> 0"
  shows "dma_inv (ucast (dc_source d)) (ucast (dc_destination d)) (unat (length_words d)) m0
      (start_transfer d, [], m0) \<and>
    dma_work (start_transfer d, [], m0) = 6 * unat (length_words d)"
  using assms
  by (auto simp: start_transfer_def dc_is_busy_def dma_inv_def dma_work_def transfer_inv_def
      transfer_is_complete_def at_byte_def Let_def)

text \<open>
  C8. A DMA transfer copies its source region to its destination, whatever the interleaving. Start
  an idle engine with a non-zero length and non-overlapping regions. However its requests are
  issued, take effect and are answered, a run has at most six steps per word; and a run that cannot
  be continued has ended with the done flag and no error, with the destination holding the bytes
  the source had at the start, every other byte unchanged, and the transferred-words register
  equal to the length.
\<close>

theorem dma_copies:
  fixes d :: dma_controller and m0 :: byte_map
  defines "s \<equiv> ucast (dc_source d)" and "t \<equiv> ucast (dc_destination d)" and "L \<equiv> unat (length_words d)"
  assumes "\<not> dc_is_busy d" "length_words d \<noteq> 0" "regions_ok s t L"
    and "dma_run n (start_transfer d, [], m0) (d', q, m)"
  shows "n \<le> 6 * L \<and>
    ((\<nexists>c. dma_step (d', q, m) c) \<longrightarrow>
       dc_done d' \<and> \<not> dc_error d' \<and> \<not> dc_is_busy d' \<and> unat (transferred_words d') = L \<and>
       (\<forall>j < L. \<forall>c < 4. m (t + of_nat (4 * j + c)) = m0 (s + of_nat (4 * j + c))) \<and>
       (\<forall>a. (\<forall>i < 4 * L. a \<noteq> t + of_nat i) \<longrightarrow> m a = m0 a))"
proof -
  have inv: "dma_inv s t L m0 (d', q, m)" "dma_work (d', q, m) + n \<le> 6 * L"
    using dma_run_inv [OF assms(6,7)] start_inv [OF assms(4,5)] by (auto simp: s_def t_def L_def)
  moreover have "dc_active d' = None" if "\<nexists>c. dma_step (d', q, m) c"
    using dma_progress [OF inv(1)] that by (cases "dc_active d'") auto
  ultimately show ?thesis
    by (auto simp: dma_inv_def dc_is_busy_def copied_def at_byte_def outside_def)
qed

text \<open>A transfer of one word, through its six steps.\<close>

definition sample_dma :: dma_controller where
  "sample_dma = (dma_controller_new 0x5000)\<lparr>dc_source := 0x100, dc_destination := 0x200, length_words := 1\<rparr>"

definition sample_memory :: byte_map where
  "sample_memory = (\<lambda>a. ucast a)"

definition sample_read :: "dma_controller" where
  "sample_read = snd (dma_request (start_transfer sample_dma))"

definition sample_filled :: "dma_controller" where
  "sample_filled = dma_on_response (Inr (MasterWords (read_words_of sample_memory 0x100 1))) sample_read"

definition sample_write :: "dma_controller" where
  "sample_write = snd (dma_request sample_filled)"

definition sample_written :: byte_map where
  "sample_written = write_bytes sample_memory 0x200 (bytes_of (read_words_of sample_memory 0x100 1))"

lemmas sample_dma_defs = sample_dma_def sample_read_def sample_filled_def sample_write_def
  dma_controller_new_def start_transfer_def dc_is_busy_def dma_request_def dma_on_response_def
  issue_write_def buffered_read_bursts_def transfer_is_complete_def burst_words_def masks

lemma sample_run:
  "dma_run 6 (start_transfer sample_dma, [], sample_memory)
     (dma_on_response (Inr (MasterWritten 1)) sample_write, [], sample_written)"
proof -
  let ?ws = "read_words_of sample_memory 0x100 1"
  let ?rd = "MasterReadWords 0x100 1" and ?wr = "MasterWriteWords 0x200 ?ws"
  have s1: "dma_step (start_transfer sample_dma, [], sample_memory) (sample_read, [] @ [(?rd, None)], sample_memory)"
    by (rule dma_step.issue) (simp add: sample_dma_defs Let_def)
  have s2: "dma_step (sample_read, [] @ [(?rd, None)], sample_memory)
      (sample_read, [] @ [(?rd, Some (MasterWords ?ws))], sample_memory)"
    by (rule dma_step.perform) simp
  have s3: "dma_step (sample_read, [] @ [(?rd, Some (MasterWords ?ws))], sample_memory)
      (sample_filled, [], sample_memory)"
    unfolding sample_filled_def append_Nil by (rule dma_step.respond)
  have s4: "dma_step (sample_filled, [], sample_memory) (sample_write, [] @ [(?wr, None)], sample_memory)"
    by (rule dma_step.issue) (simp add: sample_dma_defs Let_def)
  have s5: "dma_step (sample_write, [] @ [(?wr, None)], sample_memory)
      (sample_write, [] @ [(?wr, Some (MasterWritten 1))], sample_written)"
    by (rule dma_step.perform) (simp add: sample_written_def)
  have s6: "dma_step (sample_write, [] @ [(?wr, Some (MasterWritten 1))], sample_written)
      (dma_on_response (Inr (MasterWritten 1)) sample_write, [], sample_written)"
    unfolding append_Nil by (rule dma_step.respond)
  show ?thesis
    using run_step [OF run_step [OF run_step [OF run_step [OF run_step [OF run_step [OF run_none
      s1] s2] s3] s4] s5] s6] by (simp add: numeral_eq_Suc)
qed

lemma dma_copies_witness:
  "6 \<le> 6 * unat (length_words sample_dma) \<and> sample_written 0x203 = sample_memory 0x103"
proof -
  have idle: "\<not> dc_is_busy sample_dma" "length_words sample_dma \<noteq> 0"
    by (simp_all add: sample_dma_def dma_controller_new_def dc_is_busy_def)
  have "regions_ok (ucast (dc_source sample_dma)) (ucast (dc_destination sample_dma))
      (unat (length_words sample_dma))"
    by (rule regions_okI) (simp_all add: sample_dma_def dma_controller_new_def)
  note c = dma_copies [OF idle this sample_run]
  have f: "dma_on_response (Inr (MasterWritten 1)) sample_write =
      sample_dma\<lparr>transferred_words := 1, dc_done := True, dc_active := None\<rparr>"
    by (simp add: sample_dma_defs Let_def read_words_of_def)
  have "\<nexists>c. dma_step (dma_on_response (Inr (MasterWritten 1)) sample_write, [], sample_written) c"
    unfolding f by (auto elim!: dma_stepE simp: dma_request_def)
  with c have "\<forall>j < 1. \<forall>c < 4. sample_written (0x200 + of_nat (4 * j + c)) =
      sample_memory (0x100 + of_nat (4 * j + c))" "6 \<le> 6 * unat (length_words sample_dma)"
    by (simp_all add: sample_dma_def dma_controller_new_def)
  from this(1) [rule_format, of 0 3] this(2) show ?thesis by simp
qed

end
