(* ===== verification/Machine.thy ===== *)
theory Machine
  imports Pipeline_Core Reference_Core
begin

text \<open>
  The clock and the machine (\<open>crates/system/src/clock.rs\<close> and \<open>machine.rs\<close>): one processor and one
  bus, advanced together. The trait \<open>Processor\<close> is the locale \<open>processor\<close>, whose contract is that
  a cycle on a bus in its invariant neither panics nor fails; its lemmas say what a machine does
  over any number of cycles. Both cores are interpretations for every safe bus.
\<close>

definition clock_tick :: "u64 \<Rightarrow> u64" where
  "clock_tick cycle = cycle + 1"

record ('c, 'b) machine_state =
  ms_clock :: u64
  ms_cpu :: 'c
  ms_bus :: 'b

definition machine_new :: "'c \<Rightarrow> 'b \<Rightarrow> ('c, 'b) machine_state" where
  "machine_new cpu b = \<lparr>ms_clock = 0, ms_cpu = cpu, ms_bus = b\<rparr>"

type_synonym ('c, 'b, 'e) cpu_step = "'c \<times> 'b \<Rightarrow> ('e + cpu_cycle, 'c \<times> 'b) outcome"

definition machine_reset ::
  "('b, 'z) bus_ops_scheme \<Rightarrow> ('c \<Rightarrow> 'c) \<Rightarrow> ('c, 'b) machine_state \<Rightarrow> ('c, 'b) machine_state option" where
  "machine_reset ops cpu_reset m =
     map_option (\<lambda>(_, b). m\<lparr>ms_clock := 0, ms_bus := b, ms_cpu := cpu_reset (ms_cpu m)\<rparr>)
       (bus_reset ops (ms_bus m))"

definition machine_step_cycle ::
  "('b, 'z) bus_ops_scheme \<Rightarrow> ('c, 'b, 'e) cpu_step \<Rightarrow> ('c, 'b) machine_state \<Rightarrow>
   ('e + cpu_cycle, ('c, 'b) machine_state) outcome" where
  "machine_step_cycle ops step m =
     (case bus_tick ops (ms_bus m) of
        None \<Rightarrow> None
      | Some (_, b) \<Rightarrow>
          (case step (ms_cpu m, b) of
             None \<Rightarrow> None
           | Some (Inl e, (c, b)) \<Rightarrow> Some (Inl e, m\<lparr>ms_cpu := c, ms_bus := b\<rparr>)
           | Some (Inr r, (c, b)) \<Rightarrow>
               Some (Inr r, m\<lparr>ms_clock := clock_tick (ms_clock m), ms_cpu := c, ms_bus := b\<rparr>)))"

fun run_cycles ::
  "('b, 'z) bus_ops_scheme \<Rightarrow> ('c, 'b, 'e) cpu_step \<Rightarrow> nat \<Rightarrow> ('c, 'b) machine_state \<Rightarrow>
   ('e + cpu_cycle list, ('c, 'b) machine_state) outcome" where
  "run_cycles ops step 0 m = Some (Inr [], m)"
| "run_cycles ops step (Suc n) m =
     and_then (machine_step_cycle ops step m) (\<lambda>r m.
     and_then (run_cycles ops step n m) (\<lambda>rs m. Some (Inr (r # rs), m)))"

subsection \<open>The contract of a processor\<close>

locale processor = bus_safe ops binv
  for ops :: "('b, 'z) bus_ops_scheme" and binv :: "'b \<Rightarrow> bool" +
  fixes step :: "('c, 'b, 'e) cpu_step"
    and reset_cpu :: "'c \<Rightarrow> 'c"
    and cinv :: "'c \<Rightarrow> bool"
  assumes step_safe: "cinv c \<Longrightarrow> binv b \<Longrightarrow>
      wp (step (c, b)) (\<lambda>r st. cinv (fst st) \<and> binv (snd st) \<and>
        (\<exists>rep. r = Inr rep \<and> retired_instructions rep \<le> 1))"
    and reset_safe_cpu: "cinv c \<Longrightarrow> cinv (reset_cpu c)"
begin

lemma machine_step_safe:
  assumes "cinv (ms_cpu m)" "binv (ms_bus m)"
  shows "\<exists>rep m'. machine_step_cycle ops step m = Some (Inr rep, m') \<and> retired_instructions rep \<le> 1 \<and>
    ms_clock m' = ms_clock m + 1 \<and> cinv (ms_cpu m') \<and> binv (ms_bus m')"
proof -
  obtain u b where b: "bus_tick ops (ms_bus m) = Some (u, b)" "binv b"
    using tick_safe [OF assms(2)] by (auto elim: wp_elim)
  obtain rep c b' where "step (ms_cpu m, b) = Some (Inr rep, (c, b'))" "cinv c" "binv b'"
      "retired_instructions rep \<le> 1"
    using step_safe [OF assms(1) b(2)] by (auto elim!: wp_elim)
  then show ?thesis using b by (simp add: machine_step_cycle_def clock_tick_def)
qed

lemma run_cycles_safe:
  "cinv (ms_cpu m) \<Longrightarrow> binv (ms_bus m) \<Longrightarrow>
     \<exists>reps m'. run_cycles ops step n m = Some (Inr reps, m') \<and> length reps = n \<and>
       (\<forall>rep \<in> set reps. retired_instructions rep \<le> 1) \<and> ms_clock m' = ms_clock m + of_nat n \<and>
       cinv (ms_cpu m') \<and> binv (ms_bus m')"
proof (induction n arbitrary: m)
  case (Suc n)
  obtain rep m1 where m1: "machine_step_cycle ops step m = Some (Inr rep, m1)" "retired_instructions rep \<le> 1"
      "ms_clock m1 = ms_clock m + 1" "cinv (ms_cpu m1)" "binv (ms_bus m1)"
    using machine_step_safe [OF Suc.prems] by blast
  obtain reps m2 where "run_cycles ops step n m1 = Some (Inr reps, m2)" "length reps = n"
      "\<forall>rep \<in> set reps. retired_instructions rep \<le> 1" "ms_clock m2 = ms_clock m1 + of_nat n"
      "cinv (ms_cpu m2)" "binv (ms_bus m2)"
    using Suc.IH [OF m1(4,5)] by blast
  then show ?case using m1 by (auto simp: add.assoc)
qed simp

lemma machine_reset_safe:
  assumes "cinv (ms_cpu m)" "binv (ms_bus m)"
  shows "\<exists>m'. machine_reset ops reset_cpu m = Some m' \<and> ms_clock m' = 0 \<and> cinv (ms_cpu m') \<and> binv (ms_bus m')"
  using reset_safe [OF assms(2)] reset_safe_cpu [OF assms(1)] by (auto simp: machine_reset_def elim!: wp_elim)

end

text \<open>Both cores are processors on every safe bus.\<close>

context bus_safe begin

lemma reference_processor: "processor ops binv (reference_step ops) reference_reset reference_ok"
proof
  fix c and b :: 'b
  assume "reference_ok c" "binv b"
  from reference_step_post [OF this]
  show "wp (reference_step ops (c, b)) (\<lambda>r st. reference_ok (fst st) \<and> binv (snd st) \<and>
      (\<exists>rep. r = Inr rep \<and> retired_instructions rep \<le> 1))"
    by (rule wp_mono) (auto simp: reference_post_def)
qed (rule reference_ok_reset)

lemma pipeline_processor: "processor ops binv (pipeline_step ops) pipeline_reset pipeline_ok"
proof
  fix c and b :: 'b
  assume "pipeline_ok c" "binv b"
  from pipeline_step_post [OF this]
  show "wp (pipeline_step ops (c, b)) (\<lambda>r st. pipeline_ok (fst st) \<and> binv (snd st) \<and>
      (\<exists>rep. r = Inr rep \<and> retired_instructions rep \<le> 1))"
    by fastforce
next
  fix c
  assume "pipeline_ok c"
  then show "pipeline_ok (pipeline_reset c)"
    by (simp add: pipeline_ok_def pipeline_reset_def hart_ok_reset walker_ok_reset latches_ok_default)
qed

end

end
