(* ===== verification/Memory_Map.thy ===== *)
theory Memory_Map
  imports Bus
begin

text \<open>
  The address-decoded bus (\<open>crates/system/src/memory_map.rs\<close>): mapping devices, split transactions
  and bursts with their phases, and the compatibility path that turns a blocking \<open>load\<close> or
  \<open>store\<close> into one transaction that is polled until it completes. A \<open>Box<dyn Addressable>\<close> is a
  value of the device type \<open>'d\<close>, whose methods are the record \<open>dev\<close>.

  \<open>Rc<RefCell<..>>\<close> sharing of a device between the map and its owner is not modelled: a device
  is owned by its slot. Iteration over a length that is fixed before the loop is \<open>each_index\<close>.
\<close>

record 'd device_slot =
  slot_range :: address_range
  slot_name :: string
  slot_device :: 'd

record active_transaction =
  at_id :: u64
  at_device_index :: nat
  at_request :: transaction_request
  at_phase :: transaction_phase

record active_burst =
  ab_id :: u64
  ab_device_index :: nat
  ab_request :: burst_request
  ab_beat_index :: nat
  ab_read_words :: "u32 list"
  ab_phase :: burst_phase

record compat_transaction =
  ct_id :: u64
  ct_request :: transaction_request

datatype beat_advance = BeatPhase burst_phase | BeatCompleted "u32 option" | BeatFailed bus_error

record 'd memory_map =
  mm_devices :: "'d device_slot list"
  mm_active_transactions :: "active_transaction list"
  mm_active_bursts :: "active_burst list"
  mm_compat_transaction :: "compat_transaction option"
  mm_next_transaction_id :: u64

definition memory_map_new :: "'d memory_map" where
  "memory_map_new =
     \<lparr>mm_devices = [], mm_active_transactions = [], mm_active_bursts = [],
      mm_compat_transaction = None, mm_next_transaction_id = 0\<rparr>"

subsection \<open>Mapping devices\<close>

fun ensure_range_available :: "address_range \<Rightarrow> string \<Rightarrow> 'd device_slot list \<Rightarrow> bus_error + unit" where
  "ensure_range_available r name [] = Inr ()"
| "ensure_range_available r name (slot # slots) =
     (if range_overlaps (slot_range slot) r
      then Inl (DeviceFault (range_start r) (''device '' @ name @ '' overlaps with '' @ slot_name slot))
      else ensure_range_available r name slots)"

definition map_device :: "('d, 'z) addressable_scheme \<Rightarrow> 'd \<Rightarrow> 'd memory_map \<Rightarrow> (bus_error + unit) \<times> 'd memory_map" where
  "map_device dev d m =
     (let r = ad_range dev d; name = ad_name dev d in
      case ensure_range_available r name (mm_devices m) of
        Inl e \<Rightarrow> (Inl e, m)
      | Inr _ \<Rightarrow>
          (Inr (), m\<lparr>mm_devices := mm_devices m @
             [\<lparr>slot_range = r, slot_name = name, slot_device = d\<rparr>]\<rparr>))"

definition mm_reset :: "('d, 'z) addressable_scheme \<Rightarrow> 'd memory_map \<Rightarrow> 'd memory_map" where
  "mm_reset dev m =
     m\<lparr>mm_active_transactions := [], mm_active_bursts := [], mm_compat_transaction := None,
       mm_next_transaction_id := 0,
       mm_devices := map (\<lambda>s. s\<lparr>slot_device := ad_reset dev (slot_device s)\<rparr>) (mm_devices m)\<rparr>"

definition find_device_index :: "u64 \<Rightarrow> 'd memory_map \<Rightarrow> nat option" where
  "find_device_index a m = position (\<lambda>s. range_contains (slot_range s) a) (mm_devices m)"

subsection \<open>Accesses to one device\<close>

definition on_device ::
  "nat \<Rightarrow> ('d \<Rightarrow> ('a, 'd) outcome) \<Rightarrow> 'd memory_map \<Rightarrow> ('a, 'd memory_map) outcome" where
  "on_device i f m =
     (case idx (mm_devices m) i of
        None \<Rightarrow> None
      | Some s \<Rightarrow>
          (case f (slot_device s) of
             None \<Rightarrow> None
           | Some (r, d) \<Rightarrow> Some (r, m\<lparr>mm_devices := (mm_devices m)[i := s\<lparr>slot_device := d\<rparr>]\<rparr>)))"

fun load_bytes ::
  "('d, 'z) addressable_scheme \<Rightarrow> nat \<Rightarrow> u64 \<Rightarrow> nat \<Rightarrow> ('d memory_map, u8 list) bus_call" where
  "load_bytes dev i a 0 m = Some (Inr [], m)"
| "load_bytes dev i a (Suc n) m =
     and_then (on_device i (ad_load8 dev a) m) (\<lambda>v m.
     and_then (load_bytes dev i (a + 1) n m) (\<lambda>vs m. Some (Inr (v # vs), m)))"

fun store_bytes ::
  "('d, 'z) addressable_scheme \<Rightarrow> nat \<Rightarrow> u64 \<Rightarrow> u8 list \<Rightarrow> ('d memory_map, unit) bus_call" where
  "store_bytes dev i a [] m = Some (Inr (), m)"
| "store_bytes dev i a (v # vs) m =
     and_then (on_device i (ad_store8 dev a v) m) (\<lambda>_ m. store_bytes dev i (a + 1) vs m)"

fun debug_access_kind :: "access_kind \<Rightarrow> string" where
  "debug_access_kind Fetch = ''Fetch''"
| "debug_access_kind LoadAccess = ''Load''"
| "debug_access_kind StoreAccess = ''Store''"

text \<open>A response holds four bytes whatever its width; the unused ones are zero.\<close>

definition execute_request ::
  "('d, 'z) addressable_scheme \<Rightarrow> nat \<Rightarrow> transaction_request \<Rightarrow> ('d memory_map, transaction_response) bus_call" where
  "execute_request dev i r m =
     (let a = tr_addr r; k = tr_kind r; w = tr_width r; data = tr_write_data r in
      if (k = Fetch \<or> k = LoadAccess) \<and> w = 4 then
        and_then (load_bytes dev i a 4 m) (\<lambda>bs m. Some (Inr (ReadData bs 4), m))
      else if k = LoadAccess \<and> w = 2 then
        and_then (load_bytes dev i a 2 m) (\<lambda>bs m. Some (Inr (ReadData (bs @ [0, 0]) 2), m))
      else if k = LoadAccess \<and> w = 1 then
        and_then (on_device i (ad_load8 dev a) m) (\<lambda>v m. Some (Inr (ReadData [v, 0, 0, 0] 1), m))
      else if k = StoreAccess \<and> w = 4 then
        and_then (store_bytes dev i a data m) (\<lambda>_ m. Some (Inr WriteComplete, m))
      else if k = StoreAccess \<and> w = 2 then
        and_then (store_bytes dev i a [data ! 0, data ! 1] m) (\<lambda>_ m. Some (Inr WriteComplete, m))
      else if k = StoreAccess \<and> w = 1 then
        and_then (on_device i (ad_store8 dev a (data ! 0)) m) (\<lambda>_ m. Some (Inr WriteComplete, m))
      else
        Some (Inl (DeviceFault a (''unsupported transaction '' @ debug_access_kind k @ '' width '' @
          show_nat w)), m))"

definition execute_burst_beat ::
  "('d, 'z) addressable_scheme \<Rightarrow> nat \<Rightarrow> burst_request \<Rightarrow> nat \<Rightarrow> ('d memory_map, u32 option) bus_call" where
  "execute_burst_beat dev i r beat m =
     (let a = beat_addr r beat in
      case r of
        BurstRead _ _ _ \<Rightarrow>
          and_then (load_bytes dev i a 4 m) (\<lambda>bs m. Some (Inr (Some (from_le32_list bs)), m))
      | BurstWrite _ ws \<Rightarrow>
          (case idx ws beat of
             None \<Rightarrow> None
           | Some v \<Rightarrow> and_then (store_bytes dev i a (le_bytes32 v) m) (\<lambda>_ m. Some (Inr None, m))))"

subsection \<open>Transactions\<close>

fun transaction_remaining_cycles :: "transaction_phase \<Rightarrow> u32" where
  "transaction_remaining_cycles (TrInFlight n) = n"
| "transaction_remaining_cycles TrAccepted = 1"
| "transaction_remaining_cycles (TrReady _) = 1"
| "transaction_remaining_cycles (TrFailed _) = 1"

definition transaction_index :: "u64 \<Rightarrow> 'd memory_map \<Rightarrow> nat option" where
  "transaction_index i m = position (\<lambda>t. at_id t = i) (mm_active_transactions m)"

definition mm_transaction_phase :: "'d memory_map \<Rightarrow> u64 \<Rightarrow> transaction_phase option" where
  "mm_transaction_phase m i =
     map_option (\<lambda>k. at_phase (mm_active_transactions m ! k)) (transaction_index i m)"

definition compat_remaining_cycles :: "'d memory_map \<Rightarrow> u32" where
  "compat_remaining_cycles m =
     (case mm_compat_transaction m of
        None \<Rightarrow> 0
      | Some c \<Rightarrow>
          (case mm_transaction_phase m (ct_id c) of
             None \<Rightarrow> 0 | Some p \<Rightarrow> transaction_remaining_cycles p))"

definition latency_of ::
  "('d, 'z) addressable_scheme \<Rightarrow> nat \<Rightarrow> u64 \<Rightarrow> access_kind \<Rightarrow> nat \<Rightarrow> 'd memory_map \<Rightarrow> (u32, 'd memory_map) outcome" where
  "latency_of dev i a k w m = on_device i (\<lambda>d. Some (ad_access_latency dev a k w d)) m"

text \<open>The \<open>match\<close> on the result of \<open>execute_request\<close>: \<open>Ready\<close> or \<open>Failed\<close>.\<close>

definition finish_request ::
  "('d, 'z) addressable_scheme \<Rightarrow> nat \<Rightarrow> transaction_request \<Rightarrow> 'd memory_map \<Rightarrow> (transaction_phase, 'd memory_map) outcome" where
  "finish_request dev i r m =
     (case execute_request dev i r m of
        None \<Rightarrow> None
      | Some (Inr resp, m) \<Rightarrow> Some (TrReady resp, m)
      | Some (Inl e, m) \<Rightarrow> Some (TrFailed e, m))"

definition next_transaction_phase ::
  "('d, 'z) addressable_scheme \<Rightarrow> active_transaction \<Rightarrow> 'd memory_map \<Rightarrow> (transaction_phase, 'd memory_map) outcome" where
  "next_transaction_phase dev t m =
     (let i = at_device_index t; r = at_request t in
      case at_phase t of
        TrAccepted \<Rightarrow>
          (case latency_of dev i (tr_addr r) (tr_kind r) (tr_width r) m of
             None \<Rightarrow> None
           | Some (latency, m) \<Rightarrow>
               if latency = 0 then finish_request dev i r m else Some (TrInFlight latency, m))
      | TrInFlight n \<Rightarrow> if n > 1 then Some (TrInFlight (n - 1), m) else finish_request dev i r m
      | p \<Rightarrow> Some (p, m))"

definition advance_transaction_at ::
  "('d, 'z) addressable_scheme \<Rightarrow> nat \<Rightarrow> 'd memory_map \<Rightarrow> (unit, 'd memory_map) outcome" where
  "advance_transaction_at dev k m =
     (case idx (mm_active_transactions m) k of
        None \<Rightarrow> Some ((), m)
      | Some t \<Rightarrow>
          (case next_transaction_phase dev t m of
             None \<Rightarrow> None
           | Some (p, m) \<Rightarrow>
               Some ((), m\<lparr>mm_active_transactions :=
                 (mm_active_transactions m)[k := t\<lparr>at_phase := p\<rparr>]\<rparr>)))"

definition mm_submit_transaction :: "transaction_request \<Rightarrow> ('d memory_map, u64) bus_call" where
  "mm_submit_transaction r m =
     (case find_device_index (tr_addr r) m of
        None \<Rightarrow> Some (Inl (UnmappedAddress (tr_addr r)), m)
      | Some i \<Rightarrow>
          (let tid = mm_next_transaction_id m in
           Some (Inr tid, m\<lparr>mm_next_transaction_id := tid + 1,
             mm_active_transactions := mm_active_transactions m @
               [\<lparr>at_id = tid, at_device_index = i, at_request = r, at_phase = TrAccepted\<rparr>]\<rparr>)))"

definition mm_advance_transaction ::
  "('d, 'z) addressable_scheme \<Rightarrow> u64 \<Rightarrow> 'd memory_map \<Rightarrow> (transaction_phase option, 'd memory_map) outcome" where
  "mm_advance_transaction dev i m =
     (case transaction_index i m of
        None \<Rightarrow> Some (None, m)
      | Some k \<Rightarrow>
          (case advance_transaction_at dev k m of
             None \<Rightarrow> None
           | Some (_, m) \<Rightarrow> Some (mm_transaction_phase m i, m)))"

text \<open>\<open>Vec::swap_remove\<close>: the last element takes the place of the removed one.\<close>

definition swap_remove :: "nat \<Rightarrow> 'a list \<Rightarrow> 'a list" where
  "swap_remove k xs = butlast (xs[k := last xs])"

definition clear_compat_if_matches :: "u64 \<Rightarrow> 'd memory_map \<Rightarrow> 'd memory_map" where
  "clear_compat_if_matches i m =
     (case mm_compat_transaction m of
        Some c \<Rightarrow> if ct_id c = i then m\<lparr>mm_compat_transaction := None\<rparr> else m
      | None \<Rightarrow> m)"

definition mm_take_transaction_response ::
  "u64 \<Rightarrow> 'd memory_map \<Rightarrow> ((bus_error + transaction_response) option, 'd memory_map) outcome" where
  "mm_take_transaction_response i m =
     (case transaction_index i m of
        None \<Rightarrow> Some (None, m)
      | Some k \<Rightarrow>
          (let removed = clear_compat_if_matches i
             (m\<lparr>mm_active_transactions := swap_remove k (mm_active_transactions m)\<rparr>)
           in case at_phase (mm_active_transactions m ! k) of
                TrReady resp \<Rightarrow> Some (Some (Inr resp), removed)
              | TrFailed e \<Rightarrow> Some (Some (Inl e), removed)
              | _ \<Rightarrow> Some (None, m)))"

subsection \<open>The blocking path\<close>

definition busy_compat :: "'d memory_map \<Rightarrow> bus_error" where
  "busy_compat m = Busy (max (compat_remaining_cycles m) 1)"

text \<open>The second half of \<open>perform_request\<close>: advance an accepted transaction, then poll it.\<close>

definition poll_compat ::
  "('d, 'z) addressable_scheme \<Rightarrow> ('d memory_map, transaction_response) bus_call" where
  "poll_compat dev m =
     (case mm_compat_transaction m of
        None \<Rightarrow> None
      | Some c \<Rightarrow>
          (case (if mm_transaction_phase m (ct_id c) = Some TrAccepted
                 then map_option snd (mm_advance_transaction dev (ct_id c) m) else Some m) of
             None \<Rightarrow> None
           | Some m \<Rightarrow>
               (case mm_take_transaction_response (ct_id c) m of
                  None \<Rightarrow> None
                | Some (Some r, m) \<Rightarrow> Some (r, m\<lparr>mm_compat_transaction := None\<rparr>)
                | Some (None, m) \<Rightarrow> Some (Inl (busy_compat m), m))))"

definition perform_request ::
  "('d, 'z) addressable_scheme \<Rightarrow> transaction_request \<Rightarrow> ('d memory_map, transaction_response) bus_call" where
  "perform_request dev r m =
     (case mm_compat_transaction m of
        Some c \<Rightarrow>
          (if ct_request c \<noteq> r then Some (Inl (busy_compat m), m)
           else if mm_transaction_phase m (ct_id c) = None
           then poll_compat dev (m\<lparr>mm_compat_transaction := None\<rparr>)
           else poll_compat dev m)
      | None \<Rightarrow>
          and_then (mm_submit_transaction r m) (\<lambda>tid m.
            poll_compat dev (m\<lparr>mm_compat_transaction := Some \<lparr>ct_id = tid, ct_request = r\<rparr>\<rparr>)))"

definition expect_read ::
  "nat \<Rightarrow> (u8 list \<Rightarrow> 'a) \<Rightarrow> (bus_error + transaction_response, 'd memory_map) outcome \<Rightarrow>
   (bus_error + 'a, 'd memory_map) outcome" where
  "expect_read w f res =
     and_then res (\<lambda>resp m.
       (case resp of
          ReadData bs w' \<Rightarrow> if w' = w then Some (Inr (f bs), m) else None
        | WriteComplete \<Rightarrow> None))"

definition mm_fetch32 :: "('d, 'z) addressable_scheme \<Rightarrow> u64 \<Rightarrow> ('d memory_map, u32) bus_call" where
  "mm_fetch32 dev a m =
     (if a mod 4 \<noteq> 0 then Some (Inl (MisalignedAccess a 4), m)
      else expect_read 4 from_le32_list (perform_request dev (fetch32_request a) m))"

definition mm_load8 :: "('d, 'z) addressable_scheme \<Rightarrow> u64 \<Rightarrow> ('d memory_map, u8) bus_call" where
  "mm_load8 dev a m = expect_read 1 (\<lambda>bs. bs ! 0) (perform_request dev (load_request a 1) m)"

definition mm_store8 :: "('d, 'z) addressable_scheme \<Rightarrow> u64 \<Rightarrow> u8 \<Rightarrow> ('d memory_map, unit) bus_call" where
  "mm_store8 dev a v m =
     and_then (perform_request dev (store_request a 1 [v, 0, 0, 0]) m) (\<lambda>_ m. Some (Inr (), m))"

definition mm_load16 :: "('d, 'z) addressable_scheme \<Rightarrow> u64 \<Rightarrow> ('d memory_map, u16) bus_call" where
  "mm_load16 dev a m =
     (if a mod 2 \<noteq> 0 then Some (Inl (MisalignedAccess a 2), m)
      else expect_read 2 (\<lambda>bs. from_le16 (bs ! 0) (bs ! 1)) (perform_request dev (load_request a 2) m))"

definition mm_load32 :: "('d, 'z) addressable_scheme \<Rightarrow> u64 \<Rightarrow> ('d memory_map, u32) bus_call" where
  "mm_load32 dev a m =
     (if a mod 4 \<noteq> 0 then Some (Inl (MisalignedAccess a 4), m)
      else expect_read 4 from_le32_list (perform_request dev (load_request a 4) m))"

definition mm_store16 :: "('d, 'z) addressable_scheme \<Rightarrow> u64 \<Rightarrow> u16 \<Rightarrow> ('d memory_map, unit) bus_call" where
  "mm_store16 dev a v m =
     (if a mod 2 \<noteq> 0 then Some (Inl (MisalignedAccess a 2), m)
      else and_then (perform_request dev (store_request a 2 (le_bytes16 v @ [0, 0])) m)
             (\<lambda>_ m. Some (Inr (), m)))"

definition mm_store32 :: "('d, 'z) addressable_scheme \<Rightarrow> u64 \<Rightarrow> u32 \<Rightarrow> ('d memory_map, unit) bus_call" where
  "mm_store32 dev a v m =
     (if a mod 4 \<noteq> 0 then Some (Inl (MisalignedAccess a 4), m)
      else and_then (perform_request dev (store_request a 4 (le_bytes32 v)) m)
             (\<lambda>_ m. Some (Inr (), m)))"

subsection \<open>Bursts\<close>

definition burst_index :: "u64 \<Rightarrow> 'd memory_map \<Rightarrow> nat option" where
  "burst_index i m = position (\<lambda>b. ab_id b = i) (mm_active_bursts m)"

definition mm_burst_phase :: "'d memory_map \<Rightarrow> u64 \<Rightarrow> burst_phase option" where
  "mm_burst_phase m i = map_option (\<lambda>k. ab_phase (mm_active_bursts m ! k)) (burst_index i m)"

definition finish_beat ::
  "('d, 'z) addressable_scheme \<Rightarrow> active_burst \<Rightarrow> 'd memory_map \<Rightarrow> (beat_advance, 'd memory_map) outcome" where
  "finish_beat dev b m =
     (case execute_burst_beat dev (ab_device_index b) (ab_request b) (ab_beat_index b) m of
        None \<Rightarrow> None
      | Some (Inr w, m) \<Rightarrow> Some (BeatCompleted w, m)
      | Some (Inl e, m) \<Rightarrow> Some (BeatFailed e, m))"

definition next_beat ::
  "('d, 'z) addressable_scheme \<Rightarrow> active_burst \<Rightarrow> 'd memory_map \<Rightarrow> (beat_advance, 'd memory_map) outcome" where
  "next_beat dev b m =
     (let r = ab_request b; beat = ab_beat_index b; total = beats r in
      case ab_phase b of
        BuAccepted _ _ \<Rightarrow>
          (case latency_of dev (ab_device_index b) (beat_addr r beat) (beat_kind r) 4 m of
             None \<Rightarrow> None
           | Some (latency, m) \<Rightarrow>
               if latency = 0 then finish_beat dev b m
               else Some (BeatPhase (BuInFlight beat total latency), m))
      | BuInFlight _ _ n \<Rightarrow>
          if n > 1 then Some (BeatPhase (BuInFlight beat total (n - 1)), m) else finish_beat dev b m
      | p \<Rightarrow> Some (BeatPhase p, m))"

definition apply_beat :: "beat_advance \<Rightarrow> active_burst \<Rightarrow> active_burst option" where
  "apply_beat adv b =
     (case adv of
        BeatPhase p \<Rightarrow> Some (b\<lparr>ab_phase := p\<rparr>)
      | BeatFailed e \<Rightarrow> Some (b\<lparr>ab_phase := BuFailed e\<rparr>)
      | BeatCompleted w \<Rightarrow>
          (let beat = ab_beat_index b; total = beats (ab_request b); next = beat + 1 in
           case (case w of None \<Rightarrow> Some (ab_read_words b) | Some v \<Rightarrow> idx_set (ab_read_words b) beat v) of
             None \<Rightarrow> None
           | Some ws \<Rightarrow>
               Some (b\<lparr>ab_read_words := ws, ab_beat_index := next,
                 ab_phase := (if next = total then BuReady total else BuAccepted next total)\<rparr>)))"

definition advance_burst_at ::
  "('d, 'z) addressable_scheme \<Rightarrow> nat \<Rightarrow> 'd memory_map \<Rightarrow> (unit, 'd memory_map) outcome" where
  "advance_burst_at dev k m =
     (case idx (mm_active_bursts m) k of
        None \<Rightarrow> Some ((), m)
      | Some b \<Rightarrow>
          (case next_beat dev b m of
             None \<Rightarrow> None
           | Some (adv, m) \<Rightarrow>
               (case apply_beat adv b of
                  None \<Rightarrow> None
                | Some b' \<Rightarrow> Some ((), m\<lparr>mm_active_bursts := (mm_active_bursts m)[k := b']\<rparr>))))"

text \<open>The first beat after the first one that another device, or none, would serve.\<close>

definition crossing_beat :: "burst_request \<Rightarrow> nat \<Rightarrow> 'd memory_map \<Rightarrow> nat option" where
  "crossing_beat r i m =
     List.find (\<lambda>beat. find_device_index (beat_addr r beat) m \<noteq> Some i) [1..<beats r]"

definition mm_submit_burst :: "burst_request \<Rightarrow> ('d memory_map, u64) bus_call" where
  "mm_submit_burst r m =
     (if beats r = 0 then None
      else
        (case find_device_index (base_addr r) m of
           None \<Rightarrow> Some (Inl (UnmappedAddress (base_addr r)), m)
         | Some i \<Rightarrow>
             (case crossing_beat r i m of
                Some beat \<Rightarrow>
                  Some (Inl (DeviceFault (beat_addr r beat) ''burst crosses device boundary''), m)
              | None \<Rightarrow>
                  (let bid = mm_next_transaction_id m in
                   Some (Inr bid, m\<lparr>mm_next_transaction_id := bid + 1,
                     mm_active_bursts := mm_active_bursts m @
                       [\<lparr>ab_id = bid, ab_device_index = i, ab_request = r, ab_beat_index = 0,
                         ab_read_words = replicate (beats r) 0, ab_phase = BuAccepted 0 (beats r)\<rparr>]\<rparr>)))))"

definition mm_advance_burst ::
  "('d, 'z) addressable_scheme \<Rightarrow> u64 \<Rightarrow> 'd memory_map \<Rightarrow> (burst_phase option, 'd memory_map) outcome" where
  "mm_advance_burst dev i m =
     (case burst_index i m of
        None \<Rightarrow> Some (None, m)
      | Some k \<Rightarrow>
          (case advance_burst_at dev k m of
             None \<Rightarrow> None
           | Some (_, m) \<Rightarrow> Some (mm_burst_phase m i, m)))"

definition mm_take_burst_response ::
  "u64 \<Rightarrow> 'd memory_map \<Rightarrow> ((bus_error + burst_response) option, 'd memory_map) outcome" where
  "mm_take_burst_response i m =
     (case burst_index i m of
        None \<Rightarrow> Some (None, m)
      | Some k \<Rightarrow>
          (let b = mm_active_bursts m ! k;
               removed = m\<lparr>mm_active_bursts := swap_remove k (mm_active_bursts m)\<rparr>
           in case ab_phase b of
                BuReady n \<Rightarrow>
                  Some (Some (Inr (case ab_request b of
                      BurstRead _ _ _ \<Rightarrow> BurstWords (ab_read_words b)
                    | BurstWrite _ _ \<Rightarrow> BurstWritten n)), removed)
              | BuFailed e \<Rightarrow> Some (Some (Inl e), removed)
              | _ \<Rightarrow> Some (None, m)))"

subsection \<open>The clock and the bus interface\<close>

fun tick_slots :: "('d, 'z) addressable_scheme \<Rightarrow> 'd device_slot list \<Rightarrow> 'd device_slot list option" where
  "tick_slots dev [] = Some []"
| "tick_slots dev (s # ss) =
     (case ad_tick dev (slot_device s) of
        None \<Rightarrow> None
      | Some d \<Rightarrow> map_option ((#) (s\<lparr>slot_device := d\<rparr>)) (tick_slots dev ss))"

definition tick_devices :: "('d, 'z) addressable_scheme \<Rightarrow> 'd memory_map \<Rightarrow> 'd memory_map option" where
  "tick_devices dev m = map_option (\<lambda>ss. m\<lparr>mm_devices := ss\<rparr>) (tick_slots dev (mm_devices m))"

definition mm_tick :: "('d, 'z) addressable_scheme \<Rightarrow> 'd memory_map \<Rightarrow> (unit, 'd memory_map) outcome" where
  "mm_tick dev m =
     (case each_index (advance_transaction_at dev) [0..<length (mm_active_transactions m)] m of
        None \<Rightarrow> None
      | Some (_, m) \<Rightarrow>
          (case each_index (advance_burst_at dev) [0..<length (mm_active_bursts m)] m of
             None \<Rightarrow> None
           | Some (_, m) \<Rightarrow> map_option (\<lambda>m. ((), m)) (tick_devices dev m)))"

fun first_time :: "('d, 'z) addressable_scheme \<Rightarrow> 'd device_slot list \<Rightarrow> u64 option" where
  "first_time dev [] = None"
| "first_time dev (s # ss) =
     (case ad_machine_time dev (slot_device s) of Some t \<Rightarrow> Some t | None \<Rightarrow> first_time dev ss)"

definition mm_machine_time :: "('d, 'z) addressable_scheme \<Rightarrow> 'd memory_map \<Rightarrow> u64 option" where
  "mm_machine_time dev m = first_time dev (mm_devices m)"

definition mm_is_busy :: "'d memory_map \<Rightarrow> bool" where
  "mm_is_busy m \<longleftrightarrow> mm_active_transactions m \<noteq> [] \<or> mm_active_bursts m \<noteq> []"

definition mm_pending_interrupts :: "('d, 'z) addressable_scheme \<Rightarrow> 'd memory_map \<Rightarrow> interrupt_set" where
  "mm_pending_interrupts dev m =
     foldl (\<lambda>acc s. union_set acc (ad_pending_interrupts dev (slot_device s))) no_interrupts (mm_devices m)"

definition mm_ops :: "('d, 'z) addressable_scheme \<Rightarrow> ('d memory_map) fabric_ops" where
  "mm_ops dev =
     \<lparr>bus_load8 = mm_load8 dev, bus_store8 = mm_store8 dev, bus_fetch32 = mm_fetch32 dev,
      bus_load16 = mm_load16 dev, bus_load32 = mm_load32 dev, bus_store16 = mm_store16 dev,
      bus_store32 = mm_store32 dev, bus_reset = (\<lambda>m. Some ((), mm_reset dev m)),
      bus_tick = mm_tick dev, bus_machine_time = mm_machine_time dev, bus_is_busy = mm_is_busy,
      bus_pending_interrupts = mm_pending_interrupts dev,
      bus_submit_burst = mm_submit_burst, bus_burst_phase = mm_burst_phase,
      bus_advance_burst = mm_advance_burst dev, bus_take_burst_response = mm_take_burst_response,
      bus_submit_transaction = mm_submit_transaction, bus_transaction_phase = mm_transaction_phase,
      bus_advance_transaction = mm_advance_transaction dev,
      bus_take_transaction_response = mm_take_transaction_response\<rparr>"

subsection \<open>Safety for a single blocking client\<close>

text \<open>
  A processor uses the map through the blocking path only, caches and bus masters through bursts.
  Then at most one transaction is active, it is the one that the compatibility slot names, and
  its response has the shape of its request, so no \<open>expect\<close> or \<open>unreachable!\<close> is reached. A
  burst stays inside its device and its index inside its words.
\<close>

definition response_fits :: "transaction_request \<Rightarrow> transaction_response \<Rightarrow> bool" where
  "response_fits r resp \<longleftrightarrow>
     (case resp of
        ReadData bs w \<Rightarrow> tr_kind r \<noteq> StoreAccess \<and> w = tr_width r \<and> length bs = 4
      | WriteComplete \<Rightarrow> tr_kind r = StoreAccess)"

definition phase_fits :: "transaction_request \<Rightarrow> transaction_phase \<Rightarrow> bool" where
  "phase_fits r p \<longleftrightarrow> (\<forall>resp. p = TrReady resp \<longrightarrow> response_fits r resp)"

text \<open>
  The invariant of a device may depend on the slot it is in; there are at least \<open>slots\<close> slots.
\<close>

definition devices_ok :: "nat \<Rightarrow> (nat \<Rightarrow> 'd \<Rightarrow> bool) \<Rightarrow> 'd memory_map \<Rightarrow> bool" where
  "devices_ok slots dinv m \<longleftrightarrow> slots \<le> length (mm_devices m) \<and>
     (\<forall>k < length (mm_devices m). dinv k (slot_device (mm_devices m ! k)))"

definition burst_fits :: "nat \<Rightarrow> active_burst \<Rightarrow> bool" where
  "burst_fits n b \<longleftrightarrow>
     ab_device_index b < n \<and> length (ab_read_words b) = beats (ab_request b) \<and>
     (case ab_phase b of
        BuAccepted _ _ \<Rightarrow> ab_beat_index b < beats (ab_request b)
      | BuInFlight _ _ _ \<Rightarrow> ab_beat_index b < beats (ab_request b)
      | BuReady k \<Rightarrow> k = beats (ab_request b)
      | BuFailed _ \<Rightarrow> True)"

definition single_client :: "'d memory_map \<Rightarrow> bool" where
  "single_client m \<longleftrightarrow>
     (\<forall>b \<in> set (mm_active_bursts m). burst_fits (length (mm_devices m)) b) \<and>
     (case mm_compat_transaction m of
        None \<Rightarrow> mm_active_transactions m = []
      | Some c \<Rightarrow> \<exists>t. mm_active_transactions m = [t] \<and> at_id t = ct_id c \<and>
          at_request t = ct_request c \<and> at_device_index t < length (mm_devices m) \<and>
          phase_fits (at_request t) (at_phase t))"

definition mm_ok :: "nat \<Rightarrow> (nat \<Rightarrow> 'd \<Rightarrow> bool) \<Rightarrow> 'd memory_map \<Rightarrow> bool" where
  "mm_ok slots dinv m \<longleftrightarrow> devices_ok slots dinv m \<and> single_client m"

text \<open>What an access to a device leaves alone.\<close>

definition same_bus :: "'d memory_map \<Rightarrow> 'd memory_map \<Rightarrow> bool" where
  "same_bus m m' \<longleftrightarrow>
     mm_active_transactions m' = mm_active_transactions m \<and>
     mm_active_bursts m' = mm_active_bursts m \<and>
     mm_compat_transaction m' = mm_compat_transaction m \<and>
     mm_next_transaction_id m' = mm_next_transaction_id m \<and>
     map slot_range (mm_devices m') = map slot_range (mm_devices m)"

lemma same_bus_refl [simp]: "same_bus m m"
  by (simp add: same_bus_def)

lemma same_bus_trans: "same_bus m m' \<Longrightarrow> same_bus m' m'' \<Longrightarrow> same_bus m m''"
  by (simp add: same_bus_def)

lemma same_bus_length: "same_bus m m' \<Longrightarrow> length (mm_devices m') = length (mm_devices m)"
  unfolding same_bus_def by (metis length_map)

lemma same_bus_find: "same_bus m m' \<Longrightarrow> find_device_index a m' = find_device_index a m"
proof -
  have p: "position (\<lambda>s. range_contains (slot_range s) a) ss =
      position (\<lambda>r. range_contains r a) (map slot_range ss)" for ss :: "'x device_slot list"
    by (induction ss) simp_all
  assume "same_bus m m'"
  then show ?thesis by (simp add: find_device_index_def p same_bus_def)
qed

text \<open>The postcondition of an access to a device.\<close>

definition access_post ::
  "nat \<Rightarrow> (nat \<Rightarrow> 'd \<Rightarrow> bool) \<Rightarrow> 'd memory_map \<Rightarrow> ('a \<Rightarrow> bool) \<Rightarrow> bus_error + 'a \<Rightarrow> 'd memory_map \<Rightarrow> bool" where
  "access_post slots dinv m P r m' \<longleftrightarrow>
     devices_ok slots dinv m' \<and> same_bus m m' \<and> (\<forall>a. r = Inr a \<longrightarrow> P a)"

lemma access_then:
  assumes "wp x (access_post slots dinv m P)"
    and "\<And>a m'. P a \<Longrightarrow> devices_ok slots dinv m' \<Longrightarrow> same_bus m m' \<Longrightarrow> wp (f a m') (access_post slots dinv m' Q)"
  shows "wp (and_then x f) (access_post slots dinv m Q)"
proof -
  obtain r m' where x: "x = Some (r, m')" "devices_ok slots dinv m'" "same_bus m m'" "\<forall>a. r = Inr a \<longrightarrow> P a"
    using assms(1) by (auto simp: access_post_def elim!: wp_elim)
  show ?thesis
  proof (cases r)
    case (Inl e)
    then show ?thesis using x by (simp add: access_post_def)
  next
    case (Inr a)
    then have "wp (f a m') (access_post slots dinv m' Q)" using x assms(2) by simp
    then show ?thesis
      using x Inr by (auto simp: access_post_def intro: same_bus_trans elim!: wp_elim)
  qed
qed

lemma on_device_post:
  assumes "devices_ok slots dinv m" "i < length (mm_devices m)"
    "\<And>d. dinv i d \<Longrightarrow> wp (f d) (\<lambda>_. dinv i)"
  shows "wp (on_device i f m) (\<lambda>r m'. devices_ok slots dinv m' \<and> same_bus m m')"
proof -
  let ?s = "mm_devices m ! i"
  have "dinv i (slot_device ?s)" using assms by (simp add: devices_ok_def)
  then obtain r d where d: "f (slot_device ?s) = Some (r, d)" "dinv i d"
    using assms(3) by (blast elim: wp_elim)
  have "map slot_range ((mm_devices m)[i := ?s\<lparr>slot_device := d\<rparr>]) = map slot_range (mm_devices m)"
    using assms(2) by (simp add: map_update list_update_same_conv)
  moreover have "\<forall>k < length (mm_devices m).
      dinv k (slot_device ((mm_devices m)[i := ?s\<lparr>slot_device := d\<rparr>] ! k))"
    using assms(1,2) d(2) by (metis (no_types, lifting) devices_ok_def device_slot.select_convs(3)
        device_slot.surjective device_slot.update_convs(3) nth_list_update)
  ultimately show ?thesis
    using assms(1,2) d by (simp add: on_device_def devices_ok_def same_bus_def)
qed

text \<open>A step of a burst leaves it inside its device and its words.\<close>

definition beat_post ::
  "nat \<Rightarrow> (nat \<Rightarrow> 'd \<Rightarrow> bool) \<Rightarrow> active_burst \<Rightarrow> 'd memory_map \<Rightarrow> beat_advance \<Rightarrow> 'd memory_map \<Rightarrow> bool" where
  "beat_post slots dinv b m adv m' \<longleftrightarrow> devices_ok slots dinv m' \<and> same_bus m m' \<and>
     (\<exists>b'. apply_beat adv b = Some b' \<and> ab_id b' = ab_id b \<and> ab_request b' = ab_request b \<and>
       burst_fits (length (mm_devices m')) b')"

text \<open>A family of device invariants, one for each slot, that the devices keep.\<close>

locale device_family =
  fixes dev :: "('d, 'z) addressable_scheme" and slots :: nat
    and dinv :: "nat \<Rightarrow> 'd \<Rightarrow> bool"
  assumes family: "addressable_device dev (dinv k)"
begin

lemmas reset_dev = addressable_device.reset_dev [OF family]
lemmas tick_dev = addressable_device.tick_dev [OF family]
lemmas latency_dev = addressable_device.latency_dev [OF family]
lemmas load8_dev = addressable_device.load8_dev [OF family]
lemmas store8_dev = addressable_device.store8_dev [OF family]

end

sublocale addressable_device \<subseteq> family: device_family dev 0 "\<lambda>_. dinv"
  by standard

context device_family begin

lemma load8_post:
  "devices_ok slots dinv m \<Longrightarrow> i < length (mm_devices m) \<Longrightarrow>
     wp (on_device i (ad_load8 dev a) m) (access_post slots dinv m (\<lambda>_. True))"
  using on_device_post [of slots dinv m i "ad_load8 dev a"] load8_dev
  by (auto simp: access_post_def elim!: wp_elim)

lemma store8_post:
  "devices_ok slots dinv m \<Longrightarrow> i < length (mm_devices m) \<Longrightarrow>
     wp (on_device i (ad_store8 dev a v) m) (access_post slots dinv m (\<lambda>_. True))"
  using on_device_post [of slots dinv m i "ad_store8 dev a v"] store8_dev
  by (auto simp: access_post_def elim!: wp_elim)

lemma load_bytes_post:
  "devices_ok slots dinv m \<Longrightarrow> i < length (mm_devices m) \<Longrightarrow>
     wp (load_bytes dev i a n m) (access_post slots dinv m (\<lambda>bs. length bs = n))"
proof (induction n arbitrary: a m)
  case 0
  then show ?case by (simp add: access_post_def)
next
  case (Suc n)
  show ?case
    unfolding load_bytes.simps
  proof (rule access_then [OF load8_post [OF Suc.prems]], rule access_then)
    fix v :: u8 and m'
    assume "devices_ok slots dinv m'" "same_bus m m'"
    then show "wp (load_bytes dev i (a + 1) n m') (access_post slots dinv m' (\<lambda>bs. length bs = n))"
      using Suc same_bus_length by metis
  qed (simp add: access_post_def)
qed

lemma store_bytes_post:
  "devices_ok slots dinv m \<Longrightarrow> i < length (mm_devices m) \<Longrightarrow>
     wp (store_bytes dev i a vs m) (access_post slots dinv m (\<lambda>_. True))"
proof (induction vs arbitrary: a m)
  case Nil
  then show ?case by (simp add: access_post_def)
next
  case (Cons v vs)
  show ?case
    unfolding store_bytes.simps
  proof (rule access_then [OF store8_post [OF Cons.prems]])
    fix m'
    assume "devices_ok slots dinv m'" "same_bus m m'"
    then show "wp (store_bytes dev i (a + 1) vs m') (access_post slots dinv m' (\<lambda>_. True))"
      using Cons same_bus_length by metis
  qed
qed

lemma execute_request_post:
  assumes "devices_ok slots dinv m" "i < length (mm_devices m)"
  shows "wp (execute_request dev i r m) (access_post slots dinv m (response_fits r))"
proof -
  note calls = load_bytes_post [OF assms] store_bytes_post [OF assms] load8_post [OF assms]
    store8_post [OF assms]
  show ?thesis
    unfolding execute_request_def Let_def
    using assms
    by (auto intro!: access_then [OF calls(1)] access_then [OF calls(2)] access_then [OF calls(3)]
        access_then [OF calls(4)] simp: access_post_def response_fits_def
        simp del: load_bytes.simps store_bytes.simps)
qed

lemma finish_request_post:
  assumes "devices_ok slots dinv m" "i < length (mm_devices m)"
  shows "wp (finish_request dev i r m)
    (\<lambda>p m'. devices_ok slots dinv m' \<and> same_bus m m' \<and> phase_fits r p)"
  using execute_request_post [OF assms, of r]
  by (auto simp: finish_request_def access_post_def phase_fits_def elim!: wp_elim split: sum.split)

lemma latency_post:
  "devices_ok slots dinv m \<Longrightarrow> i < length (mm_devices m) \<Longrightarrow>
     wp (latency_of dev i a k w m) (\<lambda>_ m'. devices_ok slots dinv m' \<and> same_bus m m')"
  unfolding latency_of_def
  by (intro on_device_post) (auto simp: wp_def split: prod.split, metis latency_dev snd_conv)

lemma next_phase_post:
  assumes "devices_ok slots dinv m" "at_device_index t < length (mm_devices m)"
    "phase_fits (at_request t) (at_phase t)"
  shows "wp (next_transaction_phase dev t m)
    (\<lambda>p m'. devices_ok slots dinv m' \<and> same_bus m m' \<and> phase_fits (at_request t) p)"
proof (cases "at_phase t")
  case TrAccepted
  let ?r = "at_request t"
  obtain n m1 where l: "latency_of dev (at_device_index t) (tr_addr ?r) (tr_kind ?r) (tr_width ?r) m =
      Some (n, m1)" "devices_ok slots dinv m1" "same_bus m m1"
    using latency_post [OF assms(1,2)] by (blast elim: wp_elim)
  have "at_device_index t < length (mm_devices m1)"
    using assms(2) l(3) same_bus_length by metis
  from finish_request_post [OF l(2) this, of ?r] l TrAccepted show ?thesis
    by (auto simp: next_transaction_phase_def Let_def phase_fits_def elim!: wp_elim
        intro: same_bus_trans)
next
  case (TrInFlight n)
  then show ?thesis
    using finish_request_post [OF assms(1,2), of "at_request t"] assms(1)
    by (auto simp: next_transaction_phase_def Let_def phase_fits_def elim!: wp_elim)
qed (use assms in \<open>simp_all add: next_transaction_phase_def Let_def phase_fits_def\<close>)

lemma single_transaction:
  assumes "mm_ok slots dinv m" "mm_compat_transaction m = Some c"
  obtains t where "mm_active_transactions m = [t]" "transaction_index (ct_id c) m = Some 0"
    "mm_transaction_phase m (ct_id c) = Some (at_phase t)" "at_id t = ct_id c" "at_request t = ct_request c"
    "at_device_index t < length (mm_devices m)" "phase_fits (ct_request c) (at_phase t)"
  using assms
  by (auto simp: mm_ok_def single_client_def transaction_index_def mm_transaction_phase_def)

lemma advance_single:
  assumes "mm_ok slots dinv m" "mm_compat_transaction m = Some c"
  shows "wp (advance_transaction_at dev 0 m) (\<lambda>_ m'. mm_ok slots dinv m' \<and> mm_compat_transaction m' = Some c)"
proof -
  obtain t where t: "mm_active_transactions m = [t]" "at_id t = ct_id c" "at_request t = ct_request c"
      "at_device_index t < length (mm_devices m)" "phase_fits (ct_request c) (at_phase t)"
    using single_transaction [OF assms] by metis
  obtain p m' where p: "next_transaction_phase dev t m = Some (p, m')" "devices_ok slots dinv m'"
      "same_bus m m'" "phase_fits (at_request t) p"
    using next_phase_post [of m t] t assms(1) by (auto simp: mm_ok_def elim!: wp_elim)
  then show ?thesis
    using t assms same_bus_length [OF p(3)]
    by (auto simp: advance_transaction_at_def mm_ok_def single_client_def devices_ok_def same_bus_def)
qed

lemma take_single:
  assumes "mm_ok slots dinv m" "mm_compat_transaction m = Some c"
  shows "wp (mm_take_transaction_response (ct_id c) m) (\<lambda>r m'.
    case r of
      None \<Rightarrow> m' = m
    | Some res \<Rightarrow> mm_ok slots dinv m' \<and> mm_compat_transaction m' = None \<and>
        (\<forall>resp. res = Inr resp \<longrightarrow> response_fits (ct_request c) resp))"
proof -
  obtain t where t: "mm_active_transactions m = [t]" "transaction_index (ct_id c) m = Some 0"
      "phase_fits (ct_request c) (at_phase t)"
    using single_transaction [OF assms] by metis
  then show ?thesis
    using assms
    by (cases "at_phase t")
      (auto simp: mm_take_transaction_response_def swap_remove_def clear_compat_if_matches_def
        mm_ok_def single_client_def devices_ok_def phase_fits_def)
qed

lemma poll_compat_safe:
  assumes "mm_ok slots dinv m" "mm_compat_transaction m = Some c"
  shows "wp (poll_compat dev m) (\<lambda>r m'. mm_ok slots dinv m' \<and>
    (\<forall>resp. r = Inr resp \<longrightarrow> response_fits (ct_request c) resp))"
proof -
  obtain t where t: "mm_active_transactions m = [t]" "transaction_index (ct_id c) m = Some 0"
      "mm_transaction_phase m (ct_id c) = Some (at_phase t)"
    using single_transaction [OF assms] by metis
  obtain m1 where m1: "(if mm_transaction_phase m (ct_id c) = Some TrAccepted
        then map_option snd (mm_advance_transaction dev (ct_id c) m) else Some m) = Some m1"
      "mm_ok slots dinv m1" "mm_compat_transaction m1 = Some c"
    using advance_single [OF assms] assms t
    by (cases "at_phase t = TrAccepted") (auto simp: mm_advance_transaction_def elim!: wp_elim)
  show ?thesis
    using take_single [OF m1(2,3)] m1 assms(2)
    by (auto simp: poll_compat_def mm_ok_def single_client_def devices_ok_def elim!: wp_elim
        split: option.splits)
qed

lemma perform_request_safe:
  assumes "mm_ok slots dinv m"
  shows "wp (perform_request dev r m) (\<lambda>res m'. mm_ok slots dinv m' \<and>
    (\<forall>resp. res = Inr resp \<longrightarrow> response_fits r resp))"
proof (cases "mm_compat_transaction m")
  case (Some c)
  obtain p where "mm_transaction_phase m (ct_id c) = Some p"
    by (rule single_transaction [OF assms Some]) simp
  then show ?thesis
    using Some assms poll_compat_safe [OF assms Some] by (auto simp: perform_request_def)
next
  case None
  show ?thesis
  proof (cases "find_device_index (tr_addr r) m")
    case (Some i)
    let ?c = "\<lparr>ct_id = mm_next_transaction_id m, ct_request = r\<rparr>"
    let ?t = "\<lparr>at_id = mm_next_transaction_id m, at_device_index = i, at_request = r, at_phase = TrAccepted\<rparr>"
    let ?m = "m\<lparr>mm_next_transaction_id := mm_next_transaction_id m + 1,
      mm_active_transactions := [?t], mm_compat_transaction := Some ?c\<rparr>"
    have "i < length (mm_devices m)"
      using Some position_Some by (fastforce simp: find_device_index_def)
    then have "mm_ok slots dinv ?m"
      using assms None by (auto simp: mm_ok_def single_client_def devices_ok_def phase_fits_def)
    moreover have "perform_request dev r m = poll_compat dev ?m"
      using None Some assms
      by (simp add: perform_request_def mm_submit_transaction_def mm_ok_def single_client_def Let_def)
    ultimately show ?thesis using poll_compat_safe [of ?m ?c] by simp
  qed (use None assms in \<open>simp add: perform_request_def mm_submit_transaction_def\<close>)
qed

lemma expect_read_safe:
  "mm_ok slots dinv m \<Longrightarrow> tr_kind r \<noteq> StoreAccess \<Longrightarrow> tr_width r = w \<Longrightarrow>
     wp (expect_read w f (perform_request dev r m)) (\<lambda>_. mm_ok slots dinv)"
  using perform_request_safe [of m r]
  by (auto simp: expect_read_def and_then_def response_fits_def elim!: wp_elim
      split: sum.split transaction_response.split)

lemma store_request_safe:
  "mm_ok slots dinv m \<Longrightarrow> wp (and_then (perform_request dev r m) (\<lambda>_ m. Some (Inr (), m))) (\<lambda>_. mm_ok slots dinv)"
  using perform_request_safe [of m r]
  by (auto simp: and_then_def elim!: wp_elim split: sum.split)

lemma tick_slots_ok:
  "\<forall>k < length ss. dinv (j + k) (slot_device (ss ! k)) \<Longrightarrow>
     \<exists>ss'. tick_slots dev ss = Some ss' \<and> (\<forall>k < length ss. dinv (j + k) (slot_device (ss' ! k))) \<and>
       map slot_range ss' = map slot_range ss"
proof (induction ss arbitrary: j)
  case (Cons s ss)
  obtain d where d: "ad_tick dev (slot_device s) = Some d" "dinv j d"
    using Cons.prems tick_dev [of j "slot_device s"] by force
  obtain ss' where "tick_slots dev ss = Some ss'" "\<forall>k < length ss. dinv (Suc j + k) (slot_device (ss' ! k))"
      "map slot_range ss' = map slot_range ss"
    using Cons.IH [of "Suc j"] Cons.prems by force
  then show ?case using d by (auto simp: less_Suc_eq_0_disj)
qed simp

lemma tick_devices_post:
  assumes "devices_ok slots dinv m"
  shows "\<exists>m'. tick_devices dev m = Some m' \<and> devices_ok slots dinv m' \<and> same_bus m m'"
proof -
  obtain ss where ss: "tick_slots dev (mm_devices m) = Some ss"
      "\<forall>k < length (mm_devices m). dinv k (slot_device (ss ! k))" "map slot_range ss = map slot_range (mm_devices m)"
    using tick_slots_ok [of "mm_devices m" 0] assms by (auto simp: devices_ok_def)
  moreover have "length ss = length (mm_devices m)" using ss(3) by (metis length_map)
  ultimately show ?thesis using assms by (simp add: tick_devices_def devices_ok_def same_bus_def)
qed

lemma tick_devices_ok:
  assumes "mm_ok slots dinv m"
  shows "\<exists>m'. tick_devices dev m = Some m' \<and> mm_ok slots dinv m'"
proof -
  obtain m' where m': "tick_devices dev m = Some m'" "devices_ok slots dinv m'" "same_bus m m'"
    using tick_devices_post [of m] assms by (auto simp: mm_ok_def)
  have "single_client m'"
    using assms same_bus_length [OF m'(3)] m'(3)
    by (cases "mm_compat_transaction m") (auto simp: mm_ok_def single_client_def same_bus_def)
  then show ?thesis using m' by (simp add: mm_ok_def)
qed

lemma execute_beat_post:
  assumes "devices_ok slots dinv m" "i < length (mm_devices m)" "beat < beats r"
  shows "wp (execute_burst_beat dev i r beat m) (access_post slots dinv m (\<lambda>_. True))"
proof (cases r)
  case (BurstRead a n k)
  then show ?thesis
    unfolding execute_burst_beat_def Let_def
    by (auto intro!: access_then [OF load_bytes_post [OF assms(1,2)]] simp: access_post_def
        simp del: load_bytes.simps)
next
  case (BurstWrite a ws)
  then show ?thesis
    using assms(3) unfolding execute_burst_beat_def Let_def
    by (auto intro!: access_then [OF store_bytes_post [OF assms(1,2)]] simp: access_post_def
        simp del: store_bytes.simps)
qed

lemma finish_beat_post:
  assumes "devices_ok slots dinv m" "burst_fits (length (mm_devices m)) b" "ab_beat_index b < beats (ab_request b)"
  shows "wp (finish_beat dev b m) (beat_post slots dinv b m)"
proof -
  have i: "ab_device_index b < length (mm_devices m)" using assms(2) by (simp add: burst_fits_def)
  obtain r m' where e: "execute_burst_beat dev (ab_device_index b) (ab_request b) (ab_beat_index b) m = Some (r, m')"
      "devices_ok slots dinv m'" "same_bus m m'"
    using execute_beat_post [OF assms(1) i assms(3)] by (auto simp: access_post_def elim!: wp_elim)
  have "length (mm_devices m') = length (mm_devices m)" using same_bus_length [OF e(3)] .
  then show ?thesis
    using e assms
    by (cases r) (auto simp: finish_beat_def beat_post_def apply_beat_def Let_def burst_fits_def
        split: option.split)
qed

lemma next_beat_post:
  assumes "devices_ok slots dinv m" "burst_fits (length (mm_devices m)) b"
  shows "wp (next_beat dev b m) (beat_post slots dinv b m)"
proof (cases "ab_phase b")
  case (BuAccepted x y)
  let ?r = "ab_request b"
  have i: "ab_device_index b < length (mm_devices m)" "ab_beat_index b < beats ?r"
    using assms(2) BuAccepted by (auto simp: burst_fits_def)
  obtain n m1 where l: "latency_of dev (ab_device_index b) (beat_addr ?r (ab_beat_index b)) (beat_kind ?r) 4 m =
      Some (n, m1)" "devices_ok slots dinv m1" "same_bus m m1"
    using latency_post [OF assms(1) i(1)] by (blast elim: wp_elim)
  have len: "length (mm_devices m1) = length (mm_devices m)" using same_bus_length [OF l(3)] .
  have "wp (finish_beat dev b m1) (beat_post slots dinv b m)"
    using finish_beat_post [OF l(2), of b] assms(2) i(2) len same_bus_trans [OF l(3)]
    by (auto simp: beat_post_def elim!: wp_elim)
  then show ?thesis
    using l BuAccepted assms(2) i len
    by (auto simp: next_beat_def Let_def beat_post_def apply_beat_def burst_fits_def)
next
  case (BuInFlight x y n)
  then have "ab_beat_index b < beats (ab_request b)" using assms(2) by (simp add: burst_fits_def)
  with BuInFlight show ?thesis
    using finish_beat_post [OF assms] assms
    by (auto simp: next_beat_def Let_def beat_post_def apply_beat_def burst_fits_def)
qed (use assms in \<open>auto simp: next_beat_def Let_def beat_post_def apply_beat_def burst_fits_def\<close>)

lemma advance_burst_at_safe:
  assumes "mm_ok slots dinv m"
  shows "wp (advance_burst_at dev k m) (\<lambda>_ m'. mm_ok slots dinv m' \<and>
    mm_compat_transaction m' = mm_compat_transaction m)"
proof (cases "k < length (mm_active_bursts m)")
  case True
  let ?b = "mm_active_bursts m ! k"
  have b: "burst_fits (length (mm_devices m)) ?b" and d: "devices_ok slots dinv m"
    using assms True by (auto simp: mm_ok_def single_client_def)
  obtain adv m1 b' where n: "next_beat dev ?b m = Some (adv, m1)" "devices_ok slots dinv m1" "same_bus m m1"
      "apply_beat adv ?b = Some b'" "burst_fits (length (mm_devices m1)) b'"
    using next_beat_post [OF d b] by (auto simp: beat_post_def elim!: wp_elim)
  have len: "length (mm_devices m1) = length (mm_devices m)" using same_bus_length [OF n(3)] .
  let ?m = "m1\<lparr>mm_active_bursts := (mm_active_bursts m1)[k := b']\<rparr>"
  have "\<forall>x \<in> set (mm_active_bursts ?m). burst_fits (length (mm_devices ?m)) x"
    using assms n(3,5) len set_update_subset_insert [of "mm_active_bursts m1" k b']
    by (auto simp: mm_ok_def single_client_def same_bus_def)
  then have "single_client ?m"
    using assms n(3) len
    by (cases "mm_compat_transaction m") (auto simp: mm_ok_def single_client_def same_bus_def)
  then have "mm_ok slots dinv ?m" using n(2) by (simp add: mm_ok_def devices_ok_def)
  then show ?thesis using n True by (simp add: advance_burst_at_def same_bus_def)
qed (use assms in \<open>simp add: advance_burst_at_def\<close>)

lemma advance_bursts_safe:
  assumes "mm_ok slots dinv m"
  shows "wp (each_index (advance_burst_at dev) ks m) (\<lambda>_ m'. mm_ok slots dinv m' \<and>
    mm_compat_transaction m' = mm_compat_transaction m)"
proof (rule each_index_safe)
  show "wp (advance_burst_at dev k s) (\<lambda>_ m'. mm_ok slots dinv m' \<and>
      mm_compat_transaction m' = mm_compat_transaction m)"
    if "mm_ok slots dinv s \<and> mm_compat_transaction s = mm_compat_transaction m" for k s
    using advance_burst_at_safe [of s k] that by (auto elim!: wp_elim)
qed (use assms in simp)

lemma mm_tick_keeps:
  assumes "mm_ok slots dinv m"
  shows "wp (mm_tick dev m) (\<lambda>_ m'. mm_ok slots dinv m' \<and> mm_compat_transaction m' = mm_compat_transaction m)"
proof -
  have "\<exists>m1. each_index (advance_transaction_at dev) [0..<length (mm_active_transactions m)] m = Some ((), m1) \<and>
      mm_ok slots dinv m1 \<and> mm_compat_transaction m1 = mm_compat_transaction m"
  proof (cases "mm_compat_transaction m")
    case None
    then show ?thesis using assms by (simp add: mm_ok_def single_client_def)
  next
    case (Some c)
    obtain t where "mm_active_transactions m = [t]"
      using single_transaction [OF assms Some] by metis
    then show ?thesis using advance_single [OF assms Some] Some by (auto elim!: wp_elim)
  qed
  then obtain m1 where m1: "each_index (advance_transaction_at dev) [0..<length (mm_active_transactions m)] m = Some ((), m1)"
      "mm_ok slots dinv m1" "mm_compat_transaction m1 = mm_compat_transaction m" by blast
  obtain m2 where m2: "each_index (advance_burst_at dev) [0..<length (mm_active_bursts m1)] m1 = Some ((), m2)"
      "mm_ok slots dinv m2" "mm_compat_transaction m2 = mm_compat_transaction m"
    using advance_bursts_safe [OF m1(2), of "[0..<length (mm_active_bursts m1)]"] m1(3)
    by (auto elim!: wp_elim)
  obtain m3 where "tick_devices dev m2 = Some m3" "mm_ok slots dinv m3"
    using tick_devices_ok [OF m2(2)] by blast
  moreover have "mm_compat_transaction m3 = mm_compat_transaction m2"
    using calculation(1) by (auto simp: tick_devices_def)
  ultimately show ?thesis using m1(1) m2(1,3) by (simp add: mm_tick_def)
qed

lemma mm_tick_safe: "mm_ok slots dinv m \<Longrightarrow> wp (mm_tick dev m) (\<lambda>_. mm_ok slots dinv)"
  using mm_tick_keeps [of m] by (auto elim!: wp_elim)

lemma mm_submit_burst_safe:
  assumes "mm_ok slots dinv m" "0 < beats r"
  shows "wp (mm_submit_burst r m) (\<lambda>_. mm_ok slots dinv)"
proof (cases "find_device_index (base_addr r) m")
  case (Some i)
  then have "i < length (mm_devices m)"
    using position_Some by (fastforce simp: find_device_index_def)
  then show ?thesis
    using assms Some
    by (cases "mm_compat_transaction m"; cases "crossing_beat r i m")
      (auto simp: mm_submit_burst_def Let_def mm_ok_def single_client_def devices_ok_def burst_fits_def)
qed (use assms in \<open>simp add: mm_submit_burst_def\<close>)

lemma mm_advance_burst_safe:
  assumes "mm_ok slots dinv m"
  shows "wp (mm_advance_burst dev i m) (\<lambda>_. mm_ok slots dinv)"
proof (cases "burst_index i m")
  case (Some k)
  then show ?thesis
    using advance_burst_at_safe [OF assms, of k] by (auto simp: mm_advance_burst_def elim!: wp_elim)
qed (use assms in \<open>simp add: mm_advance_burst_def\<close>)

lemma set_swap_remove: "k < length xs \<Longrightarrow> set (swap_remove k xs) \<subseteq> set xs"
proof
  fix x assume k: "k < length xs" and "x \<in> set (swap_remove k xs)"
  then have "x \<in> set (xs[k := last xs])" by (simp add: swap_remove_def in_set_butlastD)
  then have "x \<in> insert (last xs) (set xs)" using set_update_subset_insert by fastforce
  then show "x \<in> set xs" using k by (cases xs) auto
qed

lemma mm_take_burst_safe:
  assumes "mm_ok slots dinv m"
  shows "wp (mm_take_burst_response i m) (\<lambda>_. mm_ok slots dinv)"
proof (cases "burst_index i m")
  case (Some k)
  then have "k < length (mm_active_bursts m)"
    using position_Some by (fastforce simp: burst_index_def)
  from set_swap_remove [OF this]
  have "mm_ok slots dinv (m\<lparr>mm_active_bursts := swap_remove k (mm_active_bursts m)\<rparr>)"
    using assms by (cases "mm_compat_transaction m")
      (auto simp: mm_ok_def single_client_def devices_ok_def)
  then show ?thesis
    using Some assms by (simp add: mm_take_burst_response_def Let_def split: burst_phase.split)
qed (use assms in \<open>simp add: mm_take_burst_response_def\<close>)

lemma mm_reset_ok: "devices_ok slots dinv m \<Longrightarrow> mm_ok slots dinv (mm_reset dev m)"
  by (auto simp: mm_ok_def devices_ok_def single_client_def mm_reset_def reset_dev)

lemma mm_reset_safe: "mm_ok slots dinv m \<Longrightarrow> mm_ok slots dinv (mm_reset dev m)"
  using mm_reset_ok by (simp add: mm_ok_def)

end

text \<open>The blocking calls and the bursts of a map of well-behaved devices are a safe bus.\<close>

sublocale device_family \<subseteq> mm: burst_bus_safe "mm_ops dev" "mm_ok slots dinv"
proof
  fix b :: "'d memory_map" and a and i and r and v8 :: u8 and v16 :: u16 and v32 :: u32
  assume b: "mm_ok slots dinv b"
  show "wp (bus_load8 (mm_ops dev) a b) (\<lambda>_. mm_ok slots dinv)"
    using b by (simp add: mm_ops_def mm_load8_def expect_read_safe load_request_def)
  show "wp (bus_store8 (mm_ops dev) a v8 b) (\<lambda>_. mm_ok slots dinv)"
    using store_request_safe [OF b] by (simp add: mm_ops_def mm_store8_def)
  show "wp (bus_fetch32 (mm_ops dev) a b) (\<lambda>_. mm_ok slots dinv)"
    using b by (simp add: mm_ops_def mm_fetch32_def expect_read_safe fetch32_request_def)
  show "wp (bus_load16 (mm_ops dev) a b) (\<lambda>_. mm_ok slots dinv)"
    using b by (simp add: mm_ops_def mm_load16_def expect_read_safe load_request_def)
  show "wp (bus_load32 (mm_ops dev) a b) (\<lambda>_. mm_ok slots dinv)"
    using b by (simp add: mm_ops_def mm_load32_def expect_read_safe load_request_def)
  show "wp (bus_store16 (mm_ops dev) a v16 b) (\<lambda>_. mm_ok slots dinv)"
    using b store_request_safe [OF b] by (simp add: mm_ops_def mm_store16_def)
  show "wp (bus_store32 (mm_ops dev) a v32 b) (\<lambda>_. mm_ok slots dinv)"
    using b store_request_safe [OF b] by (simp add: mm_ops_def mm_store32_def)
  show "wp (bus_reset (mm_ops dev) b) (\<lambda>_. mm_ok slots dinv)"
    using mm_reset_safe [OF b] by (simp add: mm_ops_def)
  show "wp (bus_tick (mm_ops dev) b) (\<lambda>_. mm_ok slots dinv)"
    using mm_tick_safe [OF b] by (simp add: mm_ops_def)
  show "wp (bus_submit_burst (mm_ops dev) r b) (\<lambda>_. mm_ok slots dinv)" if "0 < beats r"
    using mm_submit_burst_safe [OF b that] by (simp add: mm_ops_def)
  show "wp (bus_advance_burst (mm_ops dev) i b) (\<lambda>_. mm_ok slots dinv)"
    using mm_advance_burst_safe [OF b] by (simp add: mm_ops_def)
  show "wp (bus_take_burst_response (mm_ops dev) i b) (\<lambda>_. mm_ok slots dinv)"
    using mm_take_burst_safe [OF b] by (simp add: mm_ops_def)
qed

subsection \<open>Routing\<close>

text \<open>No two slots contain the same address.\<close>

definition slots_disjoint :: "'d memory_map \<Rightarrow> bool" where
  "slots_disjoint m \<longleftrightarrow> (\<forall>i < length (mm_devices m). \<forall>j < length (mm_devices m). \<forall>a.
     range_contains (slot_range (mm_devices m ! i)) a \<and> range_contains (slot_range (mm_devices m ! j)) a \<longrightarrow>
     i = j)"

lemma ensure_available_disjoint:
  "ensure_range_available r name ss = Inr () \<Longrightarrow> s \<in> set ss \<Longrightarrow>
     \<not> (range_contains (slot_range s) a \<and> range_contains r a)"
  by (induction ss) (auto split: if_splits dest: not_overlaps_disjoint)

lemma position_append:
  "position P (xs @ ys) = (case position P xs of
     Some i \<Rightarrow> Some i | None \<Rightarrow> map_option (\<lambda>i. length xs + i) (position P ys))"
  by (induction xs) (cases "position P ys"; auto split: option.splits)+

lemma find_appended:
  assumes "mm_devices m' = mm_devices m @ [\<lparr>slot_range = r, slot_name = name, slot_device = d\<rparr>]"
    and "ensure_range_available r n (mm_devices m) = Inr ()"
  shows "find_device_index a m' =
    (if range_contains r a then Some (length (mm_devices m)) else find_device_index a m)"
proof -
  have "find_device_index a m = None" if "range_contains r a"
    using ensure_available_disjoint [OF assms(2)] that
    by (auto simp: find_device_index_def position_None)
  then show ?thesis
    using assms(1) by (auto simp: find_device_index_def position_append split: option.split)
qed

lemma map_device_spec:
  assumes "slots_disjoint m"
  shows "(map_device dev d m = (Inr (), m') \<longrightarrow>
      slots_disjoint m' \<and> slot_device (mm_devices m' ! length (mm_devices m)) = d \<and>
      (\<forall>a. find_device_index a m' =
        (if range_contains (ad_range dev d) a then Some (length (mm_devices m)) else find_device_index a m))) \<and>
    (map_device dev d m = (Inl e, m') \<longrightarrow> m' = m)"
proof (intro conjI impI)
  assume m: "map_device dev d m = (Inr (), m')"
  let ?s = "\<lparr>slot_range = ad_range dev d, slot_name = ad_name dev d, slot_device = d\<rparr>"
  have e: "ensure_range_available (ad_range dev d) (ad_name dev d) (mm_devices m) = Inr ()"
    and m': "mm_devices m' = mm_devices m @ [?s]"
    using m by (auto simp: map_device_def Let_def split: sum.splits)
  show "slots_disjoint m'"
    unfolding slots_disjoint_def
  proof (intro allI impI)
    fix i j a
    assume ij: "i < length (mm_devices m')" "j < length (mm_devices m')"
      and c: "range_contains (slot_range (mm_devices m' ! i)) a \<and> range_contains (slot_range (mm_devices m' ! j)) a"
    have n: "\<not> (range_contains (slot_range (mm_devices m ! k)) a \<and> range_contains (ad_range dev d) a)"
      if "k < length (mm_devices m)" for k
      using ensure_available_disjoint [OF e] that nth_mem by blast
    show "i = j"
      using ij c n assms unfolding m' slots_disjoint_def by (auto simp: nth_append less_Suc_eq split: if_splits)
  qed
  show "slot_device (mm_devices m' ! length (mm_devices m)) = d" using m' by simp
  show "\<forall>a. find_device_index a m' =
      (if range_contains (ad_range dev d) a then Some (length (mm_devices m)) else find_device_index a m)"
    using find_appended [OF m' e] by blast
next
  assume "map_device dev d m = (Inl e, m')"
  then show "m' = m" by (auto simp: map_device_def Let_def split: sum.splits)
qed

subsection \<open>A blocking access over time\<close>

definition mm_clock :: "('d, 'z) addressable_scheme \<Rightarrow> 'd memory_map \<Rightarrow> 'd memory_map option" where
  "mm_clock dev m = map_option snd (mm_tick dev m)"

text \<open>The bus serves the request \<open>r\<close> at device \<open>i\<close>, with \<open>n\<close> cycles to go.\<close>

definition serving :: "transaction_request \<Rightarrow> nat \<Rightarrow> u32 \<Rightarrow> 'd memory_map \<Rightarrow> bool" where
  "serving r i n m \<longleftrightarrow> mm_active_bursts m = [] \<and>
     (\<exists>tid. mm_compat_transaction m = Some \<lparr>ct_id = tid, ct_request = r\<rparr> \<and>
       mm_active_transactions m =
         [\<lparr>at_id = tid, at_device_index = i, at_request = r, at_phase = TrInFlight n\<rparr>])"

definition bus_idle :: "'d memory_map \<Rightarrow> bool" where
  "bus_idle m \<longleftrightarrow> mm_active_bursts m = [] \<and> mm_active_transactions m = [] \<and> mm_compat_transaction m = None"

lemma perform_serving:
  "serving r i n m \<Longrightarrow> perform_request dev r m = Some (Inl (Busy (max n 1)), m)"
  by (auto simp: serving_def perform_request_def poll_compat_def mm_transaction_phase_def
      transaction_index_def mm_take_transaction_response_def busy_compat_def compat_remaining_cycles_def)

lemma perform_other:
  assumes "mm_compat_transaction m = Some c" "ct_request c \<noteq> r"
  shows "perform_request dev r m = Some (Inl (busy_compat m), m)"
  using assms by (simp add: perform_request_def)

lemma finish_request_ready:
  assumes "execute_request dev i r m = Some (res, m')"
  shows "\<exists>p. finish_request dev i r m = Some (p, m') \<and>
    p = (case res of Inr resp \<Rightarrow> TrReady resp | Inl e \<Rightarrow> TrFailed e)"
  using assms by (cases res) (simp_all add: finish_request_def)

context device_family begin

lemma perform_first:
  assumes m: "devices_ok slots dinv m" "bus_idle m" "find_device_index (tr_addr r) m = Some i"
    and l: "latency_of dev i (tr_addr r) (tr_kind r) (tr_width r) m = Some (n, m1)" "n \<noteq> 0"
  shows "\<exists>m2. perform_request dev r m = Some (Inl (Busy n), m2) \<and> serving r i n m2 \<and>
    devices_ok slots dinv m2 \<and> mm_devices m2 = mm_devices m1 \<and> i < length (mm_devices m2)"
proof -
  have i: "i < length (mm_devices m)"
    using m(3) position_Some by (fastforce simp: find_device_index_def)
  let ?tid = "mm_next_transaction_id m"
  let ?t = "\<lparr>at_id = ?tid, at_device_index = i, at_request = r, at_phase = TrAccepted\<rparr>"
  let ?a = "m\<lparr>mm_next_transaction_id := ?tid + 1, mm_active_transactions := [?t],
    mm_compat_transaction := Some \<lparr>ct_id = ?tid, ct_request = r\<rparr>\<rparr>"
  have p: "perform_request dev r m = poll_compat dev ?a"
    using m by (simp add: perform_request_def mm_submit_transaction_def bus_idle_def Let_def)
  obtain d where d: "m1 = m\<lparr>mm_devices := d\<rparr>"
    and la: "latency_of dev i (tr_addr r) (tr_kind r) (tr_width r) ?a = Some (n, ?a\<lparr>mm_devices := d\<rparr>)"
    using l(1) i by (auto simp: latency_of_def on_device_def split: prod.splits)
  let ?b = "?a\<lparr>mm_devices := d, mm_active_transactions := [?t\<lparr>at_phase := TrInFlight n\<rparr>]\<rparr>"
  have "mm_advance_transaction dev ?tid ?a = Some (Some (TrInFlight n), ?b)"
    using la l(2)
    by (simp add: mm_advance_transaction_def transaction_index_def advance_transaction_at_def
        next_transaction_phase_def mm_transaction_phase_def Let_def)
  then have "poll_compat dev ?a = Some (Inl (busy_compat ?b), ?b)"
    by (simp add: poll_compat_def mm_transaction_phase_def transaction_index_def
        mm_take_transaction_response_def)
  moreover have "busy_compat ?b = Busy n"
  proof -
    have "unat n \<noteq> 0" using l(2) by (simp add: unat_eq_zero)
    then have "1 \<le> n" by (simp add: word_le_nat_alt)
    then have "max n 1 = n" by simp
    then show ?thesis
      by (simp add: busy_compat_def compat_remaining_cycles_def mm_transaction_phase_def transaction_index_def)
  qed
  moreover have "serving r i n ?b" using m(2) by (simp add: serving_def bus_idle_def)
  moreover have "devices_ok slots dinv m1" "same_bus m m1"
    using latency_post [OF m(1) i, of "tr_addr r" "tr_kind r" "tr_width r"] l(1) by simp_all
  ultimately show ?thesis
    using p d i same_bus_length [of m m1] by (intro exI [of _ ?b]) (simp add: devices_ok_def)
qed

lemma tick_serving:
  assumes "serving r i n m" "devices_ok slots dinv m" "i < length (mm_devices m)" "n > 1"
  shows "\<exists>m'. mm_clock dev m = Some m' \<and> serving r i (n - 1) m' \<and> devices_ok slots dinv m' \<and>
    i < length (mm_devices m')"
proof -
  let ?m = "m\<lparr>mm_active_transactions := map (at_phase_update (\<lambda>_. TrInFlight (n - 1))) (mm_active_transactions m)\<rparr>"
  have a: "advance_transaction_at dev 0 m = Some ((), ?m)" "mm_active_bursts ?m = []"
    "length (mm_active_transactions m) = 1" "serving r i (n - 1) ?m"
    using assms(1,4)
    by (auto simp: serving_def advance_transaction_at_def next_transaction_phase_def Let_def)
  obtain m' where m': "tick_devices dev ?m = Some m'" "devices_ok slots dinv m'" "same_bus ?m m'"
    using tick_devices_post [of ?m] assms(2) by (auto simp: devices_ok_def)
  then have "serving r i (n - 1) m'" using a(4) by (simp add: serving_def same_bus_def)
  moreover have "i < length (mm_devices m')" using same_bus_length [OF m'(3)] assms(3) by simp
  ultimately show ?thesis using a m' by (auto simp: mm_clock_def mm_tick_def)
qed

lemma ticks_serving:
  assumes "serving r i n m" "devices_ok slots dinv m" "i < length (mm_devices m)" "k < unat n"
  shows "\<exists>m'. iterate (mm_clock dev) k m = Some m' \<and> serving r i (n - of_nat k) m' \<and>
    devices_ok slots dinv m' \<and> i < length (mm_devices m')"
  using assms
proof (induction k arbitrary: n m)
  case (Suc k)
  then have n: "n > 1" by (simp add: word_less_nat_alt)
  obtain m1 where m1: "mm_clock dev m = Some m1" "serving r i (n - 1) m1" "devices_ok slots dinv m1"
      "i < length (mm_devices m1)"
    using tick_serving [OF Suc.prems(1-3) n] by blast
  have "k < unat (n - 1)" using Suc.prems(4) n by (simp add: unat_sub word_le_nat_alt)
  from Suc.IH [OF m1(2-4) this] show ?case using m1(1) by (simp add: diff_diff_eq)
qed simp

lemma tick_completes:
  assumes "serving r i n m" "devices_ok slots dinv m" "i < length (mm_devices m)" "n \<le> 1"
  shows "\<exists>res m1 m2 m3. execute_request dev i r m = Some (res, m1) \<and> mm_clock dev m = Some m2 \<and>
    perform_request dev r m2 = Some (res, m3) \<and> bus_idle m3 \<and> mm_devices m3 = mm_devices m2 \<and>
    devices_ok slots dinv m3 \<and> tick_slots dev (mm_devices m1) = Some (mm_devices m2)"
proof -
  obtain tid where t: "mm_compat_transaction m = Some \<lparr>ct_id = tid, ct_request = r\<rparr>"
      "mm_active_transactions m =
         [\<lparr>at_id = tid, at_device_index = i, at_request = r, at_phase = TrInFlight n\<rparr>]"
      "mm_active_bursts m = []"
    using assms(1) by (auto simp: serving_def)
  obtain res m1 where e: "execute_request dev i r m = Some (res, m1)" "devices_ok slots dinv m1" "same_bus m m1"
    using execute_request_post [OF assms(2,3), of r] by (auto simp: access_post_def elim!: wp_elim)
  obtain p where p: "finish_request dev i r m = Some (p, m1)"
      "p = (case res of Inr resp \<Rightarrow> TrReady resp | Inl e \<Rightarrow> TrFailed e)"
    using finish_request_ready [OF e(1)] by blast
  let ?m = "m1\<lparr>mm_active_transactions :=
    [\<lparr>at_id = tid, at_device_index = i, at_request = r, at_phase = p\<rparr>]\<rparr>"
  have a: "advance_transaction_at dev 0 m = Some ((), ?m)"
    using t p(1) e(3) assms(4)
    by (auto simp: advance_transaction_at_def next_transaction_phase_def Let_def same_bus_def)
  obtain m2 where m2: "tick_devices dev ?m = Some m2" "devices_ok slots dinv m2" "same_bus ?m m2"
    using tick_devices_post [of ?m] e(2) by (auto simp: devices_ok_def)
  have c: "mm_clock dev m = Some m2"
    using a t m2 e(3) by (simp add: mm_clock_def mm_tick_def same_bus_def)
  have s: "mm_compat_transaction m2 = Some \<lparr>ct_id = tid, ct_request = r\<rparr>"
    "mm_active_transactions m2 = [\<lparr>at_id = tid, at_device_index = i, at_request = r, at_phase = p\<rparr>]"
    "mm_active_bursts m2 = []"
    using m2(3) e(3) t by (simp_all add: same_bus_def)
  let ?m3 = "m2\<lparr>mm_active_transactions := [], mm_compat_transaction := None\<rparr>"
  have "perform_request dev r m2 = Some (res, ?m3)"
    using s p(2)
    by (cases res) (simp_all add: perform_request_def poll_compat_def mm_transaction_phase_def
        transaction_index_def mm_take_transaction_response_def swap_remove_def clear_compat_if_matches_def)
  moreover have "bus_idle ?m3" using s(3) by (simp add: bus_idle_def)
  moreover have "devices_ok slots dinv ?m3" using m2(2) by (simp add: devices_ok_def)
  moreover have "tick_slots dev (mm_devices m1) = Some (mm_devices m2)"
    using m2(1) by (auto simp: tick_devices_def)
  ultimately show ?thesis using e(1) c by (intro exI conjI) (assumption | simp)+
qed

lemma request_completes:
  assumes "devices_ok slots dinv m" "bus_idle m" "find_device_index (tr_addr r) m = Some i"
    and "latency_of dev i (tr_addr r) (tr_kind r) (tr_width r) m = Some (n, m1)" "n \<noteq> 0"
  shows "\<exists>m2 last res done ready final.
    perform_request dev r m = Some (Inl (Busy n), m2) \<and>
    (\<forall>k < unat n. \<exists>mk. iterate (mm_clock dev) k m2 = Some mk \<and>
      perform_request dev r mk = Some (Inl (Busy (n - of_nat k)), mk)) \<and>
    iterate (mm_clock dev) (unat n - 1) m2 = Some last \<and>
    execute_request dev i r last = Some (res, done) \<and>
    mm_clock dev last = Some ready \<and>
    perform_request dev r ready = Some (res, final) \<and> bus_idle final \<and> devices_ok slots dinv final"
proof -
  obtain m2 where m2: "perform_request dev r m = Some (Inl (Busy n), m2)" "serving r i n m2"
      "devices_ok slots dinv m2" "i < length (mm_devices m2)"
    using perform_first [OF assms] by blast
  have un: "unat n \<noteq> 0" using assms(5) by (simp add: unat_eq_zero)
  have busy: "\<exists>mk. iterate (mm_clock dev) k m2 = Some mk \<and>
      perform_request dev r mk = Some (Inl (Busy (n - of_nat k)), mk)" if k: "k < unat n" for k
  proof -
    obtain mk where mk: "iterate (mm_clock dev) k m2 = Some mk" "serving r i (n - of_nat k) mk"
      using ticks_serving [OF m2(2-4) k] by blast
    have "unat (of_nat k :: u32) = k"
      using k unsigned_less [of n, where ?'a = nat] by (simp add: unat_of_nat)
    then have "unat (n - of_nat k) = unat n - k" using k by (simp add: unat_sub word_le_nat_alt)
    then have "1 \<le> n - of_nat k" using k by (simp add: word_le_nat_alt)
    then have "max (n - of_nat k) 1 = n - of_nat k" by simp
    then show ?thesis using mk perform_serving by metis
  qed
  let ?k = "unat n - 1"
  obtain last where l: "iterate (mm_clock dev) ?k m2 = Some last" "serving r i (n - of_nat ?k) last"
      "devices_ok slots dinv last" "i < length (mm_devices last)"
    using ticks_serving [OF m2(2-4), of ?k] un by auto
  have "unat (of_nat ?k :: u32) = ?k"
    using unsigned_less [of n, where ?'a = nat] by (simp add: unat_of_nat)
  then have "unat (n - of_nat ?k) = 1" using un by (simp add: unat_sub word_le_nat_alt)
  then have "n - of_nat ?k \<le> 1" by (simp add: word_le_nat_alt)
  from tick_completes [OF l(2-4) this] obtain res m3 m4 m5 where
      "execute_request dev i r last = Some (res, m3)" "mm_clock dev last = Some m4"
      "perform_request dev r m4 = Some (res, m5)" "bus_idle m5" "devices_ok slots dinv m5"
    by blast
  then show ?thesis using m2(1) busy l(1) by blast
qed

text \<open>A request that is not collected blocks every other one, whatever the number of cycles.\<close>

lemma uncollected_blocks:
  assumes "mm_ok slots dinv m" "mm_compat_transaction m = Some c"
  shows "\<exists>m'. iterate (mm_clock dev) n m = Some m' \<and> mm_ok slots dinv m' \<and> mm_compat_transaction m' = Some c"
proof -
  have "\<exists>m'. mm_clock dev m = Some m' \<and> mm_ok slots dinv m' \<and> mm_compat_transaction m' = Some c"
    if m: "mm_ok slots dinv m" "mm_compat_transaction m = Some c" for m
    using mm_tick_keeps [OF m(1)] m(2) by (auto simp: mm_clock_def elim!: wp_elim)
  from iterate_invariant [of "\<lambda>m. mm_ok slots dinv m \<and> mm_compat_transaction m = Some c" "mm_clock dev", OF this]
  show ?thesis using assms by auto
qed

end

end
