(* ===== verification/Block_Device.thy ===== *)
theory Block_Device
  imports Interrupt_Devices
begin

text \<open>
  The block device (\<open>crates/devices/src/block_device.rs\<close>): a storage of equal blocks behind a
  one-block staging window, with commands that take a fixed number of ticks. Slices of the storage
  that are out of bounds panic in the code; the invariant \<open>block_ok\<close> rules them out.
\<close>

datatype block_command = ReadBlock | WriteBlock

record active_command =
  ac_kind :: block_command
  ac_remaining_cycles :: u32

record block_device =
  bd_range :: address_range
  block_count :: u32
  block_bytes :: nat
  operation_latency :: u32
  selected_block :: u32
  bd_irq_enabled :: bool
  bd_done :: bool
  bd_error :: bool
  bd_route :: interrupt_route
  staging :: "u8 list"
  storage :: "u8 list"
  bd_active :: "active_command option"

definition route_offset :: "nat \<Rightarrow> u64" where
  "route_offset bytes = 16 + of_nat bytes"

definition block_device_new :: "u64 \<Rightarrow> u32 \<Rightarrow> nat \<Rightarrow> u32 \<Rightarrow> block_device option" where
  "block_device_new base blocks bytes latency =
     (if blocks > 0 \<and> bytes > 0 \<and> bytes mod 4 = 0
      then Some
        \<lparr>bd_range = \<lparr>range_start = base, range_size = route_offset bytes + 4\<rparr>, block_count = blocks,
         block_bytes = bytes, operation_latency = latency, selected_block = 0,
         bd_irq_enabled = False, bd_done = False, bd_error = False, bd_route = RouteMachineExternal,
         staging = replicate bytes 0, storage = replicate (unat blocks * bytes) 0, bd_active = None\<rparr>
      else None)"

text \<open>The range of a block is its first index; a slice of it has \<open>block_bytes\<close> elements.\<close>

definition block_range :: "u32 \<Rightarrow> block_device \<Rightarrow> nat option" where
  "block_range i d = (if i \<ge> block_count d then None else Some (unat i * block_bytes d))"

definition slice :: "nat \<Rightarrow> nat \<Rightarrow> 'a list \<Rightarrow> 'a list option" where
  "slice start n xs = (if start + n \<le> length xs then Some (take n (drop start xs)) else None)"

text \<open>\<open>copy_from_slice\<close> into a slice: it panics if the lengths differ.\<close>

definition copy_into :: "nat \<Rightarrow> nat \<Rightarrow> 'a list \<Rightarrow> 'a list \<Rightarrow> 'a list option" where
  "copy_into start n src xs =
     (if start + n \<le> length xs \<and> length src = n
      then Some (take start xs @ src @ drop (start + n) xs) else None)"

definition block_contents :: "u32 \<Rightarrow> block_device \<Rightarrow> u8 list option option" where
  "block_contents i d =
     (case block_range i d of
        None \<Rightarrow> Some None
      | Some start \<Rightarrow> map_option Some (slice start (block_bytes d) (storage d)))"

definition write_block_contents :: "u32 \<Rightarrow> u8 list \<Rightarrow> (block_device, unit) bus_call" where
  "write_block_contents i bytes d =
     (if length bytes \<noteq> block_bytes d
      then Some (Inl (DeviceFault (range_start (bd_range d) + 16)
        (''block image size '' @ show_nat (length bytes) @ '' does not match device block size '' @
          show_nat (block_bytes d))), d)
      else
        (case block_range i d of
           None \<Rightarrow> Some (Inl (DeviceFault (range_start (bd_range d))
             (''block index '' @ show_nat (unat i) @ '' is out of range'')), d)
         | Some start \<Rightarrow>
             updating (map_option (\<lambda>s. d\<lparr>storage := s\<rparr>)
               (copy_into start (block_bytes d) bytes (storage d)))))"

definition bd_control_word :: "block_device \<Rightarrow> u32" where
  "bd_control_word d =
     (if bd_active d \<noteq> None then 4 else 0) OR (if bd_done d then 8 else 0) OR
     (if bd_irq_enabled d then 16 else 0) OR (if bd_error d then 32 else 0)"

definition finish_command :: "block_command \<Rightarrow> block_device \<Rightarrow> block_device option" where
  "finish_command kind d =
     (case block_range (selected_block d) d of
        None \<Rightarrow> Some (d\<lparr>bd_error := True, bd_done := False\<rparr>)
      | Some start \<Rightarrow>
          map_option (\<lambda>d. d\<lparr>bd_done := True\<rparr>)
            (case kind of
               ReadBlock \<Rightarrow>
                 (case slice start (block_bytes d) (storage d) of
                    None \<Rightarrow> None
                  | Some bs \<Rightarrow> map_option (\<lambda>s. d\<lparr>staging := s\<rparr>)
                      (copy_into 0 (length (staging d)) bs (staging d)))
             | WriteBlock \<Rightarrow>
                 map_option (\<lambda>s. d\<lparr>storage := s\<rparr>)
                   (copy_into start (block_bytes d) (staging d) (storage d))))"

definition start_command :: "block_command \<Rightarrow> block_device \<Rightarrow> block_device option" where
  "start_command kind d =
     (let d = d\<lparr>bd_done := False, bd_error := False\<rparr> in
      if bd_active d \<noteq> None then Some (d\<lparr>bd_error := True\<rparr>)
      else if operation_latency d = 0 then finish_command kind d
      else Some (d\<lparr>bd_active := Some \<lparr>ac_kind = kind, ac_remaining_cycles = operation_latency d\<rparr>\<rparr>))"

definition bd_apply_control_byte :: "u8 \<Rightarrow> block_device \<Rightarrow> block_device option" where
  "bd_apply_control_byte v d =
     (let control = (ucast v :: u32);
          d = d\<lparr>bd_irq_enabled := (control AND 16 \<noteq> 0)\<rparr>;
          d = (if control AND 8 \<noteq> 0 then d\<lparr>bd_done := False\<rparr> else d);
          d = (if control AND 32 \<noteq> 0 then d\<lparr>bd_error := False\<rparr> else d);
          start_read = (control AND 1 \<noteq> 0); start_write = (control AND 2 \<noteq> 0)
      in if start_read \<and> \<not> start_write then start_command ReadBlock d
         else if \<not> start_read \<and> start_write then start_command WriteBlock d
         else if start_read \<and> start_write then Some (d\<lparr>bd_done := False, bd_error := True\<rparr>)
         else Some d)"

definition in_route_register :: "u64 \<Rightarrow> block_device \<Rightarrow> bool" where
  "in_route_register off d \<longleftrightarrow>
     off \<ge> route_offset (block_bytes d) \<and> off < route_offset (block_bytes d) + 4"

definition bd_read_register_byte :: "u64 \<Rightarrow> (block_device, u8) bus_call" where
  "bd_read_register_byte off d =
     (if off \<le> 3 then returning d (reg_byte (selected_block d) (unat off))
      else if off \<le> 7 then returning d (reg_byte (bd_control_word d) (unat (off - 4)))
      else if off \<le> 11 then returning d (reg_byte (block_count d) (unat (off - 8)))
      else if off \<le> 15 then returning d (reg_byte (of_nat (block_bytes d)) (unat (off - 12)))
      else if in_route_register off d then
        returning d (reg_byte (register_bits (bd_route d)) (unat (off - route_offset (block_bytes d))))
      else
        (case idx (staging d) (unat (off - 16)) of
           None \<Rightarrow> Some (Inl (UnmappedAddress (range_start (bd_range d) + off)), d)
         | Some v \<Rightarrow> Some (Inr v, d)))"

definition bd_reset :: "block_device \<Rightarrow> block_device" where
  "bd_reset d =
     d\<lparr>selected_block := 0, bd_irq_enabled := False, bd_done := False, bd_error := False,
       bd_route := RouteMachineExternal, staging := replicate (length (staging d)) 0,
       storage := replicate (length (storage d)) 0, bd_active := None\<rparr>"

text \<open>\<open>tick\<close> of the trait returns nothing, so the panic of its slices is explicit here.\<close>

definition bd_tick :: "block_device \<Rightarrow> block_device option" where
  "bd_tick d =
     (case bd_active d of
        None \<Rightarrow> Some d
      | Some a \<Rightarrow>
          if ac_remaining_cycles a > 1
          then Some (d\<lparr>bd_active := Some (a\<lparr>ac_remaining_cycles := ac_remaining_cycles a - 1\<rparr>)\<rparr>)
          else finish_command (ac_kind a) (d\<lparr>bd_active := None\<rparr>))"

definition bd_pending_interrupts :: "block_device \<Rightarrow> interrupt_set" where
  "bd_pending_interrupts d =
     (if bd_irq_enabled d \<and> (bd_done d \<or> bd_error d)
      then from_line (route_interrupt_line (bd_route d)) else no_interrupts)"

definition bd_load8 :: "u64 \<Rightarrow> (block_device, u8) bus_call" where
  "bd_load8 addr d = at_offset (bd_range d) addr bd_read_register_byte d"

definition bd_store8 :: "u64 \<Rightarrow> u8 \<Rightarrow> (block_device, unit) bus_call" where
  "bd_store8 addr v d =
     at_offset (bd_range d) addr (\<lambda>off d.
       if off \<le> 3 then
         updating (map_option (\<lambda>w. d\<lparr>selected_block := w\<rparr>) (reg_with_byte (selected_block d) (unat off) v))
       else if off \<le> 7 then
         (if off = 4 then updating (bd_apply_control_byte v d) else Some (Inr (), d))
       else if off \<le> 15 then Some (Inl (ReadOnlyAddress addr), d)
       else if in_route_register off d then
         updating (map_option (\<lambda>w. d\<lparr>bd_route := route_from_register w\<rparr>)
           (reg_with_byte (register_bits (bd_route d)) (unat (off - route_offset (block_bytes d))) v))
       else
         (case idx_set (staging d) (unat (off - 16)) v of
            None \<Rightarrow> Some (Inl (UnmappedAddress (range_start (bd_range d) + off)), d)
          | Some s \<Rightarrow> Some (Inr (), d\<lparr>staging := s\<rparr>))) d"

text \<open>A panic of \<open>tick\<close> is the panic of the method.\<close>

definition block_device_ops :: "block_device addressable" where
  "block_device_ops =
     \<lparr>ad_name = (\<lambda>_. ''block-device''), ad_range = bd_range, ad_reset = bd_reset, ad_tick = bd_tick,
      ad_machine_time = (\<lambda>_. None), ad_access_latency = (\<lambda>_ _ _ d. (0, d)),
      ad_pending_interrupts = bd_pending_interrupts, ad_load8 = bd_load8, ad_store8 = bd_store8\<rparr>"

subsection \<open>The slices are in bounds\<close>

definition block_ok :: "block_device \<Rightarrow> bool" where
  "block_ok d \<longleftrightarrow> length (staging d) = block_bytes d \<and>
     length (storage d) = unat (block_count d) * block_bytes d"

lemma block_ok_new: "block_device_new base blocks bytes latency = Some d \<Longrightarrow> block_ok d"
  by (auto simp: block_device_new_def block_ok_def split: if_splits)

lemma block_in_storage:
  assumes "block_ok d" "block_range i d = Some start"
  shows "start + block_bytes d \<le> length (storage d)" "start = unat i * block_bytes d"
proof -
  have i: "unat i < unat (block_count d)" and s: "start = unat i * block_bytes d"
    using assms(2) by (auto simp: block_range_def word_less_nat_alt not_le split: if_splits)
  have "start + block_bytes d = Suc (unat i) * block_bytes d" using s by simp
  also have "... \<le> unat (block_count d) * block_bytes d" using i by (intro mult_le_mono1) simp
  finally show "start + block_bytes d \<le> length (storage d)" using assms(1) by (simp add: block_ok_def)
  show "start = unat i * block_bytes d" by (rule s)
qed

lemma copy_into_Some:
  "start + n \<le> length xs \<Longrightarrow> length src = n \<Longrightarrow>
     \<exists>ys. copy_into start n src xs = Some ys \<and> length ys = length xs \<and> slice start n ys = Some src"
  by (auto simp: copy_into_def slice_def)

lemma slice_copy_other:
  assumes "copy_into start n src xs = Some ys" "start' + n \<le> start \<or> start + n \<le> start'"
  shows "slice start' n ys = slice start' n xs"
proof -
  have c: "start + n \<le> length xs" "length src = n" "ys = take start xs @ src @ drop (start + n) xs"
    using assms(1) by (auto simp: copy_into_def split: if_splits)
  have l: "length ys = length xs" using c by simp
  have "take n (drop start' ys) = take n (drop start' xs)" if "start' + n \<le> length xs"
  proof (rule nth_equalityI)
    show "length (take n (drop start' ys)) = length (take n (drop start' xs))" using l by simp
    fix i assume "i < length (take n (drop start' ys))"
    then show "take n (drop start' ys) ! i = take n (drop start' xs) ! i"
      using c assms(2) that by (auto simp: nth_append)
  qed
  then show ?thesis using c by (auto simp: slice_def)
qed

lemma finish_command_ok: "block_ok d \<Longrightarrow> \<exists>d'. finish_command kind d = Some d' \<and> block_ok d'"
proof (cases "block_range (selected_block d) d")
  case None
  assume "block_ok d"
  then show ?thesis using None by (simp add: finish_command_def block_ok_def)
next
  case (Some start)
  assume d: "block_ok d"
  note b = block_in_storage(1) [OF d Some]
  show ?thesis
  proof (cases kind)
    case ReadBlock
    obtain bs where "slice start (block_bytes d) (storage d) = Some bs" "length bs = block_bytes d"
      using b by (auto simp: slice_def)
    then show ?thesis
      using ReadBlock Some d copy_into_Some [of 0 "length (staging d)" "staging d" bs]
      by (auto simp: finish_command_def block_ok_def)
  next
    case WriteBlock
    then show ?thesis
      using Some d b copy_into_Some [of start "block_bytes d" "storage d" "staging d"]
      by (auto simp: finish_command_def block_ok_def)
  qed
qed

lemma start_command_ok: "block_ok d \<Longrightarrow> \<exists>d'. start_command kind d = Some d' \<and> block_ok d'"
  using finish_command_ok [of "d\<lparr>bd_done := False, bd_error := False\<rparr>" kind]
  by (auto simp: start_command_def Let_def block_ok_def)

lemma apply_control_ok: "block_ok d \<Longrightarrow> \<exists>d'. bd_apply_control_byte v d = Some d' \<and> block_ok d'"
proof -
  have f: "block_ok (d\<lparr>bd_irq_enabled := b\<rparr>) = block_ok d" "block_ok (d\<lparr>bd_done := b\<rparr>) = block_ok d"
    "block_ok (d\<lparr>bd_error := b\<rparr>) = block_ok d" for d b
    by (simp_all add: block_ok_def)
  assume "block_ok d"
  then show ?thesis
    unfolding bd_apply_control_byte_def Let_def
    by (simp add: start_command_ok f)
qed

lemma bd_tick_ok: "block_ok d \<Longrightarrow> \<exists>d'. bd_tick d = Some d' \<and> block_ok d'"
  using finish_command_ok [of "d\<lparr>bd_active := None\<rparr>"]
  by (auto simp: bd_tick_def block_ok_def split: option.split)

lemma route_register_offset: "in_route_register off d \<Longrightarrow> unat (off - route_offset (block_bytes d)) < 4"
  unfolding in_route_register_def by unat_arith

lemma bd_load8_ok: "block_ok d \<Longrightarrow> wp (bd_load8 a d) (\<lambda>_. block_ok)"
  unfolding bd_load8_def bd_read_register_byte_def
  using unat_offset_bounds [of "a - range_start (bd_range d)"]
    route_register_offset [of "a - range_start (bd_range d)" d]
  by (intro at_offset_wp) (auto simp: reg_byte_Some split: option.split)

lemma bd_store8_ok: "block_ok d \<Longrightarrow> wp (bd_store8 a v d) (\<lambda>_. block_ok)"
proof -
  let ?off = "a - range_start (bd_range d)"
  assume d: "block_ok d"
  have f: "block_ok (d\<lparr>selected_block := w\<rparr>)" "block_ok (d\<lparr>bd_route := r\<rparr>)" for w r
    using d by (simp_all add: block_ok_def)
  have s: "idx_set (staging d) i v = Some s \<Longrightarrow> block_ok (d\<lparr>staging := s\<rparr>)" for i s
    using d by (auto simp: block_ok_def idx_set_def split: if_splits)
  obtain d' where c: "bd_apply_control_byte v d = Some d'" "block_ok d'"
    using apply_control_ok [OF d] by blast
  show ?thesis
    unfolding bd_store8_def
    using unat_offset_bounds [of ?off] route_register_offset [of ?off d] f s c d
    by (intro at_offset_wp) (auto simp: reg_with_byte_def split: option.split)
qed

interpretation block: addressable_device block_device_ops block_ok
proof
  fix d :: block_device
  assume "block_ok d"
  then show "block_ok (ad_reset block_device_ops d)"
    by (simp add: block_device_ops_def bd_reset_def block_ok_def)
qed (simp_all add: block_device_ops_def bd_tick_ok bd_load8_ok bd_store8_ok)

subsection \<open>Commands complete after the latency\<close>

definition with_countdown :: "block_command \<Rightarrow> u32 \<Rightarrow> block_device \<Rightarrow> block_device" where
  "with_countdown kind n d = d\<lparr>bd_active := Some \<lparr>ac_kind = kind, ac_remaining_cycles = n\<rparr>\<rparr>"

lemma bd_tick_countdown:
  "n > 1 \<Longrightarrow> bd_tick (with_countdown kind n d) = Some (with_countdown kind (n - 1) d)"
  "n \<le> 1 \<Longrightarrow> bd_tick (with_countdown kind n d) = finish_command kind (d\<lparr>bd_active := None\<rparr>)"
  by (auto simp: bd_tick_def with_countdown_def)

lemma bd_countdown:
  "unat n = Suc k \<Longrightarrow> j \<le> k \<Longrightarrow>
     iterate bd_tick j (with_countdown kind n d) = Some (with_countdown kind (n - of_nat j) d)"
proof (induction j arbitrary: n k)
  case (Suc j)
  then obtain k' where k: "k = Suc k'" by (cases k) auto
  have n: "1 < n" using Suc.prems k by (simp add: word_less_nat_alt)
  then have "unat (n - 1) = Suc k'" using Suc.prems k by (simp add: unat_sub word_le_nat_alt)
  then show ?case using Suc n k by (simp add: bd_tick_countdown diff_diff_eq)
qed simp

lemma bd_countdown_done:
  assumes "n \<noteq> 0"
  shows "iterate bd_tick (unat n) (with_countdown kind n d) = finish_command kind (d\<lparr>bd_active := None\<rparr>)"
proof -
  obtain k where k: "unat n = Suc k" using assms by (metis unat_eq_zero not0_implies_Suc)
  have "unat (of_nat k :: u32) = k" using k unsigned_less [of n, where ?'a = nat] by (simp add: unat_of_nat)
  then have "unat (n - of_nat k) = 1" using k by (simp add: unat_sub word_le_nat_alt)
  then have "n - of_nat k \<le> 1" by (simp add: word_le_nat_alt)
  then show ?thesis
    using k bd_countdown [OF k order_refl] iterate_add [of bd_tick k 1]
    by (simp add: bd_tick_countdown(2) split: option.split)
qed

definition command_effect :: "block_command \<Rightarrow> block_device \<Rightarrow> block_device \<Rightarrow> bool" where
  "command_effect kind d d' \<longleftrightarrow>
     bd_active d' = None \<and> bd_done d' \<and> selected_block d' = selected_block d \<and>
     block_contents (selected_block d) d' = Some (Some (staging d')) \<and>
     (case kind of
        ReadBlock \<Rightarrow> storage d' = storage d
      | WriteBlock \<Rightarrow> staging d' = staging d \<and>
          (\<forall>i. i \<noteq> selected_block d \<longrightarrow> block_contents i d' = block_contents i d))"

lemma finish_command_effect:
  assumes "block_ok d" "bd_active d = None" "selected_block d < block_count d"
  shows "\<exists>d'. finish_command kind d = Some d' \<and> command_effect kind d d' \<and> bd_error d' = bd_error d"
proof -
  let ?s = "unat (selected_block d) * block_bytes d"
  have r: "block_range (selected_block d) d = Some ?s"
    using assms(3) by (simp add: block_range_def not_le)
  note b = block_in_storage(1) [OF assms(1) r]
  show ?thesis
  proof (cases kind)
    case ReadBlock
    obtain bs where bs: "slice ?s (block_bytes d) (storage d) = Some bs" "length bs = block_bytes d"
      using b by (auto simp: slice_def)
    then have "copy_into 0 (length (staging d)) bs (staging d) = Some bs"
      using assms(1) by (simp add: copy_into_def block_ok_def)
    then show ?thesis
      using ReadBlock r bs assms
      by (simp add: finish_command_def command_effect_def block_contents_def block_range_def)
  next
    case WriteBlock
    obtain ys where ys: "copy_into ?s (block_bytes d) (staging d) (storage d) = Some ys"
        "slice ?s (block_bytes d) ys = Some (staging d)"
      using copy_into_Some [OF b, of "staging d"] assms(1) by (auto simp: block_ok_def)
    have o: "slice (unat i * block_bytes d) (block_bytes d) ys =
        slice (unat i * block_bytes d) (block_bytes d) (storage d)" if "i \<noteq> selected_block d" for i
    proof (rule slice_copy_other [OF ys(1)])
      have "unat i < unat (selected_block d) \<or> unat (selected_block d) < unat i"
        using that by (metis nat_neq_iff word_unat_eq_iff)
      then have "Suc (unat i) * block_bytes d \<le> ?s \<or>
          Suc (unat (selected_block d)) * block_bytes d \<le> unat i * block_bytes d"
        by (metis Suc_leI mult_le_mono1)
      then show "unat i * block_bytes d + block_bytes d \<le> ?s \<or>
          ?s + block_bytes d \<le> unat i * block_bytes d"
        by (simp add: add.commute)
    qed
    then show ?thesis
      using WriteBlock r ys assms
      by (auto simp: finish_command_def command_effect_def block_contents_def block_range_def)
  qed
qed

text \<open>
  C30. A block command on an idle device with a selected block in range runs for exactly the
  configured latency: before it, the device is busy and not done; after it, it is idle, done and
  without error, the staging window and the selected block agree, a read has left the storage as
  it was, and a write has left the window and every other block as they were.
\<close>

theorem block_command_completes:
  assumes "block_ok d" "bd_active d = None" "selected_block d < block_count d" "operation_latency d \<noteq> 0"
  shows "\<exists>d1. start_command kind d = Some d1 \<and>
    (\<forall>k < unat (operation_latency d). \<exists>dk. iterate bd_tick k d1 = Some dk \<and>
      bd_active dk \<noteq> None \<and> \<not> bd_done dk) \<and>
    (\<exists>d2. iterate bd_tick (unat (operation_latency d)) d1 = Some d2 \<and>
      command_effect kind d d2 \<and> \<not> bd_error d2)"
proof -
  let ?n = "operation_latency d" and ?d = "d\<lparr>bd_done := False, bd_error := False\<rparr>"
  have s: "start_command kind d = Some (with_countdown kind ?n ?d)"
    using assms by (simp add: start_command_def with_countdown_def)
  obtain k where k: "unat ?n = Suc k" using assms(4) by (metis unat_eq_zero not0_implies_Suc)
  have b: "\<exists>dk. iterate bd_tick j (with_countdown kind ?n ?d) = Some dk \<and> bd_active dk \<noteq> None \<and> \<not> bd_done dk"
    if "j < unat ?n" for j
    using bd_countdown [OF k, of j kind ?d] that k by (auto simp: with_countdown_def)
  have "?d\<lparr>bd_active := None\<rparr> = ?d" using assms(2) by simp
  moreover obtain d2 where "finish_command kind ?d = Some d2" "command_effect kind ?d d2" "\<not> bd_error d2"
    using finish_command_effect [of ?d kind] assms by (auto simp: block_ok_def)
  moreover have "command_effect kind d d2 = command_effect kind ?d d2" for d2
    by (simp add: command_effect_def block_contents_def block_range_def split: block_command.split)
  ultimately show ?thesis
    using s b bd_countdown_done [OF assms(4), of kind ?d] by auto
qed

definition sample_block_device :: block_device where
  "sample_block_device =
     \<lparr>bd_range = \<lparr>range_start = 0, range_size = 24\<rparr>, block_count = 2, block_bytes = 4,
      operation_latency = 3, selected_block = 1, bd_irq_enabled = False, bd_done = False,
      bd_error = False, bd_route = RouteMachineExternal, staging = [1, 2, 3, 4],
      storage = replicate 8 0, bd_active = None\<rparr>"

lemma block_command_completes_witness:
  "\<exists>d1 d2. start_command WriteBlock sample_block_device = Some d1 \<and> iterate bd_tick 3 d1 = Some d2 \<and>
     command_effect WriteBlock sample_block_device d2"
proof -
  have "block_ok sample_block_device" "bd_active sample_block_device = None"
    "selected_block sample_block_device < block_count sample_block_device"
    "operation_latency sample_block_device \<noteq> 0"
    by (simp_all add: block_ok_def sample_block_device_def)
  note c = block_command_completes [OF this, of WriteBlock]
  have "unat (operation_latency sample_block_device) = 3" by (simp add: sample_block_device_def)
  with c show ?thesis by metis
qed

end
