(* ===== verification/Devices.thy ===== *)
theory Devices
  imports Memory_Map Block_Device Dma_Controller
begin

text \<open>
  The devices of \<open>crates/devices\<close> as one type: a \<open>Box<dyn Addressable>\<close> of the memory map is a
  value of \<open>device\<close>, and the record \<open>device_ops\<close> is its dynamic dispatch. A device is one of the
  devices of the crate, or one of them behind a \<open>LatencyAdapter\<close>. The interpretation at the end
  discharges the contract of \<open>addressable_device\<close> for it, and with it that of \<open>bus_safe\<close> for a
  memory map of such devices.
\<close>

datatype plain_device =
    DevRam ram
  | DevRom rom
  | DevDram dram
  | DevUart simple_uart
  | DevMachineSoftware software_interrupt
  | DevSupervisorSoftware software_interrupt
  | DevTimer machine_timer
  | DevInterruptController interrupt_controller
  | DevBlock block_device
  | DevDma dma_controller

definition lifted :: "('x \<Rightarrow> 'y) \<Rightarrow> ('a, 'x) outcome \<Rightarrow> ('a, 'y) outcome" where
  "lifted f = map_option (\<lambda>(r, d). (r, f d))"

lemma wp_lifted [simp]: "wp (lifted f x) Q \<longleftrightarrow> wp x (\<lambda>r d. Q r (f d))"
  by (auto simp: lifted_def wp_def split: option.split)

fun plain_name :: "plain_device \<Rightarrow> string" where
  "plain_name (DevRam d) = ad_name ram_ops d"
| "plain_name (DevRom d) = ad_name rom_ops d"
| "plain_name (DevDram d) = ad_name dram_ops d"
| "plain_name (DevUart d) = ad_name uart_ops d"
| "plain_name (DevMachineSoftware d) = ad_name machine_software_interrupt_ops d"
| "plain_name (DevSupervisorSoftware d) = ad_name supervisor_software_interrupt_ops d"
| "plain_name (DevTimer d) = ad_name timer_ops d"
| "plain_name (DevInterruptController d) = ad_name interrupt_controller_ops d"
| "plain_name (DevBlock d) = ad_name block_device_ops d"
| "plain_name (DevDma d) = ad_name dma_controller_ops d"

fun plain_range :: "plain_device \<Rightarrow> address_range" where
  "plain_range (DevRam d) = ad_range ram_ops d"
| "plain_range (DevRom d) = ad_range rom_ops d"
| "plain_range (DevDram d) = ad_range dram_ops d"
| "plain_range (DevUart d) = ad_range uart_ops d"
| "plain_range (DevMachineSoftware d) = ad_range machine_software_interrupt_ops d"
| "plain_range (DevSupervisorSoftware d) = ad_range supervisor_software_interrupt_ops d"
| "plain_range (DevTimer d) = ad_range timer_ops d"
| "plain_range (DevInterruptController d) = ad_range interrupt_controller_ops d"
| "plain_range (DevBlock d) = ad_range block_device_ops d"
| "plain_range (DevDma d) = ad_range dma_controller_ops d"

fun plain_reset :: "plain_device \<Rightarrow> plain_device" where
  "plain_reset (DevRam d) = DevRam (ad_reset ram_ops d)"
| "plain_reset (DevRom d) = DevRom (ad_reset rom_ops d)"
| "plain_reset (DevDram d) = DevDram (ad_reset dram_ops d)"
| "plain_reset (DevUart d) = DevUart (ad_reset uart_ops d)"
| "plain_reset (DevMachineSoftware d) = DevMachineSoftware (ad_reset machine_software_interrupt_ops d)"
| "plain_reset (DevSupervisorSoftware d) = DevSupervisorSoftware (ad_reset supervisor_software_interrupt_ops d)"
| "plain_reset (DevTimer d) = DevTimer (ad_reset timer_ops d)"
| "plain_reset (DevInterruptController d) = DevInterruptController (ad_reset interrupt_controller_ops d)"
| "plain_reset (DevBlock d) = DevBlock (ad_reset block_device_ops d)"
| "plain_reset (DevDma d) = DevDma (ad_reset dma_controller_ops d)"

fun plain_tick :: "plain_device \<Rightarrow> plain_device option" where
  "plain_tick (DevRam d) = map_option DevRam (ad_tick ram_ops d)"
| "plain_tick (DevRom d) = map_option DevRom (ad_tick rom_ops d)"
| "plain_tick (DevDram d) = map_option DevDram (ad_tick dram_ops d)"
| "plain_tick (DevUart d) = map_option DevUart (ad_tick uart_ops d)"
| "plain_tick (DevMachineSoftware d) = map_option DevMachineSoftware (ad_tick machine_software_interrupt_ops d)"
| "plain_tick (DevSupervisorSoftware d) = map_option DevSupervisorSoftware (ad_tick supervisor_software_interrupt_ops d)"
| "plain_tick (DevTimer d) = map_option DevTimer (ad_tick timer_ops d)"
| "plain_tick (DevInterruptController d) = map_option DevInterruptController (ad_tick interrupt_controller_ops d)"
| "plain_tick (DevBlock d) = map_option DevBlock (ad_tick block_device_ops d)"
| "plain_tick (DevDma d) = map_option DevDma (ad_tick dma_controller_ops d)"

fun plain_machine_time :: "plain_device \<Rightarrow> u64 option" where
  "plain_machine_time (DevRam d) = ad_machine_time ram_ops d"
| "plain_machine_time (DevRom d) = ad_machine_time rom_ops d"
| "plain_machine_time (DevDram d) = ad_machine_time dram_ops d"
| "plain_machine_time (DevUart d) = ad_machine_time uart_ops d"
| "plain_machine_time (DevMachineSoftware d) = ad_machine_time machine_software_interrupt_ops d"
| "plain_machine_time (DevSupervisorSoftware d) = ad_machine_time supervisor_software_interrupt_ops d"
| "plain_machine_time (DevTimer d) = ad_machine_time timer_ops d"
| "plain_machine_time (DevInterruptController d) = ad_machine_time interrupt_controller_ops d"
| "plain_machine_time (DevBlock d) = ad_machine_time block_device_ops d"
| "plain_machine_time (DevDma d) = ad_machine_time dma_controller_ops d"

fun plain_access_latency :: "u64 \<Rightarrow> access_kind \<Rightarrow> nat \<Rightarrow> plain_device \<Rightarrow> u32 \<times> plain_device" where
  "plain_access_latency a k w (DevRam d) = map_prod id DevRam (ad_access_latency ram_ops a k w d)"
| "plain_access_latency a k w (DevRom d) = map_prod id DevRom (ad_access_latency rom_ops a k w d)"
| "plain_access_latency a k w (DevDram d) = map_prod id DevDram (ad_access_latency dram_ops a k w d)"
| "plain_access_latency a k w (DevUart d) = map_prod id DevUart (ad_access_latency uart_ops a k w d)"
| "plain_access_latency a k w (DevMachineSoftware d) = map_prod id DevMachineSoftware (ad_access_latency machine_software_interrupt_ops a k w d)"
| "plain_access_latency a k w (DevSupervisorSoftware d) = map_prod id DevSupervisorSoftware (ad_access_latency supervisor_software_interrupt_ops a k w d)"
| "plain_access_latency a k w (DevTimer d) = map_prod id DevTimer (ad_access_latency timer_ops a k w d)"
| "plain_access_latency a k w (DevInterruptController d) = map_prod id DevInterruptController (ad_access_latency interrupt_controller_ops a k w d)"
| "plain_access_latency a k w (DevBlock d) = map_prod id DevBlock (ad_access_latency block_device_ops a k w d)"
| "plain_access_latency a k w (DevDma d) = map_prod id DevDma (ad_access_latency dma_controller_ops a k w d)"

fun plain_pending :: "plain_device \<Rightarrow> interrupt_set" where
  "plain_pending (DevRam d) = ad_pending_interrupts ram_ops d"
| "plain_pending (DevRom d) = ad_pending_interrupts rom_ops d"
| "plain_pending (DevDram d) = ad_pending_interrupts dram_ops d"
| "plain_pending (DevUart d) = ad_pending_interrupts uart_ops d"
| "plain_pending (DevMachineSoftware d) = ad_pending_interrupts machine_software_interrupt_ops d"
| "plain_pending (DevSupervisorSoftware d) = ad_pending_interrupts supervisor_software_interrupt_ops d"
| "plain_pending (DevTimer d) = ad_pending_interrupts timer_ops d"
| "plain_pending (DevInterruptController d) = ad_pending_interrupts interrupt_controller_ops d"
| "plain_pending (DevBlock d) = ad_pending_interrupts block_device_ops d"
| "plain_pending (DevDma d) = ad_pending_interrupts dma_controller_ops d"

fun plain_load8 :: "u64 \<Rightarrow> (plain_device, u8) bus_call" where
  "plain_load8 a (DevRam d) = lifted DevRam (ad_load8 ram_ops a d)"
| "plain_load8 a (DevRom d) = lifted DevRom (ad_load8 rom_ops a d)"
| "plain_load8 a (DevDram d) = lifted DevDram (ad_load8 dram_ops a d)"
| "plain_load8 a (DevUart d) = lifted DevUart (ad_load8 uart_ops a d)"
| "plain_load8 a (DevMachineSoftware d) = lifted DevMachineSoftware (ad_load8 machine_software_interrupt_ops a d)"
| "plain_load8 a (DevSupervisorSoftware d) = lifted DevSupervisorSoftware (ad_load8 supervisor_software_interrupt_ops a d)"
| "plain_load8 a (DevTimer d) = lifted DevTimer (ad_load8 timer_ops a d)"
| "plain_load8 a (DevInterruptController d) = lifted DevInterruptController (ad_load8 interrupt_controller_ops a d)"
| "plain_load8 a (DevBlock d) = lifted DevBlock (ad_load8 block_device_ops a d)"
| "plain_load8 a (DevDma d) = lifted DevDma (ad_load8 dma_controller_ops a d)"

fun plain_store8 :: "u64 \<Rightarrow> u8 \<Rightarrow> (plain_device, unit) bus_call" where
  "plain_store8 a v (DevRam d) = lifted DevRam (ad_store8 ram_ops a v d)"
| "plain_store8 a v (DevRom d) = lifted DevRom (ad_store8 rom_ops a v d)"
| "plain_store8 a v (DevDram d) = lifted DevDram (ad_store8 dram_ops a v d)"
| "plain_store8 a v (DevUart d) = lifted DevUart (ad_store8 uart_ops a v d)"
| "plain_store8 a v (DevMachineSoftware d) = lifted DevMachineSoftware (ad_store8 machine_software_interrupt_ops a v d)"
| "plain_store8 a v (DevSupervisorSoftware d) = lifted DevSupervisorSoftware (ad_store8 supervisor_software_interrupt_ops a v d)"
| "plain_store8 a v (DevTimer d) = lifted DevTimer (ad_store8 timer_ops a v d)"
| "plain_store8 a v (DevInterruptController d) = lifted DevInterruptController (ad_store8 interrupt_controller_ops a v d)"
| "plain_store8 a v (DevBlock d) = lifted DevBlock (ad_store8 block_device_ops a v d)"
| "plain_store8 a v (DevDma d) = lifted DevDma (ad_store8 dma_controller_ops a v d)"

definition plain_ops :: "plain_device addressable" where
  "plain_ops =
     \<lparr>ad_name = plain_name, ad_range = plain_range, ad_reset = plain_reset, ad_tick = plain_tick,
      ad_machine_time = plain_machine_time, ad_access_latency = plain_access_latency,
      ad_pending_interrupts = plain_pending, ad_load8 = plain_load8, ad_store8 = plain_store8\<rparr>"

fun plain_ok :: "plain_device \<Rightarrow> bool" where
  "plain_ok (DevRam d) = ram_ok d"
| "plain_ok (DevDram d) = dram_ok d"
| "plain_ok (DevMachineSoftware d) = si_ok d"
| "plain_ok (DevSupervisorSoftware d) = si_ok d"
| "plain_ok (DevInterruptController d) = ic_ok d"
| "plain_ok (DevBlock d) = block_ok d"
| "plain_ok (DevDma d) = dma_ok d"
| "plain_ok _ = True"

lemmas device_contracts = ram.addressable_device_axioms rom.addressable_device_axioms [of "\<lambda>_. True"]
  dram.addressable_device_axioms uart.addressable_device_axioms msip.addressable_device_axioms
  ssip.addressable_device_axioms timer.addressable_device_axioms ic.addressable_device_axioms
  block.addressable_device_axioms dma.addressable_device_axioms

lemmas device_resets = device_contracts [THEN addressable_device.reset_dev]
lemmas device_ticks = device_contracts [THEN addressable_device.tick_dev]
lemmas device_latencies = device_contracts [THEN addressable_device.latency_dev]
lemmas device_loads = device_contracts [THEN addressable_device.load8_dev]
lemmas device_stores = device_contracts [THEN addressable_device.store8_dev]

interpretation plain: addressable_device plain_ops plain_ok
proof
  fix d :: plain_device and a k w and v :: u8
  assume d: "plain_ok d"
  show "plain_ok (ad_reset plain_ops d)"
    using d by (cases d) (simp_all add: plain_ops_def device_resets)
  show "\<exists>d'. ad_tick plain_ops d = Some d' \<and> plain_ok d'"
    using d by (cases d) (auto simp: plain_ops_def rom_ops_def uart_ops_def timer_ops_def
        dma_controller_ops_def dest: device_ticks)
  show "plain_ok (snd (ad_access_latency plain_ops a k w d))"
    using d by (cases d) (simp_all add: plain_ops_def device_latencies)
  show "wp (ad_load8 plain_ops a d) (\<lambda>_. plain_ok)"
    using d by (cases d) (simp_all add: plain_ops_def device_loads)
  show "wp (ad_store8 plain_ops a v d) (\<lambda>_. plain_ok)"
    using d by (cases d) (simp_all add: plain_ops_def device_stores)
qed

subsection \<open>Devices behind an adapter\<close>

datatype device = Plain plain_device | Delayed "plain_device latency_adapter"

definition delayed_ops :: "plain_device latency_adapter addressable" where
  "delayed_ops = latency_ops plain_ops"

fun device_name :: "device \<Rightarrow> string" where
  "device_name (Plain d) = ad_name plain_ops d"
| "device_name (Delayed a) = ad_name delayed_ops a"

fun device_range :: "device \<Rightarrow> address_range" where
  "device_range (Plain d) = ad_range plain_ops d"
| "device_range (Delayed a) = ad_range delayed_ops a"

fun device_reset :: "device \<Rightarrow> device" where
  "device_reset (Plain d) = Plain (ad_reset plain_ops d)"
| "device_reset (Delayed a) = Delayed (ad_reset delayed_ops a)"

fun device_tick :: "device \<Rightarrow> device option" where
  "device_tick (Plain d) = map_option Plain (ad_tick plain_ops d)"
| "device_tick (Delayed a) = map_option Delayed (ad_tick delayed_ops a)"

fun device_machine_time :: "device \<Rightarrow> u64 option" where
  "device_machine_time (Plain d) = ad_machine_time plain_ops d"
| "device_machine_time (Delayed a) = ad_machine_time delayed_ops a"

fun device_access_latency :: "u64 \<Rightarrow> access_kind \<Rightarrow> nat \<Rightarrow> device \<Rightarrow> u32 \<times> device" where
  "device_access_latency a k w (Plain d) = map_prod id Plain (ad_access_latency plain_ops a k w d)"
| "device_access_latency a k w (Delayed l) = map_prod id Delayed (ad_access_latency delayed_ops a k w l)"

fun device_pending :: "device \<Rightarrow> interrupt_set" where
  "device_pending (Plain d) = ad_pending_interrupts plain_ops d"
| "device_pending (Delayed a) = ad_pending_interrupts delayed_ops a"

fun device_load8 :: "u64 \<Rightarrow> (device, u8) bus_call" where
  "device_load8 a (Plain d) = lifted Plain (ad_load8 plain_ops a d)"
| "device_load8 a (Delayed l) = lifted Delayed (ad_load8 delayed_ops a l)"

fun device_store8 :: "u64 \<Rightarrow> u8 \<Rightarrow> (device, unit) bus_call" where
  "device_store8 a v (Plain d) = lifted Plain (ad_store8 plain_ops a v d)"
| "device_store8 a v (Delayed l) = lifted Delayed (ad_store8 delayed_ops a v l)"

definition device_ops :: "device addressable" where
  "device_ops =
     \<lparr>ad_name = device_name, ad_range = device_range, ad_reset = device_reset, ad_tick = device_tick,
      ad_machine_time = device_machine_time, ad_access_latency = device_access_latency,
      ad_pending_interrupts = device_pending, ad_load8 = device_load8, ad_store8 = device_store8\<rparr>"

fun device_ok :: "device \<Rightarrow> bool" where
  "device_ok (Plain d) = plain_ok d"
| "device_ok (Delayed a) = plain_ok (la_inner a)"

interpretation delayed: addressable_device delayed_ops "\<lambda>a. plain_ok (la_inner a)"
  unfolding delayed_ops_def by (rule latency_adapter_device [OF plain.addressable_device_axioms])

interpretation device: addressable_device device_ops device_ok
proof
  fix d and a k w and v :: u8
  assume d: "device_ok d"
  show "device_ok (ad_reset device_ops d)"
    using d by (cases d) (simp_all add: device_ops_def plain.reset_dev delayed.reset_dev)
  show "\<exists>d'. ad_tick device_ops d = Some d' \<and> device_ok d'"
    using d by (cases d) (auto simp: device_ops_def dest: plain.tick_dev delayed.tick_dev)
  show "device_ok (snd (ad_access_latency device_ops a k w d))"
    using d by (cases d) (simp_all add: device_ops_def plain.latency_dev delayed.latency_dev)
  show "wp (ad_load8 device_ops a d) (\<lambda>_. device_ok)"
    using d by (cases d) (simp_all add: device_ops_def plain.load8_dev delayed.load8_dev)
  show "wp (ad_store8 device_ops a v d) (\<lambda>_. device_ok)"
    using d by (cases d) (simp_all add: device_ops_def plain.store8_dev delayed.store8_dev)
qed

end
