(* ===== verification/Memory_System.thy ===== *)
theory Memory_System
  imports Devices
begin

text \<open>
  The memory map over the devices of the crate: routing, the time a blocking access takes, what
  an uncollected access does to the others, and read-after-write on the memories. The lemmas of
  \<open>Memory_Map\<close> and the contract \<open>byte_memory\<close> carry the proofs.
\<close>

subsection \<open>The memories among the devices\<close>

fun plain_memory :: "plain_device \<Rightarrow> bool" where
  "plain_memory (DevRam d) = ram_ok d"
| "plain_memory (DevDram d) = dram_ok d"
| "plain_memory _ = False"

fun plain_content :: "plain_device \<Rightarrow> u64 \<Rightarrow> u8" where
  "plain_content (DevRam d) = ram_content d"
| "plain_content (DevDram d) = dram_content d"
| "plain_content _ = (\<lambda>_. 0)"

fun memory_device :: "device \<Rightarrow> bool" where
  "memory_device (Plain d) = plain_memory d"
| "memory_device (Delayed a) = plain_memory (la_inner a)"

fun device_content :: "device \<Rightarrow> u64 \<Rightarrow> u8" where
  "device_content (Plain d) = plain_content d"
| "device_content (Delayed a) = plain_content (la_inner a)"

lemmas memory_loads = ram.load_content dram.load_content
lemmas memory_stores = ram.store_content dram.store_content

lemma wp_conj: "wp x P \<Longrightarrow> wp x Q \<Longrightarrow> wp x (\<lambda>r s. P r s \<and> Q r s)"
  by (auto simp: wp_def split: option.splits)

interpretation plain_mem: byte_memory plain_ops plain_memory plain_content
proof
  fix d d' :: plain_device and a k w and v :: u8
  assume d: "plain_memory d"
  then consider (ram) x where "d = DevRam x" "ram_ok x" | (dram) x where "d = DevDram x" "dram_ok x"
    by (cases d) auto
  note cases = this
  show "plain_memory (ad_reset plain_ops d)"
    using cases by cases (simp_all add: plain_ops_def device_resets)
  show "\<exists>d'. ad_tick plain_ops d = Some d' \<and> plain_memory d'"
    using cases by cases (auto simp: plain_ops_def dest: device_ticks)
  show "plain_memory (snd (ad_access_latency plain_ops a k w d))"
    using cases by cases (simp_all add: plain_ops_def device_latencies)
  show "wp (ad_load8 plain_ops a d) (\<lambda>_. plain_memory)"
    using cases by cases (simp_all add: plain_ops_def device_loads)
  show "wp (ad_store8 plain_ops a v d) (\<lambda>_. plain_memory)"
    using cases by cases (simp_all add: plain_ops_def device_stores)
  show "wp (ad_load8 plain_ops a d) (\<lambda>r d'. r = Inr (plain_content d a) \<and>
      plain_content d' = plain_content d \<and> ad_range plain_ops d' = ad_range plain_ops d)"
    if "range_contains (ad_range plain_ops d) a"
    using cases by cases (use that memory_loads in \<open>simp_all add: plain_ops_def\<close>)
  show "wp (ad_store8 plain_ops a v d) (\<lambda>r d'. r = Inr () \<and>
      plain_content d' = (plain_content d)(a := v) \<and> ad_range plain_ops d' = ad_range plain_ops d)"
    if "range_contains (ad_range plain_ops d) a"
    using cases by cases (use that memory_stores in \<open>simp_all add: plain_ops_def\<close>)
  show "plain_content (snd (ad_access_latency plain_ops a k w d)) = plain_content d \<and>
      ad_range plain_ops (snd (ad_access_latency plain_ops a k w d)) = ad_range plain_ops d"
    using cases by cases (simp_all add: plain_ops_def ram.latency_content dram.latency_content)
  show "plain_content d' = plain_content d \<and> ad_range plain_ops d' = ad_range plain_ops d"
    if "ad_tick plain_ops d = Some d'"
    using cases by cases (use that ram.tick_content dram.tick_content in \<open>auto simp: plain_ops_def\<close>)
qed

interpretation delayed_mem: byte_memory delayed_ops "\<lambda>a. plain_memory (la_inner a)"
    "\<lambda>a. plain_content (la_inner a)"
  unfolding delayed_ops_def by (rule latency_adapter_memory [OF plain_mem.byte_memory_axioms])

interpretation memory: byte_memory device_ops memory_device device_content
proof
  fix d d' and a k w and v :: u8
  assume d: "memory_device d"
  show "memory_device (ad_reset device_ops d)"
    using d by (cases d) (simp_all add: device_ops_def plain_mem.reset_dev delayed_mem.reset_dev)
  show "\<exists>d'. ad_tick device_ops d = Some d' \<and> memory_device d'"
    using d by (cases d) (auto simp: device_ops_def dest: plain_mem.tick_dev delayed_mem.tick_dev)
  show "memory_device (snd (ad_access_latency device_ops a k w d))"
    using d by (cases d) (simp_all add: device_ops_def plain_mem.latency_dev delayed_mem.latency_dev)
  show "wp (ad_load8 device_ops a d) (\<lambda>_. memory_device)"
    using d by (cases d) (simp_all add: device_ops_def plain_mem.load8_dev delayed_mem.load8_dev)
  show "wp (ad_store8 device_ops a v d) (\<lambda>_. memory_device)"
    using d by (cases d) (simp_all add: device_ops_def plain_mem.store8_dev delayed_mem.store8_dev)
  show "wp (ad_load8 device_ops a d) (\<lambda>r d'. r = Inr (device_content d a) \<and>
      device_content d' = device_content d \<and> ad_range device_ops d' = ad_range device_ops d)"
    if "range_contains (ad_range device_ops d) a"
    using d that
    by (cases d) (simp_all add: device_ops_def plain_mem.load_content delayed_mem.load_content)
  show "wp (ad_store8 device_ops a v d) (\<lambda>r d'. r = Inr () \<and>
      device_content d' = (device_content d)(a := v) \<and> ad_range device_ops d' = ad_range device_ops d)"
    if "range_contains (ad_range device_ops d) a"
    using d that
    by (cases d) (simp_all add: device_ops_def plain_mem.store_content delayed_mem.store_content)
  show "device_content (snd (ad_access_latency device_ops a k w d)) = device_content d \<and>
      ad_range device_ops (snd (ad_access_latency device_ops a k w d)) = ad_range device_ops d"
    using d by (cases d)
      (simp_all add: device_ops_def plain_mem.latency_content delayed_mem.latency_content)
  show "device_content d' = device_content d \<and> ad_range device_ops d' = ad_range device_ops d"
    if "ad_tick device_ops d = Some d'"
    using d that plain_mem.tick_content delayed_mem.tick_content
    by (cases d) (auto simp: device_ops_def)
qed

subsection \<open>Accesses to a memory through the map\<close>

text \<open>Slot \<open>i\<close> is a memory with contents \<open>f\<close> and range \<open>r\<close>.\<close>

definition memory_slot :: "nat \<Rightarrow> address_range \<Rightarrow> (u64 \<Rightarrow> u8) \<Rightarrow> device memory_map \<Rightarrow> bool" where
  "memory_slot i r f m \<longleftrightarrow> i < length (mm_devices m) \<and>
     memory_device (slot_device (mm_devices m ! i)) \<and>
     ad_range device_ops (slot_device (mm_devices m ! i)) = r \<and>
     device_content (slot_device (mm_devices m ! i)) = f"

lemma slot_load8:
  assumes "memory_slot i r f m" "range_contains r a"
  shows "\<exists>m'. on_device i (ad_load8 device_ops a) m = Some (Inr (f a), m') \<and> memory_slot i r f m'"
proof -
  let ?d = "slot_device (mm_devices m ! i)"
  have "memory_device ?d" "range_contains (ad_range device_ops ?d) a"
    using assms by (auto simp: memory_slot_def)
  from wp_conj [OF memory.load8_dev [OF this(1)] memory.load_content [OF this]]
  obtain d' where "ad_load8 device_ops a ?d = Some (Inr (f a), d')" "memory_device d'"
      "device_content d' = f" "ad_range device_ops d' = r"
    using assms(1) by (auto simp: memory_slot_def elim!: wp_elim)
  then show ?thesis using assms(1) by (simp add: on_device_def memory_slot_def)
qed

lemma slot_store8:
  assumes "memory_slot i r f m" "range_contains r a"
  shows "\<exists>m'. on_device i (ad_store8 device_ops a v) m = Some (Inr (), m') \<and> memory_slot i r (f(a := v)) m'"
proof -
  let ?d = "slot_device (mm_devices m ! i)"
  have "memory_device ?d" "range_contains (ad_range device_ops ?d) a"
    using assms by (auto simp: memory_slot_def)
  from wp_conj [OF memory.store8_dev [OF this(1)] memory.store_content [OF this]]
  obtain d' where "ad_store8 device_ops a v ?d = Some (Inr (), d')" "memory_device d'"
      "device_content d' = f(a := v)" "ad_range device_ops d' = r"
    using assms(1) by (auto simp: memory_slot_def elim!: wp_elim)
  then show ?thesis using assms(1) by (simp add: on_device_def memory_slot_def)
qed

lemma slot_load_bytes:
  "memory_slot i r f m \<Longrightarrow> (\<forall>k < n. range_contains r (a + of_nat k)) \<Longrightarrow>
     \<exists>m'. load_bytes device_ops i a n m = Some (Inr (map (\<lambda>k. f (a + of_nat k)) [0..<n]), m') \<and>
       memory_slot i r f m'"
proof (induction n arbitrary: a m)
  case (Suc n)
  have "range_contains r a" using Suc.prems(2) [rule_format, of 0] by simp
  then obtain m1 where m1: "on_device i (ad_load8 device_ops a) m = Some (Inr (f a), m1)" "memory_slot i r f m1"
    using slot_load8 [OF Suc.prems(1)] by blast
  have "\<forall>k < n. range_contains r (a + 1 + of_nat k)"
    using Suc.prems(2) [rule_format, of "Suc k" for k] by (simp add: add.assoc)
  from Suc.IH [OF m1(2) this] obtain m2 where
      "load_bytes device_ops i (a + 1) n m1 = Some (Inr (map (\<lambda>k. f (a + 1 + of_nat k)) [0..<n]), m2)"
      "memory_slot i r f m2"
    by blast
  moreover have "f a # map (\<lambda>k. f (a + 1 + of_nat k)) [0..<n] = map (\<lambda>k. f (a + of_nat k)) [0..<Suc n]"
    by (simp add: map_upt_Suc add.assoc del: upt_Suc)
  ultimately show ?case using m1(1) by simp
qed simp

text \<open>The contents after a sequence of byte stores.\<close>

fun stored :: "u64 \<Rightarrow> u8 list \<Rightarrow> (u64 \<Rightarrow> u8) \<Rightarrow> u64 \<Rightarrow> u8" where
  "stored a [] f = f"
| "stored a (v # vs) f = stored (a + 1) vs (f(a := v))"

lemma slot_store_bytes:
  "memory_slot i r f m \<Longrightarrow> (\<forall>k < length vs. range_contains r (a + of_nat k)) \<Longrightarrow>
     \<exists>m'. store_bytes device_ops i a vs m = Some (Inr (), m') \<and> memory_slot i r (stored a vs f) m'"
proof (induction vs arbitrary: a f m)
  case (Cons v vs)
  have "range_contains r a" using Cons.prems(2) [rule_format, of 0] by simp
  then obtain m1 where m1: "on_device i (ad_store8 device_ops a v) m = Some (Inr (), m1)"
      "memory_slot i r (f(a := v)) m1"
    using slot_store8 [OF Cons.prems(1)] by blast
  have "\<forall>k < length vs. range_contains r (a + 1 + of_nat k)"
    using Cons.prems(2) [rule_format, of "Suc k" for k] by (simp add: add.assoc)
  from Cons.IH [OF m1(2) this] obtain m2 where
      "store_bytes device_ops i (a + 1) vs m1 = Some (Inr (), m2)"
      "memory_slot i r (stored (a + 1) vs (f(a := v))) m2"
    by blast
  then show ?case using m1(1) by simp
qed simp

lemma stored_at:
  "length vs < 2 ^ 64 \<Longrightarrow>
     stored a vs f b = (if unat (b - a) < length vs then vs ! unat (b - a) else f b)"
proof (induction vs arbitrary: a f)
  case (Cons v vs)
  show ?case
  proof (cases "b = a")
    case True
    have "b - (a + 1) = - 1" using True by simp
    then have "unat (b - (a + 1)) = 2 ^ 64 - 1" by (simp add: unsigned_minus_1_eq_mask mask_eq_exp_minus_1)
    then show ?thesis using Cons True by simp
  next
    case False
    then have "b - a \<noteq> 0" by simp
    moreover have "unat (b - a) \<noteq> 0" using \<open>b - a \<noteq> 0\<close> by (simp only: unat_eq_zero not_False_eq_True)
    ultimately have "unat (b - a) = Suc (unat (b - a - 1))" using unat_minus_one [of "b - a"] by linarith
    then show ?thesis using Cons False by (simp add: diff_diff_eq)
  qed
qed simp

lemma execute_load:
  assumes "memory_slot i r f m" "w \<in> {1, 2, 4}" "\<forall>k < w. range_contains r (a + of_nat k)"
  shows "\<exists>m'. execute_request device_ops i (load_request a w) m =
      Some (Inr (ReadData (map (\<lambda>k. f (a + of_nat k)) [0..<w] @ replicate (4 - w) 0) w), m') \<and>
    memory_slot i r f m'"
proof (cases "w = 1")
  case True
  then have "range_contains r a" using assms(3) by simp
  from slot_load8 [OF assms(1) this] show ?thesis
    using True by (auto simp: execute_request_def load_request_def Let_def numeral_eq_Suc)
next
  case False
  then have "w = 2 \<or> w = 4" using assms(2) by auto
  then show ?thesis
    using slot_load_bytes [OF assms(1,3)]
    by (auto simp: execute_request_def load_request_def Let_def numeral_eq_Suc
        simp del: load_bytes.simps upt_Suc)
qed

lemma execute_store:
  assumes "memory_slot i r f m" "w \<in> {1, 2, 4}" "\<forall>k < w. range_contains r (a + of_nat k)" "length data = 4"
  shows "\<exists>m'. execute_request device_ops i (store_request a w data) m = Some (Inr WriteComplete, m') \<and>
    memory_slot i r (stored a (take w data) f) m'"
proof -
  obtain b0 b1 b2 b3 where d: "data = [b0, b1, b2, b3]"
    using assms(4) by (auto simp: numeral_eq_Suc length_Suc_conv)
  show ?thesis
  proof (cases "w = 1")
    case True
    then have "range_contains r a" using assms(3) by simp
    from slot_store8 [OF assms(1) this, of b0] show ?thesis
      using True d by (auto simp: execute_request_def store_request_def Let_def)
  next
    case False
    then have "w = 2 \<or> w = 4" using assms(2) by auto
    then show ?thesis
      using slot_store_bytes [OF assms(1), of "take w data" a] assms(3) d
      by (auto simp: execute_request_def store_request_def Let_def numeral_2_eq_2
          simp del: store_bytes.simps stored.simps)
  qed
qed

text \<open>
  C24. Read after write. On a slot of the map that is a memory (RAM or DRAM, with or without a
  latency adapter), a store of one, two or four bytes in its range succeeds, a load of the same
  width then returns the bytes stored, and every other byte of the memory keeps its value.
\<close>

theorem memory_store_load:
  assumes "memory_slot i r f m" "w \<in> {1, 2, 4}" "\<forall>k < w. range_contains r (a + of_nat k)" "length data = 4"
  shows "\<exists>m1 m2 f'.
    execute_request device_ops i (store_request a w data) m = Some (Inr WriteComplete, m1) \<and>
    execute_request device_ops i (load_request a w) m1 =
      Some (Inr (ReadData (take w data @ replicate (4 - w) 0) w), m2) \<and>
    memory_slot i r f' m1 \<and> memory_slot i r f' m2 \<and>
    (\<forall>b. \<not> unat (b - a) < w \<longrightarrow> f' b = f b)"
proof -
  let ?f = "stored a (take w data) f"
  obtain m1 where m1: "execute_request device_ops i (store_request a w data) m = Some (Inr WriteComplete, m1)"
      "memory_slot i r ?f m1"
    using execute_store [OF assms] by blast
  have w: "w \<le> 4" using assms(2) by auto
  have "map (\<lambda>k. ?f (a + of_nat k)) [0..<w] = take w data"
  proof (rule nth_equalityI)
    fix k assume k: "k < length (map (\<lambda>k. ?f (a + of_nat k)) [0..<w])"
    then have "unat (a + of_nat k - a) = k" using w by (simp add: unat_of_nat)
    then show "map (\<lambda>k. ?f (a + of_nat k)) [0..<w] ! k = take w data ! k"
      using k w assms(4) by (simp add: stored_at)
  qed (use w assms(4) in simp)
  moreover have "\<forall>b. \<not> unat (b - a) < w \<longrightarrow> ?f b = f b" using w assms(4) by (simp add: stored_at)
  ultimately show ?thesis
    using m1 execute_load [OF m1(2) assms(2,3)] by metis
qed

subsection \<open>A sample map\<close>

text \<open>Sixteen bytes of RAM behind a latency of two cycles, at address 0.\<close>

definition sample_slow_ram :: device where
  "sample_slow_ram = Delayed \<lparr>la_inner = DevRam (ram_new 0 16), la_latency_cycles = 2\<rparr>"

definition sample_map :: "device memory_map" where
  "sample_map = snd (map_device device_ops sample_slow_ram memory_map_new)"

lemma sample_map_eq:
  "sample_map = memory_map_new\<lparr>mm_devices := [\<lparr>slot_range = \<lparr>range_start = 0, range_size = 16\<rparr>,
     slot_name = ''ram'', slot_device = sample_slow_ram\<rparr>]\<rparr>"
  by (simp add: sample_map_def map_device_def memory_map_new_def sample_slow_ram_def device_ops_def
      delayed_ops_def latency_ops_def plain_ops_def ram_ops_def ram_new_def Let_def)

lemma sample_map_ok: "mm_ok 0 (\<lambda>_. device_ok) sample_map" "bus_idle sample_map"
  by (simp_all add: sample_map_eq mm_ok_def devices_ok_def single_client_def memory_map_new_def
      bus_idle_def sample_slow_ram_def ram_ok_new)

lemma sample_memory_slot:
  "memory_slot 0 \<lparr>range_start = 0, range_size = 16\<rparr> (device_content sample_slow_ram) sample_map"
  by (simp add: memory_slot_def sample_map_eq sample_slow_ram_def ram_ok_new device_ops_def
      delayed_ops_def latency_ops_def plain_ops_def ram_ops_def ram_new_def ram_ok_def)

lemma memory_store_load_witness:
  "\<exists>m1 m2. execute_request device_ops 0 (store_request 4 2 [7, 8, 0, 0]) sample_map =
      Some (Inr WriteComplete, m1) \<and>
    execute_request device_ops 0 (load_request 4 2) m1 = Some (Inr (ReadData [7, 8, 0, 0] 2), m2)"
proof -
  have "\<forall>k < 2. range_contains \<lparr>range_start = 0, range_size = 16\<rparr> (4 + of_nat k)"
    by (auto simp: range_contains_def range_end_def less_2_cases_iff)
  from memory_store_load [OF sample_memory_slot _ this, of "[7, 8, 0, 0]"] show ?thesis
    by (auto simp: numeral_2_eq_2)
qed

subsection \<open>Routing\<close>

text \<open>
  C29. Mapping a device. When it is accepted, no two devices of the map share an address, the
  addresses of its range reach it, and every other address reaches the device it reached before;
  when it is refused, the map is unchanged.
\<close>

theorem map_device_routes:
  assumes "slots_disjoint m"
  shows "(map_device device_ops d m = (Inr (), m') \<longrightarrow>
      slots_disjoint m' \<and> slot_device (mm_devices m' ! length (mm_devices m)) = d \<and>
      (\<forall>a. find_device_index a m' =
        (if range_contains (ad_range device_ops d) a then Some (length (mm_devices m))
         else find_device_index a m))) \<and>
    (map_device device_ops d m = (Inl e, m') \<longrightarrow> m' = m)"
  by (rule map_device_spec [OF assms])

lemma map_device_routes_witness:
  "find_device_index 5 sample_map = Some 0 \<and> find_device_index 16 sample_map = None"
proof -
  have "slots_disjoint (memory_map_new :: device memory_map)"
    by (simp add: slots_disjoint_def memory_map_new_def)
  moreover have "map_device device_ops sample_slow_ram memory_map_new = (Inr (), sample_map)"
    unfolding sample_map_def by (simp add: map_device_def memory_map_new_def Let_def)
  ultimately have "find_device_index a sample_map =
      (if range_contains (ad_range device_ops sample_slow_ram) a then Some 0 else None)" for a
    using map_device_routes [of memory_map_new sample_slow_ram sample_map undefined]
    by (simp add: memory_map_new_def find_device_index_def)
  then show ?thesis
    by (simp add: range_contains_def range_end_def sample_slow_ram_def device_ops_def delayed_ops_def
        latency_ops_def plain_ops_def ram_ops_def ram_new_def)
qed

subsection \<open>Blocking accesses\<close>

text \<open>
  C16. A blocking access completes after the latency of its device. On an idle bus, the first call
  answers \<open>Busy n\<close>; while the clock runs, calling again answers the cycles left and changes
  nothing; at the last of the \<open>n\<close> ticks the access is made, once, on the devices as they are then,
  and the next call returns its result and leaves the bus idle. Nothing on the way panics.
\<close>

theorem blocking_access_completes:
  assumes "devices_ok 0 (\<lambda>_. device_ok) m" "bus_idle m" "find_device_index (tr_addr r) m = Some i"
    and "latency_of device_ops i (tr_addr r) (tr_kind r) (tr_width r) m = Some (n, m1)" "n \<noteq> 0"
  shows "\<exists>m2 last res done ready final.
    perform_request device_ops r m = Some (Inl (Busy n), m2) \<and>
    (\<forall>k < unat n. \<exists>mk. iterate (mm_clock device_ops) k m2 = Some mk \<and>
      perform_request device_ops r mk = Some (Inl (Busy (n - of_nat k)), mk)) \<and>
    iterate (mm_clock device_ops) (unat n - 1) m2 = Some last \<and>
    execute_request device_ops i r last = Some (res, done) \<and>
    mm_clock device_ops last = Some ready \<and>
    perform_request device_ops r ready = Some (res, final) \<and> bus_idle final \<and> devices_ok 0 (\<lambda>_. device_ok) final"
  by (rule device.family.request_completes [OF assms])

lemma sample_latency:
  "find_device_index 4 sample_map = Some 0"
  "latency_of device_ops 0 4 LoadAccess 4 sample_map = Some (2, sample_map)"
  by (simp_all add: sample_map_eq find_device_index_def range_contains_def range_end_def latency_of_def
      on_device_def memory_map_new_def sample_slow_ram_def device_ops_def delayed_ops_def latency_ops_def)

lemma blocking_access_completes_witness:
  "\<exists>m2 m3. perform_request device_ops (load_request 4 4) sample_map = Some (Inl (Busy 2), m2) \<and>
     iterate (mm_clock device_ops) 1 m2 = Some m3 \<and>
     perform_request device_ops (load_request 4 4) m3 = Some (Inl (Busy 1), m3)"
proof -
  have "devices_ok 0 (\<lambda>_. device_ok) sample_map" using sample_map_ok(1) by (simp add: mm_ok_def)
  from blocking_access_completes [of sample_map "load_request 4 4" 0 2 sample_map, OF this sample_map_ok(2)]
  obtain m2 where m2: "perform_request device_ops (load_request 4 4) sample_map = Some (Inl (Busy 2), m2)"
      "\<forall>k < unat (2 :: u32). \<exists>mk. iterate (mm_clock device_ops) k m2 = Some mk \<and>
        perform_request device_ops (load_request 4 4) mk = Some (Inl (Busy (2 - of_nat k)), mk)"
    using sample_latency by (auto simp: load_request_def)
  from m2(2) [rule_format, of 1] show ?thesis using m2(1) by auto
qed

text \<open>
  An access that its requester does not collect blocks the bus. While the compatibility slot
  holds a request, any other blocking request is answered \<open>Busy\<close> and changes nothing, now and
  after every number of clock ticks; only repeating the held request frees the slot.
\<close>

theorem uncollected_access_blocks:
  assumes "mm_ok 0 (\<lambda>_. device_ok) m" "mm_compat_transaction m = Some c" "ct_request c \<noteq> r"
  shows "\<exists>m' k. iterate (mm_clock device_ops) n m = Some m' \<and>
    perform_request device_ops r m' = Some (Inl (Busy k), m')"
proof -
  obtain m' where "iterate (mm_clock device_ops) n m = Some m'" "mm_compat_transaction m' = Some c"
    using device.family.uncollected_blocks [OF assms(1,2)] by blast
  then show ?thesis
    using perform_other [OF _ assms(3)] by (auto simp: busy_compat_def)
qed

text \<open>The map after a fetch at 0 that found the bus idle.\<close>

definition sample_fetching :: "device memory_map" where
  "sample_fetching =
     sample_map\<lparr>mm_next_transaction_id := 1,
       mm_active_transactions := [\<lparr>at_id = 0, at_device_index = 0, at_request = fetch32_request 0,
         at_phase = TrInFlight 2\<rparr>],
       mm_compat_transaction := Some \<lparr>ct_id = 0, ct_request = fetch32_request 0\<rparr>\<rparr>"

lemma sample_fetching_reached:
  "perform_request device_ops (fetch32_request 0) sample_map = Some (Inl (Busy 2), sample_fetching)"
  by (simp add: sample_map_eq sample_fetching_def perform_request_def mm_submit_transaction_def
      find_device_index_def range_contains_def range_end_def latency_of_def on_device_def
      memory_map_new_def sample_slow_ram_def device_ops_def delayed_ops_def latency_ops_def
      poll_compat_def mm_transaction_phase_def transaction_index_def mm_advance_transaction_def
      advance_transaction_at_def next_transaction_phase_def Let_def fetch32_request_def
      mm_take_transaction_response_def busy_compat_def compat_remaining_cycles_def)

lemma uncollected_access_blocks_witness:
  "\<exists>m' k. iterate (mm_clock device_ops) 1000 sample_fetching = Some m' \<and>
     perform_request device_ops (fetch32_request 8) m' = Some (Inl (Busy k), m')"
proof (rule uncollected_access_blocks)
  show "mm_ok 0 (\<lambda>_. device_ok) sample_fetching"
    using sample_map_ok
    by (simp add: mm_ok_def sample_fetching_def devices_ok_def single_client_def phase_fits_def
        bus_idle_def sample_map_eq)
  show "mm_compat_transaction sample_fetching = Some \<lparr>ct_id = 0, ct_request = fetch32_request 0\<rparr>"
    by (simp add: sample_fetching_def)
  show "ct_request \<lparr>ct_id = 0, ct_request = fetch32_request 0\<rparr> \<noteq> fetch32_request 8"
    by (simp add: fetch32_request_def)
qed

end
