(* ===== verification/Arbiter.thy ===== *)
theory Arbiter
  imports Bus
begin

text \<open>
  The arbiter (\<open>crates/system/src/arbiter.rs\<close>): a bus wrapper that shares the bus below between
  the CPU, which calls it like any bus, and autonomous masters, which it serves round robin. A
  granted request stays in flight until the bus completes it; responses go back to each master in
  the order of its requests. In a cycle in which the arbiter offers a master's request to the bus,
  the CPU is refused with \<open>Busy\<close>.

  A method is a function on \<open>arbiter\<close>, over the operations \<open>ops\<close> of the bus below and \<open>mo\<close> of the
  masters. The names of the masters only appear in \<open>Debug\<close> and are not modelled. An
  \<open>unreachable!\<close> and an index out of bounds are \<open>None\<close>.
\<close>

record pending_request =
  pr_master :: nat
  pr_request :: bus_master_request

datatype request_id = TransactionId u64 | BurstId u64

record in_flight_request =
  if_master :: nat
  if_request :: bus_master_request
  if_id :: request_id
  if_completion :: "(bus_error + bus_master_response) option"

record arbiter_stats =
  master_grants :: u64
  cpu_stall_cycles :: u64

record ('m, 'b) arbiter =
  arb_inner :: 'b
  arb_masters :: "'m list"
  next_master_index :: nat
  arb_pending :: "pending_request option"
  in_flight :: "in_flight_request list"
  cpu_reserved :: bool
  arb_stats :: arbiter_stats

definition arbiter_stats_default :: arbiter_stats where
  "arbiter_stats_default = \<lparr>master_grants = 0, cpu_stall_cycles = 0\<rparr>"

definition arbiter_new :: "'b \<Rightarrow> ('m, 'b) arbiter" where
  "arbiter_new inner =
     \<lparr>arb_inner = inner, arb_masters = [], next_master_index = 0, arb_pending = None, in_flight = [],
      cpu_reserved = False, arb_stats = arbiter_stats_default\<rparr>"

definition add_master :: "'m \<Rightarrow> ('m, 'b) arbiter \<Rightarrow> ('m, 'b) arbiter" where
  "add_master m a = a\<lparr>arb_masters := arb_masters a @ [m]\<rparr>"

subsection \<open>Requests and responses\<close>

fun request_to_transaction :: "bus_master_request \<Rightarrow> transaction_request option" where
  "request_to_transaction (MasterLoad32 a) = Some (load_request a 4)"
| "request_to_transaction (MasterStore32 a v) = Some (store_request a 4 (le_bytes32 v))"
| "request_to_transaction (MasterReadWords _ _) = None"
| "request_to_transaction (MasterWriteWords _ _) = None"

fun request_to_burst :: "bus_master_request \<Rightarrow> burst_request option" where
  "request_to_burst (MasterReadWords a n) = Some (BurstRead a n LoadAccess)"
| "request_to_burst (MasterWriteWords a ws) = Some (BurstWrite a ws)"
| "request_to_burst (MasterLoad32 _) = None"
| "request_to_burst (MasterStore32 _ _) = None"

fun request_addr :: "bus_master_request \<Rightarrow> u64" where
  "request_addr (MasterLoad32 a) = a"
| "request_addr (MasterStore32 a _) = a"
| "request_addr (MasterReadWords a _) = a"
| "request_addr (MasterWriteWords a _) = a"

definition response_from_transaction ::
  "bus_master_request \<Rightarrow> transaction_response \<Rightarrow> bus_error + bus_master_response" where
  "response_from_transaction r resp =
     (let mismatch = Inl (DeviceFault (request_addr r)
            ''arbiter observed mismatched master transaction response'')
      in case (r, resp) of
        (MasterLoad32 _, ReadData bs w) \<Rightarrow>
          if w = 4 then Inr (MasterLoaded (from_le32_list bs)) else mismatch
      | (MasterStore32 _ _, WriteComplete) \<Rightarrow> Inr MasterStored
      | _ \<Rightarrow> mismatch)"

definition response_from_burst ::
  "bus_master_request \<Rightarrow> burst_response \<Rightarrow> bus_error + bus_master_response" where
  "response_from_burst r resp =
     (case (r, resp) of
        (MasterReadWords _ _, BurstWords ws) \<Rightarrow> Inr (MasterWords ws)
      | (MasterWriteWords _ _, BurstWritten n) \<Rightarrow> Inr (MasterWritten n)
      | _ \<Rightarrow> Inl (DeviceFault (request_addr r) ''arbiter observed mismatched master burst response''))"

subsection \<open>Submitting\<close>

definition outstanding_count :: "nat \<Rightarrow> ('m, 'b) arbiter \<Rightarrow> nat" where
  "outstanding_count j a =
     (case arb_pending a of Some p \<Rightarrow> (if pr_master p = j then 1 else 0) | None \<Rightarrow> 0) +
     length (filter (\<lambda>r. if_master r = j) (in_flight a))"

text \<open>\<open>self.inner.f(..)\<close>.\<close>

definition on_inner :: "('b \<Rightarrow> ('r, 'b) outcome) \<Rightarrow> ('m, 'b) arbiter \<Rightarrow> ('r, ('m, 'b) arbiter) outcome" where
  "on_inner f a = map_option (\<lambda>(r, b). (r, a\<lparr>arb_inner := b\<rparr>)) (f (arb_inner a))"

text \<open>\<open>self.masters[index].master.on_response(result)\<close>.\<close>

definition respond ::
  "('m, 'b) master_ops \<Rightarrow> nat \<Rightarrow> bus_error + bus_master_response \<Rightarrow> ('m, 'b) arbiter \<Rightarrow>
   ('m, 'b) arbiter option" where
  "respond mo j res a =
     (case idx (arb_masters a) j of
        None \<Rightarrow> None
      | Some m \<Rightarrow>
          (case mo_on_response mo res m (arb_inner a) of
             None \<Rightarrow> None
           | Some (m, b) \<Rightarrow> Some (a\<lparr>arb_masters := (arb_masters a)[j := m], arb_inner := b\<rparr>)))"

definition submit_request ::
  "('b, 'z) fabric_ops_scheme \<Rightarrow> bus_master_request \<Rightarrow> ('m, 'b) arbiter \<Rightarrow>
   (bus_error + request_id, ('m, 'b) arbiter) outcome" where
  "submit_request ops r a =
     (case r of
        MasterLoad32 _ \<Rightarrow>
          (case request_to_transaction r of
             None \<Rightarrow> None
           | Some t \<Rightarrow> and_then (on_inner (bus_submit_transaction ops t) a) (\<lambda>i a. Some (Inr (TransactionId i), a)))
      | MasterStore32 _ _ \<Rightarrow>
          (case request_to_transaction r of
             None \<Rightarrow> None
           | Some t \<Rightarrow> and_then (on_inner (bus_submit_transaction ops t) a) (\<lambda>i a. Some (Inr (TransactionId i), a)))
      | _ \<Rightarrow>
          (case request_to_burst r of
             None \<Rightarrow> None
           | Some t \<Rightarrow> and_then (on_inner (bus_submit_burst ops t) a) (\<lambda>i a. Some (Inr (BurstId i), a))))"

definition try_submit_pending_request ::
  "('b, 'z) fabric_ops_scheme \<Rightarrow> ('m, 'b) master_ops \<Rightarrow> ('m, 'b) arbiter \<Rightarrow> (unit, ('m, 'b) arbiter) outcome" where
  "try_submit_pending_request ops mo a =
     (case arb_pending a of
        None \<Rightarrow> Some ((), a)
      | Some p \<Rightarrow>
          (case submit_request ops (pr_request p) a of
             None \<Rightarrow> None
           | Some (Inr i, a) \<Rightarrow>
               Some ((), a\<lparr>arb_stats := (arb_stats a)\<lparr>master_grants := master_grants (arb_stats a) + 1\<rparr>,
                 in_flight := in_flight a @
                   [\<lparr>if_master = pr_master p, if_request = pr_request p, if_id = i, if_completion = None\<rparr>],
                 arb_pending := None\<rparr>)
           | Some (Inl (Busy _), a) \<Rightarrow> Some ((), a)
           | Some (Inl e, a) \<Rightarrow>
               map_option (\<lambda>a. ((), a\<lparr>arb_pending := None\<rparr>)) (respond mo (pr_master p) (Inl e) a)))"

subsection \<open>Polling\<close>

definition and_then_response :: "('r \<Rightarrow> bus_error + 'c) \<Rightarrow> (bus_error + 'r) option \<Rightarrow> (bus_error + 'c) option" where
  "and_then_response f = map_option (\<lambda>res. case res of Inl e \<Rightarrow> Inl e | Inr r \<Rightarrow> f r)"

definition poll_response ::
  "('b, 'z) fabric_ops_scheme \<Rightarrow> in_flight_request \<Rightarrow> ('m, 'b) arbiter \<Rightarrow>
   ((bus_error + bus_master_response) option, ('m, 'b) arbiter) outcome" where
  "poll_response ops f a =
     (case if_id f of
        TransactionId i \<Rightarrow>
          map_option (\<lambda>(r, a). (and_then_response (response_from_transaction (if_request f)) r, a))
            (on_inner (bus_take_transaction_response ops i) a)
      | BurstId i \<Rightarrow>
          map_option (\<lambda>(r, a). (and_then_response (response_from_burst (if_request f)) r, a))
            (on_inner (bus_take_burst_response ops i) a))"

text \<open>The first loop of \<open>poll_in_flight_requests\<close> at one index.\<close>

definition poll_at ::
  "('b, 'z) fabric_ops_scheme \<Rightarrow> nat \<Rightarrow> ('m, 'b) arbiter \<Rightarrow> (unit, ('m, 'b) arbiter) outcome" where
  "poll_at ops k a =
     (case idx (in_flight a) k of
        None \<Rightarrow> None
      | Some f \<Rightarrow>
          if if_completion f \<noteq> None then Some ((), a)
          else
            (case poll_response ops f a of
               None \<Rightarrow> None
             | Some (None, a) \<Rightarrow> Some ((), a)
             | Some (Some res, a) \<Rightarrow>
                 Some ((), a\<lparr>in_flight := (in_flight a)[k := f\<lparr>if_completion := Some res\<rparr>]\<rparr>)))"

text \<open>\<open>Vec::remove\<close>.\<close>

definition remove_at :: "nat \<Rightarrow> 'a list \<Rightarrow> 'a list" where
  "remove_at k xs = take k xs @ drop (Suc k) xs"

lemma length_remove_at [simp]: "k < length xs \<Longrightarrow> length (remove_at k xs) = length xs - 1"
  by (simp add: remove_at_def)

lemma in_flight_respond: "respond mo j res a = Some a' \<Longrightarrow> in_flight a' = in_flight a"
  by (auto simp: respond_def split: option.splits)

text \<open>
  The second loop of \<open>poll_in_flight_requests\<close>, from index \<open>k\<close>: a completed request that is the
  oldest of its master is removed and answered.
\<close>

function deliver ::
  "('m, 'b) master_ops \<Rightarrow> nat \<Rightarrow> ('m, 'b) arbiter \<Rightarrow> ('m, 'b) arbiter option" where
  "deliver mo k a =
     (if k < length (in_flight a) then
        (let f = in_flight a ! k in
         case if_completion f of
           None \<Rightarrow> deliver mo (k + 1) a
         | Some res \<Rightarrow>
             if \<exists>g \<in> set (take k (in_flight a)). if_master g = if_master f then deliver mo (k + 1) a
             else
               (case respond mo (if_master f) res (a\<lparr>in_flight := remove_at k (in_flight a)\<rparr>) of
                  None \<Rightarrow> None
                | Some a \<Rightarrow> deliver mo k a))
      else Some a)"
  by pat_completeness auto

termination
  by (relation "measure (\<lambda>(mo, k, a). length (in_flight a) - k)")
    (auto dest!: in_flight_respond)

declare deliver.simps [simp del]

definition poll_in_flight_requests ::
  "('b, 'z) fabric_ops_scheme \<Rightarrow> ('m, 'b) master_ops \<Rightarrow> ('m, 'b) arbiter \<Rightarrow> (unit, ('m, 'b) arbiter) outcome" where
  "poll_in_flight_requests ops mo a =
     (case each_index (poll_at ops) [0..<length (in_flight a)] a of
        None \<Rightarrow> None
      | Some (_, a) \<Rightarrow> map_option (\<lambda>a. ((), a)) (deliver mo 0 a))"

subsection \<open>Round robin\<close>

text \<open>The loop of \<open>select_next_request\<close> over the offsets.\<close>

fun select_offset ::
  "('m, 'b) master_ops \<Rightarrow> nat list \<Rightarrow> ('m, 'b) arbiter \<Rightarrow> (pending_request option, ('m, 'b) arbiter) outcome" where
  "select_offset mo [] a = Some (None, a)"
| "select_offset mo (off # offs) a =
     (let n = length (arb_masters a); j = (next_master_index a + off) mod n in
      case idx (arb_masters a) j of
        None \<Rightarrow> None
      | Some m \<Rightarrow>
          (case mo_max_outstanding mo m (arb_inner a) of
             None \<Rightarrow> None
           | Some limit \<Rightarrow>
               if outstanding_count j a \<ge> max limit 1 then select_offset mo offs a
               else
                 (case mo_request mo m (arb_inner a) of
                    None \<Rightarrow> None
                  | Some (r, m, b) \<Rightarrow>
                      (let a = a\<lparr>arb_masters := (arb_masters a)[j := m], arb_inner := b\<rparr> in
                       case r of
                         Some r \<Rightarrow>
                           Some (Some \<lparr>pr_master = j, pr_request = r\<rparr>,
                             a\<lparr>next_master_index := (j + 1) mod n\<rparr>)
                       | None \<Rightarrow> select_offset mo offs a))))"

definition select_next_request ::
  "('m, 'b) master_ops \<Rightarrow> ('m, 'b) arbiter \<Rightarrow> (pending_request option, ('m, 'b) arbiter) outcome" where
  "select_next_request mo a =
     (if arb_masters a = [] then Some (None, a)
      else select_offset mo [0..<length (arb_masters a)] a)"

subsection \<open>The bus interface\<close>

definition ensure_cpu_slot :: "('m, 'b) arbiter \<Rightarrow> (bus_error + unit) \<times> ('m, 'b) arbiter" where
  "ensure_cpu_slot a =
     (if cpu_reserved a
      then (Inl (Busy 1),
            a\<lparr>arb_stats := (arb_stats a)\<lparr>cpu_stall_cycles := cpu_stall_cycles (arb_stats a) + 1\<rparr>\<rparr>)
      else (Inr (), a))"

definition cpu_call :: "('b, 'r) bus_call \<Rightarrow> (('m, 'b) arbiter, 'r) bus_call" where
  "cpu_call f a = and_then (Some (ensure_cpu_slot a)) (\<lambda>_. on_inner f)"

definition arbiter_reset ::
  "('b, 'z) bus_ops_scheme \<Rightarrow> ('m, 'b) arbiter \<Rightarrow> (unit, ('m, 'b) arbiter) outcome" where
  "arbiter_reset ops a =
     on_inner (bus_reset ops) (a\<lparr>next_master_index := 0, arb_pending := None, in_flight := [],
       cpu_reserved := False, arb_stats := arbiter_stats_default\<rparr>)"

definition arbiter_tick ::
  "('b, 'z) fabric_ops_scheme \<Rightarrow> ('m, 'b) master_ops \<Rightarrow> ('m, 'b) arbiter \<Rightarrow> (unit, ('m, 'b) arbiter) outcome" where
  "arbiter_tick ops mo a =
     (case on_inner (bus_tick ops) a of
        None \<Rightarrow> None
      | Some (_, a) \<Rightarrow>
          (case poll_in_flight_requests ops mo (a\<lparr>cpu_reserved := False\<rparr>) of
             None \<Rightarrow> None
           | Some (_, a) \<Rightarrow>
               if arb_pending a \<noteq> None
               then try_submit_pending_request ops mo (a\<lparr>cpu_reserved := True\<rparr>)
               else
                 (case select_next_request mo a of
                    None \<Rightarrow> None
                  | Some (None, a) \<Rightarrow> Some ((), a)
                  | Some (Some p, a) \<Rightarrow>
                      try_submit_pending_request ops mo (a\<lparr>cpu_reserved := True, arb_pending := Some p\<rparr>))))"

definition arbiter_is_busy :: "('b, 'z) bus_ops_scheme \<Rightarrow> ('m, 'b) arbiter \<Rightarrow> bool" where
  "arbiter_is_busy ops a \<longleftrightarrow>
     cpu_reserved a \<or> arb_pending a \<noteq> None \<or> in_flight a \<noteq> [] \<or> bus_is_busy ops (arb_inner a)"

definition arbiter_ops ::
  "('b, 'z) fabric_ops_scheme \<Rightarrow> ('m, 'b) master_ops \<Rightarrow> ('m, 'b) arbiter burst_ops" where
  "arbiter_ops ops mo =
     \<lparr>bus_load8 = (\<lambda>x. cpu_call (bus_load8 ops x)), bus_store8 = (\<lambda>x v. cpu_call (bus_store8 ops x v)),
      bus_fetch32 = (\<lambda>x. cpu_call (bus_fetch32 ops x)), bus_load16 = (\<lambda>x. cpu_call (bus_load16 ops x)),
      bus_load32 = (\<lambda>x. cpu_call (bus_load32 ops x)), bus_store16 = (\<lambda>x v. cpu_call (bus_store16 ops x v)),
      bus_store32 = (\<lambda>x v. cpu_call (bus_store32 ops x v)), bus_reset = arbiter_reset ops,
      bus_tick = arbiter_tick ops mo, bus_machine_time = (\<lambda>a. bus_machine_time ops (arb_inner a)),
      bus_is_busy = arbiter_is_busy ops,
      bus_pending_interrupts = (\<lambda>a. bus_pending_interrupts ops (arb_inner a)),
      bus_submit_burst = (\<lambda>r. cpu_call (bus_submit_burst ops r)),
      bus_burst_phase = (\<lambda>a. bus_burst_phase ops (arb_inner a)),
      bus_advance_burst = (\<lambda>i. on_inner (bus_advance_burst ops i)),
      bus_take_burst_response = (\<lambda>i. on_inner (bus_take_burst_response ops i))\<rparr>"

subsection \<open>Responses come in the order of the requests\<close>

definition queue :: "nat \<Rightarrow> in_flight_request list \<Rightarrow> in_flight_request list" where
  "queue j fs = filter (\<lambda>f. if_master f = j) fs"

text \<open>Every request of the list is answered; the oldest one of a master is not answered.\<close>

definition all_complete :: "in_flight_request list \<Rightarrow> bool" where
  "all_complete fs \<longleftrightarrow> (\<forall>f \<in> set fs. if_completion f \<noteq> None)"

definition oldest_open :: "in_flight_request list \<Rightarrow> bool" where
  "oldest_open fs \<longleftrightarrow> (\<forall>j. queue j fs = [] \<or> if_completion (hd (queue j fs)) = None)"

text \<open>Giving a list of answered requests to their masters, in this order.\<close>

fun respond_all ::
  "('m, 'b) master_ops \<Rightarrow> in_flight_request list \<Rightarrow> ('m, 'b) arbiter \<Rightarrow> ('m, 'b) arbiter option" where
  "respond_all mo [] a = Some a"
| "respond_all mo (f # fs) a =
     (case respond mo (if_master f) (the (if_completion f)) a of
        None \<Rightarrow> None
      | Some a \<Rightarrow> respond_all mo fs a)"

lemma respond_in_flight:
  "respond mo j res (a\<lparr>in_flight := q\<rparr>) = map_option (\<lambda>a. a\<lparr>in_flight := q\<rparr>) (respond mo j res a)"
  by (auto simp: respond_def split: option.split)

lemma respond_all_in_flight:
  "respond_all mo fs (a\<lparr>in_flight := q\<rparr>) = map_option (\<lambda>a. a\<lparr>in_flight := q\<rparr>) (respond_all mo fs a)"
proof (induction fs arbitrary: a)
  case (Cons f fs)
  then show ?case
    by (cases "respond mo (if_master f) (the (if_completion f)) a") (simp_all add: respond_in_flight)
qed simp

lemma queue_simps [simp]:
  "queue j [] = []" "queue j (f # fs) = (if if_master f = j then f # queue j fs else queue j fs)"
  "queue j (fs @ gs) = queue j fs @ queue j gs"
  by (simp_all add: queue_def)

lemma queue_Nil: "queue j fs = [] \<longleftrightarrow> \<not> (\<exists>g \<in> set fs. if_master g = j)"
  by (auto simp: queue_def filter_empty_conv)

lemma oldest_open_snoc:
  "oldest_open fs \<Longrightarrow> if_completion f = None \<or> (\<exists>g \<in> set fs. if_master g = if_master f) \<Longrightarrow>
     oldest_open (fs @ [f])"
  unfolding oldest_open_def by (auto simp: queue_Nil hd_append)

lemma queue_remove_oldest:
  assumes "k < length q" "\<not> (\<exists>g \<in> set (take k q). if_master g = if_master (q ! k))"
  shows "queue j q = queue j [q ! k] @ queue j (remove_at k q)"
proof -
  have q: "q = take k q @ q ! k # drop (Suc k) q" using assms(1) by (rule id_take_nth_drop)
  have "queue j q = queue j (take k q) @ queue j [q ! k] @ queue j (drop (Suc k) q)"
    by (subst q) simp
  moreover have "queue (if_master (q ! k)) (take k q) = []" using assms(2) by (simp add: queue_Nil)
  ultimately show ?thesis by (auto simp: remove_at_def)
qed

lemma deliver_blocked:
  assumes "k < length (in_flight a)"
    "if_completion (in_flight a ! k) = None \<or>
     (\<exists>g \<in> set (take k (in_flight a)). if_master g = if_master (in_flight a ! k))"
  shows "deliver mo k a = deliver mo (k + 1) a"
  using assms by (subst deliver.simps) (auto simp: Let_def split: option.split)

lemma deliver_ready:
  assumes "k < length (in_flight a)" "if_completion (in_flight a ! k) = Some res"
    "\<not> (\<exists>g \<in> set (take k (in_flight a)). if_master g = if_master (in_flight a ! k))"
  shows "deliver mo k a =
    (case respond mo (if_master (in_flight a ! k)) res a of
       None \<Rightarrow> None
     | Some b \<Rightarrow> deliver mo k (b\<lparr>in_flight := remove_at k (in_flight a)\<rparr>))"
  using assms
  by (subst deliver.simps) (auto simp: Let_def respond_in_flight split: option.split)

lemma deliver_spec:
  assumes "deliver mo k a = Some a'" "oldest_open (take k (in_flight a))"
  shows "\<exists>D. respond_all mo D a = Some (a'\<lparr>in_flight := in_flight a\<rparr>) \<and> all_complete D \<and>
    oldest_open (in_flight a') \<and> (\<forall>j. queue j (in_flight a) = queue j D @ queue j (in_flight a'))"
  using assms
proof (induction "length (in_flight a) - k" arbitrary: k a rule: less_induct)
  case less
  let ?q = "in_flight a"
  show ?case
  proof (cases "k < length ?q")
    case False
    then have "a' = a" using less.prems(1) by (simp add: deliver.simps)
    then show ?thesis using False less.prems(2) by (intro exI [of _ "[]"]) (simp add: all_complete_def)
  next
    case True
    let ?f = "?q ! k"
    have t: "take (k + 1) ?q = take k ?q @ [?f]" using True by (simp add: take_Suc_conv_app_nth)
    show ?thesis
    proof (cases "if_completion ?f = None \<or> (\<exists>g \<in> set (take k ?q). if_master g = if_master ?f)")
      case blocked: True
      show ?thesis
      proof (rule less.hyps [of a "k + 1"])
        show "length ?q - (k + 1) < length ?q - k" using True by simp
        show "deliver mo (k + 1) a = Some a'"
          using less.prems(1) deliver_blocked [OF True blocked] by simp
        show "oldest_open (take (k + 1) ?q)"
          using oldest_open_snoc [OF less.prems(2) blocked] t by simp
      qed
    next
      case False
      then obtain res where res: "if_completion ?f = Some res"
        and new: "\<not> (\<exists>g \<in> set (take k ?q). if_master g = if_master ?f)" by auto
      let ?r = "remove_at k ?q"
      obtain b where b: "respond mo (if_master ?f) res a = Some b"
          "deliver mo k (b\<lparr>in_flight := ?r\<rparr>) = Some a'"
        using less.prems(1) deliver_ready [OF True res new, of mo]
        by (cases "respond mo (if_master ?f) res a") auto
      let ?b = "b\<lparr>in_flight := ?r\<rparr>"
      have dec: "length (in_flight ?b) - k < length ?q - k" using True by simp
      have old: "oldest_open (take k (in_flight ?b))"
        using less.prems(2) True by (simp add: remove_at_def)
      from less.hyps [OF dec b(2) old] obtain D where
        D: "respond_all mo D (b\<lparr>in_flight := ?r\<rparr>) = Some (a'\<lparr>in_flight := ?r\<rparr>)"
          "all_complete D" "oldest_open (in_flight a')" "\<forall>j. queue j ?r = queue j D @ queue j (in_flight a')"
        by auto
      have "map_option (\<lambda>a. a\<lparr>in_flight := ?r\<rparr>) (respond_all mo D b) = Some (a'\<lparr>in_flight := ?r\<rparr>)"
        using D(1) by (simp add: respond_all_in_flight)
      moreover have "respond_all mo D (b\<lparr>in_flight := ?q\<rparr>) = map_option (\<lambda>a. a\<lparr>in_flight := ?q\<rparr>) (respond_all mo D b)"
        by (rule respond_all_in_flight)
      moreover have "b\<lparr>in_flight := ?q\<rparr> = b" using in_flight_respond [OF b(1)] by simp
      ultimately have "respond_all mo D b = Some (a'\<lparr>in_flight := ?q\<rparr>)"
        by (cases "respond_all mo D b") (auto, metis arbiter.surjective arbiter.update_convs(5))
      then show ?thesis
        using D(2-4) b(1) res queue_remove_oldest [OF True new]
        by (intro exI [of _ "?f # D"]) (simp add: all_complete_def)
    qed
  qed
qed

subsection \<open>The arbiter is a safe bus\<close>

text \<open>The masters of the source only issue bursts, of at least one beat.\<close>

fun burst_only :: "bus_master_request \<Rightarrow> bool" where
  "burst_only (MasterReadWords _ n) \<longleftrightarrow> 0 < n"
| "burst_only (MasterWriteWords _ ws) \<longleftrightarrow> ws \<noteq> []"
| "burst_only _ \<longleftrightarrow> False"

lemma burst_only_lowered:
  "burst_only r \<Longrightarrow> \<exists>t. request_to_burst r = Some t \<and> 0 < beats t \<and>
     submit_request ops r a = and_then (on_inner (bus_submit_burst ops t) a) (\<lambda>i a. Some (Inr (BurstId i), a))"
  by (cases r) (auto simp: submit_request_def)

definition arbiter_ok :: "('b \<Rightarrow> bool) \<Rightarrow> ('m \<Rightarrow> bool) \<Rightarrow> ('m, 'b) arbiter \<Rightarrow> bool" where
  "arbiter_ok binv minv a \<longleftrightarrow>
     binv (arb_inner a) \<and> (\<forall>m \<in> set (arb_masters a). minv m) \<and>
     (\<forall>p. arb_pending a = Some p \<longrightarrow> pr_master p < length (arb_masters a) \<and> burst_only (pr_request p)) \<and>
     (\<forall>f \<in> set (in_flight a). if_master f < length (arb_masters a) \<and> (\<exists>i. if_id f = BurstId i))"

locale arbitrated_bus = burst_bus_safe ops binv
  for ops :: "('b, 'z) fabric_ops_scheme" and binv :: "'b \<Rightarrow> bool" +
  fixes mo :: "('m, 'b) master_ops" and minv :: "'m \<Rightarrow> bool"
  assumes limit_total: "binv b \<Longrightarrow> minv m \<Longrightarrow> \<exists>n. mo_max_outstanding mo m b = Some n"
    and request_total: "binv b \<Longrightarrow> minv m \<Longrightarrow>
      \<exists>r m' b'. mo_request mo m b = Some (r, m', b') \<and> minv m' \<and> binv b' \<and>
        (case r of None \<Rightarrow> True | Some q \<Rightarrow> burst_only q)"
    and response_total: "binv b \<Longrightarrow> minv m \<Longrightarrow>
      \<exists>m' b'. mo_on_response mo res m b = Some (m', b') \<and> minv m' \<and> binv b'"
begin

abbreviation "aok \<equiv> arbiter_ok binv minv"

lemma on_inner_safe: "aok a \<Longrightarrow> (\<And>b. binv b \<Longrightarrow> wp (f b) (\<lambda>_. binv)) \<Longrightarrow> wp (on_inner f a) (\<lambda>_. aok)"
  by (fastforce simp: on_inner_def arbiter_ok_def elim!: wp_elim)

lemma cpu_call_safe: "aok a \<Longrightarrow> (\<And>b. binv b \<Longrightarrow> wp (f b) (\<lambda>_. binv)) \<Longrightarrow> wp (cpu_call f a) (\<lambda>_. aok)"
  using on_inner_safe [of a f] by (auto simp: cpu_call_def ensure_cpu_slot_def arbiter_ok_def)

lemma respond_safe:
  assumes "aok a" "j < length (arb_masters a)"
  shows "\<exists>a'. respond mo j res a = Some a' \<and> aok a' \<and> length (arb_masters a') = length (arb_masters a)"
proof -
  obtain m b where r: "mo_on_response mo res (arb_masters a ! j) (arb_inner a) = Some (m, b)" "minv m" "binv b"
    using response_total [of "arb_inner a" "arb_masters a ! j" res] assms by (auto simp: arbiter_ok_def)
  have "aok (a\<lparr>arb_masters := (arb_masters a)[j := m], arb_inner := b\<rparr>)"
    using assms r set_update_subset_insert [of "arb_masters a" j m] by (auto simp: arbiter_ok_def)
  then show ?thesis using assms(2) r by (simp add: respond_def)
qed

lemma try_submit_safe:
  assumes "aok a"
  shows "wp (try_submit_pending_request ops mo a) (\<lambda>_. aok)"
proof (cases "arb_pending a")
  case (Some p)
  then have p: "pr_master p < length (arb_masters a)" "burst_only (pr_request p)"
    using assms by (auto simp: arbiter_ok_def)
  obtain t where t: "0 < beats t" "submit_request ops (pr_request p) a =
      and_then (on_inner (bus_submit_burst ops t) a) (\<lambda>i a. Some (Inr (BurstId i), a))"
    using burst_only_lowered [OF p(2), of ops a] by blast
  obtain r b where s: "bus_submit_burst ops t (arb_inner a) = Some (r, b)" "binv b"
    using submit_burst_safe [OF _ t(1), of "arb_inner a"] assms by (auto simp: arbiter_ok_def elim!: wp_elim)
  let ?a = "a\<lparr>arb_inner := b\<rparr>"
  have a: "aok ?a" using assms s(2) by (simp add: arbiter_ok_def)
  show ?thesis
  proof (cases r)
    case (Inr i)
    then show ?thesis
      using Some s t(2) a p(1) by (auto simp: try_submit_pending_request_def on_inner_def arbiter_ok_def)
  next
    case (Inl e)
    obtain a' where "respond mo (pr_master p) (Inl e) ?a = Some a'" "aok a'"
      using respond_safe [OF a, of "pr_master p" "Inl e"] p(1) by auto
    moreover have "aok (a'\<lparr>arb_pending := None\<rparr>)" using calculation(2) by (simp add: arbiter_ok_def)
    ultimately show ?thesis
      using Some s t(2) a Inl
      by (cases e) (auto simp: try_submit_pending_request_def on_inner_def)
  qed
qed (use assms in \<open>simp add: try_submit_pending_request_def\<close>)

lemma poll_at_safe:
  assumes "aok a" "length (in_flight a) = n" "k < n"
  shows "wp (poll_at ops k a) (\<lambda>_ a'. aok a' \<and> length (in_flight a') = n)"
proof -
  let ?f = "in_flight a ! k"
  obtain i where i: "if_id ?f = BurstId i" "if_master ?f < length (arb_masters a)"
    using assms by (fastforce simp: arbiter_ok_def)
  obtain r b where t: "bus_take_burst_response ops i (arb_inner a) = Some (r, b)" "binv b"
    using take_burst_safe [of "arb_inner a" i] assms by (auto simp: arbiter_ok_def elim!: wp_elim)
  have "aok (a\<lparr>arb_inner := b, in_flight := (in_flight a)[k := ?f\<lparr>if_completion := c\<rparr>]\<rparr>)" for c
    using assms(1) t(2) i set_update_subset_insert [of "in_flight a" k] by (fastforce simp: arbiter_ok_def)
  moreover have "aok (a\<lparr>arb_inner := b\<rparr>)" using assms(1) t(2) by (simp add: arbiter_ok_def)
  ultimately show ?thesis
    using assms i t by (cases r) (auto simp: poll_at_def poll_response_def on_inner_def and_then_response_def)
qed

lemma polls_safe:
  assumes "aok a"
  shows "wp (each_index (poll_at ops) [0..<length (in_flight a)] a) (\<lambda>_. aok)"
proof -
  have "wp (each_index (poll_at ops) [0..<length (in_flight a)] a)
      (\<lambda>_ a'. aok a' \<and> length (in_flight a') = length (in_flight a))"
    by (rule each_index_safe) (use assms poll_at_safe in auto)
  then show ?thesis by (auto elim!: wp_elim)
qed

lemma deliver_safe: "aok a \<Longrightarrow> \<exists>a'. deliver mo k a = Some a' \<and> aok a'"
proof (induction "length (in_flight a) - k" arbitrary: k a rule: less_induct)
  case less
  let ?q = "in_flight a"
  show ?case
  proof (cases "k < length ?q")
    case True
    let ?f = "?q ! k"
    show ?thesis
    proof (cases "if_completion ?f = None \<or> (\<exists>g \<in> set (take k ?q). if_master g = if_master ?f)")
      case blocked: True
      then show ?thesis using less.hyps [of a "k + 1"] less.prems True deliver_blocked [OF True blocked] by simp
    next
      case False
      then obtain res where res: "if_completion ?f = Some res"
        and new: "\<not> (\<exists>g \<in> set (take k ?q). if_master g = if_master ?f)" by auto
      have "if_master ?f < length (arb_masters a)" using less.prems True by (auto simp: arbiter_ok_def)
      then obtain b where b: "respond mo (if_master ?f) res a = Some b" "aok b"
        using respond_safe [OF less.prems] by blast
      have "set (remove_at k ?q) \<subseteq> set (in_flight b)"
        using in_flight_respond [OF b(1)] set_take_subset set_drop_subset by (fastforce simp: remove_at_def)
      then have "aok (b\<lparr>in_flight := remove_at k ?q\<rparr>)" using b(2) by (auto simp: arbiter_ok_def)
      moreover have "length (remove_at k ?q) - k < length ?q - k" using True by (simp add: less_diff_conv2)
      ultimately show ?thesis
        using less.hyps [of "b\<lparr>in_flight := remove_at k ?q\<rparr>" k] deliver_ready [OF True res new, of mo] b(1)
        by simp
    qed
  qed (use less.prems in \<open>simp add: deliver.simps\<close>)
qed

lemma poll_safe:
  assumes "aok a"
  shows "wp (poll_in_flight_requests ops mo a) (\<lambda>_. aok)"
proof -
  obtain b where b: "each_index (poll_at ops) [0..<length (in_flight a)] a = Some ((), b)" "aok b"
    using polls_safe [OF assms] by (auto elim!: wp_elim)
  then show ?thesis using deliver_safe [OF b(2), of 0] by (auto simp: poll_in_flight_requests_def)
qed

lemma select_offset_safe:
  "aok a \<Longrightarrow> arb_masters a \<noteq> [] \<Longrightarrow>
     wp (select_offset mo offs a) (\<lambda>r a'. aok a' \<and> arb_pending a' = arb_pending a \<and>
       (\<forall>p. r = Some p \<longrightarrow> pr_master p < length (arb_masters a') \<and> burst_only (pr_request p)))"
proof (induction offs arbitrary: a)
  case (Cons off offs)
  let ?j = "(next_master_index a + off) mod length (arb_masters a)"
  let ?m = "arb_masters a ! ?j"
  have j: "?j < length (arb_masters a)" using Cons.prems(2) by simp
  have m: "minv ?m" "binv (arb_inner a)" using Cons.prems(1) j by (auto simp: arbiter_ok_def)
  obtain n where n: "mo_max_outstanding mo ?m (arb_inner a) = Some n"
    using limit_total m by blast
  obtain r m' b where r: "mo_request mo ?m (arb_inner a) = Some (r, m', b)" "minv m'" "binv b"
      "case r of None \<Rightarrow> True | Some q \<Rightarrow> burst_only q"
    using request_total m by blast
  let ?a = "a\<lparr>arb_masters := (arb_masters a)[?j := m'], arb_inner := b\<rparr>"
  have "aok ?a"
    using Cons.prems(1) r set_update_subset_insert [of "arb_masters a" ?j m'] by (auto simp: arbiter_ok_def)
  moreover have "aok (?a\<lparr>next_master_index := x\<rparr>)" for x using calculation by (simp add: arbiter_ok_def)
  ultimately show ?case
    using Cons.IH [of a] Cons.IH [of ?a] Cons.prems j n r by (cases r) (auto simp: Let_def)
qed simp

lemma select_safe:
  "aok a \<Longrightarrow> wp (select_next_request mo a) (\<lambda>r a'. aok a' \<and>
     (\<forall>p. r = Some p \<longrightarrow> pr_master p < length (arb_masters a') \<and> burst_only (pr_request p)))"
  using select_offset_safe [of a "[0..<length (arb_masters a)]"]
  by (cases "arb_masters a = []") (simp_all add: select_next_request_def, blast elim: wp_elim intro: wp_mono)

lemma arbiter_tick_safe:
  assumes "aok a"
  shows "wp (arbiter_tick ops mo a) (\<lambda>_. aok)"
proof -
  obtain a1 where a1: "on_inner (bus_tick ops) a = Some ((), a1)" "aok a1"
    using on_inner_safe [OF assms, of "bus_tick ops"] tick_safe by (auto elim!: wp_elim)
  then have "aok (a1\<lparr>cpu_reserved := False\<rparr>)" by (simp add: arbiter_ok_def)
  then obtain a2 where a2: "poll_in_flight_requests ops mo (a1\<lparr>cpu_reserved := False\<rparr>) = Some ((), a2)" "aok a2"
    using poll_safe [of "a1\<lparr>cpu_reserved := False\<rparr>"] by (auto elim!: wp_elim)
  have res: "aok (a\<lparr>cpu_reserved := True\<rparr>)" if "aok a" for a using that by (simp add: arbiter_ok_def)
  show ?thesis
  proof (cases "arb_pending a2")
    case (Some p)
    then show ?thesis using a1 a2 try_submit_safe [OF res [OF a2(2)]] by (simp add: arbiter_tick_def)
  next
    case None
    obtain r a3 where a3: "select_next_request mo a2 = Some (r, a3)" "aok a3"
        "\<forall>p. r = Some p \<longrightarrow> pr_master p < length (arb_masters a3) \<and> burst_only (pr_request p)"
      using select_safe [OF a2(2)] by (auto elim!: wp_elim)
    show ?thesis
    proof (cases r)
      case (Some p)
      have "aok (a3\<lparr>cpu_reserved := True, arb_pending := Some p\<rparr>)"
        using a3(2,3) Some by (simp add: arbiter_ok_def)
      then show ?thesis
        using a1 a2 a3(1) None Some try_submit_safe by (simp add: arbiter_tick_def)
    qed (use a1 a2 a3 None in \<open>simp add: arbiter_tick_def\<close>)
  qed
qed

lemma arbiter_reset_safe: "aok a \<Longrightarrow> wp (arbiter_reset ops a) (\<lambda>_. aok)"
  unfolding arbiter_reset_def using reset_safe by (intro on_inner_safe) (simp_all add: arbiter_ok_def)

end

sublocale arbitrated_bus \<subseteq> arbiter: burst_bus_safe "arbiter_ops ops mo" "arbiter_ok binv minv"
proof
  fix b :: "('m, 'b) arbiter" and x :: u64 and i :: u64 and r and v8 :: u8 and v16 :: u16 and v32 :: u32
  assume b: "arbiter_ok binv minv b"
  note call = cpu_call_safe [OF b]
  show "wp (bus_load8 (arbiter_ops ops mo) x b) (\<lambda>_. arbiter_ok binv minv)"
    using call [OF load8_safe] by (simp add: arbiter_ops_def)
  show "wp (bus_store8 (arbiter_ops ops mo) x v8 b) (\<lambda>_. arbiter_ok binv minv)"
    using call [OF store8_safe] by (simp add: arbiter_ops_def)
  show "wp (bus_fetch32 (arbiter_ops ops mo) x b) (\<lambda>_. arbiter_ok binv minv)"
    using call [OF fetch32_safe] by (simp add: arbiter_ops_def)
  show "wp (bus_load16 (arbiter_ops ops mo) x b) (\<lambda>_. arbiter_ok binv minv)"
    using call [OF load16_safe] by (simp add: arbiter_ops_def)
  show "wp (bus_load32 (arbiter_ops ops mo) x b) (\<lambda>_. arbiter_ok binv minv)"
    using call [OF load32_safe] by (simp add: arbiter_ops_def)
  show "wp (bus_store16 (arbiter_ops ops mo) x v16 b) (\<lambda>_. arbiter_ok binv minv)"
    using call [OF store16_safe] by (simp add: arbiter_ops_def)
  show "wp (bus_store32 (arbiter_ops ops mo) x v32 b) (\<lambda>_. arbiter_ok binv minv)"
    using call [OF store32_safe] by (simp add: arbiter_ops_def)
  show "wp (bus_reset (arbiter_ops ops mo) b) (\<lambda>_. arbiter_ok binv minv)"
    using arbiter_reset_safe [OF b] by (simp add: arbiter_ops_def)
  show "wp (bus_tick (arbiter_ops ops mo) b) (\<lambda>_. arbiter_ok binv minv)"
    using arbiter_tick_safe [OF b] by (simp add: arbiter_ops_def)
  show "wp (bus_submit_burst (arbiter_ops ops mo) r b) (\<lambda>_. arbiter_ok binv minv)" if "0 < beats r"
    using call [OF submit_burst_safe, OF _ that] by (simp add: arbiter_ops_def)
  show "wp (bus_advance_burst (arbiter_ops ops mo) i b) (\<lambda>_. arbiter_ok binv minv)"
    using on_inner_safe [OF b advance_burst_safe] by (simp add: arbiter_ops_def)
  show "wp (bus_take_burst_response (arbiter_ops ops mo) i b) (\<lambda>_. arbiter_ok binv minv)"
    using on_inner_safe [OF b take_burst_safe] by (simp add: arbiter_ops_def)
qed

end
