(* ===== verification/Arbitration.thy ===== *)
theory Arbitration
  imports Arbiter
begin

text \<open>
  What the arbiter promises to the masters and to the CPU: round robin is fair, no master exceeds
  its limit of outstanding requests, and in one cycle either a master's request or the CPU reaches
  the bus.
\<close>

subsection \<open>Round robin is fair\<close>

text \<open>How many masters are tried before \<open>k\<close> when the search starts at \<open>i\<close>.\<close>

definition distance :: "nat \<Rightarrow> nat \<Rightarrow> nat \<Rightarrow> nat" where
  "distance n i k = (if i \<le> k then k - i else k + n - i)"

lemma mod_wrap: "x < 2 * n \<Longrightarrow> x mod n = (if x < n then x else x - n)" for x n :: nat
  by (simp add: le_mod_geq)

lemma distance_less: "i < n \<Longrightarrow> k < n \<Longrightarrow> distance n i k < n"
  by (auto simp: distance_def)

lemma distance_reaches: "i < n \<Longrightarrow> k < n \<Longrightarrow> off \<le> distance n i k \<Longrightarrow> (i + off) mod n = k \<longleftrightarrow> off = distance n i k"
  by (auto simp: distance_def mod_wrap split: if_splits)

lemma distance_decreases:
  "i < n \<Longrightarrow> k < n \<Longrightarrow> off < distance n i k \<Longrightarrow>
     distance n (((i + off) mod n + 1) mod n) k = distance n i k - off - 1"
  by (auto simp: distance_def mod_wrap split: if_splits)

text \<open>Master \<open>k\<close> has a request to make and a free slot for it.\<close>

definition asks :: "('m, 'b) master_ops \<Rightarrow> nat \<Rightarrow> ('m, 'b) arbiter \<Rightarrow> bool" where
  "asks mo k a \<longleftrightarrow> k < length (arb_masters a) \<and>
     (\<exists>limit r m b. mo_max_outstanding mo (arb_masters a ! k) (arb_inner a) = Some limit \<and>
        outstanding_count k a < max limit 1 \<and>
        mo_request mo (arb_masters a ! k) (arb_inner a) = Some (Some r, m, b))"

lemma select_offset_free:
  assumes "(next_master_index a + off) mod length (arb_masters a) < length (arb_masters a)"
    "mo_max_outstanding mo (arb_masters a ! ((next_master_index a + off) mod length (arb_masters a)))
       (arb_inner a) = Some limit"
    "\<not> max limit 1 \<le> outstanding_count ((next_master_index a + off) mod length (arb_masters a)) a"
  shows "select_offset mo (off # offs) a =
    (let n = length (arb_masters a); j = (next_master_index a + off) mod n in
     case mo_request mo (arb_masters a ! j) (arb_inner a) of
       None \<Rightarrow> None
     | Some (r, m, b) \<Rightarrow>
         (let a = a\<lparr>arb_masters := (arb_masters a)[j := m], arb_inner := b\<rparr> in
          case r of
            Some r \<Rightarrow> Some (Some \<lparr>pr_master = j, pr_request = r\<rparr>, a\<lparr>next_master_index := (j + 1) mod n\<rparr>)
          | None \<Rightarrow> select_offset mo offs a))"
  using assms by (simp only: select_offset.simps Let_def idx_Some option.case if_False)

text \<open>
  The masters share the bus, so asking one master for a request could change what another one has
  to ask. The masters of the source do not: one that has no request leaves itself and the bus as
  they are.
\<close>

locale idle_masters =
  fixes mo :: "('m, 'b) master_ops"
  assumes no_request: "mo_request mo m b = Some (None, m', b') \<Longrightarrow> m' = m \<and> b' = b"
begin

lemma select_offset_fair:
  assumes "asks mo k a" "next_master_index a < length (arb_masters a)"
    "i \<le> distance (length (arb_masters a)) (next_master_index a) k"
    "select_offset mo [i..<length (arb_masters a)] a = Some (r, a')"
  shows "\<exists>p off. r = Some p \<and> off \<le> distance (length (arb_masters a)) (next_master_index a) k \<and>
    pr_master p = (next_master_index a + off) mod length (arb_masters a) \<and>
    next_master_index a' = (pr_master p + 1) mod length (arb_masters a) \<and>
    length (arb_masters a') = length (arb_masters a)"
  using assms
proof (induction "length (arb_masters a) - i" arbitrary: i a)
  case 0
  then show ?case using distance_less [of "next_master_index a" "length (arb_masters a)" k]
    by (auto simp: asks_def)
next
  case (Suc d)
  let ?n = "length (arb_masters a)" and ?x = "next_master_index a"
  let ?j = "(?x + i) mod ?n"
  let ?m = "arb_masters a ! ?j"
  have i: "i < ?n" using Suc.hyps(2) by simp
  then have offs: "[i..<?n] = i # [Suc i..<?n]" by (simp add: upt_conv_Cons)
  have j: "?j < ?n" using i by (intro mod_less_divisor) linarith
  have k: "k < ?n" using Suc.prems(1) by (simp add: asks_def)
  have at_k: "?j = k \<longleftrightarrow> i = distance ?n ?x k" using distance_reaches [OF Suc.prems(2) k Suc.prems(3)] .
  obtain limit where limit: "mo_max_outstanding mo ?m (arb_inner a) = Some limit"
    using Suc.prems(4) offs j by (auto simp: Let_def split: option.splits)
  show ?case
  proof (cases "outstanding_count ?j a \<ge> max limit 1")
    case True
    then have "?j \<noteq> k" using Suc.prems(1) limit by (auto simp: asks_def)
    then have "Suc i \<le> distance ?n ?x k" using at_k Suc.prems(3) by simp
    moreover have "select_offset mo [Suc i..<?n] a = Some (r, a')"
      using Suc.prems(4) offs j limit True by (simp add: Let_def)
    ultimately show ?thesis using Suc.hyps(1) [of a "Suc i"] Suc.hyps(2) Suc.prems(1,2) by simp
  next
    case False
    obtain q m' b where req: "mo_request mo ?m (arb_inner a) = Some (q, m', b)"
      using Suc.prems(4) offs select_offset_free [OF j limit False, of "[Suc i..<?n]"]
      by (cases "mo_request mo ?m (arb_inner a)") (auto simp: Let_def)
    let ?a = "a\<lparr>arb_masters := (arb_masters a)[?j := m'], arb_inner := b\<rparr>"
    show ?thesis
    proof (cases q)
      case (Some q')
      then show ?thesis
        using Suc.prems offs req select_offset_free [OF j limit False, of "[Suc i..<?n]"]
        by (intro exI [of _ "the r"] exI [of _ i]) (auto simp: Let_def)
    next
      case None
      then have "?j \<noteq> k" using Suc.prems(1) req by (auto simp: asks_def)
      then have "Suc i \<le> distance ?n ?x k" using at_k Suc.prems(3) by simp
      moreover have "m' = ?m \<and> b = arb_inner a" using no_request [of ?m "arb_inner a" m' b] req None by simp
      then have "?a = a" by simp
      then have "select_offset mo [Suc i..<?n] a = Some (r, a')"
        using Suc.prems(4) offs req None select_offset_free [OF j limit False, of "[Suc i..<?n]"]
        by (simp add: Let_def)
      ultimately show ?thesis using Suc.hyps(1) [of a "Suc i"] Suc.hyps(2) Suc.prems(1,2) by simp
    qed
  qed
qed

lemma select_fair:
  assumes "asks mo k a" "next_master_index a < length (arb_masters a)"
    "select_next_request mo a = Some (r, a')"
  shows "\<exists>p. r = Some p \<and> next_master_index a' < length (arb_masters a) \<and>
    (pr_master p = k \<or> distance (length (arb_masters a)) (next_master_index a') k <
       distance (length (arb_masters a)) (next_master_index a) k)"
proof -
  let ?n = "length (arb_masters a)"
  have n: "arb_masters a \<noteq> []" "k < ?n" using assms(1) by (auto simp: asks_def)
  obtain p off where p: "r = Some p" "off \<le> distance ?n (next_master_index a) k"
      "pr_master p = (next_master_index a + off) mod ?n" "next_master_index a' = (pr_master p + 1) mod ?n"
    using select_offset_fair [OF assms(1,2), of 0 r a'] assms(3) n by (auto simp: select_next_request_def)
  then show ?thesis
    using distance_reaches [OF assms(2) n(2) p(2)] distance_decreases [OF assms(2) n(2), of off] n
    by (cases "off = distance ?n (next_master_index a) k") auto
qed

text \<open>
  A master that asks at each of \<open>n\<close> selections is granted in one of them; between two selections the
  arbiter may do anything that leaves the next index.
\<close>

lemma selections_fair:
  assumes asks: "\<And>i. i < n \<Longrightarrow> length (arb_masters (A i)) = n \<and> asks mo k (A i)"
    and start: "next_master_index (A 0) < n"
    and later: "\<And>i. Suc i < n \<Longrightarrow> next_master_index (A (Suc i)) = next_master_index (A' i)"
    and select: "\<And>i. i < n \<Longrightarrow> select_next_request mo (A i) = Some (r i, A' i)"
  shows "\<exists>i < n. \<exists>p. r i = Some p \<and> pr_master p = k"
proof (rule ccontr)
  assume none: "\<not> ?thesis"
  have step: "next_master_index (A' i) < n \<and>
      distance n (next_master_index (A' i)) k < distance n (next_master_index (A i)) k"
    if "i < n" "next_master_index (A i) < n" for i
    using select_fair [OF conjunct2 [OF asks [OF that(1)]] _ select [OF that(1)]] asks [OF that(1)] that none
    by auto
  have dist: "next_master_index (A i) < n \<and> i + distance n (next_master_index (A i)) k < n" if "i < n" for i
    using that
  proof (induction i)
    case 0
    then show ?case using asks [of 0] start distance_less [of "next_master_index (A 0)" n k] by (auto simp: asks_def)
  next
    case (Suc i)
    then show ?case using step [of i] later [of i] by force
  qed
  have "0 < n" using start by simp
  then show False using dist [of "n - 1"] step [of "n - 1"] by force
qed

end

subsection \<open>Limits and exclusion\<close>

text \<open>What the calls on the bus and on the masters leave alone.\<close>

definition same_control :: "('m, 'b) arbiter \<Rightarrow> ('m, 'b) arbiter \<Rightarrow> bool" where
  "same_control a a' \<longleftrightarrow> arb_pending a' = arb_pending a \<and> cpu_reserved a' = cpu_reserved a \<and>
     arb_stats a' = arb_stats a"

lemma same_control_trans: "same_control a b \<Longrightarrow> same_control b c \<Longrightarrow> same_control a c"
  by (simp add: same_control_def)

lemma on_inner_control:
  "on_inner f a = Some (r, a') \<Longrightarrow> same_control a a' \<and> in_flight a' = in_flight a"
  by (auto simp: on_inner_def same_control_def)

lemma respond_control: "respond mo j res a = Some a' \<Longrightarrow> same_control a a'"
  by (auto simp: respond_def same_control_def split: option.splits)

lemma submit_request_control:
  "submit_request ops q a = Some (r, a') \<Longrightarrow> same_control a a' \<and> in_flight a' = in_flight a"
  by (auto simp: submit_request_def and_then_def dest!: on_inner_control
      split: bus_master_request.splits option.splits sum.splits)

lemma respond_all_control: "respond_all mo D a = Some a' \<Longrightarrow> same_control a a'"
proof (induction D arbitrary: a)
  case (Cons f D)
  then show ?case
    using respond_control same_control_trans by (fastforce split: option.splits)
qed (simp add: same_control_def)

lemma poll_at_control:
  assumes "poll_at ops k a = Some (r, a')"
  shows "same_control a a' \<and> map if_master (in_flight a') = map if_master (in_flight a)"
proof -
  have "same_control a b \<and> in_flight b = in_flight a" if "poll_response ops f a = Some (q, b)" for f q b
    using that by (auto simp: poll_response_def dest: on_inner_control split: request_id.splits)
  then show ?thesis
    using assms
    by (auto simp: poll_at_def idx_def same_control_def map_update list_update_same_conv
        split: option.splits if_splits)
qed

lemma polls_control:
  "each_index (poll_at ops) ks a = Some (r, a') \<Longrightarrow>
     same_control a a' \<and> map if_master (in_flight a') = map if_master (in_flight a)"
proof (induction ks arbitrary: a)
  case (Cons k ks)
  then obtain b where "poll_at ops k a = Some ((), b)" "each_index (poll_at ops) ks b = Some (r, a')"
    by (auto split: option.splits)
  then show ?case
    using Cons.IH [of b] poll_at_control [of ops k a] same_control_trans by fastforce
qed (simp add: same_control_def)

lemma length_queue: "length (queue j fs) = count_list (map if_master fs) j"
  by (induction fs) simp_all

lemma outstanding_queue:
  "outstanding_count j a = (case arb_pending a of Some p \<Rightarrow> (if pr_master p = j then 1 else 0) | None \<Rightarrow> 0) +
     length (queue j (in_flight a))"
  by (simp add: outstanding_count_def queue_def)

lemma poll_control:
  assumes "poll_in_flight_requests ops mo a = Some (r, a')"
  shows "same_control a a' \<and> (\<forall>j. length (queue j (in_flight a')) \<le> length (queue j (in_flight a)))"
proof -
  obtain b where b: "each_index (poll_at ops) [0..<length (in_flight a)] a = Some ((), b)"
      "deliver mo 0 b = Some a'"
    using assms by (auto simp: poll_in_flight_requests_def split: option.splits)
  obtain D where D: "respond_all mo D b = Some (a'\<lparr>in_flight := in_flight b\<rparr>)"
      "\<forall>j. queue j (in_flight b) = queue j D @ queue j (in_flight a')"
    using deliver_spec [OF b(2)] by (auto simp: oldest_open_def)
  have "same_control b a'" using respond_all_control [OF D(1)] by (simp add: same_control_def)
  moreover have "length (queue j (in_flight a')) \<le> length (queue j (in_flight b))" for j
    using D(2) by simp
  moreover have "length (queue j (in_flight b)) = length (queue j (in_flight a))" for j
    using polls_control [OF b(1)] by (simp add: length_queue)
  ultimately show ?thesis using polls_control [OF b(1)] same_control_trans by metis
qed

lemma try_submit_outstanding:
  assumes "try_submit_pending_request ops mo a = Some (r, a')"
  shows "cpu_reserved a' = cpu_reserved a \<and> (\<forall>j. outstanding_count j a' \<le> outstanding_count j a)"
proof (cases "arb_pending a")
  case (Some p)
  then obtain q b where s: "submit_request ops (pr_request p) a = Some (q, b)"
    using assms by (auto simp: try_submit_pending_request_def split: option.splits)
  then have c: "same_control a b" "in_flight b = in_flight a" by (simp_all add: submit_request_control)
  show ?thesis
  proof (cases q)
    case (Inr i)
    then show ?thesis
      using assms Some s c by (auto simp: try_submit_pending_request_def outstanding_queue same_control_def)
  next
    case (Inl e)
    show ?thesis
    proof (cases "\<exists>n. e = Busy n")
      case True
      then show ?thesis
        using assms Some s c Inl by (auto simp: try_submit_pending_request_def outstanding_queue same_control_def)
    next
      case False
      then obtain d where "respond mo (pr_master p) (Inl e) b = Some d" "a' = d\<lparr>arb_pending := None\<rparr>"
        using assms Some s Inl by (cases e) (auto simp: try_submit_pending_request_def)
      then show ?thesis
        using c respond_control [of mo "pr_master p" "Inl e" b d] in_flight_respond
        by (fastforce simp: outstanding_queue same_control_def)
    qed
  qed
qed (use assms in \<open>auto simp: try_submit_pending_request_def\<close>)

lemma select_offset_control:
  "select_offset mo offs a = Some (r, a') \<Longrightarrow> same_control a a' \<and> in_flight a' = in_flight a"
proof (induction offs arbitrary: a)
  case (Cons off offs)
  let ?j = "(next_master_index a + off) mod length (arb_masters a)"
  let ?m = "arb_masters a ! ?j"
  obtain limit where l: "?j < length (arb_masters a)" "mo_max_outstanding mo ?m (arb_inner a) = Some limit"
    using Cons.prems by (auto simp: Let_def idx_def split: option.splits if_splits)
  show ?case
  proof (cases "max limit 1 \<le> outstanding_count ?j a")
    case True
    then show ?thesis using Cons l by (simp add: Let_def)
  next
    case False
    obtain q m b where q: "mo_request mo ?m (arb_inner a) = Some (q, m, b)"
      using Cons.prems select_offset_free [OF l False, of offs]
      by (cases "mo_request mo ?m (arb_inner a)") (auto simp: Let_def)
    let ?a = "a\<lparr>arb_masters := (arb_masters a)[?j := m], arb_inner := b\<rparr>"
    have "q = None \<Longrightarrow> same_control ?a a' \<and> in_flight a' = in_flight ?a"
      using Cons.IH [of ?a] Cons.prems select_offset_free [OF l False, of offs] q by (simp add: Let_def)
    then show ?thesis
      using Cons.prems select_offset_free [OF l False, of offs] q
      by (cases q) (auto simp: Let_def same_control_def)
  qed
qed (simp add: same_control_def)

lemma select_control:
  "select_next_request mo a = Some (r, a') \<Longrightarrow> same_control a a' \<and> in_flight a' = in_flight a"
  using select_offset_control [of mo "[0..<length (arb_masters a)]" a r a']
  by (auto simp: select_next_request_def same_control_def split: if_splits)

text \<open>Everything that happens to an arbiter: clock cycles, calls by its client, and resets.\<close>

inductive arb_step ::
  "('b, 'z) fabric_ops_scheme \<Rightarrow> ('m, 'b) master_ops \<Rightarrow> ('m, 'b) arbiter \<Rightarrow> ('m, 'b) arbiter \<Rightarrow> bool"
  for ops mo where
  clock: "arbiter_tick ops mo a = Some (r, a') \<Longrightarrow> arb_step ops mo a a'"
| access: "cpu_call (f :: ('b, unit) bus_call) a = Some (q, a') \<Longrightarrow> arb_step ops mo a a'"
| burst: "on_inner (g :: 'b \<Rightarrow> (unit, 'b) outcome) a = Some (r, a') \<Longrightarrow> arb_step ops mo a a'"
| restart: "arbiter_reset ops a = Some (r, a') \<Longrightarrow> arb_step ops mo a a'"

definition arb_reachable ::
  "('b, 'z) fabric_ops_scheme \<Rightarrow> ('m, 'b) master_ops \<Rightarrow> ('m, 'b) arbiter \<Rightarrow> bool" where
  "arb_reachable ops mo a \<longleftrightarrow>
     (\<exists>inner ms. (arb_step ops mo)\<^sup>*\<^sup>* (foldr add_master ms (arbiter_new inner)) a)"

lemma tick_phases:
  assumes "arbiter_tick ops mo a = Some (r, a')"
  obtains a1 a2 where "on_inner (bus_tick ops) a = Some ((), a1)"
    "poll_in_flight_requests ops mo (a1\<lparr>cpu_reserved := False\<rparr>) = Some ((), a2)"
    "\<not> cpu_reserved a2" "arb_stats a2 = arb_stats a" "arb_pending a2 = arb_pending a"
    "\<And>j. length (queue j (in_flight a2)) \<le> length (queue j (in_flight a))"
proof -
  obtain a1 where a1: "on_inner (bus_tick ops) a = Some ((), a1)"
    using assms by (auto simp: arbiter_tick_def split: option.splits)
  obtain a2 where a2: "poll_in_flight_requests ops mo (a1\<lparr>cpu_reserved := False\<rparr>) = Some ((), a2)"
    using assms a1 by (auto simp: arbiter_tick_def split: option.splits)
  show ?thesis
    using that [OF a1 a2] on_inner_control [OF a1] poll_control [OF a2] by (simp add: same_control_def)
qed

lemma submit_request_masters: "submit_request ops q a = Some (r, a') \<Longrightarrow> arb_masters a' = arb_masters a"
  by (auto simp: submit_request_def and_then_def on_inner_def
      split: bus_master_request.splits option.splits sum.splits)

lemma polls_masters:
  "each_index (poll_at ops) ks a = Some (r, a') \<Longrightarrow> arb_masters a' = arb_masters a"
proof (induction ks arbitrary: a)
  case (Cons k ks)
  then obtain b where b: "poll_at ops k a = Some ((), b)" "each_index (poll_at ops) ks b = Some (r, a')"
    by (auto split: option.splits)
  have "arb_masters c = arb_masters a" if "poll_response ops f a = Some (q, c)" for f q c
    using that by (auto simp: poll_response_def on_inner_def split: request_id.splits)
  then have "arb_masters b = arb_masters a"
    using b(1) by (auto simp: poll_at_def split: option.splits if_splits)
  then show ?case using Cons.IH [OF b(2)] by simp
qed simp

text \<open>Masters with limits: each master \<open>m\<close> states at most \<open>lim m\<close>, and keeps that limit.\<close>

locale limited_masters =
  fixes mo :: "('m, 'b) master_ops" and lim :: "'m \<Rightarrow> nat"
  assumes limit: "mo_max_outstanding mo m b = Some l \<Longrightarrow> l \<le> lim m"
    and request_limit: "mo_request mo m b = Some (r, m', b') \<Longrightarrow> lim m' = lim m"
    and response_limit: "mo_on_response mo res m b = Some (m', b') \<Longrightarrow> lim m' = lim m"
begin

definition limits :: "('m, 'b) arbiter \<Rightarrow> nat list" where
  "limits a = map lim (arb_masters a)"

definition bounded :: "('m, 'b) arbiter \<Rightarrow> bool" where
  "bounded a \<longleftrightarrow> (\<forall>j < length (arb_masters a). outstanding_count j a \<le> max (limits a ! j) 1)"

lemma limits_update: "lim m = lim (arb_masters a ! j) \<Longrightarrow> map lim ((arb_masters a)[j := m]) = limits a"
  by (cases "j < length (arb_masters a)") (simp_all add: limits_def map_update list_update_same_conv list_update_beyond)

lemma limits_length: "limits a' = limits a \<Longrightarrow> length (arb_masters a') = length (arb_masters a)"
  unfolding limits_def by (metis length_map)

text \<open>A step that keeps the limits and lets no count grow keeps the bound.\<close>

lemma bounded_less:
  "bounded a \<Longrightarrow> limits a' = limits a \<Longrightarrow> (\<And>j. outstanding_count j a' \<le> outstanding_count j a) \<Longrightarrow> bounded a'"
  using limits_length [of a' a] le_trans unfolding bounded_def by metis

lemma respond_limits: "respond mo j res a = Some a' \<Longrightarrow> limits a' = limits a"
  using response_limit limits_update
  by (fastforce simp: respond_def idx_def limits_def split: option.splits if_splits)

lemma respond_all_limits: "respond_all mo D a = Some a' \<Longrightarrow> limits a' = limits a"
  using respond_limits by (induction D arbitrary: a) (auto split: option.splits)

lemma poll_limits:
  assumes "poll_in_flight_requests ops mo a = Some (r, a')"
  shows "limits a' = limits a"
proof -
  obtain b where b: "each_index (poll_at ops) [0..<length (in_flight a)] a = Some ((), b)"
      "deliver mo 0 b = Some a'"
    using assms by (auto simp: poll_in_flight_requests_def split: option.splits)
  obtain D where "respond_all mo D b = Some (a'\<lparr>in_flight := in_flight b\<rparr>)"
    using deliver_spec [OF b(2)] by (auto simp: oldest_open_def)
  from respond_all_limits [OF this] show ?thesis using polls_masters [OF b(1)] by (simp add: limits_def)
qed

lemma try_submit_limits:
  "try_submit_pending_request ops mo a = Some (r, a') \<Longrightarrow> limits a' = limits a"
  using submit_request_masters respond_limits
  by (fastforce simp: try_submit_pending_request_def limits_def
      split: option.splits sum.splits bus_error.splits)

lemma select_offset_limits:
  "select_offset mo offs a = Some (r, a') \<Longrightarrow> limits a' = limits a \<and>
     (\<forall>p. r = Some p \<longrightarrow> outstanding_count (pr_master p) a < max (limits a ! pr_master p) 1)"
proof (induction offs arbitrary: a)
  case (Cons off offs)
  let ?j = "(next_master_index a + off) mod length (arb_masters a)"
  let ?m = "arb_masters a ! ?j"
  obtain l where l: "?j < length (arb_masters a)" "mo_max_outstanding mo ?m (arb_inner a) = Some l"
    using Cons.prems by (auto simp: Let_def idx_def split: option.splits if_splits)
  show ?case
  proof (cases "max l 1 \<le> outstanding_count ?j a")
    case True
    then show ?thesis using Cons l by (simp add: Let_def)
  next
    case False
    obtain q m b where q: "mo_request mo ?m (arb_inner a) = Some (q, m, b)"
      using Cons.prems select_offset_free [OF l False, of offs]
      by (cases "mo_request mo ?m (arb_inner a)") (auto simp: Let_def)
    let ?a = "a\<lparr>arb_masters := (arb_masters a)[?j := m], arb_inner := b\<rparr>"
    have a: "limits ?a = limits a" using limits_update request_limit [OF q] by (simp add: limits_def)
    have "max l 1 \<le> max (limits a ! ?j) 1" using limit [OF l(2)] l(1) by (simp add: limits_def)
    then have room: "outstanding_count ?j a < max (limits a ! ?j) 1" using False by linarith
    have count: "outstanding_count i ?a = outstanding_count i a" for i by (simp add: outstanding_count_def)
    show ?thesis
    proof (cases q)
      case None
      then have "select_offset mo offs ?a = Some (r, a')"
        using Cons.prems select_offset_free [OF l False, of offs] q by (simp add: Let_def)
      then show ?thesis using Cons.IH [of ?a] a count by simp
    next
      case (Some x)
      then have "r = Some \<lparr>pr_master = ?j, pr_request = x\<rparr>" "limits a' = limits ?a"
        using Cons.prems select_offset_free [OF l False, of offs] q by (auto simp: Let_def limits_def)
      then show ?thesis using room a by simp
    qed
  qed
qed simp

lemma select_limits:
  "select_next_request mo a = Some (r, a') \<Longrightarrow> limits a' = limits a \<and>
     (\<forall>p. r = Some p \<longrightarrow> outstanding_count (pr_master p) a < max (limits a ! pr_master p) 1)"
  using select_offset_limits by (auto simp: select_next_request_def split: if_splits)

lemma tick_bounded:
  assumes tick: "arbiter_tick ops mo a = Some (r, a')" and a: "bounded a"
  shows "bounded a'"
proof -
  obtain a1 a2 where t: "on_inner (bus_tick ops) a = Some ((), a1)"
    "poll_in_flight_requests ops mo (a1\<lparr>cpu_reserved := False\<rparr>) = Some ((), a2)"
    "arb_pending a2 = arb_pending a" "\<And>j. length (queue j (in_flight a2)) \<le> length (queue j (in_flight a))"
    using tick_phases [OF tick] by metis
  have "limits a2 = limits a" using poll_limits [OF t(2)] t(1) by (auto simp: limits_def on_inner_def)
  then have a2: "bounded a2" using bounded_less [OF a] t(3,4) by (simp add: outstanding_queue)
  have submitted: "bounded a'" if "bounded b" "try_submit_pending_request ops mo b = Some (r, a')" for b
    using bounded_less [OF that(1)] try_submit_limits [OF that(2)] try_submit_outstanding [OF that(2)] by blast
  show ?thesis
  proof (cases "arb_pending a2")
    case (Some p)
    have "bounded (a2\<lparr>cpu_reserved := True\<rparr>)"
      by (rule bounded_less [OF a2]) (simp_all add: limits_def outstanding_count_def)
    then show ?thesis using submitted tick t(1,2) Some by (simp add: arbiter_tick_def)
  next
    case None
    obtain q a3 where s: "select_next_request mo a2 = Some (q, a3)"
      using tick t None by (auto simp: arbiter_tick_def split: option.splits)
    have same: "outstanding_count j a3 = outstanding_count j a2" for j
      using select_control [OF s] by (simp add: outstanding_queue same_control_def)
    have a3: "bounded a3" using bounded_less [OF a2] select_limits [OF s] same by simp
    show ?thesis
    proof (cases q)
      case None
      then show ?thesis using a3 tick t \<open>arb_pending a2 = None\<close> s by (simp add: arbiter_tick_def)
    next
      case (Some p)
      let ?a = "a3\<lparr>cpu_reserved := True, arb_pending := Some p\<rparr>"
      have "arb_pending a3 = None" using select_control [OF s] None by (simp add: same_control_def)
      then have "outstanding_count j ?a = outstanding_count j a3 + (if pr_master p = j then 1 else 0)" for j
        by (simp add: outstanding_queue)
      moreover have "limits ?a = limits a3" by (simp add: limits_def)
      moreover have "outstanding_count (pr_master p) a3 < max (limits a3 ! pr_master p) 1"
        using select_limits [OF s] Some same by simp
      ultimately have "bounded ?a" using a3 by (auto simp: bounded_def)
      then show ?thesis using submitted tick t None s Some by (simp add: arbiter_tick_def)
    qed
  qed
qed

lemma step_bounded: "arb_step ops mo a a' \<Longrightarrow> bounded a \<Longrightarrow> bounded a'"
proof (erule arb_step.cases, goal_cases clock access burst restart)
  case (clock b r b')
  then show ?case using tick_bounded by simp
next
  case (access f b q b')
  then have "limits b' = limits b \<and> (\<forall>j. outstanding_count j b' = outstanding_count j b)"
    by (auto simp: cpu_call_def ensure_cpu_slot_def outstanding_count_def limits_def and_then_def on_inner_def
        split: if_splits)
  then show ?case using access bounded_less by simp
next
  case (burst g b r b')
  then have "limits b' = limits b \<and> (\<forall>j. outstanding_count j b' = outstanding_count j b)"
    by (auto simp: outstanding_count_def limits_def on_inner_def)
  then show ?case using burst bounded_less by simp
next
  case (restart b r b')
  then have "outstanding_count j b' = 0" for j
    by (auto simp: arbiter_reset_def on_inner_def outstanding_count_def)
  then show ?case using restart by (simp add: bounded_def)
qed

lemma reachable_bounded:
  assumes "arb_reachable ops mo a"
  shows "bounded a"
proof -
  obtain inner ms where "(arb_step ops mo)\<^sup>*\<^sup>* (foldr add_master ms (arbiter_new inner)) a"
    using assms by (auto simp: arb_reachable_def)
  then show ?thesis
  proof (induction rule: rtranclp_induct)
    case base
    have "arb_pending (foldr add_master ms (arbiter_new inner)) = None \<and>
        in_flight (foldr add_master ms (arbiter_new inner)) = []"
      by (induction ms) (simp_all add: add_master_def arbiter_new_def)
    then show ?case by (simp add: bounded_def outstanding_count_def)
  next
    case (step b c)
    then show ?case using step_bounded by blast
  qed
qed

end

text \<open>
  C27. No master ever has more requests unresolved than its own limit. Let each master \<open>m\<close> state at
  most \<open>lim m\<close> and keep that limit when it is asked for a request and when it is answered. Then in
  every state that the arbiter reaches from construction through clock cycles, bus calls and resets,
  the requests of the \<open>j\<close>-th master that wait for the bus or are in flight are at most its limit (or
  one, when the limit is zero).
\<close>

theorem outstanding_bounded:
  assumes "\<And>m b l. mo_max_outstanding mo m b = Some l \<Longrightarrow> l \<le> lim m"
    "\<And>m b r m' b'. mo_request mo m b = Some (r, m', b') \<Longrightarrow> lim m' = lim m"
    "\<And>res m b m' b'. mo_on_response mo res m b = Some (m', b') \<Longrightarrow> lim m' = lim m"
    "arb_reachable ops mo a" "j < length (arb_masters a)"
  shows "outstanding_count j a \<le> max (lim (arb_masters a ! j)) 1"
proof -
  have "limited_masters mo lim" using assms(1-3) by (rule limited_masters.intro)
  note limited = limited_masters.reachable_bounded [OF this assms(4)]
    limited_masters.bounded_def [OF this] limited_masters.limits_def [OF this]
  show ?thesis using limited assms(5) by simp
qed

text \<open>A refusal of the arbiter to the CPU, in a cycle that is reserved for a master.\<close>

definition refuses :: "('m, 'b) arbiter \<Rightarrow> (bus_error + 'r, ('m, 'b) arbiter) outcome \<Rightarrow> bool" where
  "refuses a out \<longleftrightarrow> out = Some (Inl (Busy 1),
     a\<lparr>arb_stats := (arb_stats a)\<lparr>cpu_stall_cycles := cpu_stall_cycles (arb_stats a) + 1\<rparr>\<rparr>)"

lemma reserved_refuses: "cpu_reserved a \<Longrightarrow> refuses a (cpu_call f a)"
  by (simp add: refuses_def cpu_call_def ensure_cpu_slot_def)

lemma open_passes: "\<not> cpu_reserved a \<Longrightarrow> cpu_call f a = on_inner f a"
  by (simp add: cpu_call_def ensure_cpu_slot_def)

text \<open>
  C28. A cycle is either a master's or the CPU's to start an access in. After a tick the cycle may be
  reserved: then the tick has offered a waiting request of a master to the bus, and every access that
  the CPU starts, of each width, an instruction fetch or a new burst, is refused with \<open>Busy 1\<close>, counted
  as a stall and kept from the bus below. Or it is not reserved: then no request is waiting, the tick
  has granted none and put none in flight, and every access of the CPU goes to the bus below. Only
  starting is exclusive: the arbiter does not refuse the calls that advance a burst and take its
  response, so a burst that the CPU's cache has under way moves on in a reserved cycle too.
\<close>

theorem one_bus_user:
  assumes "arbiter_tick ops mo a = Some (r, a')"
  shows "if cpu_reserved a'
    then (\<exists>c. cpu_reserved c \<and> arb_pending c \<noteq> None \<and> try_submit_pending_request ops mo c = Some (r, a')) \<and>
      refuses a' (bus_load8 (arbiter_ops ops mo) x a') \<and> refuses a' (bus_load16 (arbiter_ops ops mo) x a') \<and>
      refuses a' (bus_load32 (arbiter_ops ops mo) x a') \<and> refuses a' (bus_fetch32 (arbiter_ops ops mo) x a') \<and>
      refuses a' (bus_store8 (arbiter_ops ops mo) x v a') \<and> refuses a' (bus_store16 (arbiter_ops ops mo) x h a') \<and>
      refuses a' (bus_store32 (arbiter_ops ops mo) x w a') \<and> refuses a' (bus_submit_burst (arbiter_ops ops mo) t a')
    else arb_pending a' = None \<and> arb_stats a' = arb_stats a \<and>
      (\<forall>j. length (queue j (in_flight a')) \<le> length (queue j (in_flight a))) \<and>
      bus_load8 (arbiter_ops ops mo) x a' = on_inner (bus_load8 ops x) a' \<and>
      bus_load16 (arbiter_ops ops mo) x a' = on_inner (bus_load16 ops x) a' \<and>
      bus_load32 (arbiter_ops ops mo) x a' = on_inner (bus_load32 ops x) a' \<and>
      bus_fetch32 (arbiter_ops ops mo) x a' = on_inner (bus_fetch32 ops x) a' \<and>
      bus_store8 (arbiter_ops ops mo) x v a' = on_inner (bus_store8 ops x v) a' \<and>
      bus_store16 (arbiter_ops ops mo) x h a' = on_inner (bus_store16 ops x h) a' \<and>
      bus_store32 (arbiter_ops ops mo) x w a' = on_inner (bus_store32 ops x w) a' \<and>
      bus_submit_burst (arbiter_ops ops mo) t a' = on_inner (bus_submit_burst ops t) a'"
proof -
  obtain a1 a2 where a: "on_inner (bus_tick ops) a = Some ((), a1)"
    "poll_in_flight_requests ops mo (a1\<lparr>cpu_reserved := False\<rparr>) = Some ((), a2)"
    "\<not> cpu_reserved a2" "arb_stats a2 = arb_stats a" "arb_pending a2 = arb_pending a"
    "\<And>j. length (queue j (in_flight a2)) \<le> length (queue j (in_flight a))"
    using tick_phases [OF assms] by metis
  show ?thesis
  proof (cases "arb_pending a2 = None \<and> (\<exists>a3. select_next_request mo a2 = Some (None, a3))")
    case True
    then obtain a3 where s: "select_next_request mo a2 = Some (None, a3)" by blast
    then have "a' = a3" using assms a True by (simp add: arbiter_tick_def)
    then show ?thesis
      using a select_control [OF s] True by (simp add: same_control_def arbiter_ops_def open_passes)
  next
    case False
    have "\<exists>c. cpu_reserved c \<and> arb_pending c \<noteq> None \<and> try_submit_pending_request ops mo c = Some (r, a')"
    proof (cases "arb_pending a2")
      case None
      then obtain p a3 where "select_next_request mo a2 = Some (Some p, a3)"
        using assms a False by (auto simp: arbiter_tick_def split: option.splits)
      then show ?thesis
        using assms a None
        by (intro exI [of _ "a3\<lparr>cpu_reserved := True, arb_pending := Some p\<rparr>"]) (simp add: arbiter_tick_def)
    qed (use assms a in \<open>auto simp: arbiter_tick_def intro!: exI [of _ "a2\<lparr>cpu_reserved := True\<rparr>"]\<close>)
    moreover from this have "cpu_reserved a'" using try_submit_outstanding by fastforce
    ultimately show ?thesis by (simp add: arbiter_ops_def reserved_refuses)
  qed
qed

end
