(* ===== verification/Shared_Dma.thy ===== *)
theory Shared_Dma
  imports Memory_System Arbitration
begin

text \<open>
  The arbiter over the memory map with DMA controllers as masters. A DMA controller is shared
  between a slot of the map, where the CPU programs it, and the arbiter, which calls it as a bus
  master (\<open>map_shared_device\<close> and \<open>add_shared_master\<close> with clones of one \<open>Rc<RefCell<..>>\<close>): the
  arbiter's master is a handle, the index of that slot.

  The interpretation \<open>dma_bus\<close> discharges the contract \<open>arbitrated_bus\<close> for it: the device keeps
  its slot, so the map's invariant has a family of device invariants that says which slots hold
  DMA controllers.
\<close>

fun is_dma :: "device \<Rightarrow> bool" where
  "is_dma (Plain (DevDma _)) \<longleftrightarrow> True"
| "is_dma _ \<longleftrightarrow> False"

definition dma_at :: "nat \<Rightarrow> device memory_map \<Rightarrow> dma_controller option" where
  "dma_at h m =
     (case idx (mm_devices m) h of
        None \<Rightarrow> None
      | Some s \<Rightarrow> (case slot_device s of Plain (DevDma d) \<Rightarrow> Some d | _ \<Rightarrow> None))"

definition put_dma :: "nat \<Rightarrow> dma_controller \<Rightarrow> device memory_map \<Rightarrow> device memory_map" where
  "put_dma h d m = m\<lparr>mm_devices := (mm_devices m)[h := (mm_devices m ! h)\<lparr>slot_device := Plain (DevDma d)\<rparr>]\<rparr>"

definition shared_dma :: "(nat, device memory_map) master_ops" where
  "shared_dma =
     \<lparr>mo_max_outstanding = (\<lambda>h m. map_option (\<lambda>_. max_outstanding_requests) (dma_at h m)),
      mo_request = (\<lambda>h m. map_option (\<lambda>d. case dma_request d of (r, d) \<Rightarrow> (r, h, put_dma h d m)) (dma_at h m)),
      mo_on_response = (\<lambda>res h m. map_option (\<lambda>d. (h, put_dma h (dma_on_response res d) m)) (dma_at h m))\<rparr>"

text \<open>The slots in \<open>H\<close> hold DMA controllers.\<close>

definition dma_family :: "nat set \<Rightarrow> nat \<Rightarrow> device \<Rightarrow> bool" where
  "dma_family H k d \<longleftrightarrow> device_ok d \<and> (k \<in> H \<longrightarrow> is_dma d)"

lemma dma_kept:
  "is_dma d \<Longrightarrow> is_dma (ad_reset device_ops d)"
  "is_dma d \<Longrightarrow> ad_tick device_ops d = Some d' \<Longrightarrow> is_dma d'"
  "is_dma d \<Longrightarrow> is_dma (snd (ad_access_latency device_ops a k w d))"
  "is_dma d \<Longrightarrow> ad_load8 device_ops a d = Some (r, d') \<Longrightarrow> is_dma d'"
  "is_dma d \<Longrightarrow> ad_store8 device_ops a v d = Some (q, d') \<Longrightarrow> is_dma d'"
  by (cases d rule: is_dma.cases;
      auto simp: device_ops_def plain_ops_def lifted_def dma_controller_ops_def)+

lemma dma_family_device: "addressable_device device_ops (dma_family H k)"
proof
  fix d and a x w and v :: u8
  assume d: "dma_family H k d"
  then have ok: "device_ok d" by (simp add: dma_family_def)
  show "dma_family H k (ad_reset device_ops d)"
    using d device.reset_dev dma_kept(1) by (simp add: dma_family_def)
  show "\<exists>d'. ad_tick device_ops d = Some d' \<and> dma_family H k d'"
    using d device.tick_dev [OF ok] dma_kept(2) by (auto simp: dma_family_def)
  show "dma_family H k (snd (ad_access_latency device_ops a x w d))"
    using d device.latency_dev dma_kept(3) by (simp add: dma_family_def)
  show "wp (ad_load8 device_ops a d) (\<lambda>_. dma_family H k)"
    using d device.load8_dev [OF ok, of a] dma_kept(4) by (auto simp: dma_family_def elim!: wp_elim)
  show "wp (ad_store8 device_ops a v d) (\<lambda>_. dma_family H k)"
    using d device.store8_dev [OF ok, of a v] dma_kept(5) by (auto simp: dma_family_def elim!: wp_elim)
qed

interpretation dmas: device_family device_ops slots "dma_family H" for slots H
  by (rule device_family.intro) (rule dma_family_device)

subsection \<open>The contract of the arbiter\<close>

text \<open>The invariant of a map whose slots \<open>0, \<dots>, n - 1\<close> exist and those in \<open>H\<close> hold DMA controllers.\<close>

abbreviation dma_map_ok :: "nat \<Rightarrow> nat set \<Rightarrow> device memory_map \<Rightarrow> bool" where
  "dma_map_ok n H \<equiv> mm_ok n (dma_family H)"

definition handle_ok :: "nat \<Rightarrow> nat set \<Rightarrow> nat \<Rightarrow> bool" where
  "handle_ok n H h \<longleftrightarrow> h < n \<and> h \<in> H"

lemma dma_at_ok:
  assumes "dma_map_ok n H m" "handle_ok n H h"
  obtains d where "dma_at h m = Some d" "dma_ok d" "h < length (mm_devices m)"
proof -
  have h: "h < length (mm_devices m)" "dma_family H h (slot_device (mm_devices m ! h))"
    using assms by (auto simp: mm_ok_def devices_ok_def handle_ok_def)
  then obtain d where "slot_device (mm_devices m ! h) = Plain (DevDma d)" "dma_ok d"
    using assms(2) by (cases "slot_device (mm_devices m ! h)" rule: is_dma.cases)
      (auto simp: dma_family_def handle_ok_def)
  then show ?thesis using that h(1) by (simp add: dma_at_def)
qed

lemma put_dma_ok:
  assumes "dma_map_ok n H m" "h < length (mm_devices m)" "dma_ok d"
  shows "dma_map_ok n H (put_dma h d m)"
proof -
  have "devices_ok n (dma_family H) (put_dma h d m)"
    using assms by (auto simp: mm_ok_def devices_ok_def put_dma_def nth_list_update dma_family_def)
  moreover have "single_client (put_dma h d m)"
    using assms(1)
    by (cases "mm_compat_transaction m") (auto simp: mm_ok_def single_client_def put_dma_def)
  ultimately show ?thesis by (simp add: mm_ok_def)
qed

interpretation dma_bus: arbitrated_bus "mm_ops device_ops" "dma_map_ok n H" shared_dma "handle_ok n H" for n H
proof (intro arbitrated_bus.intro arbitrated_bus_axioms.intro)
  show "burst_bus_safe (mm_ops device_ops) (dma_map_ok n H)"
    by (rule dmas.mm.burst_bus_safe_axioms)
next
  fix m :: "device memory_map" and h
  assume m: "dma_map_ok n H m" "handle_ok n H h"
  obtain d where d: "dma_at h m = Some d" "dma_ok d" "h < length (mm_devices m)"
    using dma_at_ok [OF m] .
  show "\<exists>l. mo_max_outstanding shared_dma h m = Some l"
    using d by (simp add: shared_dma_def)
  obtain r d' where q: "dma_request d = (r, d')" by force
  have "dma_ok d'" and "case r of None \<Rightarrow> True | Some q \<Rightarrow> burst_only q"
    using dma_request_ok [OF d(2) q] by (auto split: option.split)
  then show "\<exists>r h' m'. mo_request shared_dma h m = Some (r, h', m') \<and> handle_ok n H h' \<and>
      dma_map_ok n H m' \<and> (case r of None \<Rightarrow> True | Some q \<Rightarrow> burst_only q)"
    using d m q put_dma_ok by (simp add: shared_dma_def)
  show "\<exists>h' m'. mo_on_response shared_dma res h m = Some (h', m') \<and> handle_ok n H h' \<and> dma_map_ok n H m'" for res
    using d m put_dma_ok dma_on_response_ok by (simp add: shared_dma_def)
qed

subsection \<open>Responses to the DMA controllers\<close>

text \<open>
  C25. The arbiter answers each DMA controller in the order of its requests. Polling never panics;
  what it does is first to collect completions from the bus, which gives a state \<open>b\<close> with the same
  requests in flight, and then to give the answers \<open>D\<close> to the masters, in this order: for every
  master, \<open>D\<close> holds exactly the longest completed prefix of its requests, and what stays in
  flight starts with one that is not completed.
\<close>

theorem responses_in_order:
  assumes "arbiter_ok (dma_map_ok n H) (handle_ok n H) a"
  shows "\<exists>b D a'. each_index (poll_at (mm_ops device_ops)) [0..<length (in_flight a)] a = Some ((), b) \<and>
    map if_master (in_flight b) = map if_master (in_flight a) \<and>
    respond_all shared_dma D b = Some (a'\<lparr>in_flight := in_flight b\<rparr>) \<and>
    poll_in_flight_requests (mm_ops device_ops) shared_dma a = Some ((), a') \<and>
    all_complete D \<and> oldest_open (in_flight a') \<and>
    (\<forall>j. queue j (in_flight b) = queue j D @ queue j (in_flight a'))"
proof -
  obtain b where b: "each_index (poll_at (mm_ops device_ops)) [0..<length (in_flight a)] a = Some ((), b)"
      "arbiter_ok (dma_map_ok n H) (handle_ok n H) b"
    using dma_bus.polls_safe [OF assms] by (auto elim!: wp_elim)
  obtain a' where a': "deliver shared_dma 0 b = Some a'"
    using dma_bus.deliver_safe [OF b(2)] by blast
  have "oldest_open (take 0 (in_flight b))" by (simp add: oldest_open_def)
  from deliver_spec [OF a' this] show ?thesis
    using b(1) a' polls_control [OF b(1)] by (auto simp: poll_in_flight_requests_def)
qed

subsection \<open>Fairness and limits of the DMA controllers\<close>

lemma dma_request_None: "dma_request d = (None, d') \<Longrightarrow> d' = d"
  by (auto simp: dma_request_def issue_write_def Let_def split: option.splits list.splits if_splits)

lemma put_dma_same:
  assumes "dma_at h m = Some d"
  shows "put_dma h d m = m"
proof -
  have "slot_device (mm_devices m ! h) = Plain (DevDma d)"
    using assms by (auto simp: dma_at_def idx_def split: option.splits if_splits device.splits plain_device.splits)
  then have "(mm_devices m ! h)\<lparr>slot_device := Plain (DevDma d)\<rparr> = mm_devices m ! h" by simp
  then show ?thesis by (simp add: put_dma_def)
qed

interpretation dma_masters: idle_masters shared_dma
proof
  fix m and b :: "device memory_map" and m' b'
  assume "mo_request shared_dma m b = Some (None, m', b')"
  moreover obtain d where "dma_at m b = Some d" using calculation by (auto simp: shared_dma_def)
  moreover obtain r d' where "dma_request d = (r, d')" by force
  ultimately show "m' = m \<and> b' = b" using dma_request_None [of d d'] put_dma_same [of m b d] by (auto simp: shared_dma_def)
qed

interpretation dma_limits: limited_masters shared_dma "\<lambda>_. max_outstanding_requests"
  by unfold_locales (auto simp: shared_dma_def)

text \<open>The DMA controller that is master \<open>k\<close> has a burst to issue and a free slot for it.\<close>

definition dma_asks :: "nat \<Rightarrow> (nat, device memory_map) arbiter \<Rightarrow> bool" where
  "dma_asks k a \<longleftrightarrow> k < length (arb_masters a) \<and> outstanding_count k a < max_outstanding_requests \<and>
     (case dma_at (arb_masters a ! k) (arb_inner a) of
        None \<Rightarrow> False
      | Some d \<Rightarrow> fst (dma_request d) \<noteq> None)"

lemma dma_asks: "dma_asks k a \<Longrightarrow> asks shared_dma k a"
  by (cases "dma_at (arb_masters a ! k) (arb_inner a)")
    (auto simp: dma_asks_def asks_def shared_dma_def max_outstanding_requests_def split: prod.split)

text \<open>
  C26. Round robin starves no DMA controller. Take \<open>n\<close> selections of an arbiter with \<open>n\<close> masters, from
  the states \<open>A i\<close>, between which the arbiter may do anything that leaves the next index. If in each of
  these states the DMA controller that is master \<open>k\<close> has a burst to issue and less than four requests
  unresolved, then one of the \<open>n\<close> selections picks master \<open>k\<close>, whatever the other masters ask for.
\<close>

theorem round_robin_fair:
  assumes "\<And>i. i < n \<Longrightarrow> length (arb_masters (A i)) = n \<and> dma_asks k (A i)"
    "next_master_index (A 0) < n"
    "\<And>i. Suc i < n \<Longrightarrow> next_master_index (A (Suc i)) = next_master_index (A' i)"
    "\<And>i. i < n \<Longrightarrow> select_next_request shared_dma (A i) = Some (r i, A' i)"
  shows "\<exists>i < n. \<exists>p. r i = Some p \<and> pr_master p = k"
proof (rule dma_masters.selections_fair [of n A k A' r])
  show "length (arb_masters (A i)) = n \<and> asks shared_dma k (A i)" if "i < n" for i
    using assms(1) [OF that] dma_asks by blast
qed (use assms(2-4) in blast)+

text \<open>The slow RAM and a DMA controller at \<open>0x100\<close> that the arbiter shares.\<close>

definition sample_dma_map :: "device memory_map" where
  "sample_dma_map = snd (map_device device_ops (Plain (DevDma (dma_controller_new 256))) sample_map)"

definition sample_arbiter :: "(nat, device memory_map) arbiter" where
  "sample_arbiter = add_master 1 (arbiter_new sample_dma_map)"

lemma sample_dma_map_eq:
  "mm_devices sample_dma_map = mm_devices sample_map @ [\<lparr>slot_range = \<lparr>range_start = 256, range_size = 24\<rparr>,
     slot_name = ''dma-controller'', slot_device = Plain (DevDma (dma_controller_new 256))\<rparr>]"
  "mm_active_bursts sample_dma_map = []" "mm_active_transactions sample_dma_map = []"
  "mm_compat_transaction sample_dma_map = None"
  by (simp_all add: sample_dma_map_def map_device_def sample_map_eq memory_map_new_def device_ops_def
      plain_ops_def dma_controller_ops_def dma_controller_new_def range_overlaps_def range_end_def Let_def)

lemma sample_arbiter_ok: "arbiter_ok (dma_map_ok 2 {1}) (handle_ok 2 {1}) sample_arbiter"
proof -
  have "dma_map_ok 2 {1} sample_dma_map"
    by (auto simp: mm_ok_def devices_ok_def single_client_def sample_dma_map_eq sample_map_eq
        dma_family_def dma_ok_def dma_controller_new_def nth_append sample_slow_ram_def ram_ok_new
        less_Suc_eq)
  then show ?thesis
    by (simp add: arbiter_ok_def sample_arbiter_def add_master_def arbiter_new_def handle_ok_def)
qed

text \<open>
  A slow RAM of 128 bytes and two DMA controllers at \<open>0x100\<close> and \<open>0x200\<close>, both started on a transfer of
  \<open>w\<close> words; the arbiter serves both.
\<close>

definition busy_dma :: "u64 \<Rightarrow> u32 \<Rightarrow> u32 \<Rightarrow> dma_controller" where
  "busy_dma base dest w =
     start_transfer ((dma_controller_new base)\<lparr>dc_destination := dest, length_words := w\<rparr>)"

definition busy_map :: "u32 \<Rightarrow> device memory_map" where
  "busy_map w = snd (map_device device_ops (Plain (DevDma (busy_dma 512 12 w)))
     (snd (map_device device_ops (Plain (DevDma (busy_dma 256 8 w)))
       (snd (map_device device_ops (Delayed \<lparr>la_inner = DevRam (ram_new 0 128), la_latency_cycles = 2\<rparr>)
         memory_map_new)))))"

definition busy_arbiter :: "u32 \<Rightarrow> (nat, device memory_map) arbiter" where
  "busy_arbiter w = add_master 2 (add_master 1 (arbiter_new (busy_map w)))"

definition busy_after :: "nat \<Rightarrow> u32 \<Rightarrow> (nat, device memory_map) arbiter option" where
  "busy_after k w = iterate (\<lambda>a. map_option snd (arbiter_tick (mm_ops device_ops) shared_dma a)) k (busy_arbiter w)"

lemma busy_dma_range: "dc_range (busy_dma base dest w) = \<lparr>range_start = base, range_size = 24\<rparr>"
  by (simp add: busy_dma_def start_transfer_def dma_controller_new_def Let_def)

lemma busy_map_eq:
  "mm_devices (busy_map w) =
     [\<lparr>slot_range = \<lparr>range_start = 0, range_size = 128\<rparr>, slot_name = ''ram'',
       slot_device = Delayed \<lparr>la_inner = DevRam (ram_new 0 128), la_latency_cycles = 2\<rparr>\<rparr>,
      \<lparr>slot_range = \<lparr>range_start = 256, range_size = 24\<rparr>, slot_name = ''dma-controller'',
       slot_device = Plain (DevDma (busy_dma 256 8 w))\<rparr>,
      \<lparr>slot_range = \<lparr>range_start = 512, range_size = 24\<rparr>, slot_name = ''dma-controller'',
       slot_device = Plain (DevDma (busy_dma 512 12 w))\<rparr>]"
  "mm_active_bursts (busy_map w) = []" "mm_active_transactions (busy_map w) = []"
  "mm_compat_transaction (busy_map w) = None"
  by (simp_all add: busy_map_def map_device_def memory_map_new_def device_ops_def plain_ops_def
      delayed_ops_def latency_ops_def ram_ops_def ram_new_def dma_controller_ops_def busy_dma_range
      range_overlaps_def range_end_def Let_def)

lemma busy_arbiter_ok: "arbiter_ok (dma_map_ok 3 {1, 2}) (handle_ok 3 {1, 2}) (busy_arbiter w)"
proof -
  have "dma_ok (busy_dma base dest w)" for base dest
    unfolding busy_dma_def by (rule dma_ok_start) (simp add: dma_ok_def dma_controller_new_def)
  moreover have "k = 0 \<or> k = 1 \<or> k = 2" if "k < 3" for k :: nat using that by linarith
  ultimately have "dma_map_ok 3 {1, 2} (busy_map w)"
    by (auto simp: mm_ok_def devices_ok_def single_client_def busy_map_eq dma_family_def ram_ok_new
        less_Suc_eq nth_Cons')
  then show ?thesis
    by (simp add: arbiter_ok_def busy_arbiter_def add_master_def arbiter_new_def handle_ok_def)
qed

text \<open>A reachable state, and the contract of the arbiter.\<close>

definition busy_reached :: "u32 \<Rightarrow> (nat, device memory_map) arbiter \<Rightarrow> bool" where
  "busy_reached w a \<longleftrightarrow> arbiter_ok (dma_map_ok 3 {1, 2}) (handle_ok 3 {1, 2}) a \<and>
     (arb_step (mm_ops device_ops) shared_dma)\<^sup>*\<^sup>* (busy_arbiter w) a"

lemma busy_reached_tick:
  assumes "busy_reached w a"
  shows "\<exists>b. map_option snd (arbiter_tick (mm_ops device_ops) shared_dma a) = Some b \<and> busy_reached w b"
proof -
  have "wp (arbiter_tick (mm_ops device_ops) shared_dma a)
      (\<lambda>_. arbiter_ok (dma_map_ok 3 {1, 2}) (handle_ok 3 {1, 2}))"
    using assms unfolding busy_reached_def by (intro dma_bus.arbiter_tick_safe) (rule conjunct1)
  then obtain b where b: "arbiter_tick (mm_ops device_ops) shared_dma a = Some ((), b)"
      "arbiter_ok (dma_map_ok 3 {1, 2}) (handle_ok 3 {1, 2}) b"
    by (rule wp_elim) (simp del: One_nat_def)
  have old: "(arb_step (mm_ops device_ops) shared_dma)\<^sup>*\<^sup>* (busy_arbiter w) a"
    using assms by (simp only: busy_reached_def)
  have "arb_step (mm_ops device_ops) shared_dma a b" by (rule arb_step.clock) (rule b(1))
  with old have "(arb_step (mm_ops device_ops) shared_dma)\<^sup>*\<^sup>* (busy_arbiter w) b"
    by (rule rtranclp.rtrancl_into_rtrancl)
  then show ?thesis using b by (simp add: busy_reached_def del: One_nat_def)
qed

lemma busy_after_reached: "\<exists>a. busy_after k w = Some a \<and> busy_reached w a"
  unfolding busy_after_def
  by (rule iterate_invariant [where P = "busy_reached w", OF busy_reached_tick])
    (simp_all add: busy_reached_def busy_arbiter_ok del: One_nat_def)

text \<open>The bus completes the first read of two; polling answers master 0 and leaves master 1 waiting.\<close>

definition busy_bus_ticked :: "(nat, device memory_map) arbiter option" where
  "busy_bus_ticked = Option.bind (busy_after 3 1) (\<lambda>a. map_option snd (on_inner (bus_tick (mm_ops device_ops)) a))"

lemma responses_in_order_witness:
  "\<exists>a. busy_bus_ticked = Some a \<and> map if_master (in_flight a) = [0, 1] \<and>
   (\<exists>b D a'. each_index (poll_at (mm_ops device_ops)) [0..<length (in_flight a)] a = Some ((), b) \<and>
    map if_master (in_flight b) = map if_master (in_flight a) \<and>
    respond_all shared_dma D b = Some (a'\<lparr>in_flight := in_flight b\<rparr>) \<and>
    poll_in_flight_requests (mm_ops device_ops) shared_dma a = Some ((), a') \<and>
    all_complete D \<and> oldest_open (in_flight a') \<and>
    (\<forall>j. queue j (in_flight b) = queue j D @ queue j (in_flight a')) \<and> map if_master (in_flight a') = [1])"
proof -
  obtain a0 where a0: "busy_after 3 1 = Some a0" "arbiter_ok (dma_map_ok 3 {1, 2}) (handle_ok 3 {1, 2}) a0"
    using busy_after_reached [of 3 1] unfolding busy_reached_def by blast
  obtain a where a: "on_inner (bus_tick (mm_ops device_ops)) a0 = Some ((), a)"
      "arbiter_ok (dma_map_ok 3 {1, 2}) (handle_ok 3 {1, 2}) a"
    using dma_bus.on_inner_safe [OF a0(2), of "bus_tick (mm_ops device_ops)"] dmas.mm.tick_safe
    by (auto elim!: wp_elim)
  have eq: "busy_bus_ticked = Some a" using a0(1) a(1) by (simp add: busy_bus_ticked_def)
  have "map_option (\<lambda>a. map if_master (in_flight a)) busy_bus_ticked = Some [0, 1]" by code_simp
  then have first: "map if_master (in_flight a) = [0, 1]" unfolding eq by simp
  obtain b D a' where p: "each_index (poll_at (mm_ops device_ops)) [0..<length (in_flight a)] a = Some ((), b)"
    "map if_master (in_flight b) = map if_master (in_flight a)"
    "respond_all shared_dma D b = Some (a'\<lparr>in_flight := in_flight b\<rparr>)"
    "poll_in_flight_requests (mm_ops device_ops) shared_dma a = Some ((), a')"
    "all_complete D" "oldest_open (in_flight a')"
    "\<forall>j. queue j (in_flight b) = queue j D @ queue j (in_flight a')"
    using responses_in_order [OF a(2)] by blast
  have "Option.bind busy_bus_ticked (\<lambda>a. map_option (\<lambda>(r, a). map if_master (in_flight a))
      (poll_in_flight_requests (mm_ops device_ops) shared_dma a)) = Some [1]" by code_simp
  then have rest: "map if_master (in_flight a') = [1]" unfolding eq using p(4) by simp
  show ?thesis
    by (rule exI [of _ a], rule conjI [OF eq conjI [OF first]], rule exI [of _ b], rule exI [of _ D],
      rule exI [of _ a'], intro conjI p rest)
qed

text \<open>After nine cycles both masters have as many reads in flight as their limit allows.\<close>

lemma outstanding_bounded_witness:
  "\<exists>a. busy_after 9 32 = Some a \<and> outstanding_count 0 a = 4 \<and> outstanding_count 1 a = 4 \<and>
     outstanding_count 1 a \<le> max max_outstanding_requests 1"
proof -
  obtain a where a: "busy_after 9 32 = Some a" "(arb_step (mm_ops device_ops) shared_dma)\<^sup>*\<^sup>* (busy_arbiter 32) a"
    using busy_after_reached [of 9 32] unfolding busy_reached_def by blast
  have "map_option (\<lambda>a. (outstanding_count 0 a, outstanding_count 1 a, length (arb_masters a)))
      (busy_after 9 32) = Some (4, 4, 2)" by code_simp
  then have counts: "outstanding_count 0 a = 4" "outstanding_count 1 a = 4" "1 < length (arb_masters a)"
    using a(1) by simp_all
  have "busy_arbiter 32 = foldr add_master [2, 1] (arbiter_new (busy_map 32))"
    by (simp add: busy_arbiter_def)
  then have "arb_reachable (mm_ops device_ops) shared_dma a"
    using a(2) unfolding arb_reachable_def by metis
  from outstanding_bounded [where lim = "\<lambda>_. max_outstanding_requests", OF _ _ _ this counts(3)]
  have "outstanding_count 1 a \<le> max max_outstanding_requests 1" by (simp add: shared_dma_def)
  then show ?thesis using a(1) counts by blast
qed

text \<open>In the first cycle the first DMA controller gets the bus and the CPU is refused.\<close>

lemma one_bus_user_witness:
  "\<exists>a'. arbiter_tick (mm_ops device_ops) shared_dma (busy_arbiter 1) = Some ((), a') \<and> cpu_reserved a' \<and>
     refuses a' (bus_load32 (arbiter_ops (mm_ops device_ops) shared_dma) 0 a') \<and>
     refuses a' (bus_store32 (arbiter_ops (mm_ops device_ops) shared_dma) 0 7 a')"
proof -
  obtain a' where a': "arbiter_tick (mm_ops device_ops) shared_dma (busy_arbiter 1) = Some ((), a')"
    using dma_bus.arbiter_tick_safe [OF busy_arbiter_ok [of 1]] by (auto elim!: wp_elim)
  have "map_option (\<lambda>(r, a). cpu_reserved a)
      (arbiter_tick (mm_ops device_ops) shared_dma (busy_arbiter 1)) = Some True" by code_simp
  then have "cpu_reserved a'" using a' by simp
  with one_bus_user [OF a', where x = 0 and w = 7] show ?thesis using a' by simp
qed

text \<open>Both DMA controllers ask; the second one is picked in the second selection.\<close>

primrec selected :: "nat \<Rightarrow> (nat, device memory_map) arbiter" where
  "selected 0 = busy_arbiter 1"
| "selected (Suc i) = snd (the (select_next_request shared_dma (selected i)))"

definition selection :: "nat \<Rightarrow> pending_request option" where
  "selection i = fst (the (select_next_request shared_dma (selected i)))"

lemma round_robin_fair_witness: "\<exists>i < 2. \<exists>p. selection i = Some p \<and> pr_master p = 1"
proof (rule round_robin_fair [of 2 selected 1 "\<lambda>i. selected (Suc i)" selection])
  have both: "i = 0 \<or> i = 1" if "i < 2" for i :: nat using that by linarith
  have "length (arb_masters (selected 0)) = 2 \<and> dma_asks 1 (selected 0)"
    and "length (arb_masters (selected 1)) = 2 \<and> dma_asks 1 (selected 1)" by code_simp+
  then show "length (arb_masters (selected i)) = 2 \<and> dma_asks 1 (selected i)" if "i < 2" for i
    using both [OF that] by auto
  show "next_master_index (selected 0) < 2" by code_simp
  show "select_next_request shared_dma (selected i) = Some (selection i, selected (Suc i))" if "i < 2" for i
  proof -
    have "select_next_request shared_dma (selected 0) \<noteq> None"
      and "select_next_request shared_dma (selected 1) \<noteq> None" by code_simp+
    then show ?thesis using both [OF that] by (auto simp: selection_def)
  qed
qed simp

end
