(* ===== verification/System.thy ===== *)
theory System
  imports Machine Shared_Dma
begin

text \<open>
  The whole machine: a core, a memory map and the devices of the crate. The interpretation
  \<open>device\<close> of the device contract gives the map's bus contract, which gives the processor
  contract of both cores; what a machine does over any number of cycles follows. The same holds
  with the arbiter and its DMA masters between the core and the map.
\<close>

interpretation reference_machine: processor "mm_ops device_ops" "mm_ok 0 (\<lambda>_. device_ok)"
    "reference_step (mm_ops device_ops)" reference_reset reference_ok
  by (rule bus_safe.reference_processor [OF device.family.mm.bus_safe_axioms])

interpretation pipeline_machine: processor "mm_ops device_ops" "mm_ok 0 (\<lambda>_. device_ok)"
    "pipeline_step (mm_ops device_ops)" pipeline_reset pipeline_ok
  by (rule bus_safe.pipeline_processor [OF device.family.mm.bus_safe_axioms])

text \<open>The cycle reports of a run: one per cycle, none retiring more than one instruction.\<close>

definition reports_ok :: "nat \<Rightarrow> cpu_cycle list \<Rightarrow> bool" where
  "reports_ok n reps \<longleftrightarrow> length reps = n \<and> (\<forall>rep \<in> set reps. retired_instructions rep \<le> 1)"

text \<open>
  C14. A machine with the reference core runs for any number of cycles without a panic and without a
  fatal error: on a well-formed core and a map of well-formed devices, \<open>n\<close> cycles give \<open>n\<close>
  reports, each retiring at most one instruction, advance the clock by \<open>n\<close>, and leave the core
  and the bus well-formed.
\<close>

theorem reference_machine_runs:
  assumes "reference_ok (ms_cpu m)" "mm_ok 0 (\<lambda>_. device_ok) (ms_bus m)"
  shows "\<exists>reps m'. run_cycles (mm_ops device_ops) (reference_step (mm_ops device_ops)) n m =
      Some (Inr reps, m') \<and> reports_ok n reps \<and> ms_clock m' = ms_clock m + of_nat n \<and>
    reference_ok (ms_cpu m') \<and> mm_ok 0 (\<lambda>_. device_ok) (ms_bus m')"
  using reference_machine.run_cycles_safe [OF assms, of n] by (auto simp: reports_ok_def)

lemma reference_machine_runs_witness:
  "\<exists>reps m'. run_cycles (mm_ops device_ops) (reference_step (mm_ops device_ops)) 100
      (machine_new (reference_new 0) sample_map) = Some (Inr reps, m') \<and> reports_ok 100 reps"
  using reference_machine_runs [of "machine_new (reference_new 0) sample_map" 100]
  by (auto simp: machine_new_def reference_ok_new sample_map_ok)

text \<open>
  C6. The same for the pipelined core: stalls, flushes, forwarding, traps, page walks and the
  branch predictor never index out of bounds, reach an \<open>unreachable!\<close> or return an error, and no
  cycle retires more than one instruction.
\<close>

theorem pipeline_machine_runs:
  assumes "pipeline_ok (ms_cpu m)" "mm_ok 0 (\<lambda>_. device_ok) (ms_bus m)"
  shows "\<exists>reps m'. run_cycles (mm_ops device_ops) (pipeline_step (mm_ops device_ops)) n m =
      Some (Inr reps, m') \<and> reports_ok n reps \<and> ms_clock m' = ms_clock m + of_nat n \<and>
    pipeline_ok (ms_cpu m') \<and> mm_ok 0 (\<lambda>_. device_ok) (ms_bus m')"
  using pipeline_machine.run_cycles_safe [OF assms, of n] by (auto simp: reports_ok_def)

lemma pipeline_machine_runs_witness:
  "\<exists>reps m'. run_cycles (mm_ops device_ops) (pipeline_step (mm_ops device_ops)) 100
      (machine_new (pipeline_new 0) sample_map) = Some (Inr reps, m') \<and> reports_ok 100 reps"
  using pipeline_machine_runs [of "machine_new (pipeline_new 0) sample_map" 100]
  by (auto simp: machine_new_def pipeline_ok_new sample_map_ok)

interpretation dma_machine: processor "arbiter_ops (mm_ops device_ops) shared_dma"
    "arbiter_ok (dma_map_ok k H) (handle_ok k H)"
    "pipeline_step (arbiter_ops (mm_ops device_ops) shared_dma)" pipeline_reset pipeline_ok for k H
  by (rule bus_safe.pipeline_processor [OF dma_bus.arbiter.bus_safe_axioms])

text \<open>
  C7. The pipelined core shares the bus with DMA controllers through the arbiter: whatever the
  program and the transfers do, \<open>n\<close> cycles of the machine neither panic nor fail, and every master
  handle keeps pointing at a DMA controller.
\<close>

theorem dma_machine_runs:
  assumes "pipeline_ok (ms_cpu m)" "arbiter_ok (dma_map_ok k H) (handle_ok k H) (ms_bus m)"
  shows "\<exists>reps m'. run_cycles (arbiter_ops (mm_ops device_ops) shared_dma)
        (pipeline_step (arbiter_ops (mm_ops device_ops) shared_dma)) n m = Some (Inr reps, m') \<and>
      reports_ok n reps \<and> pipeline_ok (ms_cpu m') \<and>
      arbiter_ok (dma_map_ok k H) (handle_ok k H) (ms_bus m')"
  using dma_machine.run_cycles_safe [OF assms, of n] by (auto simp: reports_ok_def)

lemma dma_machine_runs_witness:
  "\<exists>reps m'. run_cycles (arbiter_ops (mm_ops device_ops) shared_dma)
        (pipeline_step (arbiter_ops (mm_ops device_ops) shared_dma)) 100
        (machine_new (pipeline_new 0) sample_arbiter) = Some (Inr reps, m') \<and> reports_ok 100 reps"
proof -
  let ?m = "machine_new (pipeline_new 0) sample_arbiter"
  have m: "pipeline_ok (ms_cpu ?m)" "arbiter_ok (dma_map_ok 2 {1}) (handle_ok 2 {1}) (ms_bus ?m)"
    using sample_arbiter_ok by (simp_all add: machine_new_def pipeline_ok_new)
  show ?thesis using dma_machine_runs [OF m, of 100] by blast
qed

end
