(* ===== verification/Cache_Bank.thy ===== *)
theory Cache_Bank
  imports Bus
begin

text \<open>
  A bank of cache lines (\<open>crates/system/src/cache.rs\<close>, from \<open>CacheConfig\<close> to \<open>CacheBank\<close>): geometry
  and policies, lookup, victim selection, the eviction and refill of a line through bursts of the
  bus below, cached loads and stores, and the maintenance of a range of lines.

  A method of the bank that also takes \<open>inner: &mut B\<close> is a bus call on the pair of both. The loop
  of \<open>drive_burst_until_blocked\<close> runs as long as the bus accepts beats; it is a partial function
  whose value is \<open>None\<close> if it does not end, as it is for a panic.
\<close>

subsection \<open>Configuration\<close>

datatype replacement_policy = RoundRobin | LeastRecentlyUsed
datatype write_policy = WriteThrough | WriteBack
datatype store_allocation_policy = NoWriteAllocate | WriteAllocate

definition word_bytes :: nat where [masks]: "word_bytes = 4"

record cache_config =
  line_count :: nat
  line_size :: nat
  associativity :: nat
  cc_replacement :: replacement_policy
  cc_write :: write_policy
  cc_allocation :: store_allocation_policy
  cached_ranges :: "address_range list"

text \<open>The assertions of \<open>validate_cached_ranges\<close>.\<close>

definition valid_ranges :: "cache_config \<Rightarrow> bool" where
  "valid_ranges c \<longleftrightarrow> (\<forall>r \<in> set (cached_ranges c).
     range_start r mod of_nat (line_size c) = 0 \<and> range_size r mod of_nat (line_size c) = 0)"

definition validated :: "cache_config \<Rightarrow> cache_config option" where
  "validated c = (if valid_ranges c then Some c else None)"

definition cache_config_new :: "nat \<Rightarrow> address_range list \<Rightarrow> cache_config option" where
  "cache_config_new n ranges =
     (if n > 0
      then validated \<lparr>line_count = n, line_size = word_bytes, associativity = 1,
        cc_replacement = RoundRobin, cc_write = WriteThrough, cc_allocation = NoWriteAllocate,
        cached_ranges = ranges\<rparr>
      else None)"

fun is_power_of_two :: "nat \<Rightarrow> bool" where
  "is_power_of_two n = (if n \<le> 1 then n = 1 else even n \<and> is_power_of_two (n div 2))"

declare is_power_of_two.simps [simp del]

definition with_line_size :: "nat \<Rightarrow> cache_config \<Rightarrow> cache_config option" where
  "with_line_size n c =
     (if n \<ge> word_bytes \<and> is_power_of_two n \<and> n mod word_bytes = 0
      then validated (c\<lparr>line_size := n\<rparr>) else None)"

definition with_associativity :: "nat \<Rightarrow> cache_config \<Rightarrow> cache_config option" where
  "with_associativity n c =
     (if n > 0 \<and> line_count c mod n = 0 then Some (c\<lparr>associativity := n\<rparr>) else None)"

definition with_replacement_policy :: "replacement_policy \<Rightarrow> cache_config \<Rightarrow> cache_config" where
  "with_replacement_policy p c = c\<lparr>cc_replacement := p\<rparr>"

definition with_write_policy :: "write_policy \<Rightarrow> cache_config \<Rightarrow> cache_config" where
  "with_write_policy p c = c\<lparr>cc_write := p\<rparr>"

definition with_store_allocation_policy :: "store_allocation_policy \<Rightarrow> cache_config \<Rightarrow> cache_config" where
  "with_store_allocation_policy p c = c\<lparr>cc_allocation := p\<rparr>"

definition set_count :: "cache_config \<Rightarrow> nat" where
  "set_count c = line_count c div associativity c"

definition config_caches_address :: "cache_config \<Rightarrow> u64 \<Rightarrow> bool" where
  "config_caches_address c a \<longleftrightarrow> (\<exists>r \<in> set (cached_ranges c). range_contains r a)"

subsection \<open>Lines, sets and banks\<close>

record cache_stats =
  read_hits :: u64
  read_misses :: u64
  refills :: u64
  refill_words :: u64
  evictions :: u64
  dirty_evictions :: u64
  write_backs :: u64
  write_back_words :: u64
  write_accesses :: u64
  bypassed_reads :: u64
  bypassed_writes :: u64
  invalidations :: u64

definition cache_stats_default :: cache_stats where
  "cache_stats_default =
     \<lparr>read_hits = 0, read_misses = 0, refills = 0, refill_words = 0, evictions = 0,
      dirty_evictions = 0, write_backs = 0, write_back_words = 0, write_accesses = 0,
      bypassed_reads = 0, bypassed_writes = 0, invalidations = 0\<rparr>"

record cache_line =
  cl_valid :: bool
  cl_dirty :: bool
  cl_tag :: u64
  cl_words :: "u32 list"
  cl_last_used :: u64

definition cache_line_new :: "nat \<Rightarrow> cache_line" where
  "cache_line_new n =
     \<lparr>cl_valid = False, cl_dirty = False, cl_tag = 0, cl_words = replicate n 0, cl_last_used = 0\<rparr>"

definition cache_line_reset :: "cache_line \<Rightarrow> cache_line" where
  "cache_line_reset l =
     l\<lparr>cl_valid := False, cl_dirty := False, cl_tag := 0, cl_last_used := 0,
       cl_words := map (\<lambda>_. 0) (cl_words l)\<rparr>"

record cache_set =
  cs_lines :: "cache_line list"
  next_victim :: nat

definition cache_set_new :: "nat \<Rightarrow> nat \<Rightarrow> cache_set" where
  "cache_set_new ways n = \<lparr>cs_lines = replicate ways (cache_line_new n), next_victim = 0\<rparr>"

definition cache_set_reset :: "cache_set \<Rightarrow> cache_set" where
  "cache_set_reset s = s\<lparr>cs_lines := map cache_line_reset (cs_lines s), next_victim := 0\<rparr>"

datatype refill_kind = RefillFetch | RefillLoad

fun refill_access_kind :: "refill_kind \<Rightarrow> access_kind" where
  "refill_access_kind RefillFetch = Fetch"
| "refill_access_kind RefillLoad = LoadAccess"

record decoded_address =
  da_line_base :: u64
  da_set_index :: nat
  da_tag :: u64
  da_word_index :: nat

record store_op =
  so_addr :: u64
  so_width :: nat
  so_value :: u32

record pending_write_back =
  wb_line_base :: u64
  wb_words :: "u32 list"
  wb_burst_id :: "u64 option"

record pending_refill =
  rf_line_base :: u64
  rf_set_index :: nat
  rf_tag :: u64
  rf_way_index :: nat
  rf_words :: "u32 list"
  rf_kind :: refill_kind
  rf_burst_id :: "u64 option"

record pending_line_op =
  lo_write_back :: "pending_write_back option"
  lo_refill :: pending_refill

definition matches_line :: "pending_line_op \<Rightarrow> decoded_address \<Rightarrow> bool" where
  "matches_line p d \<longleftrightarrow> rf_line_base (lo_refill p) = da_line_base d"

record cache_bank =
  cb_config :: cache_config
  cb_sets :: "cache_set list"
  cb_stats :: cache_stats
  cb_pending :: "pending_line_op option"
  access_epoch :: u64

definition line_words :: "cache_bank \<Rightarrow> nat" where
  "line_words k = line_size (cb_config k) div word_bytes"

definition cache_bank_new :: "cache_config \<Rightarrow> cache_bank" where
  "cache_bank_new c =
     \<lparr>cb_config = c,
      cb_sets = replicate (set_count c) (cache_set_new (associativity c) (line_size c div word_bytes)),
      cb_stats = cache_stats_default, cb_pending = None, access_epoch = 0\<rparr>"

definition cache_bank_reset :: "cache_bank \<Rightarrow> cache_bank" where
  "cache_bank_reset k =
     k\<lparr>cb_sets := map cache_set_reset (cb_sets k), cb_stats := cache_stats_default,
       cb_pending := None, access_epoch := 0\<rparr>"

definition has_pending_activity :: "cache_bank \<Rightarrow> bool" where
  "has_pending_activity k \<longleftrightarrow> cb_pending k \<noteq> None"

definition caches_address :: "cache_bank \<Rightarrow> u64 \<Rightarrow> bool" where
  "caches_address k = config_caches_address (cb_config k)"

subsection \<open>Addresses\<close>

definition line_base :: "cache_bank \<Rightarrow> u64 \<Rightarrow> u64" where
  "line_base k a = a AND NOT (of_nat (line_size (cb_config k)) - 1)"

definition checked_add :: "u64 \<Rightarrow> u64 \<Rightarrow> u64 option" where
  "checked_add a b = (if unat a + unat b < 2 ^ 64 then Some (a + b) else None)"

text \<open>The loop of \<open>line_bases_for_range\<close>; it would not end for a line size of zero.\<close>

partial_function (option) line_bases_loop :: "u64 \<Rightarrow> u64 \<Rightarrow> u64 \<Rightarrow> u64 list option" where
  "line_bases_loop bytes final base =
     (if base \<ge> final then Some [base]
      else
        (case checked_add base bytes of
           None \<Rightarrow> Some [base]
         | Some next \<Rightarrow> Option.bind (line_bases_loop bytes final next) (\<lambda>bs. Some (base # bs))))"

declare line_bases_loop.simps [code]

definition line_bases_for_range :: "cache_bank \<Rightarrow> u64 \<Rightarrow> u64 \<Rightarrow> u64 list option" where
  "line_bases_for_range k start len =
     (if len = 0 then Some []
      else
        line_bases_loop (of_nat (line_size (cb_config k)))
          (case checked_add start (len - 1) of Some e \<Rightarrow> e | None \<Rightarrow> - 1)
          (line_base k start))"

definition caches_line :: "cache_bank \<Rightarrow> u64 \<Rightarrow> bool" where
  "caches_line k base =
     (case checked_add base (of_nat (line_size (cb_config k))) of
        None \<Rightarrow> False
      | Some e \<Rightarrow> \<exists>r \<in> set (cached_ranges (cb_config k)). base \<ge> range_start r \<and> e \<le> range_end r)"

definition caches_line_containing :: "cache_bank \<Rightarrow> u64 \<Rightarrow> bool" where
  "caches_line_containing k a = caches_line k (line_base k a)"

definition decode_address :: "cache_bank \<Rightarrow> u64 \<Rightarrow> decoded_address" where
  "decode_address k a =
     (let base = line_base k a;
          n = base div of_nat (line_size (cb_config k))
      in \<lparr>da_line_base = base, da_set_index = unat n mod set_count (cb_config k),
          da_tag = n div of_nat (set_count (cb_config k)),
          da_word_index = unat (a - base) div word_bytes\<rparr>)"

definition line_base_for_tag :: "cache_bank \<Rightarrow> nat \<Rightarrow> u64 \<Rightarrow> u64" where
  "line_base_for_tag k set_index tag =
     (tag * of_nat (set_count (cb_config k)) + of_nat set_index) * of_nat (line_size (cb_config k))"

subsection \<open>Lookup and replacement\<close>

definition lookup_way :: "cache_bank \<Rightarrow> decoded_address \<Rightarrow> nat option option" where
  "lookup_way k d =
     map_option (\<lambda>s. position (\<lambda>l. cl_valid l \<and> cl_tag l = da_tag d) (cs_lines s))
       (idx (cb_sets k) (da_set_index d))"

text \<open>\<open>self.sets[i].lines[j]\<close>, and the same place updated.\<close>

definition line_at :: "cache_bank \<Rightarrow> nat \<Rightarrow> nat \<Rightarrow> cache_line option" where
  "line_at k i j = Option.bind (idx (cb_sets k) i) (\<lambda>s. idx (cs_lines s) j)"

definition update_line ::
  "nat \<Rightarrow> nat \<Rightarrow> (cache_line \<Rightarrow> cache_line option) \<Rightarrow> cache_bank \<Rightarrow> cache_bank option" where
  "update_line i j f k =
     (case idx (cb_sets k) i of
        None \<Rightarrow> None
      | Some s \<Rightarrow>
          (case idx (cs_lines s) j of
             None \<Rightarrow> None
           | Some l \<Rightarrow>
               map_option (\<lambda>l. k\<lparr>cb_sets := (cb_sets k)[i := s\<lparr>cs_lines := (cs_lines s)[j := l]\<rparr>]\<rparr>) (f l)))"

definition bank_read_word :: "cache_bank \<Rightarrow> decoded_address \<Rightarrow> nat \<Rightarrow> u32 option" where
  "bank_read_word k d way =
     Option.bind (line_at k (da_set_index d) way) (\<lambda>l. idx (cl_words l) (da_word_index d))"

definition touch_line :: "nat \<Rightarrow> nat \<Rightarrow> cache_bank \<Rightarrow> cache_bank option" where
  "touch_line i way k =
     (let e = access_epoch k + 1 in
      update_line i way (\<lambda>l. Some (l\<lparr>cl_last_used := e\<rparr>)) (k\<lparr>access_epoch := e\<rparr>))"

text \<open>\<open>min_by_key\<close>: the first of the lines that were used the longest ago.\<close>

definition least_recently_used :: "cache_line list \<Rightarrow> nat" where
  "least_recently_used ls =
     (case position (\<lambda>l. \<forall>l' \<in> set ls. cl_last_used l \<le> cl_last_used l') ls of Some i \<Rightarrow> i | None \<Rightarrow> 0)"

definition select_victim :: "nat \<Rightarrow> cache_bank \<Rightarrow> (nat \<times> cache_bank) option" where
  "select_victim i k =
     (case idx (cb_sets k) i of
        None \<Rightarrow> None
      | Some s \<Rightarrow>
          (let round_robin = (cc_replacement (cb_config k) = RoundRobin);
               n = length (cs_lines s);
               with_next = (\<lambda>v. k\<lparr>cb_sets := (cb_sets k)[i := s\<lparr>next_victim := v\<rparr>]\<rparr>)
           in case position (\<lambda>l. \<not> cl_valid l) (cs_lines s) of
                Some j \<Rightarrow> Some (j, if round_robin then with_next ((j + 1) mod n) else k)
              | None \<Rightarrow>
                  if round_robin
                  then (if n = 0 then None
                        else Some (next_victim s, with_next ((next_victim s + 1) mod n)))
                  else Some (least_recently_used (cs_lines s), k)))"

subsection \<open>Eviction and refill\<close>

definition pending_write_back_new :: "u64 \<Rightarrow> u32 list \<Rightarrow> pending_write_back" where
  "pending_write_back_new base ws = \<lparr>wb_line_base = base, wb_words = ws, wb_burst_id = None\<rparr>"

definition pending_refill_new :: "decoded_address \<Rightarrow> nat \<Rightarrow> nat \<Rightarrow> refill_kind \<Rightarrow> pending_refill" where
  "pending_refill_new d way n kind =
     \<lparr>rf_line_base = da_line_base d, rf_set_index = da_set_index d, rf_tag = da_tag d,
      rf_way_index = way, rf_words = replicate n 0, rf_kind = kind, rf_burst_id = None\<rparr>"

definition start_pending :: "decoded_address \<Rightarrow> refill_kind \<Rightarrow> bool \<Rightarrow> cache_bank \<Rightarrow> cache_bank option" where
  "start_pending d kind count_read_miss k =
     (case select_victim (da_set_index d) k of
        None \<Rightarrow> None
      | Some (victim, k) \<Rightarrow>
          (case line_at k (da_set_index d) victim of
             None \<Rightarrow> None
           | Some l \<Rightarrow>
               (let dirty = (cc_write (cb_config k) = WriteBack \<and> cl_valid l \<and> cl_dirty l);
                    st = cb_stats k;
                    st = (if cl_valid l then st\<lparr>evictions := evictions st + 1\<rparr> else st);
                    st = (if dirty then st\<lparr>dirty_evictions := dirty_evictions st + 1\<rparr> else st);
                    st = (if count_read_miss then st\<lparr>read_misses := read_misses st + 1\<rparr> else st);
                    write_back = (if dirty
                      then Some (pending_write_back_new (line_base_for_tag k (da_set_index d) (cl_tag l)) (cl_words l))
                      else None)
                in map_option (\<lambda>k. k\<lparr>cb_pending := Some
                       \<lparr>lo_write_back = write_back,
                        lo_refill = pending_refill_new d victim (line_words k) kind\<rparr>\<rparr>)
                     (update_line (da_set_index d) victim
                       (\<lambda>l. Some (l\<lparr>cl_valid := False, cl_dirty := False\<rparr>)) (k\<lparr>cb_stats := st\<rparr>)))))"

datatype 'a burst_drive = DriveBusy u32 | DriveReady 'a

text \<open>
  The loop of \<open>drive_burst_until_blocked\<close> for the submitted burst \<open>i\<close>. The second component of the
  result is \<open>*burst_id\<close> at the end.
\<close>

partial_function (option) drive_loop ::
  "('b, 'z) burst_ops_scheme \<Rightarrow> u64 \<Rightarrow> 'b \<Rightarrow>
   ((bus_error + burst_response burst_drive) \<times> u64 option \<times> 'b) option" where
  "drive_loop ops i b =
     (case bus_burst_phase ops b i of
        None \<Rightarrow> None
      | Some (BuAccepted _ _) \<Rightarrow>
          (case bus_advance_burst ops i b of
             None \<Rightarrow> None
           | Some (None, b) \<Rightarrow> None
           | Some (Some (BuInFlight _ _ n), b) \<Rightarrow> Some (Inr (DriveBusy n), Some i, b)
           | Some (Some _, b) \<Rightarrow> drive_loop ops i b)
      | Some (BuInFlight _ _ n) \<Rightarrow> Some (Inr (DriveBusy n), Some i, b)
      | Some (BuReady _) \<Rightarrow>
          (case bus_take_burst_response ops i b of
             None \<Rightarrow> None
           | Some (None, b) \<Rightarrow> None
           | Some (Some (Inr resp), b) \<Rightarrow> Some (Inr (DriveReady resp), None, b)
           | Some (Some (Inl e), b) \<Rightarrow> Some (Inl e, None, b))
      | Some (BuFailed _) \<Rightarrow>
          (case bus_take_burst_response ops i b of
             None \<Rightarrow> None
           | Some (None, b) \<Rightarrow> None
           | Some (Some (Inr resp), b) \<Rightarrow> None
           | Some (Some (Inl e), b) \<Rightarrow> Some (Inl e, None, b)))"

declare drive_loop.simps [code]

definition drive_burst_until_blocked ::
  "('b, 'z) burst_ops_scheme \<Rightarrow> u64 option \<Rightarrow> burst_request \<Rightarrow> 'b \<Rightarrow>
   ((bus_error + burst_response burst_drive) \<times> u64 option \<times> 'b) option" where
  "drive_burst_until_blocked ops burst_id request b =
     (case burst_id of
        Some i \<Rightarrow> drive_loop ops i b
      | None \<Rightarrow>
          (case bus_submit_burst ops request b of
             None \<Rightarrow> None
           | Some (Inl e, b) \<Rightarrow> Some (Inl e, None, b)
           | Some (Inr i, b) \<Rightarrow> drive_loop ops i b))"

definition progress_write_back ::
  "('b, 'z) burst_ops_scheme \<Rightarrow> pending_write_back \<Rightarrow> 'b \<Rightarrow>
   ((bus_error + nat burst_drive) \<times> pending_write_back \<times> 'b) option" where
  "progress_write_back ops w b =
     (case drive_burst_until_blocked ops (wb_burst_id w) (BurstWrite (wb_line_base w) (wb_words w)) b of
        None \<Rightarrow> None
      | Some (res, i, b) \<Rightarrow>
          (let w = w\<lparr>wb_burst_id := i\<rparr> in
           case res of
             Inl e \<Rightarrow> Some (Inl e, w, b)
           | Inr (DriveBusy n) \<Rightarrow> Some (Inr (DriveBusy n), w, b)
           | Inr (DriveReady (BurstWritten n)) \<Rightarrow> Some (Inr (DriveReady n), w, b)
           | Inr (DriveReady (BurstWords _)) \<Rightarrow> None))"

definition progress_refill ::
  "('b, 'z) burst_ops_scheme \<Rightarrow> pending_refill \<Rightarrow> 'b \<Rightarrow>
   ((bus_error + u32 list burst_drive) \<times> pending_refill \<times> 'b) option" where
  "progress_refill ops r b =
     (case drive_burst_until_blocked ops (rf_burst_id r)
         (BurstRead (rf_line_base r) (length (rf_words r)) (refill_access_kind (rf_kind r))) b of
        None \<Rightarrow> None
      | Some (res, i, b) \<Rightarrow>
          (let r = r\<lparr>rf_burst_id := i\<rparr> in
           case res of
             Inl e \<Rightarrow> Some (Inl e, r, b)
           | Inr (DriveBusy n) \<Rightarrow> Some (Inr (DriveBusy n), r, b)
           | Inr (DriveReady (BurstWords ws)) \<Rightarrow> Some (Inr (DriveReady ws), r, b)
           | Inr (DriveReady (BurstWritten _)) \<Rightarrow> None))"

type_synonym ('b, 'r) bank_call = "(cache_bank \<times> 'b, 'r) bus_call"

text \<open>
  The two halves of \<open>continue_pending\<close>, which has taken the operation \<open>p\<close> out of the bank: the
  write-back of the victim, and the refill. \<open>p\<close> is put back only if a burst has to wait; an error
  drops it.
\<close>

definition continue_victim ::
  "('b, 'z) burst_ops_scheme \<Rightarrow> pending_line_op \<Rightarrow> ('b, pending_line_op) bank_call" where
  "continue_victim ops p st =
     (case st of (k, b) \<Rightarrow>
        (case lo_write_back p of
          None \<Rightarrow> Some (Inr p, (k, b))
        | Some w \<Rightarrow>
            (case progress_write_back ops w b of
               None \<Rightarrow> None
             | Some (Inl e, w, b) \<Rightarrow> Some (Inl e, (k, b))
             | Some (Inr (DriveBusy n), w, b) \<Rightarrow>
                 Some (Inl (Busy n), (k\<lparr>cb_pending := Some (p\<lparr>lo_write_back := Some w\<rparr>)\<rparr>, b))
             | Some (Inr (DriveReady n), w, b) \<Rightarrow>
                 (let st = cb_stats k in
                  Some (Inr (p\<lparr>lo_write_back := None\<rparr>),
                    (k\<lparr>cb_stats := st\<lparr>write_back_words := write_back_words st + of_nat n,
                        write_backs := write_backs st + 1\<rparr>\<rparr>, b))))))"

definition install_line :: "pending_refill \<Rightarrow> u32 list \<Rightarrow> cache_bank \<Rightarrow> cache_bank option" where
  "install_line r ws k =
     update_line (rf_set_index r) (rf_way_index r)
       (\<lambda>l. if length ws = length (cl_words l)
             then Some (l\<lparr>cl_valid := True, cl_dirty := False, cl_tag := rf_tag r, cl_words := ws\<rparr>)
             else None) k"

definition continue_refill ::
  "('b, 'z) burst_ops_scheme \<Rightarrow> pending_line_op \<Rightarrow> ('b, unit) bank_call" where
  "continue_refill ops p st =
     (case st of (k, b) \<Rightarrow>
        (case progress_refill ops (lo_refill p) b of
          None \<Rightarrow> None
        | Some (Inl e, r, b) \<Rightarrow> Some (Inl e, (k, b))
        | Some (Inr (DriveBusy n), r, b) \<Rightarrow>
            Some (Inl (Busy n), (k\<lparr>cb_pending := Some (p\<lparr>lo_refill := r\<rparr>)\<rparr>, b))
        | Some (Inr (DriveReady ws), r, b) \<Rightarrow>
            (let st = cb_stats k;
                 k = k\<lparr>cb_stats := st\<lparr>refill_words := refill_words st + of_nat (length ws),
                                      refills := refills st + 1\<rparr>\<rparr>
             in map_option (\<lambda>k. (Inr (), (k, b)))
                  (Option.bind (install_line r ws k) (touch_line (rf_set_index r) (rf_way_index r))))))"

definition continue_pending :: "('b, 'z) burst_ops_scheme \<Rightarrow> ('b, unit) bank_call" where
  "continue_pending ops st =
     (case st of (k, b) \<Rightarrow>
        (case cb_pending k of
          None \<Rightarrow> Some (Inr (), (k, b))
        | Some p \<Rightarrow>
            and_then (continue_victim ops p (k\<lparr>cb_pending := None\<rparr>, b)) (\<lambda>p. continue_refill ops p)))"

subsection \<open>Loads\<close>

text \<open>A pending operation for another line blocks the access; one for this line is continued.\<close>

definition join_pending :: "('b, 'z) burst_ops_scheme \<Rightarrow> decoded_address \<Rightarrow> ('b, unit) bank_call" where
  "join_pending ops d st =
     (case cb_pending (fst st) of
        None \<Rightarrow> Some (Inr (), st)
      | Some p \<Rightarrow> if matches_line p d then continue_pending ops st else Some (Inl (Busy 1), st))"

text \<open>Start the operation, run it, and look the installed line up.\<close>

definition fill_line ::
  "('b, 'z) burst_ops_scheme \<Rightarrow> decoded_address \<Rightarrow> refill_kind \<Rightarrow> bool \<Rightarrow> ('b, nat) bank_call" where
  "fill_line ops d kind count st =
     (case st of (k, b) \<Rightarrow>
        (case start_pending d kind count k of
          None \<Rightarrow> None
        | Some k \<Rightarrow>
            and_then (continue_pending ops (k, b)) (\<lambda>_ st.
              case lookup_way (fst st) d of
                Some (Some way) \<Rightarrow> Some (Inr way, st)
              | _ \<Rightarrow> None)))"

definition ensure_line ::
  "('b, 'z) burst_ops_scheme \<Rightarrow> u64 \<Rightarrow> refill_kind \<Rightarrow> ('b, decoded_address \<times> nat) bank_call" where
  "ensure_line ops a kind st =
     (let d = decode_address (fst st) a in
      and_then (join_pending ops d st) (\<lambda>_ st.
        case lookup_way (fst st) d of
          None \<Rightarrow> None
        | Some (Some way) \<Rightarrow> Some (Inr (d, way), st)
        | Some None \<Rightarrow> and_then (fill_line ops d kind True st) (\<lambda>way st. Some (Inr (d, way), st))))"

definition load_word :: "('b, 'z) burst_ops_scheme \<Rightarrow> u64 \<Rightarrow> refill_kind \<Rightarrow> ('b, u32) bank_call" where
  "load_word ops a kind st =
     and_then (ensure_line ops a kind st) (\<lambda>(d, way) (k, b).
       case bank_read_word k d way of
         None \<Rightarrow> None
       | Some w \<Rightarrow>
           map_option (\<lambda>k. (Inr w, (k, b)))
             (touch_line (da_set_index d) way
               (k\<lparr>cb_stats := (cb_stats k)\<lparr>read_hits := read_hits (cb_stats k) + 1\<rparr>\<rparr>)))"

subsection \<open>Stores\<close>

text \<open>\<open>StoreOp::apply\<close> on the words of the line at \<open>base\<close>.\<close>

definition apply_store :: "store_op \<Rightarrow> u64 \<Rightarrow> u32 list \<Rightarrow> u32 list option" where
  "apply_store s base ws =
     (let i = unat (so_addr s - base) div word_bytes; off = unat (so_addr s - base) mod word_bytes in
      case idx ws i of
        None \<Rightarrow> None
      | Some w \<Rightarrow>
          if off + so_width s \<le> word_bytes
          then Some (ws[i := from_le32_list (take off (le_bytes32 w) @
                 take (so_width s) (le_bytes32 (so_value s)) @ drop (off + so_width s) (le_bytes32 w))])
          else None)"

definition commit_store :: "('b, 'z) bus_ops_scheme \<Rightarrow> store_op \<Rightarrow> ('b, unit) bus_call" where
  "commit_store ops s b =
     (if so_width s = 1 then bus_store8 ops (so_addr s) (ucast (so_value s)) b
      else if so_width s = 2 then bus_store16 ops (so_addr s) (ucast (so_value s)) b
      else if so_width s = 4 then bus_store32 ops (so_addr s) (so_value s) b
      else None)"

definition update_cached_store ::
  "decoded_address \<Rightarrow> nat \<Rightarrow> store_op \<Rightarrow> bool \<Rightarrow> cache_bank \<Rightarrow> cache_bank option" where
  "update_cached_store d way s dirty k =
     Option.bind
       (update_line (da_set_index d) way
         (\<lambda>l. map_option (\<lambda>ws. l\<lparr>cl_words := ws, cl_valid := True, cl_tag := da_tag d, cl_dirty := dirty\<rparr>)
           (apply_store s (da_line_base d) (cl_words l))) k)
       (touch_line (da_set_index d) way)"

definition commit_inner :: "('b, 'z) bus_ops_scheme \<Rightarrow> store_op \<Rightarrow> ('b, unit) bank_call" where
  "commit_inner ops s st =
     (case st of (k, b) \<Rightarrow> map_option (\<lambda>(r, b). (r, (k, b))) (commit_store ops s b))"

definition note_bypassed_write :: "cache_bank \<Rightarrow> cache_bank" where
  "note_bypassed_write k = k\<lparr>cb_stats := (cb_stats k)\<lparr>bypassed_writes := bypassed_writes (cb_stats k) + 1\<rparr>\<rparr>"

definition note_bypassed_read :: "cache_bank \<Rightarrow> cache_bank" where
  "note_bypassed_read k = k\<lparr>cb_stats := (cb_stats k)\<lparr>bypassed_reads := bypassed_reads (cb_stats k) + 1\<rparr>\<rparr>"

definition note_write_access :: "cache_bank \<Rightarrow> cache_bank" where
  "note_write_access k = k\<lparr>cb_stats := (cb_stats k)\<lparr>write_accesses := write_accesses (cb_stats k) + 1\<rparr>\<rparr>"

text \<open>The store to a line that is in way \<open>way\<close>, by the write policy.\<close>

definition store_to_line ::
  "('b, 'z) bus_ops_scheme \<Rightarrow> decoded_address \<Rightarrow> nat \<Rightarrow> store_op \<Rightarrow> ('b, unit) bank_call" where
  "store_to_line ops d way s st =
     (case cc_write (cb_config (fst st)) of
        WriteThrough \<Rightarrow>
          and_then (commit_inner ops s st) (\<lambda>_ (k, b).
            map_option (\<lambda>k. (Inr (), (k, b))) (update_cached_store d way s False k))
      | WriteBack \<Rightarrow>
          (case st of (k, b) \<Rightarrow>
             map_option (\<lambda>k. (Inr (), (k, b))) (update_cached_store d way s True k)))"

definition bank_store :: "('b, 'z) burst_ops_scheme \<Rightarrow> store_op \<Rightarrow> ('b, unit) bank_call" where
  "bank_store ops s st =
     (case st of (k, b) \<Rightarrow>
      (let k = note_write_access k in
       if \<not> caches_address k (so_addr s) \<or> \<not> caches_line_containing k (so_addr s)
       then commit_inner ops s (note_bypassed_write k, b)
       else
         (let d = decode_address k (so_addr s) in
          and_then (join_pending ops d (k, b)) (\<lambda>_ (k, b).
            case lookup_way k d of
              None \<Rightarrow> None
            | Some (Some way) \<Rightarrow> store_to_line ops d way s (k, b)
            | Some None \<Rightarrow>
                (case cc_allocation (cb_config k) of
                   NoWriteAllocate \<Rightarrow> commit_inner ops s (note_bypassed_write k, b)
                 | WriteAllocate \<Rightarrow>
                     and_then (fill_line ops d RefillLoad False (k, b)) (\<lambda>way. store_to_line ops d way s))))))"

subsection \<open>Maintenance\<close>

record pending_bank_write_back =
  bw_line_bases :: "u64 list"
  bw_active_line_base :: "u64 option"
  bw_active_write_back :: "pending_write_back option"

definition pending_bank_write_back_new :: "u64 list \<Rightarrow> pending_bank_write_back" where
  "pending_bank_write_back_new bases =
     \<lparr>bw_line_bases = bases, bw_active_line_base = None, bw_active_write_back = None\<rparr>"

definition pending_write_back_for_line :: "u64 \<Rightarrow> cache_bank \<Rightarrow> pending_write_back option option" where
  "pending_write_back_for_line base k =
     (if \<not> caches_line k base then Some None
      else
        (let d = decode_address k base in
         case lookup_way k d of
           None \<Rightarrow> None
         | Some None \<Rightarrow> Some None
         | Some (Some way) \<Rightarrow>
             map_option (\<lambda>l. if cl_valid l \<and> cl_dirty l
                 then Some (pending_write_back_new base (cl_words l)) else None)
               (line_at k (da_set_index d) way)))"

definition complete_write_back_for_line :: "u64 \<Rightarrow> cache_bank \<Rightarrow> cache_bank option" where
  "complete_write_back_for_line base k =
     (if \<not> caches_line k base then Some k
      else
        (let d = decode_address k base in
         case lookup_way k d of
           None \<Rightarrow> None
         | Some None \<Rightarrow> Some k
         | Some (Some way) \<Rightarrow> update_line (da_set_index d) way (\<lambda>l. Some (l\<lparr>cl_dirty := False\<rparr>)) k))"

text \<open>
  \<open>continue_write_back_range\<close>, whose state also holds the pending range. The source's
  \<open>Ok(true)\<close> is \<open>Inr ()\<close>; it never returns \<open>Ok(false)\<close>.
\<close>

function write_back_loop ::
  "('b, 'z) burst_ops_scheme \<Rightarrow> pending_bank_write_back \<Rightarrow> cache_bank \<times> 'b \<Rightarrow>
   ((bus_error + unit) \<times> pending_bank_write_back \<times> (cache_bank \<times> 'b)) option" where
  "write_back_loop ops p (k, b) =
     (case bw_active_write_back p of
        Some w \<Rightarrow>
          (case progress_write_back ops w b of
             None \<Rightarrow> None
           | Some (Inl e, w, b) \<Rightarrow> Some (Inl e, p\<lparr>bw_active_write_back := Some w\<rparr>, (k, b))
           | Some (Inr (DriveBusy n), w, b) \<Rightarrow>
               Some (Inl (Busy n), p\<lparr>bw_active_write_back := Some w\<rparr>, (k, b))
           | Some (Inr (DriveReady n), w, b) \<Rightarrow>
               (let st = cb_stats k;
                    k = k\<lparr>cb_stats := st\<lparr>write_backs := write_backs st + 1,
                                         write_back_words := write_back_words st + of_nat n\<rparr>\<rparr>
                in case (case bw_active_line_base p of
                           None \<Rightarrow> Some k
                         | Some base \<Rightarrow> complete_write_back_for_line base k) of
                     None \<Rightarrow> None
                   | Some k \<Rightarrow>
                       write_back_loop ops
                         (p\<lparr>bw_active_line_base := None, bw_active_write_back := None\<rparr>) (k, b)))
      | None \<Rightarrow>
          (case bw_line_bases p of
             [] \<Rightarrow> Some (Inr (), p, (k, b))
           | base # bases \<Rightarrow>
               (case pending_write_back_for_line base k of
                  None \<Rightarrow> None
                | Some None \<Rightarrow> write_back_loop ops (p\<lparr>bw_line_bases := bases\<rparr>) (k, b)
                | Some (Some w) \<Rightarrow>
                    write_back_loop ops (p\<lparr>bw_line_bases := bases, bw_active_line_base := Some base,
                      bw_active_write_back := Some w\<rparr>) (k, b))))"
  by pat_completeness auto

termination
  by (relation "measure (\<lambda>(_, p, _). 2 * length (bw_line_bases p) +
      (if bw_active_write_back p = None then 0 else 1))") auto

declare write_back_loop.simps [simp del]

definition invalidate_line_base :: "u64 \<Rightarrow> cache_bank \<Rightarrow> cache_bank option" where
  "invalidate_line_base base k =
     (if \<not> caches_line k base then Some k
      else
        (let d = decode_address k base;
             k = (case cb_pending k of
                    Some p \<Rightarrow> if matches_line p d then k\<lparr>cb_pending := None\<rparr> else k
                  | None \<Rightarrow> k)
         in case lookup_way k d of
              None \<Rightarrow> None
            | Some None \<Rightarrow> Some k
            | Some (Some way) \<Rightarrow>
                map_option (\<lambda>k. k\<lparr>cb_stats := (cb_stats k)\<lparr>invalidations := invalidations (cb_stats k) + 1\<rparr>\<rparr>)
                  (update_line (da_set_index d) way
                    (\<lambda>l. Some (l\<lparr>cl_valid := False, cl_dirty := False\<rparr>)) k)))"

fun invalidate_bases :: "u64 list \<Rightarrow> cache_bank \<Rightarrow> cache_bank option" where
  "invalidate_bases [] k = Some k"
| "invalidate_bases (base # bases) k = Option.bind (invalidate_line_base base k) (invalidate_bases bases)"

definition bank_invalidate_range :: "u64 \<Rightarrow> u64 \<Rightarrow> cache_bank \<Rightarrow> cache_bank option" where
  "bank_invalidate_range start len k =
     Option.bind (line_bases_for_range k start len) (\<lambda>bases. invalidate_bases bases k)"

definition invalidate_line :: "u64 \<Rightarrow> cache_bank \<Rightarrow> cache_bank option" where
  "invalidate_line a k = invalidate_line_base (line_base k a) k"

end
