(* ===== verification/Cache_Lines.thy ===== *)
theory Cache_Lines
  imports Cache_Bank
begin

text \<open>
  The arithmetic of a bank: which configurations can be built, how addresses split into tag, set
  and word, which lines a range covers, which line is replaced, and what a store does to the
  words of a line.
\<close>

subsection \<open>Configurations that can be built\<close>

definition line_bits_of :: "cache_config \<Rightarrow> nat \<Rightarrow> bool" where
  "line_bits_of c n \<longleftrightarrow> line_size c = 2 ^ n \<and> 2 \<le> n \<and> n < 64"

definition config_ok :: "cache_config \<Rightarrow> bool" where
  "config_ok c \<longleftrightarrow>
     0 < line_count c \<and> line_count c < 2 ^ 64 \<and> 0 < associativity c \<and>
     line_count c mod associativity c = 0 \<and> (\<exists>n. line_bits_of c n) \<and> valid_ranges c"

lemma power_of_two: "is_power_of_two n \<Longrightarrow> \<exists>k. n = 2 ^ k"
proof (induction n rule: is_power_of_two.induct)
  case (1 n)
  show ?case
  proof (cases "n \<le> 1")
    case True
    then have "n = 2 ^ 0" using 1(2) by (simp add: is_power_of_two.simps [of n])
    then show ?thesis by blast
  next
    case False
    then have "even n" "is_power_of_two (n div 2)"
      using 1(2) by (simp_all add: is_power_of_two.simps [of n])
    then obtain k where "even n" "n div 2 = 2 ^ k" using 1(1) False by blast
    then have "n = 2 ^ Suc k" by (metis dvd_mult_div_cancel power_Suc)
    then show ?thesis by blast
  qed
qed

text \<open>The values of the builder methods, on machine-sized arguments.\<close>

inductive built :: "cache_config \<Rightarrow> bool" where
  built_new: "cache_config_new n ranges = Some c \<Longrightarrow> n < 2 ^ 64 \<Longrightarrow> built c"
| built_line_size: "built c \<Longrightarrow> with_line_size n c = Some c' \<Longrightarrow> n < 2 ^ 64 \<Longrightarrow> built c'"
| built_associativity: "built c \<Longrightarrow> with_associativity n c = Some c' \<Longrightarrow> built c'"
| built_replacement: "built c \<Longrightarrow> built (with_replacement_policy p c)"
| built_write: "built c \<Longrightarrow> built (with_write_policy w c)"
| built_allocation: "built c \<Longrightarrow> built (with_store_allocation_policy s c)"

lemma built_config_ok: "built c \<Longrightarrow> config_ok c"
proof (induction rule: built.induct)
  case (built_new n ranges c)
  moreover have "line_bits_of (c :: cache_config) 2" if "line_size c = 4"
    using that by (simp add: line_bits_of_def)
  ultimately show ?case
    by (auto simp: cache_config_new_def validated_def config_ok_def word_bytes_def split: if_splits)
next
  case (built_line_size c n c')
  then have n: "4 \<le> n" "is_power_of_two n" "valid_ranges c'" "c' = c\<lparr>line_size := n\<rparr>"
    by (auto simp: with_line_size_def validated_def word_bytes_def split: if_splits)
  obtain k where k: "n = 2 ^ k" using power_of_two [OF n(2)] by blast
  have "2 \<le> k"
  proof (rule ccontr)
    assume "\<not> 2 \<le> k"
    then have "k = 0 \<or> k = 1" by linarith
    then show False using n(1) k by auto
  qed
  moreover have "k < 64" using built_line_size(3) k power_less_imp_less_exp [of "2 :: nat" k 64] by simp
  ultimately have "line_bits_of c' k" using k n(4) by (simp add: line_bits_of_def)
  then show ?case using built_line_size.IH n(3,4) by (auto simp: config_ok_def)
next
  case (built_associativity c n c')
  then show ?case
    by (auto simp: with_associativity_def config_ok_def line_bits_of_def valid_ranges_def split: if_splits)
qed (simp_all add: config_ok_def line_bits_of_def valid_ranges_def with_replacement_policy_def
    with_write_policy_def with_store_allocation_policy_def)

lemma set_count_pos: "config_ok c \<Longrightarrow> 0 < set_count c"
  by (auto simp: config_ok_def set_count_def dvd_div_eq_0_iff mod_eq_0_iff_dvd)

lemma set_count_bound: "config_ok c \<Longrightarrow> set_count c < 2 ^ 64"
  unfolding config_ok_def set_count_def using div_le_dividend le_less_trans by blast

subsection \<open>Lines and addresses\<close>

text \<open>A bank with lines of \<open>2 ^ n\<close> bytes.\<close>

definition geometry :: "cache_bank \<Rightarrow> nat \<Rightarrow> bool" where
  "geometry k n \<longleftrightarrow> config_ok (cb_config k) \<and> line_bits_of (cb_config k) n"

abbreviation sets_of :: "cache_bank \<Rightarrow> nat" where
  "sets_of k \<equiv> set_count (cb_config k)"

lemma geometry_size: "geometry k n \<Longrightarrow> (of_nat (line_size (cb_config k)) :: u64) = 2 ^ n"
  by (simp add: geometry_def line_bits_of_def)

lemma geometry_bounds: "geometry k n \<Longrightarrow> 2 \<le> n \<and> n < 64 \<and> 0 < sets_of k \<and> sets_of k < 2 ^ 64"
  using set_count_bound [of "cb_config k"] by (simp add: geometry_def line_bits_of_def set_count_pos)

lemma unat_two_power: "n < 64 \<Longrightarrow> unat (2 ^ n :: u64) = 2 ^ n"
proof -
  assume "n < 64"
  then have "(2 :: nat) ^ n < 2 ^ 64" by (rule power_strict_increasing) simp
  moreover have "unat (of_nat x :: u64) = x" if "x < 2 ^ 64" for x
    using that by (simp add: unat_of_nat)
  ultimately have "unat (of_nat (2 ^ n) :: u64) = 2 ^ n" by blast
  then show ?thesis by simp
qed

lemma unat_drop: "n < 64 \<Longrightarrow> unat (drop_bit n a) = unat a div 2 ^ n" for a :: u64
  by (simp add: unsigned_drop_bit_eq drop_bit_eq_div unat_div_distrib unat_two_power)

lemma base_eq:
  assumes "geometry k n"
  shows "line_base k a = push_bit n (drop_bit n a)"
proof -
  have "line_base k a = a AND NOT (mask n)"
    by (simp only: line_base_def geometry_size [OF assms] mask_eq_exp_minus_1)
  also have "\<dots> = push_bit n (drop_bit n a)"
  proof (rule bit_word_eqI)
    fix m assume m: "m < LENGTH(64)"
    show "bit (a AND NOT (mask n)) m = bit (push_bit n (drop_bit n a)) m"
    proof (cases "n \<le> m")
      case True
      then show ?thesis
        using m by (simp add: bit_and_iff bit_not_iff bit_mask_iff bit_push_bit_iff bit_drop_bit_eq)
    next
      case False
      then show ?thesis
        using m by (simp add: bit_and_iff bit_not_iff bit_mask_iff bit_push_bit_iff)
    qed
  qed
  finally show ?thesis .
qed

lemma line_number: "drop_bit n (push_bit n (drop_bit n a)) = drop_bit n a" for a :: u64
  by (rule bit_word_eqI) (auto simp: bit_simps dest: bit_imp_le_length)

lemma unat_base:
  assumes "geometry k n"
  shows "unat (line_base k a) = unat a div 2 ^ n * 2 ^ n"
proof -
  have n: "n < 64" using geometry_bounds [OF assms] by simp
  have "unat a < 2 ^ 64" using unsigned_less [of a, where ?'a = nat] by simp
  then have "unat a div 2 ^ n * 2 ^ n < 2 ^ 64" by (rule le_less_trans [OF div_times_less_eq_dividend])
  then show ?thesis
    using n unat_drop [OF n] by (simp add: base_eq [OF assms] push_bit_eq_mult unat_word_ariths unat_two_power)
qed

lemma unat_offset:
  assumes "geometry k n"
  shows "unat (a - line_base k a) = unat a mod 2 ^ n"
proof -
  have le: "line_base k a \<le> a" using unat_base [OF assms, of a] by (simp add: word_le_nat_alt)
  have "unat (a - line_base k a) = unat a - unat (line_base k a)" using le by (rule unat_sub)
  then show ?thesis using unat_base [OF assms, of a] by (simp add: minus_div_mult_eq_mod)
qed

lemma geometry_words:
  assumes "geometry k n"
  shows "line_words k = 2 ^ (n - 2)" "4 * line_words k = 2 ^ n"
proof -
  obtain m where m: "n = m + 2"
    using geometry_bounds [OF assms] by (metis le_add_diff_inverse2)
  then show "line_words k = 2 ^ (n - 2)" "4 * line_words k = 2 ^ n"
    using assms by (simp_all add: geometry_def line_bits_of_def word_bytes_def line_words_def)
qed

lemma decode_address_fields:
  assumes "geometry k n"
  shows "da_line_base (decode_address k a) = line_base k a"
    "da_set_index (decode_address k a) = unat (drop_bit n a) mod sets_of k"
    "da_tag (decode_address k a) = drop_bit n a div of_nat (sets_of k)"
    "da_word_index (decode_address k a) = unat a mod 2 ^ n div 4"
proof -
  have "line_base k a div 2 ^ n = drop_bit n a"
    using line_number [of n a] by (simp add: base_eq [OF assms] drop_bit_eq_div)
  then show "da_line_base (decode_address k a) = line_base k a"
    "da_set_index (decode_address k a) = unat (drop_bit n a) mod sets_of k"
    "da_tag (decode_address k a) = drop_bit n a div of_nat (sets_of k)"
    "da_word_index (decode_address k a) = unat a mod 2 ^ n div 4"
    using geometry_size [OF assms] unat_offset [OF assms, of a]
    by (simp_all add: decode_address_def Let_def word_bytes_def)
qed

lemma set_index_less: "geometry k n \<Longrightarrow> da_set_index (decode_address k a) < sets_of k"
  using geometry_bounds by (simp add: decode_address_fields)

lemma word_index_less: "geometry k n \<Longrightarrow> da_word_index (decode_address k a) < line_words k"
  using geometry_words(2) [of k n] by (simp add: decode_address_fields less_mult_imp_div_less mult.commute)

text \<open>Tag and set index of an address give its line back.\<close>

lemma base_of_tag:
  assumes "geometry k n"
  shows "line_base_for_tag k (da_set_index (decode_address k a)) (da_tag (decode_address k a)) = line_base k a"
proof -
  let ?s = "of_nat (sets_of k) :: u64" and ?l = "drop_bit n a"
  have s: "unat ?s = sets_of k" using geometry_bounds [OF assms] by (simp add: unat_of_nat)
  have "unat (?l mod ?s) = unat ?l mod sets_of k" using s by (simp add: unat_mod_distrib)
  then have "(of_nat (unat ?l mod sets_of k) :: u64) = ?l mod ?s" by (metis of_nat_unat ucast_id)
  then have "line_base_for_tag k (da_set_index (decode_address k a)) (da_tag (decode_address k a)) =
      (?l div ?s * ?s + ?l mod ?s) * 2 ^ n"
    using geometry_size [OF assms] by (simp add: line_base_for_tag_def decode_address_fields [OF assms])
  then show ?thesis by (simp add: base_eq [OF assms] push_bit_eq_mult div_mult_mod_eq)
qed

text \<open>Two addresses have the same set index and tag exactly if they are in the same line.\<close>

lemma base_idem: "geometry k n \<Longrightarrow> line_base k (line_base k a) = line_base k a"
  by (simp add: base_eq line_number)

lemma decode_line_base:
  assumes "geometry k n"
  shows "da_set_index (decode_address k (line_base k a)) = da_set_index (decode_address k a)"
    "da_tag (decode_address k (line_base k a)) = da_tag (decode_address k a)"
    "da_line_base (decode_address k (line_base k a)) = da_line_base (decode_address k a)"
  by (simp_all add: decode_address_fields [OF assms] base_eq [OF assms] line_number)

lemma same_line:
  assumes "geometry k n"
  shows "da_set_index (decode_address k a) = da_set_index (decode_address k b) \<and>
      da_tag (decode_address k a) = da_tag (decode_address k b) \<longleftrightarrow> line_base k a = line_base k b"
  using base_of_tag [OF assms] decode_line_base(1,2) [OF assms] by metis

text \<open>
  The address arithmetic of a cache is a bijection: for every configuration that the builder
  accepts, tag and set index of an address give back the base of its line, the line holds the
  address at the decoded word, and two addresses share tag and set index exactly if they are in
  the same line. So lines never alias, and the victim of an eviction is written back to where it
  came from.
\<close>

theorem decode_address_bijective:
  assumes "built (cb_config k)"
  shows "line_base_for_tag k (da_set_index (decode_address k a)) (da_tag (decode_address k a)) = line_base k a \<and>
    unat a = unat (line_base k a) + 4 * da_word_index (decode_address k a) + unat a mod 4 \<and>
    da_word_index (decode_address k a) < line_words k \<and>
    da_set_index (decode_address k a) < set_count (cb_config k) \<and>
    ((da_set_index (decode_address k a) = da_set_index (decode_address k b) \<and>
      da_tag (decode_address k a) = da_tag (decode_address k b)) = (line_base k a = line_base k b))"
proof -
  obtain n where g: "geometry k n"
    using built_config_ok [OF assms] by (auto simp: geometry_def config_ok_def)
  obtain m where m: "n = m + 2" using geometry_bounds [OF g] by (metis le_add_diff_inverse2)
  have "unat a mod 2 ^ n mod 4 = unat a mod 4"
    using m by (simp add: mod_mod_cancel)
  then have "unat a mod 2 ^ n = 4 * (unat a mod 2 ^ n div 4) + unat a mod 4"
    by (metis mult_div_mod_eq)
  then have "unat a = unat (line_base k a) + 4 * da_word_index (decode_address k a) + unat a mod 4"
    using unat_base [OF g, of a] div_mult_mod_eq [of "unat a" "2 ^ n"] by (simp add: decode_address_fields [OF g])
  then show ?thesis
    using base_of_tag [OF g] same_line [OF g] word_index_less [OF g] set_index_less [OF g] by blast
qed

definition sample_config :: cache_config where
  "sample_config = the (Option.bind (Option.bind (cache_config_new 8 [\<lparr>range_start = 0, range_size = 256\<rparr>])
     (with_line_size 16)) (with_associativity 2))"

lemma sample_config_eq:
  "sample_config = \<lparr>line_count = 8, line_size = 16, associativity = 2, cc_replacement = RoundRobin,
     cc_write = WriteThrough, cc_allocation = NoWriteAllocate,
     cached_ranges = [\<lparr>range_start = 0, range_size = 256\<rparr>]\<rparr>"
  by (simp add: sample_config_def cache_config_new_def with_line_size_def with_associativity_def
      validated_def valid_ranges_def word_bytes_def is_power_of_two.simps)

lemma built_sample: "built sample_config"
proof -
  let ?c = "\<lparr>line_count = 8, line_size = 4, associativity = 1, cc_replacement = RoundRobin,
     cc_write = WriteThrough, cc_allocation = NoWriteAllocate,
     cached_ranges = [\<lparr>range_start = 0, range_size = 256\<rparr>]\<rparr>"
  have "built ?c"
    by (rule built_new [of 8 "[\<lparr>range_start = 0, range_size = 256\<rparr>]"])
      (simp_all add: cache_config_new_def validated_def valid_ranges_def word_bytes_def)
  then have "built (?c\<lparr>line_size := 16\<rparr>)"
    by (rule built_line_size [of _ 16])
      (simp_all add: with_line_size_def validated_def valid_ranges_def word_bytes_def is_power_of_two.simps)
  then have "built (?c\<lparr>line_size := 16, associativity := 2\<rparr>)"
    by (rule built_associativity [of _ 2]) (simp add: with_associativity_def)
  then show ?thesis by (simp add: sample_config_eq)
qed

lemma decode_address_bijective_witness:
  "line_base_for_tag (cache_bank_new sample_config) (da_set_index (decode_address (cache_bank_new sample_config) 0x57))
     (da_tag (decode_address (cache_bank_new sample_config) 0x57)) = line_base (cache_bank_new sample_config) 0x57"
  using decode_address_bijective [of "cache_bank_new sample_config" "0x57"] built_sample
  by (simp add: cache_bank_new_def)

subsection \<open>The lines of a range\<close>

lemma dvd_gap: "L dvd x - b \<Longrightarrow> b < x \<Longrightarrow> b + L \<le> x" for L x b :: nat
  using dvd_imp_le [of L "x - b"] by simp

text \<open>From \<open>b\<close>, the loop lists the addresses \<open>b + i * L\<close> up to the first one that reaches \<open>e\<close>.\<close>

lemma line_bases_loop_spec:
  assumes "n < 64"
  shows "\<exists>ls. line_bases_loop (2 ^ n) e b = Some ls \<and> sorted_wrt (<) ls \<and>
    (\<forall>x. x \<in> set ls \<longleftrightarrow> unat b \<le> unat x \<and> 2 ^ n dvd unat x - unat b \<and>
       (x = b \<or> unat x < unat e + 2 ^ n))"
proof (induction "2 ^ 64 - unat b" arbitrary: b rule: less_induct)
  case less
  let ?L = "2 ^ n :: nat"
  have L: "unat (2 ^ n :: u64) = ?L" using unat_two_power [OF assms] .
  have only: "unat b \<le> unat x \<and> ?L dvd unat x - unat b \<and> (x = b \<or> unat x < unat e + ?L) \<longleftrightarrow> x = b"
    if "unat x < unat b + ?L \<or> unat e \<le> unat b" for x
    using that dvd_gap [of ?L "unat x" "unat b"] by (cases "unat b < unat x") (auto simp: word_unat_eq_iff)
  show ?case
  proof (cases "e \<le> b")
    case True
    then show ?thesis using only by (auto simp: line_bases_loop.simps word_le_nat_alt)
  next
    case False
    then have e: "unat b < unat e" by (simp add: word_le_nat_alt)
    show ?thesis
    proof (cases "unat b + ?L < 2 ^ 64")
      case True
      let ?b = "b + 2 ^ n"
      have b': "unat ?b = unat b + ?L" using True L by (simp add: unat_word_ariths)
      have "2 ^ 64 - unat ?b < 2 ^ 64 - unat b" using b' True by (simp add: diff_less_mono2)
      from less [OF this] obtain ls where ls: "line_bases_loop (2 ^ n) e ?b = Some ls" "sorted_wrt (<) ls"
          "\<And>x. x \<in> set ls \<longleftrightarrow> unat ?b \<le> unat x \<and> ?L dvd unat x - unat ?b \<and>
             (x = ?b \<or> unat x < unat e + ?L)"
        by blast
      have later: "x \<in> set ls \<longleftrightarrow> unat b < unat x \<and> ?L dvd unat x - unat b \<and> unat x < unat e + ?L" for x
      proof
        assume "x \<in> set ls"
        then have x: "unat b + ?L \<le> unat x" "?L dvd unat x - (unat b + ?L)" "x = ?b \<or> unat x < unat e + ?L"
          using ls(3) b' by simp_all
        have "unat x - unat b = (unat x - (unat b + ?L)) + ?L" using x(1) by simp
        then have "?L dvd unat x - unat b" using x(2) by simp
        moreover have "unat b < unat x" using x(1) zero_less_power [of "2 :: nat" n] by linarith
        ultimately show "unat b < unat x \<and> ?L dvd unat x - unat b \<and> unat x < unat e + ?L"
          using x(3) b' e by auto
      next
        assume x: "unat b < unat x \<and> ?L dvd unat x - unat b \<and> unat x < unat e + ?L"
        then have "unat b + ?L \<le> unat x" using dvd_gap by blast
        moreover have "?L dvd (unat x - unat b) - ?L" using x dvd_diff_nat [of ?L "unat x - unat b" ?L] by simp
        ultimately show "x \<in> set ls" using x ls(3) b' by simp
      qed
      then have "sorted_wrt (<) (b # ls)" using ls(2) by (simp add: word_less_nat_alt)
      moreover have "x \<in> set (b # ls) \<longleftrightarrow> unat b \<le> unat x \<and> ?L dvd unat x - unat b \<and>
          (x = b \<or> unat x < unat e + ?L)" for x
        using later [of x] by (auto simp: word_unat_eq_iff)
      ultimately show ?thesis
        using False True ls(1) L by (simp add: line_bases_loop.simps [of _ e b] checked_add_def)
    next
      case overflow: False
      have "unat x < unat b + ?L" for x :: u64
        using unsigned_less [of x, where ?'a = nat] overflow by simp
      then show ?thesis
        using only \<open>\<not> e \<le> b\<close> overflow L by (simp add: line_bases_loop.simps [of _ e b] checked_add_def)
    qed
  qed
qed

text \<open>
  C35. The lines of a range. For a range \<open>start, \<dots>, start + len - 1\<close> inside the address space the
  loop ends and returns, in ascending order, exactly the line bases from that of \<open>start\<close> on that are
  less than a line's size behind the range's last byte. So each address of the range is in one of the
  lines, and the one line beyond the range, behind that of the last byte, is returned too, unless the
  last byte is the first byte of its line (or that line is the last of the address space).
\<close>

theorem line_bases_for_range_exact:
  assumes "built (cb_config k)" "len \<noteq> 0" "unat start + unat len \<le> 2 ^ 64"
  shows "\<exists>ls. line_bases_for_range k start len = Some ls \<and> sorted_wrt (<) ls \<and>
    (\<forall>x. x \<in> set ls \<longleftrightarrow> line_base k x = x \<and> line_base k start \<le> x \<and>
       unat x < unat start + (unat len - 1) + line_size (cb_config k)) \<and>
    (\<forall>a. start \<le> a \<and> a \<le> start + (len - 1) \<longrightarrow> line_base k a \<in> set ls) \<and>
    (\<forall>a. unat a = unat (line_base k (start + (len - 1))) + line_size (cb_config k) \<longrightarrow>
       (a \<in> set ls \<longleftrightarrow> line_base k (start + (len - 1)) \<noteq> start + (len - 1)))"
proof -
  obtain n where g: "geometry k n"
    using built_config_ok [OF assms(1)] by (auto simp: geometry_def config_ok_def)
  have n: "n < 64" using geometry_bounds [OF g] by simp
  let ?e = "start + (len - 1)" and ?b = "line_base k start" and ?L = "2 ^ n :: nat"
  have size: "line_size (cb_config k) = ?L" using g by (simp add: geometry_def line_bits_of_def)
  have l1: "unat (len - 1) = unat len - 1" using assms(2) by (simp add: unat_minus_one)
  have lp: "0 < unat len" using assms(2) by (simp add: unat_gt_0)
  have in64: "unat start + unat (len - 1) < 2 ^ 64" using assms(3) l1 lp by simp
  then have e: "unat ?e = unat start + (unat len - 1)" using l1 by (simp add: unat_word_ariths)
  have base: "unat (line_base k a) \<le> unat a" "?L dvd unat (line_base k a)" for a
    by (simp_all add: unat_base [OF g])
  have based: "line_base k x = x \<longleftrightarrow> ?L dvd unat x" for x
    by (metis dvd_div_mult_self dvd_triv_right word_unat_eq_iff unat_base [OF g])
  have mono: "unat ?b \<le> unat (line_base k a)" if "unat start \<le> unat a" for a
    using div_le_mono [OF that] by (simp add: unat_base [OF g])
  obtain ls where ls: "line_bases_loop (2 ^ n) ?e ?b = Some ls" "sorted_wrt (<) ls"
      "\<And>x. x \<in> set ls \<longleftrightarrow> unat ?b \<le> unat x \<and> ?L dvd unat x - unat ?b \<and> (x = ?b \<or> unat x < unat ?e + ?L)"
    using line_bases_loop_spec [OF n] by blast
  have range: "line_bases_for_range k start len = Some ls"
    using assms(2) in64 ls(1) geometry_size [OF g] by (simp add: line_bases_for_range_def checked_add_def)
  have exact: "x \<in> set ls \<longleftrightarrow> line_base k x = x \<and> ?b \<le> x \<and> unat x < unat ?e + ?L" for x
  proof -
    have "unat ?b < unat ?e + ?L" using base(1) [of start] e by (simp add: trans_le_add1 le_less_trans)
    moreover have "unat ?b \<le> unat x \<Longrightarrow> ?L dvd unat x - unat ?b \<longleftrightarrow> ?L dvd unat x"
      using base(2) [of start] by (metis dvd_diffD dvd_diff_nat)
    ultimately show ?thesis using ls(3) [of x] based by (auto simp: word_le_nat_alt)
  qed
  have inside: "line_base k a \<in> set ls" if a: "start \<le> a" "a \<le> ?e" for a
  proof -
    have "unat (line_base k a) < unat ?e + ?L"
      using base(1) [of a] a(2) by (simp add: word_le_nat_alt trans_le_add1 le_less_trans)
    then show ?thesis using mono [of a] a(1) base_idem [OF g] by (simp add: exact word_le_nat_alt)
  qed
  have beyond: "a \<in> set ls \<longleftrightarrow> line_base k ?e \<noteq> ?e" if a: "unat a = unat (line_base k ?e) + ?L" for a
  proof -
    have "line_base k a = a" using a base(2) [of ?e] by (simp add: based)
    moreover have "unat ?b \<le> unat a" using mono [of ?e] e a by simp
    moreover have "unat a < unat ?e + ?L \<longleftrightarrow> line_base k ?e \<noteq> ?e"
      using a base(1) [of ?e] by (auto simp: word_unat_eq_iff)
    ultimately show ?thesis by (simp add: exact word_le_nat_alt)
  qed
  show ?thesis using range ls(2) exact inside beyond unfolding e size by blast
qed

text \<open>The range of the one line \<open>32, \<dots>, 47\<close> gives that line and the next one, and no other.\<close>

lemma line_bases_for_range_exact_witness:
  "\<exists>ls. line_bases_for_range (cache_bank_new sample_config) 32 16 = Some ls \<and>
     32 \<in> set ls \<and> 48 \<in> set ls \<and> 16 \<notin> set ls \<and> 64 \<notin> set ls"
proof -
  let ?k = "cache_bank_new sample_config"
  have b: "built (cb_config ?k)" using built_sample by (simp add: cache_bank_new_def)
  have base: "line_base ?k 32 = 32" "line_base ?k 48 = 48"
    by (simp_all add: line_base_def cache_bank_new_def sample_config_eq)
  obtain ls where ls: "line_bases_for_range ?k 32 16 = Some ls"
      "\<forall>x. x \<in> set ls \<longleftrightarrow> line_base ?k x = x \<and> line_base ?k 32 \<le> x \<and>
         unat x < unat (32 :: u64) + (unat (16 :: u64) - 1) + line_size (cb_config ?k)"
    using line_bases_for_range_exact [OF b, of 16 32] by auto
  have "line_size (cb_config ?k) = 16" by (simp add: cache_bank_new_def sample_config_eq)
  then show ?thesis using ls base by simp
qed

subsection \<open>Replacement\<close>

lemma select_victim_cases:
  assumes "i < length (cb_sets k)" "s = cb_sets k ! i" "0 < length (cs_lines s)"
    "next_victim s < length (cs_lines s)"
  shows "\<exists>v p. select_victim i k = Some (v, k\<lparr>cb_sets := (cb_sets k)[i := s\<lparr>next_victim := p\<rparr>]\<rparr>) \<and>
    v < length (cs_lines s) \<and> p < length (cs_lines s) \<and>
    (if \<exists>l \<in> set (cs_lines s). \<not> cl_valid l
     then \<not> cl_valid (cs_lines s ! v) \<and> (\<forall>j < v. cl_valid (cs_lines s ! j))
     else if cc_replacement (cb_config k) = RoundRobin
     then v = next_victim s \<and> p = (v + 1) mod length (cs_lines s)
     else p = next_victim s \<and> (\<forall>l \<in> set (cs_lines s). cl_last_used (cs_lines s ! v) \<le> cl_last_used l))"
proof -
  let ?ls = "cs_lines s" and ?rr = "cc_replacement (cb_config k) = RoundRobin"
  have same: "k\<lparr>cb_sets := (cb_sets k)[i := s\<lparr>next_victim := next_victim s\<rparr>]\<rparr> = k"
    using assms(1,2) by simp
  show ?thesis
  proof (cases "position (\<lambda>l. \<not> cl_valid l) ?ls")
    case (Some j)
    then have j: "j < length ?ls" "\<not> cl_valid (?ls ! j)" "\<forall>m < j. cl_valid (?ls ! m)"
      using position_Some [OF Some] by auto
    then have ex: "\<exists>l \<in> set ?ls. \<not> cl_valid l" using nth_mem by blast
    let ?p = "if ?rr then (j + 1) mod length ?ls else next_victim s"
    have "select_victim i k = Some (j, k\<lparr>cb_sets := (cb_sets k)[i := s\<lparr>next_victim := ?p\<rparr>]\<rparr>)"
      using assms(1,2) Some same by (simp add: select_victim_def Let_def)
    moreover have "?p < length ?ls" using assms(3,4) by simp
    ultimately show ?thesis using ex j by (intro exI [of _ j] exI [of _ ?p]) simp
  next
    case None
    then have ex: "\<not> (\<exists>l \<in> set ?ls. \<not> cl_valid l)" by (simp add: position_None)
    show ?thesis
    proof (cases ?rr)
      case True
      let ?p = "(next_victim s + 1) mod length ?ls"
      have "select_victim i k = Some (next_victim s, k\<lparr>cb_sets := (cb_sets k)[i := s\<lparr>next_victim := ?p\<rparr>]\<rparr>)"
        using assms(1,2,3) None True by (simp add: select_victim_def Let_def)
      moreover have "?p < length ?ls" using assms(3) by simp
      ultimately show ?thesis
        using ex True assms(4) by (intro exI [of _ "next_victim s"] exI [of _ ?p]) simp
    next
      case False
      let ?P = "\<lambda>l. \<forall>l' \<in> set ?ls. cl_last_used l \<le> cl_last_used l'"
      have "finite (cl_last_used ` set ?ls)" "cl_last_used ` set ?ls \<noteq> {}" using assms(3) by auto
      then obtain l where "l \<in> set ?ls" "cl_last_used l = Min (cl_last_used ` set ?ls)"
        using Min_in by (metis imageE)
      then have "?P l" by simp
      then have "position ?P ?ls \<noteq> None" using \<open>l \<in> set ?ls\<close> by (auto simp: position_None)
      then obtain v where v: "position ?P ?ls = Some v" by blast
      then have "v < length ?ls" "?P (?ls ! v)" using position_Some [OF v] by auto
      moreover have "select_victim i k = Some (v, k\<lparr>cb_sets := (cb_sets k)[i := s\<lparr>next_victim := next_victim s\<rparr>]\<rparr>)"
        using assms(1,2) None False same v by (simp add: select_victim_def Let_def least_recently_used_def)
      ultimately show ?thesis
        using ex False assms(4) by (intro exI [of _ v] exI [of _ "next_victim s"]) simp
    qed
  qed
qed

text \<open>
  C36. The replaced line. In a set of \<open>w > 0\<close> ways with its round robin pointer inside, the victim
  is a way of the set; it is the first line that is not valid if there is one; otherwise it is the
  way of the pointer, which then advances by one modulo \<open>w\<close>, or a line that was used no later than
  any other. Nothing but the pointer changes.
\<close>

theorem select_victim_spec:
  assumes "i < length (cb_sets k)" "s = cb_sets k ! i" "0 < length (cs_lines s)"
    "next_victim s < length (cs_lines s)"
  shows "\<exists>v p. select_victim i k = Some (v, k\<lparr>cb_sets := (cb_sets k)[i := s\<lparr>next_victim := p\<rparr>]\<rparr>) \<and>
    v < length (cs_lines s) \<and> p < length (cs_lines s) \<and>
    (if \<exists>l \<in> set (cs_lines s). \<not> cl_valid l
     then \<not> cl_valid (cs_lines s ! v) \<and> (\<forall>j < v. cl_valid (cs_lines s ! j))
     else if cc_replacement (cb_config k) = RoundRobin
     then v = next_victim s \<and> p = (v + 1) mod length (cs_lines s)
     else p = next_victim s \<and> (\<forall>l \<in> set (cs_lines s). cl_last_used (cs_lines s ! v) \<le> cl_last_used l))"
  by (rule select_victim_cases [OF assms])

lemma select_victim_spec_witness:
  "\<exists>v p. select_victim 1 (cache_bank_new sample_config) = Some (v, (cache_bank_new sample_config)
     \<lparr>cb_sets := (cb_sets (cache_bank_new sample_config))[1 := (cache_set_new 2 4)\<lparr>next_victim := p\<rparr>]\<rparr>)"
  using select_victim_spec [of 1 "cache_bank_new sample_config" "cache_set_new 2 4"]
  by (auto simp: cache_bank_new_def sample_config_eq set_count_def cache_set_new_def word_bytes_def)

subsection \<open>Stores to the words of a line\<close>

lemma splice_word:
  fixes B :: "'a list"
  assumes "r + w \<le> 4" "off = 4 * i + r" "4 * i + 4 \<le> length B" "length v = w"
  shows "take (4 * i) B @ (take r (take 4 (drop (4 * i) B)) @ v @ drop (r + w) (take 4 (drop (4 * i) B))) @
      drop (4 * i + 4) B = take off B @ v @ drop (off + w) B"
proof -
  have "take (4 * i) B @ take r (take 4 (drop (4 * i) B)) = take off B"
    using assms by (simp add: min_def take_add)
  moreover have "drop (r + w) (take 4 (drop (4 * i) B)) @ drop (4 * i + 4) B = drop (off + w) B"
  proof -
    let ?C = "drop (4 * i) B"
    have "drop (4 * i + 4) B = drop (4 - (r + w)) (drop (r + w) ?C)"
      using assms(1) by (simp add: add_ac)
    then have "drop (r + w) (take 4 ?C) @ drop (4 * i + 4) B = drop (r + w) ?C"
      by (simp only: drop_take append_take_drop_id)
    then show ?thesis using assms(2) by (simp add: add_ac)
  qed
  ultimately show ?thesis by (metis append.assoc)
qed

lemma apply_store_bytes:
  assumes "unat (so_addr s - base) div 4 < length ws" "unat (so_addr s - base) mod 4 + so_width s \<le> 4"
  shows "\<exists>ws'. apply_store s base ws = Some ws' \<and> length ws' = length ws \<and>
    bytes_of ws' = take (unat (so_addr s - base)) (bytes_of ws) @ take (so_width s) (le_bytes32 (so_value s)) @
      drop (unat (so_addr s - base) + so_width s) (bytes_of ws)"
proof -
  let ?off = "unat (so_addr s - base)" and ?B = "bytes_of ws"
  let ?i = "?off div 4" and ?r = "?off mod 4" and ?w = "so_width s"
  let ?v = "take ?w (le_bytes32 (so_value s))"
  let ?old = "le_bytes32 (ws ! ?i)"
  let ?new = "take ?r ?old @ ?v @ drop (?r + ?w) ?old"
  have len: "length ?new = 4" using assms(2) by (auto simp: min_def)
  have inside: "4 * ?i + 4 \<le> length ?B" using assms(1) by simp
  have "length (bytes_of (take ?i ws)) = 4 * ?i" using assms(1) by simp
  then have old: "take 4 (drop (4 * ?i) ?B) = ?old"
    by (subst bytes_of_split [OF assms(1)]) simp
  have "bytes_of (ws[?i := from_le32_list ?new]) = take (4 * ?i) ?B @ ?new @ drop (4 * ?i + 4) ?B"
    using bytes_of_update [OF assms(1)] len by simp
  also have "\<dots> = take ?off ?B @ ?v @ drop (?off + ?w) ?B"
    using splice_word [of ?r ?w ?off ?i ?B ?v] assms(2) inside old by simp
  finally show ?thesis
    using assms by (simp add: apply_store_def Let_def word_bytes_def)
qed

definition store_aligned :: "store_op \<Rightarrow> bool" where
  "store_aligned s \<longleftrightarrow> so_width s \<in> {1, 2, 4} \<and> unat (so_addr s) mod so_width s = 0"

text \<open>An aligned store stays inside one word of the line of its address.\<close>

lemma store_fits:
  assumes "geometry k n" "store_aligned s"
  shows "unat (so_addr s - line_base k (so_addr s)) div 4 < line_words k"
    "unat (so_addr s - line_base k (so_addr s)) mod 4 + so_width s \<le> 4"
proof -
  obtain m where m: "n = m + 2" using geometry_bounds [OF assms(1)] by (metis le_add_diff_inverse2)
  let ?a = "so_addr s" and ?w = "so_width s"
  have off: "unat (?a - line_base k ?a) = unat ?a mod 2 ^ n" using unat_offset [OF assms(1)] .
  then show "unat (?a - line_base k ?a) div 4 < line_words k"
    using word_index_less [OF assms(1), of ?a] by (simp add: decode_address_fields [OF assms(1)])
  have "unat ?a mod 2 ^ n mod 4 = unat ?a mod 4" using m by (simp add: mod_mod_cancel)
  moreover have "unat ?a mod 4 + ?w \<le> 4"
  proof -
    have "?w dvd unat ?a mod 4" using assms(2) by (auto simp: store_aligned_def dvd_mod mod_eq_0_iff_dvd)
    then show ?thesis using assms(2) mod_less_divisor [of 4 "unat ?a"] by (auto simp: store_aligned_def)
  qed
  ultimately show "unat (?a - line_base k ?a) mod 4 + ?w \<le> 4" using off by simp
qed

text \<open>
  A store to a cached line changes exactly its bytes: an aligned store of one, two or four
  bytes to an address of the line succeeds and replaces these bytes of the line by the low bytes
  of the value, in little-endian order.
\<close>

theorem store_replaces_bytes:
  assumes "built (cb_config k)" "length ws = line_words k" "store_aligned s"
  shows "\<exists>ws'. apply_store s (line_base k (so_addr s)) ws = Some ws' \<and> length ws' = length ws \<and>
    bytes_of ws' = take (unat (so_addr s - line_base k (so_addr s))) (bytes_of ws) @
      take (so_width s) (le_bytes32 (so_value s)) @
      drop (unat (so_addr s - line_base k (so_addr s)) + so_width s) (bytes_of ws)"
proof -
  obtain n where g: "geometry k n"
    using built_config_ok [OF assms(1)] by (auto simp: geometry_def config_ok_def)
  show ?thesis by (rule apply_store_bytes) (use store_fits [OF g assms(3)] assms(2) in simp_all)
qed

lemma store_replaces_bytes_witness:
  "\<exists>ws'. apply_store \<lparr>so_addr = 0x46, so_width = 2, so_value = 0xabcd\<rparr> (line_base (cache_bank_new sample_config) 0x46)
      [0, 0x11223344, 0, 0] = Some ws' \<and>
    bytes_of ws' = take 6 (bytes_of [0, 0x11223344, 0, 0]) @ [0xcd, 0xab] @ drop 8 (bytes_of [0, 0x11223344, 0, 0])"
proof -
  let ?k = "cache_bank_new sample_config"
  let ?s = "\<lparr>so_addr = 0x46, so_width = 2, so_value = 0xabcd\<rparr>"
  have "built (cb_config ?k)" using built_sample by (simp add: cache_bank_new_def)
  moreover have "length [0, 0x11223344, 0, 0] = line_words ?k"
    by (simp add: line_words_def cache_bank_new_def sample_config_eq word_bytes_def)
  moreover have "line_base ?k 0x46 = 0x40"
    by (simp add: line_base_def cache_bank_new_def sample_config_eq)
  ultimately show ?thesis
    using store_replaces_bytes [of ?k "[0, 0x11223344, 0, 0]" ?s] by (auto simp: le_bytes32_def store_aligned_def)
qed

end
