(* ===== verification/Cache_Slots.thy ===== *)
theory Cache_Slots
  imports Cache_Lines
begin

text \<open>
  The lines of a bank as a finite map. \<open>slot_map\<close> sends a place (set, way) to the base address,
  the dirty flag and the words of the line that it holds, and the operations of the bank become
  updates of this map. \<open>shaped\<close> is the invariant that makes their indexing safe.
\<close>

abbreviation ways_of :: "cache_bank \<Rightarrow> nat" where
  "ways_of k \<equiv> associativity (cb_config k)"

abbreviation line_in :: "cache_bank \<Rightarrow> nat \<Rightarrow> nat \<Rightarrow> cache_line" where
  "line_in k i j \<equiv> cs_lines (cb_sets k ! i) ! j"

abbreviation set_of :: "cache_bank \<Rightarrow> u64 \<Rightarrow> nat" where
  "set_of k a \<equiv> da_set_index (decode_address k a)"

text \<open>A tag that belongs to a set.\<close>

definition placed :: "cache_bank \<Rightarrow> nat \<Rightarrow> u64 \<Rightarrow> bool" where
  "placed k i t \<longleftrightarrow> (\<exists>a. set_of k a = i \<and> da_tag (decode_address k a) = t)"

definition line_shaped :: "cache_bank \<Rightarrow> nat \<Rightarrow> cache_line \<Rightarrow> bool" where
  "line_shaped k i l \<longleftrightarrow> length (cl_words l) = line_words k \<and> (cl_valid l \<longrightarrow> placed k i (cl_tag l))"

definition set_shaped :: "cache_bank \<Rightarrow> nat \<Rightarrow> cache_set \<Rightarrow> bool" where
  "set_shaped k i s \<longleftrightarrow> length (cs_lines s) = ways_of k \<and> next_victim s < ways_of k \<and>
     (\<forall>j < ways_of k. line_shaped k i (cs_lines s ! j))"

definition shaped :: "cache_bank \<Rightarrow> bool" where
  "shaped k \<longleftrightarrow> built (cb_config k) \<and> length (cb_sets k) = sets_of k \<and>
     (\<forall>i < sets_of k. set_shaped k i (cb_sets k ! i))"

text \<open>What a line holds: its base address, whether it is dirty, its words.\<close>

type_synonym line_content = "u64 \<times> bool \<times> u32 list"

definition line_content :: "cache_bank \<Rightarrow> nat \<Rightarrow> cache_line \<Rightarrow> line_content option" where
  "line_content k i l =
     (if cl_valid l then Some (line_base_for_tag k i (cl_tag l), cl_dirty l, cl_words l) else None)"

definition slot_map :: "cache_bank \<Rightarrow> nat \<times> nat \<Rightarrow> line_content option" where
  "slot_map k s = (if fst s < sets_of k \<and> snd s < ways_of k
     then line_content k (fst s) (line_in k (fst s) (snd s)) else None)"

text \<open>Everything about addresses depends on the configuration only.\<close>

lemma same_config:
  assumes "cb_config k' = cb_config k"
  shows "line_base k' = line_base k" "decode_address k' = decode_address k"
    "line_base_for_tag k' = line_base_for_tag k" "line_words k' = line_words k"
    "caches_line k' = caches_line k" "placed k' = placed k" "line_shaped k' = line_shaped k"
    "set_shaped k' = set_shaped k" "line_content k' = line_content k"
    "caches_address k' = caches_address k" "caches_line_containing k' = caches_line_containing k"
proof -
  show b: "line_base k' = line_base k" using assms by (simp add: line_base_def fun_eq_iff)
  show d: "decode_address k' = decode_address k"
    using assms b by (simp add: decode_address_def fun_eq_iff Let_def)
  show t: "line_base_for_tag k' = line_base_for_tag k"
    using assms by (simp add: line_base_for_tag_def fun_eq_iff)
  show w: "line_words k' = line_words k" using assms by (simp add: line_words_def)
  show c: "caches_line k' = caches_line k" unfolding caches_line_def assms ..
  show p: "placed k' = placed k" using d by (simp add: placed_def fun_eq_iff)
  show s: "line_shaped k' = line_shaped k" using w p by (simp add: line_shaped_def fun_eq_iff)
  show "set_shaped k' = set_shaped k" using s assms by (simp add: set_shaped_def fun_eq_iff)
  show "line_content k' = line_content k" using t by (simp add: line_content_def fun_eq_iff)
  show "caches_address k' = caches_address k" using assms by (simp add: caches_address_def)
  show "caches_line_containing k' = caches_line_containing k"
    using b c by (simp add: caches_line_containing_def fun_eq_iff)
qed

lemma shaped_geometry: "shaped k \<Longrightarrow> \<exists>n. geometry k n"
  using built_config_ok by (auto simp: shaped_def geometry_def config_ok_def)

lemma set_of_less: "shaped k \<Longrightarrow> set_of k a < sets_of k"
  using shaped_geometry set_index_less by blast

lemma ways_positive: "shaped k \<Longrightarrow> 0 < ways_of k"
  using built_config_ok by (auto simp: shaped_def config_ok_def)

lemma shaped_set: "shaped k \<Longrightarrow> i < sets_of k \<Longrightarrow> set_shaped k i (cb_sets k ! i)"
  by (simp add: shaped_def)

lemma shaped_line: "shaped k \<Longrightarrow> i < sets_of k \<Longrightarrow> j < ways_of k \<Longrightarrow> line_shaped k i (line_in k i j)"
  using shaped_set by (simp add: set_shaped_def)

lemma line_at_shaped:
  "shaped k \<Longrightarrow> i < sets_of k \<Longrightarrow> j < ways_of k \<Longrightarrow> line_at k i j = Some (line_in k i j)"
  using shaped_set [of k i] by (simp add: line_at_def shaped_def set_shaped_def)

text \<open>The parts of a bank that the map does not see.\<close>

lemma slot_map_cong:
  assumes "cb_config k' = cb_config k" "cb_sets k' = cb_sets k"
  shows "slot_map k' = slot_map k" "shaped k' = shaped k"
  using assms same_config [OF assms(1)] by (auto simp: slot_map_def shaped_def fun_eq_iff)

lemma unseen_fields [simp]:
  "slot_map (k\<lparr>cb_stats := st\<rparr>) = slot_map k" "shaped (k\<lparr>cb_stats := st\<rparr>) = shaped k"
  "slot_map (k\<lparr>cb_pending := p\<rparr>) = slot_map k" "shaped (k\<lparr>cb_pending := p\<rparr>) = shaped k"
  "slot_map (k\<lparr>access_epoch := e\<rparr>) = slot_map k" "shaped (k\<lparr>access_epoch := e\<rparr>) = shaped k"
  by (rule slot_map_cong, simp, simp)+

lemma unseen_config [simp]:
  "line_base (k\<lparr>cb_stats := st\<rparr>) = line_base k" "line_base (k\<lparr>cb_pending := p\<rparr>) = line_base k"
  "decode_address (k\<lparr>cb_stats := st\<rparr>) = decode_address k"
  "decode_address (k\<lparr>cb_pending := p\<rparr>) = decode_address k"
  "line_words (k\<lparr>cb_stats := st\<rparr>) = line_words k" "line_words (k\<lparr>cb_pending := p\<rparr>) = line_words k"
  "caches_line_containing (k\<lparr>cb_stats := st\<rparr>) = caches_line_containing k"
  "caches_line_containing (k\<lparr>cb_pending := p\<rparr>) = caches_line_containing k"
  by (rule same_config, simp)+

subsection \<open>Lines and their addresses\<close>

text \<open>The line of a place has the base of \<open>a\<close> exactly if it has its set and its tag.\<close>

lemma content_base:
  assumes "shaped k" "i < sets_of k" "j < ways_of k"
  shows "(\<exists>d ws. slot_map k (i, j) = Some (line_base k a, d, ws)) \<longleftrightarrow>
    i = set_of k a \<and> cl_valid (line_in k i j) \<and> cl_tag (line_in k i j) = da_tag (decode_address k a)"
proof -
  obtain n where g: "geometry k n" using shaped_geometry [OF assms(1)] by blast
  let ?l = "line_in k i j"
  have "line_base_for_tag k i (cl_tag ?l) = line_base k a \<longleftrightarrow>
      i = set_of k a \<and> cl_tag ?l = da_tag (decode_address k a)" if v: "cl_valid ?l"
  proof -
    obtain x where x: "set_of k x = i" "da_tag (decode_address k x) = cl_tag ?l"
      using shaped_line [OF assms] v by (auto simp: line_shaped_def placed_def)
    have "line_base_for_tag k i (cl_tag ?l) = line_base k x" using base_of_tag [OF g, of x] x by simp
    then show ?thesis using same_line [OF g, of x a] x by auto
  qed
  then show ?thesis using assms(2,3) by (auto simp: slot_map_def line_content_def)
qed

lemma slot_map_bounds: "slot_map k (i, j) = Some c \<Longrightarrow> i < sets_of k \<and> j < ways_of k"
  by (simp add: slot_map_def split: if_splits)

lemma slot_map_length:
  assumes "shaped k" "slot_map k s = Some (b, d, ws)"
  shows "length ws = line_words k"
  using assms shaped_line [of k "fst s" "snd s"]
  by (auto simp: slot_map_def line_content_def line_shaped_def split: if_splits)

text \<open>The bases in the map are bases of lines of their set.\<close>

lemma slot_map_base:
  assumes "shaped k" "slot_map k (i, j) = Some (b, d, ws)"
  shows "line_base k b = b" "set_of k b = i"
proof -
  obtain n where g: "geometry k n" using shaped_geometry [OF assms(1)] by blast
  have ij: "i < sets_of k" "j < ways_of k" using slot_map_bounds [OF assms(2)] by simp_all
  then obtain x where x: "set_of k x = i" "da_tag (decode_address k x) = cl_tag (line_in k i j)"
      "b = line_base_for_tag k i (cl_tag (line_in k i j))"
    using shaped_line [OF assms(1) ij] assms(2)
    by (auto simp: slot_map_def line_content_def line_shaped_def placed_def split: if_splits)
  then have "b = line_base k x" using base_of_tag [OF g, of x] by simp
  then show "line_base k b = b" "set_of k b = i"
    using x(1) base_idem [OF g] decode_line_base(1) [OF g] by simp_all
qed

definition unique_lines :: "cache_bank \<Rightarrow> bool" where
  "unique_lines k \<longleftrightarrow> (\<forall>s s' b d ws d' ws'. slot_map k s = Some (b, d, ws) \<and> slot_map k s' = Some (b, d', ws') \<longrightarrow> s = s')"

definition holds_line :: "cache_bank \<Rightarrow> u64 \<Rightarrow> bool" where
  "holds_line k b \<longleftrightarrow> (\<exists>s d ws. slot_map k s = Some (b, d, ws))"

lemma lookup_hit:
  assumes "shaped k" "unique_lines k" "slot_map k (i, j) = Some (line_base k a, d, ws)"
  shows "lookup_way k (decode_address k a) = Some (Some j)" "i = set_of k a"
    "line_at k i j = Some (line_in k i j)" "cl_words (line_in k i j) = ws"
proof -
  have ij: "i < sets_of k" "j < ways_of k" using slot_map_bounds [OF assms(3)] by simp_all
  note at = content_base [OF assms(1)]
  have l: "i = set_of k a" "cl_valid (line_in k i j)" "cl_tag (line_in k i j) = da_tag (decode_address k a)"
    using at [OF ij, of a] assms(3) by blast+
  have others: "\<not> (cl_valid (line_in k i m) \<and> cl_tag (line_in k i m) = da_tag (decode_address k a))" if "m < j" for m
  proof
    assume "cl_valid (line_in k i m) \<and> cl_tag (line_in k i m) = da_tag (decode_address k a)"
    then have "\<exists>d ws. slot_map k (i, m) = Some (line_base k a, d, ws)"
      using at [of i m a] ij that l(1) by simp
    then have "(i, m) = (i, j)" using assms(2,3) unfolding unique_lines_def by blast
    then show False using that by simp
  qed
  have "length (cs_lines (cb_sets k ! i)) = ways_of k" using shaped_set [OF assms(1) ij(1)] by (simp add: set_shaped_def)
  then have "position (\<lambda>l. cl_valid l \<and> cl_tag l = da_tag (decode_address k a)) (cs_lines (cb_sets k ! i)) = Some j"
    using l others ij by (intro position_eq_Some) auto
  then show "lookup_way k (decode_address k a) = Some (Some j)"
    using ij l(1) assms(1) by (simp add: lookup_way_def shaped_def)
  show "i = set_of k a" using l(1) .
  show "line_at k i j = Some (line_in k i j)" using line_at_shaped [OF assms(1) ij] .
  show "cl_words (line_in k i j) = ws"
    using assms(3) by (auto simp: slot_map_def line_content_def split: if_splits)
qed

lemma lookup_miss:
  assumes "shaped k" "\<not> holds_line k (line_base k a)"
  shows "lookup_way k (decode_address k a) = Some None"
proof -
  let ?i = "set_of k a"
  have i: "?i < sets_of k" using set_of_less [OF assms(1)] .
  have len: "length (cs_lines (cb_sets k ! ?i)) = ways_of k" using shaped_set [OF assms(1) i] by (simp add: set_shaped_def)
  have "\<not> (cl_valid (line_in k ?i j) \<and> cl_tag (line_in k ?i j) = da_tag (decode_address k a))" if "j < ways_of k" for j
    using content_base [OF assms(1) i that, of a] assms(2) by (auto simp: holds_line_def)
  then have "position (\<lambda>l. cl_valid l \<and> cl_tag l = da_tag (decode_address k a)) (cs_lines (cb_sets k ! ?i)) = None"
    using len by (auto simp: position_None in_set_conv_nth)
  then show ?thesis using i assms(1) by (simp add: lookup_way_def shaped_def)
qed

subsection \<open>Operations as updates of the map\<close>

lemma shaped_update:
  assumes "shaped k" "i < sets_of k" "set_shaped k i s"
  shows "shaped (k\<lparr>cb_sets := (cb_sets k)[i := s]\<rparr>)" (is "shaped ?k")
proof -
  have "set_shaped k m ((cb_sets k)[i := s] ! m)" if "m < sets_of k" for m
    using assms that by (cases "m = i") (simp_all add: shaped_def)
  then show ?thesis using assms(1) same_config(8) [of ?k k] by (simp add: shaped_def)
qed

lemma update_line_slot:
  assumes "shaped k" "i < sets_of k" "j < ways_of k" "f (line_in k i j) = Some l" "line_shaped k i l"
  shows "\<exists>k'. update_line i j f k = Some k' \<and> shaped k' \<and> cb_config k' = cb_config k \<and>
    cb_pending k' = cb_pending k \<and> cb_stats k' = cb_stats k \<and>
    slot_map k' = (slot_map k)((i, j) := line_content k i l)"
proof -
  let ?s = "cb_sets k ! i"
  let ?k = "k\<lparr>cb_sets := (cb_sets k)[i := ?s\<lparr>cs_lines := (cs_lines ?s)[j := l]\<rparr>]\<rparr>"
  have s: "set_shaped k i ?s" and len: "length (cb_sets k) = sets_of k"
    using shaped_set [OF assms(1,2)] assms(1) by (simp_all add: shaped_def)
  have "update_line i j f k = Some ?k"
    using s len assms(2-4) by (simp add: update_line_def set_shaped_def)
  moreover have "set_shaped k i (?s\<lparr>cs_lines := (cs_lines ?s)[j := l]\<rparr>)"
    using s assms(3,5) by (auto simp: set_shaped_def nth_list_update)
  from shaped_update [OF assms(1,2) this] have "shaped ?k" .
  moreover have "slot_map ?k = (slot_map k)((i, j) := line_content k i l)"
    using s len assms(2,3) same_config(9) [of ?k k]
    by (auto simp: slot_map_def fun_eq_iff nth_list_update set_shaped_def)
  ultimately show ?thesis by (intro exI [of _ ?k]) simp
qed

lemma touch_line_slot:
  assumes "shaped k" "i < sets_of k" "j < ways_of k"
  shows "\<exists>k'. touch_line i j k = Some k' \<and> shaped k' \<and> cb_config k' = cb_config k \<and>
    cb_pending k' = cb_pending k \<and> slot_map k' = slot_map k"
proof -
  let ?k = "k\<lparr>access_epoch := access_epoch k + 1\<rparr>"
  let ?l = "(line_in k i j)\<lparr>cl_last_used := access_epoch k + 1\<rparr>"
  have "line_shaped ?k i ?l"
    using shaped_line [OF assms] same_config(7) [of ?k k] by (simp add: line_shaped_def)
  then obtain k' where k': "update_line i j (\<lambda>l. Some (l\<lparr>cl_last_used := access_epoch k + 1\<rparr>)) ?k = Some k'"
      "shaped k'" "cb_config k' = cb_config k" "cb_pending k' = cb_pending k"
      "slot_map k' = (slot_map k)((i, j) := line_content ?k i ?l)"
    using update_line_slot [of ?k i j "\<lambda>l. Some (l\<lparr>cl_last_used := access_epoch k + 1\<rparr>)" ?l] assms by auto
  have "line_content ?k i ?l = slot_map k (i, j)"
    using assms same_config(9) [of ?k k] by (simp add: slot_map_def line_content_def)
  then show ?thesis using k' by (simp add: touch_line_def Let_def)
qed

lemma select_victim_slot:
  assumes "shaped k" "i < sets_of k"
  shows "\<exists>v k'. select_victim i k = Some (v, k') \<and> v < ways_of k \<and> shaped k' \<and> cb_config k' = cb_config k \<and>
    cb_pending k' = cb_pending k \<and> cb_stats k' = cb_stats k \<and> slot_map k' = slot_map k"
proof -
  let ?s = "cb_sets k ! i"
  have s: "set_shaped k i ?s" "i < length (cb_sets k)"
    using shaped_set [OF assms] assms by (simp_all add: shaped_def)
  then obtain v p where v: "select_victim i k = Some (v, k\<lparr>cb_sets := (cb_sets k)[i := ?s\<lparr>next_victim := p\<rparr>]\<rparr>)"
      "v < ways_of k" "p < ways_of k"
    using select_victim_cases [OF s(2) refl] ways_positive [OF assms(1)] by (auto simp: set_shaped_def)
  let ?k = "k\<lparr>cb_sets := (cb_sets k)[i := ?s\<lparr>next_victim := p\<rparr>]\<rparr>"
  have "set_shaped k i (?s\<lparr>next_victim := p\<rparr>)" using s v(3) by (simp add: set_shaped_def)
  from shaped_update [OF assms this] have "shaped ?k" .
  moreover have "slot_map ?k = slot_map k"
    using s(2) same_config(9) [of ?k k] by (auto simp: slot_map_def fun_eq_iff nth_list_update)
  ultimately show ?thesis using v(1,2) by (intro exI [of _ v] exI [of _ ?k]) simp
qed

text \<open>A line that is written to a place and then touched.\<close>

lemma put_line_slot:
  assumes "shaped k" "i < sets_of k" "j < ways_of k" "f (line_in k i j) = Some l" "line_shaped k i l"
  shows "\<exists>k'. Option.bind (update_line i j f k) (touch_line i j) = Some k' \<and> shaped k' \<and>
    cb_config k' = cb_config k \<and> cb_pending k' = cb_pending k \<and>
    slot_map k' = (slot_map k)((i, j) := line_content k i l)"
proof -
  obtain k1 where k1: "update_line i j f k = Some k1" "shaped k1" "cb_config k1 = cb_config k"
      "cb_pending k1 = cb_pending k" "slot_map k1 = (slot_map k)((i, j) := line_content k i l)"
    using update_line_slot [of k i j f l] assms by blast
  moreover obtain k2 where "touch_line i j k1 = Some k2" "shaped k2" "cb_config k2 = cb_config k1"
      "cb_pending k2 = cb_pending k1" "slot_map k2 = slot_map k1"
    using touch_line_slot [OF k1(2), of i j] k1(3) assms(2,3) by auto
  ultimately show ?thesis by simp
qed

lemma placed_decode: "placed k (set_of k a) (da_tag (decode_address k a))"
  by (auto simp: placed_def)

lemma install_line_slot:
  assumes "shaped k" "rf_set_index r = set_of k a" "rf_tag r = da_tag (decode_address k a)"
    "rf_way_index r < ways_of k" "length ws = line_words k"
  shows "\<exists>k'. Option.bind (install_line r ws k) (touch_line (rf_set_index r) (rf_way_index r)) = Some k' \<and>
    shaped k' \<and> cb_config k' = cb_config k \<and> cb_pending k' = cb_pending k \<and>
    slot_map k' = (slot_map k)((set_of k a, rf_way_index r) := Some (line_base k a, False, ws))"
proof -
  let ?i = "set_of k a" and ?j = "rf_way_index r"
  let ?l = "(line_in k ?i ?j)\<lparr>cl_valid := True, cl_dirty := False, cl_tag := rf_tag r, cl_words := ws\<rparr>"
  have i: "?i < sets_of k" using set_of_less [OF assms(1)] .
  obtain n where g: "geometry k n" using shaped_geometry [OF assms(1)] by blast
  have "line_shaped k ?i ?l" using assms(3,5) placed_decode by (simp add: line_shaped_def)
  moreover have "line_content k ?i ?l = Some (line_base k a, False, ws)"
    using assms(3) base_of_tag [OF g] by (simp add: line_content_def)
  moreover have "length (cl_words (line_in k ?i ?j)) = line_words k"
    using shaped_line [OF assms(1) i assms(4)] by (simp add: line_shaped_def)
  ultimately show ?thesis
    using put_line_slot [OF assms(1) i assms(4), of _ ?l] assms(2,5) by (simp add: install_line_def)
qed

lemma update_store_slot:
  assumes "shaped k" "unique_lines k" "slot_map k (i, j) = Some (line_base k (so_addr s), d, ws)"
    "apply_store s (line_base k (so_addr s)) ws = Some ws'" "length ws' = line_words k"
  shows "\<exists>k'. update_cached_store (decode_address k (so_addr s)) j s dirty k = Some k' \<and> shaped k' \<and>
    cb_config k' = cb_config k \<and> cb_pending k' = cb_pending k \<and>
    slot_map k' = (slot_map k)((i, j) := Some (line_base k (so_addr s), dirty, ws'))"
proof -
  let ?a = "so_addr s"
  note hit = lookup_hit [OF assms(1-3)]
  obtain n where g: "geometry k n" using shaped_geometry [OF assms(1)] by blast
  have ij: "i < sets_of k" "j < ways_of k" using slot_map_bounds [OF assms(3)] by simp_all
  let ?l = "(line_in k i j)\<lparr>cl_words := ws', cl_valid := True, cl_tag := da_tag (decode_address k ?a), cl_dirty := dirty\<rparr>"
  have "line_shaped k i ?l" using assms(5) placed_decode hit(2) by (simp add: line_shaped_def)
  moreover have "line_content k i ?l = Some (line_base k ?a, dirty, ws')"
    using hit(2) base_of_tag [OF g] by (simp add: line_content_def)
  ultimately show ?thesis
    using put_line_slot [OF assms(1) ij, of _ ?l] assms(4) hit(2,4)
    by (simp add: update_cached_store_def decode_address_fields(1) [OF g])
qed

lemma read_word_slot:
  assumes "shaped k" "unique_lines k" "slot_map k (i, j) = Some (line_base k a, d, ws)"
  shows "bank_read_word k (decode_address k a) j = Some (ws ! da_word_index (decode_address k a))"
proof -
  note hit = lookup_hit [OF assms]
  obtain n where g: "geometry k n" using shaped_geometry [OF assms(1)] by blast
  have "length ws = line_words k" using slot_map_length [OF assms(1,3)] .
  then show ?thesis using hit word_index_less [OF g, of a] by (simp add: bank_read_word_def)
qed

text \<open>The write-back that an eviction leaves, from what the victim held.\<close>

fun evicted :: "line_content option \<Rightarrow> pending_write_back option" where
  "evicted (Some (b, True, ws)) = Some (pending_write_back_new b ws)"
| "evicted _ = None"

lemma start_pending_victim:
  assumes "shaped k" "cc_write (cb_config k) = WriteBack"
  shows "\<exists>v k'. map_option fst (select_victim (set_of k a) k) = Some v \<and>
    start_pending (decode_address k a) kind count k = Some k' \<and> v < ways_of k \<and> shaped k' \<and>
    cb_config k' = cb_config k \<and> slot_map k' = (slot_map k)((set_of k a, v) := None) \<and>
    cb_pending k' = Some \<lparr>lo_write_back = evicted (slot_map k (set_of k a, v)),
      lo_refill = pending_refill_new (decode_address k a) v (line_words k) kind\<rparr>"
proof -
  let ?i = "set_of k a"
  have i: "?i < sets_of k" using set_of_less [OF assms(1)] .
  obtain v k1 where k1: "select_victim ?i k = Some (v, k1)" "v < ways_of k" "shaped k1" "cb_config k1 = cb_config k"
      "cb_pending k1 = cb_pending k" "slot_map k1 = slot_map k"
    using select_victim_slot [OF assms(1) i] by blast
  let ?l = "line_in k1 ?i v"
  note c = same_config [OF k1(4)]
  have at: "line_at k1 ?i v = Some ?l" using line_at_shaped [OF k1(3)] i k1(2,4) by simp
  have content: "line_content k1 ?i ?l = slot_map k (?i, v)"
    using i k1(2,4,6) by (metis fst_conv slot_map_def snd_conv)
  have update: "\<exists>k'. update_line ?i v (\<lambda>l. Some (l\<lparr>cl_valid := False, cl_dirty := False\<rparr>)) (k1\<lparr>cb_stats := st\<rparr>) = Some k' \<and>
      shaped k' \<and> cb_config k' = cb_config k \<and> slot_map k' = (slot_map k)((?i, v) := None)" for st
  proof -
    have "line_shaped (k1\<lparr>cb_stats := st\<rparr>) ?i (?l\<lparr>cl_valid := False, cl_dirty := False\<rparr>)"
      using shaped_line [OF k1(3), of ?i v] i k1(2,4) same_config(7) [of "k1\<lparr>cb_stats := st\<rparr>" k1]
      by (simp add: line_shaped_def)
    then show ?thesis
      using update_line_slot [of "k1\<lparr>cb_stats := st\<rparr>" ?i v "\<lambda>l. Some (l\<lparr>cl_valid := False, cl_dirty := False\<rparr>)"
          "?l\<lparr>cl_valid := False, cl_dirty := False\<rparr>"] i k1
      by (auto simp: line_content_def)
  qed
  have wb: "(if cc_write (cb_config k1) = WriteBack \<and> cl_valid ?l \<and> cl_dirty ?l
      then Some (pending_write_back_new (line_base_for_tag k1 ?i (cl_tag ?l)) (cl_words ?l)) else None) =
      evicted (slot_map k (?i, v))"
    unfolding content [symmetric] using assms(2) k1(4) by (cases "cl_dirty ?l") (simp_all add: line_content_def)
  obtain st where start: "start_pending (decode_address k a) kind count k =
      map_option (\<lambda>k'. k'\<lparr>cb_pending := Some \<lparr>lo_write_back = evicted (slot_map k (?i, v)),
          lo_refill = pending_refill_new (decode_address k a) v (line_words k') kind\<rparr>\<rparr>)
        (update_line ?i v (\<lambda>l. Some (l\<lparr>cl_valid := False, cl_dirty := False\<rparr>)) (k1\<lparr>cb_stats := st\<rparr>))"
    unfolding start_pending_def k1(1) option.case prod.case at Let_def wb by blast
  obtain k' where k': "update_line ?i v (\<lambda>l. Some (l\<lparr>cl_valid := False, cl_dirty := False\<rparr>)) (k1\<lparr>cb_stats := st\<rparr>) = Some k'"
      "shaped k'" "cb_config k' = cb_config k" "slot_map k' = (slot_map k)((?i, v) := None)"
    using update by blast
  then show ?thesis using start k1(1,2) same_config(4) [OF k'(3)] by (intro exI [of _ v]) simp
qed

lemma start_pending_slot:
  assumes "shaped k" "cc_write (cb_config k) = WriteBack"
  shows "\<exists>v k'. start_pending (decode_address k a) kind count k = Some k' \<and> v < ways_of k \<and> shaped k' \<and>
    cb_config k' = cb_config k \<and> slot_map k' = (slot_map k)((set_of k a, v) := None) \<and>
    cb_pending k' = Some \<lparr>lo_write_back = evicted (slot_map k (set_of k a, v)),
      lo_refill = pending_refill_new (decode_address k a) v (line_words k) kind\<rparr>"
  using start_pending_victim [OF assms] by blast

end
