(* ===== verification/Cache_View.thy ===== *)
theory Cache_View
  imports Cache_Slots
begin

text \<open>
  The memory that the client of a write-back bank sees. \<open>bank_view k m\<close> is, at an address, the
  byte of the line if it is cached, else the byte of the victim that waits for its write-back,
  else the byte of the memory \<open>m\<close> below. \<open>bank_ok\<close> is the invariant of the bank over \<open>m\<close>: no line
  is cached twice, clean lines agree with \<open>m\<close>, and a pending operation is consistent with the
  lines. The steps of an eviction, a write-back, a refill and a store are related to the view.
\<close>

subsection \<open>The view\<close>

definition cached_words :: "cache_bank \<Rightarrow> u64 \<Rightarrow> u32 list option" where
  "cached_words k a =
     (case lookup_way k (decode_address k a) of
        Some (Some w) \<Rightarrow> map_option cl_words (line_at k (da_set_index (decode_address k a)) w)
      | _ \<Rightarrow> None)"

definition victim :: "cache_bank \<Rightarrow> pending_write_back option" where
  "victim k = Option.bind (cb_pending k) lo_write_back"

definition victim_words :: "cache_bank \<Rightarrow> u64 \<Rightarrow> u32 list option" where
  "victim_words k a =
     (case victim k of
        None \<Rightarrow> None
      | Some w \<Rightarrow> if wb_line_base w = line_base k a then Some (wb_words w) else None)"

definition bank_view :: "cache_bank \<Rightarrow> (u64 \<Rightarrow> u8) \<Rightarrow> u64 \<Rightarrow> u8" where
  "bank_view k m a =
     (case cached_words k a of
        Some ws \<Rightarrow> bytes_of ws ! unat (a - line_base k a)
      | None \<Rightarrow>
          (case victim_words k a of
             Some ws \<Rightarrow> bytes_of ws ! unat (a - line_base k a)
           | None \<Rightarrow> m a))"

subsection \<open>The invariant\<close>

definition refill_for :: "cache_bank \<Rightarrow> u64 \<Rightarrow> pending_refill \<Rightarrow> bool" where
  "refill_for k a r \<longleftrightarrow> rf_line_base r = line_base k a \<and> rf_set_index r = set_of k a \<and>
     rf_tag r = da_tag (decode_address k a) \<and> rf_way_index r < ways_of k \<and> length (rf_words r) = line_words k"

definition victim_for :: "cache_bank \<Rightarrow> u64 \<Rightarrow> pending_write_back \<Rightarrow> bool" where
  "victim_for k a w \<longleftrightarrow> line_base k (wb_line_base w) = wb_line_base w \<and> caches_line k (wb_line_base w) \<and>
     \<not> holds_line k (wb_line_base w) \<and> wb_line_base w \<noteq> line_base k a \<and> length (wb_words w) = line_words k"

definition pending_ok :: "cache_bank \<Rightarrow> pending_line_op \<Rightarrow> bool" where
  "pending_ok k p \<longleftrightarrow> (\<exists>a. refill_for k a (lo_refill p) \<and> caches_line_containing k a \<and>
     \<not> holds_line k (line_base k a) \<and> slot_map k (set_of k a, rf_way_index (lo_refill p)) = None \<and>
     (\<forall>w. lo_write_back p = Some w \<longrightarrow> rf_burst_id (lo_refill p) = None \<and> victim_for k a w))"

definition lines_cacheable :: "cache_bank \<Rightarrow> bool" where
  "lines_cacheable k \<longleftrightarrow> (\<forall>s b d ws. slot_map k s = Some (b, d, ws) \<longrightarrow> caches_line k b)"

definition clean_lines :: "cache_bank \<Rightarrow> (u64 \<Rightarrow> u8) \<Rightarrow> bool" where
  "clean_lines k m \<longleftrightarrow> (\<forall>s ws a. slot_map k s = Some (line_base k a, False, ws) \<longrightarrow>
     bytes_of ws ! unat (a - line_base k a) = m a)"

definition bank_ok :: "cache_bank \<Rightarrow> (u64 \<Rightarrow> u8) \<Rightarrow> bool" where
  "bank_ok k m \<longleftrightarrow> shaped k \<and> cc_write (cb_config k) = WriteBack \<and> unique_lines k \<and> lines_cacheable k \<and>
     clean_lines k m \<and> (\<forall>p. cb_pending k = Some p \<longrightarrow> pending_ok k p)"

lemma holds_line_unseen [simp]:
  "holds_line (k\<lparr>cb_stats := st\<rparr>) = holds_line k" "holds_line (k\<lparr>cb_pending := p\<rparr>) = holds_line k"
  by (simp_all add: holds_line_def fun_eq_iff)

lemma unique_lines_unseen [simp]:
  "unique_lines (k\<lparr>cb_stats := st\<rparr>) = unique_lines k" "unique_lines (k\<lparr>cb_pending := p\<rparr>) = unique_lines k"
  by (simp_all add: unique_lines_def)

lemma pending_ok_cong:
  assumes "cb_config k' = cb_config k" "slot_map k' = slot_map k"
  shows "pending_ok k' p = pending_ok k p"
  using assms(2) same_config [OF assms(1)]
  by (simp add: pending_ok_def refill_for_def victim_for_def holds_line_def assms(1))

text \<open>The view and the invariant depend on the lines, the pending operation and the memory.\<close>

lemma bank_ok_cong:
  assumes "cb_config k' = cb_config k" "slot_map k' = slot_map k" "shaped k' = shaped k" "cb_pending k' = cb_pending k"
  shows "bank_ok k' m = bank_ok k m"
  using assms same_config [OF assms(1)] pending_ok_cong [OF assms(1,2)]
  by (simp add: bank_ok_def unique_lines_def lines_cacheable_def clean_lines_def)

lemma refill_for_unseen [simp]: "refill_for (k\<lparr>cb_pending := p\<rparr>) = refill_for k"
  by (simp add: refill_for_def fun_eq_iff)

lemma victim_for_unseen [simp]: "victim_for (k\<lparr>cb_pending := p\<rparr>) = victim_for k"
  using same_config(5) [of "k\<lparr>cb_pending := p\<rparr>" k] by (simp add: victim_for_def fun_eq_iff)

lemma pending_ok_unseen [simp]:
  "pending_ok (k\<lparr>cb_pending := p\<rparr>) = pending_ok k" "pending_ok (k\<lparr>cb_stats := st\<rparr>) = pending_ok k"
  by (rule ext, rule pending_ok_cong, simp, simp)+

lemma bank_ok_pending:
  assumes "bank_ok k m" "pending_ok k p"
  shows "bank_ok (k\<lparr>cb_pending := Some p\<rparr>) m"
  using assms same_config [of "k\<lparr>cb_pending := Some p\<rparr>" k]
  by (simp add: bank_ok_def lines_cacheable_def clean_lines_def)

lemma bank_ok_stats [simp]: "bank_ok (k\<lparr>cb_stats := st\<rparr>) m = bank_ok k m"
  by (rule bank_ok_cong) simp_all

lemma bank_view_stats [simp]: "bank_view (k\<lparr>cb_stats := st\<rparr>) = bank_view k"
proof -
  let ?k = "k\<lparr>cb_stats := st\<rparr>"
  have "lookup_way ?k = lookup_way k" "line_at ?k = line_at k"
    by (simp_all add: lookup_way_def line_at_def fun_eq_iff)
  then have c: "cached_words ?k = cached_words k"
    by (simp add: cached_words_def fun_eq_iff split: option.split)
  have v: "victim_words ?k = victim_words k"
    by (simp add: victim_words_def victim_def fun_eq_iff split: option.split)
  show ?thesis by (simp add: bank_view_def c v fun_eq_iff split: option.split)
qed

lemma victim_pending [simp]: "victim (k\<lparr>cb_pending := Some p\<rparr>) = lo_write_back p" "victim (k\<lparr>cb_pending := None\<rparr>) = None"
  by (simp_all add: victim_def)

lemma bank_ok_parts:
  assumes "bank_ok k m"
  shows "shaped k" "unique_lines k" "lines_cacheable k" "clean_lines k m" "cc_write (cb_config k) = WriteBack"
    "cb_pending k = Some p \<Longrightarrow> pending_ok k p"
  using assms by (simp_all add: bank_ok_def)

subsection \<open>Reading the view\<close>

lemma view_cached:
  assumes "shaped k" "unique_lines k" "slot_map k s = Some (line_base k a, d, ws)"
  shows "bank_view k m a = bytes_of ws ! unat (a - line_base k a)"
proof -
  obtain i j where s: "s = (i, j)" by (cases s)
  note hit = lookup_hit [OF assms(1,2) assms(3) [unfolded s]]
  then show ?thesis by (simp add: bank_view_def cached_words_def)
qed

lemma view_uncached:
  assumes "shaped k" "\<not> holds_line k (line_base k a)"
  shows "bank_view k m a = (case victim_words k a of Some ws \<Rightarrow> bytes_of ws ! unat (a - line_base k a) | None \<Rightarrow> m a)"
  using lookup_miss [OF assms] by (simp add: bank_view_def cached_words_def)

lemma view_victim:
  assumes "shaped k" "\<not> holds_line k (line_base k a)" "victim k = Some w" "wb_line_base w = line_base k a"
  shows "bank_view k m a = bytes_of (wb_words w) ! unat (a - line_base k a)"
  using assms(3,4) view_uncached [OF assms(1,2)] by (simp add: victim_words_def)

lemma view_memory:
  assumes "shaped k" "\<not> holds_line k (line_base k a)" "\<And>w. victim k = Some w \<Longrightarrow> wb_line_base w \<noteq> line_base k a"
  shows "bank_view k m a = m a"
  using assms(3) view_uncached [OF assms(1,2)] by (auto simp: victim_words_def split: option.split)

text \<open>Two banks with the same lines and victim show the same.\<close>

lemma view_cong:
  assumes "cb_config k' = cb_config k" "slot_map k' = slot_map k" "victim_words k' = victim_words k"
    "shaped k" "shaped k'" "unique_lines k"
  shows "bank_view k' m = bank_view k m"
proof
  fix a
  note c = same_config [OF assms(1)]
  have u: "unique_lines k'" using assms(2,6) by (simp add: unique_lines_def)
  show "bank_view k' m a = bank_view k m a"
  proof (cases "holds_line k (line_base k a)")
    case True
    then obtain s d ws where "slot_map k s = Some (line_base k a, d, ws)" by (auto simp: holds_line_def)
    then show ?thesis using view_cached [OF assms(4,6)] view_cached [OF assms(5) u] assms(2) c(1) by metis
  next
    case False
    moreover from this have "\<not> holds_line k' (line_base k' a)" using assms(2) c(1) by (simp add: holds_line_def)
    ultimately show ?thesis
      by (simp add: view_uncached [OF assms(4)] view_uncached [OF assms(5)] c(1) assms(3) split: option.split)
  qed
qed

text \<open>The addresses of a line.\<close>

lemma line_span:
  assumes "shaped k" "line_base k b = b"
  shows "unat (a - b) < 4 * line_words k \<longleftrightarrow> line_base k a = b"
proof -
  obtain n where g: "geometry k n" using shaped_geometry [OF assms(1)] by blast
  note L = geometry_words(2) [OF g]
  show ?thesis
  proof
    assume "line_base k a = b"
    then show "unat (a - b) < 4 * line_words k" using unat_offset [OF g, of a] L by simp
  next
    assume lt: "unat (a - b) < 4 * line_words k"
    have n: "n < 64" using geometry_bounds [OF g] by simp
    have "unat b < 2 ^ 64" using unsigned_less [of b, where ?'a = nat] by simp
    have bm: "unat b = unat b div 2 ^ n * 2 ^ n" using unat_base [OF g, of b] assms(2) by simp
    have "unat b div 2 ^ n < 2 ^ (64 - n)"
    proof -
      have "(2 :: nat) ^ 64 = 2 ^ (64 - n) * 2 ^ n" using n by (simp add: power_add [symmetric])
      then show ?thesis using \<open>unat b < 2 ^ 64\<close> less_mult_imp_div_less by presburger
    qed
    then have "(unat b div 2 ^ n + 1) * 2 ^ n \<le> 2 ^ (64 - n) * 2 ^ n" by (intro mult_le_mono1) simp
    also have "\<dots> = (2 :: nat) ^ 64" using n by (simp add: power_add [symmetric])
    finally have "unat b + 2 ^ n \<le> 2 ^ 64" using bm by simp
    then have "unat b + unat (a - b) < 2 ^ 64" using lt L by linarith
    then have "unat a = unat b + unat (a - b)" using unat_word_ariths(1) [of b "a - b"] by simp
    moreover have "(q * 2 ^ n + r) div 2 ^ n = q" if "r < 2 ^ n" for q r :: nat using that by simp
    then have "(unat b div 2 ^ n * 2 ^ n + unat (a - b)) div 2 ^ n = unat b div 2 ^ n" using lt L by simp
    ultimately have "unat a div 2 ^ n = unat b div 2 ^ n" using bm by simp
    then have "unat (line_base k a) = unat b" using unat_base [OF g, of a] bm by simp
    then show "line_base k a = b" by (simp add: word_unat_eq_iff)
  qed
qed

lemma caches_line_base: "shaped k \<Longrightarrow> caches_line_containing k a = caches_line k (line_base k a)"
  by (simp add: caches_line_containing_def)

subsection \<open>The steps\<close>

lemma held: "slot_map k s = Some (b, d, ws) \<Longrightarrow> holds_line k b"
  unfolding holds_line_def by blast

lemma clean_line:
  "clean_lines k m \<Longrightarrow> slot_map k s = Some (line_base k a, False, ws) \<Longrightarrow> bytes_of ws ! unat (a - line_base k a) = m a"
  unfolding clean_lines_def by blast

lemma held_cacheable: "lines_cacheable k \<Longrightarrow> slot_map k s = Some (b, d, ws) \<Longrightarrow> caches_line k b"
  unfolding lines_cacheable_def by blast

text \<open>The memory may change below a bank where the pending victim covers it.\<close>

definition changes_victim :: "cache_bank \<Rightarrow> (u64 \<Rightarrow> u8) \<Rightarrow> (u64 \<Rightarrow> u8) \<Rightarrow> bool" where
  "changes_victim k m m' \<longleftrightarrow> (\<forall>a. caches_line_containing k a \<and>
     (\<forall>w. victim k = Some w \<longrightarrow> wb_line_base w \<noteq> line_base k a) \<longrightarrow> m' a = m a)"

lemma victim_ok:
  assumes "bank_ok k m" "victim k = Some w"
  shows "\<exists>a. victim_for k a w"
  using assms by (auto simp: bank_ok_def victim_def pending_ok_def split: option.splits bind_splits)

lemma held_not_victim:
  assumes "bank_ok k m" "holds_line k b" "victim k = Some w"
  shows "wb_line_base w \<noteq> b"
  using victim_ok [OF assms(1,3)] assms(2) by (auto simp: victim_for_def)

lemma memory_step:
  assumes "bank_ok k m" "changes_victim k m m'"
  shows "bank_ok k m'" "caches_line_containing k a \<Longrightarrow> bank_view k m' a = bank_view k m a"
proof -
  note ok = bank_ok_parts [OF assms(1)]
  have clean: "m' a = m a" if a: "caches_line_containing k a" "holds_line k (line_base k a)" for a
    using assms(2) held_not_victim [OF assms(1) a(2)] a(1) by (auto simp: changes_victim_def)
  have "clean_lines k m'"
    unfolding clean_lines_def
  proof (intro allI impI)
    fix s ws a
    assume s: "slot_map k s = Some (line_base k a, False, ws)"
    then have "caches_line_containing k a" "holds_line k (line_base k a)"
      using held_cacheable [OF ok(3) s] caches_line_base [OF ok(1)] held by auto
    with clean [OF this] clean_line [OF ok(4) s] show "bytes_of ws ! unat (a - line_base k a) = m' a"
      by simp
  qed
  then show "bank_ok k m'" using assms(1) by (simp add: bank_ok_def)
  show "bank_view k m' a = bank_view k m a" if a: "caches_line_containing k a"
  proof (cases "holds_line k (line_base k a)")
    case True
    then show ?thesis using view_cached [OF ok(1,2)] by (auto simp: holds_line_def)
  next
    case False
    note v = view_uncached [OF ok(1) False]
    show ?thesis
    proof (cases "victim_words k a")
      case None
      then have "m' a = m a"
        using assms(2) a by (auto simp: changes_victim_def victim_words_def split: option.splits if_splits)
      then show ?thesis using None v by simp
    qed (simp add: v)
  qed
qed

text \<open>Removing a line from the map.\<close>

lemma removed_line:
  assumes "slot_map k' = (slot_map k)(s := None)" "cb_config k' = cb_config k"
  shows "unique_lines k \<Longrightarrow> unique_lines k'" "lines_cacheable k \<Longrightarrow> lines_cacheable k'"
    "clean_lines k m \<Longrightarrow> clean_lines k' m" "holds_line k' b \<Longrightarrow> holds_line k b"
proof -
  have sub: "slot_map k' x = Some c \<Longrightarrow> slot_map k x = Some c" for x c
    using assms(1) by (auto split: if_splits)
  note c = same_config [OF assms(2)]
  show "unique_lines k \<Longrightarrow> unique_lines k'"
    unfolding unique_lines_def using sub by blast
  show "lines_cacheable k \<Longrightarrow> lines_cacheable k'"
    unfolding lines_cacheable_def c(5) using sub by blast
  show "clean_lines k m \<Longrightarrow> clean_lines k' m"
    unfolding clean_lines_def c(1) using sub by blast
  show "holds_line k' b \<Longrightarrow> holds_line k b"
    unfolding holds_line_def using sub by blast
qed

lemma evicted_Some: "evicted e = Some w \<longleftrightarrow> (\<exists>b ws. e = Some (b, True, ws) \<and> w = pending_write_back_new b ws)"
  by (cases e rule: evicted.cases) auto

text \<open>An eviction moves the victim from the lines to the pending operation.\<close>

lemma evict_step:
  assumes "bank_ok k m" "cb_pending k = None" "caches_line_containing k a" "\<not> holds_line k (line_base k a)"
    and "v < ways_of k" "shaped k'" "cb_config k' = cb_config k"
    and "slot_map k' = (slot_map k)((set_of k a, v) := None)"
    and "cb_pending k' = Some \<lparr>lo_write_back = evicted (slot_map k (set_of k a, v)),
      lo_refill = pending_refill_new (decode_address k a) v (line_words k) kind\<rparr>"
  shows "bank_ok k' m" "bank_view k' m x = bank_view k m x"
proof -
  let ?s = "(set_of k a, v)"
  note ok = bank_ok_parts [OF assms(1)] and c = same_config [OF assms(7)] and sub = removed_line [OF assms(8,7)]
  obtain n where g: "geometry k n" using shaped_geometry [OF ok(1)] by blast
  have vic: "victim k' = evicted (slot_map k ?s)" "victim k = None" using assms(2,9) by (simp_all add: victim_def)
  have gone: "\<not> holds_line k' b" if "slot_map k ?s = Some (b, d, ws)" for b d ws
    using that ok(2) assms(8) unfolding holds_line_def unique_lines_def by (metis fun_upd_apply option.distinct(1))
  have "victim_for k' a w" if w: "evicted (slot_map k ?s) = Some w" for w
  proof -
    obtain b ws where e: "slot_map k ?s = Some (b, True, ws)" "w = pending_write_back_new b ws"
      using w by (auto simp: evicted_Some)
    have "holds_line k b" using e(1) by (auto simp: holds_line_def)
    then have "b \<noteq> line_base k a" using assms(4) by blast
    then show ?thesis
      using e gone [OF e(1)] slot_map_base(1) [OF ok(1) e(1)] slot_map_length [OF ok(1) e(1)]
        held_cacheable [OF ok(3) e(1)] c
      by (simp add: victim_for_def pending_write_back_new_def)
  qed
  moreover have "\<not> holds_line k' (line_base k' a)" using assms(4) sub(4) c(1) by metis
  moreover have "refill_for k' a (pending_refill_new (decode_address k a) v (line_words k) kind)"
    using assms(5,7) c decode_address_fields(1) [OF g] by (simp add: refill_for_def pending_refill_new_def)
  ultimately have "pending_ok k' \<lparr>lo_write_back = evicted (slot_map k ?s),
      lo_refill = pending_refill_new (decode_address k a) v (line_words k) kind\<rparr>"
    unfolding pending_ok_def using assms(3,8) c
    by (intro exI [of _ a]) (simp add: pending_refill_new_def)
  then show "bank_ok k' m"
    using sub(1) [OF ok(2)] sub(2) [OF ok(3)] sub(3) [OF ok(4)] assms(6,7,9) ok(5) by (simp add: bank_ok_def)
  note u' = sub(1) [OF ok(2)]
  show "bank_view k' m x = bank_view k m x"
  proof (cases "holds_line k (line_base k x)")
    case True
    then obtain s d ws where s: "slot_map k s = Some (line_base k x, d, ws)" by (auto simp: holds_line_def)
    note old = view_cached [OF ok(1,2) s]
    show ?thesis
    proof (cases "s = ?s")
      case True
      have no: "\<not> holds_line k' (line_base k' x)" using gone s True c(1) by metis
      show ?thesis
      proof (cases d)
        case True
        then have "victim k' = Some (pending_write_back_new (line_base k x) ws)"
          using vic(1) s \<open>s = ?s\<close> by simp
        then show ?thesis using view_victim [OF assms(6) no] old c(1) by (simp add: pending_write_back_new_def)
      next
        case False
        then have "victim k' = None" using vic(1) s \<open>s = ?s\<close> by simp
        moreover have "bytes_of ws ! unat (x - line_base k x) = m x"
          using clean_line [OF ok(4)] s False by simp
        ultimately show ?thesis using view_memory [OF assms(6) no] old by simp
      qed
    next
      case False
      then have "slot_map k' s = Some (line_base k' x, d, ws)" using s assms(8) c(1) by simp
      then show ?thesis using view_cached [OF assms(6) u'] old c(1) by simp
    qed
  next
    case False
    then have no: "\<not> holds_line k' (line_base k' x)" using sub(4) c(1) by metis
    have "wb_line_base w \<noteq> line_base k' x" if "victim k' = Some w" for w
    proof -
      obtain b ws where "slot_map k ?s = Some (b, True, ws)" "w = pending_write_back_new b ws"
        using \<open>victim k' = Some w\<close> vic(1) by (auto simp: evicted_Some)
      then show ?thesis using False c(1) by (auto simp: holds_line_def pending_write_back_new_def)
    qed
    then show ?thesis
      using view_memory [OF assms(6) no] view_memory [OF ok(1) False] vic(2) by simp
  qed
qed

text \<open>When the write-back is done, the memory below has the victim.\<close>

lemma written_back_step:
  assumes "bank_ok k m" "cb_pending k = Some p" "lo_write_back p = Some w"
    and "\<And>a. caches_line_containing k a \<Longrightarrow>
      m' a = (if line_base k a = wb_line_base w then bytes_of (wb_words w) ! unat (a - wb_line_base w) else m a)"
  shows "bank_ok (k\<lparr>cb_pending := Some (p\<lparr>lo_write_back := None\<rparr>)\<rparr>) m'"
    "caches_line_containing k x \<Longrightarrow>
       bank_view (k\<lparr>cb_pending := Some (p\<lparr>lo_write_back := None\<rparr>)\<rparr>) m' x = bank_view k m x"
proof -
  let ?k = "k\<lparr>cb_pending := Some (p\<lparr>lo_write_back := None\<rparr>)\<rparr>"
  note ok = bank_ok_parts [OF assms(1)]
  have vic: "victim k = Some w" using assms(2,3) by (simp add: victim_def)
  have "changes_victim k m m'" using assms(4) vic by (auto simp: changes_victim_def)
  from memory_step(1) [OF assms(1) this] have "bank_ok k m'" .
  moreover have "pending_ok ?k (p\<lparr>lo_write_back := None\<rparr>)"
    using ok(6) [OF assms(2)] pending_ok_cong [of ?k k] by (auto simp: pending_ok_def refill_for_def)
  ultimately show "bank_ok ?k m'"
    using same_config [of ?k k] by (simp add: bank_ok_def lines_cacheable_def clean_lines_def)
  show "bank_view ?k m' x = bank_view k m x" if x: "caches_line_containing k x"
  proof (cases "holds_line k (line_base k x)")
    case True
    then obtain s d ws where s: "slot_map k s = Some (line_base k x, d, ws)" by (auto simp: holds_line_def)
    then show ?thesis using view_cached [OF ok(1,2) s] view_cached [of ?k s x d ws] ok(1,2) by simp
  next
    case False
    have "bank_view ?k m' x = m' x" using view_memory [of ?k x m'] ok(1) False by simp
    also have "\<dots> = bank_view k m x"
      using assms(4) [OF x] view_victim [OF ok(1) False vic] view_memory [OF ok(1) False] vic by auto
    finally show ?thesis .
  qed
qed

text \<open>A line in the map that is new, or replaces one with the same base.\<close>

lemma put_line:
  assumes "shaped k" "shaped k'" "cb_config k' = cb_config k" "slot_map k' = (slot_map k)(s := Some (b, d, ws))"
    and "unique_lines k" "lines_cacheable k" "caches_line k b"
    and "slot_map k s = None \<and> \<not> holds_line k b \<or> (\<exists>d ws. slot_map k s = Some (b, d, ws))"
  shows "unique_lines k'" "lines_cacheable k'" "line_base k x = b \<Longrightarrow> bank_view k' m x = bytes_of ws ! unat (x - b)"
    "line_base k x \<noteq> b \<Longrightarrow> victim k' = None \<Longrightarrow> victim k = None \<Longrightarrow> bank_view k' m x = bank_view k m x"
proof -
  note c = same_config [OF assms(3)]
  have only: "s' = s" if "slot_map k s' = Some (b, d', ws')" for s' d' ws'
    using that assms(5,8) held [OF that] unfolding unique_lines_def by blast
  show u: "unique_lines k'"
    unfolding unique_lines_def
  proof (intro allI impI)
    fix x y b' d1 w1 d2 w2
    assume *: "slot_map k' x = Some (b', d1, w1) \<and> slot_map k' y = Some (b', d2, w2)"
    show "x = y"
    proof (cases "b' = b")
      case True
      have "z = s" if "slot_map k' z = Some (b, d', w')" for z d' w'
        using only that assms(4) by (cases "z = s") auto
      then show ?thesis using * True by metis
    next
      case False
      then have "slot_map k x = Some (b', d1, w1)" "slot_map k y = Some (b', d2, w2)"
        using * assms(4) by (auto split: if_splits)
      then show ?thesis using assms(5) unfolding unique_lines_def by blast
    qed
  qed
  show "lines_cacheable k'"
    unfolding lines_cacheable_def c(5)
  proof (intro allI impI)
    fix z b' d' w'
    assume "slot_map k' z = Some (b', d', w')"
    then show "caches_line k b'"
      using assms(4,7) held_cacheable [OF assms(6)] by (cases "z = s") auto
  qed
  show "bank_view k' m x = bytes_of ws ! unat (x - b)" if "line_base k x = b"
    using view_cached [OF assms(2) u, of s x d ws] that assms(4) c(1) by simp
  show "bank_view k' m x = bank_view k m x" if b: "line_base k x \<noteq> b" and v: "victim k' = None" "victim k = None"
  proof (cases "holds_line k (line_base k x)")
    case True
    then obtain z d' w' where z: "slot_map k z = Some (line_base k x, d', w')" by (auto simp: holds_line_def)
    have "z \<noteq> s" using z b assms(8) held [OF z] by auto
    then have "slot_map k' z = Some (line_base k' x, d', w')" using z assms(4) c(1) by simp
    then show ?thesis using view_cached [OF assms(2) u] view_cached [OF assms(1,5) z] c(1) by simp
  next
    case False
    have "\<not> holds_line k' (line_base k' x)"
    proof
      assume "holds_line k' (line_base k' x)"
      then obtain z d' w' where "slot_map k' z = Some (line_base k x, d', w')"
        using c(1) by (auto simp: holds_line_def)
      then have "slot_map k z = Some (line_base k x, d', w')" using b assms(4) by (auto split: if_splits)
      then show False using False held by blast
    qed
    then show ?thesis using view_memory [OF assms(2)] view_memory [OF assms(1) False] v by simp
  qed
qed

text \<open>The installed line shows what the memory has.\<close>

lemma install_step:
  assumes "bank_ok k m" "cb_pending k = Some p" "lo_write_back p = None" "refill_for k a (lo_refill p)"
    and "caches_line_containing k a" "\<not> holds_line k (line_base k a)"
    and "slot_map k (set_of k a, rf_way_index (lo_refill p)) = None"
    and "shaped k'" "cb_config k' = cb_config k" "cb_pending k' = None"
    and "slot_map k' = (slot_map k)((set_of k a, rf_way_index (lo_refill p)) := Some (line_base k a, False, ws))"
    and "\<And>x. line_base k x = line_base k a \<Longrightarrow> bytes_of ws ! unat (x - line_base k a) = m x"
  shows "bank_ok k' m" "bank_view k' m x = bank_view k m x" "holds_line k' (line_base k a)"
proof -
  let ?s = "(set_of k a, rf_way_index (lo_refill p))"
  note ok = bank_ok_parts [OF assms(1)] and c = same_config [OF assms(9)]
  have cb: "caches_line k (line_base k a)" using assms(5) caches_line_base [OF ok(1)] by simp
  have fresh: "slot_map k ?s = None \<and> \<not> holds_line k (line_base k a) \<or>
      (\<exists>d ws. slot_map k ?s = Some (line_base k a, d, ws))"
    using assms(6,7) by simp
  note put = put_line [OF ok(1) assms(8,9,11) ok(2,3) cb fresh]
  have vic: "victim k' = None" "victim k = None" using assms(2,3,10) by (simp_all add: victim_def)
  have "clean_lines k' m"
    unfolding clean_lines_def
  proof (intro allI impI)
    fix z w x
    assume z: "slot_map k' z = Some (line_base k' x, False, w)"
    show "bytes_of w ! unat (x - line_base k' x) = m x"
    proof (cases "z = ?s")
      case True
      then show ?thesis using z assms(11,12) c(1) by simp
    next
      case False
      then show ?thesis using z assms(11) clean_line [OF ok(4)] c(1) by simp
    qed
  qed
  then show "bank_ok k' m" using put(1,2) assms(8-10) ok(5) by (simp add: bank_ok_def)
  show "bank_view k' m x = bank_view k m x"
  proof (cases "line_base k x = line_base k a")
    case True
    then have "\<not> holds_line k (line_base k x)" using assms(6) by simp
    from view_memory [OF ok(1) this] have "bank_view k m x = m x" using vic by simp
    then show ?thesis using put(3) [OF True] assms(12) [OF True] by simp
  qed (use put(4) vic in simp)
  show "holds_line k' (line_base k a)" using assms(11) held [of k' ?s "line_base k a" False ws] by simp
qed

text \<open>A store shows exactly its new words.\<close>

lemma store_step:
  assumes "bank_ok k m" "cb_pending k = None" "slot_map k s = Some (b, d, ws)"
    and "shaped k'" "cb_config k' = cb_config k" "cb_pending k' = None"
    and "slot_map k' = (slot_map k)(s := Some (b, True, ws'))"
  shows "bank_ok k' m"
    "bank_view k' m x = (if line_base k x = b then bytes_of ws' ! unat (x - b) else bank_view k m x)"
proof -
  note ok = bank_ok_parts [OF assms(1)] and c = same_config [OF assms(5)]
  have old: "slot_map k s = None \<and> \<not> holds_line k b \<or> (\<exists>d ws. slot_map k s = Some (b, d, ws))"
    using assms(3) by blast
  note put = put_line [OF ok(1) assms(4,5,7) ok(2,3) held_cacheable [OF ok(3) assms(3)] old]
  have "clean_lines k' m"
    unfolding clean_lines_def
  proof (intro allI impI)
    fix z w x
    assume "slot_map k' z = Some (line_base k' x, False, w)"
    then have "slot_map k z = Some (line_base k x, False, w)" using assms(7) c(1) by (auto split: if_splits)
    then show "bytes_of w ! unat (x - line_base k' x) = m x" using clean_line [OF ok(4)] c(1) by simp
  qed
  then show "bank_ok k' m" using put(1,2) assms(4-6) ok(5) by (simp add: bank_ok_def)
  have "victim k' = None" "victim k = None" using assms(2,6) by (simp_all add: victim_def)
  then show "bank_view k' m x = (if line_base k x = b then bytes_of ws' ! unat (x - b) else bank_view k m x)"
    using put(3,4) by simp
qed

text \<open>The bytes of an aligned word are in one line, one after the other.\<close>

lemma aligned_word:
  assumes "shaped k" "unat a mod 4 = 0" "j < 4"
  shows "line_base k (a + of_nat j) = line_base k a"
    "unat (a + of_nat j - line_base k a) = 4 * da_word_index (decode_address k a) + j"
proof -
  obtain n where g: "geometry k n" using shaped_geometry [OF assms(1)] by blast
  obtain m where m: "n = m + 2" using geometry_bounds [OF g] by (metis le_add_diff_inverse2)
  have n64: "(2 :: nat) ^ n < 2 ^ 64"
    using geometry_bounds [OF g] by (intro power_strict_increasing) simp_all
  let ?b = "line_base k a" and ?o = "unat a mod 2 ^ n"
  have o: "unat (a - ?b) = ?o" using unat_offset [OF g] .
  have four: "x = 4 * (x div 4)" if "x mod 4 = 0" for x :: nat using that by presburger
  have o4: "?o = 4 * (?o div 4)" using assms(2) m by (intro four) (simp add: mod_mod_cancel)
  have L: "(2 :: nat) ^ n = 4 * 2 ^ m" using m by simp
  have "?o < 4 * 2 ^ m" using L mod_less_divisor [of "2 ^ n" "unat a"] by simp
  then have "?o div 4 < 2 ^ m" using less_mult_imp_div_less [of ?o "2 ^ m" 4] by (simp add: mult.commute)
  then have "4 * (?o div 4) + 4 \<le> 4 * 2 ^ m" by linarith
  then have "?o + j < 4 * 2 ^ m" using o4 assms(3) by linarith
  then have lt: "?o + j < 2 ^ n" by (simp only: L)
  have "unat (a + of_nat j - ?b) = unat ((a - ?b) + of_nat j)" by (simp add: algebra_simps)
  also have "\<dots> = ?o + j"
    using o lt n64 assms(3) by (simp add: unat_word_ariths unat_of_nat)
  finally have u: "unat (a + of_nat j - ?b) = ?o + j" .
  then show "line_base k (a + of_nat j) = ?b"
    using line_span [OF assms(1) base_idem [OF g], of "a + of_nat j" a] lt geometry_words(2) [OF g] by simp
  show "unat (a + of_nat j - ?b) = 4 * da_word_index (decode_address k a) + j"
    using u o4 by (simp add: decode_address_fields [OF g])
qed

lemma word_bytes_at: "i < length ws \<Longrightarrow> le_bytes32 (ws ! i) = map (\<lambda>j. bytes_of ws ! (4 * i + j)) [0..<4]"
  by (rule nth_equalityI) (simp_all add: bytes_of_nth)

text \<open>The memory after a store.\<close>

definition after_store :: "store_op \<Rightarrow> (u64 \<Rightarrow> u8) \<Rightarrow> u64 \<Rightarrow> u8" where
  "after_store s m a =
     (if unat (a - so_addr s) < so_width s then le_bytes32 (so_value s) ! unat (a - so_addr s) else m a)"

lemma store_in_line:
  assumes "shaped k" "store_aligned s" "length ws = line_words k"
  shows "\<exists>ws'. apply_store s (line_base k (so_addr s)) ws = Some ws' \<and> length ws' = line_words k \<and>
    (\<forall>x. (if line_base k x = line_base k (so_addr s) then bytes_of ws' ! unat (x - line_base k (so_addr s)) else f x) =
      after_store s (\<lambda>x. if line_base k x = line_base k (so_addr s)
        then bytes_of ws ! unat (x - line_base k (so_addr s)) else f x) x)"
proof -
  let ?a = "so_addr s" and ?w = "so_width s" and ?B = "bytes_of ws"
  let ?b = "line_base k ?a" and ?V = "take (so_width s) (le_bytes32 (so_value s))"
  let ?off = "unat (?a - ?b)"
  obtain n where g: "geometry k n" using shaped_geometry [OF assms(1)] by blast
  have w: "?w \<le> 4" using assms(2) by (auto simp: store_aligned_def)
  have n64: "(2 :: nat) ^ n < 2 ^ 64"
    using geometry_bounds [OF g] by (intro power_strict_increasing) simp_all
  have fits: "?off div 4 < length ws" "?off mod 4 + ?w \<le> 4" using store_fits [OF g assms(2)] assms(3) by simp_all
  have "?off = 4 * (?off div 4) + ?off mod 4" by simp
  then have "?off + ?w \<le> 4 * length ws" using fits by linarith
  then have room: "?off + ?w \<le> 2 ^ n" "length ?B = 2 ^ n" using assms(3) geometry_words(2) [OF g] by simp_all
  obtain ws' where ws': "apply_store s ?b ws = Some ws'" "length ws' = length ws"
      "bytes_of ws' = take ?off ?B @ ?V @ drop (?off + ?w) ?B"
    using apply_store_bytes [OF fits] by blast
  have at: "(if line_base k x = ?b then bytes_of ws' ! unat (x - ?b) else f x) =
      after_store s (\<lambda>x. if line_base k x = ?b then ?B ! unat (x - ?b) else f x) x" for x
  proof -
    let ?p = "unat (x - ?b)"
    have span: "?p < 2 ^ n \<longleftrightarrow> line_base k x = ?b"
      using line_span [OF assms(1) base_idem [OF g], of x ?a] geometry_words(2) [OF g] by simp
    have "x - ?a = (x - ?b) - (?a - ?b)" by simp
    then have d: "unat (x - ?a) = (if ?off \<le> ?p then ?p - ?off else ?p + 2 ^ 64 - ?off)"
      by (simp only: unat_sub_if_size word_size) simp
    have inside: "unat (x - ?a) < ?w \<longleftrightarrow> ?off \<le> ?p \<and> ?p < ?off + ?w"
      using d room(1) n64 by (auto split: if_splits)
    show ?thesis
    proof (cases "line_base k x = ?b")
      case True
      then have p: "?p < 2 ^ n" using span by simp
      have "bytes_of ws' ! ?p = (if ?off \<le> ?p \<and> ?p < ?off + ?w then ?V ! (?p - ?off) else ?B ! ?p)"
        using p room w by (auto simp: ws'(3) nth_append min_def)
      then show ?thesis using True inside d by (auto simp: after_store_def)
    next
      case False
      then have "\<not> ?p < ?off + ?w" using span room(1) by linarith
      then show ?thesis using False inside by (simp add: after_store_def)
    qed
  qed
  then show ?thesis using ws'(1,2) assms(3) by auto
qed

text \<open>An address whose line is cacheable is cacheable.\<close>

lemma cacheable_address:
  assumes "shaped k" "caches_line_containing k a"
  shows "caches_address k a"
proof -
  obtain n where g: "geometry k n" using shaped_geometry [OF assms(1)] by blast
  have n: "n < 64" using geometry_bounds [OF g] by simp
  let ?b = "line_base k a"
  have L: "(of_nat (line_size (cb_config k)) :: u64) = 2 ^ n" using geometry_size [OF g] .
  obtain r where r: "unat ?b + 2 ^ n < 2 ^ 64" "r \<in> set (cached_ranges (cb_config k))"
      "range_start r \<le> ?b" "?b + 2 ^ n \<le> range_end r"
    using assms(2) L unat_two_power [OF n]
    by (auto simp: caches_line_containing_def caches_line_def checked_add_def split: if_splits)
  have "unat (?b + 2 ^ n) = unat ?b + 2 ^ n" using r(1) unat_two_power [OF n] by (simp add: unat_word_ariths)
  moreover have "unat ?b \<le> unat a" "unat a < unat ?b + 2 ^ n"
    using unat_base [OF g, of a] by simp_all (metis add.commute div_mod_decomp mod_less_divisor nat_add_left_cancel_less
        zero_less_numeral zero_less_power)
  ultimately have "range_contains r a"
    using r(3,4) by (simp add: range_contains_def word_le_nat_alt word_less_nat_alt)
  then show ?thesis using r(2) by (auto simp: caches_address_def config_caches_address_def)
qed

end
