(* ===== verification/Cache.thy ===== *)
theory Cache
  imports Cache_Bank
begin

text \<open>
  The two cache wrappers of \<open>crates/system/src/cache.rs\<close>: \<open>DirectMappedCache\<close>, a unified cache that
  also serves bursts to a cache above it, and \<open>SplitL1Cache\<close>, with a bank for instructions and one
  for data. The trait \<open>CacheMaintenance\<close> is the record \<open>maintenance_ops\<close>.
\<close>

record 'b maintenance_ops =
  mt_write_back_range :: "u64 \<Rightarrow> u64 \<Rightarrow> ('b, unit) bus_call"
  mt_invalidate_range :: "u64 \<Rightarrow> u64 \<Rightarrow> ('b, unit) bus_call"

definition write_back_invalidate_range ::
  "('b, 'z) maintenance_ops_scheme \<Rightarrow> u64 \<Rightarrow> u64 \<Rightarrow> ('b, unit) bus_call" where
  "write_back_invalidate_range mt start len b =
     and_then (mt_write_back_range mt start len b) (\<lambda>_. mt_invalidate_range mt start len)"

datatype maintenance_kind = MaintainWriteBack | MaintainInvalidate

record maintenance_request =
  mr_start :: u64
  mr_len :: u64
  mr_kind :: maintenance_kind

datatype maintenance_stage = StageWriteBack pending_bank_write_back | StageInner

record pending_maintenance =
  pm_request :: maintenance_request
  pm_stage :: maintenance_stage

text \<open>The stage \<open>Inner\<close>: the request goes to the level below.\<close>

definition maintain_inner ::
  "('b, 'z) maintenance_ops_scheme \<Rightarrow> maintenance_request \<Rightarrow> ('b, unit) bus_call" where
  "maintain_inner mt r =
     (case mr_kind r of
        MaintainWriteBack \<Rightarrow> mt_write_back_range mt (mr_start r) (mr_len r)
      | MaintainInvalidate \<Rightarrow> mt_invalidate_range mt (mr_start r) (mr_len r))"

subsection \<open>Parts of a word\<close>

definition extract_byte :: "u32 \<Rightarrow> u64 \<Rightarrow> u8 option" where
  "extract_byte w a = idx (le_bytes32 w) (unat (a AND 3))"

definition extract_half :: "u32 \<Rightarrow> u64 \<Rightarrow> u16 option" where
  "extract_half w a =
     (let off = unat (a AND 3) in
      Option.bind (idx (le_bytes32 w) off) (\<lambda>b0.
        map_option (\<lambda>b1. from_le16 b0 b1) (idx (le_bytes32 w) (off + 1))))"

definition part_of_word :: "(u32 \<Rightarrow> 'r option) \<Rightarrow> u32 \<Rightarrow> ('s, 'r) bus_call" where
  "part_of_word f w s = map_option (\<lambda>r. (Inr r, s)) (f w)"

definition load_cached_byte :: "('b, 'z) burst_ops_scheme \<Rightarrow> u64 \<Rightarrow> ('b, u8) bank_call" where
  "load_cached_byte ops a st =
     and_then (load_word ops (a AND NOT 3) RefillLoad st) (part_of_word (\<lambda>w. extract_byte w a))"

definition load_cached_half :: "('b, 'z) burst_ops_scheme \<Rightarrow> u64 \<Rightarrow> ('b, u16) bank_call" where
  "load_cached_half ops a st =
     and_then (load_word ops (a AND NOT 3) RefillLoad st) (part_of_word (\<lambda>w. extract_half w a))"

definition misaligned_or :: "u64 \<Rightarrow> nat \<Rightarrow> ('s, 'r) bus_call \<Rightarrow> ('s, 'r) bus_call" where
  "misaligned_or a w f s = (if a mod of_nat w \<noteq> 0 then Some (Inl (MisalignedAccess a w), s) else f s)"

text \<open>A read through a bank: uncached addresses go to the bus below, the others to the bank.\<close>

definition read_through ::
  "bool \<Rightarrow> ('b, 'r) bus_call \<Rightarrow> ('b, 'r) bank_call \<Rightarrow> ('b, 'r) bank_call" where
  "read_through cached bypass hit st =
     (if cached then hit st
      else (case st of (k, b) \<Rightarrow> map_option (\<lambda>(r, b). (r, (note_bypassed_read k, b))) (bypass b)))"

definition cached_at :: "cache_bank \<Rightarrow> u64 \<Rightarrow> bool" where
  "cached_at k a \<longleftrightarrow> caches_address k a \<and> caches_line_containing k a"

definition cached_half :: "cache_bank \<Rightarrow> u64 \<Rightarrow> bool" where
  "cached_half k a \<longleftrightarrow> caches_address k a \<and> caches_address k (a + 1) \<and> caches_line_containing k a"

definition bank_fetch32 :: "('b, 'z) burst_ops_scheme \<Rightarrow> u64 \<Rightarrow> ('b, u32) bank_call" where
  "bank_fetch32 ops a = misaligned_or a 4 (\<lambda>st.
     read_through (cached_at (fst st) a) (bus_fetch32 ops a) (load_word ops a RefillFetch) st)"

definition bank_load8 :: "('b, 'z) burst_ops_scheme \<Rightarrow> u64 \<Rightarrow> ('b, u8) bank_call" where
  "bank_load8 ops a = (\<lambda>st.
     read_through (cached_at (fst st) a) (bus_load8 ops a) (load_cached_byte ops a) st)"

definition bank_load16 :: "('b, 'z) burst_ops_scheme \<Rightarrow> u64 \<Rightarrow> ('b, u16) bank_call" where
  "bank_load16 ops a = misaligned_or a 2 (\<lambda>st.
     read_through (cached_half (fst st) a) (bus_load16 ops a) (load_cached_half ops a) st)"

definition bank_load32 :: "('b, 'z) burst_ops_scheme \<Rightarrow> u64 \<Rightarrow> ('b, u32) bank_call" where
  "bank_load32 ops a = misaligned_or a 4 (\<lambda>st.
     read_through (cached_at (fst st) a) (bus_load32 ops a) (load_word ops a RefillLoad) st)"

definition bank_store8 :: "('b, 'z) burst_ops_scheme \<Rightarrow> u64 \<Rightarrow> u8 \<Rightarrow> ('b, unit) bank_call" where
  "bank_store8 ops a v = bank_store ops \<lparr>so_addr = a, so_width = 1, so_value = ucast v\<rparr>"

definition bank_store16 :: "('b, 'z) burst_ops_scheme \<Rightarrow> u64 \<Rightarrow> u16 \<Rightarrow> ('b, unit) bank_call" where
  "bank_store16 ops a v = misaligned_or a 2 (bank_store ops \<lparr>so_addr = a, so_width = 2, so_value = ucast v\<rparr>)"

definition bank_store32 :: "('b, 'z) burst_ops_scheme \<Rightarrow> u64 \<Rightarrow> u32 \<Rightarrow> ('b, unit) bank_call" where
  "bank_store32 ops a v = misaligned_or a 4 (bank_store ops \<lparr>so_addr = a, so_width = 4, so_value = v\<rparr>)"

subsection \<open>The unified cache\<close>

record active_cache_burst =
  cu_id :: u64
  cu_request :: burst_request
  cu_beat_index :: nat
  cu_read_words :: "u32 list"
  cu_phase :: burst_phase

record 'b unified_cache =
  uc_inner :: 'b
  uc_bank :: cache_bank
  uc_active_burst :: "active_cache_burst option"
  uc_next_burst_id :: u64
  uc_maintenance :: "pending_maintenance option"

definition unified_cache_new :: "'b \<Rightarrow> cache_config \<Rightarrow> 'b unified_cache" where
  "unified_cache_new inner c =
     \<lparr>uc_inner = inner, uc_bank = cache_bank_new c, uc_active_burst = None, uc_next_burst_id = 0,
      uc_maintenance = None\<rparr>"

definition uc_on_bank :: "(cache_bank \<times> 'b \<Rightarrow> ('r, cache_bank \<times> 'b) outcome) \<Rightarrow>
   'b unified_cache \<Rightarrow> ('r, 'b unified_cache) outcome" where
  "uc_on_bank f c = map_option (\<lambda>(r, (k, b)). (r, c\<lparr>uc_bank := k, uc_inner := b\<rparr>)) (f (uc_bank c, uc_inner c))"

definition uc_on_inner :: "('b \<Rightarrow> ('r, 'b) outcome) \<Rightarrow> 'b unified_cache \<Rightarrow> ('r, 'b unified_cache) outcome" where
  "uc_on_inner f c = map_option (\<lambda>(r, b). (r, c\<lparr>uc_inner := b\<rparr>)) (f (uc_inner c))"

definition active_burst_remaining_cycles :: "'b unified_cache \<Rightarrow> u32" where
  "active_burst_remaining_cycles c =
     (case uc_active_burst c of
        None \<Rightarrow> 0
      | Some a \<Rightarrow> (case cu_phase a of BuInFlight _ _ n \<Rightarrow> n | _ \<Rightarrow> 1))"

definition uc_is_busy :: "('b, 'z) bus_ops_scheme \<Rightarrow> 'b unified_cache \<Rightarrow> bool" where
  "uc_is_busy ops c \<longleftrightarrow> uc_maintenance c \<noteq> None \<or> uc_active_burst c \<noteq> None \<or>
     has_pending_activity (uc_bank c) \<or> bus_is_busy ops (uc_inner c)"

definition busy_remaining_cycles :: "('b, 'z) bus_ops_scheme \<Rightarrow> 'b unified_cache \<Rightarrow> u32" where
  "busy_remaining_cycles ops c =
     (let n = active_burst_remaining_cycles c in
      if n \<noteq> 0 then n
      else if uc_maintenance c \<noteq> None \<or> has_pending_activity (uc_bank c) \<or> bus_is_busy ops (uc_inner c)
      then 1 else 0)"

definition uc_busy :: "('b, 'z) bus_ops_scheme \<Rightarrow> 'b unified_cache \<Rightarrow> bus_error" where
  "uc_busy ops c = Busy (max (busy_remaining_cycles ops c) 1)"

text \<open>Every access is refused while a maintenance request is pending.\<close>

definition uc_access ::
  "('b, 'z) bus_ops_scheme \<Rightarrow> ('b, 'r) bank_call \<Rightarrow> ('b unified_cache, 'r) bus_call" where
  "uc_access ops f c =
     (if uc_maintenance c \<noteq> None then Some (Inl (uc_busy ops c), c) else uc_on_bank f c)"

definition uc_fetch32 where "uc_fetch32 ops a = uc_access ops (bank_fetch32 ops a)"
definition uc_load8 where "uc_load8 ops a = uc_access ops (bank_load8 ops a)"
definition uc_load16 where "uc_load16 ops a = uc_access ops (bank_load16 ops a)"
definition uc_load32 where "uc_load32 ops a = uc_access ops (bank_load32 ops a)"
definition uc_store8 where "uc_store8 ops a v = uc_access ops (bank_store8 ops a v)"
definition uc_store16 where "uc_store16 ops a v = uc_access ops (bank_store16 ops a v)"
definition uc_store32 where "uc_store32 ops a v = uc_access ops (bank_store32 ops a v)"

definition uc_reset :: "('b, 'z) bus_ops_scheme \<Rightarrow> 'b unified_cache \<Rightarrow> (unit, 'b unified_cache) outcome" where
  "uc_reset ops c =
     uc_on_inner (bus_reset ops) (c\<lparr>uc_bank := cache_bank_reset (uc_bank c), uc_active_burst := None,
       uc_next_burst_id := 0, uc_maintenance := None\<rparr>)"

subsection \<open>Bursts served by the unified cache\<close>

definition uc_execute_burst_beat ::
  "('b, 'z) burst_ops_scheme \<Rightarrow> burst_request \<Rightarrow> nat \<Rightarrow> ('b unified_cache, u32 option) bus_call" where
  "uc_execute_burst_beat ops r beat c =
     (let a = beat_addr r beat in
      case r of
        BurstRead _ _ kind \<Rightarrow>
          (case kind of
             Fetch \<Rightarrow> and_then (uc_fetch32 ops a c) (\<lambda>w c. Some (Inr (Some w), c))
           | LoadAccess \<Rightarrow> and_then (uc_load32 ops a c) (\<lambda>w c. Some (Inr (Some w), c))
           | StoreAccess \<Rightarrow> None)
      | BurstWrite _ ws \<Rightarrow>
          (case idx ws beat of
             None \<Rightarrow> None
           | Some w \<Rightarrow> and_then (uc_store32 ops a w c) (\<lambda>_ c. Some (Inr None, c))))"

definition complete_cache_beat :: "u32 option \<Rightarrow> nat \<Rightarrow> active_cache_burst \<Rightarrow> active_cache_burst option" where
  "complete_cache_beat w beat a =
     (let total = beats (cu_request a); next = beat + 1 in
      map_option (\<lambda>ws. a\<lparr>cu_read_words := ws, cu_beat_index := next,
          cu_phase := (if next = total then BuReady total else BuAccepted next total)\<rparr>)
        (case w of None \<Rightarrow> Some (cu_read_words a) | Some v \<Rightarrow> idx_set (cu_read_words a) beat v))"

definition advance_active_burst ::
  "('b, 'z) burst_ops_scheme \<Rightarrow> 'b unified_cache \<Rightarrow> 'b unified_cache option" where
  "advance_active_burst ops c =
     (case uc_active_burst c of
        None \<Rightarrow> Some c
      | Some a \<Rightarrow>
          (let r = cu_request a; beat = cu_beat_index a;
               run = (case uc_execute_burst_beat ops r beat c of
                   None \<Rightarrow> None
                 | Some (res, c) \<Rightarrow>
                     (case uc_active_burst c of
                        None \<Rightarrow> Some c
                      | Some a \<Rightarrow>
                          map_option (\<lambda>a. c\<lparr>uc_active_burst := Some a\<rparr>)
                            (case res of
                               Inr w \<Rightarrow> complete_cache_beat w beat a
                             | Inl (Busy n) \<Rightarrow> Some (a\<lparr>cu_phase := BuInFlight beat (beats r) n\<rparr>)
                             | Inl e \<Rightarrow> Some (a\<lparr>cu_phase := BuFailed e\<rparr>))))
           in case cu_phase a of
                BuReady _ \<Rightarrow> Some c
              | BuFailed _ \<Rightarrow> Some c
              | BuAccepted _ _ \<Rightarrow> run
              | BuInFlight _ _ _ \<Rightarrow> run))"

definition uc_tick :: "('b, 'z) burst_ops_scheme \<Rightarrow> 'b unified_cache \<Rightarrow> (unit, 'b unified_cache) outcome" where
  "uc_tick ops c =
     (case uc_on_inner (bus_tick ops) c of
        None \<Rightarrow> None
      | Some (_, c) \<Rightarrow> map_option (\<lambda>c. ((), c)) (advance_active_burst ops c))"

definition uc_submit_burst ::
  "('b, 'z) bus_ops_scheme \<Rightarrow> burst_request \<Rightarrow> ('b unified_cache, u64) bus_call" where
  "uc_submit_burst ops r c =
     (if uc_is_busy ops c then Some (Inl (uc_busy ops c), c)
      else if beats r = 0 then None
      else
        (let i = uc_next_burst_id c in
         Some (Inr i, c\<lparr>uc_next_burst_id := i + 1,
           uc_active_burst := Some \<lparr>cu_id = i, cu_request = r, cu_beat_index = 0,
             cu_read_words = replicate (beats r) 0, cu_phase = BuAccepted 0 (beats r)\<rparr>\<rparr>)))"

definition uc_burst_phase :: "'b unified_cache \<Rightarrow> u64 \<Rightarrow> burst_phase option" where
  "uc_burst_phase c i =
     (case uc_active_burst c of
        None \<Rightarrow> None
      | Some a \<Rightarrow> if cu_id a = i then Some (cu_phase a) else None)"

definition uc_advance_burst ::
  "('b, 'z) burst_ops_scheme \<Rightarrow> u64 \<Rightarrow> 'b unified_cache \<Rightarrow> (burst_phase option, 'b unified_cache) outcome" where
  "uc_advance_burst ops i c =
     (if uc_burst_phase c i = None then Some (None, c)
      else map_option (\<lambda>c. (uc_burst_phase c i, c)) (advance_active_burst ops c))"

definition uc_take_burst_response ::
  "u64 \<Rightarrow> 'b unified_cache \<Rightarrow> ((bus_error + burst_response) option, 'b unified_cache) outcome" where
  "uc_take_burst_response i c =
     (case uc_active_burst c of
        None \<Rightarrow> Some (None, c)
      | Some a \<Rightarrow>
          if cu_id a \<noteq> i then Some (None, c)
          else
            (case cu_phase a of
               BuAccepted _ _ \<Rightarrow> Some (None, c)
             | BuInFlight _ _ _ \<Rightarrow> Some (None, c)
             | BuReady n \<Rightarrow>
                 Some (Some (Inr (case cu_request a of
                     BurstRead _ _ _ \<Rightarrow> BurstWords (cu_read_words a)
                   | BurstWrite _ _ \<Rightarrow> BurstWritten n)), c\<lparr>uc_active_burst := None\<rparr>)
             | BuFailed e \<Rightarrow> Some (Some (Inl e), c\<lparr>uc_active_burst := None\<rparr>)))"

definition uc_ops :: "('b, 'z) burst_ops_scheme \<Rightarrow> 'b unified_cache burst_ops" where
  "uc_ops ops =
     \<lparr>bus_load8 = uc_load8 ops, bus_store8 = uc_store8 ops, bus_fetch32 = uc_fetch32 ops,
      bus_load16 = uc_load16 ops, bus_load32 = uc_load32 ops, bus_store16 = uc_store16 ops,
      bus_store32 = uc_store32 ops, bus_reset = uc_reset ops, bus_tick = uc_tick ops,
      bus_machine_time = (\<lambda>c. bus_machine_time ops (uc_inner c)), bus_is_busy = uc_is_busy ops,
      bus_pending_interrupts = (\<lambda>c. bus_pending_interrupts ops (uc_inner c)),
      bus_submit_burst = uc_submit_burst ops, bus_burst_phase = uc_burst_phase,
      bus_advance_burst = uc_advance_burst ops, bus_take_burst_response = uc_take_burst_response\<rparr>"

subsection \<open>Maintenance of the unified cache\<close>

text \<open>
  The loop of \<open>continue_maintenance\<close> runs the stage \<open>LocalWriteBack\<close> at most once and then the stage
  \<open>Inner\<close>. The request was taken out of the cache; it is put back when it has to be repeated.
\<close>

definition uc_maintain_inner ::
  "('b, 'y) maintenance_ops_scheme \<Rightarrow> maintenance_request \<Rightarrow> ('b unified_cache, unit) bus_call" where
  "uc_maintain_inner mt r c =
     (case uc_on_inner (maintain_inner mt r) c of
        None \<Rightarrow> None
      | Some (Inl (Busy n), c) \<Rightarrow>
          Some (Inl (Busy n), c\<lparr>uc_maintenance := Some \<lparr>pm_request = r, pm_stage = StageInner\<rparr>\<rparr>)
      | Some (res, c) \<Rightarrow> Some (res, c))"

definition uc_continue_maintenance ::
  "('b, 'z) burst_ops_scheme \<Rightarrow> ('b, 'y) maintenance_ops_scheme \<Rightarrow> ('b unified_cache, unit) bus_call" where
  "uc_continue_maintenance ops mt c =
     (case uc_maintenance c of
        None \<Rightarrow> Some (Inr (), c)
      | Some p \<Rightarrow>
          (let c = c\<lparr>uc_maintenance := None\<rparr> in
           case pm_stage p of
             StageInner \<Rightarrow> uc_maintain_inner mt (pm_request p) c
           | StageWriteBack w \<Rightarrow>
               (case write_back_loop ops w (uc_bank c, uc_inner c) of
                  None \<Rightarrow> None
                | Some (res, w, (k, b)) \<Rightarrow>
                    (let c = c\<lparr>uc_bank := k, uc_inner := b\<rparr> in
                     case res of
                       Inr _ \<Rightarrow> uc_maintain_inner mt (pm_request p) c
                     | Inl e \<Rightarrow>
                         Some (Inl e, c\<lparr>uc_maintenance := Some (p\<lparr>pm_stage := StageWriteBack w\<rparr>)\<rparr>)))))"

definition uc_ensure_maintenance_request ::
  "('b, 'z) bus_ops_scheme \<Rightarrow> maintenance_request \<Rightarrow> ('b unified_cache, unit) bus_call" where
  "uc_ensure_maintenance_request ops r c =
     (case uc_maintenance c of
        Some p \<Rightarrow> if pm_request p = r then Some (Inr (), c) else Some (Inl (uc_busy ops c), c)
      | None \<Rightarrow>
          if uc_active_burst c \<noteq> None \<or> has_pending_activity (uc_bank c)
          then Some (Inl (uc_busy ops c), c)
          else
            (case mr_kind r of
               MaintainWriteBack \<Rightarrow>
                 map_option (\<lambda>bases. (Inr (), c\<lparr>uc_maintenance := Some \<lparr>pm_request = r,
                     pm_stage = StageWriteBack (pending_bank_write_back_new bases)\<rparr>\<rparr>))
                   (line_bases_for_range (uc_bank c) (mr_start r) (mr_len r))
             | MaintainInvalidate \<Rightarrow>
                 map_option (\<lambda>k. (Inr (), c\<lparr>uc_bank := k,
                     uc_maintenance := Some \<lparr>pm_request = r, pm_stage = StageInner\<rparr>\<rparr>))
                   (bank_invalidate_range (mr_start r) (mr_len r) (uc_bank c))))"

definition uc_maintain ::
  "('b, 'z) burst_ops_scheme \<Rightarrow> ('b, 'y) maintenance_ops_scheme \<Rightarrow> maintenance_kind \<Rightarrow>
   u64 \<Rightarrow> u64 \<Rightarrow> ('b unified_cache, unit) bus_call" where
  "uc_maintain ops mt kind start len c =
     and_then (uc_ensure_maintenance_request ops \<lparr>mr_start = start, mr_len = len, mr_kind = kind\<rparr> c)
       (\<lambda>_. uc_continue_maintenance ops mt)"

definition uc_maintenance_ops ::
  "('b, 'z) burst_ops_scheme \<Rightarrow> ('b, 'y) maintenance_ops_scheme \<Rightarrow> 'b unified_cache maintenance_ops" where
  "uc_maintenance_ops ops mt =
     \<lparr>mt_write_back_range = uc_maintain ops mt MaintainWriteBack,
      mt_invalidate_range = uc_maintain ops mt MaintainInvalidate\<rparr>"

subsection \<open>The split cache\<close>

record 'b split_cache =
  sc_inner :: 'b
  sc_instruction :: cache_bank
  sc_data :: cache_bank
  sc_maintenance :: "pending_maintenance option"

definition split_cache_new :: "'b \<Rightarrow> cache_config \<Rightarrow> cache_config \<Rightarrow> 'b split_cache" where
  "split_cache_new inner instruction data =
     \<lparr>sc_inner = inner, sc_instruction = cache_bank_new instruction, sc_data = cache_bank_new data,
      sc_maintenance = None\<rparr>"

definition sc_on_inner :: "('b \<Rightarrow> ('r, 'b) outcome) \<Rightarrow> 'b split_cache \<Rightarrow> ('r, 'b split_cache) outcome" where
  "sc_on_inner f c = map_option (\<lambda>(r, b). (r, c\<lparr>sc_inner := b\<rparr>)) (f (sc_inner c))"

definition sc_on_instruction :: "('b, 'r) bank_call \<Rightarrow> ('b split_cache, 'r) bus_call" where
  "sc_on_instruction f c =
     map_option (\<lambda>(r, (k, b)). (r, c\<lparr>sc_instruction := k, sc_inner := b\<rparr>)) (f (sc_instruction c, sc_inner c))"

definition sc_on_data :: "('b, 'r) bank_call \<Rightarrow> ('b split_cache, 'r) bus_call" where
  "sc_on_data f c =
     map_option (\<lambda>(r, (k, b)). (r, c\<lparr>sc_data := k, sc_inner := b\<rparr>)) (f (sc_data c, sc_inner c))"

definition sc_access :: "('b split_cache, 'r) bus_call \<Rightarrow> ('b split_cache, 'r) bus_call" where
  "sc_access f c = (if sc_maintenance c \<noteq> None then Some (Inl (Busy 1), c) else f c)"

text \<open>A store goes to the data bank; when it is done, the instruction bank drops its line.\<close>

definition sc_store :: "u64 \<Rightarrow> ('b, unit) bank_call \<Rightarrow> ('b split_cache, unit) bus_call" where
  "sc_store a f c =
     and_then (sc_on_data f c) (\<lambda>_ c.
       map_option (\<lambda>k. (Inr (), c\<lparr>sc_instruction := k\<rparr>)) (invalidate_line a (sc_instruction c)))"

definition sc_fetch32 where "sc_fetch32 ops a = sc_access (sc_on_instruction (bank_fetch32 ops a))"
definition sc_load8 where "sc_load8 ops a = sc_access (sc_on_data (bank_load8 ops a))"
definition sc_load16 where "sc_load16 ops a = sc_access (sc_on_data (bank_load16 ops a))"
definition sc_load32 where "sc_load32 ops a = sc_access (sc_on_data (bank_load32 ops a))"
definition sc_store8 where "sc_store8 ops a v = sc_access (sc_store a (bank_store8 ops a v))"
definition sc_store16 where "sc_store16 ops a v = sc_access (sc_store a (bank_store16 ops a v))"
definition sc_store32 where "sc_store32 ops a v = sc_access (sc_store a (bank_store32 ops a v))"

definition sc_reset :: "('b, 'z) bus_ops_scheme \<Rightarrow> 'b split_cache \<Rightarrow> (unit, 'b split_cache) outcome" where
  "sc_reset ops c =
     sc_on_inner (bus_reset ops) (c\<lparr>sc_instruction := cache_bank_reset (sc_instruction c),
       sc_data := cache_bank_reset (sc_data c), sc_maintenance := None\<rparr>)"

definition sc_is_busy :: "('b, 'z) bus_ops_scheme \<Rightarrow> 'b split_cache \<Rightarrow> bool" where
  "sc_is_busy ops c \<longleftrightarrow> sc_maintenance c \<noteq> None \<or> has_pending_activity (sc_instruction c) \<or>
     has_pending_activity (sc_data c) \<or> bus_is_busy ops (sc_inner c)"

definition maintenance_busy_cycles :: "('b, 'z) bus_ops_scheme \<Rightarrow> 'b split_cache \<Rightarrow> u32" where
  "maintenance_busy_cycles ops c = (if sc_is_busy ops c then 1 else 0)"

definition sc_busy :: "('b, 'z) bus_ops_scheme \<Rightarrow> 'b split_cache \<Rightarrow> bus_error" where
  "sc_busy ops c = Busy (max (maintenance_busy_cycles ops c) 1)"

definition sc_ops :: "('b, 'z) burst_ops_scheme \<Rightarrow> 'b split_cache bus_ops" where
  "sc_ops ops =
     \<lparr>bus_load8 = sc_load8 ops, bus_store8 = sc_store8 ops, bus_fetch32 = sc_fetch32 ops,
      bus_load16 = sc_load16 ops, bus_load32 = sc_load32 ops, bus_store16 = sc_store16 ops,
      bus_store32 = sc_store32 ops, bus_reset = sc_reset ops, bus_tick = sc_on_inner (bus_tick ops),
      bus_machine_time = (\<lambda>c. bus_machine_time ops (sc_inner c)), bus_is_busy = sc_is_busy ops,
      bus_pending_interrupts = (\<lambda>c. bus_pending_interrupts ops (sc_inner c))\<rparr>"

definition sc_maintain_inner ::
  "('b, 'y) maintenance_ops_scheme \<Rightarrow> maintenance_request \<Rightarrow> ('b split_cache, unit) bus_call" where
  "sc_maintain_inner mt r c =
     (case sc_on_inner (maintain_inner mt r) c of
        None \<Rightarrow> None
      | Some (Inl (Busy n), c) \<Rightarrow>
          Some (Inl (Busy n), c\<lparr>sc_maintenance := Some \<lparr>pm_request = r, pm_stage = StageInner\<rparr>\<rparr>)
      | Some (res, c) \<Rightarrow> Some (res, c))"

definition sc_continue_maintenance ::
  "('b, 'z) burst_ops_scheme \<Rightarrow> ('b, 'y) maintenance_ops_scheme \<Rightarrow> ('b split_cache, unit) bus_call" where
  "sc_continue_maintenance ops mt c =
     (case sc_maintenance c of
        None \<Rightarrow> Some (Inr (), c)
      | Some p \<Rightarrow>
          (let c = c\<lparr>sc_maintenance := None\<rparr> in
           case pm_stage p of
             StageInner \<Rightarrow> sc_maintain_inner mt (pm_request p) c
           | StageWriteBack w \<Rightarrow>
               (case write_back_loop ops w (sc_data c, sc_inner c) of
                  None \<Rightarrow> None
                | Some (res, w, (k, b)) \<Rightarrow>
                    (let c = c\<lparr>sc_data := k, sc_inner := b\<rparr> in
                     case res of
                       Inr _ \<Rightarrow> sc_maintain_inner mt (pm_request p) c
                     | Inl e \<Rightarrow>
                         Some (Inl e, c\<lparr>sc_maintenance := Some (p\<lparr>pm_stage := StageWriteBack w\<rparr>)\<rparr>)))))"

definition sc_ensure_maintenance_request ::
  "('b, 'z) bus_ops_scheme \<Rightarrow> maintenance_request \<Rightarrow> ('b split_cache, unit) bus_call" where
  "sc_ensure_maintenance_request ops r c =
     (case sc_maintenance c of
        Some p \<Rightarrow> if pm_request p = r then Some (Inr (), c) else Some (Inl (sc_busy ops c), c)
      | None \<Rightarrow>
          if has_pending_activity (sc_instruction c) \<or> has_pending_activity (sc_data c)
          then Some (Inl (sc_busy ops c), c)
          else
            (case mr_kind r of
               MaintainWriteBack \<Rightarrow>
                 map_option (\<lambda>bases. (Inr (), c\<lparr>sc_maintenance := Some \<lparr>pm_request = r,
                     pm_stage = StageWriteBack (pending_bank_write_back_new bases)\<rparr>\<rparr>))
                   (line_bases_for_range (sc_data c) (mr_start r) (mr_len r))
             | MaintainInvalidate \<Rightarrow>
                 Option.bind (bank_invalidate_range (mr_start r) (mr_len r) (sc_data c)) (\<lambda>d.
                   map_option (\<lambda>i. (Inr (), c\<lparr>sc_data := d, sc_instruction := i,
                       sc_maintenance := Some \<lparr>pm_request = r, pm_stage = StageInner\<rparr>\<rparr>))
                     (bank_invalidate_range (mr_start r) (mr_len r) (sc_instruction c)))))"

definition sc_maintain ::
  "('b, 'z) burst_ops_scheme \<Rightarrow> ('b, 'y) maintenance_ops_scheme \<Rightarrow> maintenance_kind \<Rightarrow>
   u64 \<Rightarrow> u64 \<Rightarrow> ('b split_cache, unit) bus_call" where
  "sc_maintain ops mt kind start len c =
     and_then (sc_ensure_maintenance_request ops \<lparr>mr_start = start, mr_len = len, mr_kind = kind\<rparr> c)
       (\<lambda>_. sc_continue_maintenance ops mt)"

definition sc_maintenance_ops ::
  "('b, 'z) burst_ops_scheme \<Rightarrow> ('b, 'y) maintenance_ops_scheme \<Rightarrow> 'b split_cache maintenance_ops" where
  "sc_maintenance_ops ops mt =
     \<lparr>mt_write_back_range = sc_maintain ops mt MaintainWriteBack,
      mt_invalidate_range = sc_maintain ops mt MaintainInvalidate\<rparr>"

end
