(* ===== verification/Cache_Coherence.thy ===== *)
theory Cache_Coherence
  imports Cache_View Cache
begin

text \<open>
  A write-back, write-allocate bank in front of a memory is transparent. The locale
  \<open>cacheable_bus\<close> is what a bank relies on: the bytes \<open>peek b\<close> of the addresses it may cache change
  only through its own bursts, a read burst returns them, a write burst sets them, and the bank has
  at most one burst open. The lemmas of \<open>Cache_View\<close> then carry over to the calls of the bank.
\<close>

subsection \<open>The contract of the bus below a bank\<close>

type_synonym open_burst = "(u64 \<times> burst_request) option"

definition covers :: "burst_request \<Rightarrow> u64 \<Rightarrow> bool" where
  "covers r a \<longleftrightarrow> unat (a - base_addr r) < 4 * beats r"

fun open_write :: "open_burst \<Rightarrow> u64 \<Rightarrow> bool" where
  "open_write (Some (i, BurstWrite base ws)) a \<longleftrightarrow> covers (BurstWrite base ws) a"
| "open_write _ a \<longleftrightarrow> False"

text \<open>
  A burst of bytes that may be cached: aligned words of the region. The words that a read asks for
  are fetched or loaded.
\<close>

fun reads_words :: "burst_request \<Rightarrow> bool" where
  "reads_words (BurstRead _ _ kind) \<longleftrightarrow> kind \<noteq> StoreAccess"
| "reads_words (BurstWrite _ _) \<longleftrightarrow> True"

definition region_burst :: "(u64 \<Rightarrow> bool) \<Rightarrow> burst_request \<Rightarrow> bool" where
  "region_burst region r \<longleftrightarrow> 0 < beats r \<and> 4 * beats r < 2 ^ 64 \<and> unat (base_addr r) mod 4 = 0 \<and>
     reads_words r \<and> (\<forall>a. covers r a \<longrightarrow> region a)"

text \<open>A completed burst: its response and the memory after it.\<close>

definition burst_effect ::
  "(u64 \<Rightarrow> bool) \<Rightarrow> burst_request \<Rightarrow> (u64 \<Rightarrow> u8) \<Rightarrow> burst_response \<Rightarrow> (u64 \<Rightarrow> u8) \<Rightarrow> bool" where
  "burst_effect region r m resp m' \<longleftrightarrow>
     (case r of
        BurstRead base n _ \<Rightarrow>
          (\<exists>ws. resp = BurstWords ws \<and> length ws = n \<and>
            (\<forall>a. covers r a \<longrightarrow> bytes_of ws ! unat (a - base) = m' a)) \<and>
          (\<forall>a. region a \<longrightarrow> m' a = m a)
      | BurstWrite base ws \<Rightarrow>
          resp = BurstWritten (length ws) \<and>
          (\<forall>a. region a \<longrightarrow> m' a = (if covers r a then bytes_of ws ! unat (a - base) else m a)))"

definition untouched :: "(u64 \<Rightarrow> bool) \<Rightarrow> open_burst \<Rightarrow> (u64 \<Rightarrow> u8) \<Rightarrow> (u64 \<Rightarrow> u8) \<Rightarrow> bool" where
  "untouched region ob m m' \<longleftrightarrow> (\<forall>a. region a \<and> \<not> open_write ob a \<longrightarrow> m' a = m a)"

text \<open>How driving the burst \<open>r\<close> may end: it waits, or it is complete.\<close>

definition drive_result ::
  "(open_burst \<Rightarrow> 'b \<Rightarrow> bool) \<Rightarrow> ('b \<Rightarrow> u64 \<Rightarrow> u8) \<Rightarrow> (u64 \<Rightarrow> bool) \<Rightarrow> burst_request \<Rightarrow> 'b \<Rightarrow>
   bus_error + burst_response burst_drive \<Rightarrow> u64 option \<Rightarrow> 'b \<Rightarrow> bool" where
  "drive_result binv peek region r b res bid b' \<longleftrightarrow>
     (\<exists>n i. res = Inr (DriveBusy n) \<and> bid = Some i \<and> binv (Some (i, r)) b' \<and>
        untouched region (Some (i, r)) (peek b) (peek b')) \<or>
     (\<exists>resp. res = Inr (DriveReady resp) \<and> bid = None \<and> binv None b' \<and>
        burst_effect region r (peek b) resp (peek b'))"

lemma drive_result_step:
  assumes "untouched region (Some (i, r)) (peek b) (peek b1)" "drive_result binv peek region r b1 res bid b'"
  shows "drive_result binv peek region r b res bid b'"
proof -
  have u: "untouched region (Some (j, r)) (peek b) (peek b')" if "untouched region (Some (j, r)) (peek b1) (peek b')" for j
    using assms(1) that by (cases r) (auto simp: untouched_def)
  have e: "burst_effect region r (peek b) resp (peek b')" if "burst_effect region r (peek b1) resp (peek b')" for resp
    using assms(1) that by (cases r) (auto simp: untouched_def burst_effect_def)
  show ?thesis using assms(2) u e unfolding drive_result_def by blast
qed

locale cacheable_bus =
  fixes ops :: "('b, 'z) burst_ops_scheme"
    and binv :: "open_burst \<Rightarrow> 'b \<Rightarrow> bool"
    and peek :: "'b \<Rightarrow> u64 \<Rightarrow> u8"
    and region :: "u64 \<Rightarrow> bool"
  assumes drive_law: "binv (map_option (\<lambda>i. (i, r)) bid) b \<Longrightarrow> region_burst region r \<Longrightarrow>
      \<exists>res bid' b'. drive_burst_until_blocked ops bid r b = Some (res, bid', b') \<and>
        drive_result binv peek region r b res bid' b'"
    and tick_law: "binv ob b \<Longrightarrow> wp (bus_tick ops b) (\<lambda>_ b'. binv ob b' \<and> untouched region ob (peek b) (peek b'))"

text \<open>The burst that the pending operation of a bank has open.\<close>

definition write_back_request :: "pending_write_back \<Rightarrow> burst_request" where
  "write_back_request w = BurstWrite (wb_line_base w) (wb_words w)"

definition refill_request :: "pending_refill \<Rightarrow> burst_request" where
  "refill_request r = BurstRead (rf_line_base r) (length (rf_words r)) (refill_access_kind (rf_kind r))"

lemma reads_refill [simp]: "reads_words (refill_request r)"
  by (cases "rf_kind r") (simp_all add: refill_request_def)

definition open_of :: "pending_line_op option \<Rightarrow> open_burst" where
  "open_of p =
     (case p of
        None \<Rightarrow> None
      | Some p \<Rightarrow>
          (case lo_write_back p of
             Some w \<Rightarrow> map_option (\<lambda>i. (i, write_back_request w)) (wb_burst_id w)
           | None \<Rightarrow> map_option (\<lambda>i. (i, refill_request (lo_refill p))) (rf_burst_id (lo_refill p))))"

lemma new_bank_shaped:
  assumes "built c"
  shows "shaped (cache_bank_new c)" "slot_map (cache_bank_new c) s = None"
proof -
  let ?k = "cache_bank_new c"
  have cfg: "cb_config ?k = c" by (simp add: cache_bank_new_def)
  have line: "line_in ?k i j = cache_line_new (line_size c div word_bytes)" if "i < set_count c" "j < associativity c" for i j
    using that by (simp add: cache_bank_new_def cache_set_new_def)
  then show "slot_map ?k s = None"
    using cfg by (cases s) (simp add: slot_map_def line_content_def cache_line_new_def)
  have "0 < associativity c" using built_config_ok [OF assms] by (simp add: config_ok_def)
  then have "set_shaped ?k i (cb_sets ?k ! i)" if "i < set_count c" for i
    using that by (simp add: set_shaped_def line_shaped_def line_words_def cache_bank_new_def cache_set_new_def cache_line_new_def)
  moreover have "length (cb_sets ?k) = set_count c" by (simp add: cache_bank_new_def)
  ultimately show "shaped ?k" using assms cfg by (simp add: shaped_def)
qed

lemma aligned_mod: "a mod 4 = 0 \<longleftrightarrow> unat a mod 4 = 0" "a mod 2 = 0 \<longleftrightarrow> unat a mod 2 = 0" for a :: u64
  by (simp_all add: word_unat_eq_iff unat_mod_distrib)

context cacheable_bus begin

text \<open>A bank and its bus, and the memory that they show.\<close>

definition seen :: "cache_bank \<times> 'b \<Rightarrow> u64 \<Rightarrow> u8" where
  "seen st = bank_view (fst st) (peek (snd st))"

definition cinv :: "cache_bank \<times> 'b \<Rightarrow> bool" where
  "cinv st \<longleftrightarrow> bank_ok (fst st) (peek (snd st)) \<and> caches_line_containing (fst st) = region \<and>
     binv (open_of (cb_pending (fst st))) (snd st)"

text \<open>A step that the client does not see.\<close>

definition silent :: "cache_bank \<times> 'b \<Rightarrow> cache_bank \<times> 'b \<Rightarrow> bool" where
  "silent st st' \<longleftrightarrow> cinv st' \<and> cb_config (fst st') = cb_config (fst st) \<and> (\<forall>a. region a \<longrightarrow> seen st' a = seen st a)"

lemma silent_trans: "silent st st' \<Longrightarrow> silent st' st'' \<Longrightarrow> silent st st''"
  by (simp add: silent_def)

lemma cinv_shaped: "cinv (k, b) \<Longrightarrow> shaped k"
  by (simp add: cinv_def bank_ok_def)

lemma line_covers:
  assumes "shaped k" "line_base k (base_addr r) = base_addr r" "beats r = line_words k"
  shows "covers r a \<longleftrightarrow> line_base k a = base_addr r"
  using line_span [OF assms(1,2)] assms(3) by (simp add: covers_def)

lemma line_burst:
  assumes "shaped k" "caches_line_containing k = region" "line_base k (base_addr r) = base_addr r"
    "caches_line k (base_addr r)" "beats r = line_words k" "reads_words r"
  shows "region_burst region r"
proof -
  obtain n where g: "geometry k n" using shaped_geometry [OF assms(1)] by blast
  have n: "2 \<le> n" "n < 64" using geometry_bounds [OF g] by simp_all
  have "(4 :: nat) dvd 2 ^ n" using n(1) le_imp_power_dvd [of 2 n "2 :: nat"] by simp
  then have "unat (base_addr r) mod 4 = 0"
    using unat_base [OF g, of "base_addr r"] assms(3) by (metis dvd_mult mod_eq_0_iff_dvd dvd_trans dvd_triv_right)
  moreover
  have "(2 :: nat) ^ n < 2 ^ 64" using n(2) by (rule power_strict_increasing) simp
  then have "4 * line_words k < 2 ^ 64" using geometry_words(2) [OF g] by simp
  moreover have "0 < line_words k" using geometry_words(1) [OF g] by simp
  moreover have "region a" if "covers r a" for a
    using that line_covers [OF assms(1,3,5)] assms(2,4) caches_line_base [OF assms(1), of a] by simp
  ultimately show ?thesis using assms(5,6) by (simp add: region_burst_def)
qed

lemma untouched_changes:
  assumes "shaped k" "caches_line_containing k = region" "victim k = Some w" "victim_for k a w"
    "untouched region (Some (i, write_back_request w)) m m'"
  shows "changes_victim k m m'"
  using assms line_covers [OF assms(1), of "write_back_request w"]
  by (auto simp: changes_victim_def untouched_def victim_for_def write_back_request_def)

lemma untouched_read:
  assumes "caches_line_containing k = region" "\<And>a. \<not> open_write ob a" "untouched region ob m m'"
  shows "changes_victim k m m'"
  using assms by (auto simp: changes_victim_def untouched_def)

text \<open>A change of the memory below that the bank does not see.\<close>

lemma silent_memory:
  assumes "cinv (k, b)" "changes_victim k (peek b) (peek b')" "binv (open_of (cb_pending k)) b'"
  shows "silent (k, b) (k, b')"
  using assms memory_step [of k "peek b" "peek b'"] by (auto simp: silent_def cinv_def seen_def)

lemma drive_cases:
  assumes "binv (map_option (\<lambda>i. (i, r)) bid) b" "region_burst region r"
  obtains (busy) n i b' where "drive_burst_until_blocked ops bid r b = Some (Inr (DriveBusy n), Some i, b')"
      "binv (Some (i, r)) b'" "untouched region (Some (i, r)) (peek b) (peek b')"
    | (ready) resp b' where "drive_burst_until_blocked ops bid r b = Some (Inr (DriveReady resp), None, b')"
      "binv None b'" "burst_effect region r (peek b) resp (peek b')"
  using drive_law [OF assms] unfolding drive_result_def by metis

lemma cinv_pending:
  assumes "cinv (k\<lparr>cb_pending := Some p\<rparr>, b)"
  shows "bank_ok (k\<lparr>cb_pending := Some p\<rparr>) (peek b)" "caches_line_containing k = region" "shaped k"
    "binv (open_of (Some p)) b"
proof -
  show ok: "bank_ok (k\<lparr>cb_pending := Some p\<rparr>) (peek b)" using assms by (simp add: cinv_def)
  show "shaped k" using bank_ok_parts(1) [OF ok] by simp
  show "caches_line_containing k = region" "binv (open_of (Some p)) b" using assms by (simp_all add: cinv_def)
qed

lemma open_read [simp]: "\<not> open_write (map_option (\<lambda>i. (i, refill_request r)) x) a"
  by (cases x) (simp_all add: refill_request_def)

lemma pending_victim:
  assumes "cinv (k\<lparr>cb_pending := Some p\<rparr>, b)" "lo_write_back p = Some w"
  shows "\<exists>a. victim_for k a w"
  using victim_ok [of "k\<lparr>cb_pending := Some p\<rparr>" "peek b" w] assms same_config [of "k\<lparr>cb_pending := Some p\<rparr>" k]
  by (simp add: cinv_def victim_for_def)

lemma bank_tick:
  assumes "cinv (k, b)"
  shows "wp (bus_tick ops b) (\<lambda>_ b'. silent (k, b) (k, b'))"
proof -
  obtain r b' where t: "bus_tick ops b = Some (r, b')" "binv (open_of (cb_pending k)) b'"
      "untouched region (open_of (cb_pending k)) (peek b) (peek b')"
    using tick_law [of "open_of (cb_pending k)" b] assms by (auto simp: cinv_def elim!: wp_elim)
  have ok: "bank_ok k (peek b)" "caches_line_containing k = region" using assms by (simp_all add: cinv_def)
  note sh = bank_ok_parts(1) [OF ok(1)]
  have "changes_victim k (peek b) (peek b')"
  proof (cases "\<exists>w i. victim k = Some w \<and> wb_burst_id w = Some i")
    case True
    then obtain w i where w: "victim k = Some w" "wb_burst_id w = Some i" by blast
    then have "open_of (cb_pending k) = Some (i, write_back_request w)"
      by (auto simp: open_of_def victim_def split: option.splits bind_splits)
    then show ?thesis using untouched_changes [OF sh ok(2) w(1)] victim_ok [OF ok(1) w(1)] t(3) by auto
  next
    case False
    then have "\<not> open_write (open_of (cb_pending k)) a" for a
      by (auto simp: open_of_def victim_def split: option.splits)
    then show ?thesis using untouched_read [OF ok(2)] t(3) by blast
  qed
  then show ?thesis using silent_memory [OF assms] t(1,2) by simp
qed

lemma cinv_stats [simp]: "cinv (k\<lparr>cb_stats := x\<rparr>, b) = cinv (k, b)"
  by (simp add: cinv_def)

lemma silent_stats [simp]: "silent st (k\<lparr>cb_stats := x\<rparr>, b) = silent st (k, b)"
  by (simp add: silent_def seen_def)

lemma silent_stats_pending [simp]:
  "silent st (k\<lparr>cb_stats := x, cb_pending := p\<rparr>, b) = silent st (k\<lparr>cb_pending := p\<rparr>, b)"
proof -
  have "k\<lparr>cb_stats := x, cb_pending := p\<rparr> = k\<lparr>cb_pending := p, cb_stats := x\<rparr>" by simp
  then show ?thesis by (simp only: silent_stats)
qed

text \<open>The pending write-back waits, or is done.\<close>

lemma victim_waits:
  assumes "cinv (k\<lparr>cb_pending := Some p\<rparr>, b)" "lo_write_back p = Some w" "binv (Some (i, write_back_request w)) b'"
    "untouched region (Some (i, write_back_request w)) (peek b) (peek b')"
  shows "silent (k\<lparr>cb_pending := Some p\<rparr>, b)
    (k\<lparr>cb_pending := Some (p\<lparr>lo_write_back := Some (w\<lparr>wb_burst_id := Some i\<rparr>)\<rparr>)\<rparr>, b')"
proof -
  let ?k = "k\<lparr>cb_pending := Some p\<rparr>" and ?p = "p\<lparr>lo_write_back := Some (w\<lparr>wb_burst_id := Some i\<rparr>)\<rparr>"
  let ?k' = "k\<lparr>cb_pending := Some ?p\<rparr>"
  have ok: "bank_ok ?k (peek b)" "caches_line_containing ?k = region" "shaped ?k"
    using cinv_pending [OF assms(1)] by simp_all
  obtain a where "victim_for ?k a w" using victim_ok [OF ok(1), of w] assms(2) by auto
  from untouched_changes [OF ok(3,2) _ this assms(4)]
  have "changes_victim ?k (peek b) (peek b')" using assms(2) by simp
  note m = memory_step [OF ok(1) this]
  have "pending_ok ?k ?p"
    using bank_ok_parts(6) [OF ok(1), of p] assms(2) by (auto simp: pending_ok_def victim_for_def)
  then have "bank_ok ?k' (peek b')" using bank_ok_pending [OF m(1), of ?p] by simp
  moreover have "victim_words ?k' = victim_words ?k"
    using assms(2) by (simp add: victim_words_def fun_eq_iff)
  from view_cong [OF _ _ this] have "bank_view ?k' (peek b') = bank_view ?k (peek b')"
    using bank_ok_parts(1,2) [OF ok(1)] by simp
  ultimately show ?thesis
    using ok(2) m(2) assms(3) by (simp add: silent_def cinv_def seen_def open_of_def write_back_request_def)
qed

lemma victim_done:
  assumes "cinv (k\<lparr>cb_pending := Some p\<rparr>, b)" "lo_write_back p = Some w" "binv None b'"
    "burst_effect region (write_back_request w) (peek b) resp (peek b')"
  shows "silent (k\<lparr>cb_pending := Some p\<rparr>, b) (k\<lparr>cb_pending := Some (p\<lparr>lo_write_back := None\<rparr>)\<rparr>, b')"
proof -
  let ?k = "k\<lparr>cb_pending := Some p\<rparr>"
  have ok: "bank_ok ?k (peek b)" "caches_line_containing ?k = region" "shaped ?k"
    using cinv_pending [OF assms(1)] by simp_all
  obtain a where v: "victim_for ?k a w" using victim_ok [OF ok(1), of w] assms(2) by auto
  have "covers (write_back_request w) x \<longleftrightarrow> line_base ?k x = wb_line_base w" for x
    using line_covers [OF ok(3), of "write_back_request w" x] v
    by (simp add: write_back_request_def victim_for_def)
  then have "peek b' x = (if line_base ?k x = wb_line_base w then bytes_of (wb_words w) ! unat (x - wb_line_base w)
      else peek b x)" if "caches_line_containing ?k x" for x
    using assms(4) that ok(2) by (simp add: burst_effect_def write_back_request_def)
  note over = written_back_step [OF ok(1) _ assms(2) this]
  have "rf_burst_id (lo_refill p) = None"
    using bank_ok_parts(6) [OF ok(1), of p] assms(2) by (auto simp: pending_ok_def)
  then show ?thesis
    using over ok(2) assms(3) by (simp add: silent_def cinv_def seen_def open_of_def)
qed

text \<open>The first half of \<open>continue_pending\<close>.\<close>

text \<open>The bursts of a pending operation stay in the region.\<close>

lemma victim_region:
  assumes "cinv (k\<lparr>cb_pending := Some p\<rparr>, b)" "lo_write_back p = Some w"
  shows "region_burst region (write_back_request w)"
    "binv (map_option (\<lambda>i. (i, write_back_request w)) (wb_burst_id w)) b"
proof -
  obtain a where "victim_for k a w" using pending_victim [OF assms] by blast
  then show "region_burst region (write_back_request w)"
    using line_burst [OF cinv_pending(3,2) [OF assms(1)], of "write_back_request w"]
    by (simp add: victim_for_def write_back_request_def)
  show "binv (map_option (\<lambda>i. (i, write_back_request w)) (wb_burst_id w)) b"
    using assms by (simp add: cinv_def open_of_def)
qed

lemma refill_region:
  assumes "cinv (k\<lparr>cb_pending := Some p\<rparr>, b)"
  shows "region_burst region (refill_request (lo_refill p))"
    "lo_write_back p = None \<Longrightarrow> binv (map_option (\<lambda>i. (i, refill_request (lo_refill p))) (rf_burst_id (lo_refill p))) b"
proof -
  note ok = cinv_pending [OF assms]
  obtain a where "refill_for k a (lo_refill p)" "caches_line_containing k a"
    using bank_ok_parts(6) [OF ok(1), of p] by (auto simp: pending_ok_def refill_for_def)
  moreover obtain n where "geometry k n" using shaped_geometry [OF ok(3)] by blast
  ultimately show "region_burst region (refill_request (lo_refill p))"
    using line_burst [OF ok(3,2), of "refill_request (lo_refill p)"] reads_refill [of "lo_refill p"] base_idem caches_line_base [OF ok(3), of a]
    by (simp add: refill_for_def refill_request_def caches_line_containing_def del: reads_refill)
  show "binv (map_option (\<lambda>i. (i, refill_request (lo_refill p))) (rf_burst_id (lo_refill p))) b" if "lo_write_back p = None"
    using assms that by (simp add: cinv_def open_of_def)
qed

lemma continue_victim_spec:
  assumes "cinv (k\<lparr>cb_pending := Some p\<rparr>, b)"
  shows "wp (continue_victim ops p (k\<lparr>cb_pending := None\<rparr>, b)) (\<lambda>res (k', b').
    (\<exists>n. res = Inl (Busy n) \<and> silent (k\<lparr>cb_pending := Some p\<rparr>, b) (k', b')) \<or>
    (\<exists>p'. res = Inr p' \<and> lo_write_back p' = None \<and> cb_pending k' = None \<and> lo_refill p' = lo_refill p \<and>
      silent (k\<lparr>cb_pending := Some p\<rparr>, b) (k'\<lparr>cb_pending := Some p'\<rparr>, b')))"
proof (cases "lo_write_back p")
  case None
  then show ?thesis using assms by (simp add: continue_victim_def silent_def)
next
  case (Some w)
  let ?k = "k\<lparr>cb_pending := Some p\<rparr>" and ?r = "write_back_request w"
  note ok = cinv_pending [OF assms]
  from victim_region(2,1) [OF assms Some] show ?thesis
  proof (cases rule: drive_cases)
    case (busy n i b')
    then show ?thesis
      using victim_waits [OF assms Some busy(2,3)] Some
      by (simp add: continue_victim_def progress_write_back_def write_back_request_def)
  next
    case (ready resp b')
    have "resp = BurstWritten (length (wb_words w))"
      using ready(3) by (simp add: burst_effect_def write_back_request_def)
    then show ?thesis
      using victim_done [OF assms Some ready(2,3)] ready(1) Some
      by (simp add: continue_victim_def progress_write_back_def write_back_request_def Let_def)
  qed
qed

text \<open>The refill waits, or installs its line.\<close>

lemma refill_waits:
  assumes "cinv (k\<lparr>cb_pending := Some p\<rparr>, b)" "lo_write_back p = None" "binv (Some (i, refill_request (lo_refill p))) b'"
    "untouched region (Some (i, refill_request (lo_refill p))) (peek b) (peek b')"
  shows "silent (k\<lparr>cb_pending := Some p\<rparr>, b)
    (k\<lparr>cb_pending := Some (p\<lparr>lo_refill := (lo_refill p)\<lparr>rf_burst_id := Some i\<rparr>\<rparr>)\<rparr>, b')"
proof -
  let ?k = "k\<lparr>cb_pending := Some p\<rparr>" and ?p = "p\<lparr>lo_refill := (lo_refill p)\<lparr>rf_burst_id := Some i\<rparr>\<rparr>"
  let ?k' = "k\<lparr>cb_pending := Some ?p\<rparr>"
  have ok: "bank_ok ?k (peek b)" "caches_line_containing ?k = region" "shaped ?k"
    using cinv_pending [OF assms(1)] by simp_all
  have "changes_victim ?k (peek b) (peek b')"
    using untouched_read [OF ok(2) _ assms(4)] by (simp add: refill_request_def)
  note m = memory_step [OF ok(1) this]
  have "pending_ok ?k ?p"
    using bank_ok_parts(6) [OF ok(1), of p] assms(2) by (auto simp: pending_ok_def refill_for_def)
  then have "bank_ok ?k' (peek b')" using bank_ok_pending [OF m(1), of ?p] by simp
  moreover have "victim_words ?k' = victim_words ?k"
    by (simp add: victim_words_def fun_eq_iff split: option.split)
  from view_cong [OF _ _ this] have "bank_view ?k' (peek b') = bank_view ?k (peek b')"
    using bank_ok_parts(1,2) [OF ok(1)] by simp
  ultimately show ?thesis
    using ok(2) m(2) assms(2,3) by (simp add: silent_def cinv_def seen_def open_of_def refill_request_def)
qed

lemma refill_done:
  assumes "cinv (k\<lparr>cb_pending := Some p\<rparr>, b)" "lo_write_back p = None" "cb_pending k = None" "binv None b'"
    "burst_effect region (refill_request (lo_refill p)) (peek b) (BurstWords ws) (peek b')"
    "cb_config k1 = cb_config k" "slot_map k1 = slot_map k" "shaped k1" "cb_pending k1 = None"
    "rf_set_index r = rf_set_index (lo_refill p)" "rf_way_index r = rf_way_index (lo_refill p)"
    "rf_tag r = rf_tag (lo_refill p)"
  shows "\<exists>k'. Option.bind (install_line r ws k1) (touch_line (rf_set_index r) (rf_way_index r)) = Some k' \<and>
    cb_pending k' = None \<and> silent (k\<lparr>cb_pending := Some p\<rparr>, b) (k', b') \<and>
    holds_line k' (rf_line_base (lo_refill p))"
proof -
  let ?k = "k\<lparr>cb_pending := Some p\<rparr>" and ?r = "refill_request (lo_refill p)"
  have ok: "bank_ok ?k (peek b)" "caches_line_containing ?k = region" "shaped ?k"
    using cinv_pending [OF assms(1)] by simp_all
  have "pending_ok ?k p" using bank_ok_parts(6) [OF ok(1), of p] by simp
  then obtain a where a: "refill_for ?k a (lo_refill p)" "caches_line_containing ?k a" "\<not> holds_line ?k (line_base ?k a)"
      "slot_map ?k (set_of ?k a, rf_way_index (lo_refill p)) = None"
    unfolding pending_ok_def by blast
  obtain n where g: "geometry ?k n" using shaped_geometry [OF ok(3)] by blast
  have words: "length ws = line_words k"
    "covers ?r x \<Longrightarrow> bytes_of ws ! unat (x - rf_line_base (lo_refill p)) = peek b' x" for x
    using assms(5) a(1) by (auto simp: burst_effect_def refill_request_def refill_for_def)
  have "covers ?r x \<longleftrightarrow> line_base ?k x = line_base ?k a" for x
    using line_covers [OF ok(3), of ?r x] a(1) base_idem [OF g]
    by (simp add: refill_request_def refill_for_def)
  then have fill: "bytes_of ws ! unat (x - line_base ?k a) = peek b' x" if "line_base ?k x = line_base ?k a" for x
    using words(2) [of x] that a(1) by (simp add: refill_for_def)
  have same: "peek b' x = peek b x" if "region x" for x
    using assms(5) that by (simp add: burst_effect_def refill_request_def)
  then have "changes_victim ?k (peek b) (peek b')" using ok(2) by (simp add: changes_victim_def)
  note m = memory_step [OF ok(1) this]
  note c = same_config [OF assms(6)]
  obtain k' where k': "Option.bind (install_line r ws k1) (touch_line (rf_set_index r) (rf_way_index r)) = Some k'"
      "shaped k'" "cb_config k' = cb_config k" "cb_pending k' = None"
      "slot_map k' = (slot_map k)((set_of k a, rf_way_index r) := Some (line_base k a, False, ws))"
    using install_line_slot [OF assms(8), of r a ws] assms(6,7,9-12) a(1) words(1) c
    by (auto simp: refill_for_def)
  note inst = install_step [OF m(1) _ assms(2) a, of k' ws]
  show ?thesis
    using k' inst fill assms(4,11) ok(2) m(2) a(1) same_config [OF k'(3)]
    by (simp add: silent_def cinv_def seen_def open_of_def refill_for_def)
qed

lemma continue_refill_spec:
  assumes "cinv (k\<lparr>cb_pending := Some p\<rparr>, b)" "lo_write_back p = None" "cb_pending k = None"
  shows "wp (continue_refill ops p (k, b)) (\<lambda>res (k', b').
    (\<exists>n. res = Inl (Busy n) \<and> silent (k\<lparr>cb_pending := Some p\<rparr>, b) (k', b')) \<or>
    (res = Inr () \<and> cb_pending k' = None \<and> silent (k\<lparr>cb_pending := Some p\<rparr>, b) (k', b') \<and>
      holds_line k' (rf_line_base (lo_refill p))))"
proof -
  let ?k = "k\<lparr>cb_pending := Some p\<rparr>" and ?r = "refill_request (lo_refill p)"
  note ok = cinv_pending [OF assms(1)]
  from refill_region(2) [OF assms(1,2)] refill_region(1) [OF assms(1)] show ?thesis
  proof (cases rule: drive_cases)
    case (busy n i b')
    then show ?thesis
      using refill_waits [OF assms(1,2) busy(2,3)]
      by (simp add: continue_refill_def progress_refill_def refill_request_def)
  next
    case (ready resp b')
    then obtain ws where ws: "resp = BurstWords ws" by (auto simp: burst_effect_def refill_request_def)
    show ?thesis
      using refill_done [OF assms ready(2) ready(3) [unfolded ws],
          of "k\<lparr>cb_stats := (cb_stats k)\<lparr>refill_words := refill_words (cb_stats k) + of_nat (length ws),
            refills := refills (cb_stats k) + 1\<rparr>\<rparr>" "(lo_refill p)\<lparr>rf_burst_id := None\<rparr>"]
        ready(1) ws assms(3) ok(3)
      by (auto simp: continue_refill_def progress_refill_def refill_request_def Let_def)
  qed
qed

text \<open>
  Every call makes silent steps. Then it is \<open>Busy\<close>, or it has a result with property \<open>P\<close>.
\<close>

definition progress ::
  "cache_bank \<times> 'b \<Rightarrow> ('r \<Rightarrow> cache_bank \<times> 'b \<Rightarrow> bool) \<Rightarrow> bus_error + 'r \<Rightarrow> cache_bank \<times> 'b \<Rightarrow> bool" where
  "progress st P res st' \<longleftrightarrow> silent st st' \<and> ((\<exists>n. res = Inl (Busy n)) \<or> (\<exists>v. res = Inr v \<and> P v st'))"

lemma progress_then:
  assumes "wp x (progress st P)" "\<And>v st'. P v st' \<Longrightarrow> silent st st' \<Longrightarrow> wp (f v st') (progress st' Q)"
  shows "wp (and_then x f) (progress st Q)"
proof -
  obtain r st' where x: "x = Some (r, st')" "silent st st'" "(\<exists>n. r = Inl (Busy n)) \<or> (\<exists>v. r = Inr v \<and> P v st')"
    using assms(1) by (auto simp: progress_def elim!: wp_elim)
  show ?thesis
    using x(3)
  proof (elim disjE exE conjE)
    fix v assume v: "r = Inr v" "P v st'"
    from assms(2) [OF v(2) x(2)] show ?thesis
      using x(1) v(1) silent_trans [OF x(2)] by (auto simp: progress_def elim!: wp_elim)
  qed (use x(1,2) in \<open>simp add: progress_def\<close>)
qed

lemma continue_pending_spec:
  assumes "cinv (k, b)" "cb_pending k = Some p"
  shows "wp (continue_pending ops (k, b)) (progress (k, b) (\<lambda>_ (k', b'). cb_pending k' = None \<and>
    holds_line k' (rf_line_base (lo_refill p))))"
proof -
  let ?st = "(k, b)"
  have k: "k\<lparr>cb_pending := Some p\<rparr> = k" using assms(2) by (cases k) simp
  note first = continue_victim_spec [where k = k and p = p and b = b, unfolded k, OF assms(1)]
  let ?P = "\<lambda>p' (k', b'). lo_write_back p' = None \<and> cb_pending k' = None \<and> lo_refill p' = lo_refill p \<and>
      silent ?st (k'\<lparr>cb_pending := Some p'\<rparr>, b')"
  obtain r k1 b1 where v: "continue_victim ops p (k\<lparr>cb_pending := None\<rparr>, b) = Some (r, (k1, b1))"
      "(\<exists>n. r = Inl (Busy n) \<and> silent ?st (k1, b1)) \<or> (\<exists>p'. r = Inr p' \<and> ?P p' (k1, b1))"
    using first by (auto elim!: wp_elim)
  show ?thesis
    using v(2)
  proof (elim disjE exE conjE)
    fix n assume "r = Inl (Busy n)" "silent ?st (k1, b1)"
    then show ?thesis using v(1) assms(2) by (simp add: continue_pending_def progress_def)
  next
    fix p' assume r: "r = Inr p'" and p': "?P p' (k1, b1)"
    have c: "cinv (k1\<lparr>cb_pending := Some p'\<rparr>, b1)" using p' by (simp add: silent_def)
    have "silent ?st (k', b')" if "silent (k1\<lparr>cb_pending := Some p'\<rparr>, b1) (k', b')" for k' b'
      using silent_trans [OF _ that] p' by simp
    then show ?thesis
      using continue_refill_spec [OF c] p' v(1) r assms(2)
      by (fastforce simp: continue_pending_def progress_def elim!: wp_elim)
  qed
qed

text \<open>The line at the end of a successful lookup.\<close>

definition hit :: "u64 \<Rightarrow> nat \<Rightarrow> cache_bank \<times> 'b \<Rightarrow> bool" where
  "hit a way st \<longleftrightarrow> cb_pending (fst st) = None \<and>
     (\<exists>d ws. slot_map (fst st) (set_of (fst st) a, way) = Some (line_base (fst st) a, d, ws))"

lemma held_hit:
  assumes "cinv (k, b)" "cb_pending k = None" "holds_line k (line_base k a)"
  shows "\<exists>way. lookup_way k (decode_address k a) = Some (Some way) \<and> hit a way (k, b)"
proof -
  have ok: "shaped k" "unique_lines k" using assms(1) by (simp_all add: cinv_def bank_ok_def)
  obtain i j d ws where s: "slot_map k (i, j) = Some (line_base k a, d, ws)"
    using assms(3) by (auto simp: holds_line_def)
  note l = lookup_hit [OF ok s]
  then show ?thesis using s assms(2) by (auto simp: hit_def)
qed

lemma fill_started:
  assumes "cinv (k, b)" "cb_pending k = None" "region a" "\<not> holds_line k (line_base k a)"
  shows "\<exists>k' p. start_pending (decode_address k a) kind count k = Some k' \<and> cb_pending k' = Some p \<and>
    rf_line_base (lo_refill p) = line_base k a \<and> silent (k, b) (k', b)"
proof -
  have ok: "bank_ok k (peek b)" "caches_line_containing k = region" "binv None b"
    using assms(1,2) by (simp_all add: cinv_def open_of_def)
  note sh = bank_ok_parts [OF ok(1)]
  obtain n where g: "geometry k n" using shaped_geometry [OF sh(1)] by blast
  have a: "caches_line_containing k a" using ok(2) assms(3) by simp
  obtain v k' where k': "start_pending (decode_address k a) kind count k = Some k'" "v < ways_of k" "shaped k'"
      "cb_config k' = cb_config k" "slot_map k' = (slot_map k)((set_of k a, v) := None)"
      "cb_pending k' = Some \<lparr>lo_write_back = evicted (slot_map k (set_of k a, v)),
        lo_refill = pending_refill_new (decode_address k a) v (line_words k) kind\<rparr>"
    using start_pending_slot [OF sh(1,5)] by blast
  note c = same_config [OF k'(4)]
  note ev = evict_step [OF ok(1) assms(2) a assms(4) k'(2-6)]
  have open_None: "open_of (cb_pending k') = None"
    by (auto simp: k'(6) open_of_def pending_refill_new_def evicted_Some pending_write_back_new_def split: option.split)
  have s: "silent (k, b) (k', b)"
    using ev ok(2,3) c(11) k'(4) open_None by (simp add: silent_def cinv_def seen_def)
  have "da_line_base (decode_address k a) = line_base k a" using decode_address_fields(1) [OF g] .
  then show ?thesis using k'(1,6) s by (simp add: pending_refill_new_def)
qed

lemma fill_line_spec:
  assumes "cinv (k, b)" "cb_pending k = None" "region a" "\<not> holds_line k (line_base k a)"
  shows "wp (fill_line ops (decode_address k a) kind count (k, b)) (progress (k, b) (hit a))"
proof -
  obtain k' p where k': "start_pending (decode_address k a) kind count k = Some k'" "cb_pending k' = Some p"
      "rf_line_base (lo_refill p) = line_base k a" and s: "silent (k, b) (k', b)"
    using fill_started [OF assms] by blast
  have ci: "cinv (k', b)" using s by (simp add: silent_def)
  have "wp (continue_pending ops (k', b)) (progress (k', b) (\<lambda>_ (k'', b'). cb_pending k'' = None \<and>
      holds_line k'' (line_base k a)))"
    using continue_pending_spec [OF ci k'(2)] k'(3) by simp
  then have first: "wp (continue_pending ops (k', b)) (progress (k, b) (\<lambda>_ (k'', b'). cb_pending k'' = None \<and>
      holds_line k'' (line_base k a)))"
    using silent_trans [OF s] by (auto simp: progress_def elim!: wp_elim)
  have second: "wp (case lookup_way (fst st) (decode_address k a) of Some (Some way) \<Rightarrow> Some (Inr way, st) | _ \<Rightarrow> None)
      (progress st (hit a))"
    if "case st of (k'', b') \<Rightarrow> cb_pending k'' = None \<and> holds_line k'' (line_base k a)" "silent (k, b) st" for st
  proof -
    obtain k2 b2 where st: "st = (k2, b2)" by (cases st)
    have "cinv (k2, b2)" "cb_config k2 = cb_config k" using that(2) st by (simp_all add: silent_def)
    then show ?thesis
      using held_hit [of k2 b2 a] that(1) st same_config [of k2 k] by (auto simp: progress_def silent_def)
  qed
  show ?thesis
    unfolding fill_line_def prod.case k'(1) option.case by (rule progress_then [OF first second])
qed

lemma join_pending_spec:
  assumes "cinv (k, b)"
  shows "wp (join_pending ops d (k, b)) (progress (k, b) (\<lambda>_ (k', b'). cb_pending k' = None))"
proof (cases "cb_pending k")
  case None
  then show ?thesis using assms by (simp add: join_pending_def progress_def silent_def)
next
  case (Some p)
  then show ?thesis
    using continue_pending_spec [OF assms Some] assms
    by (auto simp: join_pending_def progress_def silent_def elim!: wp_elim)
qed

lemma ensure_line_spec:
  assumes "cinv (k, b)" "region a"
  shows "wp (ensure_line ops a kind (k, b)) (progress (k, b) (\<lambda>(d, way) st. d = decode_address (fst st) a \<and> hit a way st))"
proof -
  let ?d = "decode_address k a" and ?Q = "\<lambda>(d, way) st. d = decode_address (fst st) a \<and> hit a way st"
  show ?thesis
    unfolding ensure_line_def Let_def fst_conv
  proof (rule progress_then [OF join_pending_spec [OF assms(1)]])
    fix st'
    assume p: "case st' of (k', b') \<Rightarrow> cb_pending k' = None" and s: "silent (k, b) st'"
    obtain k1 b1 where st: "st' = (k1, b1)" by (cases st')
    have ci: "cinv (k1, b1)" and none: "cb_pending k1 = None" and cfg: "cb_config k1 = cb_config k"
      using p s st by (simp_all add: silent_def)
    have d: "?d = decode_address k1 a" using same_config(2) [OF cfg] by simp
    show "wp (case lookup_way (fst st') ?d of None \<Rightarrow> None | Some None \<Rightarrow>
          and_then (fill_line ops ?d kind True st') (\<lambda>way st. Some (Inr (?d, way), st))
        | Some (Some way) \<Rightarrow> Some (Inr (?d, way), st')) (progress st' ?Q)"
    proof (cases "holds_line k1 (line_base k1 a)")
      case True
      then obtain way where "lookup_way k1 ?d = Some (Some way)" "hit a way (k1, b1)"
        using held_hit [OF ci none True] d by auto
      then show ?thesis using st d ci by (simp add: progress_def silent_def)
    next
      case False
      have "shaped k1" using cinv_shaped [OF ci] .
      note miss = lookup_miss [OF this False]
      have "wp (and_then (fill_line ops ?d kind True (k1, b1)) (\<lambda>way st. Some (Inr (?d, way), st)))
          (progress (k1, b1) ?Q)"
      proof (rule progress_then)
        show "wp (fill_line ops ?d kind True (k1, b1)) (progress (k1, b1) (hit a))"
          using fill_line_spec [OF ci none assms(2) False] d by simp
        fix way st
        assume "hit a way st" "silent (k1, b1) st"
        then show "wp (Some (Inr (?d, way), st)) (progress st ?Q)"
          using d same_config(2) [of "fst st" k1] by (cases st) (simp add: progress_def silent_def)
      qed
      then show ?thesis using miss st d by simp
    qed
  qed
qed

subsection \<open>Loads and stores through the bank\<close>

text \<open>The lines stay as they are.\<close>

lemma silent_same:
  assumes "cinv (k, b)" "shaped k'" "cb_config k' = cb_config k" "slot_map k' = slot_map k" "cb_pending k' = cb_pending k"
  shows "silent (k, b) (k', b)"
proof -
  have ok: "bank_ok k (peek b)" using assms(1) by (simp add: cinv_def)
  note c = same_config [OF assms(3)]
  have "bank_ok k' (peek b)" using ok bank_ok_cong [OF assms(3,4) _ assms(5)] assms(2) bank_ok_parts(1) [OF ok] by simp
  moreover have "victim_words k' = victim_words k"
    using assms(5) c(1) by (simp add: victim_words_def victim_def fun_eq_iff split: option.split)
  from view_cong [OF assms(3,4) this] have "bank_view k' = bank_view k"
    using bank_ok_parts(1,2) [OF ok] assms(2) by blast
  ultimately show ?thesis using assms(1,3,5) c(11) by (simp add: silent_def cinv_def seen_def)
qed

lemma touch_silent:
  assumes "cinv (k, b)" "slot_map k (i, j) = Some c"
  shows "\<exists>k'. touch_line i j (k\<lparr>cb_stats := x\<rparr>) = Some k' \<and> silent (k, b) (k', b) \<and> cb_pending k' = cb_pending k"
proof -
  have ij: "i < sets_of k" "j < ways_of k" using slot_map_bounds [OF assms(2)] by simp_all
  have "shaped (k\<lparr>cb_stats := x\<rparr>)" using cinv_shaped [OF assms(1)] by simp
  from touch_line_slot [OF this, of i j] obtain k' where "touch_line i j (k\<lparr>cb_stats := x\<rparr>) = Some k'" "shaped k'"
      "cb_config k' = cb_config k" "cb_pending k' = cb_pending k" "slot_map k' = slot_map k"
    using ij by auto
  then show ?thesis using silent_same [OF assms(1), of k'] by simp
qed

text \<open>A completed load of a word leaves no operation pending.\<close>

definition word_seen :: "u64 \<Rightarrow> u32 \<Rightarrow> cache_bank \<times> 'b \<Rightarrow> bool" where
  "word_seen a w st \<longleftrightarrow> le_bytes32 w = map (\<lambda>j. seen st (a + of_nat j)) [0..<4] \<and> cb_pending (fst st) = None"

lemma load_word_spec:
  assumes "cinv (k, b)" "region a" "unat a mod 4 = 0"
  shows "wp (load_word ops a kind (k, b)) (progress (k, b) (word_seen a))"
  unfolding load_word_def
proof (rule progress_then [OF ensure_line_spec [OF assms(1,2)]], goal_cases)
  case (1 v st)
  obtain k1 b1 where st: "st = (k1, b1)" by (cases st)
  obtain way where v: "v = (decode_address k1 a, way)" "hit a way (k1, b1)" using 1(1) st by (cases v) auto
  have ci: "cinv (k1, b1)" using 1(2) st by (simp add: silent_def)
  have sh: "shaped k1" "unique_lines k1" using ci by (simp_all add: cinv_def bank_ok_def)
  obtain d ws where s: "slot_map k1 (set_of k1 a, way) = Some (line_base k1 a, d, ws)"
    using v(2) by (auto simp: hit_def)
  let ?i = "da_word_index (decode_address k1 a)"
  have i: "?i < length ws"
    using slot_map_length [OF sh(1) s] shaped_geometry [OF sh(1)] word_index_less by metis
  have byte: "seen (k1, b1) (a + of_nat j) = bytes_of ws ! (4 * ?i + j)" if "j < 4" for j
    using view_cached [OF sh, of "(set_of k1 a, way)" "a + of_nat j" d ws] s aligned_word [OF sh(1) assms(3) that]
    by (simp add: seen_def)
  obtain k2 where k2: "touch_line (set_of k1 a) way
        (k1\<lparr>cb_stats := (cb_stats k1)\<lparr>read_hits := read_hits (cb_stats k1) + 1\<rparr>\<rparr>) = Some k2"
      "silent (k1, b1) (k2, b1)" "cb_pending k2 = None"
    using touch_silent [OF ci s] v(2) by (auto simp: hit_def)
  have line: "region (a + of_nat j)" if "j < 4" for j
    using assms(2) ci aligned_word(1) [OF sh(1) assms(3) that]
      caches_line_base [OF sh(1), of a] caches_line_base [OF sh(1), of "a + of_nat j"]
    by (simp add: cinv_def)
  have "seen (k2, b1) (a + of_nat j) = bytes_of ws ! (4 * ?i + j)" if "j < 4" for j
    using k2(2) byte [OF that] line [OF that] by (simp add: silent_def)
  then have "word_seen a (ws ! ?i) (k2, b1)" using word_bytes_at [OF i] k2(3) by (simp add: word_seen_def)
  then show ?case using st v(1) k2 read_word_slot [OF sh s] by (simp add: progress_def)
qed

text \<open>A store, by a client that sees \<open>seen\<close>.\<close>

definition stored_in :: "store_op \<Rightarrow> cache_bank \<times> 'b \<Rightarrow> cache_bank \<times> 'b \<Rightarrow> bool" where
  "stored_in s st st' \<longleftrightarrow> cinv st' \<and> cb_config (fst st') = cb_config (fst st) \<and> cb_pending (fst st') = None \<and>
     (\<forall>a. region a \<longrightarrow> seen st' a = after_store s (seen st) a)"

definition store_progress :: "store_op \<Rightarrow> cache_bank \<times> 'b \<Rightarrow> bus_error + unit \<Rightarrow> cache_bank \<times> 'b \<Rightarrow> bool" where
  "store_progress s st res st' \<longleftrightarrow> (\<exists>n. res = Inl (Busy n)) \<and> silent st st' \<or> res = Inr () \<and> stored_in s st st'"

lemma store_line_spec:
  assumes "cinv (k, b)" "hit (so_addr s) way (k, b)" "store_aligned s"
  shows "wp (store_to_line ops (decode_address k (so_addr s)) way s (k, b)) (store_progress s (k, b))"
proof -
  have ok: "bank_ok k (peek b)" using assms(1) by (simp add: cinv_def)
  note sh = bank_ok_parts [OF ok]
  let ?b = "line_base k (so_addr s)" and ?s = "(set_of k (so_addr s), way)"
  obtain d ws where s: "slot_map k ?s = Some (?b, d, ws)" using assms(2) by (auto simp: hit_def)
  have none: "cb_pending k = None" using assms(2) by (simp add: hit_def)
  obtain ws' where ws': "apply_store s ?b ws = Some ws'" "length ws' = line_words k"
      "\<And>x. (if line_base k x = ?b then bytes_of ws' ! unat (x - ?b) else seen (k, b) x) =
        after_store s (\<lambda>x. if line_base k x = ?b then bytes_of ws ! unat (x - ?b) else seen (k, b) x) x"
    using store_in_line [OF sh(1) assms(3) slot_map_length [OF sh(1) s], of "seen (k, b)"] by blast
  obtain k' where k': "update_cached_store (decode_address k (so_addr s)) way s True k = Some k'" "shaped k'"
      "cb_config k' = cb_config k" "cb_pending k' = cb_pending k" "slot_map k' = (slot_map k)(?s := Some (?b, True, ws'))"
    using update_store_slot [OF sh(1,2) s ws'(1,2)] by blast
  note st = store_step [OF ok none s k'(2,3) _ k'(5)]
  have old: "(\<lambda>x. if line_base k x = ?b then bytes_of ws ! unat (x - ?b) else seen (k, b) x) = seen (k, b)"
    using view_cached [OF sh(1,2), of ?s _ d ws] s by (simp add: seen_def fun_eq_iff)
  have "seen (k', b) x = (if line_base k x = ?b then bytes_of ws' ! unat (x - ?b) else seen (k, b) x)" for x
    using st(2) [of x] k'(4) none by (simp add: seen_def)
  then have "seen (k', b) x = after_store s (seen (k, b)) x" for x
    using ws'(3) [of x] by (simp only: old)
  moreover have "cinv (k', b)"
    using st(1) assms(1) k'(3,4) none same_config(11) [OF k'(3)] by (simp add: cinv_def)
  ultimately show ?thesis
    using k'(1,3,4) none sh(5) by (simp add: store_to_line_def store_progress_def stored_in_def)
qed

lemma store_after_silent:
  assumes "silent st st'" "store_progress s st' res st''" 
  shows "store_progress s st res st''"
  using assms by (auto simp: store_progress_def stored_in_def silent_def after_store_def)

lemma store_then:
  assumes "wp x (progress st P)" "\<And>v st'. P v st' \<Longrightarrow> silent st st' \<Longrightarrow> wp (f v st') (store_progress s st')"
  shows "wp (and_then x f) (store_progress s st)"
proof -
  obtain r st' where x: "x = Some (r, st')" "silent st st'" "(\<exists>n. r = Inl (Busy n)) \<or> (\<exists>v. r = Inr v \<and> P v st')"
    using assms(1) by (auto simp: progress_def elim!: wp_elim)
  show ?thesis
    using x(3)
  proof (elim disjE exE conjE)
    fix v assume v: "r = Inr v" "P v st'"
    from assms(2) [OF v(2) x(2)] show ?thesis
      using x(1) v(1) store_after_silent [OF x(2)] by (auto elim!: wp_elim)
  qed (use x(1,2) in \<open>simp add: store_progress_def\<close>)
qed

lemma bank_store_spec:
  assumes "cinv (k, b)" "region (so_addr s)" "store_aligned s" "cc_allocation (cb_config k) = WriteAllocate"
  shows "wp (bank_store ops s (k, b)) (store_progress s (k, b))"
proof -
  let ?a = "so_addr s" and ?k = "note_write_access k"
  have ci: "cinv (?k, b)" "silent (k, b) (?k, b)"
    using assms(1) by (simp_all add: note_write_access_def silent_def seen_def)
  have sh: "shaped ?k" using cinv_shaped [OF ci(1)] .
  have cfg: "cb_config ?k = cb_config k" by (simp add: note_write_access_def)
  have cached: "caches_address ?k ?a" "caches_line_containing ?k ?a"
    using cacheable_address [OF sh, of ?a] ci(1) assms(2) by (simp_all add: cinv_def)
  have "wp (and_then (join_pending ops (decode_address ?k ?a) (?k, b)) (\<lambda>_ (k, b).
            case lookup_way k (decode_address ?k ?a) of
              None \<Rightarrow> None
            | Some None \<Rightarrow>
                (case cc_allocation (cb_config k) of
                   NoWriteAllocate \<Rightarrow> commit_inner ops s (note_bypassed_write k, b)
                 | WriteAllocate \<Rightarrow>
                     and_then (fill_line ops (decode_address ?k ?a) RefillLoad False (k, b))
                       (\<lambda>way. store_to_line ops (decode_address ?k ?a) way s))
            | Some (Some way) \<Rightarrow> store_to_line ops (decode_address ?k ?a) way s (k, b))) (store_progress s (?k, b))"
  proof (rule store_then [OF join_pending_spec [OF ci(1)]], goal_cases)
    case (1 v st)
    obtain k1 b1 where st: "st = (k1, b1)" by (cases st)
    have c1: "cinv (k1, b1)" and none: "cb_pending k1 = None" and cfg1: "cb_config k1 = cb_config k"
      using 1 st cfg by (simp_all add: silent_def)
    have d: "decode_address ?k ?a = decode_address k1 ?a" using same_config(2) [of k1 ?k] cfg cfg1 by simp
    show ?case
    proof (cases "holds_line k1 (line_base k1 ?a)")
      case True
      then obtain way where "lookup_way k1 (decode_address ?k ?a) = Some (Some way)" "hit ?a way (k1, b1)"
        using held_hit [OF c1 none] d by auto
      then show ?thesis using store_line_spec [OF c1 _ assms(3)] st d by simp
    next
      case False
      note miss = lookup_miss [OF cinv_shaped [OF c1] False]
      have "wp (and_then (fill_line ops (decode_address k1 ?a) RefillLoad False (k1, b1))
          (\<lambda>way. store_to_line ops (decode_address k1 ?a) way s)) (store_progress s (k1, b1))"
      proof (rule store_then [OF fill_line_spec [OF c1 none assms(2) False]], goal_cases)
        case (1 way st2)
        obtain k2 b2 where st2: "st2 = (k2, b2)" by (cases st2)
        have c2: "cinv (k2, b2)" "cb_config k2 = cb_config k1" using 1(2) st2 by (simp_all add: silent_def)
        then show ?case using store_line_spec [OF c2(1) _ assms(3)] 1(1) st2 same_config(2) [OF c2(2)] by simp
      qed
      then show ?thesis using st miss d cfg1 assms(4) by simp
    qed
  qed
  from wp_mono [OF this store_after_silent [OF ci(2)]] show ?thesis
    using cached by (simp add: bank_store_def Let_def)
qed

subsection \<open>Parts of words\<close>

lemma word_part:
  fixes a :: u64
  assumes "shaped k"
  shows "unat (a AND NOT 3) mod 4 = 0" "(a AND NOT 3) + of_nat (unat (a AND 3)) = a" "unat (a AND 3) = unat a mod 4"
    "line_base k (a AND NOT 3) = line_base k a"
proof -
  have m: "unat (x AND 3) = unat x mod 4" for x :: u64
  proof -
    have "x AND 3 = take_bit 2 x" by (simp add: take_bit_eq_mask mask_eq_exp_minus_1)
    then show ?thesis by (simp add: take_bit_eq_mod unat_mod_distrib)
  qed
  show "unat (a AND 3) = unat a mod 4" using m .
  have "(a AND NOT 3) AND 3 = 0" by (simp add: bit_eq_iff bit_simps)
  then show z: "unat (a AND NOT 3) mod 4 = 0" using m [of "a AND NOT 3"] by simp
  show s: "(a AND NOT 3) + of_nat (unat (a AND 3)) = a"
  proof -
    have "(a AND NOT 3) + (a AND 3) = (a AND NOT 3) OR (a AND 3)"
      by (rule disjunctive_add_eq_or) (auto simp: bit_eq_iff bit_simps)
    also have "\<dots> = a" by (auto simp: bit_eq_iff bit_simps)
    finally show ?thesis by simp
  qed
  have "unat (a AND 3) < 4" using m by simp
  from aligned_word(1) [OF assms z this] show "line_base k (a AND NOT 3) = line_base k a" by (simp only: s)
qed

lemma silent_refl: "cinv st \<Longrightarrow> silent st st"
  by (simp add: silent_def)

lemma part_spec:
  assumes "cinv (k, b)" "region a"
    and "\<And>w st'. word_seen (a AND NOT 3) w st' \<Longrightarrow> \<exists>r. f w = Some r \<and> P r st'"
  shows "wp (and_then (load_word ops (a AND NOT 3) RefillLoad (k, b)) (part_of_word f)) (progress (k, b) P)"
proof (rule progress_then)
  have sh: "shaped k" using cinv_shaped [OF assms(1)] .
  have "region (a AND NOT 3)"
    using assms(1,2) word_part(4) [OF sh, of a] caches_line_base [OF sh, of a] caches_line_base [OF sh, of "a AND NOT 3"]
    by (simp add: cinv_def)
  then show "wp (load_word ops (a AND NOT 3) RefillLoad (k, b)) (progress (k, b) (word_seen (a AND NOT 3)))"
    by (rule load_word_spec [OF assms(1) _ word_part(1) [OF sh]])
  fix w st'
  assume w: "word_seen (a AND NOT 3) w st'" "silent (k, b) st'"
  then obtain r where "f w = Some r" "P r st'" using assms(3) by blast
  then show "wp (part_of_word f w st') (progress st' P)"
    using w(2) silent_refl by (simp add: part_of_word_def progress_def silent_def)
qed

lemma word_seen_byte:
  assumes "shaped k" "word_seen (a AND NOT 3) w st" "unat (a AND 3) + j < 4"
  shows "le_bytes32 w ! (unat (a AND 3) + j) = seen st (a + of_nat j)"
proof -
  have "le_bytes32 w ! (unat (a AND 3) + j) = seen st ((a AND NOT 3) + of_nat (unat (a AND 3) + j))"
    using assms(2,3) by (simp add: word_seen_def)
  also have "(a AND NOT 3) + of_nat (unat (a AND 3) + j) = a + of_nat j"
    using word_part(2) [OF assms(1), of a] by (simp only: of_nat_add add.assoc [symmetric])
  finally show ?thesis .
qed

text \<open>What the loads of each width return, and that a store of each width is a store.\<close>

lemma cached_conditions:
  assumes "cinv (k, b)" "region a"
  shows "cached_at k a"
  using cacheable_address [OF cinv_shaped [OF assms(1)], of a] assms by (simp add: cached_at_def cinv_def)

lemma bank_word_spec:
  assumes "cinv (k, b)" "region a" "unat a mod 4 = 0"
  shows "wp (bank_fetch32 ops a (k, b)) (progress (k, b) (word_seen a))"
    "wp (bank_load32 ops a (k, b)) (progress (k, b) (word_seen a))"
  using load_word_spec [OF assms] cached_conditions [OF assms(1,2)] assms(3)
  by (simp_all add: bank_fetch32_def bank_load32_def misaligned_or_def read_through_def aligned_mod)

lemma bank_load8_spec:
  assumes "cinv (k, b)" "region a"
  shows "wp (bank_load8 ops a (k, b)) (progress (k, b) (\<lambda>v st. v = seen st a \<and> cb_pending (fst st) = None))"
proof -
  have sh: "shaped k" using cinv_shaped [OF assms(1)] .
  have "unat (a AND 3) < 4" using word_part(3) [OF sh, of a] by simp
  then have "\<exists>r. extract_byte w a = Some r \<and> r = seen st' a \<and> cb_pending (fst st') = None"
    if "word_seen (a AND NOT 3) w st'" for w st'
    using word_seen_byte [OF sh that, of 0] that by (simp add: extract_byte_def word_seen_def)
  from part_spec [OF assms this] show ?thesis
    using cached_conditions [OF assms] by (simp add: bank_load8_def read_through_def load_cached_byte_def)
qed

lemma bank_load16_spec:
  assumes "cinv (k, b)" "region a" "unat a mod 2 = 0"
  shows "wp (bank_load16 ops a (k, b)) (progress (k, b) (\<lambda>v st. le_bytes16 v = [seen st a, seen st (a + 1)] \<and> cb_pending (fst st) = None))"
proof -
  have sh: "shaped k" using cinv_shaped [OF assms(1)] .
  have "unat a mod 4 mod 2 = 0" using assms(3) by (simp add: mod_mod_cancel)
  moreover have "x + 1 < 4" if "x < 4" "x mod 2 = 0" for x :: nat using that by presburger
  ultimately have o: "unat (a AND 3) + 1 < 4" using word_part(3) [OF sh, of a] by simp
  have part: "\<exists>r. extract_half w a = Some r \<and> le_bytes16 r = [seen st' a, seen st' (a + 1)] \<and> cb_pending (fst st') = None"
    if "word_seen (a AND NOT 3) w st'" for w st'
    using word_seen_byte [OF sh that, of 0] word_seen_byte [OF sh that, of 1] o that
    by (simp add: extract_half_def Let_def word_seen_def)
  have "line_base k (a + 1) = line_base k a"
  proof -
    let ?b = "(a AND NOT 3)" and ?j = "unat (a AND 3)"
    have s: "?b + of_nat ?j = a" using word_part(2) [OF sh] .
    have next_byte: "?b + of_nat (?j + 1) = a + 1" using s by (simp only: of_nat_add of_nat_1 add.assoc [symmetric])
    show ?thesis
      using aligned_word(1) [OF sh word_part(1) [OF sh, of a] o] word_part(4) [OF sh, of a] by (simp only: next_byte)
  qed
  then have "region (a + 1)"
    using assms(1,2) caches_line_base [OF sh, of a] caches_line_base [OF sh, of "a + 1"] by (simp add: cinv_def)
  then have "cached_half k a"
    using cached_conditions [OF assms(1,2)] cached_conditions [OF assms(1)] by (simp add: cached_half_def cached_at_def)
  then show ?thesis
    using part_spec [OF assms(1,2) part] assms(3)
    by (simp add: bank_load16_def misaligned_or_def read_through_def load_cached_half_def aligned_mod)
qed

lemma new_bank:
  assumes "built c" "cc_write c = WriteBack" "caches_line_containing (cache_bank_new c) = region" "binv None b"
  shows "cinv (cache_bank_new c, b)" "seen (cache_bank_new c, b) = peek b"
proof -
  let ?k = "cache_bank_new c"
  have cfg: "cb_config ?k = c" "cb_pending ?k = None" by (simp_all add: cache_bank_new_def)
  note n = new_bank_shaped [OF assms(1)]
  then have "bank_ok ?k (peek b)"
    using assms(2) cfg by (simp add: bank_ok_def unique_lines_def lines_cacheable_def clean_lines_def)
  then show "cinv (?k, b)" using assms(3,4) cfg(2) by (simp add: cinv_def open_of_def)
  have "\<not> holds_line ?k x" for x using n(2) by (simp add: holds_line_def)
  then show "seen (?k, b) = peek b"
    using view_memory [OF n(1)] cfg(2) by (simp add: seen_def fun_eq_iff victim_def)
qed

end

end
