(* ===== verification/Burst_Server.thy ===== *)
theory Burst_Server
  imports Cache_Coherence Memory_System
begin

text \<open>
  The interface between a bank and the bus that serves its bursts beat by beat. The locale
  \<open>burst_server\<close> says what a server promises: a submitted burst is served, a beat moves one word
  between the memory and the burst, and waiting brings it closer to its end. From these laws
  follows \<open>live_bus\<close>: driving a burst until it blocks ends, with the effect that \<open>cacheable_bus\<close>
  asks for, and a blocked burst makes progress with every tick.
\<close>

subsection \<open>A burst that is served\<close>

text \<open>The bytes that the beats before the current one have moved.\<close>

definition moved :: "(u64 \<Rightarrow> u8) \<Rightarrow> active_burst \<Rightarrow> bool" where
  "moved f ab \<longleftrightarrow>
     (case ab_request ab of
        BurstRead base n _ \<Rightarrow> \<forall>j < 4 * ab_beat_index ab. bytes_of (ab_read_words ab) ! j = f (base + of_nat j)
      | BurstWrite base ws \<Rightarrow> \<forall>j < 4 * ab_beat_index ab. f (base + of_nat j) = bytes_of ws ! j)"

lemma moved_phase [simp]: "moved f (ab\<lparr>ab_phase := p\<rparr>) = moved f ab"
  by (simp add: moved_def split: burst_request.split)

definition in_progress :: "active_burst \<Rightarrow> bool" where
  "in_progress ab \<longleftrightarrow> length (ab_read_words ab) = beats (ab_request ab) \<and>
     (case ab_phase ab of
        BuAccepted _ _ \<Rightarrow> ab_beat_index ab < beats (ab_request ab)
      | BuInFlight _ _ _ \<Rightarrow> ab_beat_index ab < beats (ab_request ab)
      | BuReady n \<Rightarrow> n = beats (ab_request ab) \<and> ab_beat_index ab = beats (ab_request ab)
      | BuFailed _ \<Rightarrow> False)"

definition served :: "(u64 \<Rightarrow> bool) \<Rightarrow> (u64 \<Rightarrow> u8) \<Rightarrow> active_burst \<Rightarrow> bool" where
  "served region f ab \<longleftrightarrow> region_burst region (ab_request ab) \<and> in_progress ab \<and> moved f ab"

lemma window:
  fixes x base :: u64
  assumes "n + 4 < 2 ^ 64"
  shows "unat (x - (base + of_nat n)) < 4 \<longleftrightarrow> n \<le> unat (x - base) \<and> unat (x - base) < n + 4"
    "n \<le> unat (x - base) \<Longrightarrow> unat (x - (base + of_nat n)) = unat (x - base) - n"
proof -
  have "unat (of_nat n :: u64) = n" using assms by (simp add: unat_of_nat)
  moreover have "x - (base + of_nat n) = (x - base) - of_nat n" by simp
  ultimately have d: "unat (x - (base + of_nat n)) =
      (if n \<le> unat (x - base) then unat (x - base) - n else unat (x - base) + 2 ^ 64 - n)"
    by (simp only: unat_sub_if_size word_size) simp
  then show "unat (x - (base + of_nat n)) < 4 \<longleftrightarrow> n \<le> unat (x - base) \<and> unat (x - base) < n + 4"
    using assms by (auto split: if_splits)
  show "n \<le> unat (x - base) \<Longrightarrow> unat (x - (base + of_nat n)) = unat (x - base) - n" using d by simp
qed

definition after_beat :: "active_burst \<Rightarrow> (u64 \<Rightarrow> u8) \<Rightarrow> u64 \<Rightarrow> u8" where
  "after_beat ab f =
     (case ab_request ab of
        BurstRead _ _ _ \<Rightarrow> f
      | BurstWrite _ ws \<Rightarrow> stored (beat_addr (ab_request ab) (ab_beat_index ab)) (le_bytes32 (ws ! ab_beat_index ab)) f)"

definition read_by_beat :: "active_burst \<Rightarrow> (u64 \<Rightarrow> u8) \<Rightarrow> u32 option" where
  "read_by_beat ab f =
     (case ab_request ab of
        BurstRead _ _ _ \<Rightarrow>
          Some (from_le32_list (map (\<lambda>j. f (beat_addr (ab_request ab) (ab_beat_index ab) + of_nat j)) [0..<4]))
      | BurstWrite _ _ \<Rightarrow> None)"

lemma untouched_refl [simp]: "untouched region ob f f"
  by (simp add: untouched_def)

text \<open>The state of the burst after a finished beat.\<close>

definition beat_done :: "active_burst \<Rightarrow> (u64 \<Rightarrow> u8) \<Rightarrow> active_burst" where
  "beat_done ab f =
     (let k = ab_beat_index ab; n = beats (ab_request ab) in
      ab\<lparr>ab_read_words := (case read_by_beat ab f of None \<Rightarrow> ab_read_words ab | Some w \<Rightarrow> (ab_read_words ab)[k := w]),
         ab_beat_index := k + 1, ab_phase := (if k + 1 = n then BuReady n else BuAccepted (k + 1) n)\<rparr>)"

lemma beat_done_served:
  assumes "served region f ab" "ab_beat_index ab < beats (ab_request ab)"
  shows "apply_beat (BeatCompleted (read_by_beat ab f)) ab = Some (beat_done ab f)"
    "served region (after_beat ab f) (beat_done ab f)"
    "untouched region (Some (x, ab_request ab)) f (after_beat ab f)"
proof -
  let ?q = "ab_request ab" and ?k = "ab_beat_index ab"
  have s: "region_burst region ?q" "length (ab_read_words ab) = beats ?q" "moved f ab"
    using assms(1) by (simp_all add: served_def in_progress_def)
  have small: "4 * ?k + 4 < 2 ^ 64" using s(1) assms(2) by (simp add: region_burst_def)
  have addr: "beat_addr ?q ?k = base_addr ?q + of_nat (4 * ?k)" by (simp add: beat_addr_def mult.commute)
  show "apply_beat (BeatCompleted (read_by_beat ab f)) ab = Some (beat_done ab f)"
    using s(2) assms(2) by (simp add: apply_beat_def beat_done_def Let_def split: option.split)
  have at: "after_beat ab f x = (if 4 * ?k \<le> unat (x - base) \<and> unat (x - base) < 4 * ?k + 4
      then bytes_of ws ! unat (x - base) else f x)" if q: "?q = BurstWrite base ws" for base ws x
  proof -
    have "bytes_of ws ! (4 * ?k + j) = le_bytes32 (ws ! ?k) ! j" if "j < 4" for j
      using assms(2) q that by (simp add: bytes_of_nth)
    from this [of "unat (x - base) - 4 * ?k"] show ?thesis
      using window [OF small, of x base] q addr by (auto simp: after_beat_def stored_at)
  qed
  have offset: "unat (base + of_nat j - base :: u64) = j" if "j < 4 * ?k + 4" for base j
    using that small by (simp add: unat_of_nat)
  have "moved (after_beat ab f) (beat_done ab f)"
  proof (cases ?q)
    case (BurstRead base n kd)
    let ?bs = "map (\<lambda>j. f (beat_addr ?q ?k + of_nat j)) [0..<4]"
    have "bytes_of ((ab_read_words ab)[?k := from_le32_list ?bs]) ! j = f (base + of_nat j)" if j: "j < 4 * (?k + 1)" for j
    proof (cases "j < 4 * ?k")
      case True
      then show ?thesis
        using s(2,3) assms(2) BurstRead by (simp add: bytes_of_update moved_def nth_append)
    next
      case False
      then have l: "j - 4 * ?k < 4" "4 * ?k + (j - 4 * ?k) = j" using j by simp_all
      have "beat_addr ?q ?k + of_nat (j - 4 * ?k) = base + of_nat (4 * ?k + (j - 4 * ?k))"
        using addr BurstRead by (simp only: of_nat_add) simp
      then have "?bs ! (j - 4 * ?k) = f (base + of_nat j)"
        using l by (simp only: l(2) nth_map_upt add_0 diff_zero)
      moreover have "bytes_of ((ab_read_words ab)[?k := from_le32_list ?bs]) ! j = ?bs ! (j - 4 * ?k)"
        using False j s(2) assms(2) BurstRead l(1) by (simp add: bytes_of_update nth_append del: upt_Suc)
      ultimately show ?thesis by simp
    qed
    then show ?thesis
      using BurstRead by (simp add: moved_def beat_done_def Let_def read_by_beat_def after_beat_def del: upt_Suc)
  next
    case (BurstWrite base ws)
    have "after_beat ab f (base + of_nat j) = bytes_of ws ! j" if "j < 4 * (?k + 1)" for j
      using at [OF BurstWrite, of "base + of_nat j"] offset [of j base] that s(3) BurstWrite
      by (auto simp: moved_def)
    then show ?thesis using BurstWrite by (simp add: moved_def beat_done_def Let_def)
  qed
  moreover have "in_progress (beat_done ab f)"
    using s(2) assms(2) by (auto simp: in_progress_def beat_done_def Let_def split: option.split)
  ultimately show "served region (after_beat ab f) (beat_done ab f)"
    using assms(1) by (simp add: served_def beat_done_def Let_def)
  show "untouched region (Some (x, ?q)) f (after_beat ab f)"
  proof (cases ?q)
    case (BurstWrite base ws)
    then show ?thesis using at [OF BurstWrite] assms(2) by (auto simp: untouched_def covers_def)
  qed (simp add: untouched_def after_beat_def)
qed

text \<open>The response of a finished burst, and what it says of the memory.\<close>

definition burst_answer :: "active_burst \<Rightarrow> burst_response" where
  "burst_answer ab =
     (case ab_request ab of
        BurstRead _ _ _ \<Rightarrow> BurstWords (ab_read_words ab)
      | BurstWrite _ ws \<Rightarrow> BurstWritten (length ws))"

lemma served_ready:
  assumes "served region f ab" "ab_phase ab = BuReady n"
  shows "burst_effect region (ab_request ab) f (burst_answer ab) f" "n = beats (ab_request ab)"
proof -
  let ?q = "ab_request ab"
  have p: "length (ab_read_words ab) = beats ?q" "ab_beat_index ab = beats ?q" "moved f ab"
    using assms by (simp_all add: served_def in_progress_def)
  show "n = beats ?q" using assms by (simp add: served_def in_progress_def)
  show "burst_effect region ?q f (burst_answer ab) f"
  proof (cases ?q)
    case (BurstRead base k kd)
    have "bytes_of (ab_read_words ab) ! unat (a - base) = f a" if "covers ?q a" for a
    proof -
      have "unat (a - base) < 4 * ab_beat_index ab" using that p(2) BurstRead by (simp add: covers_def)
      then have "bytes_of (ab_read_words ab) ! unat (a - base) = f (base + of_nat (unat (a - base)))"
        using p(3) BurstRead by (simp only: moved_def burst_request.case)
      then show ?thesis by simp
    qed
    then show ?thesis using BurstRead p(1) by (simp add: burst_effect_def burst_answer_def)
  next
    case (BurstWrite base ws)
    have "f a = bytes_of ws ! unat (a - base)" if "covers ?q a" for a
    proof -
      have "unat (a - base) < 4 * ab_beat_index ab" using that p(2) BurstWrite by (simp add: covers_def)
      then have "f (base + of_nat (unat (a - base))) = bytes_of ws ! unat (a - base)"
        using p(3) BurstWrite by (simp only: moved_def burst_request.case)
      then show ?thesis by simp
    qed
    then show ?thesis using BurstWrite by (simp add: burst_effect_def burst_answer_def)
  qed
qed

lemma served_phase:
  assumes "served region f ab"
  obtains (accepted) x y where "ab_phase ab = BuAccepted x y" "ab_beat_index ab < beats (ab_request ab)"
    | (waiting) x y n where "ab_phase ab = BuInFlight x y n" "ab_beat_index ab < beats (ab_request ab)"
    | (ready) n where "ab_phase ab = BuReady n"
  using assms by (cases "ab_phase ab") (auto simp: served_def in_progress_def)

definition same_burst :: "active_burst \<Rightarrow> active_burst \<Rightarrow> bool" where
  "same_burst ab ab' \<longleftrightarrow> ab_id ab' = ab_id ab \<and> ab_request ab' = ab_request ab"

text \<open>Progress of a burst: a beat is done, or it is accepted and starts to wait, or it waits less.\<close>

fun waits :: "burst_phase \<Rightarrow> nat" where
  "waits (BuInFlight _ _ n) = unat n"
| "waits _ = 0"

definition ahead :: "(active_burst \<times> active_burst) set" where
  "ahead = measures [\<lambda>ab. beats (ab_request ab) - ab_beat_index ab,
     \<lambda>ab. case ab_phase ab of BuAccepted _ _ \<Rightarrow> 1 | _ \<Rightarrow> 0, \<lambda>ab. waits (ab_phase ab)]"

lemma ahead_wf [simp]: "wf ahead"
  by (simp add: ahead_def)

lemma ahead_trans [simp]: "trans ahead"
  by (rule transI) (auto simp: ahead_def)

lemma trans_inv_image_ahead [simp]: "trans (inv_image ahead f)"
  by (rule trans_inv_image) simp

lemma beat_done_ahead:
  "ab_beat_index ab < beats (ab_request ab) \<Longrightarrow> (beat_done ab f, ab) \<in> ahead"
  unfolding ahead_def by (rule measures_less) (simp add: beat_done_def Let_def diff_less_mono2)

subsection \<open>Waiting for a burst\<close>

text \<open>
  \<open>closer\<close> relates a state of the bus to one that was further from the end of its burst. A burst
  that blocks comes closer with every tick, and driving it again does not lead away.
\<close>

locale live_bus = cacheable_bus ops binv peek region
  for ops :: "('b, 'z) burst_ops_scheme" and binv peek region +
  fixes closer :: "('b \<times> 'b) set"
  assumes closer_wf: "wf closer"
    and closer_trans: "trans closer"
    and wait_law: "binv (map_option (\<lambda>i. (i, r)) bid) b \<Longrightarrow> region_burst region r \<Longrightarrow>
      drive_burst_until_blocked ops bid r b = Some (Inr (DriveBusy n), bid', b') \<Longrightarrow>
      (\<forall>x b''. bus_tick ops b' = Some (x, b'') \<longrightarrow> (b'', b') \<in> closer) \<and> (bid \<noteq> None \<longrightarrow> (b', b) \<in> closer\<^sup>=)"
    and idle_law: "binv None b \<Longrightarrow> \<not> bus_is_busy ops b"

text \<open>A bus that serves a region serves every part of it.\<close>

lemma drive_result_part:
  "drive_result binv peek region r b res bid b' \<Longrightarrow> drive_result binv peek (\<lambda>a. p a \<and> region a) r b res bid b'"
proof -
  have "burst_effect region r f x g \<Longrightarrow> burst_effect (\<lambda>a. p a \<and> region a) r f x g" for f g x
    by (cases r) (auto simp: burst_effect_def)
  moreover have "untouched region ob f g \<Longrightarrow> untouched (\<lambda>a. p a \<and> region a) ob f g" for f g ob
    by (simp add: untouched_def)
  ultimately show "drive_result binv peek region r b res bid b' \<Longrightarrow> ?thesis" unfolding drive_result_def by blast
qed

lemma region_burst_part: "region_burst (\<lambda>a. p a \<and> region a) r \<Longrightarrow> region_burst region r"
  by (simp add: region_burst_def)

context live_bus begin

lemma part: "live_bus ops binv peek (\<lambda>a. p a \<and> region a) closer"
proof
  fix r bid b
  assume b: "binv (map_option (\<lambda>i. (i, r)) bid) b" "region_burst (\<lambda>a. p a \<and> region a) r"
  note r = region_burst_part [OF b(2)]
  show "\<exists>res bid' b'. drive_burst_until_blocked ops bid r b = Some (res, bid', b') \<and>
      drive_result binv peek (\<lambda>a. p a \<and> region a) r b res bid' b'"
  proof -
    obtain res bid' b' where d: "drive_burst_until_blocked ops bid r b = Some (res, bid', b')"
        "drive_result binv peek region r b res bid' b'"
      using drive_law [OF b(1) r] by blast
    from drive_result_part [OF d(2)] show ?thesis using d(1) by blast
  qed
  show "(\<forall>x b''. bus_tick ops b' = Some (x, b'') \<longrightarrow> (b'', b') \<in> closer) \<and> (bid \<noteq> None \<longrightarrow> (b', b) \<in> closer\<^sup>=)"
    if "drive_burst_until_blocked ops bid r b = Some (Inr (DriveBusy n), bid', b')" for n bid' b'
    using wait_law [OF b(1) r that] .
next
  fix ob b
  assume "binv ob b"
  from wp_mono [OF tick_law [OF this]]
  show "wp (bus_tick ops b) (\<lambda>_ b'. binv ob b' \<and> untouched (\<lambda>a. p a \<and> region a) ob (peek b) (peek b'))"
    by (simp add: untouched_def)
qed (use closer_wf closer_trans idle_law in auto)

end

subsection \<open>The contract of a server\<close>

locale burst_server =
  fixes ops :: "('b, 'z) burst_ops_scheme"
    and idle :: "'b \<Rightarrow> bool"
    and in_service :: "active_burst \<Rightarrow> 'b \<Rightarrow> bool"
    and peek :: "'b \<Rightarrow> u64 \<Rightarrow> u8"
    and region :: "u64 \<Rightarrow> bool"
    and nearer :: "('b \<times> 'b) set"
  assumes serving_law: "in_service ab b \<Longrightarrow>
      served region (peek b) ab \<and> bus_burst_phase ops b (ab_id ab) = Some (ab_phase ab)"
    and submit_law: "idle b \<Longrightarrow> region_burst region q \<Longrightarrow>
      \<exists>ab b'. bus_submit_burst ops q b = Some (Inr (ab_id ab), b') \<and> in_service ab b' \<and> ab_request ab = q \<and>
        untouched region None (peek b) (peek b')"
    and advance_law: "in_service ab b \<Longrightarrow> ab_phase ab = BuAccepted x y \<Longrightarrow>
      \<exists>ab' b'. bus_advance_burst ops (ab_id ab) b = Some (Some (ab_phase ab'), b') \<and> in_service ab' b' \<and>
        same_burst ab ab' \<and> untouched region (Some (ab_id ab, ab_request ab)) (peek b) (peek b') \<and> (b', b) \<in> nearer"
    and take_law: "in_service ab b \<Longrightarrow> ab_phase ab = BuReady n \<Longrightarrow>
      \<exists>b'. bus_take_burst_response ops (ab_id ab) b = Some (Some (Inr (burst_answer ab)), b') \<and> idle b' \<and>
        untouched region None (peek b) (peek b')"
    and idle_tick: "idle b \<Longrightarrow>
      wp (bus_tick ops b) (\<lambda>_ b'. idle b' \<and> untouched region None (peek b) (peek b'))"
    and serving_tick: "in_service ab b \<Longrightarrow>
      wp (bus_tick ops b) (\<lambda>_ b'. \<exists>ab'. in_service ab' b' \<and> same_burst ab ab' \<and>
        untouched region (Some (ab_id ab, ab_request ab)) (peek b) (peek b') \<and>
        ((\<exists>n. ab_phase ab = BuReady n) \<or> (b', b) \<in> nearer))"
    and nearer_wf: "wf nearer"
    and nearer_trans: "trans nearer"
    and idle_quiet: "idle b \<Longrightarrow> \<not> bus_is_busy ops b"

definition burst_state :: "('b \<Rightarrow> bool) \<Rightarrow> (active_burst \<Rightarrow> 'b \<Rightarrow> bool) \<Rightarrow> open_burst \<Rightarrow> 'b \<Rightarrow> bool" where
  "burst_state idle in_service ob b \<longleftrightarrow>
     (case ob of
        None \<Rightarrow> idle b
      | Some (i, q) \<Rightarrow> \<exists>ab. in_service ab b \<and> ab_id ab = i \<and> ab_request ab = q)"

context burst_server begin

definition driven :: "active_burst \<Rightarrow> 'b \<Rightarrow> bus_error + burst_response burst_drive \<Rightarrow> u64 option \<Rightarrow> 'b \<Rightarrow> bool" where
  "driven ab b res bid b' \<longleftrightarrow> drive_result (burst_state idle in_service) peek region (ab_request ab) b res bid b' \<and>
     (\<forall>n. res = Inr (DriveBusy n) \<longrightarrow>
        (\<forall>x b''. bus_tick ops b' = Some (x, b'') \<longrightarrow> (b'', b') \<in> nearer) \<and> (b', b) \<in> nearer\<^sup>=)"

lemma blocked:
  assumes "in_service ab b" "ab_phase ab = BuInFlight x y n"
  shows "driven ab b (Inr (DriveBusy n)) (Some (ab_id ab)) b"
proof -
  have "burst_state idle in_service (Some (ab_id ab, ab_request ab)) b" using assms(1) by (auto simp: burst_state_def)
  then show ?thesis
    using assms(2) wp_result [OF serving_tick [OF assms(1)]] by (auto simp: driven_def drive_result_def)
qed

lemma driven_step:
  assumes "driven ab' b1 res bid b'" "same_burst ab ab'" "(b1, b) \<in> nearer"
    "untouched region (Some (ab_id ab, ab_request ab)) (peek b) (peek b1)"
  shows "driven ab b res bid b'"
  using assms drive_result_step [OF assms(4)] transD [OF nearer_trans _ assms(3)]
  by (auto simp: driven_def same_burst_def)

lemma drive_serving:
  "in_service ab b \<Longrightarrow> \<exists>res bid b'. drive_loop ops (ab_id ab) b = Some (res, bid, b') \<and> driven ab b res bid b'"
proof (induction b arbitrary: ab rule: wf_induct_rule [OF nearer_wf])
  case (1 b)
  have s: "served region (peek b) ab" "bus_burst_phase ops b (ab_id ab) = Some (ab_phase ab)"
    using serving_law [OF 1(2)] by simp_all
  note loop = drive_loop.simps [of ops "ab_id ab" b]
  from s(1) show ?case
  proof (cases rule: served_phase)
    case (accepted x y)
    obtain ab1 b1 where a: "bus_advance_burst ops (ab_id ab) b = Some (Some (ab_phase ab1), b1)" "in_service ab1 b1"
        "same_burst ab ab1" "untouched region (Some (ab_id ab, ab_request ab)) (peek b) (peek b1)" "(b1, b) \<in> nearer"
      using advance_law [OF 1(2) accepted(1)] by blast
    note step = driven_step [OF _ a(3,5,4)]
    have s1: "served region (peek b1) ab1" using serving_law [OF a(2)] by simp
    show ?thesis
    proof (cases "\<exists>x y n. ab_phase ab1 = BuInFlight x y n")
      case True
      then obtain x1 y1 n where f: "ab_phase ab1 = BuInFlight x1 y1 n" by blast
      then have "drive_loop ops (ab_id ab) b = Some (Inr (DriveBusy n), Some (ab_id ab), b1)"
        using loop s(2) accepted a(1) by simp
      then show ?thesis using step [OF blocked [OF a(2) f]] a(3) by (simp add: same_burst_def)
    next
      case False
      from s1 have "drive_loop ops (ab_id ab) b = drive_loop ops (ab_id ab1) b1"
        by (cases rule: served_phase) (use False loop s(2) accepted a(1,3) in \<open>simp_all add: same_burst_def\<close>)
      then show ?thesis using 1(1) [OF a(5,2)] step by auto
    qed
  next
    case (waiting x y n)
    then have "drive_loop ops (ab_id ab) b = Some (Inr (DriveBusy n), Some (ab_id ab), b)" using loop s(2) by simp
    then show ?thesis using blocked [OF 1(2) waiting(1)] by blast
  next
    case (ready n)
    obtain b' where t: "bus_take_burst_response ops (ab_id ab) b = Some (Some (Inr (burst_answer ab)), b')" "idle b'"
        "untouched region None (peek b) (peek b')"
      using take_law [OF 1(2) ready] by blast
    have "\<forall>a. region a \<longrightarrow> peek b' a = peek b a" "\<forall>a. covers (ab_request ab) a \<longrightarrow> region a"
      using t(3) s(1) by (simp_all add: untouched_def served_def region_burst_def)
    with served_ready(1) [OF s(1) ready]
    have "burst_effect region (ab_request ab) (peek b) (burst_answer ab) (peek b')"
      by (cases "ab_request ab") (auto simp: burst_effect_def)
    then have "driven ab b (Inr (DriveReady (burst_answer ab))) None b'"
      using t(2) by (simp add: driven_def drive_result_def burst_state_def)
    then show ?thesis using loop s(2) ready t(1) by auto
  qed
qed

lemma drive_server:
  assumes "burst_state idle in_service (map_option (\<lambda>i. (i, q)) bid) b" "region_burst region q"
  shows "\<exists>res bid' b'. drive_burst_until_blocked ops bid q b = Some (res, bid', b') \<and>
    drive_result (burst_state idle in_service) peek region q b res bid' b' \<and>
    (\<forall>n. res = Inr (DriveBusy n) \<longrightarrow>
      (\<forall>x b''. bus_tick ops b' = Some (x, b'') \<longrightarrow> (b'', b') \<in> nearer) \<and> (bid \<noteq> None \<longrightarrow> (b', b) \<in> nearer\<^sup>=))"
proof (cases bid)
  case None
  then have "idle b" using assms(1) by (simp add: burst_state_def)
  from submit_law [OF this assms(2)] obtain ab b1 where m: "bus_submit_burst ops q b = Some (Inr (ab_id ab), b1)"
      "in_service ab b1" "ab_request ab = q" "untouched region None (peek b) (peek b1)"
    by blast
  obtain res bid' b' where d: "drive_loop ops (ab_id ab) b1 = Some (res, bid', b')" "driven ab b1 res bid' b'"
    using drive_serving [OF m(2)] by blast
  have "drive_result (burst_state idle in_service) peek region q b res bid' b'"
  proof (rule drive_result_step)
    show "untouched region (Some (ab_id ab, q)) (peek b) (peek b1)" using m(4) by (simp add: untouched_def)
    show "drive_result (burst_state idle in_service) peek region q b1 res bid' b'" using d(2) m(3) by (simp add: driven_def)
  qed
  then show ?thesis using None m(1) d by (auto simp: drive_burst_until_blocked_def driven_def)
next
  case (Some i)
  then obtain ab where ab: "in_service ab b" "ab_id ab = i" "ab_request ab = q"
    using assms(1) by (auto simp: burst_state_def)
  then show ?thesis
    using drive_serving [OF ab(1)] Some by (auto simp: drive_burst_until_blocked_def driven_def)
qed

end

text \<open>A server is a bus that a bank can cache, and on which a bank does not wait forever.\<close>

sublocale burst_server \<subseteq> live_bus ops "burst_state idle in_service" peek region nearer
proof
  fix q bid b
  assume a: "burst_state idle in_service (map_option (\<lambda>i. (i, q)) bid) b" "region_burst region q"
  from drive_server [OF a] show "\<exists>res bid' b'. drive_burst_until_blocked ops bid q b = Some (res, bid', b') \<and>
      drive_result (burst_state idle in_service) peek region q b res bid' b'"
    by blast
  fix n bid' b'
  assume "drive_burst_until_blocked ops bid q b = Some (Inr (DriveBusy n), bid', b')"
  with drive_server [OF a]
  show "(\<forall>x b''. bus_tick ops b' = Some (x, b'') \<longrightarrow> (b'', b') \<in> nearer) \<and> (bid \<noteq> None \<longrightarrow> (b', b) \<in> nearer\<^sup>=)"
    by auto
next
  fix ob b
  assume o: "burst_state idle in_service ob b"
  show "wp (bus_tick ops b) (\<lambda>_ b'. burst_state idle in_service ob b' \<and> untouched region ob (peek b) (peek b'))"
  proof (cases ob)
    case None
    then show ?thesis using o wp_mono [OF idle_tick [of b]] by (simp add: burst_state_def)
  next
    case (Some x)
    then obtain ab where ab: "in_service ab b" "ob = Some (ab_id ab, ab_request ab)"
      using o by (cases x) (auto simp: burst_state_def)
    then show ?thesis
      by (auto simp: burst_state_def same_burst_def intro!: wp_mono [OF serving_tick [OF ab(1)]])
  qed
qed (auto simp: burst_state_def idle_quiet nearer_wf nearer_trans)

end
