(* ===== verification/Cache_Progress.thy ===== *)
theory Cache_Progress
  imports Burst_Server
begin

text \<open>
  A bank does not wait forever. Over a \<open>live_bus\<close>, every attempt of an access that is \<open>Busy\<close> leaves an
  operation for the line of the access, whose open burst comes closer with every tick; the operation
  goes through its write-back and its refill, and then the access has its result. So the attempts
  between ticks go down a well-founded relation on the bank and its bus.
\<close>

text \<open>What is left of the pending operation: bursts to submit and bursts to wait for.\<close>

definition op_stage :: "pending_line_op option \<Rightarrow> nat" where
  "op_stage p =
     (case p of
        None \<Rightarrow> 5
      | Some p \<Rightarrow>
          (case lo_write_back p of
             Some w \<Rightarrow> if wb_burst_id w = None then 4 else 3
           | None \<Rightarrow> if rf_burst_id (lo_refill p) = None then 2 else 1))"

definition bank_closer :: "('b \<times> 'b) set \<Rightarrow> ((cache_bank \<times> 'b) \<times> (cache_bank \<times> 'b)) set" where
  "bank_closer R = inv_image (less_than <*lex*> R) (\<lambda>(k, b). (op_stage (cb_pending k), b))"

lemma bank_closer_wf: "wf R \<Longrightarrow> wf (bank_closer R)"
  by (simp add: bank_closer_def wf_lex_prod)

lemma bank_closer_trans: "trans R \<Longrightarrow> trans (bank_closer R)"
  by (simp add: bank_closer_def trans_inv_image)

lemma bank_closer_iff:
  "((k', b'), (k, b)) \<in> bank_closer R \<longleftrightarrow> op_stage (cb_pending k') < op_stage (cb_pending k) \<or>
     op_stage (cb_pending k') = op_stage (cb_pending k) \<and> (b', b) \<in> R"
  by (simp add: bank_closer_def)

definition bank_within :: "('b \<times> 'b) set \<Rightarrow> ((cache_bank \<times> 'b) \<times> (cache_bank \<times> 'b)) set" where
  "bank_within R = {((k', b'), (k, b)). op_stage (cb_pending k') < op_stage (cb_pending k) \<or>
     op_stage (cb_pending k') = op_stage (cb_pending k) \<and> (b', b) \<in> R\<^sup>=}"

lemma within_closer:
  assumes "trans R" "(x, y) \<in> bank_within R" "(y, z) \<in> bank_closer R"
  shows "(x, z) \<in> bank_closer R"
  using assms transD [OF assms(1)]
  by (cases x; cases y; cases z) (auto simp: bank_within_def bank_closer_iff)

lemma closer_within:
  assumes "trans R" "(x, y) \<in> bank_closer R" "(y, z) \<in> bank_within R"
  shows "(x, z) \<in> bank_closer R"
  using assms transD [OF assms(1)]
  by (cases x; cases y; cases z) (auto simp: bank_within_def bank_closer_iff)

text \<open>The operation that is pending, if any, is for the line of \<open>a\<close>.\<close>

definition settled :: "u64 \<Rightarrow> cache_bank \<Rightarrow> bool" where
  "settled a k \<longleftrightarrow> (\<forall>p. cb_pending k = Some p \<longrightarrow> rf_line_base (lo_refill p) = line_base k a)"

lemma op_stage_le: "op_stage p \<le> 5"
  by (simp add: op_stage_def split: option.split)

context live_bus begin

definition ticks_closer :: "'b \<Rightarrow> bool" where
  "ticks_closer b \<longleftrightarrow> (\<forall>x b'. bus_tick ops b = Some (x, b') \<longrightarrow> (b', b) \<in> closer)"

text \<open>An access that was \<open>Busy\<close> waits for an operation of its line.\<close>

definition waits_for :: "u64 \<Rightarrow> cache_bank \<times> 'b \<Rightarrow> bool" where
  "waits_for a st \<longleftrightarrow> cb_pending (fst st) \<noteq> None \<and> settled a (fst st) \<and> ticks_closer (snd st)"

lemma busy_refill:
  assumes "cinv (k\<lparr>cb_pending := Some p\<rparr>, b)" "lo_write_back p = None"
    "continue_refill ops p (k, b) = Some (Inl e, (k', b'))"
  shows "\<exists>p'. k' = k\<lparr>cb_pending := Some p'\<rparr> \<and> rf_line_base (lo_refill p') = rf_line_base (lo_refill p) \<and>
    op_stage (Some p') = 1 \<and> ticks_closer b' \<and> (rf_burst_id (lo_refill p) \<noteq> None \<longrightarrow> (b', b) \<in> closer\<^sup>=)"
proof -
  let ?i = "rf_burst_id (lo_refill p)" and ?q = "refill_request (lo_refill p)"
  note r = refill_region(1) [OF assms(1)] refill_region(2) [OF assms(1,2)]
  from r(2,1) show ?thesis
  proof (cases rule: drive_cases)
    case (busy n i b1)
    from wait_law [OF r(2,1) busy(1)] show ?thesis
      using assms(2,3) busy(1)
      by (auto simp: continue_refill_def progress_refill_def refill_request_def ticks_closer_def op_stage_def)
  next
    case (ready resp b1)
    then show ?thesis
      using assms(3)
      by (auto simp: continue_refill_def progress_refill_def refill_request_def Let_def
          split: burst_response.splits option.splits bind_splits)
  qed
qed

lemma busy_victim:
  assumes "cinv (k\<lparr>cb_pending := Some p\<rparr>, b)" "continue_victim ops p (k\<lparr>cb_pending := None\<rparr>, b) = Some (Inl e, (k', b'))"
  shows "\<exists>p'. k' = k\<lparr>cb_pending := Some p'\<rparr> \<and> lo_refill p' = lo_refill p \<and> op_stage (Some p') = 3 \<and>
    3 \<le> op_stage (Some p) \<and> ticks_closer b' \<and> (op_stage (Some p) = 3 \<longrightarrow> (b', b) \<in> closer\<^sup>=)"
proof -
  obtain w where w: "lo_write_back p = Some w"
    using assms(2) by (auto simp: continue_victim_def split: option.splits)
  note r = victim_region(2,1) [OF assms(1) w]
  from r show ?thesis
  proof (cases rule: drive_cases)
    case (busy n i b1)
    from wait_law [OF r busy(1)] show ?thesis
      using assms(2) w busy(1)
      by (auto simp: continue_victim_def progress_write_back_def write_back_request_def ticks_closer_def op_stage_def)
  next
    case (ready resp b1)
    then show ?thesis
      using assms(2) w
      by (auto simp: continue_victim_def progress_write_back_def write_back_request_def Let_def
          split: burst_response.splits)
  qed
qed

lemma busy_pending:
  assumes "cinv (k, b)" "cb_pending k = Some p" "continue_pending ops (k, b) = Some (Inl e, (k', b'))"
  shows "\<exists>p'. cb_pending k' = Some p' \<and> rf_line_base (lo_refill p') = rf_line_base (lo_refill p) \<and>
    ticks_closer b' \<and> ((k', b'), (k, b)) \<in> bank_within closer"
proof -
  have k: "k\<lparr>cb_pending := Some p\<rparr> = k" using assms(2) by (cases k) simp
  have ci: "cinv (k\<lparr>cb_pending := Some p\<rparr>, b)" using assms(1) k by simp
  obtain r k1 b1 where v: "continue_victim ops p (k\<lparr>cb_pending := None\<rparr>, b) = Some (r, (k1, b1))"
      "\<And>p1. r = Inr p1 \<Longrightarrow> lo_write_back p1 = None \<and> cb_pending k1 = None \<and> lo_refill p1 = lo_refill p \<and>
        cinv (k1\<lparr>cb_pending := Some p1\<rparr>, b1)"
    using continue_victim_spec [OF ci] by (auto simp: silent_def elim!: wp_elim)
  show ?thesis
  proof (cases r)
    case (Inl e')
    then have same: "k' = k1" "b' = b1" using assms(2,3) v(1) by (simp_all add: continue_pending_def)
    show ?thesis using busy_victim [OF ci v(1) [unfolded Inl]] same assms(2) by (auto simp: bank_within_def)
  next
    case (Inr p1)
    then have f: "continue_refill ops p1 (k1, b1) = Some (Inl e, (k', b'))"
      using assms(2,3) v(1) by (simp add: continue_pending_def)
    note p1 = v(2) [OF Inr]
    then have "cinv (k1\<lparr>cb_pending := Some p1\<rparr>, b1)" "lo_write_back p1 = None" by simp_all
    from busy_refill [OF this f] obtain p' where p': "k' = k1\<lparr>cb_pending := Some p'\<rparr>"
        "rf_line_base (lo_refill p') = rf_line_base (lo_refill p1)" "op_stage (Some p') = 1" "ticks_closer b'"
        "rf_burst_id (lo_refill p1) \<noteq> None \<longrightarrow> (b', b1) \<in> closer\<^sup>="
      by blast
    have "((k', b'), (k, b)) \<in> bank_within closer"
    proof (cases "lo_write_back p")
      case None
      then have "p1 = p" "b1 = b" using v(1) Inr by (simp_all add: continue_victim_def)
      then show ?thesis
        using p'(1,3,5) assms(2) None by (auto simp: bank_within_def op_stage_def split: if_splits)
    next
      case (Some w)
      then have "3 \<le> op_stage (Some p)" by (simp add: op_stage_def)
      then show ?thesis using p'(1,3) assms(2) by (simp add: bank_within_def)
    qed
    then show ?thesis using p' p1 by simp
  qed
qed

lemma busy_fill:
  assumes "cinv (k, b)" "cb_pending k = None" "region a" "\<not> holds_line k (line_base k a)"
    "fill_line ops (decode_address k a) kind count (k, b) = Some (Inl e, st')"
  shows "waits_for a st' \<and> (st', (k, b)) \<in> bank_within closer"
proof -
  obtain k1 p where k1: "start_pending (decode_address k a) kind count k = Some k1" "cb_pending k1 = Some p"
      "rf_line_base (lo_refill p) = line_base k a" "silent (k, b) (k1, b)"
    using fill_started [OF assms(1-4)] by blast
  have ci: "cinv (k1, b)" "cb_config k1 = cb_config k" using k1(4) by (simp_all add: silent_def)
  obtain r k2 b2 where c: "continue_pending ops (k1, b) = Some (r, (k2, b2))" "cb_config k2 = cb_config k1"
    using continue_pending_spec [OF ci(1) k1(2)] by (auto simp: progress_def silent_def elim!: wp_elim)
  then have e: "continue_pending ops (k1, b) = Some (Inl e, (k2, b2))" "st' = (k2, b2)"
    using assms(5) k1(1) by (cases r; auto simp: fill_line_def split: option.splits)+
  obtain p' where p': "cb_pending k2 = Some p'" "rf_line_base (lo_refill p') = line_base k a"
      "ticks_closer b2" "((k2, b2), (k1, b)) \<in> bank_within closer"
    using busy_pending [OF ci(1) k1(2) e(1)] k1(3) by auto
  have "line_base k2 a = line_base k a" using c(2) ci(2) by (simp add: line_base_def)
  then have "waits_for a st'" using p' e(2) by (simp add: waits_for_def settled_def)
  moreover have "op_stage (cb_pending k2) < op_stage (cb_pending k)"
    using p'(1) assms(2) by (auto simp: op_stage_def split: option.split)
  ultimately show ?thesis using e(2) by (simp add: bank_within_def)
qed

lemma busy_join:
  assumes "cinv (k, b)" "region a" "settled a k" "join_pending ops (decode_address k a) (k, b) = Some (r, (k1, b1))"
  shows "r = Inl e \<Longrightarrow> waits_for a (k1, b1) \<and> ((k1, b1), (k, b)) \<in> bank_within closer"
    "r = Inr u \<Longrightarrow> silent (k, b) (k1, b1) \<and> cb_pending k1 = None \<and>
      (holds_line k1 (line_base k1 a) \<or> k1 = k \<and> b1 = b)"
proof -
  obtain n where g: "geometry k n" using shaped_geometry [OF cinv_shaped [OF assms(1)]] by blast
  have base: "da_line_base (decode_address k a) = line_base k a" using decode_address_fields(1) [OF g] .
  show "waits_for a (k1, b1) \<and> ((k1, b1), (k, b)) \<in> bank_within closer" if "r = Inl e"
  proof (cases "cb_pending k")
    case None
    then show ?thesis using assms(4) that by (simp add: join_pending_def)
  next
    case (Some p)
    then have c: "continue_pending ops (k, b) = Some (Inl e, (k1, b1))"
      using assms(3,4) base that by (simp add: join_pending_def settled_def matches_line_def)
    have "cb_config k1 = cb_config k"
      using continue_pending_spec [OF assms(1) Some] c by (auto simp: progress_def silent_def elim!: wp_elim)
    then show ?thesis
      using busy_pending [OF assms(1) Some c] assms(3) Some by (auto simp: waits_for_def settled_def line_base_def)
  qed
  show "silent (k, b) (k1, b1) \<and> cb_pending k1 = None \<and> (holds_line k1 (line_base k1 a) \<or> k1 = k \<and> b1 = b)" if "r = Inr u"
  proof (cases "cb_pending k")
    case None
    then show ?thesis using assms(1,4) that by (auto simp: join_pending_def silent_def)
  next
    case (Some p)
    then have c: "continue_pending ops (k, b) = Some (Inr u, (k1, b1))"
      using assms(3,4) base that by (simp add: join_pending_def settled_def matches_line_def)
    then show ?thesis
      using continue_pending_spec [OF assms(1) Some] assms(3) Some
      by (auto simp: progress_def silent_def settled_def line_base_def elim!: wp_elim)
  qed
qed

lemma busy_ensure:
  assumes "cinv (k, b)" "region a" "settled a k" "ensure_line ops a kind (k, b) = Some (Inl e, st')"
  shows "waits_for a st' \<and> (st', (k, b)) \<in> bank_within closer"
proof -
  let ?d = "decode_address k a"
  obtain r k1 b1 where j: "join_pending ops ?d (k, b) = Some (r, (k1, b1))"
    using join_pending_spec [OF assms(1), of ?d] by (auto elim!: wp_elim)
  note join = busy_join [OF assms(1-3) j]
  show ?thesis
  proof (cases r)
    case (Inl e')
    then show ?thesis using join(1) [OF Inl] assms(4) j by (simp add: ensure_line_def)
  next
    case (Inr u)
    note s = join(2) [OF Inr]
    have ci: "cinv (k1, b1)" "cb_pending k1 = None" "cb_config k1 = cb_config k" using s by (simp_all add: silent_def)
    have d: "?d = decode_address k1 a" using same_config(2) [OF ci(3)] by simp
    show ?thesis
    proof (cases "holds_line k1 (line_base k1 a)")
      case True
      then show ?thesis using held_hit [OF ci(1,2) True] assms(4) j Inr d by (auto simp: ensure_line_def)
    next
      case False
      then have same: "k1 = k" "b1 = b" using s by simp_all
      have miss: "lookup_way k ?d = Some None"
        using lookup_miss [OF cinv_shaped [OF assms(1)]] False same by simp
      obtain r2 st2 where f: "fill_line ops ?d kind True (k, b) = Some (r2, st2)"
        using fill_line_spec [OF assms(1) _ assms(2), of kind True] ci(2) False same by (auto elim!: wp_elim)
      then show ?thesis
        using busy_fill [OF assms(1) _ assms(2), of kind True e st'] ci(2) False same assms(4) j Inr miss
        by (cases r2) (auto simp: ensure_line_def)
    qed
  qed
qed

text \<open>The accesses of a bank: loads of every width, fetches and stores.\<close>

lemma and_then_Inl:
  "and_then m f = Some (Inl e, s) \<Longrightarrow> (\<And>v st. f v st \<noteq> Some (Inl e, s)) \<Longrightarrow> m = Some (Inl e, s)"
  by (auto simp: and_then_def split: option.splits sum.splits)

lemma busy_load_word:
  assumes "cinv (k, b)" "region a" "settled a k" "load_word ops a kind (k, b) = Some (Inl e, st')"
  shows "waits_for a st' \<and> (st', (k, b)) \<in> bank_within closer"
proof (rule busy_ensure [OF assms(1-3)])
  show "ensure_line ops a kind (k, b) = Some (Inl e, st')"
    using assms(4) unfolding load_word_def by (rule and_then_Inl) (auto split: option.splits prod.splits)
qed

lemma store_line_answers:
  assumes "cinv (k, b)"
  shows "store_to_line ops d way s (k, b) \<noteq> Some (Inl e, st')"
  using bank_ok_parts(5) [of k "peek b"] assms by (auto simp: cinv_def store_to_line_def)

lemma busy_store:
  assumes "cinv (k, b)" "region (so_addr s)" "store_aligned s" "cc_allocation (cb_config k) = WriteAllocate"
    "settled (so_addr s) k" "bank_store ops s (k, b) = Some (Inl e, st')"
  shows "waits_for (so_addr s) st' \<and> (st', (k, b)) \<in> bank_within closer"
proof -
  let ?a = "so_addr s" and ?k = "note_write_access k"
  let ?d = "decode_address ?k ?a"
  have ci: "cinv (?k, b)" "cb_config ?k = cb_config k" "cb_pending ?k = cb_pending k"
    using assms(1) by (simp_all add: note_write_access_def)
  have within: "(st', (k, b)) \<in> bank_within closer" if "(st', (?k, b)) \<in> bank_within closer"
    using that ci(3) by (simp add: bank_within_def split: prod.splits)
  have cached: "caches_address ?k ?a" "caches_line_containing ?k ?a"
    using cacheable_address [OF cinv_shaped [OF ci(1)], of ?a] ci(1) assms(2) by (simp_all add: cinv_def)
  have set: "settled ?a ?k" using assms(5) ci(2,3) by (simp add: settled_def line_base_def)
  obtain r k1 b1 where j: "join_pending ops ?d (?k, b) = Some (r, (k1, b1))"
    using join_pending_spec [OF ci(1), of ?d] by (auto elim!: wp_elim)
  note join = busy_join [OF ci(1) assms(2) set j]
  show ?thesis
  proof (cases r)
    case (Inl e')
    then show ?thesis
      using join(1) [OF Inl] assms(6) j cached within by (simp add: bank_store_def Let_def)
  next
    case (Inr u)
    note s = join(2) [OF Inr]
    have c1: "cinv (k1, b1)" "cb_pending k1 = None" "cb_config k1 = cb_config ?k" using s by (simp_all add: silent_def)
    have d: "?d = decode_address k1 ?a" using same_config(2) [OF c1(3)] by simp
    have answers: "store_to_line ops d way s (k1, b1) \<noteq> Some (Inl e, st')" for d way
      by (rule store_line_answers [OF c1(1)])
    show ?thesis
    proof (cases "holds_line k1 (line_base k1 ?a)")
      case True
      then show ?thesis
        using held_hit [OF c1(1,2) True] assms(6) j Inr d cached answers
        by (auto simp: bank_store_def Let_def)
    next
      case False
      then have same: "k1 = ?k" "b1 = b" using s by simp_all
      have miss: "lookup_way ?k ?d = Some None"
        using lookup_miss [OF cinv_shaped [OF ci(1)]] False same by simp
      have none: "cb_pending ?k = None" using c1(2) same by simp
      have held: "\<not> holds_line ?k (line_base ?k ?a)" using False same by simp
      obtain r2 st2 where f: "fill_line ops ?d RefillLoad False (?k, b) = Some (r2, st2)" "cinv st2"
        using fill_line_spec [OF ci(1) none assms(2) held, of RefillLoad False] by (auto simp: progress_def silent_def elim!: wp_elim)
      have "and_then (fill_line ops ?d RefillLoad False (?k, b)) (\<lambda>way. store_to_line ops ?d way s) = Some (Inl e, st')"
        using assms(4,6) j Inr miss same cached ci(2) by (simp add: bank_store_def Let_def)
      then have "fill_line ops ?d RefillLoad False (?k, b) = Some (Inl e, st')"
        using f store_line_answers [of "fst st2" "snd st2" ?d _ s e st'] by (cases r2) auto
      from busy_fill [OF ci(1) none assms(2) held this] show ?thesis using within by blast
    qed
  qed
qed

lemma busy_part:
  assumes "cinv (k, b)" "region a" "settled a k"
    "and_then (load_word ops (a AND NOT 3) kind (k, b)) (part_of_word f) = Some (Inl e, st')"
  shows "waits_for a st' \<and> (st', (k, b)) \<in> bank_within closer"
proof -
  have sh: "shaped k" using cinv_shaped [OF assms(1)] .
  have base: "line_base k (a AND NOT 3) = line_base k a" using word_part(4) [OF sh] .
  have r: "region (a AND NOT 3)"
    using assms(1,2) base caches_line_base [OF sh, of a] caches_line_base [OF sh, of "a AND NOT 3"]
    by (simp add: cinv_def)
  have "unat (a AND NOT 3) mod 4 = 0" using word_part(1) [OF sh] .
  note spec = load_word_spec [OF assms(1) r this, of kind]
  have l: "load_word ops (a AND NOT 3) kind (k, b) = Some (Inl e, st')"
    using assms(4) by (rule and_then_Inl) (auto simp: part_of_word_def)
  moreover have "settled (a AND NOT 3) k" using assms(3) base by (simp add: settled_def)
  ultimately have w: "waits_for (a AND NOT 3) st' \<and> (st', (k, b)) \<in> bank_within closer"
    using busy_load_word [OF assms(1) r] by blast
  have "cb_config (fst st') = cb_config k"
    using spec l by (auto simp: progress_def silent_def elim!: wp_elim)
  then have "line_base (fst st') (a AND NOT 3) = line_base (fst st') a" using base by (simp add: line_base_def)
  then show ?thesis using w by (simp add: waits_for_def settled_def)
qed

lemma busy_loads:
  assumes "cinv (k, b)" "region a" "settled a k"
  shows "bank_load8 ops a (k, b) = Some (Inl e, st') \<Longrightarrow> waits_for a st' \<and> (st', (k, b)) \<in> bank_within closer"
    "unat a mod 2 = 0 \<Longrightarrow> region (a + 1) \<Longrightarrow> bank_load16 ops a (k, b) = Some (Inl e, st') \<Longrightarrow>
      waits_for a st' \<and> (st', (k, b)) \<in> bank_within closer"
    "unat a mod 4 = 0 \<Longrightarrow> bank_load32 ops a (k, b) = Some (Inl e, st') \<Longrightarrow>
      waits_for a st' \<and> (st', (k, b)) \<in> bank_within closer"
    "unat a mod 4 = 0 \<Longrightarrow> bank_fetch32 ops a (k, b) = Some (Inl e, st') \<Longrightarrow>
      waits_for a st' \<and> (st', (k, b)) \<in> bank_within closer"
  using busy_part [OF assms, of _ _ e st'] busy_load_word [OF assms, of _ e st'] cached_conditions [OF assms(1)] assms(2)
  by (auto simp: bank_load8_def bank_load16_def bank_load32_def bank_fetch32_def misaligned_or_def read_through_def
      load_cached_byte_def load_cached_half_def aligned_mod cached_half_def cached_at_def)

text \<open>A tick brings a waiting bank closer.\<close>

lemma waiting_tick:
  assumes "waits_for a (k, b)" "bus_tick ops b = Some (x, b')"
  shows "((k, b'), (k, b)) \<in> bank_closer closer" "settled a k"
  using assms by (auto simp: waits_for_def ticks_closer_def bank_closer_iff)

end

end
