(* ===== verification/Cache_Stack.thy ===== *)
theory Cache_Stack
  imports Cache_Progress
begin

text \<open>
  The unified cache as the bus below another bank (\<open>DirectMappedCache\<close> implements \<open>BurstBus\<close>): over
  a \<open>live_bus\<close>, a write-back and write-allocate unified cache is itself a \<open>burst_server\<close>. Its memory
  is what its bank shows, and a beat of a burst is a word access through the bank.
\<close>

subsection \<open>Beats through a bank\<close>

text \<open>The burst that the unified cache runs, as a burst that is served.\<close>

definition beat_state :: "active_cache_burst \<Rightarrow> active_burst" where
  "beat_state cu = \<lparr>ab_id = cu_id cu, ab_device_index = 0, ab_request = cu_request cu, ab_beat_index = cu_beat_index cu,
     ab_read_words = cu_read_words cu, ab_phase = cu_phase cu\<rparr>"

lemma beat_state_sel [simp]:
  "ab_id (beat_state cu) = cu_id cu" "ab_request (beat_state cu) = cu_request cu"
  "ab_beat_index (beat_state cu) = cu_beat_index cu" "ab_read_words (beat_state cu) = cu_read_words cu"
  "ab_phase (beat_state cu) = cu_phase cu"
  by (simp_all add: beat_state_def)

lemma beat_state_phase: "beat_state (cu\<lparr>cu_phase := p\<rparr>) = (beat_state cu)\<lparr>ab_phase := p\<rparr>"
  by (simp add: beat_state_def)

text \<open>A served burst only depends on the memory of the region.\<close>

lemma served_cong:
  assumes "served region f ab" "\<And>a. region a \<Longrightarrow> g a = f a"
  shows "served region g ab"
proof -
  let ?q = "ab_request ab"
  have q: "region_burst region ?q" "ab_beat_index ab \<le> beats ?q"
    using assms(1) by (auto simp: served_def in_progress_def split: burst_phase.splits)
  have "g (base_addr ?q + of_nat j) = f (base_addr ?q + of_nat j)" if "j < 4 * ab_beat_index ab" for j
  proof -
    have "unat (of_nat j :: u64) = j" using that q by (simp add: region_burst_def unat_of_nat)
    then have "covers ?q (base_addr ?q + of_nat j)" using that q(2) by (simp add: covers_def)
    then show ?thesis using q(1) assms(2) by (simp add: region_burst_def)
  qed
  then have "moved g ab = moved f ab" by (cases ?q) (simp_all add: moved_def)
  then show ?thesis using assms(1) by (simp add: served_def)
qed

text \<open>The words of a beat.\<close>

lemma beat_word:
  assumes "region_burst region q" "k < beats q"
  shows "unat (beat_addr q k) mod 4 = 0" "j < 4 \<Longrightarrow> region (beat_addr q k + of_nat j)" "region (beat_addr q k)"
proof -
  have q: "4 * beats q < 2 ^ 64" "unat (base_addr q) mod 4 = 0" "\<And>a. covers q a \<Longrightarrow> region a"
    using assms(1) by (simp_all add: region_burst_def)
  have addr: "beat_addr q k = base_addr q + of_nat (4 * k)" by (simp add: beat_addr_def)
  have small: "4 * k < 2 ^ 64" using q(1) assms(2) by linarith
  have nat: "unat (of_nat x :: u64) = x" if "x < 2 ^ 64" for x using that by (simp add: unat_of_nat)
  from nat [OF small] have k: "unat (of_nat (4 * k) :: u64) = 4 * k" .
  have "unat (beat_addr q k) = (unat (base_addr q) + unat (of_nat (4 * k) :: u64)) mod 2 ^ 64"
    by (simp only: addr unat_word_ariths) simp
  then show "unat (beat_addr q k) mod 4 = 0" using q(2) k by (simp add: mod_mod_cancel mod_add_left_eq)
  have r: "region (beat_addr q k + of_nat j)" if "j < 4" for j
  proof -
    have "4 * k + j < 4 * beats q" using that assms(2) by simp
    moreover have "beat_addr q k + of_nat j - base_addr q = of_nat (4 * k + j)" using addr by simp
    moreover have "4 * k + j < 2 ^ 64" using calculation(1) q(1) by linarith
    from nat [OF this] have "unat (of_nat (4 * k + j) :: u64) = 4 * k + j" .
    ultimately have "covers q (beat_addr q k + of_nat j)" by (simp only: covers_def)
    then show ?thesis using q(3) by blast
  qed
  then show "j < 4 \<Longrightarrow> region (beat_addr q k + of_nat j)" .
  show "region (beat_addr q k)" using r [of 0] by simp
qed

text \<open>The outcome of an attempt of a beat: it waits, or it has moved its word.\<close>

context live_bus begin

definition beat_attempt ::
  "active_burst \<Rightarrow> cache_bank \<times> 'b \<Rightarrow> bus_error + u32 option \<Rightarrow> cache_bank \<times> 'b \<Rightarrow> bool" where
  "beat_attempt ab st res st' \<longleftrightarrow> cinv st' \<and> cb_config (fst st') = cb_config (fst st) \<and>
     ((\<exists>n. res = Inl (Busy n)) \<and> (\<forall>a. region a \<longrightarrow> seen st' a = seen st a) \<and>
        waits_for (beat_addr (ab_request ab) (ab_beat_index ab)) st' \<and> (st', st) \<in> bank_within closer \<or>
      res = Inr (read_by_beat ab (seen st)) \<and> cb_pending (fst st') = None \<and>
        (\<forall>a. region a \<longrightarrow> seen st' a = after_beat ab (seen st) a))"

lemma read_beat:
  assumes "cinv (k, b)" "region_burst region (ab_request ab)" "ab_request ab = BurstRead base n kd"
    "ab_beat_index ab < n" "settled (beat_addr (ab_request ab) (ab_beat_index ab)) k"
    "f = bank_fetch32 ops (beat_addr (ab_request ab) (ab_beat_index ab)) \<or>
     f = bank_load32 ops (beat_addr (ab_request ab) (ab_beat_index ab))"
  shows "wp (f (k, b)) (\<lambda>res st'. beat_attempt ab (k, b) (map_sum id Some res) st')"
proof -
  let ?q = "ab_request ab" and ?a = "beat_addr (ab_request ab) (ab_beat_index ab)"
  have q: "ab_beat_index ab < beats ?q" using assms(3,4) by simp
  note w = beat_word [OF assms(2) q]
  obtain res st' where r: "f (k, b) = Some (res, st')" "progress (k, b) (word_seen ?a) res st'"
    using bank_word_spec [OF assms(1) w(3,1)] assms(6) by (auto elim!: wp_elim)
  have ci: "cinv st'" "cb_config (fst st') = cb_config k" "\<forall>a. region a \<longrightarrow> seen st' a = seen (k, b) a"
    using r(2) by (simp_all add: progress_def silent_def)
  show ?thesis
  proof (cases res)
    case (Inl e)
    then have "waits_for ?a st' \<and> (st', (k, b)) \<in> bank_within closer"
      using busy_loads(3,4) [OF assms(1) w(3) assms(5) w(1), of e st'] r(1) assms(6) by auto
    then show ?thesis using r Inl ci by (auto simp: beat_attempt_def progress_def)
  next
    case (Inr v)
    then have v: "word_seen ?a v st'" using r(2) by (simp add: progress_def)
    have "seen st' (?a + of_nat j) = seen (k, b) (?a + of_nat j)" if "j < 4" for j
      using ci(3) w(2) [OF that] by blast
    then have "le_bytes32 v = map (\<lambda>j. seen (k, b) (?a + of_nat j)) [0..<4]" using v by (simp add: word_seen_def)
    then have "v = from_le32_list (map (\<lambda>j. seen (k, b) (?a + of_nat j)) [0..<4])" by (metis from_le32_list_bytes)
    then show ?thesis
      using r Inr ci v assms(3) by (simp add: beat_attempt_def read_by_beat_def after_beat_def word_seen_def del: upt_Suc)
  qed
qed

lemma write_beat:
  assumes "cinv (k, b)" "region_burst region (ab_request ab)" "ab_request ab = BurstWrite base ws"
    "ab_beat_index ab < length ws" "settled (beat_addr (ab_request ab) (ab_beat_index ab)) k"
    "cc_allocation (cb_config k) = WriteAllocate"
  shows "wp (bank_store32 ops (beat_addr (ab_request ab) (ab_beat_index ab)) (ws ! ab_beat_index ab) (k, b))
    (\<lambda>res st'. beat_attempt ab (k, b) (map_sum id (\<lambda>_. None) res) st')"
proof -
  let ?q = "ab_request ab" and ?a = "beat_addr (ab_request ab) (ab_beat_index ab)" and ?v = "ws ! ab_beat_index ab"
  let ?s = "\<lparr>so_addr = ?a, so_width = 4, so_value = ?v\<rparr>"
  have q: "ab_beat_index ab < beats ?q" using assms(3,4) by simp
  note w = beat_word [OF assms(2) q]
  have al: "store_aligned ?s" using w(1) by (simp add: store_aligned_def)
  have eq: "bank_store32 ops ?a ?v (k, b) = bank_store ops ?s (k, b)"
    using w(1) by (simp add: bank_store32_def misaligned_or_def aligned_mod)
  obtain res st' where r: "bank_store ops ?s (k, b) = Some (res, st')" "store_progress ?s (k, b) res st'"
    using bank_store_spec [OF assms(1) _ al assms(6)] w(3) by (auto elim!: wp_elim)
  have after: "after_store ?s m x = stored ?a (le_bytes32 ?v) m x" for m x
    by (simp add: after_store_def stored_at)
  show ?thesis
  proof (cases res)
    case (Inl e)
    then have "waits_for ?a st' \<and> (st', (k, b)) \<in> bank_within closer"
      using busy_store [OF assms(1) _ al assms(6), of e st'] r(1) w(3) assms(5) by simp
    then show ?thesis using r eq Inl by (auto simp: beat_attempt_def store_progress_def silent_def)
  next
    case (Inr u)
    then have "stored_in ?s (k, b) st'" using r(2) by (simp add: store_progress_def)
    then show ?thesis
      using r(1) eq Inr assms(3) after
      by (simp add: beat_attempt_def stored_in_def read_by_beat_def after_beat_def del: stored.simps)
  qed
qed

definition uc_seen :: "'b unified_cache \<Rightarrow> u64 \<Rightarrow> u8" where
  "uc_seen c = seen (uc_bank c, uc_inner c)"

text \<open>No maintenance is under way and the bank is coherent.\<close>

definition uc_home :: "'b unified_cache \<Rightarrow> bool" where
  "uc_home c \<longleftrightarrow> uc_maintenance c = None \<and> cinv (uc_bank c, uc_inner c) \<and>
     cc_allocation (cb_config (uc_bank c)) = WriteAllocate"

definition uc_idle :: "'b unified_cache \<Rightarrow> bool" where
  "uc_idle c \<longleftrightarrow> uc_home c \<and> uc_active_burst c = None \<and> cb_pending (uc_bank c) = None"

text \<open>A burst that waits, waits for the line of its current beat.\<close>

definition uc_serves :: "active_burst \<Rightarrow> 'b unified_cache \<Rightarrow> bool" where
  "uc_serves ab c \<longleftrightarrow> uc_home c \<and> (\<exists>cu. uc_active_burst c = Some cu \<and> ab = beat_state cu) \<and>
     served region (uc_seen c) ab \<and>
     (case ab_phase ab of
        BuInFlight _ _ _ \<Rightarrow> waits_for (beat_addr (ab_request ab) (ab_beat_index ab)) (uc_bank c, uc_inner c)
      | _ \<Rightarrow> cb_pending (uc_bank c) = None)"

definition uc_progress :: "'b unified_cache \<Rightarrow> nat \<times> nat \<times> cache_bank \<times> 'b" where
  "uc_progress c =
     (case uc_active_burst c of
        None \<Rightarrow> (0, 0, uc_bank c, uc_inner c)
      | Some cu \<Rightarrow> (beats (cu_request cu) - cu_beat_index cu,
          case cu_phase cu of BuAccepted _ _ \<Rightarrow> 1 | _ \<Rightarrow> 0, uc_bank c, uc_inner c))"

definition uc_nearer :: "('b unified_cache \<times> 'b unified_cache) set" where
  "uc_nearer = inv_image (less_than <*lex*> less_than <*lex*> bank_closer closer) uc_progress"

lemma uc_nearer_wf: "wf uc_nearer"
  by (simp add: uc_nearer_def wf_lex_prod bank_closer_wf closer_wf)

lemma uc_nearer_trans: "trans uc_nearer"
  by (simp add: uc_nearer_def trans_inv_image bank_closer_trans closer_trans)

lemma uc_attempt:
  assumes "uc_home c" "region_burst region (ab_request ab)" "ab_beat_index ab < beats (ab_request ab)"
    "settled (beat_addr (ab_request ab) (ab_beat_index ab)) (uc_bank c)"
  shows "\<exists>res k b. uc_execute_burst_beat ops (ab_request ab) (ab_beat_index ab) c =
      Some (res, c\<lparr>uc_bank := k, uc_inner := b\<rparr>) \<and>
    beat_attempt ab (uc_bank c, uc_inner c) res (k, b)"
proof -
  let ?a = "beat_addr (ab_request ab) (ab_beat_index ab)" and ?st = "(uc_bank c, uc_inner c)"
  have h: "uc_maintenance c = None" "cinv ?st" "cc_allocation (cb_config (uc_bank c)) = WriteAllocate"
    using assms(1) by (simp_all add: uc_home_def)
  show ?thesis
  proof (cases "ab_request ab")
    case (BurstRead base n kd)
    then have k: "kd = Fetch \<or> kd = LoadAccess" "ab_beat_index ab < n"
      using assms(2,3) by (cases kd; simp add: region_burst_def)+
    note r = read_beat [OF h(2) assms(2) BurstRead k(2) assms(4)]
    let ?f = "if kd = Fetch then bank_fetch32 ops ?a else bank_load32 ops ?a"
    have f: "?f = bank_fetch32 ops ?a \<or> ?f = bank_load32 ops ?a" by simp
    have e: "uc_execute_burst_beat ops (ab_request ab) (ab_beat_index ab) c =
        and_then (uc_access ops ?f c) (\<lambda>w c. Some (Inr (Some w), c))"
      using k(1) BurstRead by (auto simp: uc_execute_burst_beat_def Let_def uc_fetch32_def uc_load32_def)
    obtain res k' b' where st': "?f ?st = Some (res, (k', b'))" "beat_attempt ab ?st (map_sum id Some res) (k', b')"
      using wp_elim [OF r [OF f]] by (metis surj_pair)
    then have "uc_access ops ?f c = Some (res, c\<lparr>uc_bank := k', uc_inner := b'\<rparr>)"
      using h(1) by (simp add: uc_access_def uc_on_bank_def)
    then have "uc_execute_burst_beat ops (ab_request ab) (ab_beat_index ab) c =
        Some (map_sum id Some res, c\<lparr>uc_bank := k', uc_inner := b'\<rparr>)"
      using e by (cases res) simp_all
    then show ?thesis using st'(2) by blast
  next
    case (BurstWrite base ws)
    then have k: "ab_beat_index ab < length ws" using assms(3) by simp
    obtain res k' b' where st': "bank_store32 ops ?a (ws ! ab_beat_index ab) ?st = Some (res, (k', b'))"
        "beat_attempt ab ?st (map_sum id (\<lambda>_. None) res) (k', b')"
      using wp_elim [OF write_beat [OF h(2) assms(2) BurstWrite k assms(4) h(3)]] by (metis surj_pair)
    then have "uc_store32 ops ?a (ws ! ab_beat_index ab) c = Some (res, c\<lparr>uc_bank := k', uc_inner := b'\<rparr>)"
      using h(1) by (simp add: uc_store32_def uc_access_def uc_on_bank_def)
    then have "uc_execute_burst_beat ops (ab_request ab) (ab_beat_index ab) c =
        Some (map_sum id (\<lambda>_. None) res, c\<lparr>uc_bank := k', uc_inner := b'\<rparr>)"
      using BurstWrite k by (cases res) (simp_all add: uc_execute_burst_beat_def Let_def idx_def)
    then show ?thesis using st'(2) by blast
  qed
qed

lemma complete_beat:
  assumes "length (cu_read_words cu) = beats (cu_request cu)" "cu_beat_index cu < beats (cu_request cu)"
  shows "\<exists>cu'. complete_cache_beat (read_by_beat (beat_state cu) f) (cu_beat_index cu) cu = Some cu' \<and>
    beat_state cu' = beat_done (beat_state cu) f"
  using assms
  by (auto simp: complete_cache_beat_def beat_done_def beat_state_def Let_def idx_set_def split: option.split)

text \<open>One attempt of the burst that the cache runs.\<close>

lemma uc_run:
  assumes "uc_home c" "uc_active_burst c = Some cu" "served region (uc_seen c) (beat_state cu)"
    "cu_beat_index cu < beats (cu_request cu)" "settled (beat_addr (cu_request cu) (cu_beat_index cu)) (uc_bank c)"
  shows "\<exists>cu' c'. advance_active_burst ops c = Some c' \<and> uc_serves (beat_state cu') c' \<and> uc_active_burst c' = Some cu' \<and>
    cu_id cu' = cu_id cu \<and> cu_request cu' = cu_request cu \<and>
    untouched region (Some (cu_id cu, cu_request cu)) (uc_seen c) (uc_seen c') \<and>
    (cu_beat_index cu' = cu_beat_index cu + 1 \<or> (\<exists>n. cu' = cu\<lparr>cu_phase := BuInFlight (cu_beat_index cu) (beats (cu_request cu)) n\<rparr>) \<and>
      ((uc_bank c', uc_inner c'), (uc_bank c, uc_inner c)) \<in> bank_within closer)"
proof -
  let ?ab = "beat_state cu" and ?q = "cu_request cu" and ?k = "cu_beat_index cu" and ?f = "uc_seen c"
  have s: "region_burst region ?q" "length (cu_read_words cu) = beats ?q" "in_progress ?ab"
    using assms(3) by (simp_all add: served_def in_progress_def)
  have phase: "(\<exists>x y. cu_phase cu = BuAccepted x y) \<or> (\<exists>x y n. cu_phase cu = BuInFlight x y n)"
    using s(3) assms(4) by (auto simp: in_progress_def split: burst_phase.splits)
  obtain res k' b' where r: "uc_execute_burst_beat ops ?q ?k c = Some (res, c\<lparr>uc_bank := k', uc_inner := b'\<rparr>)"
      "beat_attempt ?ab (uc_bank c, uc_inner c) res (k', b')"
    using uc_attempt [of c ?ab] assms(1,4,5) s(1) by auto
  let ?c = "c\<lparr>uc_bank := k', uc_inner := b'\<rparr>"
  have adv: "advance_active_burst ops c = map_option (\<lambda>a. ?c\<lparr>uc_active_burst := Some a\<rparr>)
      (case res of Inr w \<Rightarrow> complete_cache_beat w ?k cu
         | Inl (Busy n) \<Rightarrow> Some (cu\<lparr>cu_phase := BuInFlight ?k (beats ?q) n\<rparr>) | Inl e \<Rightarrow> Some (cu\<lparr>cu_phase := BuFailed e\<rparr>))"
    using phase r(1) assms(2) by (auto simp: advance_active_burst_def Let_def)
  have at: "cinv (k', b')" "cb_config k' = cb_config (uc_bank c)" using r(2) by (simp_all add: beat_attempt_def)
  have home: "uc_home (?c\<lparr>uc_active_burst := x\<rparr>)" for x using assms(1) at by (simp add: uc_home_def)
  have seen': "uc_seen (?c\<lparr>uc_active_burst := x\<rparr>) = seen (k', b')" for x by (simp add: uc_seen_def)
  from r(2) consider (busy) n where "res = Inl (Busy n)" "\<forall>a. region a \<longrightarrow> seen (k', b') a = ?f a"
      "waits_for (beat_addr ?q ?k) (k', b')" "((k', b'), (uc_bank c, uc_inner c)) \<in> bank_within closer"
    | (moved) "res = Inr (read_by_beat ?ab ?f)" "cb_pending k' = None"
      "\<forall>a. region a \<longrightarrow> seen (k', b') a = after_beat ?ab ?f a"
    unfolding beat_attempt_def by (auto simp: uc_seen_def)
  then show ?thesis
  proof cases
    case (busy n)
    let ?cu = "cu\<lparr>cu_phase := BuInFlight ?k (beats ?q) n\<rparr>"
    have "served region (seen (k', b')) (beat_state ?cu)"
      by (rule served_cong [of region ?f]) (use busy(2) assms(3,4) in \<open>auto simp: beat_state_phase served_def in_progress_def\<close>)
    then have "uc_serves (beat_state ?cu) (?c\<lparr>uc_active_burst := Some ?cu\<rparr>)"
      using home busy(3) seen' by (simp add: uc_serves_def)
    then show ?thesis using adv busy seen' by (auto simp: untouched_def)
  next
    case moved
    obtain cu' where cu': "complete_cache_beat (read_by_beat ?ab ?f) ?k cu = Some cu'" "beat_state cu' = beat_done ?ab ?f"
      using complete_beat [OF s(2) assms(4)] by blast
    have d: "served region (after_beat ?ab ?f) (beat_state cu')"
        "untouched region (Some (cu_id cu, ?q)) ?f (after_beat ?ab ?f)"
      using beat_done_served(2,3) [OF assms(3)] assms(4) cu'(2) by simp_all
    have sel: "cu_id cu' = cu_id cu" "cu_request cu' = ?q" "cu_beat_index cu' = ?k + 1"
      using arg_cong [OF cu'(2), of ab_id] arg_cong [OF cu'(2), of ab_request] arg_cong [OF cu'(2), of ab_beat_index]
      by (simp_all add: beat_done_def Let_def)
    have ph: "\<nexists>x y n. cu_phase cu' = BuInFlight x y n"
      using arg_cong [OF cu'(2), of ab_phase] by (simp add: beat_done_def Let_def)
    have "served region (seen (k', b')) (beat_state cu')" using served_cong [OF d(1)] moved(3) by blast
    then have "uc_serves (beat_state cu') (?c\<lparr>uc_active_burst := Some cu'\<rparr>)"
      using home moved(2) seen' ph by (simp add: uc_serves_def split: burst_phase.split)
    moreover have "untouched region (Some (cu_id cu, ?q)) ?f (seen (k', b'))"
      using d(2) moved(3) by (simp add: untouched_def)
    ultimately show ?thesis using adv moved(1) cu'(1) sel seen' by auto
  qed
qed

subsection \<open>The laws of a server\<close>

lemma uc_serves_burst:
  assumes "uc_serves ab c"
  obtains cu where "uc_active_burst c = Some cu" "ab = beat_state cu" "uc_home c" "served region (uc_seen c) ab"
    "uc_burst_phase c (ab_id ab) = Some (ab_phase ab)"
  using assms by (auto simp: uc_serves_def uc_burst_phase_def)

text \<open>The current beat of a burst that is not finished can be attempted.\<close>

lemma uc_serves_settled:
  assumes "uc_serves ab c"
  shows "settled (beat_addr (ab_request ab) (ab_beat_index ab)) (uc_bank c)"
  using assms by (auto simp: uc_serves_def waits_for_def settled_def split: burst_phase.splits)

lemma nearer_beats:
  assumes "uc_active_burst c' = Some cu'" "uc_active_burst c = Some cu" "cu_request cu' = cu_request cu"
    "cu_beat_index cu' = cu_beat_index cu + 1" "cu_beat_index cu < beats (cu_request cu)"
  shows "(c', c) \<in> uc_nearer"
  using assms by (simp add: uc_nearer_def uc_progress_def diff_less_mono2)

lemma nearer_wait:
  assumes "uc_active_burst c' = Some (cu\<lparr>cu_phase := BuInFlight x y n\<rparr>)" "uc_active_burst c = Some cu"
    "(\<exists>x y. cu_phase cu = BuAccepted x y) \<or> ((uc_bank c', uc_inner c'), (uc_bank c, uc_inner c)) \<in> bank_closer closer"
  shows "(c', c) \<in> uc_nearer"
  using assms by (cases "cu_phase cu") (simp_all add: uc_nearer_def uc_progress_def)

text \<open>A step from \<open>c\<close>, where \<open>c0\<close> is \<open>c\<close> or the state before a tick that led to \<open>c\<close>.\<close>

lemma uc_step:
  assumes "uc_home c" "uc_active_burst c = Some cu" "served region (uc_seen c) (beat_state cu)"
    "settled (beat_addr (cu_request cu) (cu_beat_index cu)) (uc_bank c)"
    "\<nexists>n. cu_phase cu = BuReady n" "uc_active_burst c0 = Some cu"
    "(\<exists>x y. cu_phase cu = BuAccepted x y) \<or> ((uc_bank c, uc_inner c), (uc_bank c0, uc_inner c0)) \<in> bank_closer closer"
  shows "\<exists>ab' c'. advance_active_burst ops c = Some c' \<and> uc_serves ab' c' \<and> same_burst (beat_state cu) ab' \<and>
    untouched region (Some (cu_id cu, cu_request cu)) (uc_seen c) (uc_seen c') \<and> (c', c0) \<in> uc_nearer"
proof -
  have k: "cu_beat_index cu < beats (cu_request cu)"
    using assms(3,5) by (auto simp: served_def in_progress_def split: burst_phase.splits)
  obtain cu' c' where r: "advance_active_burst ops c = Some c'" "uc_serves (beat_state cu') c'" "uc_active_burst c' = Some cu'"
      "cu_id cu' = cu_id cu" "cu_request cu' = cu_request cu"
      "untouched region (Some (cu_id cu, cu_request cu)) (uc_seen c) (uc_seen c')"
      "cu_beat_index cu' = cu_beat_index cu + 1 \<or>
        (\<exists>n. cu' = cu\<lparr>cu_phase := BuInFlight (cu_beat_index cu) (beats (cu_request cu)) n\<rparr>) \<and>
        ((uc_bank c', uc_inner c'), (uc_bank c, uc_inner c)) \<in> bank_within closer"
    using uc_run [OF assms(1-3) k assms(4)] by blast
  from r(7) have "(c', c0) \<in> uc_nearer"
  proof (elim disjE exE conjE)
    assume "cu_beat_index cu' = cu_beat_index cu + 1"
    then show ?thesis by (rule nearer_beats [OF r(3) assms(6) r(5) _ k])
  next
    fix n assume n: "cu' = cu\<lparr>cu_phase := BuInFlight (cu_beat_index cu) (beats (cu_request cu)) n\<rparr>"
      "((uc_bank c', uc_inner c'), (uc_bank c, uc_inner c)) \<in> bank_within closer"
    show ?thesis
      by (rule nearer_wait [OF r(3) [unfolded n(1)] assms(6)]) (use assms(7) within_closer [OF closer_trans n(2)] in auto)
  qed
  then show ?thesis
    using r(1,2,4,5,6) by (intro exI [of _ "beat_state cu'"] exI [of _ c']) (simp add: same_burst_def)
qed

lemma uc_submit:
  assumes "uc_idle c" "region_burst region q"
  shows "\<exists>ab c'. uc_submit_burst ops q c = Some (Inr (ab_id ab), c') \<and> uc_serves ab c' \<and> ab_request ab = q \<and>
    uc_seen c' = uc_seen c"
proof -
  let ?cu = "\<lparr>cu_id = uc_next_burst_id c, cu_request = q, cu_beat_index = 0, cu_read_words = replicate (beats q) 0,
    cu_phase = BuAccepted 0 (beats q)\<rparr>"
  let ?c = "c\<lparr>uc_next_burst_id := uc_next_burst_id c + 1, uc_active_burst := Some ?cu\<rparr>"
  have i: "uc_home c" "uc_active_burst c = None" "cb_pending (uc_bank c) = None" "0 < beats q"
    using assms by (simp_all add: uc_idle_def region_burst_def)
  then have "binv None (uc_inner c)" by (simp add: uc_home_def cinv_def open_of_def)
  then have "\<not> uc_is_busy ops c"
    using i idle_law by (simp add: uc_is_busy_def uc_home_def has_pending_activity_def)
  then have sub: "uc_submit_burst ops q c = Some (Inr (uc_next_burst_id c), ?c)"
    using i(4) by (simp add: uc_submit_burst_def Let_def)
  have seen': "uc_seen ?c = uc_seen c" by (simp add: uc_seen_def)
  have "served region (uc_seen c) (beat_state ?cu)"
    using assms(2) i(4) by (simp add: served_def in_progress_def moved_def beat_state_def split: burst_request.split)
  then have "uc_serves (beat_state ?cu) ?c"
    using i(1,3) seen' by (simp add: uc_serves_def uc_home_def)
  then show ?thesis using sub seen' by (intro exI [of _ "beat_state ?cu"] exI [of _ ?c]) simp
qed

lemma uc_take:
  assumes "uc_serves ab c" "ab_phase ab = BuReady n"
  shows "\<exists>c'. uc_take_burst_response (ab_id ab) c = Some (Some (Inr (burst_answer ab)), c') \<and> uc_idle c' \<and> uc_seen c' = uc_seen c"
proof -
  obtain cu where cu: "uc_active_burst c = Some cu" "ab = beat_state cu" "uc_home c" "served region (uc_seen c) ab"
    using uc_serves_burst [OF assms(1)] by blast
  have n: "n = beats (cu_request cu)" using served_ready(2) [OF cu(4) assms(2)] cu(2) by simp
  have "cb_pending (uc_bank c) = None" using assms by (simp add: uc_serves_def)
  then have "uc_idle (c\<lparr>uc_active_burst := None\<rparr>)" using cu(3) by (simp add: uc_idle_def uc_home_def)
  moreover have "uc_take_burst_response (ab_id ab) c = Some (Some (Inr (burst_answer ab)), c\<lparr>uc_active_burst := None\<rparr>)"
    using cu(1,2) assms(2) n
    by (cases "cu_request cu") (simp_all add: uc_take_burst_response_def burst_answer_def)
  ultimately show ?thesis by (auto simp: uc_seen_def)
qed

text \<open>The tick of the bus below, with the bank as it is.\<close>

lemma uc_inner_tick:
  assumes "uc_home c"
  shows "\<exists>x b. bus_tick ops (uc_inner c) = Some (x, b) \<and> uc_home (c\<lparr>uc_inner := b\<rparr>) \<and>
    untouched region None (uc_seen c) (uc_seen (c\<lparr>uc_inner := b\<rparr>))"
  using bank_tick [of "uc_bank c" "uc_inner c"] assms
  by (auto simp: uc_home_def uc_seen_def silent_def untouched_def elim!: wp_elim)

lemma uc_serving_tick:
  assumes "uc_serves ab c"
  shows "wp (uc_tick ops c) (\<lambda>_ c'. \<exists>ab'. uc_serves ab' c' \<and> same_burst ab ab' \<and>
    untouched region (Some (ab_id ab, ab_request ab)) (uc_seen c) (uc_seen c') \<and>
    ((\<exists>n. ab_phase ab = BuReady n) \<or> (c', c) \<in> uc_nearer))"
proof -
  obtain cu where cu: "uc_active_burst c = Some cu" "ab = beat_state cu" "uc_home c" "served region (uc_seen c) ab"
    using uc_serves_burst [OF assms] by blast
  obtain x b where t: "bus_tick ops (uc_inner c) = Some (x, b)" "uc_home (c\<lparr>uc_inner := b\<rparr>)"
      "untouched region None (uc_seen c) (uc_seen (c\<lparr>uc_inner := b\<rparr>))"
    using uc_inner_tick [OF cu(3)] by blast
  let ?c = "c\<lparr>uc_inner := b\<rparr>"
  have tick: "uc_tick ops c = map_option (\<lambda>c. ((), c)) (advance_active_burst ops ?c)"
    using t(1) by (simp add: uc_tick_def uc_on_inner_def)
  have s: "served region (uc_seen ?c) ab" by (rule served_cong [OF cu(4)]) (use t(3) in \<open>simp add: untouched_def\<close>)
  have u: "untouched region (Some (ab_id ab, ab_request ab)) (uc_seen c) g"
    if "untouched region (Some (ab_id ab, ab_request ab)) (uc_seen ?c) g" for g
    using that t(3) by (simp add: untouched_def)
  show ?thesis
  proof (cases "\<exists>n. ab_phase ab = BuReady n")
    case True
    then have "advance_active_burst ops ?c = Some ?c" using cu(1,2) by (auto simp: advance_active_burst_def Let_def)
    moreover have "uc_serves ab ?c" using assms cu(1,2) t(2) s True by (auto simp: uc_serves_def)
    ultimately show ?thesis using tick True u [OF untouched_refl] by (auto simp: same_burst_def)
  next
    case False
    have near: "(\<exists>x y. cu_phase cu = BuAccepted x y) \<or>
        ((uc_bank ?c, uc_inner ?c), (uc_bank c, uc_inner c)) \<in> bank_closer closer"
      using assms cu(2) False cu(4) waiting_tick(1) [OF _ t(1)]
      by (auto simp: uc_serves_def served_def in_progress_def split: burst_phase.splits)
    have "served region (uc_seen ?c) (beat_state cu)" "\<nexists>n. cu_phase cu = BuReady n" using s False cu(2) by simp_all
    from uc_step [OF t(2) _ this(1) _ this(2) cu(1) near] obtain ab' c' where "advance_active_burst ops ?c = Some c'"
        "uc_serves ab' c'" "same_burst ab ab'" "untouched region (Some (ab_id ab, ab_request ab)) (uc_seen ?c) (uc_seen c')"
        "(c', c) \<in> uc_nearer"
      using cu(1,2) uc_serves_settled [OF assms] by auto
    then show ?thesis using tick u by auto
  qed
qed

lemma stacked: "burst_server (uc_ops ops) uc_idle uc_serves uc_seen region uc_nearer"
proof
  fix ab c
  assume s: "uc_serves ab c"
  show "served region (uc_seen c) ab \<and> bus_burst_phase (uc_ops ops) c (ab_id ab) = Some (ab_phase ab)"
    by (rule uc_serves_burst [OF s]) (simp add: uc_ops_def)
  show "wp (bus_tick (uc_ops ops) c) (\<lambda>_ c'. \<exists>ab'. uc_serves ab' c' \<and> same_burst ab ab' \<and>
      untouched region (Some (ab_id ab, ab_request ab)) (uc_seen c) (uc_seen c') \<and>
      ((\<exists>n. ab_phase ab = BuReady n) \<or> (c', c) \<in> uc_nearer))"
    using uc_serving_tick [OF s] by (simp add: uc_ops_def)
  fix x y
  assume acc: "ab_phase ab = BuAccepted x y"
  obtain cu where cu: "uc_active_burst c = Some cu" "ab = beat_state cu" "uc_home c" "served region (uc_seen c) ab"
      "uc_burst_phase c (ab_id ab) = Some (ab_phase ab)"
    using uc_serves_burst [OF s] by blast
  obtain ab' c' where r: "advance_active_burst ops c = Some c'" "uc_serves ab' c'" "same_burst ab ab'"
      "untouched region (Some (ab_id ab, ab_request ab)) (uc_seen c) (uc_seen c')" "(c', c) \<in> uc_nearer"
    using uc_step [of c cu c] cu uc_serves_settled [OF s] acc by auto
  have "uc_burst_phase c' (ab_id ab) = Some (ab_phase ab')"
    using uc_serves_burst [OF r(2)] r(3) by (metis same_burst_def)
  then show "\<exists>ab' c'. bus_advance_burst (uc_ops ops) (ab_id ab) c = Some (Some (ab_phase ab'), c') \<and> uc_serves ab' c' \<and>
      same_burst ab ab' \<and> untouched region (Some (ab_id ab, ab_request ab)) (uc_seen c) (uc_seen c') \<and> (c', c) \<in> uc_nearer"
    using r cu(5) by (auto simp: uc_ops_def uc_advance_burst_def)
next
  fix ab c n
  assume "uc_serves ab c" "ab_phase ab = BuReady n"
  from uc_take [OF this] show "\<exists>c'. bus_take_burst_response (uc_ops ops) (ab_id ab) c = Some (Some (Inr (burst_answer ab)), c') \<and>
      uc_idle c' \<and> untouched region None (uc_seen c) (uc_seen c')"
    by (auto simp: uc_ops_def)
next
  fix c q
  assume i: "uc_idle c"
  then have h: "uc_home c" "uc_active_burst c = None" "cb_pending (uc_bank c) = None" by (simp_all add: uc_idle_def)
  show "\<exists>ab c'. bus_submit_burst (uc_ops ops) q c = Some (Inr (ab_id ab), c') \<and> uc_serves ab c' \<and> ab_request ab = q \<and>
      untouched region None (uc_seen c) (uc_seen c')" if "region_burst region q"
    using uc_submit [OF i that] by (auto simp: uc_ops_def)
  show "wp (bus_tick (uc_ops ops) c) (\<lambda>_ c'. uc_idle c' \<and> untouched region None (uc_seen c) (uc_seen c'))"
    using uc_inner_tick [OF h(1)] h(2,3)
    by (auto simp: uc_ops_def uc_tick_def uc_on_inner_def advance_active_burst_def uc_idle_def)
  have "binv None (uc_inner c)" using h by (simp add: uc_home_def cinv_def open_of_def)
  then show "\<not> bus_is_busy (uc_ops ops) c"
    using h idle_law by (simp add: uc_ops_def uc_is_busy_def uc_home_def has_pending_activity_def)
qed (simp_all add: uc_nearer_wf uc_nearer_trans)

end

end
