(* ===== verification/Cache_Client.thy ===== *)
theory Cache_Client
  imports Cache_Stack
begin

text \<open>
  The client of a bus: calls of every width, and the loop of \<open>measure_load32\<close> and
  \<open>measure_store32\<close> in \<open>apps/computer/src/microbench.rs\<close>, which repeats a call, with a tick after
  each \<open>Busy\<close>, until it has a result. The locale \<open>memory_bus\<close> is what a bus promises that behaves
  like a memory; the unified cache and the data side of the split cache keep the promise.
\<close>

subsection \<open>Calls and their meaning\<close>

datatype bus_access =
    Fetch32 u64
  | Load8 u64
  | Load16 u64
  | Load32 u64
  | Store8 u64 u8
  | Store16 u64 u16
  | Store32 u64 u32

text \<open>The result of a load is its bytes.\<close>

definition answer_bytes :: "('r \<Rightarrow> u8 list) \<Rightarrow> (bus_error + 'r, 's) outcome \<Rightarrow> (bus_error + u8 list, 's) outcome" where
  "answer_bytes f x = map_option (\<lambda>(r, s). (map_sum id f r, s)) x"

lemma answer_same: "answer_bytes (\<lambda>v. v) x = x"
  by (cases x) (auto simp: answer_bytes_def sum.map_ident id_def)

fun access_bus :: "('b, 'z) bus_ops_scheme \<Rightarrow> bus_access \<Rightarrow> ('b, u8 list) bus_call" where
  "access_bus ops (Fetch32 a) b = answer_bytes le_bytes32 (bus_fetch32 ops a b)"
| "access_bus ops (Load8 a) b = answer_bytes (\<lambda>v. [v]) (bus_load8 ops a b)"
| "access_bus ops (Load16 a) b = answer_bytes le_bytes16 (bus_load16 ops a b)"
| "access_bus ops (Load32 a) b = answer_bytes le_bytes32 (bus_load32 ops a b)"
| "access_bus ops (Store8 a v) b = answer_bytes (\<lambda>_. []) (bus_store8 ops a v b)"
| "access_bus ops (Store16 a v) b = answer_bytes (\<lambda>_. []) (bus_store16 ops a v b)"
| "access_bus ops (Store32 a v) b = answer_bytes (\<lambda>_. []) (bus_store32 ops a v b)"

fun access_addr :: "bus_access \<Rightarrow> u64" where
  "access_addr (Fetch32 a) = a"
| "access_addr (Load8 a) = a"
| "access_addr (Load16 a) = a"
| "access_addr (Load32 a) = a"
| "access_addr (Store8 a v) = a"
| "access_addr (Store16 a v) = a"
| "access_addr (Store32 a v) = a"

fun access_width :: "bus_access \<Rightarrow> nat" where
  "access_width (Load8 a) = 1"
| "access_width (Load16 a) = 2"
| "access_width (Store8 a v) = 1"
| "access_width (Store16 a v) = 2"
| "access_width _ = 4"

text \<open>The bytes that an access writes; \<open>None\<close> for a read.\<close>

fun written_bytes :: "bus_access \<Rightarrow> u8 list option" where
  "written_bytes (Store8 a v) = Some [v]"
| "written_bytes (Store16 a v) = Some (le_bytes16 v)"
| "written_bytes (Store32 a v) = Some (le_bytes32 v)"
| "written_bytes _ = None"

text \<open>An access of a memory of bytes: its result and the memory after it.\<close>

definition memory_answer :: "bus_access \<Rightarrow> (u64 \<Rightarrow> u8) \<Rightarrow> u8 list" where
  "memory_answer c f =
     (case written_bytes c of
        None \<Rightarrow> map (\<lambda>j. f (access_addr c + of_nat j)) [0..<access_width c]
      | Some _ \<Rightarrow> [])"

definition memory_effect :: "bus_access \<Rightarrow> (u64 \<Rightarrow> u8) \<Rightarrow> u64 \<Rightarrow> u8" where
  "memory_effect c f = (case written_bytes c of None \<Rightarrow> f | Some bs \<Rightarrow> stored (access_addr c) bs f)"

text \<open>An aligned access of bytes of the region.\<close>

definition access_fits :: "(u64 \<Rightarrow> bool) \<Rightarrow> bus_access \<Rightarrow> bool" where
  "access_fits region c \<longleftrightarrow> unat (access_addr c) mod access_width c = 0 \<and>
     (\<forall>j < access_width c. region (access_addr c + of_nat j))"

text \<open>
  The loop: the number \<open>n\<close> counts the ticks. It does not end on a bus that stays \<open>Busy\<close>, so it is a
  partial function.
\<close>

partial_function (option) retry_loop ::
  "('b, 'z) bus_ops_scheme \<Rightarrow> ('b, 'r) bus_call \<Rightarrow> u64 \<Rightarrow> 'b \<Rightarrow> (bus_error + 'r \<times> u64, 'b) outcome" where
  "retry_loop ops f n b =
     Option.bind (f b) (\<lambda>(r, b).
       case r of
         Inr v \<Rightarrow> Some (Inr (v, n), b)
       | Inl (Busy _) \<Rightarrow> Option.bind (bus_tick ops b) (\<lambda>(_, b). retry_loop ops f (n + 1) b)
       | Inl e \<Rightarrow> Some (Inl e, b))"

declare retry_loop.simps [code]

definition measure_access ::
  "('b, 'z) bus_ops_scheme \<Rightarrow> ('b, 'r) bus_call \<Rightarrow> 'b \<Rightarrow> (bus_error + u64, 'b) outcome" where
  "measure_access ops f b = map_option (\<lambda>(r, b). (map_sum id snd r, b)) (retry_loop ops f 0 b)"

definition measure_load32 :: "('b, 'z) bus_ops_scheme \<Rightarrow> u64 \<Rightarrow> ('b, u64) bus_call" where
  "measure_load32 ops a = measure_access ops (bus_load32 ops a)"

definition measure_store32 :: "('b, 'z) bus_ops_scheme \<Rightarrow> u64 \<Rightarrow> u32 \<Rightarrow> ('b, u64) bus_call" where
  "measure_store32 ops a v = measure_access ops (bus_store32 ops a v)"

text \<open>A client that repeats every access until it is answered.\<close>

fun retry_all ::
  "('b, 'z) bus_ops_scheme \<Rightarrow> bus_access list \<Rightarrow> 'b \<Rightarrow> (bus_error + u8 list list, 'b) outcome" where
  "retry_all ops [] b = Some (Inr [], b)"
| "retry_all ops (c # cs) b =
     and_then (retry_loop ops (access_bus ops c) 0 b) (\<lambda>(v, _) b.
       and_then (retry_all ops cs b) (\<lambda>vs b. Some (Inr (v # vs), b)))"

fun memory_answers :: "bus_access list \<Rightarrow> (u64 \<Rightarrow> u8) \<Rightarrow> u8 list list" where
  "memory_answers [] f = []"
| "memory_answers (c # cs) f = memory_answer c f # memory_answers cs (memory_effect c f)"

definition memory_effects :: "bus_access list \<Rightarrow> (u64 \<Rightarrow> u8) \<Rightarrow> u64 \<Rightarrow> u8" where
  "memory_effects cs f = foldl (\<lambda>f c. memory_effect c f) f cs"

text \<open>
  A client that may give up: any sequence of accesses and ticks (\<open>None\<close>), each made once. Its
  results are those of a memory if every access is \<open>Busy\<close>, without effect, or answered.
\<close>

fun run_accesses ::
  "('b, 'z) bus_ops_scheme \<Rightarrow> bus_access option list \<Rightarrow> 'b \<Rightarrow> ((bus_error + u8 list) list, 'b) outcome" where
  "run_accesses ops [] b = Some ([], b)"
| "run_accesses ops (None # cs) b = Option.bind (bus_tick ops b) (\<lambda>(_, b). run_accesses ops cs b)"
| "run_accesses ops (Some c # cs) b =
     Option.bind (access_bus ops c b) (\<lambda>(r, b). map_option (\<lambda>(rs, b). (r # rs, b)) (run_accesses ops cs b))"

fun memory_run :: "bus_access option list \<Rightarrow> (bus_error + u8 list) list \<Rightarrow> (u64 \<Rightarrow> u8) \<Rightarrow> bool" where
  "memory_run [] [] f \<longleftrightarrow> True"
| "memory_run (None # cs) rs f \<longleftrightarrow> memory_run cs rs f"
| "memory_run (Some c # cs) (Inl (Busy n) # rs) f \<longleftrightarrow> memory_run cs rs f"
| "memory_run (Some c # cs) (Inr v # rs) f \<longleftrightarrow> v = memory_answer c f \<and> memory_run cs rs (memory_effect c f)"
| "memory_run _ _ f \<longleftrightarrow> False"

subsection \<open>A bus that behaves like a memory\<close>

locale memory_bus =
  fixes ops :: "('s, 'z) bus_ops_scheme"
    and shows_memory :: "(u64 \<Rightarrow> u8) \<Rightarrow> 's \<Rightarrow> bool"
    and allowed :: "bus_access \<Rightarrow> bool"
    and ready_for :: "bus_access \<Rightarrow> 's \<Rightarrow> bool"
    and quiet :: "'s \<Rightarrow> bool"
    and nearer :: "('s \<times> 's) set"
  assumes access_law: "shows_memory f s \<Longrightarrow> allowed c \<Longrightarrow>
      wp (access_bus ops c s) (\<lambda>r s'. (\<exists>n. r = Inl (Busy n)) \<and> shows_memory f s' \<or>
        r = Inr (memory_answer c f) \<and> shows_memory (memory_effect c f) s' \<and> quiet s')"
    and tick_shows: "shows_memory f s \<Longrightarrow> wp (bus_tick ops s) (\<lambda>_ s'. shows_memory f s')"
    and quiet_ready: "quiet s \<Longrightarrow> ready_for c s"
    and retry_law: "shows_memory f s \<Longrightarrow> allowed c \<Longrightarrow> ready_for c s \<Longrightarrow> access_bus ops c s = Some (Inl e, s') \<Longrightarrow>
      bus_tick ops s' = Some (x, s'') \<Longrightarrow> ready_for c s'' \<and> (s'', s) \<in> nearer"
    and nearer_wf: "wf nearer"

context memory_bus begin

lemma run_memory:
  assumes "shows_memory f s" "\<forall>c. Some c \<in> set cs \<longrightarrow> allowed c"
  shows "\<exists>rs s'. run_accesses ops cs s = Some (rs, s') \<and> memory_run cs rs f"
  using assms
proof (induction cs arbitrary: f s)
  case (Cons c cs)
  show ?case
  proof (cases c)
    case None
    obtain x s1 where "bus_tick ops s = Some (x, s1)" "shows_memory f s1"
      using tick_shows [OF Cons.prems(1)] by (auto elim!: wp_elim)
    then show ?thesis using Cons.IH [of f s1] Cons.prems(2) None by simp
  next
    case (Some d)
    have ok: "\<forall>c. Some c \<in> set cs \<longrightarrow> allowed c" using Cons.prems(2) by simp
    obtain r s1 where r: "access_bus ops d s = Some (r, s1)"
        "(\<exists>n. r = Inl (Busy n)) \<and> shows_memory f s1 \<or>
          r = Inr (memory_answer d f) \<and> shows_memory (memory_effect d f) s1"
      using access_law [OF Cons.prems(1), of d] Cons.prems(2) Some by (auto elim!: wp_elim)
    from r(2) show ?thesis
    proof (elim disjE conjE exE)
      fix n assume "r = Inl (Busy n)" "shows_memory f s1"
      then show ?thesis using Cons.IH [OF _ ok, of f s1] r(1) Some by auto
    next
      assume "r = Inr (memory_answer d f)" "shows_memory (memory_effect d f) s1"
      then show ?thesis using Cons.IH [OF _ ok, of "memory_effect d f" s1] r(1) Some by auto
    qed
  qed
qed simp

lemma retry_answers:
  assumes "\<And>s. access_bus ops c s = answer_bytes g (call s)" "shows_memory f s" "allowed c" "ready_for c s"
  shows "\<exists>v k s'. retry_loop ops call n s = Some (Inr (v, k), s') \<and> g v = memory_answer c f \<and>
    shows_memory (memory_effect c f) s' \<and> quiet s'"
  using assms(2-4)
proof (induction s arbitrary: n rule: wf_induct_rule [OF nearer_wf])
  case (1 s)
  note loop = retry_loop.simps [of ops call n s]
  obtain q s1 where q: "call s = Some (q, s1)"
    using access_law [OF 1(2,3)] assms(1) [of s] by (auto simp: answer_bytes_def elim!: wp_elim)
  have r: "(\<exists>n. map_sum id g q = Inl (Busy n)) \<and> shows_memory f s1 \<or>
      map_sum id g q = Inr (memory_answer c f) \<and> shows_memory (memory_effect c f) s1 \<and> quiet s1"
    using access_law [OF 1(2,3)] assms(1) [of s] q by (auto simp: answer_bytes_def)
  show ?case
  proof (cases q)
    case (Inl e)
    then obtain m where b: "e = Busy m" "shows_memory f s1" using r by auto
    obtain x s2 where t: "bus_tick ops s1 = Some (x, s2)" "shows_memory f s2"
      using tick_shows [OF b(2)] by (auto elim!: wp_elim)
    have "access_bus ops c s = Some (Inl (Busy m), s1)" using assms(1) q Inl b(1) by (simp add: answer_bytes_def)
    then have "ready_for c s2 \<and> (s2, s) \<in> nearer" using retry_law [OF 1(2-4) _ t(1)] by blast
    then show ?thesis using 1(1) [of s2 "n + 1"] 1(3) t loop q Inl b(1) by simp
  next
    case (Inr v)
    then show ?thesis using loop q r by simp
  qed
qed

lemma measure_ends:
  assumes "\<And>s. access_bus ops c s = answer_bytes g (call s)" "shows_memory f s" "allowed c" "ready_for c s"
  shows "\<exists>k s'. measure_access ops call s = Some (Inr k, s') \<and> shows_memory (memory_effect c f) s' \<and> quiet s'"
  using retry_answers [OF assms, of 0] by (auto simp: measure_access_def)

lemma retry_completes:
  assumes "shows_memory f s" "allowed c" "ready_for c s"
  shows "\<exists>k s'. retry_loop ops (access_bus ops c) n s = Some (Inr (memory_answer c f, k), s') \<and>
    shows_memory (memory_effect c f) s' \<and> quiet s'"
  using retry_answers [of c "\<lambda>v. v" "access_bus ops c", OF _ assms] by (auto simp: answer_same)

lemma retry_all_completes:
  assumes "shows_memory f s" "quiet s" "\<forall>c \<in> set cs. allowed c"
  shows "\<exists>s'. retry_all ops cs s = Some (Inr (memory_answers cs f), s') \<and>
    shows_memory (memory_effects cs f) s' \<and> quiet s'"
  using assms
proof (induction cs arbitrary: f s)
  case (Cons c cs)
  obtain k s1 where s1: "retry_loop ops (access_bus ops c) 0 s = Some (Inr (memory_answer c f, k), s1)"
      "shows_memory (memory_effect c f) s1" "quiet s1"
    using retry_completes [OF Cons.prems(1) _ quiet_ready [OF Cons.prems(2)], of c 0] Cons.prems(3) by auto
  show ?case using Cons.IH [OF s1(2,3)] Cons.prems(3) s1(1) by (auto simp: memory_effects_def)
qed (simp add: memory_effects_def)

end

lemma map_sum_Inl: "map_sum id g r = Inl e \<Longrightarrow> (r = Inl e \<Longrightarrow> P) \<Longrightarrow> P"
  by (cases r) simp_all

lemma answer_bytes_Inl: "answer_bytes g m = Some (Inl e, s) \<Longrightarrow> m = Some (Inl e, s)"
  by (auto simp: answer_bytes_def elim!: map_sum_Inl)

subsection \<open>The accesses of a bank\<close>

fun bank_access :: "('b, 'z) burst_ops_scheme \<Rightarrow> bus_access \<Rightarrow> ('b, u8 list) bank_call" where
  "bank_access ops (Fetch32 a) st = answer_bytes le_bytes32 (bank_fetch32 ops a st)"
| "bank_access ops (Load8 a) st = answer_bytes (\<lambda>v. [v]) (bank_load8 ops a st)"
| "bank_access ops (Load16 a) st = answer_bytes le_bytes16 (bank_load16 ops a st)"
| "bank_access ops (Load32 a) st = answer_bytes le_bytes32 (bank_load32 ops a st)"
| "bank_access ops (Store8 a v) st = answer_bytes (\<lambda>_. []) (bank_store8 ops a v st)"
| "bank_access ops (Store16 a v) st = answer_bytes (\<lambda>_. []) (bank_store16 ops a v st)"
| "bank_access ops (Store32 a v) st = answer_bytes (\<lambda>_. []) (bank_store32 ops a v st)"

lemma memory_answer_cong:
  assumes "access_fits region c" "\<And>a. region a \<Longrightarrow> g a = f a"
  shows "memory_answer c g = memory_answer c f"
  using assms by (auto simp: memory_answer_def access_fits_def split: option.split)

lemma stored_cong: "(\<And>a. region a \<Longrightarrow> g a = f a) \<Longrightarrow> length bs < 2 ^ 64 \<Longrightarrow> region b \<Longrightarrow> stored a bs g b = stored a bs f b"
  by (simp add: stored_at)

lemma memory_effect_cong:
  assumes "\<And>a. region a \<Longrightarrow> g a = f a" "region b"
  shows "memory_effect c g b = memory_effect c f b"
  using assms stored_cong [of region g f] by (cases c) (simp_all add: memory_effect_def le_bytes16_def le_bytes32_def)

text \<open>The store of an access.\<close>

definition access_store :: "bus_access \<Rightarrow> store_op option" where
  "access_store c =
     (case c of
        Store8 a v \<Rightarrow> Some \<lparr>so_addr = a, so_width = 1, so_value = ucast v\<rparr>
      | Store16 a v \<Rightarrow> Some \<lparr>so_addr = a, so_width = 2, so_value = ucast v\<rparr>
      | Store32 a v \<Rightarrow> Some \<lparr>so_addr = a, so_width = 4, so_value = v\<rparr>
      | _ \<Rightarrow> None)"

lemma low_bytes:
  "take 1 (le_bytes32 (ucast (v :: u8))) = [v]" "take 2 (le_bytes32 (ucast (w :: u16))) = le_bytes16 w"
  by (auto simp: le_bytes32_def le_bytes16_def intro!: bit_word_eqI simp: bit_simps)

lemma access_store_spec:
  assumes "access_store c = Some s"
  shows "so_addr s = access_addr c" "so_width s = access_width c" "written_bytes c = Some (take (so_width s) (le_bytes32 (so_value s)))"
    "access_fits region c \<Longrightarrow> store_aligned s" "memory_effect c f a = after_store s f a" "memory_answer c f = []"
proof -
  show s: "so_addr s = access_addr c" "so_width s = access_width c"
    using assms by (auto simp: access_store_def split: bus_access.splits)
  show w: "written_bytes c = Some (take (so_width s) (le_bytes32 (so_value s)))"
    using assms low_bytes by (auto simp: access_store_def split: bus_access.splits)
  have n: "access_width c \<in> {1, 2, 4}" by (cases c) simp_all
  then show "store_aligned s" if "access_fits region c" using that s by (simp add: store_aligned_def access_fits_def)
  show "memory_answer c f = []" using w by (simp add: memory_answer_def)
  show "memory_effect c f a = after_store s f a"
    using w n s by (auto simp: memory_effect_def after_store_def stored_at)
qed

lemma access_cases:
  obtains (store) s where "access_store c = Some s"
    | (fetch) a where "c = Fetch32 a"
    | (load8) a where "c = Load8 a"
    | (load16) a where "c = Load16 a"
    | (load32) a where "c = Load32 a"
  by (cases c) (auto simp: access_store_def)

lemma bank_access_store:
  assumes "access_store c = Some s" "access_fits region c"
  shows "bank_access ops c st = answer_bytes (\<lambda>_. []) (bank_store ops s st)"
  using assms
  by (auto simp: access_store_def access_fits_def bank_store8_def bank_store16_def bank_store32_def misaligned_or_def
      aligned_mod split: bus_access.splits)

context live_bus begin

text \<open>What an access of the bank does to the memory that the bank shows.\<close>

definition access_result ::
  "bus_access \<Rightarrow> cache_bank \<times> 'b \<Rightarrow> bus_error + u8 list \<Rightarrow> cache_bank \<times> 'b \<Rightarrow> bool" where
  "access_result c st r st' \<longleftrightarrow> cinv st' \<and> cb_config (fst st') = cb_config (fst st) \<and>
     ((\<exists>n. r = Inl (Busy n)) \<and> (\<forall>a. region a \<longrightarrow> seen st' a = seen st a) \<or>
      r = Inr (memory_answer c (seen st)) \<and> cb_pending (fst st') = None \<and>
        (\<forall>a. region a \<longrightarrow> seen st' a = memory_effect c (seen st) a))"

lemma read_result:
  assumes "wp m (progress st P)" "written_bytes c = None" "access_fits region c"
    "\<And>v st'. P v st' \<Longrightarrow> g v = memory_answer c (seen st') \<and> cb_pending (fst st') = None"
  shows "wp (answer_bytes g m) (access_result c st)"
proof -
  obtain r st' where r: "m = Some (r, st')" "progress st P r st'" using assms(1) by (auto elim!: wp_elim)
  have s: "silent st st'" using r(2) by (simp add: progress_def)
  have eff: "memory_effect c f = f" for f using assms(2) by (simp add: memory_effect_def)
  have same: "memory_answer c (seen st') = memory_answer c (seen st)"
    by (rule memory_answer_cong [OF assms(3)]) (use s in \<open>simp add: silent_def\<close>)
  from r(2) consider (busy) n where "r = Inl (Busy n)" | (answer) v where "r = Inr v" "P v st'"
    by (auto simp: progress_def)
  then show ?thesis
  proof cases
    case busy
    then show ?thesis using r(1) s by (simp add: answer_bytes_def access_result_def silent_def)
  next
    case (answer v)
    then show ?thesis using r(1) s eff assms(4) [OF answer(2)] same
      by (simp add: answer_bytes_def access_result_def silent_def)
  qed
qed

lemma bank_access_spec:
  assumes "cinv (k, b)" "cc_allocation (cb_config k) = WriteAllocate" "access_fits region c"
  shows "wp (bank_access ops c (k, b)) (access_result c (k, b))"
proof -
  have r: "region (access_addr c)"
    using assms(3) by (cases c) (auto simp: access_fits_def dest: spec [of _ 0])
  have al: "unat (access_addr c) mod access_width c = 0" using assms(3) by (simp add: access_fits_def)
  show ?thesis
  proof (cases c rule: access_cases)
    case (store s)
    note st = access_store_spec [OF store]
    have "wp (bank_store ops s (k, b)) (store_progress s (k, b))"
      using bank_store_spec [OF assms(1) _ st(4) [OF assms(3)] assms(2)] r st(1) by simp
    then show ?thesis
      using bank_access_store [OF store assms(3), of ops "(k, b)"] st(5,6)
      by (auto simp: answer_bytes_def access_result_def store_progress_def stored_in_def silent_def elim!: wp_elim)
  next
    case (fetch a)
    show ?thesis
      using read_result [OF bank_word_spec(1) [OF assms(1)], of a c le_bytes32] assms(3) r al fetch
      by (auto simp: word_seen_def memory_answer_def)
  next
    case (load32 a)
    show ?thesis
      using read_result [OF bank_word_spec(2) [OF assms(1)], of a c le_bytes32] assms(3) r al load32
      by (auto simp: word_seen_def memory_answer_def)
  next
    case (load16 a)
    have "map (\<lambda>j. f (a + of_nat j)) [0..<2] = [f a, f (a + 1)]" for f :: "u64 \<Rightarrow> u8" by (simp add: upt_rec)
    then show ?thesis
      using read_result [OF bank_load16_spec [OF assms(1)], of a c le_bytes16] assms(3) r al load16
      by (auto simp: memory_answer_def)
  next
    case (load8 a)
    show ?thesis
      using read_result [OF bank_load8_spec [OF assms(1)], of a c "\<lambda>v. [v]"] assms(3) r load8
      by (auto simp: memory_answer_def)
  qed
qed

lemma bank_access_busy:
  assumes "cinv (k, b)" "cc_allocation (cb_config k) = WriteAllocate" "access_fits region c" "settled (access_addr c) k"
    "bank_access ops c (k, b) = Some (Inl e, st')"
  shows "waits_for (access_addr c) st' \<and> (st', (k, b)) \<in> bank_within closer"
proof -
  have r: "region (access_addr c)"
    using assms(3) by (cases c) (auto simp: access_fits_def dest: spec [of _ 0])
  have al: "unat (access_addr c) mod access_width c = 0" using assms(3) by (simp add: access_fits_def)
  show ?thesis
  proof (cases c rule: access_cases)
    case (store s)
    note st = access_store_spec [OF store]
    show ?thesis
      using busy_store [OF assms(1) _ st(4) [OF assms(3)] assms(2), of e st'] assms(4,5) r st(1)
        bank_access_store [OF store assms(3), of ops "(k, b)"] by (auto dest: answer_bytes_Inl)
  qed (use busy_loads [OF assms(1) r assms(4), of e st'] assms(3,5) al in
      \<open>auto simp: access_fits_def dest!: answer_bytes_Inl dest: spec [of _ 1]\<close>)
qed

end

subsection \<open>The unified cache\<close>

lemma uc_access_bus:
  assumes "uc_maintenance c = None"
  shows "access_bus (uc_ops ops) a c =
    map_option (\<lambda>(r, (k, b)). (r, c\<lparr>uc_bank := k, uc_inner := b\<rparr>)) (bank_access ops a (uc_bank c, uc_inner c))"
  using assms
  by (cases a) (auto simp: uc_ops_def uc_fetch32_def uc_load8_def uc_load16_def uc_load32_def uc_store8_def uc_store16_def
      uc_store32_def uc_access_def uc_on_bank_def answer_bytes_def option.map_comp comp_def prod.case_distrib
      intro!: option.map_cong)

text \<open>The split cache, for accesses of its data bank.\<close>

lemma invalidate_shaped:
  assumes "shaped k"
  shows "\<exists>k'. invalidate_line a k = Some k' \<and> shaped k' \<and> (cb_pending k = None \<longrightarrow> cb_pending k' = None)"
proof -
  let ?d = "decode_address k (line_base k a)"
  define k1 where "k1 = (case cb_pending k of
      Some p \<Rightarrow> if matches_line p ?d then k\<lparr>cb_pending := None\<rparr> else k | None \<Rightarrow> k)"
  have k1: "shaped k1" "cb_config k1 = cb_config k" "cb_pending k = None \<longrightarrow> cb_pending k1 = None"
    using assms by (auto simp: k1_def split: option.split)
  have inv: "invalidate_line a k = (if \<not> caches_line k (line_base k a) then Some k else
      case lookup_way k1 ?d of None \<Rightarrow> None | Some None \<Rightarrow> Some k1
      | Some (Some way) \<Rightarrow>
          map_option (\<lambda>k. k\<lparr>cb_stats := (cb_stats k)\<lparr>invalidations := invalidations (cb_stats k) + 1\<rparr>\<rparr>)
            (update_line (da_set_index ?d) way (\<lambda>l. Some (l\<lparr>cl_valid := False, cl_dirty := False\<rparr>)) k1))"
    unfolding invalidate_line_def invalidate_line_base_def Let_def k1_def by (rule refl)
  have i: "da_set_index ?d < sets_of k1" using set_of_less [OF assms, of "line_base k a"] k1(2) by simp
  then have s: "idx (cb_sets k1) (da_set_index ?d) = Some (cb_sets k1 ! da_set_index ?d)" "set_shaped k1 (da_set_index ?d) (cb_sets k1 ! da_set_index ?d)"
    using shaped_set [OF k1(1)] k1(1) by (simp_all add: shaped_def)
  obtain w where w: "lookup_way k1 ?d = Some w" using s(1) by (simp add: lookup_way_def)
  show ?thesis
  proof (cases w)
    case None
    then show ?thesis using w inv k1 assms by simp
  next
    case (Some j)
    let ?l = "line_in k1 (da_set_index ?d) j"
    have j: "j < ways_of k1" using w Some s by (auto simp: lookup_way_def set_shaped_def dest: position_Some)
    then have "line_shaped k1 (da_set_index ?d) (?l\<lparr>cl_valid := False, cl_dirty := False\<rparr>)"
      using s(2) by (simp add: set_shaped_def line_shaped_def)
    from update_line_slot [OF k1(1) i j _ this, of "\<lambda>l. Some (l\<lparr>cl_valid := False, cl_dirty := False\<rparr>)"]
    show ?thesis using w Some inv k1 assms by auto
  qed
qed

text \<open>The accesses of the split cache: reads of data go to the data bank, and stores also to the other.\<close>

definition is_fetch :: "bus_access \<Rightarrow> bool" where
  "is_fetch a \<longleftrightarrow> (\<exists>x. a = Fetch32 x)"

lemma answer_read:
  assumes "answer_bytes g (m (sc_data c, sc_inner c)) = Some (r, (k, b))" "shaped (sc_instruction c)"
    "cb_pending (sc_instruction c) = None"
  shows "\<exists>i. answer_bytes g (sc_on_data m c) = Some (r, c\<lparr>sc_data := k, sc_inner := b, sc_instruction := i\<rparr>) \<and>
    shaped i \<and> cb_pending i = None"
proof -
  have "c\<lparr>sc_data := k, sc_inner := b\<rparr> = c\<lparr>sc_data := k, sc_inner := b, sc_instruction := sc_instruction c\<rparr>" by simp
  moreover have "answer_bytes g (sc_on_data m c) = Some (r, c\<lparr>sc_data := k, sc_inner := b\<rparr>)"
    using assms(1) by (cases "m (sc_data c, sc_inner c)") (auto simp: answer_bytes_def sc_on_data_def)
  ultimately show ?thesis using assms(2,3) by (intro exI [of _ "sc_instruction c"]) simp
qed

lemma answer_store:
  assumes "answer_bytes g (m (sc_data c, sc_inner c)) = Some (r, (k, b))" "shaped (sc_instruction c)"
    "cb_pending (sc_instruction c) = None" "g = (\<lambda>_. [])"
  shows "\<exists>i. answer_bytes g (sc_store x m c) = Some (r, c\<lparr>sc_data := k, sc_inner := b, sc_instruction := i\<rparr>) \<and>
    shaped i \<and> cb_pending i = None"
proof -
  obtain i where i: "invalidate_line x (sc_instruction c) = Some i" "shaped i" "cb_pending i = None"
    using invalidate_shaped [OF assms(2)] assms(3) by blast
  obtain r' where r': "m (sc_data c, sc_inner c) = Some (r', (k, b))" "r = map_sum id g r'"
    using assms(1) by (auto simp: answer_bytes_def)
  show ?thesis
  proof (cases r')
    case (Inl e)
    have "c\<lparr>sc_data := k, sc_inner := b\<rparr> = c\<lparr>sc_data := k, sc_inner := b, sc_instruction := sc_instruction c\<rparr>" by simp
    then show ?thesis
      using r' Inl assms(2,3) by (intro exI [of _ "sc_instruction c"]) (simp add: answer_bytes_def sc_store_def sc_on_data_def)
  next
    case (Inr u)
    then show ?thesis
      using r' i assms(4) by (intro exI [of _ i]) (simp add: answer_bytes_def sc_store_def sc_on_data_def)
  qed
qed

lemma sc_access_bus:
  assumes "sc_maintenance c = None" "\<not> is_fetch a" "bank_access ops a (sc_data c, sc_inner c) = Some (r, (k, b))"
    "shaped (sc_instruction c)" "cb_pending (sc_instruction c) = None"
  shows "\<exists>i. access_bus (sc_ops ops) a c = Some (r, c\<lparr>sc_data := k, sc_inner := b, sc_instruction := i\<rparr>) \<and> shaped i \<and>
    cb_pending i = None"
proof -
  have ops: "bus_load8 (sc_ops ops) = sc_load8 ops" "bus_load16 (sc_ops ops) = sc_load16 ops"
    "bus_load32 (sc_ops ops) = sc_load32 ops" "bus_store8 (sc_ops ops) = sc_store8 ops"
    "bus_store16 (sc_ops ops) = sc_store16 ops" "bus_store32 (sc_ops ops) = sc_store32 ops"
    by (simp_all add: sc_ops_def)
  show ?thesis
  proof (cases a)
    case (Fetch32 x)
    then show ?thesis using assms(2) by (simp add: is_fetch_def)
  next
    case (Load8 x)
    then show ?thesis
      using answer_read [of "\<lambda>v. [v]" "bank_load8 ops x" c r k b] assms ops by (simp add: sc_load8_def sc_access_def)
  next
    case (Load16 x)
    then show ?thesis
      using answer_read [of le_bytes16 "bank_load16 ops x" c r k b] assms ops by (simp add: sc_load16_def sc_access_def)
  next
    case (Load32 x)
    then show ?thesis
      using answer_read [of le_bytes32 "bank_load32 ops x" c r k b] assms ops by (simp add: sc_load32_def sc_access_def)
  next
    case (Store8 x v)
    then show ?thesis
      using answer_store [of _ "bank_store8 ops x v" c r k b x] assms ops by (simp add: sc_store8_def sc_access_def)
  next
    case (Store16 x v)
    then show ?thesis
      using answer_store [of _ "bank_store16 ops x v" c r k b x] assms ops by (simp add: sc_store16_def sc_access_def)
  next
    case (Store32 x v)
    then show ?thesis
      using answer_store [of _ "bank_store32 ops x v" c r k b x] assms ops by (simp add: sc_store32_def sc_access_def)
  qed
qed

context live_bus begin

text \<open>A unified cache that serves no burst, and that shows the memory \<open>f\<close>.\<close>

definition uc_client :: "(u64 \<Rightarrow> u8) \<Rightarrow> 'b unified_cache \<Rightarrow> bool" where
  "uc_client f c \<longleftrightarrow> uc_home c \<and> uc_active_burst c = None \<and> (\<forall>a. region a \<longrightarrow> uc_seen c a = f a)"

definition uc_closer :: "('b unified_cache \<times> 'b unified_cache) set" where
  "uc_closer = inv_image (bank_closer closer) (\<lambda>c. (uc_bank c, uc_inner c))"

lemma access_shows:
  assumes "access_result a st r st'" "access_fits region a" "\<forall>x. region x \<longrightarrow> seen st x = f x"
  shows "(\<exists>n. r = Inl (Busy n)) \<and> (\<forall>x. region x \<longrightarrow> seen st' x = f x) \<or>
    r = Inr (memory_answer a f) \<and> cb_pending (fst st') = None \<and> (\<forall>x. region x \<longrightarrow> seen st' x = memory_effect a f x)"
  using assms memory_answer_cong [OF assms(2), of "seen st" f] memory_effect_cong [of region "seen st" f]
  by (auto simp: access_result_def)

lemma uc_memory:
  "memory_bus (uc_ops ops) uc_client (access_fits region) (\<lambda>a c. settled (access_addr a) (uc_bank c))
     (\<lambda>c. cb_pending (uc_bank c) = None) uc_closer"
proof
  fix f c a
  assume s: "uc_client f c" and fits: "access_fits region a"
  then have h: "uc_home c" "uc_active_burst c = None" "\<forall>x. region x \<longrightarrow> uc_seen c x = f x" by (simp_all add: uc_client_def)
  obtain r k b where r: "bank_access ops a (uc_bank c, uc_inner c) = Some (r, (k, b))"
      "access_result a (uc_bank c, uc_inner c) r (k, b)"
    using bank_access_spec [of "uc_bank c" "uc_inner c" a] h(1) fits by (auto simp: uc_home_def elim!: wp_elim)
  let ?c = "c\<lparr>uc_bank := k, uc_inner := b\<rparr>"
  have acc: "access_bus (uc_ops ops) a c = Some (r, ?c)" using uc_access_bus [of c ops a] r(1) h(1) by (simp add: uc_home_def)
  have home: "uc_home ?c" "uc_active_burst ?c = None"
    using h(1,2) r(2) by (simp_all add: uc_home_def access_result_def)
  have eff: "\<forall>x. region x \<longrightarrow> seen (uc_bank c, uc_inner c) x = f x" using h(3) by (simp add: uc_seen_def)
  show "wp (access_bus (uc_ops ops) a c) (\<lambda>r c'. (\<exists>n. r = Inl (Busy n)) \<and> uc_client f c' \<or>
      r = Inr (memory_answer a f) \<and> uc_client (memory_effect a f) c' \<and> cb_pending (uc_bank c') = None)"
    using acc home access_shows [OF r(2) fits eff] by (auto simp: uc_client_def uc_seen_def)
  fix e c1 x c2
  assume t: "settled (access_addr a) (uc_bank c)" "access_bus (uc_ops ops) a c = Some (Inl e, c1)"
    "bus_tick (uc_ops ops) c1 = Some (x, c2)"
  then have c1: "r = Inl e" "c1 = ?c" using acc by simp_all
  have w: "waits_for (access_addr a) (k, b)" "((k, b), (uc_bank c, uc_inner c)) \<in> bank_within closer"
    using bank_access_busy [of "uc_bank c" "uc_inner c" a e "(k, b)"] h(1) fits t(1) r(1) c1(1) by (simp_all add: uc_home_def)
  obtain y b' where b': "bus_tick ops b = Some (y, b')" "c2 = ?c\<lparr>uc_inner := b'\<rparr>"
    using t(3) c1(2) home(2)
    by (auto simp: uc_ops_def uc_tick_def uc_on_inner_def advance_active_burst_def split: option.splits)
  show "settled (access_addr a) (uc_bank c2) \<and> (c2, c) \<in> uc_closer"
    using waiting_tick [OF w(1) b'(1)] closer_within [OF closer_trans _ w(2)] b'(2) by (simp add: uc_closer_def)
next
  fix f c
  assume "uc_client f c"
  then have h: "uc_home c" "uc_active_burst c = None" "\<forall>x. region x \<longrightarrow> uc_seen c x = f x" by (simp_all add: uc_client_def)
  show "wp (bus_tick (uc_ops ops) c) (\<lambda>_. uc_client f)"
    using uc_inner_tick [OF h(1)] h(2,3)
    by (auto simp: uc_ops_def uc_tick_def uc_on_inner_def advance_active_burst_def uc_client_def untouched_def)
qed (simp_all add: settled_def uc_closer_def bank_closer_wf closer_wf)

text \<open>The split cache, with an instruction bank that is not waiting.\<close>

definition sc_client :: "(u64 \<Rightarrow> u8) \<Rightarrow> 'b split_cache \<Rightarrow> bool" where
  "sc_client f c \<longleftrightarrow> sc_maintenance c = None \<and> cinv (sc_data c, sc_inner c) \<and>
     cc_allocation (cb_config (sc_data c)) = WriteAllocate \<and> shaped (sc_instruction c) \<and>
     cb_pending (sc_instruction c) = None \<and> (\<forall>a. region a \<longrightarrow> seen (sc_data c, sc_inner c) a = f a)"

definition sc_closer :: "('b split_cache \<times> 'b split_cache) set" where
  "sc_closer = inv_image (bank_closer closer) (\<lambda>c. (sc_data c, sc_inner c))"

lemma sc_memory:
  "memory_bus (sc_ops ops) sc_client (\<lambda>a. access_fits region a \<and> \<not> is_fetch a) (\<lambda>a c. settled (access_addr a) (sc_data c))
     (\<lambda>c. cb_pending (sc_data c) = None) sc_closer"
proof
  fix f c a
  assume s: "sc_client f c" and a: "access_fits region a \<and> \<not> is_fetch a"
  then have fits: "access_fits region a" "\<not> is_fetch a" by simp_all
  have h: "sc_maintenance c = None" "cinv (sc_data c, sc_inner c)" "cc_allocation (cb_config (sc_data c)) = WriteAllocate"
      "shaped (sc_instruction c)" "cb_pending (sc_instruction c) = None" "\<forall>x. region x \<longrightarrow> seen (sc_data c, sc_inner c) x = f x"
    using s by (simp_all add: sc_client_def)
  obtain r k b where r: "bank_access ops a (sc_data c, sc_inner c) = Some (r, (k, b))"
      "access_result a (sc_data c, sc_inner c) r (k, b)"
    using bank_access_spec [OF h(2,3) fits(1)] by (auto elim!: wp_elim)
  obtain i where acc: "access_bus (sc_ops ops) a c = Some (r, c\<lparr>sc_data := k, sc_inner := b, sc_instruction := i\<rparr>)"
      "shaped i" "cb_pending i = None"
    using sc_access_bus [OF h(1) fits(2) r(1) h(4,5)] by blast
  let ?c = "c\<lparr>sc_data := k, sc_inner := b, sc_instruction := i\<rparr>"
  have home: "cinv (k, b)" "cb_config k = cb_config (sc_data c)" using r(2) by (simp_all add: access_result_def)
  show "wp (access_bus (sc_ops ops) a c) (\<lambda>r c'. (\<exists>n. r = Inl (Busy n)) \<and> sc_client f c' \<or>
      r = Inr (memory_answer a f) \<and> sc_client (memory_effect a f) c' \<and> cb_pending (sc_data c') = None)"
    using acc home h(1,3) access_shows [OF r(2) fits(1) h(6)] by (auto simp: sc_client_def)
  fix e c1 x c2
  assume t: "settled (access_addr a) (sc_data c)" "access_bus (sc_ops ops) a c = Some (Inl e, c1)"
    "bus_tick (sc_ops ops) c1 = Some (x, c2)"
  then have c1: "r = Inl e" "c1 = ?c" using acc(1) by simp_all
  have w: "waits_for (access_addr a) (k, b)" "((k, b), (sc_data c, sc_inner c)) \<in> bank_within closer"
    using bank_access_busy [OF h(2,3) fits(1) t(1)] r(1) c1(1) by simp_all
  obtain y b' where b': "bus_tick ops b = Some (y, b')" "c2 = ?c\<lparr>sc_inner := b'\<rparr>"
    using t(3) c1(2) by (auto simp: sc_ops_def sc_on_inner_def)
  show "settled (access_addr a) (sc_data c2) \<and> (c2, c) \<in> sc_closer"
    using waiting_tick [OF w(1) b'(1)] closer_within [OF closer_trans _ w(2)] b'(2) by (simp add: sc_closer_def)
next
  fix f c
  assume s: "sc_client f c"
  then have "cinv (sc_data c, sc_inner c)" by (simp add: sc_client_def)
  from bank_tick [OF this] s show "wp (bus_tick (sc_ops ops) c) (\<lambda>_. sc_client f)"
    by (auto simp: sc_ops_def sc_on_inner_def sc_client_def silent_def elim!: wp_elim)
qed (simp_all add: settled_def sc_closer_def bank_closer_wf closer_wf)

end

end
