(* ===== verification/Sv32.thy ===== *)
theory Sv32
  imports Mmu Cache_Client
begin

text \<open>
  Sv32 address translation, specified, and the page walker of \<open>crates/cpu/src/mmu.rs\<close> proved
  against it. The specification reads a memory of bytes: \<open>sv32_leaf\<close> finds the leaf of a virtual
  address, \<open>sv32\<close> is the fault or the physical address of a request, with the update of the
  accessed and dirty bits. It is written with arithmetic on page numbers and single bits of the
  entries, independent of the masks of the code. Then the masks of the code are related to it, and the TLB and
  a walk in progress to the tables in memory (\<open>tlb_sound\<close>, \<open>walk_sound\<close>).
\<close>

subsection \<open>Specification\<close>

text \<open>The word at an address; a physical address has 32 bits here, as in the code.\<close>

definition memory_word :: "(u64 \<Rightarrow> u8) \<Rightarrow> u32 \<Rightarrow> u32" where
  "memory_word f a = from_le32_list (map (\<lambda>j. f (ucast a + of_nat j)) [0..<4])"

definition pte_broken :: "u32 \<Rightarrow> bool" where
  "pte_broken p \<longleftrightarrow> \<not> bit p 0 \<or> (\<not> bit p 1 \<and> bit p 2)"

definition pte_leaf :: "u32 \<Rightarrow> bool" where
  "pte_leaf p \<longleftrightarrow> bit p 1 \<or> bit p 3"

text \<open>The address of an entry: the index of a virtual address at a level, in the table of a page number.\<close>

definition pte_address :: "nat \<Rightarrow> nat \<Rightarrow> u32 \<Rightarrow> u32" where
  "pte_address page level va = of_nat (page * 2 ^ 12 + unat va div 2 ^ (12 + 10 * level) mod 2 ^ 10 * 4)"

text \<open>
  The walk from the entry at an address: the level, the address and the globality of the leaf. An
  entry that points to a next table must not have its user, accessed or dirty bit set.
\<close>

fun sv32_from :: "(u64 \<Rightarrow> u8) \<Rightarrow> u32 \<Rightarrow> nat \<Rightarrow> bool \<Rightarrow> u32 \<Rightarrow> (nat \<times> u32 \<times> bool) option" where
  "sv32_from f va level shared a =
     (let p = memory_word f a in
      if pte_broken p then None
      else if pte_leaf p then Some (level, a, shared \<or> bit p 5)
      else if bit p 4 \<or> bit p 6 \<or> bit p 7 then None
      else (case level of
              0 \<Rightarrow> None
            | Suc n \<Rightarrow> sv32_from f va n (shared \<or> bit p 5) (pte_address (unat p div 2 ^ 10) n va)))"

text \<open>The addresses of the entries that it reads.\<close>

fun sv32_entries :: "(u64 \<Rightarrow> u8) \<Rightarrow> u32 \<Rightarrow> nat \<Rightarrow> u32 \<Rightarrow> u32 set" where
  "sv32_entries f va 0 a = {a}"
| "sv32_entries f va (Suc n) a =
     (let p = memory_word f a in
      insert a (if pte_broken p \<or> pte_leaf p then {} else sv32_entries f va n (pte_address (unat p div 2 ^ 10) n va)))"

definition sv32_root :: "u32 \<Rightarrow> u32 \<Rightarrow> u32" where
  "sv32_root sp va = pte_address (unat sp mod 2 ^ 22) 1 va"

definition sv32_leaf :: "(u64 \<Rightarrow> u8) \<Rightarrow> u32 \<Rightarrow> u32 \<Rightarrow> (nat \<times> u32 \<times> bool) option" where
  "sv32_leaf f sp va = sv32_from f va 1 False (sv32_root sp va)"

text \<open>A page of level 1 is a superpage, and has to be aligned.\<close>

definition sv32_target :: "nat \<Rightarrow> u32 \<Rightarrow> u32 \<Rightarrow> u32 option" where
  "sv32_target level p va =
     (if unat p div 2 ^ 10 mod 2 ^ (10 * level) \<noteq> 0 then None
      else Some (of_nat (unat p div 2 ^ 10 * 2 ^ 12 + unat va mod 2 ^ (12 + 10 * level))))"

definition sv32_permits :: "translation_request \<Rightarrow> u32 \<Rightarrow> bool" where
  "sv32_permits r p \<longleftrightarrow>
     (case rq_access r of
        InstructionAccess \<Rightarrow> bit p 3
      | LoadMemory \<Rightarrow> bit p 1 \<or> (bit (rq_status r) 19 \<and> bit p 3)
      | StoreMemory \<Rightarrow> bit p 2) \<and>
     (case rq_privilege r of
        Machine \<Rightarrow> True
      | Supervisor \<Rightarrow> bit p 4 \<longrightarrow> rq_access r \<noteq> InstructionAccess \<and> bit (rq_status r) 18
      | User \<Rightarrow> bit p 4)"

text \<open>The entry after the access.\<close>

definition sv32_marked :: "translation_request \<Rightarrow> u32 \<Rightarrow> u32" where
  "sv32_marked r p = set_bit 6 (if rq_access r = StoreMemory then set_bit 7 p else p)"

datatype sv32_result = Page_Fault | Page u32 "(u32 \<times> u32) option"

definition sv32 :: "(u64 \<Rightarrow> u8) \<Rightarrow> translation_request \<Rightarrow> sv32_result" where
  "sv32 f r =
     (case sv32_leaf f (rq_satp r) (rq_virtual_address r) of
        None \<Rightarrow> Page_Fault
      | Some (level, a, _) \<Rightarrow>
          let p = memory_word f a in
          (case sv32_target level p (rq_virtual_address r) of
             None \<Rightarrow> Page_Fault
           | Some pa \<Rightarrow>
               if \<not> sv32_permits r p then Page_Fault
               else Page pa (if sv32_marked r p = p then None else Some (a, sv32_marked r p))))"

text \<open>The result of the walker and the memory after it, by the specification.\<close>

definition sv32_answer :: "(u64 \<Rightarrow> u8) \<Rightarrow> translation_request \<Rightarrow> translation_result" where
  "sv32_answer f r =
     (if \<not> translation_enabled (rq_satp r) (rq_privilege r) then PhysicalAddress (rq_virtual_address r)
      else case sv32 f r of Page_Fault \<Rightarrow> TranslationFault (page_fault r) | Page pa _ \<Rightarrow> PhysicalAddress pa)"

definition sv32_walked :: "(u64 \<Rightarrow> u8) \<Rightarrow> translation_request \<Rightarrow> u64 \<Rightarrow> u8" where
  "sv32_walked f r =
     (case sv32 f r of Page _ (Some (a, v)) \<Rightarrow> memory_effect (Store32 (ucast a) v) f | _ \<Rightarrow> f)"

definition sv32_effect :: "(u64 \<Rightarrow> u8) \<Rightarrow> translation_request \<Rightarrow> u64 \<Rightarrow> u8" where
  "sv32_effect f r =
     (if translation_enabled (rq_satp r) (rq_privilege r) then sv32_walked f r else f)"

declare sv32_from.simps [simp del]

subsection \<open>The masks of the code\<close>

lemma and_power_bit: "(x :: 'a::len word) AND push_bit n 1 = 0 \<longleftrightarrow> \<not> bit x n"
  by (simp add: bit_iff_and_push_bit_not_eq_0)

lemma pte_flag_bits:
  "x AND 1 = 0 \<longleftrightarrow> \<not> bit x 0" "x AND 2 = 0 \<longleftrightarrow> \<not> bit x 1" "x AND 4 = 0 \<longleftrightarrow> \<not> bit x 2" "x AND 8 = 0 \<longleftrightarrow> \<not> bit x 3"
  "x AND 0x10 = 0 \<longleftrightarrow> \<not> bit x 4" "x AND 0x20 = 0 \<longleftrightarrow> \<not> bit x 5" "x AND 0x40 = 0 \<longleftrightarrow> \<not> bit x 6"
  "x AND 0x80 = 0 \<longleftrightarrow> \<not> bit x 7" "x AND 0x40000 = 0 \<longleftrightarrow> \<not> bit x 18" "x AND 0x80000 = 0 \<longleftrightarrow> \<not> bit x 19"
  for x :: u32
  using and_power_bit [of x 0] and_power_bit [of x 1] and_power_bit [of x 2] and_power_bit [of x 3] and_power_bit [of x 4]
    and_power_bit [of x 5] and_power_bit [of x 6] and_power_bit [of x 7] and_power_bit [of x 18] and_power_bit [of x 19]
  by simp_all

lemma or_flags: "x AND (a OR b) = 0 \<longleftrightarrow> x AND a = 0 \<and> x AND b = 0" for x :: "'a::len word"
  by (auto simp: bit_eq_iff bit_simps)

lemma bit_pte_flags: "bit (pte_flags p) n \<longleftrightarrow> n < 8 \<and> bit p n"
proof -
  have "pte_flags p = take_bit 8 p" by (simp add: pte_flags_def take_bit_eq_mask mask_eq_exp_minus_1)
  then show ?thesis by (simp add: bit_simps)
qed

lemma pte_tests:
  "pte_flags p AND PTE_V = 0 \<or> (pte_flags p AND PTE_R = 0 \<and> pte_flags p AND PTE_W \<noteq> 0) \<longleftrightarrow> pte_broken p"
  "pte_flags p AND (PTE_R OR PTE_X) \<noteq> 0 \<longleftrightarrow> pte_leaf p"
  "nonleaf_flags_valid (pte_flags p) \<longleftrightarrow> \<not> (bit p 4 \<or> bit p 6 \<or> bit p 7)"
  "pte_is_global (pte_flags p) \<longleftrightarrow> bit p 5"
proof -
  show "pte_flags p AND PTE_V = 0 \<or> (pte_flags p AND PTE_R = 0 \<and> pte_flags p AND PTE_W \<noteq> 0) \<longleftrightarrow> pte_broken p"
    "pte_is_global (pte_flags p) \<longleftrightarrow> bit p 5"
    by (simp_all add: pte_broken_def pte_flag_bits bit_pte_flags pte_is_global_def)
  have "(PTE_R OR PTE_X :: u32) = 2 OR 8" by simp
  then show "pte_flags p AND (PTE_R OR PTE_X) \<noteq> 0 \<longleftrightarrow> pte_leaf p"
    unfolding pte_leaf_def by (simp only: or_flags pte_flag_bits bit_pte_flags) simp
  have "NONLEAF_RESERVED_MASK = (0x10 OR 0x40 OR 0x80 :: u32)" by simp
  then show "nonleaf_flags_valid (pte_flags p) \<longleftrightarrow> \<not> (bit p 4 \<or> bit p 6 \<or> bit p 7)"
    unfolding nonleaf_flags_valid_def by (simp only: or_flags pte_flag_bits bit_pte_flags) simp
qed

lemma permits_flags: "sv32_permits r (pte_flags p) = sv32_permits r p"
  by (simp add: sv32_permits_def bit_pte_flags split: memory_access.split privilege_mode.split)

lemma permissions_allow_permits: "rq_privilege r \<noteq> Machine \<Longrightarrow> permissions_allow r flags = sv32_permits r flags"
  by (cases "rq_privilege r"; cases "rq_access r")
    (auto simp: permissions_allow_def sv32_permits_def pte_flag_bits Let_def)

lemma bit_marked: "bit (sv32_marked r p) n \<longleftrightarrow> bit p n \<or> n = 6 \<or> n = 7 \<and> rq_access r = StoreMemory"
  by (auto simp: sv32_marked_def bit_set_bit_iff)

lemma marked_same: "sv32_marked r p = p \<longleftrightarrow> bit p 6 \<and> (rq_access r = StoreMemory \<longrightarrow> bit p 7)"
proof
  assume "sv32_marked r p = p"
  then show "bit p 6 \<and> (rq_access r = StoreMemory \<longrightarrow> bit p 7)" using bit_marked [of r p 6] bit_marked [of r p 7] by auto
next
  assume "bit p 6 \<and> (rq_access r = StoreMemory \<longrightarrow> bit p 7)"
  then show "sv32_marked r p = p" by (intro bit_word_eqI) (auto simp: bit_marked)
qed

lemma access_bits: "flags OR access_bits_for r = sv32_marked r flags"
proof (rule bit_word_eqI)
  fix n
  have eqs: "(0x40 :: u32) = push_bit 6 1" "(0xC0 :: u32) = push_bit 6 1 OR push_bit 7 1" by simp_all
  have k: "bit (push_bit k 1 :: u32) n \<longleftrightarrow> n = k" if "k < 32" for k
    using that by (auto simp: bit_simps)
  have "bit (0x40 :: u32) n \<longleftrightarrow> n = 6" "bit (0xC0 :: u32) n \<longleftrightarrow> n = 6 \<or> n = 7"
    unfolding eqs bit_or_iff using k [of 6] k [of 7] by simp_all
  moreover have "access_bits_for r = (if rq_access r = StoreMemory then 0xC0 else 0x40)" by (simp add: access_bits_for_def)
  ultimately show "bit (flags OR access_bits_for r) n = bit (sv32_marked r flags) n"
    by (simp add: bit_marked bit_or_iff)
qed

lemma needs_update_marked: "needs_access_bit_update r flags \<longleftrightarrow> sv32_marked r flags \<noteq> flags"
proof -
  have "flags AND m = m \<longleftrightarrow> flags OR m = flags" for m :: u32
    by (auto simp: bit_eq_iff bit_simps)
  then show ?thesis by (simp add: needs_access_bit_update_def flip: access_bits)
qed

lemma updated_pte_marked: "updated_pte p r = sv32_marked r p"
  by (simp add: updated_pte_def access_bits)

lemma updated_flags_marked: "updated_flags r (pte_flags p) = pte_flags (sv32_marked r p)"
  unfolding updated_flags_def access_bits
  by (rule bit_word_eqI) (auto simp: bit_pte_flags sv32_marked_def bit_simps)

lemma marked_flags: "sv32_marked r (pte_flags p) = pte_flags p \<longleftrightarrow> sv32_marked r p = p"
  by (simp add: marked_same bit_pte_flags)

lemma unat_u32: "unat (x :: u32) < 4294967296"
proof -
  have "unat x < 2 ^ LENGTH(32)" by (rule unsigned_less)
  then show ?thesis by simp
qed

lemma unat_of_small: "n \<le> unat x \<Longrightarrow> unat (of_nat n :: u32) = n" for x :: u32
  using unat_u32 [of x] by (simp add: unat_of_nat)

lemma unat_drop_bit: "unat (drop_bit n x) = unat x div 2 ^ n" for x :: u32
proof -
  have "unat (drop_bit n x) = drop_bit n (take_bit LENGTH(32) (unat x))" by (rule unsigned_drop_bit_eq)
  also have "\<dots> = unat x div 2 ^ n" using unat_u32 [of x] by (simp only: take_bit_eq_mod drop_bit_eq_div) simp
  finally show ?thesis .
qed

lemma word_mod_div:
  fixes x :: u32
  shows "x AND 0x3ff = of_nat (unat x mod 2 ^ 10)" "x AND 0x3fffff = of_nat (unat x mod 2 ^ 22)"
    "x AND 0xfff = of_nat (unat x mod 2 ^ 12)" "drop_bit n x = of_nat (unat x div 2 ^ n)"
proof -
  have k: "x AND mask n = of_nat (unat x mod 2 ^ n)" for n
  proof (rule iffD2 [OF word_unat_eq_iff])
    have "unat (of_nat (unat x mod 2 ^ n) :: u32) = unat x mod 2 ^ n" by (rule unat_of_small [of _ x]) simp
    moreover have "unat (x AND mask n) = take_bit n (unat x)"
      unfolding take_bit_eq_mask [symmetric] by (rule unsigned_take_bit_eq)
    ultimately show "unat (x AND mask n) = unat (of_nat (unat x mod 2 ^ n) :: u32)"
      by (simp only: take_bit_eq_mod)
  qed
  show "x AND 0x3ff = of_nat (unat x mod 2 ^ 10)" "x AND 0x3fffff = of_nat (unat x mod 2 ^ 22)"
    "x AND 0xfff = of_nat (unat x mod 2 ^ 12)"
    using k [of 10] k [of 22] k [of 12] by (simp_all add: mask_eq_exp_minus_1)
  show "drop_bit n x = of_nat (unat x div 2 ^ n)"
  proof -
    have "drop_bit n x = of_nat (unat (drop_bit n x))" by simp
    then show ?thesis by (simp only: unat_drop_bit)
  qed
qed

lemma vpn_div: "n < 2 \<Longrightarrow> vpn va (of_nat n) = of_nat (unat va div 2 ^ (12 + 10 * n) mod 2 ^ 10)"
proof -
  have "unat (of_nat (unat va div 2 ^ k) :: u32) = unat va div 2 ^ k" for k
    by (rule unat_of_small [of _ va]) simp
  then have v: "drop_bit k va AND 0x3ff = of_nat (unat va div 2 ^ k mod 2 ^ 10)" for k
    by (simp add: word_mod_div)
  show "n < 2 \<Longrightarrow> vpn va (of_nat n) = of_nat (unat va div 2 ^ (12 + 10 * n) mod 2 ^ 10)"
    using v [of 12] v [of 22] by (auto simp: vpn_def less_2_cases_iff)
qed

lemma table_entry: "n < 2 \<Longrightarrow> push_bit 12 (of_nat page) + vpn va (of_nat n) * 4 = pte_address page n va"
  by (simp add: vpn_div pte_address_def push_bit_eq_mult mult.commute)

lemma pte_ppn_div: "pte_ppn p = of_nat (unat p div 2 ^ 10)"
proof -
  have "unat p div 2 ^ 10 < 2 ^ 22" using unat_u32 [of p] by (simp add: less_mult_imp_div_less)
  moreover have "unat (of_nat (unat p div 2 ^ 10) :: u32) = unat p div 2 ^ 10" by (rule unat_of_small [of _ p]) simp
  ultimately show ?thesis by (simp add: pte_ppn_def word_mod_div)
qed

lemma root_address: "root_pte_address r = sv32_root (rq_satp r) (rq_virtual_address r)"
  using table_entry [of 1 "unat (rq_satp r) mod 2 ^ 22"] by (simp add: root_pte_address_def sv32_root_def word_mod_div)

lemma next_address: "push_bit 12 (pte_ppn p) + vpn va 0 * 4 = pte_address (unat p div 2 ^ 10) 0 va"
  using table_entry [of 0] by (simp add: pte_ppn_div)

lemma pte_aligned: "unat (pte_address page level va) mod 4 = 0"
proof -
  have "page * 2 ^ 12 + unat va div 2 ^ (12 + 10 * level) mod 2 ^ 10 * 4 =
      4 * (page * 2 ^ 10 + unat va div 2 ^ (12 + 10 * level) mod 2 ^ 10)" by simp
  moreover have "(4 * q) mod 2 ^ LENGTH(32) mod 4 = (4 * q) mod 4" for q :: nat
    by (rule mod_mod_cancel) simp
  ultimately show ?thesis unfolding pte_address_def unat_of_nat by (simp only: mod_mult_self1_is_0)
qed

text \<open>The physical address: the code joins bit fields, the specification adds.\<close>

lemma or_is_add:
  fixes x :: u32
  assumes "y = take_bit n y"
  shows "push_bit n x OR y = push_bit n x + y"
proof (rule disjunctive_add [symmetric])
  show "\<not> bit (push_bit n x) k \<or> \<not> bit y k" for k
    using arg_cong [OF assms, of "\<lambda>y. bit y k"] by (auto simp: bit_simps)
qed

lemma leaf_target:
  assumes "level < 2" "walk_level st = of_nat level"
  shows "translate_leaf st p = sv32_target level p (rq_virtual_address (walk_request st))"
proof -
  let ?va = "rq_virtual_address (walk_request st)" and ?n = "pte_ppn p"
  have n: "unat ?n = unat p div 2 ^ 10" unfolding pte_ppn_div by (rule unat_of_small [of _ p]) simp
  have low: "?n AND 0x3ff = of_nat (unat p div 2 ^ 10 mod 2 ^ 10)" using n by (simp add: word_mod_div)
  have join: "push_bit 10 (drop_bit 10 ?n) OR (?n AND 0x3ff) = ?n"
  proof -
    have m: "?n AND 0x3ff = take_bit 10 ?n" by (simp add: take_bit_eq_mask mask_eq_exp_minus_1)
    show ?thesis unfolding m by (rule bit_word_eqI) (auto simp: bit_simps)
  qed
  have base: "push_bit 12 ?n = of_nat (unat p div 2 ^ 10 * 2 ^ 12)" by (simp add: pte_ppn_div push_bit_eq_mult)
  consider "level = 0" | "level = 1" using assms(1) by linarith
  then show ?thesis
  proof cases
    case 1
    have "push_bit 12 ?n OR (?va AND 0xfff) = push_bit 12 ?n + (?va AND 0xfff)"
      by (rule or_is_add) (simp add: take_bit_eq_mask mask_eq_exp_minus_1 and.assoc)
    moreover have "translate_leaf st p = Some (push_bit 12 (push_bit 10 (drop_bit 10 ?n) OR (?n AND 0x3ff)) OR (?va AND 0xfff))"
      unfolding translate_leaf_def Let_def using assms(2) 1 by (simp only: if_False) simp
    ultimately show ?thesis using 1 base unfolding join by (simp add: sv32_target_def word_mod_div(3))
  next
    case 2
    have z: "?n AND 0x3ff = 0 \<longleftrightarrow> unat p div 2 ^ 10 mod 2 ^ 10 = 0"
    proof -
      have "unat (of_nat (unat p div 2 ^ 10 mod 2 ^ 10) :: u32) = unat p div 2 ^ 10 mod 2 ^ 10"
        by (rule unat_of_small [of _ p]) (meson div_le_dividend le_trans mod_less_eq_dividend)
      then show ?thesis unfolding low word_unat_eq_iff by (simp only: unsigned_0)
    qed
    show ?thesis
    proof (cases "?n AND 0x3ff = 0")
      case False
      then show ?thesis using assms(2) 2 z by (simp add: translate_leaf_def sv32_target_def Let_def)
    next
      case True
      have off: "push_bit 12 (vpn ?va 0) OR (?va AND 0xfff) = ?va AND 0x3fffff"
      proof -
        have m: "?va AND 0xfff = take_bit 12 ?va" "?va AND 0x3fffff = take_bit 22 ?va"
          "vpn ?va 0 = take_bit 10 (drop_bit 12 ?va)"
          by (simp_all add: vpn_def take_bit_eq_mask mask_eq_exp_minus_1)
        show ?thesis unfolding m by (rule bit_word_eqI) (auto simp: bit_simps)
      qed
      have "push_bit 12 (push_bit 10 (drop_bit 10 ?n) OR vpn ?va 0) OR (?va AND 0xfff) = push_bit 12 ?n OR (?va AND 0x3fffff)"
        using join True off by (simp add: or.assoc)
      moreover have "push_bit 12 ?n = push_bit 22 (drop_bit 10 ?n)" using join True
      proof -
        have "?n = push_bit 10 (drop_bit 10 ?n)" using join unfolding True by simp
        then have "push_bit 12 ?n = push_bit 12 (push_bit 10 (drop_bit 10 ?n))" by (rule arg_cong)
        then show ?thesis by simp
      qed
      moreover have "push_bit 22 (drop_bit 10 ?n) OR (?va AND 0x3fffff) = push_bit 22 (drop_bit 10 ?n) + (?va AND 0x3fffff)"
        by (rule or_is_add) (simp add: take_bit_eq_mask mask_eq_exp_minus_1 and.assoc)
      ultimately show ?thesis using assms(2) 2 True z base
        by (simp add: translate_leaf_def sv32_target_def Let_def word_mod_div(2))
    qed
  qed
qed

subsection \<open>Entries in memory\<close>

text \<open>A store of an entry changes no other entry.\<close>

lemma memory_word_store:
  assumes "unat a mod 4 = 0" "unat b mod 4 = 0"
  shows "memory_word (memory_effect (Store32 (ucast a) v) f) b = (if b = a then v else memory_word f b)"
proof -
  have byte: "memory_effect (Store32 (ucast a) v) f (ucast b + of_nat j) =
      (if b = a then le_bytes32 v ! j else f (ucast b + of_nat j))" if "j < 4" for j
  proof -
    let ?d = "(ucast b + of_nat j - ucast a) :: u64"
    have "b = a \<Longrightarrow> unat ?d = j" using that by (simp add: unat_of_nat)
    moreover have "b \<noteq> a \<Longrightarrow> \<not> unat ?d < 4"
    proof
      assume ne: "b \<noteq> a" and less: "unat ?d < 4"
      have "(ucast a :: u64) + of_nat (unat ?d) = ucast b + of_nat j" by simp
      then have "unat ((ucast a :: u64) + of_nat (unat ?d)) = unat ((ucast b :: u64) + of_nat j)" by simp
      moreover have "unat ((ucast x :: u64) + of_nat n) = unat x + n" if "n < 4" for x :: u32 and n
        using that unat_u32 [of x] by (simp add: unat_word_ariths unat_of_nat unsigned_ucast_eq take_bit_eq_mod)
      ultimately have "unat a + unat ?d = unat b + j" using less that by (simp del: of_nat_unat)
      then have "unat a = unat b" using assms less that by presburger
      then show False using ne by (simp add: word_unat_eq_iff)
    qed
    ultimately show ?thesis using that by (simp add: memory_effect_def stored_at)
  qed
  have "map (\<lambda>j. memory_effect (Store32 (ucast a) v) f (ucast b + of_nat j)) [0..<4] =
      map (\<lambda>j. if b = a then le_bytes32 v ! j else f (ucast b + of_nat j)) [0..<4]"
    using byte by (intro map_cong) auto
  then have w: "memory_word (memory_effect (Store32 (ucast a) v) f) b =
      from_le32_list (map (\<lambda>j. if b = a then le_bytes32 v ! j else f (ucast b + of_nat j)) [0..<4])"
    by (simp only: memory_word_def)
  have "map (\<lambda>j. le_bytes32 v ! j) [0..<4] = le_bytes32 v"
    using map_nth [of "le_bytes32 v"] by simp
  then show ?thesis unfolding w by (cases "b = a") (simp_all add: memory_word_def)
qed

text \<open>Memories that differ in accessed and dirty bits of leaves.\<close>

definition marked :: "(u64 \<Rightarrow> u8) \<Rightarrow> (u64 \<Rightarrow> u8) \<Rightarrow> bool" where
  "marked f g \<longleftrightarrow> (\<forall>a. unat a mod 4 = 0 \<longrightarrow> memory_word g a = memory_word f a \<or>
     pte_leaf (memory_word f a) \<and> (\<exists>r. memory_word g a = sv32_marked r (memory_word f a)))"

lemma marked_refl [simp]: "marked f f"
  by (simp add: marked_def)

lemma marked_store:
  assumes "unat a mod 4 = 0" "pte_leaf (memory_word f a)"
  shows "marked f (memory_effect (Store32 (ucast a) (sv32_marked r (memory_word f a))) f)"
  using assms by (auto simp: marked_def memory_word_store)

lemma marked_entry:
  assumes "marked f g" "unat a mod 4 = 0"
  shows "pte_broken (memory_word g a) = pte_broken (memory_word f a)" "pte_leaf (memory_word g a) = pte_leaf (memory_word f a)"
    "\<not> pte_leaf (memory_word f a) \<Longrightarrow> memory_word g a = memory_word f a" "bit (memory_word f a) n \<Longrightarrow> bit (memory_word g a) n"
    "n \<noteq> 6 \<Longrightarrow> n \<noteq> 7 \<Longrightarrow> bit (memory_word g a) n = bit (memory_word f a) n"
proof -
  consider "memory_word g a = memory_word f a" | r where "pte_leaf (memory_word f a)" "memory_word g a = sv32_marked r (memory_word f a)"
    using assms(1) [unfolded marked_def, rule_format, OF assms(2)] by auto
  then show "pte_broken (memory_word g a) = pte_broken (memory_word f a)" "pte_leaf (memory_word g a) = pte_leaf (memory_word f a)"
    "\<not> pte_leaf (memory_word f a) \<Longrightarrow> memory_word g a = memory_word f a" "bit (memory_word f a) n \<Longrightarrow> bit (memory_word g a) n"
    "n \<noteq> 6 \<Longrightarrow> n \<noteq> 7 \<Longrightarrow> bit (memory_word g a) n = bit (memory_word f a) n"
    by (cases; simp add: pte_broken_def pte_leaf_def bit_marked)+
qed

lemma marked_from:
  assumes "marked f g" "unat a mod 4 = 0"
  shows "sv32_from g va level shared a = sv32_from f va level shared a"
  using assms(2)
proof (induction level arbitrary: shared a)
  case 0
  then show ?case
    using marked_entry [OF assms(1) 0] by (simp add: sv32_from.simps [of _ _ 0] Let_def)
next
  case (Suc n)
  then show ?case
    using marked_entry [OF assms(1) Suc.prems] Suc.IH [OF pte_aligned]
    by (simp add: sv32_from.simps [of _ _ "Suc n"] Let_def)
qed

lemma marked_entries:
  assumes "marked f g" "unat a mod 4 = 0"
  shows "sv32_entries g va level a = sv32_entries f va level a"
  using assms(2)
proof (induction level arbitrary: a)
  case (Suc n)
  then show ?case using marked_entry [OF assms(1) Suc.prems] Suc.IH [OF pte_aligned] by (auto simp: Let_def)
qed simp

lemma marked_leaf: "marked f g \<Longrightarrow> sv32_leaf g sp va = sv32_leaf f sp va"
  by (simp add: sv32_leaf_def marked_from sv32_root_def pte_aligned)

lemma from_leaf:
  assumes "sv32_from f va level shared a = Some (level', a', shared')" "unat a mod 4 = 0"
  shows "level' \<le> level \<and> unat a' mod 4 = 0 \<and> pte_leaf (memory_word f a') \<and> a' \<in> sv32_entries f va level a"
  using assms
proof (induction level arbitrary: shared a)
  case 0
  then show ?case by (auto simp: sv32_from.simps [of _ _ 0] Let_def split: if_splits)
next
  case (Suc n)
  then show ?case
    using Suc.IH [OF _ pte_aligned]
    by (fastforce simp: sv32_from.simps [of _ _ "Suc n"] Let_def split: if_splits)
qed

lemma leaf_entry:
  assumes "sv32_leaf f sp va = Some (level, a, shared)"
  shows "level < 2" "unat a mod 4 = 0" "pte_leaf (memory_word f a)"
  using from_leaf [OF assms [unfolded sv32_leaf_def]] pte_aligned by (simp_all add: sv32_root_def)

text \<open>The leaf is that of every address in its page.\<close>

lemma leaf_page:
  assumes "sv32_leaf f sp va = Some (level, a, shared)" "unat va div 2 ^ (12 + 10 * level) = unat va' div 2 ^ (12 + 10 * level)"
  shows "sv32_leaf f sp va' = Some (level, a, shared)"
proof -
  have up: "x div 4194304 = x div 4096 div 1024" for x :: nat by (simp add: div_mult2_eq flip: div_mult2_eq)
  then have root: "unat va div 4194304 = unat va' div 4194304"
    using leaf_entry(1) [OF assms(1)] assms(2) by (auto simp: less_2_cases_iff)
  then have eq: "sv32_root sp va' = sv32_root sp va" by (simp add: sv32_root_def pte_address_def)
  have "level = 0 \<Longrightarrow> pte_address page 0 va' = pte_address page 0 va" for page
    using assms(2) by (simp add: pte_address_def)
  then show ?thesis
    using assms(1) unfolding sv32_leaf_def eq
    by (auto simp: sv32_from.simps [of _ _ "Suc 0"] sv32_from.simps [of _ _ 0] Let_def split: if_splits)
qed

lemma page_of_base: "unat (v AND NOT (mask n)) div 2 ^ n = unat v div 2 ^ n" for v :: u32
proof -
  have "drop_bit n (v AND NOT (mask n)) = drop_bit n v"
    by (rule bit_word_eqI) (auto simp: bit_simps dest: bit_imp_le_length)
  then have "unat (drop_bit n (v AND NOT (mask n))) = unat (drop_bit n v)" by simp
  then show ?thesis by (simp only: unat_drop_bit)
qed

text \<open>The target of a page, from the target of its base.\<close>

lemma target_base:
  assumes "sv32_target level p va = Some pa" "level < 2"
  defines "m \<equiv> mask (12 + 10 * level)"
  shows "sv32_target level p (va AND NOT m) = Some (pa AND NOT m)" "pa = (pa AND NOT m) OR (va AND m)"
    "sv32_target level p va' = Some ((pa AND NOT m) OR (va' AND m))"
proof -
  let ?k = "12 + 10 * level"
  let ?b = "of_nat (unat p div 2 ^ 10 * 2 ^ 12) :: u32"
  have al: "unat p div 2 ^ 10 mod 2 ^ (10 * level) = 0" using assms(1) by (simp add: sv32_target_def split: if_splits)
  then obtain q where q: "unat p div 2 ^ 10 = 2 ^ (10 * level) * q" by (metis mod_0_imp_dvd dvdE)
  have b: "?b = push_bit ?k (of_nat q)"
    unfolding q by (simp add: push_bit_eq_mult power_add algebra_simps)
  have k: "of_nat (unat x mod 2 ^ ?k) = x AND m" for x :: u32
    using word_mod_div(2,3) [of x] assms(2) by (auto simp: m_def less_2_cases_iff mask_eq_exp_minus_1)
  have t: "sv32_target level p x = Some (push_bit ?k (of_nat q) OR (x AND m))" for x
  proof -
    have "push_bit ?k (of_nat q) OR (x AND m) = push_bit ?k (of_nat q) + (x AND m)"
      by (rule or_is_add) (simp add: m_def take_bit_eq_mask and.assoc)
    then show ?thesis using al k [of x] b by (simp add: sv32_target_def)
  qed
  have high: "(push_bit ?k (of_nat q) OR (x AND m)) AND NOT m = push_bit ?k (of_nat q)" for x :: u32
    unfolding m_def by (rule bit_word_eqI) (auto simp: bit_simps)
  have pa: "pa = push_bit ?k (of_nat q) OR (va AND m)" using t [of va] assms(1) by simp
  show "sv32_target level p (va AND NOT m) = Some (pa AND NOT m)"
    unfolding t pa high by (simp add: and.assoc)
  show "pa = (pa AND NOT m) OR (va AND m)" "sv32_target level p va' = Some ((pa AND NOT m) OR (va' AND m))"
    unfolding t pa high by simp_all
qed

subsection \<open>The TLB and the walk in progress\<close>

text \<open>
  An entry agrees with the tables of its address space: it is the leaf of its page, and its flags
  are those of the leaf, except that an accessed or dirty bit may be missing.
\<close>

definition entry_sound :: "(u64 \<Rightarrow> u8) \<Rightarrow> tlb_entry \<Rightarrow> bool" where
  "entry_sound f e \<longleftrightarrow>
     (\<exists>level a. sv32_leaf f (te_satp e) (te_virtual_base e) = Some (level, a, te_global_mapping e) \<and>
        te_page_mask e = mask (12 + 10 * level) \<and>
        sv32_target level (memory_word f a) (te_virtual_base e) = Some (te_physical_base e) \<and>
        te_physical_base e AND te_page_mask e = 0 \<and> te_virtual_base e AND te_page_mask e = 0 \<and>
        (\<forall>n. bit (te_flags e) n \<longrightarrow> bit (memory_word f a) n) \<and>
        (\<forall>n < 6. bit (te_flags e) n = bit (memory_word f a) n))"

text \<open>
  The address spaces that may be current, by their \<open>satp\<close>. A page that is global in one of them is
  the same page in all: it is what the bit promises, and the code relies on it.
\<close>

definition globals_shared :: "(u64 \<Rightarrow> u8) \<Rightarrow> u32 set \<Rightarrow> bool" where
  "globals_shared f spaces \<longleftrightarrow>
     (\<forall>sp \<in> spaces. \<forall>sp' \<in> spaces. \<forall>va level a.
        sv32_leaf f sp va = Some (level, a, True) \<longrightarrow> sv32_leaf f sp' va = Some (level, a, True))"

definition tlb_sound :: "(u64 \<Rightarrow> u8) \<Rightarrow> u32 set \<Rightarrow> page_walker \<Rightarrow> bool" where
  "tlb_sound f spaces w \<longleftrightarrow> (\<forall>e. Some e \<in> set (tlb w) \<longrightarrow> te_satp e \<in> spaces \<and> entry_sound f e)"

lemma marked_target:
  assumes "marked f g" "unat a mod 4 = 0"
  shows "sv32_target level (memory_word g a) va = sv32_target level (memory_word f a) va"
proof -
  have "drop_bit 10 (memory_word g a) = drop_bit 10 (memory_word f a)"
    by (rule bit_word_eqI) (auto simp: bit_simps marked_entry(5) [OF assms])
  then have "unat (drop_bit 10 (memory_word g a)) = unat (drop_bit 10 (memory_word f a))" by simp
  then show ?thesis by (simp only: unat_drop_bit sv32_target_def)
qed

lemma marked_sound:
  assumes "marked f g" "entry_sound f e"
  shows "entry_sound g e"
proof -
  obtain level a where e: "sv32_leaf f (te_satp e) (te_virtual_base e) = Some (level, a, te_global_mapping e)"
      "te_page_mask e = mask (12 + 10 * level)"
      "sv32_target level (memory_word f a) (te_virtual_base e) = Some (te_physical_base e)"
      "te_physical_base e AND te_page_mask e = 0" "te_virtual_base e AND te_page_mask e = 0"
      "\<forall>n. bit (te_flags e) n \<longrightarrow> bit (memory_word f a) n" "\<forall>n < 6. bit (te_flags e) n = bit (memory_word f a) n"
    using assms(2) by (auto simp: entry_sound_def)
  note m = marked_entry [OF assms(1) leaf_entry(2) [OF e(1)]]
  have "sv32_target level (memory_word g a) va = sv32_target level (memory_word f a) va" for va
    using marked_target [OF assms(1) leaf_entry(2) [OF e(1)]] .
  then show ?thesis
    using e m(4,5) marked_leaf [OF assms(1)] unfolding entry_sound_def by (intro exI [of _ level] exI [of _ a]) auto
qed

lemma marked_tlb: "marked f g \<Longrightarrow> tlb_sound f spaces w \<Longrightarrow> tlb_sound g spaces w"
  using marked_sound by (auto simp: tlb_sound_def)

lemma marked_globals: "marked f g \<Longrightarrow> globals_shared g spaces = globals_shared f spaces"
  by (simp add: globals_shared_def marked_leaf)

text \<open>An entry that matches a request is the leaf of its address.\<close>

lemma entry_hit:
  assumes "entry_sound f e" "entry_matches e r" "te_satp e \<in> spaces" "rq_satp r \<in> spaces" "globals_shared f spaces"
  shows "\<exists>level a. sv32_leaf f (rq_satp r) (rq_virtual_address r) = Some (level, a, te_global_mapping e) \<and>
    sv32_target level (memory_word f a) (rq_virtual_address r) = Some (entry_translate e r) \<and>
    (\<forall>n. bit (te_flags e) n \<longrightarrow> bit (memory_word f a) n) \<and>
    (\<forall>n < 6. bit (te_flags e) n = bit (memory_word f a) n)"
proof -
  let ?va = "rq_virtual_address r" and ?b = "te_virtual_base e" and ?m = "te_page_mask e"
  obtain level a where e: "sv32_leaf f (te_satp e) ?b = Some (level, a, te_global_mapping e)"
      "?m = mask (12 + 10 * level)" "sv32_target level (memory_word f a) ?b = Some (te_physical_base e)"
      "te_physical_base e AND ?m = 0"
      "\<forall>n. bit (te_flags e) n \<longrightarrow> bit (memory_word f a) n" "\<forall>n < 6. bit (te_flags e) n = bit (memory_word f a) n"
    using assms(1) by (auto simp: entry_sound_def)
  have b: "?va AND NOT ?m = ?b" "te_global_mapping e \<or> te_satp e = rq_satp r" using assms(2) by (simp_all add: entry_matches_def)
  have page: "unat ?b div 2 ^ (12 + 10 * level) = unat ?va div 2 ^ (12 + 10 * level)"
    using page_of_base [of ?va "12 + 10 * level"] b(1) e(2) by simp
  have "sv32_leaf f (rq_satp r) ?b = Some (level, a, te_global_mapping e)"
  proof (cases "te_global_mapping e")
    case True
    then show ?thesis using e(1) assms(5) [unfolded globals_shared_def, rule_format, OF assms(3,4), of ?b level a] by simp
  qed (use b(2) e(1) in simp)
  then have l: "sv32_leaf f (rq_satp r) ?va = Some (level, a, te_global_mapping e)" using leaf_page page by blast
  have "te_physical_base e AND NOT ?m = te_physical_base e"
    using e(4) by (intro bit_word_eqI) (auto simp: bit_simps bit_eq_iff)
  then have "sv32_target level (memory_word f a) ?va = Some (entry_translate e r)"
    using target_base(3) [OF e(3) leaf_entry(1) [OF e(1)], of ?va] e(2) by (simp add: entry_translate_def)
  then show ?thesis using l e by blast
qed

lemma permits_low: "(\<And>n. n < 6 \<Longrightarrow> bit p n = bit q n) \<Longrightarrow> sv32_permits r p = sv32_permits r q"
  by (simp add: sv32_permits_def split: memory_access.split privilege_mode.split)

lemma hit_permission:
  assumes "entry_sound f e" "entry_matches e r" "te_satp e \<in> spaces" "rq_satp r \<in> spaces" "globals_shared f spaces"
    "rq_privilege r \<noteq> Machine"
  shows "\<not> permissions_allow r (te_flags e) \<Longrightarrow> sv32 f r = Page_Fault"
    "permissions_allow r (te_flags e) \<Longrightarrow> \<not> needs_access_bit_update r (te_flags e) \<Longrightarrow> sv32 f r = Page (entry_translate e r) None"
    "permissions_allow r (te_flags e) \<Longrightarrow> sv32 f r \<noteq> Page_Fault"
proof -
  obtain level a where h: "sv32_leaf f (rq_satp r) (rq_virtual_address r) = Some (level, a, te_global_mapping e)"
      "sv32_target level (memory_word f a) (rq_virtual_address r) = Some (entry_translate e r)"
      "\<forall>n. bit (te_flags e) n \<longrightarrow> bit (memory_word f a) n" "\<forall>n < 6. bit (te_flags e) n = bit (memory_word f a) n"
    using entry_hit [OF assms(1-5)] by blast
  have p: "permissions_allow r (te_flags e) = sv32_permits r (memory_word f a)"
    using permits_low [of "te_flags e" "memory_word f a" r] h(4) permissions_allow_permits [OF assms(6)] by simp
  then show "\<not> permissions_allow r (te_flags e) \<Longrightarrow> sv32 f r = Page_Fault"
    "permissions_allow r (te_flags e) \<Longrightarrow> sv32 f r \<noteq> Page_Fault"
    using h(1,2) by (simp_all add: sv32_def Let_def)
  assume "permissions_allow r (te_flags e)" "\<not> needs_access_bit_update r (te_flags e)"
  then show "sv32 f r = Page (entry_translate e r) None"
    using p h by (auto simp: sv32_def needs_update_marked marked_same)
qed

lemma scan_sound:
  assumes "\<And>e. Some e \<in> set es \<Longrightarrow> te_satp e \<in> spaces \<and> entry_sound f e" "rq_satp r \<in> spaces" "globals_shared f spaces"
    "translation_enabled (rq_satp r) (rq_privilege r)" "saw \<Longrightarrow> sv32 f r = Page_Fault" "scan_tlb r saw es = Some x"
  shows "x = sv32_answer f r \<and> sv32_effect f r = f"
  using assms
proof (induction es arbitrary: saw)
  case Nil
  then show ?case by (auto simp: sv32_answer_def sv32_effect_def sv32_walked_def split: if_splits)
next
  case (Cons slot es)
  show ?case
  proof (cases slot)
    case None
    then show ?thesis using Cons.IH [OF Cons.prems(1-5)] Cons.prems(6) by simp
  next
    case (Some e)
    have e: "te_satp e \<in> spaces" "entry_sound f e" using Cons.prems(1) Some by simp_all
    have m: "rq_privilege r \<noteq> Machine" using assms(4) by (simp add: translation_enabled_def)
    note hit = hit_permission [OF e(2) _ e(1) Cons.prems(2,3) m]
    have IH: "scan_tlb r saw' es = Some x \<Longrightarrow> (saw' \<Longrightarrow> sv32 f r = Page_Fault) \<Longrightarrow> ?thesis" for saw'
      using Cons.IH [of saw'] Cons.prems(1-4) by simp
    consider "\<not> entry_matches e r" | "entry_matches e r" "\<not> permissions_allow r (te_flags e)"
      | "entry_matches e r" "permissions_allow r (te_flags e)" "needs_access_bit_update r (te_flags e)"
      | "entry_matches e r" "permissions_allow r (te_flags e)" "\<not> needs_access_bit_update r (te_flags e)" by blast
    then show ?thesis
    proof cases
      case 2
      then show ?thesis using IH [of True] hit(1) Cons.prems(6) Some by simp
    next
      case 4
      then show ?thesis
        using hit(2) Cons.prems(4,6) Some by (simp add: sv32_answer_def sv32_effect_def sv32_walked_def)
    qed (use IH [of saw] Cons.prems(5,6) Some in simp_all)
  qed
qed

lemma lookup_sound:
  assumes "tlb_sound f spaces w" "rq_satp r \<in> spaces" "globals_shared f spaces"
    "translation_enabled (rq_satp r) (rq_privilege r)" "lookup_tlb r w = Some x"
  shows "x = sv32_answer f r \<and> sv32_effect f r = f"
  using scan_sound [of "tlb w" spaces f r False x] assms by (simp add: lookup_tlb_def tlb_sound_def)

text \<open>The walk in progress has come to its entry by the tables in memory.\<close>

definition entry_allowed :: "(bus_access \<Rightarrow> bool) \<Rightarrow> u32 \<Rightarrow> bool" where
  "entry_allowed allowed a \<longleftrightarrow> allowed (Load32 (ucast a)) \<and> (\<forall>v. allowed (Store32 (ucast a) v))"

definition tables_allowed :: "(bus_access \<Rightarrow> bool) \<Rightarrow> (u64 \<Rightarrow> u8) \<Rightarrow> translation_request \<Rightarrow> bool" where
  "tables_allowed allowed f r \<longleftrightarrow>
     (\<forall>a \<in> sv32_entries f (rq_virtual_address r) 1 (sv32_root (rq_satp r) (rq_virtual_address r)). entry_allowed allowed a)"

definition walk_sound :: "(bus_access \<Rightarrow> bool) \<Rightarrow> (u64 \<Rightarrow> u8) \<Rightarrow> walk_state \<Rightarrow> bool" where
  "walk_sound allowed f st \<longleftrightarrow>
     (let r = walk_request st; va = rq_virtual_address r; level = unat (walk_level st); a = walk_pte_address st in
      level < 2 \<and> unat a mod 4 = 0 \<and> translation_enabled (rq_satp r) (rq_privilege r) \<and>
      (\<forall>x \<in> sv32_entries f va level a. entry_allowed allowed x) \<and>
      sv32_leaf f (rq_satp r) va = sv32_from f va level (walk_global_mapping st) a \<and>
      (case walk_phase st of
         ReadPte \<Rightarrow> True
       | WriteLeaf pa flags v \<Rightarrow>
           pte_leaf (memory_word f a) \<and> \<not> pte_broken (memory_word f a) \<and> sv32 f r = Page pa (Some (a, v)) \<and> flags = pte_flags v))"

definition walker_sound :: "(bus_access \<Rightarrow> bool) \<Rightarrow> (u64 \<Rightarrow> u8) \<Rightarrow> u32 set \<Rightarrow> page_walker \<Rightarrow> bool" where
  "walker_sound allowed f spaces w \<longleftrightarrow> walker_ok w \<and> tlb_sound f spaces w \<and> globals_shared f spaces \<and>
     (\<forall>st. active w = Some st \<longrightarrow> walk_sound allowed f st \<and> rq_satp (walk_request st) \<in> spaces)"

lemma root_sound:
  assumes "tables_allowed allowed f r" "translation_enabled (rq_satp r) (rq_privilege r)"
  shows "walk_sound allowed f (root_walk r)"
  using assms
  by (simp add: walk_sound_def root_walk_def root_address sv32_leaf_def tables_allowed_def Let_def sv32_root_def pte_aligned)

lemma marked_walked:
  assumes "sv32_leaf f (rq_satp r) (rq_virtual_address r) = Some (level, a, shared)"
  shows "marked f (sv32_walked f r)"
proof -
  note l = leaf_entry [OF assms]
  show ?thesis
    using assms marked_store [OF l(2,3)]
    by (auto simp: sv32_walked_def sv32_def Let_def split: option.split)
qed

lemma marked_walk: "marked f (sv32_walked f r)"
proof (cases "sv32_leaf f (rq_satp r) (rq_virtual_address r)")
  case None
  then show ?thesis by (simp add: sv32_walked_def sv32_def)
next
  case (Some x)
  then show ?thesis using marked_walked by (cases x) blast
qed

lemma walked_word:
  assumes "sv32 f r = Page pa (Some (a, v))"
  shows "memory_word (sv32_walked f r) a = v"
proof -
  obtain level shared where l: "sv32_leaf f (rq_satp r) (rq_virtual_address r) = Some (level, a, shared)"
    using assms by (auto simp: sv32_def Let_def split: option.splits if_splits)
  show ?thesis using assms leaf_entry(2) [OF l] by (simp add: sv32_walked_def memory_word_store)
qed

text \<open>The entry that a completed walk leaves in the TLB.\<close>

lemma insert_sound:
  assumes "walker_ok w" "tlb_sound f spaces w" "rq_satp (walk_request st) \<in> spaces" "walk_level st = of_nat level"
    "sv32_leaf f (rq_satp (walk_request st)) (rq_virtual_address (walk_request st)) =
      Some (level, a, walk_global_mapping st \<or> bit (memory_word f a) 5)"
    "sv32_target level (memory_word f a) (rq_virtual_address (walk_request st)) = Some pa"
  shows "\<exists>w'. insert_tlb st (pte_flags (memory_word f a)) pa w = Some w' \<and> walker_ok w' \<and> tlb_sound f spaces w'"
proof -
  let ?va = "rq_virtual_address (walk_request st)" and ?m = "mask (12 + 10 * level) :: u32"
  let ?p = "memory_word f a"
  define e where "e =
      \<lparr>te_satp = rq_satp (walk_request st), te_virtual_base = ?va AND NOT ?m, te_physical_base = pa AND NOT ?m,
       te_page_mask = ?m, te_flags = pte_flags ?p, te_global_mapping = (walk_global_mapping st \<or> pte_is_global (pte_flags ?p))\<rparr>"
  define w' where "w' = w\<lparr>tlb := (tlb w)[next_tlb_entry w := Some e], next_tlb_entry := (next_tlb_entry w + 1) mod 8\<rparr>"
  note l = leaf_entry [OF assms(5)]
  have "insert_tlb st (pte_flags ?p) pa w = Some w'"
    using assms(1,4) l(1)
    by (auto simp: insert_tlb_def walker_ok_def tlb_entry_count_def Let_def w'_def e_def less_2_cases_iff mask_eq_exp_minus_1)
  moreover have "walker_ok w'" using assms(1) by (simp add: walker_ok_def w'_def)
  moreover have "entry_sound f e"
  proof -
    note page_of_base [of ?va "12 + 10 * level"]
    then have "sv32_leaf f (te_satp e) (te_virtual_base e) = Some (level, a, te_global_mapping e)"
      using leaf_page [OF assms(5), of "?va AND NOT ?m"] by (simp add: e_def pte_tests)
    moreover have "sv32_target level ?p (te_virtual_base e) = Some (te_physical_base e)"
      using target_base(1) [OF assms(6) l(1)] by (simp add: e_def)
    moreover have "te_physical_base e AND te_page_mask e = 0"
      "te_virtual_base e AND te_page_mask e = 0"
      by (simp_all add: e_def bit_eq_iff bit_simps)
    ultimately show ?thesis
      unfolding entry_sound_def by (intro exI [of _ level] exI [of _ a]) (simp add: e_def bit_pte_flags)
  qed
  moreover have "te_satp e \<in> spaces" using assms(3) by (simp add: e_def)
  ultimately have "tlb_sound f spaces w'"
    using assms(2) \<open>entry_sound f e\<close> set_update_subset_insert [of "tlb w" "next_tlb_entry w" "Some e"]
    by (auto simp: tlb_sound_def w'_def)
  with \<open>insert_tlb st (pte_flags ?p) pa w = Some w'\<close> \<open>walker_ok w'\<close> show ?thesis by blast
qed

end
