(* ===== verification/Page_Walk.thy ===== *)
theory Page_Walk
  imports Sv32
begin

text \<open>
  The page walker of \<open>crates/cpu/src/mmu.rs\<close> over a bus that behaves like a memory (\<open>memory_bus\<close>):
  every step of a sound walk stalls, goes down a level or ends as the specification of \<open>Sv32\<close> says
  (\<open>walk_step_sound\<close>); so \<open>translate\<close> stalls or gives the specified answer (\<open>translate_loop_sound\<close>),
  and a translation that is repeated is answered (\<open>retry_translate_sound\<close>).
\<close>

text \<open>The access that the walk waits for, and the end of a walk.\<close>

definition walk_access :: "walk_state \<Rightarrow> bus_access" where
  "walk_access st =
     (case walk_phase st of
        ReadPte \<Rightarrow> Load32 (ucast (walk_pte_address st))
      | WriteLeaf _ _ v \<Rightarrow> Store32 (ucast (walk_pte_address st)) v)"

definition walk_answer :: "(u64 \<Rightarrow> u8) \<Rightarrow> translation_request \<Rightarrow> bool \<Rightarrow> step_result" where
  "walk_answer f r drain =
     (if drain then StepDrained
      else case sv32 f r of Page_Fault \<Rightarrow> StepFault (page_fault r) | Page pa _ \<Rightarrow> StepReady pa)"

text \<open>
  A translation that is repeated, with a tick of the bus after each stall, as the cores do. It does
  not end on a bus that stays \<open>Busy\<close>.
\<close>

partial_function (option) retry_translate ::
  "('b, 'z) bus_ops_scheme \<Rightarrow> translation_request \<Rightarrow> page_walker \<Rightarrow> 'b \<Rightarrow>
   (bus_error + translation_result, page_walker \<times> 'b) outcome" where
  "retry_translate ops r w b =
     Option.bind (translate_loop ops r w b) (\<lambda>(res, (w, b)).
       if res = Inr TranslationStall then Option.bind (bus_tick ops b) (\<lambda>(_, b). retry_translate ops r w b)
       else Some (res, (w, b)))"

declare retry_translate.simps [code]

text \<open>How far a call is from its end, and what it makes of an abandoned walk.\<close>

definition walk_stage :: "translation_request \<Rightarrow> page_walker \<Rightarrow> nat" where
  "walk_stage r w =
     (case active w of
        None \<Rightarrow> 4
      | Some st \<Rightarrow> 2 * unat (walk_level st) + (if walk_phase st = ReadPte then 1 else 0) + (if walk_request st = r then 0 else 5))"

definition drained :: "(u64 \<Rightarrow> u8) \<Rightarrow> translation_request \<Rightarrow> page_walker \<Rightarrow> (u64 \<Rightarrow> u8) \<Rightarrow> bool" where
  "drained f r w g \<longleftrightarrow>
     g = f \<or> (\<exists>st. active w = Some st \<and> walk_request st \<noteq> r \<and> g = sv32_walked f (walk_request st))"

definition keeps_request :: "(u64 \<Rightarrow> u8) \<Rightarrow> translation_request \<Rightarrow> page_walker \<Rightarrow> (u64 \<Rightarrow> u8) \<Rightarrow> page_walker \<Rightarrow> bool" where
  "keeps_request f r w g w' \<longleftrightarrow> (\<forall>st'. active w' = Some st' \<and> walk_request st' \<noteq> r \<longrightarrow>
     g = f \<and> (\<exists>st. active w = Some st \<and> walk_request st = walk_request st'))"

context memory_bus begin

lemma load32_law:
  assumes "shows_memory f s" "entry_allowed allowed a"
  shows "\<exists>r s'. bus_load32 ops (ucast a) s = Some (r, s') \<and> shows_memory f s' \<and>
    ((\<exists>n. r = Inl (Busy n)) \<or> r = Inr (memory_word f a) \<and> quiet s')"
proof -
  obtain x s' where x: "access_bus ops (Load32 (ucast a)) s = Some (x, s')"
      "(\<exists>n. x = Inl (Busy n)) \<and> shows_memory f s' \<or> x = Inr (memory_answer (Load32 (ucast a)) f) \<and>
        shows_memory (memory_effect (Load32 (ucast a)) f) s' \<and> quiet s'"
    using access_law [OF assms(1), of "Load32 (ucast a)"] assms(2) by (auto simp: entry_allowed_def elim!: wp_elim)
  obtain r where r: "bus_load32 ops (ucast a) s = Some (r, s')" "x = map_sum id le_bytes32 r"
    using x(1) by (auto simp: answer_bytes_def)
  from x(2) show ?thesis
  proof (elim disjE conjE exE)
    fix n assume "x = Inl (Busy n)" "shows_memory f s'"
    then show ?thesis using r by (cases r) auto
  next
    assume "x = Inr (memory_answer (Load32 (ucast a)) f)" "shows_memory (memory_effect (Load32 (ucast a)) f) s'" "quiet s'"
    then obtain v where "r = Inr v" "le_bytes32 v = map (\<lambda>j. f (ucast a + of_nat j)) [0..<4]" "shows_memory f s'"
      using r(2) by (cases r) (auto simp: memory_answer_def memory_effect_def)
    moreover from this have "v = memory_word f a" unfolding memory_word_def by (metis from_le32_list_bytes)
    ultimately show ?thesis using r(1) \<open>quiet s'\<close> by blast
  qed
qed

lemma store32_law:
  assumes "shows_memory f s" "entry_allowed allowed a"
  shows "\<exists>r s'. bus_store32 ops (ucast a) v s = Some (r, s') \<and>
    ((\<exists>n. r = Inl (Busy n)) \<and> shows_memory f s' \<or> r = Inr () \<and> shows_memory (memory_effect (Store32 (ucast a) v) f) s' \<and> quiet s')"
proof -
  obtain x s' where x: "access_bus ops (Store32 (ucast a) v) s = Some (x, s')"
      "(\<exists>n. x = Inl (Busy n)) \<and> shows_memory f s' \<or> x = Inr (memory_answer (Store32 (ucast a) v) f) \<and>
        shows_memory (memory_effect (Store32 (ucast a) v) f) s' \<and> quiet s'"
    using access_law [OF assms(1), of "Store32 (ucast a) v"] assms(2) by (auto simp: entry_allowed_def elim!: wp_elim)
  obtain r where "bus_store32 ops (ucast a) v s = Some (r, s')" "x = map_sum id (\<lambda>_. []) r"
    using x(1) by (auto simp: answer_bytes_def)
  then show ?thesis using x(2) by (cases r) auto
qed

text \<open>A step of a sound walk stalls, or goes down a level, or ends as the specification says.\<close>

definition walk_waits :: "(u64 \<Rightarrow> u8) \<Rightarrow> walk_state \<Rightarrow> walk_state \<Rightarrow> 's \<Rightarrow> 's \<Rightarrow> bool" where
  "walk_waits f st st' s s' \<longleftrightarrow>
     (\<exists>e s0. access_bus ops (walk_access st') s0 = Some (Inl e, s') \<and> shows_memory f s0 \<and>
        (st' = st \<and> s0 = s \<or> walk_phase st = ReadPte \<and> walk_phase st' \<noteq> ReadPte \<and> walk_level st' = walk_level st \<and> quiet s0))"

definition walk_stalled :: "(u64 \<Rightarrow> u8) \<Rightarrow> walk_state \<Rightarrow> 's \<Rightarrow> u32 set \<Rightarrow> page_walker \<times> 's \<Rightarrow> bool" where
  "walk_stalled f st s spaces ws \<longleftrightarrow> (case ws of (w', s') \<Rightarrow> shows_memory f s' \<and> walker_sound allowed f spaces w' \<and>
     (\<exists>st'. active w' = Some st' \<and> walk_request st' = walk_request st \<and> walk_waits f st st' s s'))"

definition walk_down :: "(u64 \<Rightarrow> u8) \<Rightarrow> walk_state \<Rightarrow> u32 set \<Rightarrow> page_walker \<times> 's \<Rightarrow> bool" where
  "walk_down f st spaces ws \<longleftrightarrow> (case ws of (w', s') \<Rightarrow> shows_memory f s' \<and> walker_sound allowed f spaces w' \<and> quiet s' \<and>
     (\<exists>st'. active w' = Some st' \<and> walk_request st' = walk_request st \<and> unat (walk_level st') < unat (walk_level st)))"

definition walk_ended :: "(u64 \<Rightarrow> u8) \<Rightarrow> walk_state \<Rightarrow> u32 set \<Rightarrow> page_walker \<times> 's \<Rightarrow> bool" where
  "walk_ended f st spaces ws \<longleftrightarrow> (case ws of (w', s') \<Rightarrow> \<exists>g. g = sv32_walked f (walk_request st) \<and> marked f g \<and>
     shows_memory g s' \<and> walker_sound allowed g spaces w' \<and> quiet s' \<and> active w' = None)"

definition step_sound :: "(u64 \<Rightarrow> u8) \<Rightarrow> bool \<Rightarrow> walk_state \<Rightarrow> 's \<Rightarrow> u32 set \<Rightarrow> bus_error + step_result \<Rightarrow> page_walker \<times> 's \<Rightarrow> bool" where
  "step_sound f drain st s spaces r ws \<longleftrightarrow>
     r = Inr StepStall \<and> walk_stalled f st s spaces ws \<or>
     r = Inr StepDrained \<and> walk_down f st spaces ws \<or>
     r = Inr (walk_answer f (walk_request st) drain) \<and> walk_ended f st spaces ws"

lemma finish_sound:
  assumes "shows_memory f s0" "walker_sound allowed f spaces w" "active w = Some st'" "walk_phase st' = WriteLeaf pa flags v"
    "walk_request st' = walk_request st" "walk_level st' = walk_level st"
    "st' = st \<and> s0 = s \<or> walk_phase st = ReadPte \<and> quiet s0"
  shows "wp (finish_leaf_update ops st' pa flags v drain (w, s0)) (step_sound f drain st s spaces)"
proof -
  let ?r = "walk_request st" and ?a = "walk_pte_address st'" and ?l = "unat (walk_level st')"
  have st: "walk_sound allowed f st'" "rq_satp ?r \<in> spaces" using assms(2,3,5) by (auto simp: walker_sound_def)
  have w: "walker_ok w" "tlb_sound f spaces w" "globals_shared f spaces" using assms(2) by (simp_all add: walker_sound_def)
  have a: "entry_allowed allowed ?a" "pte_leaf (memory_word f ?a)" "\<not> pte_broken (memory_word f ?a)" "?l < 2"
      "sv32 f ?r = Page pa (Some (?a, v))" "flags = pte_flags v"
      "sv32_leaf f (rq_satp ?r) (rq_virtual_address ?r) = sv32_from f (rq_virtual_address ?r) ?l (walk_global_mapping st') ?a"
    using st(1) assms(4,5) by (auto simp: walk_sound_def Let_def less_2_cases_iff)
  have leaf: "sv32_leaf f (rq_satp ?r) (rq_virtual_address ?r) = Some (?l, ?a, walk_global_mapping st' \<or> bit (memory_word f ?a) 5)"
    using a by (simp add: sv32_from.simps Let_def)
  let ?g = "sv32_walked f ?r"
  have g: "marked f ?g" "?g = memory_effect (Store32 (ucast ?a) v) f" "memory_word ?g ?a = v"
    using marked_walked [OF leaf] walked_word [OF a(5)] a(5) by (simp_all add: sv32_walked_def)
  obtain r s' where r: "bus_store32 ops (ucast ?a) v s0 = Some (r, s')"
      "(\<exists>n. r = Inl (Busy n)) \<and> shows_memory f s' \<or> r = Inr () \<and> shows_memory ?g s' \<and> quiet s'"
    using store32_law [OF assms(1) a(1)] g(2) by metis
  from r(2) show ?thesis
  proof (elim disjE conjE exE)
    fix n assume b: "r = Inl (Busy n)" "shows_memory f s'"
    have "access_bus ops (walk_access st') s0 = Some (Inl (Busy n), s')"
      using r(1) b(1) assms(4) by (simp add: walk_access_def answer_bytes_def)
    then have "walk_waits f st st' s s'" using assms(1,4,6,7) by (auto simp: walk_waits_def)
    then show ?thesis
      using r(1) b assms(2,3,5) by (simp add: finish_leaf_update_def step_sound_def walk_stalled_def)
  next
    assume b: "r = Inr ()" "shows_memory ?g s'" "quiet s'"
    note mg = marked_entry [OF g(1) leaf_entry(2) [OF leaf]]
    have tlbg: "tlb_sound ?g spaces w" "globals_shared ?g spaces" using w marked_tlb [OF g(1)] marked_globals [OF g(1)] by auto
    have "sv32_target ?l (memory_word ?g ?a) (rq_virtual_address ?r) = Some pa"
      unfolding marked_target [OF g(1) leaf_entry(2) [OF leaf]]
      using a(5) leaf by (auto simp: sv32_def Let_def split: option.splits if_splits)
    then obtain w' where w': "insert_tlb st' flags pa w = Some w'" "walker_ok w'" "tlb_sound ?g spaces w'"
      using insert_sound [OF w(1) tlbg(1), of st' ?l ?a pa] st(2) assms(5) leaf marked_leaf [OF g(1)] g(3) mg(5) [of 5] a(6) by auto
    have "walker_sound allowed ?g spaces (u\<lparr>active := None\<rparr>)" if "walker_ok u" "tlb_sound ?g spaces u" for u
      using that tlbg by (simp add: walker_sound_def tlb_sound_def)
    then have "walk_ended f st spaces (u\<lparr>active := None\<rparr>, s')" if "walker_ok u" "tlb_sound ?g spaces u" for u
      using that b g(1) by (simp add: walk_ended_def)
    then show ?thesis
      using r(1) b(1) w' w tlbg a(5)
      by (simp add: finish_leaf_update_def step_sound_def walk_answer_def)
  qed
qed

lemma read_sound:
  assumes "shows_memory f s" "walker_sound allowed f spaces w" "active w = Some st" "walk_phase st = ReadPte"
  shows "wp (walk_step ops drain (w, s)) (step_sound f drain st s spaces)"
proof -
  let ?r = "walk_request st" and ?a = "walk_pte_address st" and ?l = "unat (walk_level st)"
  let ?va = "rq_virtual_address (walk_request st)" and ?p = "memory_word f (walk_pte_address st)"
  have st: "walk_sound allowed f st" "rq_satp ?r \<in> spaces" using assms(2,3) by (auto simp: walker_sound_def)
  have w: "walker_ok w" "tlb_sound f spaces w" "globals_shared f spaces" using assms(2) by (simp_all add: walker_sound_def)
  have a: "?l < 2" "unat ?a mod 4 = 0" "translation_enabled (rq_satp ?r) (rq_privilege ?r)"
      "\<forall>x \<in> sv32_entries f ?va ?l ?a. entry_allowed allowed x"
      "sv32_leaf f (rq_satp ?r) ?va = sv32_from f ?va ?l (walk_global_mapping st) ?a"
    using st(1) by (auto simp: walk_sound_def Let_def)
  have "?a \<in> sv32_entries f ?va ?l ?a" by (cases ?l) (simp_all add: Let_def)
  then have al: "entry_allowed allowed ?a" using a(4) by blast
  have m: "rq_privilege ?r \<noteq> Machine" using a(3) by (simp add: translation_enabled_def)
  obtain x s' where x: "bus_load32 ops (ucast ?a) s = Some (x, s')" "shows_memory f s'"
      "(\<exists>n. x = Inl (Busy n)) \<or> x = Inr ?p \<and> quiet s'"
    using load32_law [OF assms(1) al] by blast
  from x(3) show ?thesis
  proof (elim disjE conjE exE)
    fix n assume b: "x = Inl (Busy n)"
    have "access_bus ops (walk_access st) s = Some (Inl (Busy n), s')"
      using x(1) b assms(4) by (simp add: walk_access_def answer_bytes_def)
    then have "walk_waits f st st s s'" using assms(1) by (auto simp: walk_waits_def)
    then show ?thesis
      using x(1,2) b assms by (simp add: walk_step_def step_sound_def walk_stalled_def)
  next
    assume b: "x = Inr ?p" "quiet s'"
    have ended: "wp (end_walk drain res u s') (step_sound f drain st s spaces)"
      if "walker_ok u" "tlb_sound f spaces u" "sv32_walked f ?r = f" "(if drain then StepDrained else res) = walk_answer f ?r drain" for res u
    proof -
      have "walker_sound allowed f spaces (u\<lparr>active := None\<rparr>)"
        using that(1,2) w(3) by (simp add: walker_sound_def tlb_sound_def)
      then have "walk_ended f st spaces (u\<lparr>active := None\<rparr>, s')" using that(3) x(2) b(2) by (simp add: walk_ended_def)
      then show ?thesis using that(4) by (simp add: step_sound_def)
    qed
    have fault: "wp (end_walk drain (StepFault (page_fault ?r)) w s') (step_sound f drain st s spaces)"
      if "sv32 f ?r = Page_Fault"
      using that w by (intro ended) (simp_all add: sv32_walked_def walk_answer_def)
    have step: "walk_step ops drain (w, s) =
       (if pte_broken ?p then end_walk drain (StepFault (page_fault ?r)) w s'
        else if pte_leaf ?p then
          (case sv32_target ?l ?p ?va of
             None \<Rightarrow> end_walk drain (StepFault (page_fault ?r)) w s'
           | Some pa \<Rightarrow>
               if \<not> sv32_permits ?r ?p then end_walk drain (StepFault (page_fault ?r)) w s'
               else if sv32_marked ?r ?p \<noteq> ?p then
                 (let st' = st\<lparr>walk_phase := WriteLeaf pa (pte_flags (sv32_marked ?r ?p)) (sv32_marked ?r ?p)\<rparr>
                  in finish_leaf_update ops st' pa (pte_flags (sv32_marked ?r ?p)) (sv32_marked ?r ?p) drain
                       (w\<lparr>active := Some st'\<rparr>, s'))
               else (case (if drain then Some w else insert_tlb st (pte_flags ?p) pa w) of
                   None \<Rightarrow> None | Some w \<Rightarrow> end_walk drain (StepReady pa) w s'))
        else if bit ?p 4 \<or> bit ?p 6 \<or> bit ?p 7 then end_walk drain (StepFault (page_fault ?r)) w s'
        else if walk_level st = 0 then end_walk drain (StepFault (page_fault ?r)) w s'
        else
          (let st' = \<lparr>walk_request = ?r, walk_level = walk_level st - 1,
                 walk_pte_address = push_bit 12 (pte_ppn ?p) + vpn ?va (walk_level st - 1) * 4,
                 walk_global_mapping = (walk_global_mapping st \<or> bit ?p 5), walk_phase = ReadPte\<rparr>
           in Some (Inr StepDrained, (w\<lparr>active := Some st'\<rparr>, s'))))"
    proof -
      have target: "translate_leaf st ?p = sv32_target ?l ?p ?va" using leaf_target [OF a(1), of st] by simp
      show ?thesis
        unfolding walk_step_def using x(1) b(1) assms(3,4)
        by (simp only: prod.case option.case walk_phase.case sum.case Let_def pte_tests target permissions_allow_permits [OF m]
            permits_flags needs_update_marked updated_flags_marked updated_pte_marked marked_flags not_not)
    qed
    note tables = a(5) [unfolded sv32_from.simps [of f ?va ?l] Let_def]
    consider "pte_broken ?p" | "\<not> pte_broken ?p" "pte_leaf ?p" | "\<not> pte_broken ?p" "\<not> pte_leaf ?p" by blast
    then show ?thesis
    proof cases
      case 1
      then have "sv32 f ?r = Page_Fault" using tables by (simp add: sv32_def)
      then show ?thesis using fault step 1 by simp
    next
      case 2
      then have leaf: "sv32_leaf f (rq_satp ?r) ?va = Some (?l, ?a, walk_global_mapping st \<or> bit ?p 5)" using tables by simp
      show ?thesis
      proof (cases "sv32_target ?l ?p ?va")
        case None
        then have "sv32 f ?r = Page_Fault" using leaf by (simp add: sv32_def)
        then show ?thesis using fault step 2 None by simp
      next
        case (Some pa)
        let ?v = "sv32_marked ?r ?p"
        consider "\<not> sv32_permits ?r ?p" | "sv32_permits ?r ?p" "?v \<noteq> ?p" | "sv32_permits ?r ?p" "?v = ?p" by blast
        then show ?thesis
        proof cases
          case 1
          then have "sv32 f ?r = Page_Fault" using leaf Some by (simp add: sv32_def)
          then show ?thesis using fault step 2 Some 1 by simp
        next
          case n: 2
          let ?st = "st\<lparr>walk_phase := WriteLeaf pa (pte_flags ?v) ?v\<rparr>"
          have "sv32 f ?r = Page pa (Some (?a, ?v))" using leaf Some n by (simp add: sv32_def Let_def)
          then have "walk_sound allowed f ?st" using a 2 by (simp add: walk_sound_def)
          then have u: "walker_sound allowed f spaces (w\<lparr>active := Some ?st\<rparr>)"
            using w st(2) by (simp add: walker_sound_def tlb_sound_def)
          show ?thesis
            using finish_sound [OF x(2) u, of ?st pa "pte_flags ?v" ?v st s drain] step 2 Some n b(2) assms(4)
            by (simp add: Let_def)
        next
          case 3
          then have page: "sv32 f ?r = Page pa None" using leaf Some by (simp add: sv32_def Let_def)
          obtain w' where w': "insert_tlb st (pte_flags ?p) pa w = Some w'" "walker_ok w'" "tlb_sound f spaces w'"
            using insert_sound [OF w(1,2) st(2) _ leaf Some] by auto
          have "(if drain then StepDrained else StepReady pa) = walk_answer f ?r drain" "sv32_walked f ?r = f"
            using page by (simp_all add: walk_answer_def sv32_walked_def)
          then show ?thesis using ended [of w "StepReady pa"] ended [of w' "StepReady pa"] step 2 Some 3 w w' by (cases drain) simp_all
        qed
      qed
    next
      case 3
      show ?thesis
      proof (cases "bit ?p 4 \<or> bit ?p 6 \<or> bit ?p 7 \<or> walk_level st = 0")
        case True
        then have "sv32_leaf f (rq_satp ?r) ?va = None" using tables 3 by auto
        then have "sv32 f ?r = Page_Fault" by (simp add: sv32_def)
        then show ?thesis using fault step 3 True by auto
      next
        case False
        then have l: "?l = 1" "walk_level st = 1" using a(1) by (auto simp: word_unat_eq_iff)
        let ?next = "pte_address (unat ?p div 2 ^ 10) 0 ?va"
        let ?st = "\<lparr>walk_request = ?r, walk_level = 0, walk_pte_address = ?next,
            walk_global_mapping = (walk_global_mapping st \<or> bit ?p 5), walk_phase = ReadPte\<rparr>"
        have "sv32_entries f ?va 1 ?a = {?a, ?next}" using 3 by (simp add: Let_def)
        then have "walk_sound allowed f ?st"
          using a l tables 3 False by (simp add: walk_sound_def Let_def pte_aligned)
        then have "walk_down f st spaces (w\<lparr>active := Some ?st\<rparr>, s')"
          using w st(2) x(2) b(2) l(1) by (simp add: walk_down_def walker_sound_def tlb_sound_def)
        then show ?thesis using step 3 False l by (simp add: Let_def next_address step_sound_def)
      qed
    qed
  qed
qed

lemma walk_step_sound:
  assumes "shows_memory f s" "walker_sound allowed f spaces w" "active w = Some st"
  shows "wp (walk_step ops drain (w, s)) (step_sound f drain st s spaces)"
proof (cases "walk_phase st")
  case ReadPte
  then show ?thesis by (rule read_sound [OF assms])
next
  case (WriteLeaf pa flags v)
  then show ?thesis
    using finish_sound [OF assms WriteLeaf, of st s] assms(3) by (simp add: walk_step_def)
qed

text \<open>
  The loop of \<open>translate\<close>. An abandoned walk of another request is completed first, which may mark
  its leaf; a call that stalls has come nearer to an answer, once the bus has ticked.
\<close>

definition walk_ready :: "translation_request \<Rightarrow> page_walker \<Rightarrow> 's \<Rightarrow> bool" where
  "walk_ready r w s \<longleftrightarrow> ready_for (walk_access (case active w of None \<Rightarrow> root_walk r | Some st \<Rightarrow> st)) s"

definition stall_waits :: "(u64 \<Rightarrow> u8) \<Rightarrow> translation_request \<Rightarrow> page_walker \<times> 's \<Rightarrow> page_walker \<times> 's \<Rightarrow> bool" where
  "stall_waits g r ws ws' \<longleftrightarrow> (case (ws, ws') of ((w, s), (w', s')) \<Rightarrow>
     \<exists>st' e s0. active w' = Some st' \<and> access_bus ops (walk_access st') s0 = Some (Inl e, s') \<and>
       (walk_ready r w s \<longrightarrow> ready_for (walk_access st') s0) \<and> shows_memory g s0 \<and>
       (walk_stage r w' < walk_stage r w \<or> s0 = s \<and> walk_stage r w' = walk_stage r w))"

definition translated ::
  "(u64 \<Rightarrow> u8) \<Rightarrow> translation_request \<Rightarrow> u32 set \<Rightarrow> page_walker \<times> 's \<Rightarrow> bus_error + translation_result \<Rightarrow>
   page_walker \<times> 's \<Rightarrow> bool" where
  "translated f r spaces ws res ws' \<longleftrightarrow> (\<exists>g. drained f r (fst ws) g \<and>
     (res = Inr TranslationStall \<and> shows_memory g (snd ws') \<and> walker_sound allowed g spaces (fst ws') \<and>
       stall_waits g r ws ws' \<and> keeps_request f r (fst ws) g (fst ws') \<or>
      res = Inr (sv32_answer g r) \<and> shows_memory (sv32_effect g r) (snd ws') \<and>
      walker_sound allowed (sv32_effect g r) spaces (fst ws') \<and> active (fst ws') = None \<and>
        (quiet (snd ws') \<or> active (fst ws) = None \<and> snd ws' = snd ws)))"

lemma walk_waits_stall:
  assumes "active w = Some st" "active w' = Some st'" "walk_request st' = walk_request st" "walk_waits f st st' s s'"
  shows "stall_waits f r (w, s) (w', s')"
proof -
  obtain e s0 where e: "access_bus ops (walk_access st') s0 = Some (Inl e, s')" "shows_memory f s0"
      "st' = st \<and> s0 = s \<or> walk_phase st = ReadPte \<and> walk_phase st' \<noteq> ReadPte \<and> walk_level st' = walk_level st \<and> quiet s0"
    using assms(4) unfolding walk_waits_def by blast
  from e(3) show ?thesis
  proof (elim disjE conjE)
    assume "st' = st" "s0 = s"
    then show ?thesis
      using e(1,2) assms(1,2) unfolding stall_waits_def prod.case
      by (intro exI [of _ st'] exI [of _ e] exI [of _ s0]) (simp add: walk_ready_def walk_stage_def)
  next
    assume "walk_phase st = ReadPte" "walk_phase st' \<noteq> ReadPte" "walk_level st' = walk_level st" "quiet s0"
    then show ?thesis
      using e(1,2) assms(1-3) quiet_ready unfolding stall_waits_def prod.case
      by (intro exI [of _ st'] exI [of _ e] exI [of _ s0]) (simp add: walk_stage_def)
  qed
qed

lemma stall_waits_trans:
  assumes "stall_waits g r (w1, s1) ws'" "walk_stage r w1 < walk_stage r w" "walk_ready r w s \<longrightarrow> walk_ready r w1 s1"
  shows "stall_waits g r (w, s) ws'"
proof -
  obtain w' s' where ws: "ws' = (w', s')" by (cases ws')
  obtain st' e s0 where "active w' = Some st'" "access_bus ops (walk_access st') s0 = Some (Inl e, s')"
      "walk_ready r w1 s1 \<longrightarrow> ready_for (walk_access st') s0" "shows_memory g s0" "walk_stage r w' \<le> walk_stage r w1"
    using assms(1) unfolding stall_waits_def ws prod.case by (auto intro: less_imp_le)
  then show ?thesis
    unfolding stall_waits_def ws prod.case using assms(2,3) by (intro exI [of _ st'] exI [of _ e] exI [of _ s0]) simp
qed

lemma translated_trans:
  assumes "translated f1 r spaces (w1, s1) res ws'" "walk_stage r w1 < walk_stage r w" "walk_ready r w s \<longrightarrow> walk_ready r w1 s1"
    "\<And>g. drained f1 r w1 g \<Longrightarrow> drained f r w g" "\<And>g w'. keeps_request f1 r w1 g w' \<Longrightarrow> keeps_request f r w g w'" "quiet s1"
  shows "translated f r spaces (w, s) res ws'"
  using assms(1,4,5,6) stall_waits_trans [OF _ assms(2,3)] unfolding translated_def fst_conv snd_conv by metis

lemma ready_quiet: "quiet s \<Longrightarrow> walk_ready r w s"
  by (simp add: walk_ready_def quiet_ready)

lemma stage_down:
  assumes "active w = Some st" "active w' = Some st'" "walk_request st' = walk_request st"
    "unat (walk_level st') < unat (walk_level st)"
  shows "walk_stage r w' < walk_stage r w"
  using assms by (simp add: walk_stage_def)

lemma stage_other: "active w = Some st \<Longrightarrow> walk_request st \<noteq> r \<Longrightarrow> active w' = None \<Longrightarrow> walk_stage r w' < walk_stage r w"
  by (simp add: walk_stage_def)

lemma tables_marked: "marked f g \<Longrightarrow> tables_allowed allowed g r = tables_allowed allowed f r"
  by (simp only: tables_allowed_def marked_entries sv32_root_def pte_aligned)

text \<open>The step that the loop makes first, for an abandoned walk and for one of its own.\<close>

lemma drain_step:
  assumes IH: "\<And>f1 w1 s1. walk_stage r w1 < walk_stage r w \<Longrightarrow> shows_memory f1 s1 \<Longrightarrow> walker_sound allowed f1 spaces w1 \<Longrightarrow>
      tables_allowed allowed f1 r \<Longrightarrow> wp (translate_loop ops r w1 s1) (translated f1 r spaces (w1, s1))"
    and s: "shows_memory f s" "walker_sound allowed f spaces w" "tables_allowed allowed f r"
    and st: "active w = Some st" "walk_request st \<noteq> r"
  shows "wp (translate_loop ops r w s) (translated f r spaces (w, s))"
proof -
  obtain res w1 s1 where step: "walk_step ops True (w, s) = Some (res, (w1, s1))" "step_sound f True st s spaces res (w1, s1)"
    using walk_step_sound [OF s(1,2) st(1), of True] by (auto elim!: wp_elim)
  note unfold = translate_loop.simps [of ops r w s]
  have loop: "res = Inr StepStall \<Longrightarrow> translate_loop ops r w s = Some (Inr TranslationStall, (w1, s1))"
    "res = Inr StepDrained \<Longrightarrow> translate_loop ops r w s = translate_loop ops r w1 s1"
    using st step(1) unfold by simp_all
  consider "res = Inr StepStall" "walk_stalled f st s spaces (w1, s1)" | "res = Inr StepDrained" "walk_down f st spaces (w1, s1)"
    | "res = Inr StepDrained" "walk_ended f st spaces (w1, s1)"
    using step(2) by (auto simp: step_sound_def walk_answer_def)
  then show ?thesis
  proof cases
    case 1
    then obtain st1 where st1: "active w1 = Some st1" "walk_request st1 = walk_request st" "walk_waits f st st1 s s1"
      by (auto simp: walk_stalled_def)
    then have "stall_waits f r (w, s) (w1, s1)" using walk_waits_stall st(1) by blast
    then have "translated f r spaces (w, s) (Inr TranslationStall) (w1, s1)"
      using 1(2) st(1) st1(1,2) unfolding translated_def walk_stalled_def by (intro exI [of _ f]) (simp add: drained_def keeps_request_def)
    then show ?thesis using loop 1(1) by simp
  next
    case 2
    then obtain st1 where st1: "active w1 = Some st1" "walk_request st1 = walk_request st" "unat (walk_level st1) < unat (walk_level st)"
      and m: "shows_memory f s1" "walker_sound allowed f spaces w1" "quiet s1"
      by (auto simp: walk_down_def)
    have less: "walk_stage r w1 < walk_stage r w" by (rule stage_down [OF st(1) st1])
    have d: "drained f r w1 g \<Longrightarrow> drained f r w g" for g using st st1 by (auto simp: drained_def)
    have k: "keeps_request f r w1 g w' \<Longrightarrow> keeps_request f r w g w'" for g w' using st st1 by (auto simp: keeps_request_def)
    have q: "walk_ready r w s \<longrightarrow> walk_ready r w1 s1" using ready_quiet [OF m(3)] by simp
    have "wp (translate_loop ops r w1 s1) (translated f r spaces (w, s))"
      by (rule wp_mono [OF IH [OF less m(1,2) s(3)] translated_trans [OF _ less q d k m(3)]])
    then show ?thesis using loop 2(1) by simp
  next
    case 3
    let ?g = "sv32_walked f (walk_request st)"
    have g: "marked f ?g" "shows_memory ?g s1" "walker_sound allowed ?g spaces w1" "quiet s1" "active w1 = None"
      using 3(2) by (auto simp: walk_ended_def)
    have less: "walk_stage r w1 < walk_stage r w" by (rule stage_other [OF st g(5)])
    have "tables_allowed allowed ?g r" using tables_marked [OF g(1)] s(3) by simp
    note IH' = IH [OF less g(2,3) this]
    have d: "drained ?g r w1 h \<Longrightarrow> drained f r w h" for h using st g(5) by (auto simp: drained_def)
    have k: "keeps_request ?g r w1 h w' \<Longrightarrow> keeps_request f r w h w'" for h w' unfolding keeps_request_def g(5) by blast
    have q: "walk_ready r w s \<longrightarrow> walk_ready r w1 s1" using ready_quiet [OF g(4)] by simp
    have "wp (translate_loop ops r w1 s1) (translated f r spaces (w, s))"
      by (rule wp_mono [OF IH' translated_trans [OF _ less q d k g(4)]])
    then show ?thesis using loop 3(1) by simp
  qed
qed

lemma own_step:
  assumes IH: "\<And>f1 w1 s1. walk_stage r w1 < walk_stage r w \<Longrightarrow> shows_memory f1 s1 \<Longrightarrow> walker_sound allowed f1 spaces w1 \<Longrightarrow>
      tables_allowed allowed f1 r \<Longrightarrow> wp (translate_loop ops r w1 s1) (translated f1 r spaces (w1, s1))"
    and s: "shows_memory f s" "walker_sound allowed f spaces w" "tables_allowed allowed f r" "rq_satp r \<in> spaces"
    and en: "translation_enabled (rq_satp r) (rq_privilege r)"
    and own: "case active w of None \<Rightarrow> lookup_tlb r w = None | Some st \<Rightarrow> walk_request st = r"
  shows "wp (translate_loop ops r w s) (translated f r spaces (w, s))"
proof -
  define u where "u = (if active w = None then w\<lparr>active := Some (root_walk r)\<rparr> else w)"
  define st where "st = (case active w of None \<Rightarrow> root_walk r | Some st \<Rightarrow> st)"
  have u: "active u = Some st" "walk_request st = r"
    using own by (auto simp: u_def st_def root_walk_def split: option.splits)
  have snd: "walker_sound allowed f spaces u"
    using s(2,4) root_sound [OF s(3) en] by (auto simp: u_def walker_sound_def tlb_sound_def root_walk_def)
  have stage: "walk_stage r u \<le> walk_stage r w" "walk_ready r u s = walk_ready r w s" "active w = None \<Longrightarrow> walk_stage r u < walk_stage r w"
    by (auto simp: walk_stage_def walk_ready_def u_def root_walk_def split: option.split)
  obtain res w1 s1 where step: "walk_step ops False (u, s) = Some (res, (w1, s1))" "step_sound f False st s spaces res (w1, s1)"
    using walk_step_sound [OF s(1) snd u(1), of False] by (auto elim!: wp_elim)
  have skip: "\<not> (case active w of Some st \<Rightarrow> walk_request st \<noteq> r | None \<Rightarrow> False)" "(if active w = None then lookup_tlb r w else None) = None"
    using own by (auto split: option.splits)
  note unfold = translate_loop.simps [of ops r w s, folded u_def]
  have loop: "res = Inr StepStall \<Longrightarrow> translate_loop ops r w s = Some (Inr TranslationStall, (w1, s1))"
    "res = Inr StepDrained \<Longrightarrow> translate_loop ops r w s = translate_loop ops r w1 s1"
    "res = Inr (walk_answer f r False) \<Longrightarrow> translate_loop ops r w s = Some (Inr (sv32_answer f r), (w1, s1))"
    using step(1) en unfold skip by (simp_all add: walk_answer_def sv32_answer_def split: sv32_result.split)
  consider "res = Inr StepStall" "walk_stalled f st s spaces (w1, s1)" | "res = Inr StepDrained" "walk_down f st spaces (w1, s1)"
    | "res = Inr (walk_answer f r False)" "walk_ended f st spaces (w1, s1)"
    using step(2) u(2) by (auto simp: step_sound_def)
  then show ?thesis
  proof cases
    case 1
    then obtain st1 where st1: "active w1 = Some st1" "walk_request st1 = walk_request st" "walk_waits f st st1 s s1"
      by (auto simp: walk_stalled_def)
    then have "stall_waits f r (u, s) (w1, s1)" using walk_waits_stall u(1) by blast
    then have "stall_waits f r (w, s) (w1, s1)"
    proof (cases "active w = None")
      case True
      show ?thesis by (rule stall_waits_trans [OF \<open>stall_waits f r (u, s) (w1, s1)\<close> stage(3) [OF True]]) (simp add: stage(2))
    qed (simp add: u_def)
    then have "translated f r spaces (w, s) (Inr TranslationStall) (w1, s1)"
      using 1(2) u(2) st1(1,2) unfolding translated_def walk_stalled_def by (intro exI [of _ f]) (simp add: drained_def keeps_request_def)
    then show ?thesis using loop(1) 1(1) by simp
  next
    case 2
    then obtain st1 where st1: "active w1 = Some st1" "walk_request st1 = walk_request st" "unat (walk_level st1) < unat (walk_level st)"
      and m: "shows_memory f s1" "walker_sound allowed f spaces w1" "quiet s1"
      by (auto simp: walk_down_def)
    have less: "walk_stage r w1 < walk_stage r w" using stage_down [OF u(1) st1] stage(1) by (meson less_le_trans)
    have d: "drained f r w1 g \<Longrightarrow> drained f r w g" for g using st1 u(2) by (auto simp: drained_def)
    have k: "keeps_request f r w1 g w' \<Longrightarrow> keeps_request f r w g w'" for g w' using st1 u(2) by (auto simp: keeps_request_def)
    have q: "walk_ready r w s \<longrightarrow> walk_ready r w1 s1" using ready_quiet [OF m(3)] by simp
    have "wp (translate_loop ops r w1 s1) (translated f r spaces (w, s))"
      by (rule wp_mono [OF IH [OF less m(1,2) s(3)] translated_trans [OF _ less q d k m(3)]])
    then show ?thesis using loop(2) 2(1) by simp
  next
    case 3
    have "sv32_effect f r = sv32_walked f r" using en by (simp add: sv32_effect_def)
    then have "translated f r spaces (w, s) (Inr (sv32_answer f r)) (w1, s1)"
      using 3(2) u(2) unfolding translated_def walk_ended_def by (intro exI [of _ f]) (simp add: drained_def)
    then show ?thesis using loop(3) 3(1) by simp
  qed
qed

lemma translate_loop_sound:
  assumes "shows_memory f s" "walker_sound allowed f spaces w" "tables_allowed allowed f r" "rq_satp r \<in> spaces"
  shows "wp (translate_loop ops r w s) (translated f r spaces (w, s))"
  using assms(1-3)
proof (induction "walk_stage r w" arbitrary: f w s rule: less_induct)
  case less
  have IH: "walk_stage r w1 < walk_stage r w \<Longrightarrow> shows_memory f1 s1 \<Longrightarrow> walker_sound allowed f1 spaces w1 \<Longrightarrow>
      tables_allowed allowed f1 r \<Longrightarrow> wp (translate_loop ops r w1 s1) (translated f1 r spaces (w1, s1))" for f1 w1 s1
    using less.hyps .
  note unfold = translate_loop.simps [of ops r w s]
  have m: "tlb_sound f spaces w" "globals_shared f spaces" using less.prems(2) by (simp_all add: walker_sound_def)
  have now: "translated f r spaces (w, s) (Inr (sv32_answer f r)) (w, s)" if "active w = None" "sv32_effect f r = f"
    using that less.prems unfolding translated_def by (intro exI [of _ f]) (simp add: drained_def)
  show ?case
  proof (cases "active w")
    case None
    show ?thesis
    proof (cases "translation_enabled (rq_satp r) (rq_privilege r)")
      case True
      show ?thesis
      proof (cases "lookup_tlb r w")
        case (Some x)
        then have "x = sv32_answer f r \<and> sv32_effect f r = f" using lookup_sound [OF m(1) assms(4) m(2) True] by simp
        then show ?thesis using now None True Some unfold by simp
      qed (use own_step [OF IH less.prems assms(4) True] None in simp)
    next
      case False
      then show ?thesis using now None unfold by (simp add: sv32_answer_def sv32_effect_def)
    qed
  next
    case (Some st)
    then have "translation_enabled (rq_satp (walk_request st)) (rq_privilege (walk_request st))"
      using less.prems(2) by (simp add: walker_sound_def walk_sound_def Let_def)
    then show ?thesis
      using own_step [OF IH less.prems assms(4)] drain_step [OF IH less.prems Some] Some by (cases "walk_request st = r") simp_all
  qed
qed

lemma active_allowed: "walker_sound allowed f spaces w \<Longrightarrow> active w = Some st \<Longrightarrow> allowed (walk_access st)"
proof -
  assume "walker_sound allowed f spaces w" "active w = Some st"
  then have "walk_sound allowed f st" by (simp add: walker_sound_def)
  then have "entry_allowed allowed (walk_pte_address st)"
    by (cases "unat (walk_level st)") (auto simp: walk_sound_def Let_def)
  then show ?thesis by (simp add: walk_access_def entry_allowed_def split: walk_phase.split)
qed

lemma retry_translate_sound:
  assumes "shows_memory f s" "walker_sound allowed f spaces w" "tables_allowed allowed f r" "rq_satp r \<in> spaces" "walk_ready r w s"
  shows "\<exists>g w' s'. retry_translate ops r w s = Some (Inr (sv32_answer g r), (w', s')) \<and> drained f r w g \<and>
    shows_memory (sv32_effect g r) s' \<and> walker_sound allowed (sv32_effect g r) spaces w' \<and> active w' = None \<and>
    (quiet s' \<or> active w = None \<and> s' = s)"
  using assms(1-3,5)
proof (induction "(walk_stage r w, s)" arbitrary: f w s rule: wf_induct_rule [OF wf_lex_prod [OF wf_less_than nearer_wf]])
  case (1 w s)
  note loop = retry_translate.simps [of ops r w s]
  obtain res w1 s1 where t: "translate_loop ops r w s = Some (res, (w1, s1))" "translated f r spaces (w, s) res (w1, s1)"
    using translate_loop_sound [OF 1(2-4) assms(4)] by (auto elim!: wp_elim)
  obtain g where g: "drained f r w g"
      "res = Inr TranslationStall \<and> shows_memory g s1 \<and> walker_sound allowed g spaces w1 \<and> stall_waits g r (w, s) (w1, s1) \<and>
         keeps_request f r w g w1 \<or>
       res = Inr (sv32_answer g r) \<and> shows_memory (sv32_effect g r) s1 \<and> walker_sound allowed (sv32_effect g r) spaces w1 \<and>
         active w1 = None \<and> (quiet s1 \<or> active w = None \<and> s1 = s)"
    using t(2) unfolding translated_def fst_conv snd_conv by blast
  from g(2) consider "res = Inr TranslationStall" "shows_memory g s1" "walker_sound allowed g spaces w1" "keeps_request f r w g w1"
      "stall_waits g r (w, s) (w1, s1)"
    | "res = Inr (sv32_answer g r)" "shows_memory (sv32_effect g r) s1" "walker_sound allowed (sv32_effect g r) spaces w1"
      "active w1 = None" "quiet s1 \<or> active w = None \<and> s1 = s" by (rule disjE) simp_all
  then show ?case
  proof cases
    case r: 1
    obtain st1 e s0 where st1: "active w1 = Some st1" "access_bus ops (walk_access st1) s0 = Some (Inl e, s1)"
        "ready_for (walk_access st1) s0" "shows_memory g s0"
        "walk_stage r w1 < walk_stage r w \<or> s0 = s \<and> walk_stage r w1 = walk_stage r w"
      using r(5) 1(5) unfolding stall_waits_def prod.case by blast
    obtain x s2 where s2: "bus_tick ops s1 = Some (x, s2)" "shows_memory g s2"
      using tick_shows [OF r(2)] by (auto elim!: wp_elim)
    have n: "ready_for (walk_access st1) s2 \<and> (s2, s0) \<in> nearer"
      by (rule retry_law [OF st1(4) active_allowed [OF r(3) st1(1)] st1(3,2) s2(1)])
    have mk: "marked f g" using g(1) marked_walk by (auto simp: drained_def)
    have "((walk_stage r w1, s2), (walk_stage r w, s)) \<in> less_than <*lex*> nearer" using st1(5) n by auto
    moreover have "walk_ready r w1 s2" using n st1(1) by (simp add: walk_ready_def)
    moreover have "tables_allowed allowed g r" using tables_marked [OF mk] 1(4) by simp
    ultimately obtain h w' s' where h: "retry_translate ops r w1 s2 = Some (Inr (sv32_answer h r), (w', s'))" "drained g r w1 h"
        "shows_memory (sv32_effect h r) s'" "walker_sound allowed (sv32_effect h r) spaces w'" "active w' = None" "quiet s'"
      using 1(1) [of w1 s2 g] s2(2) r(3) st1(1) by auto
    have "drained f r w h" using h(2) g(1) r(4) by (auto simp: drained_def keeps_request_def)
    then show ?thesis using h loop t(1) r(1) s2(1) by auto
  next
    case 2
    moreover have "sv32_answer g r \<noteq> TranslationStall" by (simp add: sv32_answer_def split: sv32_result.split)
    ultimately show ?thesis using g(1) loop t(1) by auto
  qed
qed

end

end
