(* ===== verification/Cached_Memory.thy ===== *)
theory Cached_Memory
  imports Cache_Client
begin

text \<open>
  The memory map as the bus below a cache: a memory device of the map serves the bursts of one
  bank. The interpretation of \<open>burst_server\<close> on \<open>mm_ops device_ops\<close> discharges the laws that the
  transparency of a bank rests on, for every slot \<open>i\<close> that is a memory with range \<open>r\<close> and every
  set of addresses \<open>region\<close> of that slot.
\<close>

definition slot_bytes :: "nat \<Rightarrow> device memory_map \<Rightarrow> u64 \<Rightarrow> u8" where
  "slot_bytes i m = device_content (slot_device (mm_devices m ! i))"

lemma memory_slot_bytes: "memory_slot i r f m \<Longrightarrow> slot_bytes i m = f"
  by (simp add: memory_slot_def slot_bytes_def)

lemma on_device_same_bus: "on_device i f m = Some (res, m') \<Longrightarrow> same_bus m m'"
  by (auto simp: on_device_def same_bus_def map_update idx_def intro!: list_update_same_conv [THEN iffD2]
      split: option.splits if_splits)

lemma slot_latency:
  assumes "memory_slot i r f m"
  shows "\<exists>n m'. latency_of device_ops i a k w m = Some (n, m') \<and> memory_slot i r f m' \<and> same_bus m m'"
proof -
  let ?d = "slot_device (mm_devices m ! i)"
  have d: "memory_device ?d" "i < length (mm_devices m)" using assms by (simp_all add: memory_slot_def)
  obtain n d' where l: "ad_access_latency device_ops a k w ?d = (n, d')" by fastforce
  then have "latency_of device_ops i a k w m =
      Some (n, m\<lparr>mm_devices := (mm_devices m)[i := (mm_devices m ! i)\<lparr>slot_device := d'\<rparr>]\<rparr>)" (is "_ = Some (n, ?m)")
    using d(2) by (simp add: latency_of_def on_device_def)
  moreover have "memory_slot i r f ?m"
    using l assms memory.latency_content [OF d(1), of a k w] memory.latency_dev [OF d(1), of a k w]
    by (simp add: memory_slot_def)
  ultimately show ?thesis using on_device_same_bus by (auto simp: latency_of_def)
qed

lemma load_bytes_same_bus: "load_bytes dev i a n m = Some (res, m') \<Longrightarrow> same_bus m m'"
proof (induction n arbitrary: a m res m')
  case (Suc n)
  obtain r1 m1 where m1: "on_device i (ad_load8 dev a) m = Some (r1, m1)"
    using Suc.prems by (cases "on_device i (ad_load8 dev a) m") auto
  note s = on_device_same_bus [OF m1]
  show ?case
  proof (cases r1)
    case (Inr v)
    then obtain r2 m2 where m2: "load_bytes dev i (a + 1) n m1 = Some (r2, m2)"
      using Suc.prems m1 by (cases "load_bytes dev i (a + 1) n m1") auto
    then show ?thesis
      using Suc.prems m1 Inr same_bus_trans [OF s Suc.IH [OF m2]] by (cases r2) auto
  qed (use Suc.prems m1 s in auto)
qed simp

lemma store_bytes_same_bus: "store_bytes dev i a vs m = Some (res, m') \<Longrightarrow> same_bus m m'"
proof (induction vs arbitrary: a m)
  case (Cons v vs)
  obtain r1 m1 where m1: "on_device i (ad_store8 dev a v) m = Some (r1, m1)"
    using Cons.prems by (cases "on_device i (ad_store8 dev a v) m") auto
  note s = on_device_same_bus [OF m1]
  show ?case
  proof (cases r1)
    case (Inr u)
    then have "store_bytes dev i (a + 1) vs m1 = Some (res, m')" using Cons.prems m1 by simp
    from same_bus_trans [OF s Cons.IH [OF this]] show ?thesis .
  qed (use Cons.prems m1 s in auto)
qed simp

text \<open>A word read or written by a beat is inside the slot.\<close>

lemma beat_inside:
  assumes "region_burst region q" "\<And>a. region a \<Longrightarrow> range_contains r a" "k < beats q" "j < 4"
  shows "range_contains r (beat_addr q k + of_nat j)"
proof -
  have "4 * k + j < 2 ^ 64" using assms(1,3,4) by (simp add: region_burst_def)
  moreover have "unat (of_nat x :: u64) = x" if "x < 2 ^ 64" for x using that by (simp add: unat_of_nat)
  ultimately have "unat (of_nat (4 * k + j) :: u64) = 4 * k + j" by blast
  moreover have "beat_addr q k + of_nat j - base_addr q = of_nat (4 * k + j)" by (simp add: beat_addr_def algebra_simps)
  ultimately have "unat (beat_addr q k + of_nat j - base_addr q) = 4 * k + j" by (simp only:)
  then have "covers q (beat_addr q k + of_nat j)" using assms(3,4) by (simp add: covers_def)
  then show ?thesis using assms(1,2) by (simp add: region_burst_def)
qed

lemma finish_beat_memory:
  assumes "memory_slot i r f m" "ab_device_index ab = i" "region_burst region (ab_request ab)"
    "\<And>a. region a \<Longrightarrow> range_contains r a" "ab_beat_index ab < beats (ab_request ab)"
  shows "\<exists>m'. finish_beat device_ops ab m = Some (BeatCompleted (read_by_beat ab f), m') \<and>
    memory_slot i r (after_beat ab f) m' \<and> same_bus m m'"
proof -
  let ?q = "ab_request ab" and ?k = "ab_beat_index ab"
  have inside: "\<forall>j < 4. range_contains r (beat_addr ?q ?k + of_nat j)"
    using beat_inside [OF assms(3,4,5)] by blast
  show ?thesis
  proof (cases ?q)
    case (BurstRead base n kd)
    obtain m' where m': "load_bytes device_ops i (beat_addr ?q ?k) 4 m =
        Some (Inr (map (\<lambda>j. f (beat_addr ?q ?k + of_nat j)) [0..<4]), m')" "memory_slot i r f m'"
      using slot_load_bytes [OF assms(1) inside] by blast
    then show ?thesis
      using BurstRead assms(2) load_bytes_same_bus [OF m'(1)]
      by (simp add: finish_beat_def execute_burst_beat_def Let_def read_by_beat_def after_beat_def
          del: load_bytes.simps upt_Suc)
  next
    case (BurstWrite base ws)
    then have "\<forall>j < length (le_bytes32 (ws ! ?k)). range_contains r (beat_addr ?q ?k + of_nat j)" using inside by simp
    from slot_store_bytes [OF assms(1) this] obtain m' where
        m': "store_bytes device_ops i (beat_addr ?q ?k) (le_bytes32 (ws ! ?k)) m = Some (Inr (), m')"
          "memory_slot i r (stored (beat_addr ?q ?k) (le_bytes32 (ws ! ?k)) f) m'"
      by blast
    then show ?thesis
      using BurstWrite assms(2,5) store_bytes_same_bus [OF m'(1)]
      by (simp add: finish_beat_def execute_burst_beat_def Let_def read_by_beat_def after_beat_def
          del: store_bytes.simps stored.simps)
  qed
qed

text \<open>A step of a served burst.\<close>

definition burst_step ::
  "nat \<Rightarrow> address_range \<Rightarrow> (u64 \<Rightarrow> bool) \<Rightarrow> (u64 \<Rightarrow> u8) \<Rightarrow> device memory_map \<Rightarrow> active_burst \<Rightarrow>
   (u64 \<Rightarrow> u8) \<Rightarrow> device memory_map \<Rightarrow> active_burst \<Rightarrow> bool" where
  "burst_step i r region f m ab f' m' ab' \<longleftrightarrow> memory_slot i r f' m' \<and> same_bus m m' \<and> served region f' ab' \<and>
     same_burst ab ab' \<and> ab_device_index ab' = ab_device_index ab \<and>
     untouched region (Some (ab_id ab, ab_request ab)) f f' \<and>
     ((\<exists>n. ab_phase ab = BuReady n) \<or> (ab', ab) \<in> ahead)"

lemma next_beat_memory:
  assumes "served region f ab" "ab_device_index ab = i" "memory_slot i r f m" "\<And>a. region a \<Longrightarrow> range_contains r a"
  shows "\<exists>adv m' f' ab'. next_beat device_ops ab m = Some (adv, m') \<and> apply_beat adv ab = Some ab' \<and>
    burst_step i r region f m ab f' m' ab'"
proof -
  let ?q = "ab_request ab" and ?k = "ab_beat_index ab"
  have s: "region_burst region ?q" using assms(1) by (simp add: served_def)
  have finish: "\<exists>adv m2 f' ab'. finish_beat device_ops ab m1 = Some (adv, m2) \<and> apply_beat adv ab = Some ab' \<and>
      burst_step i r region f m ab f' m2 ab'"
    if k: "?k < beats ?q" and m1: "memory_slot i r f m1" "same_bus m m1" for m1
  proof -
    obtain m2 where m2: "finish_beat device_ops ab m1 = Some (BeatCompleted (read_by_beat ab f), m2)"
        "memory_slot i r (after_beat ab f) m2" "same_bus m1 m2"
      using finish_beat_memory [OF m1(1) assms(2) s assms(4) k] by blast
    note b = beat_done_served [OF assms(1) k]
    have "burst_step i r region f m ab (after_beat ab f) m2 (beat_done ab f)"
      using m2(2) same_bus_trans [OF m1(2) m2(3)] b(2) b(3) beat_done_ahead [OF k]
      by (simp add: burst_step_def beat_done_def same_burst_def Let_def)
    then show ?thesis using m2(1) b(1) by blast
  qed
  have wait: "burst_step i r region f m ab f m1 (ab\<lparr>ab_phase := BuInFlight ?k (beats ?q) n\<rparr>)"
    if "?k < beats ?q" "memory_slot i r f m1" "same_bus m m1"
      "(ab\<lparr>ab_phase := BuInFlight ?k (beats ?q) n\<rparr>, ab) \<in> ahead" for m1 n
    using that assms(1) by (auto simp: burst_step_def served_def in_progress_def same_burst_def)
  from assms(1) show ?thesis
  proof (cases rule: served_phase)
    case (accepted x y)
    obtain n m1 where l: "latency_of device_ops i (beat_addr ?q ?k) (beat_kind ?q) 4 m = Some (n, m1)"
        "memory_slot i r f m1" "same_bus m m1"
      using slot_latency [OF assms(3)] by blast
    show ?thesis
    proof (cases "n = 0")
      case True
      then show ?thesis using finish [OF accepted(2) l(2,3)] accepted l(1) assms(2) by (simp add: next_beat_def Let_def)
    next
      case False
      then show ?thesis
        using wait [OF accepted(2) l(2,3), of n] accepted l(1) assms(2)
        by (auto simp: next_beat_def Let_def apply_beat_def ahead_def)
    qed
  next
    case (waiting x y n)
    have "unat (n - 1) < unat n" if "1 < n" using that by (simp add: unat_sub word_le_nat_alt word_less_nat_alt)
    then show ?thesis
      using finish [OF waiting(2) assms(3)] wait [OF waiting(2) assms(3), of "n - 1"] waiting(1)
      by (auto simp: next_beat_def Let_def apply_beat_def ahead_def)
  next
    case (ready n)
    then have "burst_step i r region f m ab f m (ab\<lparr>ab_phase := BuReady n\<rparr>)"
      using assms(1,3) by (auto simp: burst_step_def served_def in_progress_def same_burst_def)
    then show ?thesis using ready by (auto simp: next_beat_def Let_def apply_beat_def)
  qed
qed

subsection \<open>The memory map as a server\<close>

text \<open>Slot \<open>i\<close> is a memory that holds the region, and nobody else uses the bus.\<close>

definition map_home ::
  "nat \<Rightarrow> address_range \<Rightarrow> (u64 \<Rightarrow> bool) \<Rightarrow> active_burst list \<Rightarrow> device memory_map \<Rightarrow> bool" where
  "map_home i r region bs m \<longleftrightarrow> mm_ok 0 (\<lambda>_. device_ok) m \<and> memory_slot i r (slot_bytes i m) m \<and>
     mm_compat_transaction m = None \<and> mm_active_bursts m = bs \<and>
     (\<forall>a. region a \<longrightarrow> find_device_index a m = Some i \<and> range_contains r a)"

definition map_serves ::
  "nat \<Rightarrow> address_range \<Rightarrow> (u64 \<Rightarrow> bool) \<Rightarrow> active_burst \<Rightarrow> device memory_map \<Rightarrow> bool" where
  "map_serves i r region ab m \<longleftrightarrow> map_home i r region [ab] m \<and> ab_device_index ab = i \<and>
     served region (slot_bytes i m) ab"

definition map_nearer :: "(device memory_map \<times> device memory_map) set" where
  "map_nearer = inv_image ahead (\<lambda>m. hd (mm_active_bursts m))"

lemma map_serves_bursts: "map_serves i r region ab m \<Longrightarrow> mm_active_bursts m = [ab]"
  by (simp add: map_serves_def map_home_def)

lemma map_home_active:
  assumes "map_home i r region bs m"
  shows "mm_active_transactions m = []"
proof -
  have "mm_ok 0 (\<lambda>_. device_ok) m" "mm_compat_transaction m = None" using assms by (simp_all add: map_home_def)
  then show ?thesis by (auto simp: mm_ok_def single_client_def split: option.splits)
qed

lemma map_serves_phase:
  assumes "map_serves i r region ab m"
  shows "served region (slot_bytes i m) ab \<and> mm_burst_phase m (ab_id ab) = Some (ab_phase ab)"
    "burst_index (ab_id ab) m = Some 0"
  using assms map_serves_bursts [OF assms] by (simp_all add: map_serves_def burst_index_def mm_burst_phase_def)

lemma map_advance:
  assumes "map_serves i r region ab m"
  shows "\<exists>m' ab'. advance_burst_at device_ops 0 m = Some ((), m') \<and> map_serves i r region ab' m' \<and> same_burst ab ab' \<and>
    untouched region (Some (ab_id ab, ab_request ab)) (slot_bytes i m) (slot_bytes i m') \<and>
    ((\<exists>n. ab_phase ab = BuReady n) \<or> (m', m) \<in> map_nearer)"
proof -
  have h: "ab_device_index ab = i" "served region (slot_bytes i m) ab" "mm_ok 0 (\<lambda>_. device_ok) m"
      "memory_slot i r (slot_bytes i m) m" "\<And>a. region a \<Longrightarrow> range_contains r a"
    using assms by (simp_all add: map_serves_def map_home_def)
  obtain adv m1 f' ab' where b: "next_beat device_ops ab m = Some (adv, m1)" "apply_beat adv ab = Some ab'"
      "burst_step i r region (slot_bytes i m) m ab f' m1 ab'"
    using next_beat_memory [OF h(2,1,4,5)] by blast
  let ?m = "m1\<lparr>mm_active_bursts := [ab']\<rparr>"
  have adv: "advance_burst_at device_ops 0 m = Some ((), ?m)"
    using b map_serves_bursts [OF assms] by (simp add: advance_burst_at_def burst_step_def same_bus_def)
  have s: "memory_slot i r f' m1" "same_bus m m1" "served region f' ab'" "ab_device_index ab' = i"
    using b(3) h(1) by (simp_all add: burst_step_def)
  have f': "slot_bytes i ?m = f'" using memory_slot_bytes [OF s(1)] by (simp add: slot_bytes_def)
  have "mm_ok 0 (\<lambda>_. device_ok) ?m"
    using device.family.advance_burst_at_safe [OF h(3), of 0] adv by simp
  moreover have "memory_slot i r f' ?m" using s(1) by (simp add: memory_slot_def)
  moreover have "find_device_index a ?m = find_device_index a m" for a
    using same_bus_find [OF s(2)] by (simp add: find_device_index_def)
  ultimately have "map_serves i r region ab' ?m"
    using assms s f' by (simp add: map_serves_def map_home_def same_bus_def)
  then show ?thesis
    using adv f' b(3) map_serves_bursts [OF assms] by (auto simp: burst_step_def map_nearer_def)
qed

lemma map_take:
  assumes "map_serves i r region ab m" "ab_phase ab = BuReady n"
  shows "\<exists>m'. mm_take_burst_response (ab_id ab) m = Some (Some (Inr (burst_answer ab)), m') \<and>
    map_home i r region [] m' \<and> slot_bytes i m' = slot_bytes i m"
proof -
  let ?m = "m\<lparr>mm_active_bursts := []\<rparr>"
  have n: "n = beats (ab_request ab)"
    using assms by (simp add: map_serves_def served_def in_progress_def)
  have take: "mm_take_burst_response (ab_id ab) m = Some (Some (Inr (burst_answer ab)), ?m)"
    using map_serves_phase(2) [OF assms(1)] map_serves_bursts [OF assms(1)] assms(2) n
    by (cases "ab_request ab") (simp_all add: mm_take_burst_response_def swap_remove_def Let_def burst_answer_def)
  have "mm_ok 0 (\<lambda>_. device_ok) m" using assms(1) by (simp add: map_serves_def map_home_def)
  then have "mm_ok 0 (\<lambda>_. device_ok) ?m" using device.family.mm_take_burst_safe [of m "ab_id ab"] take by simp
  then have "map_home i r region [] ?m"
    using assms(1) by (simp add: map_serves_def map_home_def slot_bytes_def memory_slot_def find_device_index_def)
  then show ?thesis using take by (simp add: slot_bytes_def)
qed

lemma map_submit:
  assumes "map_home i r region [] m" "region_burst region q"
  shows "\<exists>ab m'. mm_submit_burst q m = Some (Inr (ab_id ab), m') \<and> map_serves i r region ab m' \<and>
    ab_request ab = q \<and> slot_bytes i m' = slot_bytes i m"
proof -
  let ?ab = "\<lparr>ab_id = mm_next_transaction_id m, ab_device_index = i, ab_request = q, ab_beat_index = 0,
    ab_read_words = replicate (beats q) 0, ab_phase = BuAccepted 0 (beats q)\<rparr>"
  let ?m = "m\<lparr>mm_next_transaction_id := mm_next_transaction_id m + 1, mm_active_bursts := [?ab]\<rparr>"
  have q: "0 < beats q" "4 * beats q < 2 ^ 64" "\<And>a. covers q a \<Longrightarrow> region a"
    using assms(2) by (simp_all add: region_burst_def)
  have home: "mm_ok 0 (\<lambda>_. device_ok) m" "mm_active_bursts m = []" "\<And>a. region a \<Longrightarrow> find_device_index a m = Some i"
    using assms(1) by (simp_all add: map_home_def)
  have at: "find_device_index (beat_addr q k) m = Some i" if "k < beats q" for k
  proof -
    have "unat (of_nat x :: u64) = x" if "x < 2 ^ 64" for x using that by (simp add: unat_of_nat)
    moreover have "4 * k < 2 ^ 64" using that q(2) by linarith
    ultimately have "unat (of_nat (4 * k) :: u64) = 4 * k" by blast
    moreover have "beat_addr q k - base_addr q = of_nat (4 * k)" by (simp add: beat_addr_def)
    ultimately have "unat (beat_addr q k - base_addr q) = 4 * k" by (simp only:)
    then have "covers q (beat_addr q k)" using that by (simp add: covers_def)
    then show ?thesis using home(3) q(3) by blast
  qed
  have "crossing_beat q i m = None" using at by (auto simp: crossing_beat_def find_None_iff)
  moreover have "find_device_index (base_addr q) m = Some i" using at [OF q(1)] by (simp add: beat_addr_def)
  ultimately have sub: "mm_submit_burst q m = Some (Inr (mm_next_transaction_id m), ?m)"
    using q(1) home(2) by (simp add: mm_submit_burst_def Let_def)
  have "mm_ok 0 (\<lambda>_. device_ok) ?m" using device.family.mm_submit_burst_safe [OF home(1) q(1)] sub by simp
  moreover have "served region (slot_bytes i m) ?ab"
    using assms(2) q(1) by (simp add: served_def in_progress_def moved_def split: burst_request.split)
  ultimately have "map_serves i r region ?ab ?m"
    using assms(1) by (simp add: map_serves_def map_home_def slot_bytes_def memory_slot_def find_device_index_def)
  then show ?thesis using sub by (auto simp: slot_bytes_def intro!: exI [of _ ?ab])
qed

lemma tick_slots_nth:
  "tick_slots dev ss = Some ss' \<Longrightarrow> k < length ss \<Longrightarrow>
     ad_tick dev (slot_device (ss ! k)) = Some (slot_device (ss' ! k)) \<and> length ss' = length ss \<and>
     map slot_range ss' = map slot_range ss"
proof (induction ss arbitrary: ss' k)
  case (Cons s ss)
  obtain d ss1 where d: "ad_tick dev (slot_device s) = Some d" "tick_slots dev ss = Some ss1"
      "ss' = s\<lparr>slot_device := d\<rparr> # ss1"
    using Cons.prems(1) by (auto split: option.splits)
  show ?case
  proof (cases ss)
    case Nil
    then show ?thesis using Cons.prems d by simp
  next
    case (Cons t ts)
    then have "0 < length ss" by simp
    from Cons.IH [OF d(2) this] have "length ss1 = length ss \<and> map slot_range ss1 = map slot_range ss" by simp
    moreover have "ad_tick dev (slot_device (ss ! j)) = Some (slot_device (ss1 ! j))" if "j < length ss" for j
      using Cons.IH [OF d(2) that] by simp
    ultimately show ?thesis using Cons.prems(2) d by (cases k) auto
  qed
qed simp

lemma tick_memory:
  assumes "memory_slot i r f m" "tick_devices dev m = Some m'" "dev = device_ops"
  shows "memory_slot i r f m'" "same_bus m m'"
proof -
  obtain ss where ss: "tick_slots device_ops (mm_devices m) = Some ss" "m' = m\<lparr>mm_devices := ss\<rparr>"
    using assms(2,3) by (auto simp: tick_devices_def)
  have i: "i < length (mm_devices m)" using assms(1) by (simp add: memory_slot_def)
  note t = tick_slots_nth [OF ss(1) i]
  let ?d = "slot_device (mm_devices m ! i)"
  have d: "memory_device ?d" using assms(1) by (simp add: memory_slot_def)
  have "memory_device (slot_device (ss ! i))" using memory.tick_dev [OF d] t by auto
  then show "memory_slot i r f m'"
    using assms(1) memory.tick_content [OF d] t ss(2) i by (simp add: memory_slot_def)
  show "same_bus m m'" using ss(2) t by (simp add: same_bus_def)
qed

lemma map_tick:
  assumes "map_home i r region bs m" "bs = [] \<or> bs = [ab] \<and> map_serves i r region ab m"
  shows "\<exists>m' bs'. mm_tick device_ops m = Some ((), m') \<and> map_home i r region bs' m' \<and>
    (bs = [] \<longrightarrow> bs' = [] \<and> slot_bytes i m' = slot_bytes i m) \<and>
    (bs \<noteq> [] \<longrightarrow> (\<exists>ab'. bs' = [ab'] \<and> map_serves i r region ab' m' \<and> same_burst ab ab' \<and>
      untouched region (Some (ab_id ab, ab_request ab)) (slot_bytes i m) (slot_bytes i m') \<and>
      ((\<exists>n. ab_phase ab = BuReady n) \<or> (m', m) \<in> map_nearer)))"
proof -
  have ok: "mm_ok 0 (\<lambda>_. device_ok) m" "mm_compat_transaction m = None" "mm_active_bursts m = bs"
    using assms(1) by (simp_all add: map_home_def)
  obtain m1 bs' where m1: "each_index (advance_burst_at device_ops) [0..<length bs] m = Some ((), m1)"
      "map_home i r region bs' m1" "bs = [] \<Longrightarrow> bs' = [] \<and> slot_bytes i m1 = slot_bytes i m"
      "bs \<noteq> [] \<Longrightarrow> \<exists>ab'. bs' = [ab'] \<and> map_serves i r region ab' m1 \<and> same_burst ab ab' \<and>
        untouched region (Some (ab_id ab, ab_request ab)) (slot_bytes i m) (slot_bytes i m1) \<and>
        ((\<exists>n. ab_phase ab = BuReady n) \<or> (m1, m) \<in> map_nearer)"
  proof (cases bs)
    case Nil
    then show thesis using that [of m "[]"] assms(1) by simp
  next
    case (Cons b bs1)
    then have b: "bs = [ab]" "map_serves i r region ab m" using assms(2) by simp_all
    from map_advance [OF b(2)] obtain m' ab' where
        a: "advance_burst_at device_ops 0 m = Some ((), m')" "map_serves i r region ab' m'" "same_burst ab ab'"
          "untouched region (Some (ab_id ab, ab_request ab)) (slot_bytes i m) (slot_bytes i m')"
          "(\<exists>n. ab_phase ab = BuReady n) \<or> (m', m) \<in> map_nearer"
      by blast
    then show thesis using that [of m' "[ab']"] b(1) by (simp add: map_serves_def)
  qed
  obtain m2 where m2: "mm_tick device_ops m = Some ((), m2)" "mm_ok 0 (\<lambda>_. device_ok) m2"
      "mm_compat_transaction m2 = mm_compat_transaction m"
    using device.family.mm_tick_keeps [OF ok(1)] by (auto elim!: wp_elim)
  then have t: "tick_devices device_ops m1 = Some m2"
    using m1(1) ok(3) map_home_active [OF assms(1)] by (simp add: mm_tick_def)
  have slot: "memory_slot i r (slot_bytes i m1) m1" using m1(2) by (simp add: map_home_def)
  note tm = tick_memory [OF slot t refl]
  have same: "slot_bytes i m2 = slot_bytes i m1" using memory_slot_bytes [OF tm(1)] .
  have home: "map_home i r region bs' m2"
    using m1(2) m2(2,3) ok(2) tm same same_bus_find [OF tm(2)]
    by (simp add: map_home_def same_bus_def)
  have near: "(m2, m) \<in> map_nearer" if "(m1, m) \<in> map_nearer"
    using that tm(2) by (simp add: map_nearer_def same_bus_def)
  show ?thesis
    using m2(1) home m1(3,4) same near by (auto simp: map_serves_def)
qed

text \<open>The memory map is a bus that a bank can cache.\<close>

interpretation cached: burst_server "mm_ops device_ops" "map_home i r region []" "map_serves i r region" "slot_bytes i"
  region map_nearer for i r region
proof
  fix ab m x y
  assume s: "map_serves i r region ab m"
  show "served region (slot_bytes i m) ab \<and> bus_burst_phase (mm_ops device_ops) m (ab_id ab) = Some (ab_phase ab)"
    using map_serves_phase(1) [OF s] by (simp add: mm_ops_def)
  show "\<exists>ab' m'. bus_advance_burst (mm_ops device_ops) (ab_id ab) m = Some (Some (ab_phase ab'), m') \<and>
      map_serves i r region ab' m' \<and> same_burst ab ab' \<and>
      untouched region (Some (ab_id ab, ab_request ab)) (slot_bytes i m) (slot_bytes i m') \<and> (m', m) \<in> map_nearer"
    if accepted: "ab_phase ab = BuAccepted x y"
  proof -
    obtain m' ab' where a: "advance_burst_at device_ops 0 m = Some ((), m')" "map_serves i r region ab' m'"
        "same_burst ab ab'" "untouched region (Some (ab_id ab, ab_request ab)) (slot_bytes i m) (slot_bytes i m')"
        "(m', m) \<in> map_nearer"
      using map_advance [OF s] accepted by auto
    then show ?thesis
      using map_serves_phase(2) [OF s] map_serves_phase(1) [OF a(2)]
      by (auto simp: mm_ops_def mm_advance_burst_def same_burst_def)
  qed
  show "wp (bus_tick (mm_ops device_ops) m) (\<lambda>_ m'. \<exists>ab'. map_serves i r region ab' m' \<and> same_burst ab ab' \<and>
      untouched region (Some (ab_id ab, ab_request ab)) (slot_bytes i m) (slot_bytes i m') \<and>
      ((\<exists>n. ab_phase ab = BuReady n) \<or> (m', m) \<in> map_nearer))"
    using map_tick [of i r region "[ab]" m ab] s by (auto simp: mm_ops_def map_serves_def)
next
  fix ab m n
  assume "map_serves i r region ab m" "ab_phase ab = BuReady n"
  from map_take [OF this]
  show "\<exists>m'. bus_take_burst_response (mm_ops device_ops) (ab_id ab) m = Some (Some (Inr (burst_answer ab)), m') \<and>
      map_home i r region [] m' \<and> untouched region None (slot_bytes i m) (slot_bytes i m')"
    by (auto simp: mm_ops_def)
next
  fix m q
  assume s: "map_home i r region [] m"
  show "wp (bus_tick (mm_ops device_ops) m)
      (\<lambda>_ m'. map_home i r region [] m' \<and> untouched region None (slot_bytes i m) (slot_bytes i m'))"
    using map_tick [OF s] by (auto simp: mm_ops_def)
  show "\<exists>ab m'. bus_submit_burst (mm_ops device_ops) q m = Some (Inr (ab_id ab), m') \<and> map_serves i r region ab m' \<and>
      ab_request ab = q \<and> untouched region None (slot_bytes i m) (slot_bytes i m')"
    if "region_burst region q"
    using map_submit [OF s that] by (auto simp: mm_ops_def)
  show "\<not> bus_is_busy (mm_ops device_ops) m"
    using s map_home_active [OF s] by (simp add: mm_ops_def mm_is_busy_def map_home_def)
qed (simp_all add: map_nearer_def)

end
