(* ===== verification/Cached_System.thy ===== *)
theory Cached_System
  imports Cached_Memory Page_Walk
begin

text \<open>
  The cache hierarchy of the computer (\<open>apps/computer/src/main.rs\<close>) over a memory device of the
  memory map: a unified cache, and a split first level over it. Each level is an interpretation of
  the contracts of the levels below, down to the memory map; the properties say that the whole is a
  memory of bytes.
\<close>

interpretation unified: memory_bus "uc_ops (mm_ops device_ops)" "cached.uc_client i r region" "access_fits region"
  "\<lambda>a c. settled (access_addr a) (uc_bank c)" "\<lambda>c. cb_pending (uc_bank c) = None" cached.uc_closer
  for i r region
  by (rule cached.uc_memory)

interpretation second: burst_server "uc_ops (mm_ops device_ops)" "cached.uc_idle i r region" "cached.uc_serves i r region"
  "cached.uc_seen i" region cached.uc_nearer
  for i r region
  by (rule cached.stacked)

interpretation first: live_bus "uc_ops (mm_ops device_ops)"
  "burst_state (cached.uc_idle i r region) (cached.uc_serves i r region)"
  "cached.uc_seen i" "\<lambda>a. part a \<and> region a" cached.uc_nearer
  for i r region part
  by (rule second.part)

interpretation hierarchy: memory_bus "sc_ops (uc_ops (mm_ops device_ops))" "first.sc_client i r region part"
  "\<lambda>a. access_fits (\<lambda>a. part a \<and> region a) a \<and> \<not> is_fetch a" "\<lambda>a c. settled (access_addr a) (sc_data c)"
  "\<lambda>c. cb_pending (sc_data c) = None" first.sc_closer
  for i r region part
  by (rule first.sc_memory)

subsection \<open>The initial state\<close>

text \<open>The configurations that the levels of the computer have, and the addresses they cache.\<close>

definition coherent_config :: "cache_config \<Rightarrow> bool" where
  "coherent_config c \<longleftrightarrow> built c \<and> cc_write c = WriteBack \<and> cc_allocation c = WriteAllocate"

definition cached_addresses :: "cache_config \<Rightarrow> u64 \<Rightarrow> bool" where
  "cached_addresses c = caches_line_containing (cache_bank_new c)"

lemma new_unified:
  assumes "map_home i r (cached_addresses c) [] m" "coherent_config c"
  shows "cached.uc_idle i r (cached_addresses c) (unified_cache_new m c)" "cached.uc_seen i (unified_cache_new m c) = slot_bytes i m"
    "cached.uc_client i r (cached_addresses c) (slot_bytes i m) (unified_cache_new m c)"
proof -
  have c: "built c" "cc_write c = WriteBack" "cc_allocation c = WriteAllocate" using assms(2) by (simp_all add: coherent_config_def)
  have b: "burst_state (map_home i r (cached_addresses c) []) (map_serves i r (cached_addresses c)) None m"
    using assms(1) by (simp add: burst_state_def)
  note n = cached.new_bank [OF c(1,2) cached_addresses_def [symmetric] b]
  have k: "cb_config (cache_bank_new c) = c" "cb_pending (cache_bank_new c) = None" by (simp_all add: cache_bank_new_def)
  show i: "cached.uc_idle i r (cached_addresses c) (unified_cache_new m c)"
    using n(1) k c(3) by (simp add: cached.uc_idle_def cached.uc_home_def unified_cache_new_def)
  show s: "cached.uc_seen i (unified_cache_new m c) = slot_bytes i m"
    using n(2) by (simp add: cached.uc_seen_def unified_cache_new_def)
  show "cached.uc_client i r (cached_addresses c) (slot_bytes i m) (unified_cache_new m c)"
    using i s by (simp add: cached.uc_client_def cached.uc_idle_def)
qed

lemma new_hierarchy:
  assumes "map_home i r (cached_addresses l2) [] m" "coherent_config l2" "built l1i" "coherent_config l1d"
    "\<forall>a. cached_addresses l1d a \<longrightarrow> cached_addresses l2 a"
  shows "first.sc_client i r (cached_addresses l2) (cached_addresses l1d) (slot_bytes i m)
    (split_cache_new (unified_cache_new m l2) l1i l1d)"
proof -
  have c: "built l1d" "cc_write l1d = WriteBack" "cc_allocation l1d = WriteAllocate" using assms(4) by (simp_all add: coherent_config_def)
  note u = new_unified [OF assms(1,2)]
  have region: "caches_line_containing (cache_bank_new l1d) = (\<lambda>a. cached_addresses l1d a \<and> cached_addresses l2 a)"
    using assms(5) by (auto simp: cached_addresses_def fun_eq_iff)
  have b: "burst_state (cached.uc_idle i r (cached_addresses l2)) (cached.uc_serves i r (cached_addresses l2)) None
      (unified_cache_new m l2)"
    using u(1) by (simp add: burst_state_def)
  note n = first.new_bank [OF c(1,2) region b]
  have k: "cb_config (cache_bank_new l1d) = l1d" "cb_pending (cache_bank_new l1d) = None" "cb_pending (cache_bank_new l1i) = None"
    by (simp_all add: cache_bank_new_def)
  show ?thesis
    using n k c(3) u(2) new_bank_shaped(1) [OF assms(3)] by (simp add: first.sc_client_def split_cache_new_def)
qed

subsection \<open>The properties\<close>

text \<open>
  C2. The cache hierarchy refines a memory of bytes. A client of the split cache over the unified
  cache over the memory map makes any sequence of aligned data accesses of cached addresses, and
  ticks, in any order, and may give up accesses that are \<open>Busy\<close>. No step panics, and every access is
  \<open>Busy\<close>, without effect, or has the result of the same access of a memory that initially holds the
  bytes of the device: hits, evictions, write-backs and refills of both levels cannot be seen. It
  holds for all geometries, associativities and replacement policies, with write-back and
  write-allocate data banks.
\<close>

theorem hierarchy_refines_memory:
  assumes "map_home i r (cached_addresses l2) [] m" "coherent_config l2" "built l1i" "coherent_config l1d"
    "\<forall>a. cached_addresses l1d a \<longrightarrow> cached_addresses l2 a"
    "\<forall>c. Some c \<in> set cs \<longrightarrow> access_fits (cached_addresses l1d) c \<and> \<not> is_fetch c"
  shows "\<exists>rs h. run_accesses (sc_ops (uc_ops (mm_ops device_ops))) cs (split_cache_new (unified_cache_new m l2) l1i l1d) =
      Some (rs, h) \<and>
    memory_run cs rs (slot_bytes i m)"
proof -
  have "(\<lambda>a. cached_addresses l1d a \<and> cached_addresses l2 a) = cached_addresses l1d" using assms(5) by (auto simp: fun_eq_iff)
  then show ?thesis
    using hierarchy.run_memory [OF new_hierarchy [OF assms(1-5)], of cs] assms(6) by simp
qed

text \<open>
  C3. The cache hierarchy answers. A client that repeats every access, with a tick after each
  \<open>Busy\<close>, gets an answer to each of any list of aligned data accesses of cached addresses, and the
  answers are those of the memory. In particular the loop of \<open>measure_load32\<close> and
  \<open>measure_store32\<close>, which has no bound in the code, ends.
\<close>

theorem hierarchy_answers:
  assumes "map_home i r (cached_addresses l2) [] m" "coherent_config l2" "built l1i" "coherent_config l1d"
    "\<forall>a. cached_addresses l1d a \<longrightarrow> cached_addresses l2 a"
    "\<forall>c \<in> set cs. access_fits (cached_addresses l1d) c \<and> \<not> is_fetch c"
  shows "\<exists>h. retry_all (sc_ops (uc_ops (mm_ops device_ops))) cs (split_cache_new (unified_cache_new m l2) l1i l1d) =
    Some (Inr (memory_answers cs (slot_bytes i m)), h)"
proof -
  have part: "(\<lambda>a. cached_addresses l1d a \<and> cached_addresses l2 a) = cached_addresses l1d" using assms(5) by (auto simp: fun_eq_iff)
  have "cb_pending (sc_data (split_cache_new (unified_cache_new m l2) l1i l1d)) = None"
    by (simp add: split_cache_new_def cache_bank_new_def)
  from hierarchy.retry_all_completes [OF new_hierarchy [OF assms(1-5)] this, of cs] show ?thesis
    using assms(6) part by auto
qed

subsection \<open>A sample hierarchy\<close>

text \<open>Two lines of eight bytes over sixteen bytes of slow memory, and first-level banks of one word.\<close>

definition sample_range :: address_range where
  "sample_range = \<lparr>range_start = 0, range_size = 16\<rparr>"

definition sample_l2 :: cache_config where
  "sample_l2 = with_store_allocation_policy WriteAllocate (with_write_policy WriteBack
     (the (Option.bind (cache_config_new 2 [sample_range]) (with_line_size 8))))"

definition sample_l1 :: cache_config where
  "sample_l1 = with_store_allocation_policy WriteAllocate (with_write_policy WriteBack (the (cache_config_new 1 [sample_range])))"

lemma sample_configs_eq:
  "sample_l2 = \<lparr>line_count = 2, line_size = 8, associativity = 1, cc_replacement = RoundRobin, cc_write = WriteBack,
     cc_allocation = WriteAllocate, cached_ranges = [sample_range]\<rparr>"
  "sample_l1 = \<lparr>line_count = 1, line_size = 4, associativity = 1, cc_replacement = RoundRobin, cc_write = WriteBack,
     cc_allocation = WriteAllocate, cached_ranges = [sample_range]\<rparr>"
  by (simp_all add: sample_l2_def sample_l1_def cache_config_new_def with_line_size_def with_write_policy_def
      with_store_allocation_policy_def validated_def valid_ranges_def sample_range_def word_bytes_def is_power_of_two.simps)

lemma sample_coherent: "coherent_config sample_l2" "coherent_config sample_l1"
proof -
  obtain c where c: "cache_config_new 2 [sample_range] = Some c"
    by (simp add: cache_config_new_def validated_def valid_ranges_def sample_range_def word_bytes_def)
  obtain d where d: "with_line_size 8 c = Some d"
    using c by (auto simp: cache_config_new_def validated_def valid_ranges_def sample_range_def word_bytes_def
        with_line_size_def is_power_of_two.simps)
  have "built d" using built_line_size [OF built_new [OF c] d] by simp
  then have "built (with_store_allocation_policy WriteAllocate (with_write_policy WriteBack d))"
    by (intro built_allocation built_write)
  moreover have "sample_l2 = with_store_allocation_policy WriteAllocate (with_write_policy WriteBack d)"
    using c d by (simp add: sample_l2_def)
  ultimately have "built sample_l2" by simp
  moreover have "cc_write sample_l2 = WriteBack" "cc_allocation sample_l2 = WriteAllocate" by (simp_all add: sample_configs_eq)
  ultimately show "coherent_config sample_l2" by (simp add: coherent_config_def)
  obtain e where e: "cache_config_new 1 [sample_range] = Some e"
    by (simp add: cache_config_new_def validated_def valid_ranges_def sample_range_def word_bytes_def)
  have "built e" using built_new [OF e] by simp
  then have "built (with_store_allocation_policy WriteAllocate (with_write_policy WriteBack e))"
    by (intro built_allocation built_write)
  moreover have "sample_l1 = with_store_allocation_policy WriteAllocate (with_write_policy WriteBack e)"
    using e by (simp add: sample_l1_def)
  ultimately have "built sample_l1" by simp
  moreover have "cc_write sample_l1 = WriteBack" "cc_allocation sample_l1 = WriteAllocate" by (simp_all add: sample_configs_eq)
  ultimately show "coherent_config sample_l1" by (simp add: coherent_config_def)
qed

lemma sample_region:
  assumes "built c" "cached_ranges c = [sample_range]" "cached_addresses c a"
  shows "range_contains sample_range a"
  using cacheable_address [OF new_bank_shaped(1) [OF assms(1)], of a] assms(2,3)
  by (simp add: cached_addresses_def caches_address_def config_caches_address_def cache_bank_new_def)

lemma sample_home: "map_home 0 sample_range (cached_addresses sample_l2) [] sample_map"
proof -
  have "range_contains sample_range a" if "cached_addresses sample_l2 a" for a
    by (rule sample_region [OF _ _ that]) (use sample_coherent(1) in \<open>simp_all add: coherent_config_def sample_configs_eq\<close>)
  moreover have "find_device_index a sample_map = Some 0" if "range_contains sample_range a" for a
    using that by (simp add: find_device_index_def sample_map_eq sample_range_def)
  ultimately show ?thesis
    using sample_map_ok sample_memory_slot
    by (auto simp: map_home_def bus_idle_def slot_bytes_def sample_range_def sample_map_eq memory_map_new_def)
qed

lemma sample_cached:
  assumes "c = sample_l1 \<or> c = sample_l2"
  shows "cached_addresses c a \<longleftrightarrow> a < 16"
proof
  assume "cached_addresses c a"
  then have "range_contains sample_range a"
    using sample_region [of c a] sample_coherent assms by (auto simp: coherent_config_def sample_configs_eq)
  then show "a < 16" by (simp add: range_contains_def range_end_def sample_range_def)
next
  assume "a < 16"
  then have "unat a < 16" by (simp add: word_less_nat_alt)
  moreover have "n < 16 \<Longrightarrow> n \<in> {0, 1, 2, 3, 4, 5, 6, 7, 8, 9, 10, 11, 12, 13, 14, 15}" for n :: nat
    by (simp only: insert_iff empty_iff) presburger
  ultimately have "unat a \<in> {0, 1, 2, 3, 4, 5, 6, 7, 8, 9, 10, 11, 12, 13, 14, 15}" by blast
  moreover have "a = of_nat (unat a)" by simp
  ultimately have "a \<in> {0, 1, 2, 3, 4, 5, 6, 7, 8, 9, 10, 11, 12, 13, 14, 15}"
    by (elim insertE emptyE) (simp_all only: of_nat_numeral of_nat_0 of_nat_1, simp_all)
  then show "cached_addresses c a"
    using assms
    by (elim insertE emptyE disjE) (simp_all add: cached_addresses_def caches_line_containing_def caches_line_def
        line_base_def cache_bank_new_def sample_configs_eq sample_range_def checked_add_def range_end_def)
qed

lemma sample_levels: "\<forall>a. cached_addresses sample_l1 a \<longrightarrow> cached_addresses sample_l2 a"
  using sample_cached by blast

lemma sample_fits:
  "access_fits (cached_addresses sample_l1) (Store32 0 v)" "access_fits (cached_addresses sample_l1) (Load8 2)"
  "access_fits (cached_addresses sample_l1) (Load32 12)"
proof -
  have "j = 0 \<or> j = 1 \<or> j = 2 \<or> j = 3" if "j < 4" for j :: nat using that by presburger
  then have "a + of_nat j < 16" if "j < 4" "a = 0 \<or> a = 12" for j :: nat and a :: u64
    using that by fastforce
  from this [of _ 0] this [of _ 12] show "access_fits (cached_addresses sample_l1) (Store32 0 v)" "access_fits (cached_addresses sample_l1) (Load8 2)"
      "access_fits (cached_addresses sample_l1) (Load32 12)"
    using sample_cached [of sample_l1] by (auto simp: access_fits_def)
qed

abbreviation sample_hierarchy :: "device memory_map unified_cache split_cache" where
  "sample_hierarchy \<equiv> split_cache_new (unified_cache_new sample_map sample_l2) sample_l1 sample_l1"

lemma sample_built: "built sample_l1"
  using sample_coherent(2) by (simp add: coherent_config_def)

text \<open>A store, a load of another line, which evicts it, and a load of a stored byte.\<close>

lemma hierarchy_refines_memory_witness:
  "\<exists>rs h. run_accesses (sc_ops (uc_ops (mm_ops device_ops)))
      [Some (Store32 0 0x11223344), None, Some (Load32 12), Some (Load8 2)] sample_hierarchy = Some (rs, h) \<and>
    memory_run [Some (Store32 0 0x11223344), None, Some (Load32 12), Some (Load8 2)] rs (slot_bytes 0 sample_map)"
  by (rule hierarchy_refines_memory [OF sample_home sample_coherent(1) sample_built sample_coherent(2) sample_levels])
    (use sample_fits in \<open>auto simp: is_fetch_def\<close>)

lemma hierarchy_answers_witness:
  "\<exists>h. retry_all (sc_ops (uc_ops (mm_ops device_ops))) [Store32 0 0x11223344, Load32 12, Load8 2] sample_hierarchy =
    Some (Inr [[], [0, 0, 0, 0], [0x22]], h)"
proof -
  have "memory_answers [Store32 0 0x11223344, Load32 12, Load8 2] (slot_bytes 0 sample_map) = [[], [0, 0, 0, 0], [0x22]]"
    by (simp add: memory_answer_def memory_effect_def stored_at le_bytes32_def slot_bytes_def sample_map_eq sample_slow_ram_def
        ram_new_def upt_rec ram_content_def)
  then show ?thesis
    using hierarchy_answers [OF sample_home sample_coherent(1) sample_built sample_coherent(2) sample_levels,
        of "[Store32 0 0x11223344, Load32 12, Load8 2]"] sample_fits
    by (simp add: is_fetch_def)
qed

end
