(* ===== verification/Virtual_Memory.thy ===== *)
theory Virtual_Memory
  imports Page_Walk Cached_System
begin

text \<open>
  Virtual memory on the cache hierarchy: a client translates every address with the page walker,
  which reads its tables through the caches, and makes the access at the physical address. The
  properties relate it to the specification of Sv32 on the bytes of the memory device.
\<close>

subsection \<open>Fences\<close>

text \<open>
  What a fence covers, by the specification: the pages that contain its address, if it has one, and
  are not global and belong to its address space, if it has one.
\<close>

definition fence_covers :: "translation_fence \<Rightarrow> u32 \<Rightarrow> u32 \<Rightarrow> nat \<Rightarrow> bool \<Rightarrow> bool" where
  "fence_covers fe sp va level shared \<longleftrightarrow>
     (case fence_virtual_address fe of
        None \<Rightarrow> True
      | Some v \<Rightarrow> unat v div 2 ^ (12 + 10 * level) = unat va div 2 ^ (12 + 10 * level)) \<and>
     (case fence_asid fe of None \<Rightarrow> True | Some asid \<Rightarrow> \<not> shared \<and> satp_asid sp = asid)"

text \<open>
  A change of the tables that a fence makes visible: every page that the fence does not cover is
  kept.
\<close>

definition covered_change :: "translation_fence \<Rightarrow> u32 set \<Rightarrow> (u64 \<Rightarrow> u8) \<Rightarrow> (u64 \<Rightarrow> u8) \<Rightarrow> bool" where
  "covered_change fe spaces f g \<longleftrightarrow>
     (\<forall>sp \<in> spaces. \<forall>va level a shared. sv32_leaf f sp va = Some (level, a, shared) \<longrightarrow>
        fence_covers fe sp va level shared \<or>
        sv32_leaf g sp va = Some (level, a, shared) \<and> memory_word g a = memory_word f a)"

lemma page_base:
  assumes "unat base div 2 ^ n = unat v div 2 ^ n" "base AND mask n = 0"
  shows "base = v AND NOT (mask n :: u32)"
proof -
  have "unat (drop_bit n base) = unat (drop_bit n v)" using assms(1) by (simp only: unat_drop_bit)
  then have d: "drop_bit n base = drop_bit n v" by (simp add: word_unat_eq_iff)
  show ?thesis
  proof (rule bit_word_eqI)
    fix k assume "k < LENGTH(32)"
    show "bit base k = bit (v AND NOT (mask n)) k"
    proof (cases "k < n")
      case True
      have "bit (base AND mask n) k = bit (0 :: u32) k" using assms(2) by simp
      then show ?thesis using True \<open>k < LENGTH(32)\<close> by (simp add: bit_simps)
    next
      case False
      have "bit (drop_bit n base) (k - n) = bit (drop_bit n v) (k - n)" using d by simp
      then show ?thesis using False \<open>k < LENGTH(32)\<close> by (simp add: bit_simps)
    qed
  qed
qed

text \<open>
  C15. A fence restores the agreement of the TLB with the tables. If the page tables change only in
  pages that the fence covers (by its address and its address space, and not global if it names an
  address space), then after the fence every entry that is left in the TLB is the page that the new
  tables have, in its address space, with its target and permissions. So the entries that
  \<open>matches_entry\<close> keeps are none too many.
\<close>

theorem fence_restores_tlb:
  assumes "tlb_sound f spaces w" "covered_change fe spaces f g"
  shows "tlb_sound g spaces (flush_fence fe w)"
proof -
  have "te_satp e \<in> spaces \<and> entry_sound g e" if "Some e \<in> set (tlb (flush_fence fe w))" for e
  proof -
    have e: "Some e \<in> set (tlb w)" "\<not> matches_entry fe e"
      using that by (auto simp: flush_fence_def split: if_splits option.splits)
    then obtain level a where s: "te_satp e \<in> spaces"
        "sv32_leaf f (te_satp e) (te_virtual_base e) = Some (level, a, te_global_mapping e)" "te_page_mask e = mask (12 + 10 * level)"
        "sv32_target level (memory_word f a) (te_virtual_base e) = Some (te_physical_base e)"
        "te_physical_base e AND te_page_mask e = 0" "te_virtual_base e AND te_page_mask e = 0"
        "\<forall>n. bit (te_flags e) n \<longrightarrow> bit (memory_word f a) n" "\<forall>n < 6. bit (te_flags e) n = bit (memory_word f a) n"
      using assms(1) by (auto simp: tlb_sound_def entry_sound_def)
    have "\<not> fence_covers fe (te_satp e) (te_virtual_base e) level (te_global_mapping e)"
    proof
      assume c: "fence_covers fe (te_satp e) (te_virtual_base e) level (te_global_mapping e)"
      have "matches_virtual_address fe e"
        using c page_base [OF _ s(6) [unfolded s(3)]] s(3)
        by (auto simp: fence_covers_def matches_virtual_address_def split: option.splits)
      moreover have "matches_asid fe e" using c by (auto simp: fence_covers_def matches_asid_def split: option.splits)
      ultimately show False using e(2) by (simp add: matches_entry_def)
    qed
    then have "sv32_leaf g (te_satp e) (te_virtual_base e) = Some (level, a, te_global_mapping e)" "memory_word g a = memory_word f a"
      using assms(2) s(1,2) unfolding covered_change_def by blast+
    then show ?thesis using s unfolding entry_sound_def by (intro conjI exI [of _ level] exI [of _ a]) auto
  qed
  then show ?thesis by (auto simp: tlb_sound_def)
qed

subsection \<open>A client of virtual memory\<close>

text \<open>
  An access whose address is virtual, made with the translation context of a request: its kind and
  address are the access's.
\<close>

definition virtual_request :: "translation_request \<Rightarrow> bus_access \<Rightarrow> translation_request" where
  "virtual_request r c = r\<lparr>rq_virtual_address := ucast (access_addr c),
     rq_access := (if is_fetch c then InstructionAccess else if written_bytes c = None then LoadMemory else StoreMemory)\<rparr>"

fun with_address :: "u64 \<Rightarrow> bus_access \<Rightarrow> bus_access" where
  "with_address a (Fetch32 _) = Fetch32 a"
| "with_address a (Load8 _) = Load8 a"
| "with_address a (Load16 _) = Load16 a"
| "with_address a (Load32 _) = Load32 a"
| "with_address a (Store8 _ v) = Store8 a v"
| "with_address a (Store16 _ v) = Store16 a v"
| "with_address a (Store32 _ v) = Store32 a v"

text \<open>The client repeats every translation and every access until it is answered; the result of an
  access is its page fault or its bytes.\<close>

fun virtual_all ::
  "('b, 'z) bus_ops_scheme \<Rightarrow> (translation_request \<times> bus_access) list \<Rightarrow> page_walker \<times> 'b \<Rightarrow>
   (bus_error + (trap + u8 list) list, page_walker \<times> 'b) outcome" where
  "virtual_all ops [] s = Some (Inr [], s)"
| "virtual_all ops ((r, c) # cs) s =
     and_then (retry_translate ops (virtual_request r c) (fst s) (snd s)) (\<lambda>t (w, b).
       case t of
         PhysicalAddress pa \<Rightarrow>
           (case retry_loop ops (access_bus ops (with_address (ucast pa) c)) 0 b of
              None \<Rightarrow> None
            | Some (Inl e, b) \<Rightarrow> Some (Inl e, (w, b))
            | Some (Inr (v, _), b) \<Rightarrow> and_then (virtual_all ops cs (w, b)) (\<lambda>vs s. Some (Inr (Inr v # vs), s)))
       | TranslationFault e \<Rightarrow> and_then (virtual_all ops cs (w, b)) (\<lambda>vs s. Some (Inr (Inl e # vs), s))
       | TranslationStall \<Rightarrow> None)"

text \<open>The same on a memory of bytes, with the translation that the specification gives.\<close>

fun virtual_answers :: "(translation_request \<times> bus_access) list \<Rightarrow> (u64 \<Rightarrow> u8) \<Rightarrow> (trap + u8 list) list" where
  "virtual_answers [] f = []"
| "virtual_answers ((r, c) # cs) f =
     (let g = sv32_effect f (virtual_request r c) in
      case sv32_answer f (virtual_request r c) of
        PhysicalAddress pa \<Rightarrow>
          Inr (memory_answer (with_address (ucast pa) c) g) # virtual_answers cs (memory_effect (with_address (ucast pa) c) g)
      | TranslationFault e \<Rightarrow> Inl e # virtual_answers cs g
      | TranslationStall \<Rightarrow> [])"

text \<open>
  What the client may do: its tables are in memory that the bus serves, its accesses are served, and
  it does not store into the tables of its address spaces.
\<close>

definition tables_kept :: "u32 set \<Rightarrow> (u64 \<Rightarrow> u8) \<Rightarrow> (u64 \<Rightarrow> u8) \<Rightarrow> bool" where
  "tables_kept spaces f g \<longleftrightarrow>
     (\<forall>sp \<in> spaces. \<forall>va. sv32_leaf g sp va = sv32_leaf f sp va \<and>
        (\<forall>level a shared. sv32_leaf f sp va = Some (level, a, shared) \<longrightarrow> memory_word g a = memory_word f a))"

fun virtual_fits ::
  "(bus_access \<Rightarrow> bool) \<Rightarrow> u32 set \<Rightarrow> (translation_request \<times> bus_access) list \<Rightarrow> (u64 \<Rightarrow> u8) \<Rightarrow> bool" where
  "virtual_fits allowed spaces [] f \<longleftrightarrow> True"
| "virtual_fits allowed spaces ((r, c) # cs) f \<longleftrightarrow>
     rq_satp r \<in> spaces \<and> tables_allowed allowed f (virtual_request r c) \<and>
     (let g = sv32_effect f (virtual_request r c) in
      case sv32_answer f (virtual_request r c) of
        PhysicalAddress pa \<Rightarrow>
          (let d = with_address (ucast pa) c in
           allowed d \<and> tables_kept spaces g (memory_effect d g) \<and> virtual_fits allowed spaces cs (memory_effect d g))
      | _ \<Rightarrow> virtual_fits allowed spaces cs g)"

lemma kept_sound:
  assumes "tables_kept spaces f g" "walker_sound allowed f spaces w" "active w = None"
  shows "walker_sound allowed g spaces w"
proof -
  have "entry_sound g e" if "te_satp e \<in> spaces" "entry_sound f e" for e
  proof -
    have k: "sv32_leaf g (te_satp e) va = sv32_leaf f (te_satp e) va"
      "sv32_leaf f (te_satp e) va = Some (level, a, shared) \<Longrightarrow> memory_word g a = memory_word f a" for va level a shared
      using assms(1) that(1) unfolding tables_kept_def by blast+
    from that(2) show ?thesis unfolding entry_sound_def using k by auto
  qed
  moreover have "globals_shared g spaces = globals_shared f spaces"
  proof -
    have "sv32_leaf g sp va = sv32_leaf f sp va" if "sp \<in> spaces" for sp va
      using assms(1) that unfolding tables_kept_def by blast
    then show ?thesis unfolding globals_shared_def by simp
  qed
  ultimately show ?thesis using assms(2,3) by (auto simp: walker_sound_def tlb_sound_def)
qed

context memory_bus begin

lemma virtual_all_completes:
  assumes "shows_memory f s" "quiet s" "walker_sound allowed f spaces w" "active w = None" "virtual_fits allowed spaces cs f"
  shows "\<exists>ws. virtual_all ops cs (w, s) = Some (Inr (virtual_answers cs f), ws)"
  using assms
proof (induction cs arbitrary: f w s)
  case (Cons rc cs)
  obtain r c where rc: "rc = (r, c)" by (cases rc)
  let ?r = "virtual_request r c"
  have fits: "rq_satp ?r \<in> spaces" "tables_allowed allowed f ?r" using Cons.prems(5) rc by (simp_all add: virtual_request_def)
  have ready: "walk_ready ?r w s" using ready_quiet [OF Cons.prems(2)] .
  obtain g w1 s1 where t: "retry_translate ops ?r w s = Some (Inr (sv32_answer g ?r), (w1, s1))" "drained f ?r w g"
      "shows_memory (sv32_effect g ?r) s1" "walker_sound allowed (sv32_effect g ?r) spaces w1" "active w1 = None"
      "quiet s1 \<or> active w = None \<and> s1 = s"
    using retry_translate_sound [OF Cons.prems(1,3) fits(2,1) ready] by blast
  have g: "g = f" using t(2) Cons.prems(4) by (simp add: drained_def)
  have q: "quiet s1" using t(6) Cons.prems(2) by blast
  let ?g = "sv32_effect f ?r"
  show ?case
  proof (cases "sv32_answer f ?r")
    case (PhysicalAddress pa)
    let ?d = "with_address (ucast pa) c"
    have d: "allowed ?d" "tables_kept spaces ?g (memory_effect ?d ?g)" "virtual_fits allowed spaces cs (memory_effect ?d ?g)"
      using Cons.prems(5) PhysicalAddress rc by (simp_all add: Let_def)
    obtain k s2 where a: "retry_loop ops (access_bus ops ?d) 0 s1 = Some (Inr (memory_answer ?d ?g, k), s2)"
        "shows_memory (memory_effect ?d ?g) s2" "quiet s2"
      using retry_completes [OF t(3) d(1) quiet_ready [OF q], of 0] g by blast
    have "walker_sound allowed (memory_effect ?d ?g) spaces w1" using kept_sound [OF d(2)] t(4,5) g by simp
    from Cons.IH [OF a(2,3) this t(5) d(3)] show ?thesis
      using t(1) a(1) g PhysicalAddress rc by (auto simp: Let_def)
  next
    case (TranslationFault e)
    then have "virtual_fits allowed spaces cs ?g" using Cons.prems(5) rc by (simp add: Let_def)
    from Cons.IH [OF t(3) [unfolded g] q t(4) [unfolded g] t(5) this] show ?thesis
      using t(1) g TranslationFault rc by (auto simp: Let_def)
  next
    case TranslationStall
    then show ?thesis by (simp add: sv32_answer_def split: if_splits sv32_result.splits)
  qed
qed simp

end

lemma default_sound:
  assumes "globals_shared f spaces"
  shows "walker_sound allowed f spaces page_walker_default" "active page_walker_default = None"
proof -
  show "active page_walker_default = None" by (simp add: page_walker_default_def)
  then show "walker_sound allowed f spaces page_walker_default"
    using assms walker_ok_default by (simp add: walker_sound_def tlb_sound_def page_walker_default_def)
qed

subsection \<open>The properties\<close>

abbreviation cached_data :: "cache_config \<Rightarrow> bus_access \<Rightarrow> bool" where
  "cached_data c a \<equiv> access_fits (cached_addresses c) a \<and> \<not> is_fetch a"

text \<open>
  C4. Address translation through the caches. A call of \<open>translate\<close>, whatever its walker has in the
  TLB and in progress (as long as both agree with the tables), does not panic. Either it stalls, and
  the memory that the caches show is unchanged, or it returns exactly what Sv32 specifies on that
  memory: the page fault of the request, or its physical address, and then the memory shown differs
  in the accessed and dirty bits of the leaf that the specification sets. The TLB agrees with the
  tables afterwards. An abandoned walk of another request (\<open>drained\<close>) may have marked its leaf first.
\<close>

theorem translate_refines_sv32:
  assumes "first.sc_client i rr region part f h" "walker_sound A f spaces w"
    "\<And>a. A a \<longleftrightarrow> access_fits (\<lambda>a. part a \<and> region a) a \<and> \<not> is_fetch a"
    "r = make_request c p va access" "tables_allowed A f r" "csr_read c Satp \<in> spaces"
  shows "\<exists>g res w' h'. drained f r w g \<and>
    translate (sc_ops (uc_ops (mm_ops device_ops))) c p va access (w, h) = Some (Inr res, (w', h')) \<and>
    (res = TranslationStall \<and> first.sc_client i rr region part g h' \<and> walker_sound A g spaces w' \<or>
     res = sv32_answer g r \<and> first.sc_client i rr region part (sv32_effect g r) h' \<and> walker_sound A (sv32_effect g r) spaces w')"
proof -
  have A: "A = (\<lambda>a. access_fits (\<lambda>a. part a \<and> region a) a \<and> \<not> is_fetch a)" using assms(3) by (simp add: fun_eq_iff)
  have sp: "rq_satp r \<in> spaces" using assms(4,6) by (simp add: make_request_def)
  have "wp (translate_loop (sc_ops (uc_ops (mm_ops device_ops))) r w h) (hierarchy.translated i rr region part f r spaces (w, h))"
    by (rule hierarchy.translate_loop_sound [OF assms(1) assms(2,5) [unfolded A] sp])
  then obtain res w' h' where call: "translate_loop (sc_ops (uc_ops (mm_ops device_ops))) r w h = Some (res, (w', h'))"
      "hierarchy.translated i rr region part f r spaces (w, h) res (w', h')"
    by (auto elim!: wp_elim)
  then obtain g where "drained f r w g"
      "res = Inr TranslationStall \<and> first.sc_client i rr region part g h' \<and> walker_sound A g spaces w' \<or>
        res = Inr (sv32_answer g r) \<and> first.sc_client i rr region part (sv32_effect g r) h' \<and>
          walker_sound A (sv32_effect g r) spaces w'"
    unfolding A hierarchy.translated_def fst_conv snd_conv by blast
  moreover have "translate (sc_ops (uc_ops (mm_ops device_ops))) c p va access (w, h) = Some (res, (w', h'))"
    using call assms(4) by (simp add: translate_def)
  ultimately show ?thesis by blast
qed

text \<open>
  C1. Virtual memory on the caches. The client first makes physical accesses (it sets up page
  tables), and then accesses of virtual addresses in any address spaces of \<open>spaces\<close>, each translated
  by the walker through the caches and repeated until it is answered. All of it ends, and every
  access has the result that Sv32 specifies on a flat memory: its page fault, or the bytes at its
  physical address, with the accessed and dirty bits set on the way. The TLB and two levels of caches
  cannot be seen.
\<close>

theorem virtual_memory_answers:
  assumes "map_home i r (cached_addresses l2) [] m" "coherent_config l2" "built l1i" "coherent_config l1d"
    "\<forall>a. cached_addresses l1d a \<longrightarrow> cached_addresses l2 a"
    "\<forall>c \<in> set cs. cached_data l1d c"
    "f = memory_effects cs (slot_bytes i m)" "globals_shared f spaces" "virtual_fits (cached_data l1d) spaces vs f"
  shows "\<exists>h s. retry_all (sc_ops (uc_ops (mm_ops device_ops))) cs (split_cache_new (unified_cache_new m l2) l1i l1d) =
      Some (Inr (memory_answers cs (slot_bytes i m)), h) \<and>
    virtual_all (sc_ops (uc_ops (mm_ops device_ops))) vs (page_walker_default, h) = Some (Inr (virtual_answers vs f), s)"
proof -
  have part: "(\<lambda>a. cached_addresses l1d a \<and> cached_addresses l2 a) = cached_addresses l1d" using assms(5) by (auto simp: fun_eq_iff)
  let ?h = "split_cache_new (unified_cache_new m l2) l1i l1d"
  have q: "cb_pending (sc_data ?h) = None" by (simp add: split_cache_new_def cache_bank_new_def)
  obtain h where h: "retry_all (sc_ops (uc_ops (mm_ops device_ops))) cs ?h = Some (Inr (memory_answers cs (slot_bytes i m)), h)"
      "first.sc_client i r (cached_addresses l2) (cached_addresses l1d) f h" "cb_pending (sc_data h) = None"
    using hierarchy.retry_all_completes [OF new_hierarchy [OF assms(1-5)] q, of cs] assms(6,7) part by auto
  note d = default_sound [OF assms(8)]
  show ?thesis
    using hierarchy.virtual_all_completes [OF h(2,3) d(1,2), of vs] assms(9) part h(1) by auto
qed

subsection \<open>Sample tables\<close>

text \<open>
  A root table in the page 1 and a table in the page 2 that maps two pages. For the fence: the TLB
  has both pages, and the table drops the first.
\<close>

abbreviation sample_tables :: "u64 \<Rightarrow> u8" where
  "sample_tables \<equiv> memory_effects [Store32 0x1000 0x801, Store32 0x2004 0x47, Store32 0x2008 0x4c7] (\<lambda>_. 0)"

abbreviation sample_unmapped :: "u64 \<Rightarrow> u8" where
  "sample_unmapped \<equiv> memory_effect (Store32 0x2004 0) sample_tables"

lemma sample_words:
  assumes "unat a mod 4 = 0"
  shows "memory_word sample_tables a = (if a = 0x2008 then 0x4c7 else if a = 0x2004 then 0x47 else if a = 0x1000 then 0x801 else 0)"
    "memory_word sample_unmapped a = (if a = 0x2004 then 0 else memory_word sample_tables a)"
proof -
  have z: "memory_word (\<lambda>_. 0) a = 0" by (simp add: memory_word_def from_le32_list_def from_le32_def)
  note st = memory_word_store [OF _ assms]
  show "memory_word sample_tables a = (if a = 0x2008 then 0x4c7 else if a = 0x2004 then 0x47 else if a = 0x1000 then 0x801 else 0)"
    using st [of "0x2008" "0x4c7"] st [of "0x2004" "0x47"] st [of "0x1000" "0x801"] z by (simp add: memory_effects_def)
  show "memory_word sample_unmapped a = (if a = 0x2004 then 0 else memory_word sample_tables a)"
    using st [of "0x2004" 0] by simp
qed

lemma entry_number:
  assumes "page < 1000"
  shows "unat (pte_address page level va) = page * 4096 + unat va div 2 ^ (12 + 10 * level) mod 1024 * 4"
proof -
  have n: "unat va div 2 ^ (12 + 10 * level) mod 1024 < 1024" by simp
  show ?thesis
    unfolding pte_address_def unat_of_nat using assms n by (intro mod_less [THEN trans]) simp_all
qed

lemma sample_leaf:
  assumes "f = sample_tables \<or> f = sample_unmapped"
  shows "sv32_leaf f 0x80000001 va =
    (if unat va div 2 ^ 22 \<noteq> 0 then None
     else if unat va div 2 ^ 12 mod 1024 = 1 \<and> memory_word f 0x2004 = 0x47 then Some (0, 0x2004, False)
     else if unat va div 2 ^ 12 mod 1024 = 2 then Some (0, 0x2008, False) else None)"
proof -
  let ?a = "sv32_root 0x80000001 va" and ?b = "pte_address 2 0 va"
  let ?n = "unat va div 2 ^ 22" and ?k = "unat va div 2 ^ 12 mod 1024"
  have "?n < 1024" using unat_u32 [of va] by (simp add: less_mult_imp_div_less)
  then have a: "unat ?a = 4096 + ?n * 4" using entry_number [of 1 1 va] by (simp add: sv32_root_def)
  have b: "unat ?b = 8192 + ?k * 4" using entry_number [of 2 0 va] by simp
  have words: "memory_word f x = (if x = 0x2008 then 0x4c7 else if x = 0x2004 then memory_word f 0x2004 else if x = 0x1000 then 0x801 else 0)"
      "memory_word f 0x2004 \<in> {0, 0x47}" if "unat x mod 4 = 0" for x
    using assms sample_words [OF that] sample_words [of "0x2004"] by auto
  have wa: "memory_word f ?a = (if ?n = 0 then 0x801 else 0)"
    using words(1) [of ?a] a \<open>?n < 1024\<close> by (auto simp: word_unat_eq_iff)
  have wb: "memory_word f ?b = (if ?k = 1 then memory_word f 0x2004 else if ?k = 2 then 0x4c7 else 0)"
    using words(1) [of ?b] b by (auto simp: word_unat_eq_iff)
  have bb: "?k = 1 \<Longrightarrow> ?b = 0x2004" "?k = 2 \<Longrightarrow> ?b = 0x2008" using b by (simp_all add: word_unat_eq_iff)
  have "?b = 0x1000 \<Longrightarrow> False" using b by (simp add: word_unat_eq_iff)
  have "sv32_leaf f 0x80000001 va = (if ?n \<noteq> 0 then None else sv32_from f va 0 False ?b)"
    using wa by (simp add: sv32_leaf_def sv32_from.simps [of _ _ "Suc 0"] pte_broken_def pte_leaf_def)
  moreover have "sv32_from f va 0 False ?b = (if ?k = 1 \<and> memory_word f 0x2004 = 0x47 then Some (0, 0x2004, False)
     else if ?k = 2 then Some (0, 0x2008, False) else None)"
    using words(2) [of 0] bb unfolding sv32_from.simps [of f va 0] wb Let_def
    by (auto simp: pte_broken_def pte_leaf_def)
  ultimately show ?thesis by simp
qed

text \<open>The TLB entries of the two pages, from their table entries.\<close>

abbreviation sample_entry :: "u32 \<Rightarrow> u32 \<Rightarrow> tlb_entry" where
  "sample_entry n p \<equiv> \<lparr>te_satp = 0x80000001, te_virtual_base = n * 0x1000, te_physical_base = (n - 1) * 0x1000,
     te_page_mask = 0xfff, te_flags = pte_flags p, te_global_mapping = False\<rparr>"

abbreviation sample_walker :: page_walker where
  "sample_walker \<equiv> page_walker_default\<lparr>tlb := [Some (sample_entry 1 0x47), Some (sample_entry 2 0x4c7), None]\<rparr>"

lemma sample_entry_sound: "entry_sound sample_tables (sample_entry 1 0x47)" "entry_sound sample_tables (sample_entry 2 0x4c7)"
proof -
  have m: "(0xfff :: u32) = mask 12" by (simp add: mask_eq_exp_minus_1)
  have s: "entry_sound sample_tables (sample_entry n p)"
    if "sv32_leaf sample_tables 0x80000001 (n * 0x1000) = Some (0, a, False)" "memory_word sample_tables a = p"
      "sv32_target 0 p (n * 0x1000) = Some ((n - 1) * 0x1000)" "n * 0x1000 AND mask 12 = 0" "(n - 1) * 0x1000 AND mask 12 = 0" for n p a
    unfolding entry_sound_def using that by (intro exI [of _ 0] exI [of _ a]) (simp add: m bit_pte_flags)
  have f: "sv32_leaf sample_tables 0x80000001 0x1000 = Some (0, 0x2004, False)"
      "sv32_leaf sample_tables 0x80000001 0x2000 = Some (0, 0x2008, False)"
    and w: "memory_word sample_tables 0x2004 = 0x47" "memory_word sample_tables 0x2008 = 0x4c7"
    using sample_leaf [of sample_tables "0x1000"] sample_leaf [of sample_tables "0x2000"]
      sample_words(1) [of "0x2004"] sample_words(1) [of "0x2008"] by simp_all
  show "entry_sound sample_tables (sample_entry 1 0x47)" "entry_sound sample_tables (sample_entry 2 0x4c7)"
    using s [of 1 "0x2004" "0x47"] s [of 2 "0x2008" "0x4c7"] f w by (simp_all add: sv32_target_def mask_eq_exp_minus_1)
qed

text \<open>The page 1 is dropped from the table, and a fence names it; the entry of the page 2 remains.\<close>

lemma fence_restores_tlb_witness:
  "tlb_sound sample_unmapped {0x80000001}
     (flush_fence \<lparr>fence_virtual_address = Some 0x1004, fence_asid = Some 0\<rparr> sample_walker) \<and>
   tlb (flush_fence \<lparr>fence_virtual_address = Some 0x1004, fence_asid = Some 0\<rparr> sample_walker) =
     [None, Some (sample_entry 2 0x4c7), None]"
  (is "tlb_sound _ _ (flush_fence ?fe _) \<and> _")
proof
  have "tlb_sound sample_tables {0x80000001} sample_walker" using sample_entry_sound by (auto simp: tlb_sound_def)
  moreover have "covered_change ?fe {0x80000001} sample_tables sample_unmapped"
  proof -
    have w: "memory_word sample_tables 0x2004 = 0x47" "memory_word sample_unmapped 0x2004 = 0"
        "memory_word sample_unmapped 0x2008 = memory_word sample_tables 0x2008"
      using sample_words [of "0x2004"] sample_words [of "0x2008"] by simp_all
    have "satp_asid 0x80000001 = 0" by (simp add: satp_asid_def)
    moreover have "unat va div 2 ^ 22 = 0 \<Longrightarrow> unat va div 2 ^ 12 mod 1024 = 1 \<Longrightarrow> unat va div 2 ^ 12 = 1" for va :: u32
      by simp
    ultimately show ?thesis
      unfolding covered_change_def using sample_leaf [of sample_tables] sample_leaf [of sample_unmapped] w
      by (auto simp: fence_covers_def split: if_splits)
  qed
  ultimately show "tlb_sound sample_unmapped {0x80000001} (flush_fence ?fe sample_walker)" by (rule fence_restores_tlb)
  show "tlb (flush_fence ?fe sample_walker) = [None, Some (sample_entry 2 0x4c7), None]"
    by (simp add: flush_fence_def fence_is_global_def matches_entry_def matches_virtual_address_def matches_asid_def satp_asid_def)
qed

subsection \<open>Translation on the sample hierarchy\<close>

text \<open>The tables are in the sixteen bytes of the sample memory: the root table and its table are the page 0.\<close>

abbreviation sample_request :: translation_request where
  "sample_request \<equiv> \<lparr>rq_satp = 0x80000000, rq_status = 0, rq_privilege = Supervisor, rq_virtual_address = 0, rq_access = LoadMemory\<rparr>"

abbreviation sample_setup :: "bus_access list" where
  "sample_setup \<equiv> [Store32 0 1, Store32 4 7, Store32 12 0x55]"

lemma sample_data: "a \<in> {0, 4, 8, 12} \<Longrightarrow> cached_data sample_l1 (Load32 a) \<and> cached_data sample_l1 (Store32 a v)"
proof -
  assume a: "a \<in> {0, 4, 8, 12}"
  have "j = 0 \<or> j = 1 \<or> j = 2 \<or> j = 3" if "j < 4" for j :: nat using that by presburger
  then have "a + of_nat j < 16" if "j < 4" for j :: nat using a that by fastforce
  moreover have "unat a mod 4 = 0" using a by auto
  ultimately show ?thesis using sample_cached [of sample_l1] by (auto simp: access_fits_def is_fetch_def)
qed

lemma sample_globals: "globals_shared f {sp}"
  by (simp add: globals_shared_def)

abbreviation sample_memory :: "u64 \<Rightarrow> u8" where
  "sample_memory \<equiv> memory_effects sample_setup (slot_bytes 0 sample_map)"

lemma sample_memory_words:
  assumes "a \<in> {0, 4, 8, 12}"
  shows "memory_word sample_memory a = (if a = 12 then 0x55 else if a = 4 then 7 else if a = 0 then 1 else 0)"
proof -
  have z: "memory_word (slot_bytes 0 sample_map) a = 0"
    using assms by (auto simp: memory_word_def slot_bytes_def sample_map_eq sample_slow_ram_def ram_new_def ram_content_def
        upt_rec from_le32_list_def from_le32_def)
  have al: "unat a mod 4 = 0" using assms by auto
  note st = memory_word_store [OF _ al]
  show ?thesis using st [of "12" "0x55"] st [of "4" "7"] st [of "0" "1"] z by (simp add: memory_effects_def)
qed

lemma marked_memory_words:
  "a \<in> {0, 4, 8, 12} \<Longrightarrow> memory_word (memory_effect (Store32 4 0x47) sample_memory) a = (if a = 4 then 0x47 else memory_word sample_memory a)"
  using memory_word_store [of 4 a "0x47" sample_memory] by auto

lemmas sample_walk = sv32_def virtual_request_def sv32_leaf_def sv32_root_def pte_address_def sv32_from.simps pte_broken_def
  pte_leaf_def is_fetch_def sv32_target_def sv32_permits_def sv32_marked_def

lemma sample_translations:
  "sv32 sample_memory (virtual_request sample_request (Load32 0x100c)) = Page 12 (Some (4, 0x47))"
  "sv32 (memory_effect (Store32 4 0x47) sample_memory) (virtual_request sample_request (Load32 0x100c)) = Page 12 None"
  "sv32 (memory_effect (Store32 4 0x47) sample_memory) (virtual_request sample_request (Load8 0x2000)) = Page_Fault"
  using sample_memory_words [of 0] sample_memory_words [of 4] sample_memory_words [of 8]
    marked_memory_words [of 0] marked_memory_words [of 4] marked_memory_words [of 8]
  by (simp_all add: sample_walk)

lemma sample_enabled: "translation_enabled (rq_satp (virtual_request sample_request c)) (rq_privilege (virtual_request sample_request c))"
  by (simp add: translation_enabled_def virtual_request_def)

lemma sample_tables_allowed:
  assumes "f = sample_memory \<or> f = memory_effect (Store32 4 0x47) sample_memory" "c = Load32 0x100c \<or> c = Load8 0x2000"
  shows "tables_allowed (cached_data sample_l1) f (virtual_request sample_request c)"
  using assms sample_data sample_memory_words [of 0] marked_memory_words [of 0]
  by (auto simp: tables_allowed_def virtual_request_def sv32_root_def pte_address_def entry_allowed_def pte_broken_def pte_leaf_def)

lemma load_word: "memory_answer (Load32 (ucast a)) f = le_bytes32 (memory_word f a)" "memory_effect (Load32 x) f = f" "memory_effect (Load8 x) f = f"
  by (simp_all add: memory_answer_def memory_effect_def memory_word_def)

text \<open>
  The client of the caches sets up the tables, and loads a word of the page 1 twice (the second time
  through the TLB), and a byte of a page that is not mapped.
\<close>

abbreviation sample_accesses :: "(translation_request \<times> bus_access) list" where
  "sample_accesses \<equiv> [(sample_request, Load32 0x100c), (sample_request, Load32 0x100c), (sample_request, Load8 0x2000)]"

lemma sample_answers:
  "virtual_answers sample_accesses sample_memory =
     [Inr [0x55, 0, 0, 0], Inr [0x55, 0, 0, 0], Inl (TrapException (LoadPageFault 0x2000))]"
  "virtual_fits (cached_data sample_l1) {0x80000000} sample_accesses sample_memory"
proof -
  have m: "memory_answer (Load32 12) (memory_effect (Store32 4 0x47) sample_memory) = [0x55, 0, 0, 0]"
    using load_word(1) [of 12 "memory_effect (Store32 4 0x47) sample_memory"] sample_memory_words [of 12] marked_memory_words [of 12]
    by (simp add: le_bytes32_def)
  have p: "page_fault (virtual_request sample_request (Load8 0x2000)) = TrapException (LoadPageFault 0x2000)"
    by (simp add: page_fault_def virtual_request_def is_fetch_def)
  note ev = sv32_answer_def sv32_effect_def sv32_walked_def sample_enabled sample_translations Let_def load_word(2,3)
  show "virtual_answers sample_accesses sample_memory =
     [Inr [0x55, 0, 0, 0], Inr [0x55, 0, 0, 0], Inl (TrapException (LoadPageFault 0x2000))]"
    using m p by (simp add: ev)
  have k: "tables_kept spaces f f" for spaces f by (simp add: tables_kept_def)
  show "virtual_fits (cached_data sample_l1) {0x80000000} sample_accesses sample_memory"
    using sample_tables_allowed sample_data [of 12] k by (simp add: ev)
qed

lemma virtual_memory_answers_witness:
  "\<exists>h s. retry_all (sc_ops (uc_ops (mm_ops device_ops))) sample_setup sample_hierarchy = Some (Inr [[], [], []], h) \<and>
    virtual_all (sc_ops (uc_ops (mm_ops device_ops))) sample_accesses (page_walker_default, h) =
    Some (Inr [Inr [0x55, 0, 0, 0], Inr [0x55, 0, 0, 0], Inl (TrapException (LoadPageFault 0x2000))], s)"
proof -
  have "\<forall>c \<in> set sample_setup. cached_data sample_l1 c" using sample_data by simp
  note virtual_memory_answers [OF sample_home sample_coherent(1) sample_built sample_coherent(2) sample_levels this refl
      sample_globals sample_answers(2)]
  then show ?thesis unfolding sample_answers(1) by (simp add: memory_answer_def)
qed

text \<open>The first call on the new hierarchy, with an address that is not mapped.\<close>

lemma translate_refines_sv32_witness:
  "\<exists>res w' h'. translate (sc_ops (uc_ops (mm_ops device_ops))) (csr_write Satp 0x80000000 csr_file_default) Supervisor 0x1000
      LoadMemory (page_walker_default, sample_hierarchy) = Some (Inr res, (w', h')) \<and>
    (res = TranslationStall \<or> res = TranslationFault (TrapException (LoadPageFault 0x1000)))"
proof -
  let ?f = "slot_bytes 0 sample_map" and ?c = "csr_write Satp 0x80000000 csr_file_default"
  let ?r = "make_request ?c Supervisor 0x1000 LoadMemory"
  have part: "(\<lambda>a. cached_addresses sample_l1 a \<and> cached_addresses sample_l2 a) = cached_addresses sample_l1"
    using sample_levels by (auto simp: fun_eq_iff)
  have r: "rq_satp ?r = 0x80000000" "rq_privilege ?r = Supervisor" "rq_virtual_address ?r = 0x1000" "rq_access ?r = LoadMemory"
    by (simp_all add: make_request_def csr_file_default_def effective_privilege_def)
  have z: "memory_word ?f 0 = 0"
    by (simp add: memory_word_def slot_bytes_def sample_map_eq sample_slow_ram_def ram_new_def ram_content_def
        upt_rec from_le32_list_def from_le32_def)
  have root: "sv32_root 0x80000000 0x1000 = 0" by (simp add: sv32_root_def pte_address_def)
  have t: "tables_allowed (cached_data sample_l1) ?f ?r"
    using sample_data [of 0] z root unfolding tables_allowed_def r by (simp add: entry_allowed_def pte_broken_def)
  have "sv32 ?f ?r = Page_Fault"
    using z root unfolding sv32_def sv32_leaf_def r by (simp add: sv32_from.simps pte_broken_def)
  then have a: "sv32_answer ?f ?r = TranslationFault (TrapException (LoadPageFault 0x1000))"
    using r by (simp add: sv32_answer_def translation_enabled_def page_fault_def)
  have A: "cached_data sample_l1 a \<longleftrightarrow> access_fits (\<lambda>a. cached_addresses sample_l1 a \<and> cached_addresses sample_l2 a) a \<and> \<not> is_fetch a" for a
    unfolding part by simp
  have sp: "csr_read ?c Satp \<in> {0x80000000}" by (simp add: csr_file_default_def)
  obtain g res w' h' where "drained ?f ?r page_walker_default g"
      "translate (sc_ops (uc_ops (mm_ops device_ops))) ?c Supervisor 0x1000 LoadMemory (page_walker_default, sample_hierarchy) =
        Some (Inr res, (w', h'))" "res = TranslationStall \<or> res = sv32_answer g ?r"
    using translate_refines_sv32 [OF new_hierarchy [OF sample_home sample_coherent(1) sample_built sample_coherent(2) sample_levels]
        default_sound(1) [OF sample_globals] A refl t sp] by blast
  then show ?thesis using a by (auto simp: drained_def page_walker_default_def)
qed

end
