(* ===== verification/Bench_Programs.thy ===== *)
theory Bench_Programs
  imports Execute Memory_System Sv32
begin

text \<open>
  The programs and page tables of the microbenchmarks (second half of
  \<open>apps/computer/src/microbench.rs\<close>): the encoders of the instructions they use, the programs, and
  the functions that write words and Sv32 mappings into a memory device. The encoders are proved
  against the RV32I formats of \<open>Decode\<close>, the mappings against the specification of \<open>Sv32\<close>. The
  constants of page-table entries are those of \<open>Mmu\<close>.
\<close>

definition RAM_BASE :: u64 where "RAM_BASE = 0x10000000"
definition MSIP_BASE :: u64 where "MSIP_BASE = 0x50000000"
abbreviation NOP :: u32 where "NOP \<equiv> 0x00000013"
abbreviation MRET :: u32 where "MRET \<equiv> 0x30200073"
abbreviation SATP_MODE_SV32 :: u32 where "SATP_MODE_SV32 \<equiv> 0x80000000"
definition VM_ROOT_TABLE_1 :: u64 where "VM_ROOT_TABLE_1 = RAM_BASE"
definition VM_LEAF_TABLE_1 :: u64 where "VM_LEAF_TABLE_1 = RAM_BASE + 0x1000"
definition VM_ROOT_TABLE_2 :: u64 where "VM_ROOT_TABLE_2 = RAM_BASE + 0x2000"
definition VM_LEAF_TABLE_2 :: u64 where "VM_LEAF_TABLE_2 = RAM_BASE + 0x3000"
definition VM_ROOT_TABLE_3 :: u64 where "VM_ROOT_TABLE_3 = RAM_BASE + 0x6000"
definition VM_PHYS_PAGE_A :: u64 where "VM_PHYS_PAGE_A = RAM_BASE + 0x4000"
definition VM_PHYS_PAGE_B :: u64 where "VM_PHYS_PAGE_B = RAM_BASE + 0x5000"
definition VM_PHYS_PAGE_C :: u64 where "VM_PHYS_PAGE_C = RAM_BASE + 0x7000"
definition VM_VIRTUAL_ADDR :: u32 where "VM_VIRTUAL_ADDR = 0x4000"
definition VM_VALUE_A :: u32 where "VM_VALUE_A = 0x11112222"
definition VM_VALUE_B :: u32 where "VM_VALUE_B = 0x33334444"
definition VM_VALUE_C :: u32 where "VM_VALUE_C = 0x77778888"
definition VM_SUPERPAGE_VIRTUAL_BASE :: u32 where "VM_SUPERPAGE_VIRTUAL_BASE = 0x00400000"
definition VM_SUPERPAGE_DATA_PHYSICAL_ADDR :: u64 where "VM_SUPERPAGE_DATA_PHYSICAL_ADDR = RAM_BASE + 0x8000"

lemmas bench_addresses = RAM_BASE_def MSIP_BASE_def VM_ROOT_TABLE_1_def VM_LEAF_TABLE_1_def VM_ROOT_TABLE_2_def VM_LEAF_TABLE_2_def
  VM_ROOT_TABLE_3_def VM_PHYS_PAGE_A_def VM_PHYS_PAGE_B_def VM_PHYS_PAGE_C_def VM_VIRTUAL_ADDR_def VM_SUPERPAGE_VIRTUAL_BASE_def
  VM_SUPERPAGE_DATA_PHYSICAL_ADDR_def

datatype microbench_error = BenchBus bus_error | BenchCpu cpu_error | BenchTimeout string

text \<open>The conversion of a bus error by the \<open>?\<close> operator.\<close>

definition bench_bus :: "(bus_error + 'a, 'd) outcome \<Rightarrow> (microbench_error + 'a, 'd) outcome" where
  "bench_bus x = map_option (\<lambda>(r, d). (map_sum BenchBus id r, d)) x"

subsection \<open>Encoders\<close>

definition encode_i :: "u16 \<Rightarrow> u8 \<Rightarrow> u32 \<Rightarrow> u8 \<Rightarrow> u32 \<Rightarrow> u32" where
  "encode_i imm rs1 funct3 rd opcode =
     push_bit 20 (ucast imm AND 0x0fff) OR push_bit 15 (ucast rs1) OR push_bit 12 funct3 OR push_bit 7 (ucast rd) OR opcode"

definition encode_addi :: "u8 \<Rightarrow> u8 \<Rightarrow> u16 \<Rightarrow> u32" where
  "encode_addi rd rs1 imm = encode_i imm rs1 0 rd 0x13"

definition encode_lw :: "u8 \<Rightarrow> u8 \<Rightarrow> u16 \<Rightarrow> u32" where
  "encode_lw rd rs1 imm = encode_i imm rs1 2 rd 0x03"

definition encode_sw :: "u8 \<Rightarrow> u8 \<Rightarrow> u16 \<Rightarrow> u32" where
  "encode_sw rs2 rs1 imm0 =
     (let imm = ucast imm0 :: u32 in
      push_bit 25 (drop_bit 5 imm AND 0x7f) OR push_bit 20 (ucast rs2) OR push_bit 15 (ucast rs1) OR push_bit 12 2
      OR push_bit 7 (imm AND 0x1f) OR 0x23)"

definition encode_lui :: "u8 \<Rightarrow> u32 \<Rightarrow> u32" where
  "encode_lui rd upper_20 = push_bit 12 upper_20 OR push_bit 7 (ucast rd) OR 0x37"

definition encode_jal :: "u8 \<Rightarrow> i32 \<Rightarrow> u32" where
  "encode_jal rd imm =
     (let bit20 = push_bit 31 (drop_bit 20 imm AND 0x1);
          bits10_1 = push_bit 21 (drop_bit 1 imm AND 0x03ff);
          bit11 = push_bit 20 (drop_bit 11 imm AND 0x1);
          bits19_12 = push_bit 12 (drop_bit 12 imm AND 0xff)
      in bit20 OR bits19_12 OR bit11 OR bits10_1 OR push_bit 7 (ucast rd) OR 0x6f)"

definition encode_csrrw :: "u8 \<Rightarrow> u16 \<Rightarrow> u8 \<Rightarrow> u32" where
  "encode_csrrw rd csr rs1 = push_bit 20 (ucast csr) OR push_bit 15 (ucast rs1) OR push_bit 12 1 OR push_bit 7 (ucast rd) OR 0x73"

definition encode_sfence_vma :: "u8 \<Rightarrow> u8 \<Rightarrow> u32" where
  "encode_sfence_vma rs1 rs2 = 0x12000073 OR push_bit 15 (ucast rs1) OR push_bit 20 (ucast rs2)"

subsection \<open>Programs\<close>

definition idle_interrupt_program :: "u32 list" where
  "idle_interrupt_program =
     [NOP, encode_jal 0 (- 4), NOP, NOP, NOP, NOP, NOP, NOP, encode_addi 10 10 1, MRET] @ replicate 4 NOP"

definition loaded_interrupt_program :: "u32 list" where
  "loaded_interrupt_program =
     [encode_lui 1 (ucast (drop_bit 12 RAM_BASE)), encode_lw 2 1 0, encode_jal 0 (- 4), NOP, NOP, NOP, NOP, NOP,
      encode_addi 10 10 1, MRET] @ replicate 4 NOP"

definition translation_program :: "u32 list" where
  "translation_program =
     [encode_lw 2 1 0, encode_addi 3 3 1, encode_lw 2 1 0, encode_addi 3 3 1, encode_csrrw 0 (csr_code Satp) 5,
      encode_lw 2 1 0, encode_addi 3 3 1, encode_csrrw 0 (csr_code Satp) 4, encode_lw 2 1 0, encode_addi 3 3 1,
      encode_sfence_vma 0 0, encode_lw 2 1 0, encode_addi 3 3 1, encode_jal 0 0]"

definition global_translation_program :: "u32 list" where
  "global_translation_program =
     [encode_lw 2 1 0, encode_addi 3 3 1, encode_lw 2 1 0, encode_addi 3 3 1, encode_csrrw 0 (csr_code Satp) 5,
      encode_lw 2 1 0, encode_addi 3 3 1, encode_jal 0 0]"

definition superpage_access_program :: "u32 list" where
  "superpage_access_program =
     [encode_lui 1 (drop_bit 12 (VM_SUPERPAGE_VIRTUAL_BASE + 0x8000)), encode_lw 10 1 0, encode_jal 0 0]"

definition namespace_preserve_program :: "u32 list" where
  "namespace_preserve_program =
     [encode_lw 10 1 0, encode_addi 3 3 1, encode_csrrw 0 (csr_code Satp) 5, encode_lw 11 1 0, encode_addi 3 3 1,
      encode_csrrw 0 (csr_code Mstatus) 7, encode_sw 6 4 0, encode_csrrw 0 (csr_code Mstatus) 8,
      encode_csrrw 0 (csr_code Satp) 9, encode_lw 12 1 0, encode_addi 3 3 1, encode_sfence_vma 0 0, encode_lw 13 1 0,
      encode_addi 3 3 1, encode_jal 0 0]"

subsection \<open>Memory images\<close>

definition write_word ::
  "('d, 'z) addressable_scheme \<Rightarrow> u64 \<Rightarrow> u32 \<Rightarrow> 'd \<Rightarrow> (microbench_error + unit, 'd) outcome" where
  "write_word dev addr v d = bench_bus (store_each (ad_store8 dev) addr (le_bytes32 v) d)"

definition install_sv32_mapping ::
  "('d, 'z) addressable_scheme \<Rightarrow> u64 \<Rightarrow> u64 \<Rightarrow> u32 \<Rightarrow> u32 \<Rightarrow> u32 \<Rightarrow> 'd \<Rightarrow> (microbench_error + unit, 'd) outcome" where
  "install_sv32_mapping dev root_table leaf_table virtual_address physical_address flags d =
     (let root_index = ucast (drop_bit 22 virtual_address AND 0x3ff);
          leaf_index = ucast (drop_bit 12 virtual_address AND 0x3ff);
          root_pte = PTE_V OR push_bit 10 (drop_bit 12 (ucast leaf_table :: u32));
          leaf_pte = PTE_V OR flags OR push_bit 10 (drop_bit 12 physical_address)
      in and_then (write_word dev (root_table + root_index * 4) root_pte d) (\<lambda>_ d.
           write_word dev (leaf_table + leaf_index * 4) leaf_pte d))"

definition install_sv32_superpage_mapping ::
  "('d, 'z) addressable_scheme \<Rightarrow> u64 \<Rightarrow> u32 \<Rightarrow> u32 \<Rightarrow> u32 \<Rightarrow> 'd \<Rightarrow> (microbench_error + unit, 'd) outcome" where
  "install_sv32_superpage_mapping dev root_table virtual_address physical_base flags d =
     (let root_index = ucast (drop_bit 22 virtual_address AND 0x3ff);
          root_pte = PTE_V OR flags OR push_bit 10 (drop_bit 12 physical_base)
      in write_word dev (root_table + root_index * 4) root_pte d)"

definition sv32_satp_with_asid :: "u64 \<Rightarrow> u32 \<Rightarrow> u32" where
  "sv32_satp_with_asid root_table asid = SATP_MODE_SV32 OR push_bit 22 asid OR drop_bit 12 (ucast root_table)"

subsection \<open>The encoders follow the formats\<close>

lemma register_ucast:
  assumes "unat (r :: u8) < 32"
  shows "(ucast r :: u32) = ucast (ucast r :: reg)" "(ucast (ucast r :: reg) :: u8) = r"
proof -
  have "unat (take_bit 5 r) = take_bit 5 (unat r)" by (rule unsigned_take_bit_eq)
  also have "\<dots> = unat r" using assms by (simp only: take_bit_eq_mod) simp
  finally have "take_bit 5 r = r" by (simp only: word_unat_eq_iff)
  then have b: "bit r n \<Longrightarrow> n < 5" for n by (metis bit_take_bit_iff)
  show "(ucast r :: u32) = ucast (ucast r :: reg)" "(ucast (ucast r :: reg) :: u8) = r"
    by (rule bit_word_eqI, use b in \<open>auto simp: bit_simps\<close>)+
qed

lemma imm12_split:
  "push_bit 20 (ucast (imm :: u16) AND 0xfff :: u32) =
     push_bit 20 (ucast (ucast (ucast imm :: 12 word) :: reg)) OR
     push_bit 25 (ucast (ucast (drop_bit 5 (ucast imm :: 12 word)) :: 7 word))"
proof -
  have m: "(0xfff :: u32) = mask 12" by (simp add: mask_eq_exp_minus_1)
  show ?thesis
    unfolding m
  proof (rule bit_word_eqI)
    fix n
    show "bit (push_bit 20 (ucast imm AND mask 12 :: u32)) n =
      bit (push_bit 20 (ucast (ucast (ucast imm :: 12 word) :: reg)) OR
        push_bit 25 (ucast (ucast (drop_bit 5 (ucast imm :: 12 word)) :: 7 word)) :: u32) n" if "n < LENGTH(32)"
    proof (cases "n < 25")
      case False
      then obtain k where "n = 25 + k" using le_Suc_ex [of 25 n] by auto
      then show ?thesis using that by (auto simp: bit_simps)
    qed (use that in \<open>auto simp: bit_simps\<close>)
  qed
qed

lemma narrow_register: "(ucast (ucast r :: u8) :: u32) = ucast (r :: reg)"
  by (rule bit_word_eqI) (auto simp: bit_simps dest: bit_imp_le_length)

lemma encode_i_format:
  "encode_i imm (ucast rs1) (ucast (f3 :: 3 word)) (ucast rd) (ucast (op :: 7 word)) = enc_i (ucast imm) rs1 f3 rd op"
  unfolding encode_i_def enc_i_def Decode.fields_def imm12_split narrow_register by (simp only: ac_simps)

lemma encode_lui_format: "encode_lui (ucast rd) (ucast imm) = encode (ALui rd imm)"
  unfolding encode_lui_def encode.simps enc_u_def narrow_register by (simp add: or.left_commute or.commute)

lemma encode_addi_format: "encode_addi (ucast rd) (ucast rs1) imm = encode (AAddi rd rs1 (ucast imm))"
  using encode_i_format [of imm rs1 0 rd "0x13"] by (simp add: encode_addi_def)

lemma encode_lw_format: "encode_lw (ucast rd) (ucast rs1) imm = encode (ALoad LoadWord rd rs1 (ucast imm))"
  using encode_i_format [of imm rs1 2 rd "0x03"] by (simp add: encode_lw_def)

lemma encode_csrrw_format: "encode_csrrw (ucast rd) (csr_code a) (ucast rs1) = encode (ACsr ReadWrite rd rs1 a)"
proof -
  have "(ucast (csr_code a) AND 0x0fff :: u32) = ucast (csr_code a)" by (cases a) simp_all
  then have "encode_csrrw (ucast rd) (csr_code a) (ucast rs1) = encode_i (csr_code a) (ucast rs1) 1 (ucast rd) 0x73"
    by (simp add: encode_csrrw_def encode_i_def)
  then show ?thesis using encode_i_format [of "csr_code a" rs1 1 rd "0x73"] by simp
qed

lemma encode_sfence_format: "encode_sfence_vma (ucast rs1) (ucast rs2) = encode (ASfenceVma rs1 rs2)"
proof -
  have k: "(0x12000073 :: u32) = ucast (0x73 :: 7 word) OR push_bit 25 (ucast (9 :: 7 word))" by simp
  have z: "push_bit 7 (ucast (0 :: reg)) = (0 :: u32)" "push_bit 12 (ucast (0 :: 3 word)) = (0 :: u32)" by simp_all
  show ?thesis
    unfolding encode_sfence_vma_def encode.simps Decode.fields_def narrow_register k z
    by (simp only: or.right_neutral or.left_neutral ac_simps)
qed

lemma encode_sw_format: "encode_sw (ucast rs2) (ucast rs1) (scast imm) = encode (AStore StoreWord rs1 rs2 imm)"
proof -
  have m: "(0x7f :: u32) = mask 7" "(0x1f :: u32) = mask 5" by (simp_all add: mask_eq_exp_minus_1)
  have hi: "(drop_bit 5 (ucast (scast imm :: u16)) AND 0x7f :: u32) = ucast (ucast (drop_bit 5 imm) :: 7 word)" for imm :: "12 word"
    unfolding m by (rule bit_word_eqI) (auto simp: bit_simps)
  have lo: "(ucast (scast imm :: u16) AND 0x1f :: u32) = ucast (ucast imm :: reg)" for imm :: "12 word"
    unfolding m by (rule bit_word_eqI) (auto simp: bit_simps)
  have c: "(push_bit 12 2 :: u32) = push_bit 12 (ucast (2 :: 3 word))" "(0x23 :: u32) = ucast (0x23 :: 7 word)" by simp_all
  show ?thesis
    unfolding encode_sw_def encode.simps enc_s_def Decode.fields_def Let_def hi lo narrow_register store_funct3.simps c
    by (simp only: ac_simps)
qed

lemma encode_jal_format: "encode_jal (ucast rd) (push_bit 1 (scast imm)) = encode (AJal rd imm)"
proof -
  define d :: u32 where "d = push_bit 1 (scast imm)"
  have d: "bit d n \<longleftrightarrow> 1 \<le> n \<and> n < 32 \<and> bit (scast imm :: u32) (n - 1)" for n
    unfolding d_def by (simp only: bit_push_bit_iff) (auto dest: bit_imp_le_length)
  have m: "(0x3ff :: u32) = mask 10" "(0xff :: u32) = mask 8" "(1 :: u32) = mask 1" by (simp_all add: mask_eq_exp_minus_1)
  have parts: "drop_bit 20 d AND 1 = ucast (drop_bit 19 imm) AND 1" "drop_bit 1 d AND 0x3ff = ucast imm AND 0x3ff"
    "drop_bit 11 d AND 1 = ucast (drop_bit 10 imm) AND 1" "drop_bit 12 d AND 0xff = ucast (drop_bit 11 imm) AND 0xff"
    unfolding m by (rule bit_word_eqI, auto simp: d bit_simps)+
  have c: "(0x6f :: u32) = ucast (0x6f :: 7 word)" by simp
  show ?thesis
    unfolding encode_jal_def encode.simps enc_j_def Let_def d_def [symmetric] parts narrow_register c by (simp only: ac_simps)
qed

text \<open>
  C33. The instructions of the microbenchmarks are what their encoders say: with register numbers
  below 32 and an immediate of the width of its format (twelve bits, twenty bits, an even jump
  offset), every encoded word decodes to the instruction, the registers and the immediate it was
  encoded from.
\<close>

theorem bench_encoders_decode:
  assumes "unat rd < 32" "unat rs1 < 32" "unat rs2 < 32"
  shows "decode (encode_addi rd rs1 (scast (k :: 12 word))) p =
      Inr (new_decoded (encode_addi rd rs1 (scast k)) p (OpImm Add) (Some rd) (Some rs1) None (scast k) None) \<and>
    decode (encode_lw rd rs1 (scast k)) p =
      Inr (new_decoded (encode_lw rd rs1 (scast k)) p (Load LoadWord) (Some rd) (Some rs1) None (scast k) None) \<and>
    decode (encode_sw rs2 rs1 (scast k)) p =
      Inr (new_decoded (encode_sw rs2 rs1 (scast k)) p (Store StoreWord) None (Some rs1) (Some rs2) (scast k) None) \<and>
    decode (encode_lui rd (ucast (u :: 20 word))) p =
      Inr (new_decoded (encode_lui rd (ucast u)) p Lui (Some rd) None None (push_bit 12 (ucast u)) None) \<and>
    decode (encode_jal rd (push_bit 1 (scast u))) p =
      Inr (new_decoded (encode_jal rd (push_bit 1 (scast u))) p Jal (Some rd) None None (push_bit 1 (scast u)) None) \<and>
    decode (encode_csrrw rd (csr_code a) rs1) p =
      Inr (new_decoded (encode_csrrw rd (csr_code a) rs1) p (Csr ReadWrite) (Some rd) (Some rs1) None 0 (Some a)) \<and>
    decode (encode_sfence_vma rs1 rs2) p =
      Inr (new_decoded (encode_sfence_vma rs1 rs2) p (System SfenceVma) None (Some rs1) (Some rs2) 0 None)"
proof -
  define d r1 r2 where "d = (ucast rd :: reg)" and "r1 = (ucast rs1 :: reg)" and "r2 = (ucast rs2 :: reg)"
  have r: "rd = ucast d" "rs1 = ucast r1" "rs2 = ucast r2"
    using register_ucast(2) assms by (simp_all add: d_def r1_def r2_def)
  have k: "(ucast (scast k :: u16) :: 12 word) = k" by (rule bit_word_eqI) (auto simp: bit_simps)
  show ?thesis
    unfolding r encode_addi_format encode_lw_format encode_sw_format encode_lui_format encode_jal_format encode_csrrw_format
      encode_sfence_format k decode_assembled assembled.simps by (intro conjI refl)
qed

lemma bench_encoders_decode_witness:
  "decode (encode_addi 10 10 1) 0x20 =
    Inr (new_decoded (encode_addi 10 10 1) 0x20 (OpImm Add) (Some 10) (Some 10) None 1 None) \<and>
   decode (encode_jal 0 (- 4)) 4 = Inr (new_decoded (encode_jal 0 (- 4)) 4 Jal (Some 0) None None (- 4) None)"
  using bench_encoders_decode [of 10 10 0 1 "0x20" 0 Satp] bench_encoders_decode [of 0 0 0 0 4 "- 2" Satp] by simp

subsection \<open>The tables map what they are given\<close>

context byte_memory begin

lemma store_each_content:
  "dinv d \<Longrightarrow> (\<forall>k < length vs. range_contains (ad_range dev d) (a + of_nat k)) \<Longrightarrow>
    \<exists>d'. store_each (ad_store8 dev) a vs d = Some (Inr (), d') \<and> dinv d' \<and> content d' = stored a vs (content d) \<and>
      ad_range dev d' = ad_range dev d"
proof (induction vs arbitrary: a d)
  case (Cons v vs)
  have c: "range_contains (ad_range dev d) a" using Cons.prems(2) [rule_format, of 0] by simp
  obtain r d1 where d1: "ad_store8 dev a v d = Some (r, d1)" "dinv d1"
    using store8_dev [OF Cons.prems(1), of a v] by (auto elim!: wp_elim)
  have s: "r = Inr ()" "content d1 = (content d)(a := v)" "ad_range dev d1 = ad_range dev d"
    using store_content [OF Cons.prems(1) c, of v] d1(1) by simp_all
  have "\<forall>k < length vs. range_contains (ad_range dev d1) (a + 1 + of_nat k)"
    using Cons.prems(2) [rule_format, of "Suc k" for k] s(3) by (simp add: add.assoc)
  from Cons.IH [OF d1(2) this] obtain d2 where "store_each (ad_store8 dev) (a + 1) vs d1 = Some (Inr (), d2)" "dinv d2"
      "content d2 = stored (a + 1) vs (content d1)" "ad_range dev d2 = ad_range dev d1"
    by blast
  then show ?case using d1 s by (intro exI [of _ d2]) simp
qed simp

lemma write_word_content:
  assumes "dinv d" "\<forall>k < 4. range_contains (ad_range dev d) (a + of_nat k)"
  shows "\<exists>d'. write_word dev a v d = Some (Inr (), d') \<and> dinv d' \<and> content d' = memory_effect (Store32 a v) (content d) \<and>
    ad_range dev d' = ad_range dev d"
  using store_each_content [of d "le_bytes32 v" a] assms by (auto simp: write_word_def bench_bus_def memory_effect_def)

end

lemma satp_page:
  assumes "unat root < 2 ^ 32"
  shows "unat (sv32_satp_with_asid root asid) mod 2 ^ 22 = unat root div 2 ^ 12"
proof -
  have "take_bit 22 (unat (sv32_satp_with_asid root asid)) = unat (drop_bit 12 (ucast root :: u32))"
  proof -
    have h: "(0x80000000 :: u32) = push_bit 31 1" by simp
    have "\<not> bit (ucast root :: u32) (12 + n)" if "20 \<le> n" for n using that by (auto simp: bit_simps)
    then have "take_bit 22 (sv32_satp_with_asid root asid) = drop_bit 12 (ucast root)"
      unfolding sv32_satp_with_asid_def h by (intro bit_word_eqI) (auto simp: bit_simps)
    then show ?thesis unfolding unsigned_take_bit_eq [symmetric] by (rule arg_cong)
  qed
  moreover have "unat (ucast root :: u32) = unat root" using assms by (simp add: unsigned_ucast_eq take_bit_eq_mod)
  ultimately show ?thesis by (simp only: unat_drop_bit take_bit_eq_mod)
qed

lemma entry_place:
  assumes "unat (table :: u64) < 2 ^ 32" "unat table mod 2 ^ 12 = 0"
  shows "unat (pte_address (unat table div 2 ^ 12) level va) = unat table + unat va div 2 ^ (12 + 10 * level) mod 2 ^ 10 * 4"
    "unat table + unat va div 2 ^ (12 + 10 * level) mod 2 ^ 10 * 4 < 2 ^ 32"
proof -
  let ?n = "unat va div 2 ^ (12 + 10 * level) mod 2 ^ 10"
  have n: "?n < 1024" by simp
  have t: "unat table div 2 ^ 12 * 2 ^ 12 = unat table" using assms(2) by (metis div_mult_mod_eq add.right_neutral)
  have "unat table div 2 ^ 12 < 2 ^ 20" using assms(1) by (simp add: less_mult_imp_div_less)
  then have "unat table div 2 ^ 12 * 2 ^ 12 + 2 ^ 12 \<le> 2 ^ 20 * 2 ^ 12" by simp
  then show less: "unat table + ?n * 4 < 2 ^ 32" unfolding t using n by simp
  then show "unat (pte_address (unat table div 2 ^ 12) level va) = unat table + ?n * 4"
    unfolding pte_address_def t unat_of_nat by simp
qed

lemma index_less: "unat (x AND 0x3ff) < 1024" for x :: u32
proof -
  have "unat (of_nat (unat x mod 2 ^ 10) :: u32) = unat x mod 2 ^ 10" by (rule unat_of_small [of _ x]) simp
  then show ?thesis unfolding word_mod_div(1) by simp
qed

lemma entry_address:
  assumes "unat (table :: u64) < 2 ^ 32" "unat table mod 2 ^ 12 = 0"
  shows "(ucast (pte_address (unat table div 2 ^ 12) level va) :: u64) =
    table + ucast (drop_bit (12 + 10 * level) va AND 0x3ff) * 4"
proof -
  let ?x = "drop_bit (12 + 10 * level) va AND 0x3ff" and ?n = "unat va div 2 ^ (12 + 10 * level) mod 2 ^ 10"
  note place = entry_place [OF assms, where level = level and va = va]
  have "unat ?x = ?n"
    unfolding word_mod_div(1) unat_drop_bit by (rule unat_of_small [of _ va]) (meson div_le_dividend le_trans mod_less_eq_dividend)
  then have "unat (ucast ?x :: u64) = ?n"
    by (simp add: unsigned_ucast_eq take_bit_eq_mod)
  then have "unat (table + ucast ?x * 4) = unat table + ?n * 4"
    using place(2) by (simp add: unat_word_ariths)
  moreover have "unat (ucast (pte_address (unat table div 2 ^ 12) level va) :: u64) = unat table + ?n * 4"
    using place by (simp add: unsigned_ucast_eq take_bit_eq_mod)
  ultimately show ?thesis by (simp only: word_unat_eq_iff)
qed

lemma pages_apart:
  fixes x y n k :: nat
  assumes "4096 * x + n * 4 = 4096 * y + k * 4" "n < 1024" "k < 1024"
  shows "x = y"
proof -
  have "(4096 * x + n * 4) div 4096 = x" "(4096 * y + k * 4) div 4096 = y" using assms(2,3) by simp_all
  then show ?thesis using assms(1) by simp
qed

lemma page_multiple: "n mod 2 ^ 12 = 0 \<Longrightarrow> \<exists>x. n = 4096 * x" for n :: nat
  by (auto simp: mod_eq_0_iff_dvd dvd_def)

lemma page_entry:
  fixes flags :: u32
  assumes "flags < 0x400"
  shows "bit (1 OR flags OR push_bit 10 (drop_bit 12 page)) n \<longleftrightarrow>
      n = 0 \<or> bit flags n \<or> 10 \<le> n \<and> n < 32 \<and> bit (drop_bit 12 (page :: u32)) (n - 10)"
    "unat (1 OR flags OR push_bit 10 (drop_bit 12 page)) div 2 ^ 10 = unat page div 2 ^ 12"
proof -
  let ?p = "1 OR flags OR push_bit 10 (drop_bit 12 page)"
  have "take_bit 10 flags = flags" using assms by (simp add: less_mask_eq take_bit_eq_mask)
  then have f: "bit flags n \<Longrightarrow> n < 10" for n by (metis bit_take_bit_iff)
  show b: "bit ?p n \<longleftrightarrow> n = 0 \<or> bit flags n \<or> 10 \<le> n \<and> n < 32 \<and> bit (drop_bit 12 page) (n - 10)" for n
    by (auto simp: bit_or_iff bit_1_iff bit_push_bit_iff)
  have "drop_bit 10 ?p = drop_bit 12 page"
  proof (rule bit_word_eqI)
    fix n assume n: "n < LENGTH(32)"
    have "bit (drop_bit 10 ?p) n = bit ?p (10 + n)" by (simp only: bit_drop_bit_eq o_apply)
    also have "\<dots> = bit (drop_bit 12 page) n" unfolding b using f [of "10 + n"] by (auto simp: bit_simps dest: bit_imp_le_length)
    finally show "bit (drop_bit 10 ?p) n = bit (drop_bit 12 page) n" .
  qed
  then have "unat (drop_bit 10 ?p) = unat (drop_bit 12 page)" by (rule arg_cong)
  then show "unat ?p div 2 ^ 10 = unat page div 2 ^ 12" by (simp only: unat_drop_bit)
qed

lemma entry_fits:
  fixes t :: u64 and x :: u32
  assumes "k < 4" "x < 0x400" "\<And>k. k < 4096 \<Longrightarrow> range_contains rg (t + of_nat k)"
  shows "range_contains rg (t + ucast x * 4 + of_nat k)"
proof -
  have "unat x < 1024" using assms(2) by (simp add: word_less_nat_alt)
  then have "unat x * 4 + k < 4096" using assms(1) by linarith
  moreover have "(of_nat (unat x * 4 + k) :: u64) = ucast x * 4 + of_nat k" by simp
  ultimately show ?thesis using assms(3) [of "unat x * 4 + k"] by (simp add: add.assoc)
qed

lemma entries_apart:
  assumes "unat (root :: u64) < 2 ^ 32" "unat (leaf :: u64) < 2 ^ 32" "unat root mod 2 ^ 12 = 0" "unat leaf mod 2 ^ 12 = 0"
    "root \<noteq> leaf"
  shows "pte_address (unat root div 2 ^ 12) 1 va \<noteq> pte_address (unat leaf div 2 ^ 12) 0 va"
proof
  let ?n = "unat va div 2 ^ 22 mod 1024" and ?k = "unat va div 2 ^ 12 mod 1024"
  assume "pte_address (unat root div 2 ^ 12) 1 va = pte_address (unat leaf div 2 ^ 12) 0 va"
  then have "unat root + ?n * 4 = unat leaf + ?k * 4"
    using entry_place(1) [OF assms(1,3), where level = 1 and va = va] entry_place(1) [OF assms(2,4), where level = 0 and va = va]
    by simp
  moreover obtain x y where xy: "unat root = 4096 * x" "unat leaf = 4096 * y"
    using page_multiple [OF assms(3)] page_multiple [OF assms(4)] by blast
  moreover have "?n < 1024" "?k < 1024" by simp_all
  ultimately have "x = y" using pages_apart [of x ?n y ?k] by simp
  then show False using xy assms(5) by (simp add: word_unat_eq_iff)
qed

lemma page_target:
  assumes "unat p div 2 ^ 10 = unat pa div 2 ^ 12"
  shows "sv32_target 0 p va = Some ((pa AND NOT 0xfff) OR (va AND 0xfff))"
proof -
  have m: "(0xfff :: u32) = mask 12" by (simp add: mask_eq_exp_minus_1)
  have "(of_nat (unat pa div 2 ^ 12 * 2 ^ 12) :: u32) = push_bit 12 (drop_bit 12 pa)"
    by (simp add: push_bit_eq_mult word_mod_div(4))
  moreover have "push_bit 12 (drop_bit 12 pa) = pa AND NOT (mask 12)" by (rule bit_word_eqI) (auto simp: bit_simps)
  moreover have "push_bit 12 (drop_bit 12 pa) OR (va AND mask 12) = push_bit 12 (drop_bit 12 pa) + (va AND mask 12)"
    by (rule or_is_add) (simp add: take_bit_eq_mask and.assoc)
  ultimately show ?thesis
    unfolding sv32_target_def assms m by (simp add: word_mod_div(3) [unfolded m] del: of_nat_mult)
qed

text \<open>
  C32. \<open>install_sv32_mapping\<close> maps the page. Into a RAM that holds both table entries it writes two
  words, without an error, and with these tables every request to an address of the virtual page, in
  any address space with this root table, whose access the flags permit and need not mark, is
  translated by Sv32 to the physical page with the same offset.
\<close>

theorem install_mapping_translates:
  assumes "ram_ok d" "unat root < 2 ^ 32" "unat leaf < 2 ^ 32" "unat root mod 2 ^ 12 = 0" "unat leaf mod 2 ^ 12 = 0" "root \<noteq> leaf"
    "\<forall>k < 4096. range_contains (ram_range d) (root + of_nat k) \<and> range_contains (ram_range d) (leaf + of_nat k)"
    "flags < 0x400" "pte_leaf flags" "bit flags 2 \<longrightarrow> bit flags 1"
  shows "\<exists>d'. install_sv32_mapping ram_ops root leaf va pa flags d = Some (Inr (), d') \<and>
    (\<forall>r. rq_satp r = sv32_satp_with_asid root asid \<and> unat (rq_virtual_address r) div 4096 = unat va div 4096 \<and>
       sv32_permits r flags \<and> sv32_marked r flags = flags \<longrightarrow>
       sv32 (ram_content d') r = Page ((pa AND NOT 0xfff) OR (rq_virtual_address r AND 0xfff)) None)"
proof -
  let ?f = "ram_content d" and ?a = "pte_address (unat root div 2 ^ 12) 1 va" and ?b = "pte_address (unat leaf div 2 ^ 12) 0 va"
  let ?p = "1 OR push_bit 10 (drop_bit 12 (ucast leaf)) :: u32" and ?q = "1 OR flags OR push_bit 10 (drop_bit 12 pa)"
  let ?g = "memory_effect (Store32 (ucast ?b) ?q) (memory_effect (Store32 (ucast ?a) ?p) ?f)"
  have addr: "(ucast ?a :: u64) = root + ucast (drop_bit 22 va AND 0x3ff) * 4" "(ucast ?b :: u64) = leaf + ucast (drop_bit 12 va AND 0x3ff) * 4"
    using entry_address [OF assms(2,4), where level = 1 and va = va] entry_address [OF assms(3,5), where level = 0 and va = va] by simp_all
  have small: "drop_bit j va AND 0x3ff < 0x400" for j
    using index_less [of "drop_bit j va"] by (simp add: word_less_nat_alt)
  have "\<forall>k < 4. range_contains (ad_range ram_ops d) (ucast ?a + of_nat k)"
    unfolding addr using entry_fits [OF _ small, of _ "ram_range d" root] assms(7) by (simp add: ram_ops_def)
  then obtain d1 where d1: "write_word ram_ops (ucast ?a) ?p d = Some (Inr (), d1)" "ram_ok d1"
      "ram_content d1 = memory_effect (Store32 (ucast ?a) ?p) ?f" "ram_range d1 = ram_range d"
    using ram.write_word_content [OF assms(1), of "ucast ?a" ?p] by (auto simp: ram_ops_def)
  have "\<forall>k < 4. range_contains (ad_range ram_ops d1) (ucast ?b + of_nat k)"
    unfolding addr using entry_fits [OF _ small, of _ "ram_range d" leaf] assms(7) d1(4) by (simp add: ram_ops_def)
  then obtain d2 where d2: "write_word ram_ops (ucast ?b) ?q d1 = Some (Inr (), d2)" "ram_content d2 = ?g"
    using ram.write_word_content [OF d1(2), of "ucast ?b" ?q] d1(3) by auto
  have inst: "install_sv32_mapping ram_ops root leaf va pa flags d = Some (Inr (), d2)"
    using d1(1) d2(1) unfolding addr by (simp add: install_sv32_mapping_def Let_def)
  have al: "unat ?a mod 4 = 0" "unat ?b mod 4 = 0" by (simp_all only: pte_aligned)
  have "?a \<noteq> ?b" by (rule entries_apart [OF assms(2-6)])
  then have words: "memory_word ?g ?a = ?p" "memory_word ?g ?b = ?q"
    using memory_word_store [OF al(2,1)] memory_word_store [OF al(2,2)] memory_word_store [OF al(1,1)] by simp_all
  have "unat (ucast leaf :: u32) = unat leaf" using assms(3) by (simp add: unsigned_ucast_eq take_bit_eq_mod)
  then have ppn: "unat ?p div 2 ^ 10 = unat leaf div 2 ^ 12" "unat ?q div 2 ^ 10 = unat pa div 2 ^ 12"
    using page_entry(2) [of 0 "ucast leaf"] page_entry(2) [OF assms(8), of pa] by simp_all
  have pbits: "bit ?p n \<longleftrightarrow> n = 0 \<or> 10 \<le> n \<and> n < 32 \<and> bit (drop_bit 12 (ucast leaf :: u32)) (n - 10)" for n
    using page_entry(1) [of 0 "ucast leaf" n] by simp
  note qbits = page_entry(1) [OF assms(8), of pa]
  have root: "sv32_root (sv32_satp_with_asid root asid) va = ?a" by (simp only: sv32_root_def satp_page [OF assms(2)])
  have p: "\<not> pte_broken ?p" "\<not> pte_leaf ?p" "\<not> (bit ?p 4 \<or> bit ?p 6 \<or> bit ?p 7)" "\<not> bit ?p 5"
    unfolding pte_broken_def pte_leaf_def by (simp_all add: pbits)
  have q: "\<not> pte_broken ?q" "pte_leaf ?q"
    using assms(9,10) unfolding pte_broken_def pte_leaf_def by (auto simp: qbits)
  have "sv32_from ?g va 0 False ?b = Some (0, ?b, bit ?q 5)"
    unfolding sv32_from.simps [of _ _ 0] words using q by (simp add: Let_def)
  then have "sv32_leaf ?g (sv32_satp_with_asid root asid) va = Some (0, ?b, bit ?q 5)"
    unfolding sv32_leaf_def root One_nat_def sv32_from.simps [of _ _ "Suc 0"] words [unfolded One_nat_def] Let_def ppn
    using p by simp
  then have leaf: "unat va' div 4096 = unat va div 4096 \<Longrightarrow>
      sv32_leaf ?g (sv32_satp_with_asid root asid) va' = Some (0, ?b, bit ?q 5)" for va'
    using leaf_page [of ?g _ va 0 ?b "bit ?q 5" va'] by simp
  have target: "sv32_target 0 ?q va' = Some ((pa AND NOT 0xfff) OR (va' AND 0xfff))" for va'
    by (rule page_target [OF ppn(2)])
  have "sv32 ?g r = Page ((pa AND NOT 0xfff) OR (rq_virtual_address r AND 0xfff)) None"
    if "rq_satp r = sv32_satp_with_asid root asid" "unat (rq_virtual_address r) div 4096 = unat va div 4096"
      "sv32_permits r flags" "sv32_marked r flags = flags" for r
  proof -
    have "sv32_permits r ?q" using that(3) by (simp add: sv32_permits_def qbits split: memory_access.splits privilege_mode.splits)
    moreover have "sv32_marked r ?q = ?q" using that(4) unfolding marked_same by (simp add: qbits)
    ultimately show ?thesis using leaf [OF that(2)] that(1) words(2) target by (simp add: sv32_def)
  qed
  then show ?thesis using inst d2(2) by (intro exI [of _ d2]) simp
qed

lemma install_mapping_translates_witness:
  "\<exists>d'. install_sv32_mapping ram_ops 0 0x1000 0x4000 0x5000 0xce (ram_new 0 8192) = Some (Inr (), d') \<and>
    sv32 (ram_content d') \<lparr>rq_satp = sv32_satp_with_asid 0 1, rq_status = 0, rq_privilege = Supervisor,
      rq_virtual_address = 0x4abc, rq_access = LoadMemory\<rparr> = Page 0x5abc None"
proof -
  let ?r = "\<lparr>rq_satp = sv32_satp_with_asid 0 1, rq_status = 0, rq_privilege = Supervisor, rq_virtual_address = 0x4abc,
    rq_access = LoadMemory\<rparr>"
  have "\<forall>k < 4096. range_contains (ram_range (ram_new 0 8192)) (0 + of_nat k) \<and>
      range_contains (ram_range (ram_new 0 8192)) (0x1000 + of_nat k)"
    by (simp add: ram_new_def range_contains_unat range_ok_def unat_word_ariths unat_of_nat)
  then obtain d' where d': "install_sv32_mapping ram_ops 0 0x1000 0x4000 0x5000 0xce (ram_new 0 8192) = Some (Inr (), d')"
      "\<forall>r. rq_satp r = sv32_satp_with_asid 0 1 \<and> unat (rq_virtual_address r) div 4096 = 4 \<and>
       sv32_permits r 0xce \<and> sv32_marked r 0xce = 0xce \<longrightarrow>
       sv32 (ram_content d') r = Page (0x5000 OR (rq_virtual_address r AND 0xfff)) None"
    using install_mapping_translates [of "ram_new 0 8192" 0 "0x1000" "0xce" "0x4000" "0x5000" 1]
    by (simp add: ram_ok_new pte_leaf_def bit_numeral_rec) blast
  have "sv32_permits ?r 0xce" "sv32_marked ?r 0xce = 0xce"
    by (simp_all add: sv32_permits_def sv32_marked_def set_bit_eq_or bit_numeral_rec)
  then have "sv32 (ram_content d') ?r = Page 0x5abc None" using d'(2) [rule_format, of ?r] by simp
  then show ?thesis using d'(1) by blast
qed

end
