(* ===== verification/Microbench.thy ===== *)
theory Microbench
  imports System Cached_System Bench_Programs
begin

text \<open>
  The microbenchmarks (first half of \<open>apps/computer/src/microbench.rs\<close>) and the trait \<open>CpuModel\<close>
  (\<open>crates/cpu/src/core/trait.rs\<close>) that they use to prepare and observe a core. The memory
  benchmarks time single accesses of a cached memory; the machine benchmarks step a machine until
  its registers show that a handler or a load has run. A core is an argument \<open>model\<close>, as in the
  source; a failed \<open>assert_eq!\<close> is the panic \<open>None\<close>. The shared software interrupt device is the
  handle of its slot.
\<close>

section \<open>CPU models\<close>

record ('c, 'b) cpu_model =
  cpu_step_cycle :: "('c, 'b, cpu_error) cpu_step"
  cpu_hart_state :: "'c \<Rightarrow> hart_state"
  cpu_hart_state_mut :: "(hart_state \<Rightarrow> hart_state) \<Rightarrow> 'c \<Rightarrow> 'c"
  cpu_model_name :: string

definition reference_model :: "('b, 'z) bus_ops_scheme \<Rightarrow> (reference_core, 'b) cpu_model" where
  "reference_model ops =
     \<lparr>cpu_step_cycle = reference_step ops, cpu_hart_state = rc_state, cpu_hart_state_mut = rc_state_update,
      cpu_model_name = ''reference''\<rparr>"

definition pipeline_model :: "('b, 'z) bus_ops_scheme \<Rightarrow> (pipeline_core, 'b) cpu_model" where
  "pipeline_model ops =
     \<lparr>cpu_step_cycle = pipeline_step ops, cpu_hart_state = pl_state, cpu_hart_state_mut = pl_state_update,
      cpu_model_name = ''pipeline''\<rparr>"

type_synonym 'c bench_machine = "('c, device memory_map) Machine.machine_state"

definition read_reg :: "('c, 'b) cpu_model \<Rightarrow> u8 \<Rightarrow> ('c, 'b) Machine.machine_state \<Rightarrow> u32 option" where
  "read_reg model r m = register_read (registers (cpu_hart_state model (ms_cpu m))) r"

definition write_reg ::
  "('c, 'b) cpu_model \<Rightarrow> u8 \<Rightarrow> u32 \<Rightarrow> ('c, 'b) Machine.machine_state \<Rightarrow> ('c, 'b) Machine.machine_state option" where
  "write_reg model r v m =
     map_option (\<lambda>regs. m\<lparr>ms_cpu := cpu_hart_state_mut model (\<lambda>s. s\<lparr>registers := regs\<rparr>) (ms_cpu m)\<rparr>)
       (register_write r v (registers (cpu_hart_state model (ms_cpu m))))"

definition write_csr ::
  "('c, 'b) cpu_model \<Rightarrow> csr_address \<Rightarrow> u32 \<Rightarrow> ('c, 'b) Machine.machine_state \<Rightarrow> ('c, 'b) Machine.machine_state" where
  "write_csr model a v m =
     m\<lparr>ms_cpu := cpu_hart_state_mut model (\<lambda>s. s\<lparr>csrs := csr_write a v (csrs s)\<rparr>) (ms_cpu m)\<rparr>"

fun write_regs ::
  "('c, 'b) cpu_model \<Rightarrow> (u8 \<times> u32) list \<Rightarrow> ('c, 'b) Machine.machine_state \<Rightarrow> ('c, 'b) Machine.machine_state option" where
  "write_regs model [] m = Some m"
| "write_regs model ((r, v) # rvs) m = Option.bind (write_reg model r v m) (write_regs model rvs)"

section \<open>Fallible construction\<close>

text \<open>\<open>None\<close> is a panic, \<open>Inl\<close> an error that the \<open>?\<close> operator returns.\<close>

type_synonym 'a fallible = "(microbench_error + 'a) option"

definition ok_then :: "'a fallible \<Rightarrow> ('a \<Rightarrow> 'b fallible) \<Rightarrow> 'b fallible" where
  "ok_then x f = (case x of None \<Rightarrow> None | Some (Inl e) \<Rightarrow> Some (Inl e) | Some (Inr a) \<Rightarrow> f a)"

definition settled_state :: "(microbench_error + unit, 'd) outcome \<Rightarrow> 'd fallible" where
  "settled_state x = map_option (\<lambda>(r, d). map_sum id (\<lambda>_. d) r) x"

definition or_panic :: "'a option \<Rightarrow> 'a fallible" where
  "or_panic = map_option Inr"

lemma ok_then_simps [simp]:
  "ok_then None f = None" "ok_then (Some (Inl e)) f = Some (Inl e)" "ok_then (Some (Inr a)) f = f a"
  by (simp_all add: ok_then_def)

lemma or_panic_simps [simp]: "or_panic None = None" "or_panic (Some x) = Some (Inr x)"
  by (simp_all add: or_panic_def)

definition word_in :: "('d, 'z) addressable_scheme \<Rightarrow> u64 \<Rightarrow> u32 \<Rightarrow> 'd \<Rightarrow> 'd fallible" where
  "word_in dev a v d = settled_state (write_word dev a v d)"

definition mapped :: "device \<Rightarrow> device memory_map \<Rightarrow> device memory_map fallible" where
  "mapped d m = settled_state (bench_bus (Some (map_device device_ops d m)))"

definition RESET_VECTOR :: u32 where "RESET_VECTOR = 0"
definition RAM_BYTES :: nat where "RAM_BYTES = 0x1000"
definition VM_RAM_BYTES :: nat where "VM_RAM_BYTES = 0x10000"
definition MSTATUS_MPRV_FLAG :: u32 where "MSTATUS_MPRV_FLAG = push_bit 17 1"
definition MSTATUS_MPP_SHIFT :: nat where "MSTATUS_MPP_SHIFT = 11"

abbreviation ram_area :: address_range where
  "ram_area \<equiv> \<lparr>range_start = RAM_BASE, range_size = of_nat RAM_BYTES\<rparr>"

section \<open>Memory benchmarks\<close>

record conflict_miss_report =
  cm_accesses :: nat
  hot_stall_cycles :: u64
  thrash_stall_cycles :: u64
  hot_stats :: cache_stats
  thrash_stats :: cache_stats

record line_refill_report =
  first_line_stall_cycles :: u64
  same_line_stall_cycles :: u64
  next_line_stall_cycles :: u64
  lr_stats :: cache_stats

record write_back_pressure_report =
  wb_stores :: nat
  wb_stall_cycles :: u64
  wb_stats :: cache_stats

text \<open>The loops over the addresses add up the stall cycles.\<close>

fun measure_loads :: "('b, 'z) bus_ops_scheme \<Rightarrow> u64 list \<Rightarrow> u64 \<Rightarrow> ('b, u64) bus_call" where
  "measure_loads ops [] stall b = Some (Inr stall, b)"
| "measure_loads ops (a # as) stall b =
     and_then (measure_load32 ops a b) (\<lambda>n b. measure_loads ops as (stall + n) b)"

fun measure_stores :: "('b, 'z) bus_ops_scheme \<Rightarrow> (u64 \<times> u32) list \<Rightarrow> u64 \<Rightarrow> ('b, u64) bus_call" where
  "measure_stores ops [] stall b = Some (Inr stall, b)"
| "measure_stores ops ((a, v) # avs) stall b =
     and_then (measure_store32 ops a v b) (\<lambda>n b. measure_stores ops avs (stall + n) b)"

abbreviation bench_cache_ops :: "(device memory_map unified_cache) burst_ops" where
  "bench_cache_ops \<equiv> uc_ops (mm_ops device_ops)"

text \<open>The result of a measurement, with the statistics of the cache after it.\<close>

definition with_stats ::
  "(bus_error + 'a, device memory_map unified_cache) outcome \<Rightarrow> ('a \<times> cache_stats) fallible" where
  "with_stats x = map_option (\<lambda>(r, c). map_sum BenchBus (\<lambda>n. (n, cb_stats (uc_bank c))) r) x"

definition slow_memory :: "ram \<Rightarrow> u32 \<Rightarrow> device memory_map fallible" where
  "slow_memory ram n = mapped (Delayed \<lparr>la_inner = DevRam ram, la_latency_cycles = n\<rparr>) memory_map_new"

definition alias_config :: "cache_config option" where
  "alias_config = Option.bind (cache_config_new 2 [ram_area]) (with_line_size 16)"

definition run_alias_pattern :: "u64 list \<Rightarrow> (u64 \<times> cache_stats) fallible" where
  "run_alias_pattern pat =
     ok_then (word_in ram_ops RAM_BASE 0xaaaa0001 (ram_new RAM_BASE RAM_BYTES)) (\<lambda>ram.
     ok_then (word_in ram_ops (RAM_BASE + 0x20) 0xbbbb0002 ram) (\<lambda>ram.
     ok_then (slow_memory ram 6) (\<lambda>memory.
     ok_then (or_panic alias_config) (\<lambda>config.
     with_stats (measure_loads bench_cache_ops pat 0 (unified_cache_new memory config))))))"

definition run_conflict_miss_benchmark :: "conflict_miss_report fallible" where
  "run_conflict_miss_benchmark =
     (let hot_pattern = [RAM_BASE, RAM_BASE, RAM_BASE, RAM_BASE];
          thrash_pattern = [RAM_BASE, RAM_BASE + 0x20, RAM_BASE, RAM_BASE + 0x20] in
      ok_then (run_alias_pattern hot_pattern) (\<lambda>(hot, hs).
      ok_then (run_alias_pattern thrash_pattern) (\<lambda>(thrash, ts).
      Some (Inr \<lparr>cm_accesses = length hot_pattern, hot_stall_cycles = hot, thrash_stall_cycles = thrash,
        hot_stats = hs, thrash_stats = ts\<rparr>))))"

definition bench_dram :: "dram fallible" where
  "bench_dram = or_panic (map_option (dram_new RAM_BASE RAM_BYTES) (dram_config_new 64 6 2 1))"

definition run_line_refill_benchmark :: "line_refill_report fallible" where
  "run_line_refill_benchmark =
     ok_then bench_dram (\<lambda>dram.
     ok_then (word_in dram_ops RAM_BASE 0x11111111 dram) (\<lambda>dram.
     ok_then (word_in dram_ops (RAM_BASE + 4) 0x22222222 dram) (\<lambda>dram.
     ok_then (word_in dram_ops (RAM_BASE + 16) 0x33333333 dram) (\<lambda>dram.
     ok_then (mapped (Plain (DevDram dram)) memory_map_new) (\<lambda>memory.
     ok_then (or_panic (Option.bind (cache_config_new 8 [ram_area]) (with_line_size 16))) (\<lambda>config.
     ok_then (with_stats (
       and_then (measure_load32 bench_cache_ops RAM_BASE (unified_cache_new memory config)) (\<lambda>first c.
       and_then (measure_load32 bench_cache_ops (RAM_BASE + 4) c) (\<lambda>same c.
       and_then (measure_load32 bench_cache_ops (RAM_BASE + 16) c) (\<lambda>next_line c. Some (Inr (first, same, next_line), c))))))
     (\<lambda>((first, same, next_line), st).
     Some (Inr \<lparr>first_line_stall_cycles = first, same_line_stall_cycles = same, next_line_stall_cycles = next_line,
       lr_stats = st\<rparr>))))))))"

definition pressure_addresses :: "u64 list" where
  "pressure_addresses = [RAM_BASE, RAM_BASE + 0x10, RAM_BASE + 0x20, RAM_BASE + 0x30]"

definition pressure_config :: "cache_config option" where
  "pressure_config =
     map_option (\<lambda>c. with_store_allocation_policy WriteAllocate (with_write_policy WriteBack c))
       (Option.bind (cache_config_new 1 [ram_area]) (with_line_size 16))"

fun words_in :: "('d, 'z) addressable_scheme \<Rightarrow> (u64 \<times> u32) list \<Rightarrow> 'd \<Rightarrow> 'd fallible" where
  "words_in dev [] d = Some (Inr d)"
| "words_in dev ((a, v) # avs) d = ok_then (word_in dev a v d) (words_in dev avs)"

definition run_write_back_pressure_benchmark :: "write_back_pressure_report fallible" where
  "run_write_back_pressure_benchmark =
     ok_then (words_in ram_ops (zip pressure_addresses [0, 1, 2, 3]) (ram_new RAM_BASE RAM_BYTES)) (\<lambda>ram.
     ok_then (slow_memory ram 4) (\<lambda>memory.
     ok_then (or_panic pressure_config) (\<lambda>config.
     ok_then (with_stats (measure_stores bench_cache_ops (zip pressure_addresses [0x1000, 0x1001, 0x1002, 0x1003]) 0
       (unified_cache_new memory config))) (\<lambda>(stall, st).
     Some (Inr \<lparr>wb_stores = 4, wb_stall_cycles = stall, wb_stats = st\<rparr>)))))"

section \<open>Machine benchmarks\<close>

record interrupt_latency_sample =
  idle_cycles :: u64
  loaded_cycles :: u64

record interrupt_latency_report =
  il_reference :: interrupt_latency_sample
  il_pipeline :: interrupt_latency_sample

record translation_caching_sample =
  cold_cycles :: u64
  warm_cycles :: u64
  switched_asid_cycles :: u64
  returned_asid_cycles :: u64
  global_switched_asid_cycles :: u64
  sfence_reload_cycles :: u64

record translation_caching_report =
  tc_reference :: translation_caching_sample
  tc_pipeline :: translation_caching_sample

record virtual_memory_paths_sample =
  superpage_access_cycles :: u64
  namespace_preserved_cycles :: u64
  namespace_reloaded_cycles :: u64

record virtual_memory_paths_report =
  vm_reference :: virtual_memory_paths_sample
  vm_pipeline :: virtual_memory_paths_sample

datatype interrupt_load = Idle | Loaded

definition bench_cpu :: "(cpu_error + 'a, 'd) outcome \<Rightarrow> (microbench_error + 'a, 'd) outcome" where
  "bench_cpu x = map_option (\<lambda>(r, d). (map_sum BenchCpu id r, d)) x"

text \<open>The predicate reads registers and may panic.\<close>

fun step_until ::
  "('b, 'z) bus_ops_scheme \<Rightarrow> ('c, 'b, cpu_error) cpu_step \<Rightarrow> nat \<Rightarrow> string \<Rightarrow>
   (('c, 'b) Machine.machine_state \<Rightarrow> bool option) \<Rightarrow> ('c, 'b) Machine.machine_state \<Rightarrow>
   (microbench_error + unit, ('c, 'b) Machine.machine_state) outcome" where
  "step_until ops step 0 name p m = Some (Inl (BenchTimeout name), m)"
| "step_until ops step (Suc n) name p m =
     and_then (bench_cpu (machine_step_cycle ops step m)) (\<lambda>_ m.
       case p m of
         None \<Rightarrow> None
       | Some b \<Rightarrow> if b then Some (Inr (), m) else step_until ops step n name p m)"

definition bench_until ::
  "('c, device memory_map) cpu_model \<Rightarrow> nat \<Rightarrow> string \<Rightarrow> ('c bench_machine \<Rightarrow> bool option) \<Rightarrow>
   'c bench_machine \<Rightarrow> (microbench_error + unit, 'c bench_machine) outcome" where
  "bench_until model n name p = step_until (mm_ops device_ops) (cpu_step_cycle model) n name p"

text \<open>\<open>registers.read(r) >= v\<close> and \<open>assert_eq!(registers.read(r), v)\<close>.\<close>

definition reg_at_least :: "('c, 'b) cpu_model \<Rightarrow> u8 \<Rightarrow> u32 \<Rightarrow> ('c, 'b) Machine.machine_state \<Rightarrow> bool option" where
  "reg_at_least model r v m = map_option (\<lambda>x. x \<ge> v) (read_reg model r m)"

definition assert_reg ::
  "('c, 'b) cpu_model \<Rightarrow> u8 \<Rightarrow> u32 \<Rightarrow> ('c, 'b) Machine.machine_state \<Rightarrow>
   (microbench_error + unit, ('c, 'b) Machine.machine_state) outcome" where
  "assert_reg model r v m = (if read_reg model r m = Some v then Some (Inr (), m) else None)"

subsection \<open>Interrupt latency\<close>

definition set_msip :: "nat \<Rightarrow> u32 \<Rightarrow> 'c bench_machine \<Rightarrow> (microbench_error + unit, 'c bench_machine) outcome" where
  "set_msip h v m =
     map_option (\<lambda>(r, b). (r, m\<lparr>ms_bus := b\<rparr>))
       (bench_bus (store_bytes device_ops h MSIP_BASE (le_bytes32 v) (ms_bus m)))"

text \<open>The machine and the handle of its software interrupt device.\<close>

definition build_interrupt_machine ::
  "('c, device memory_map) cpu_model \<Rightarrow> (u32 \<Rightarrow> 'c) \<Rightarrow> interrupt_load \<Rightarrow> ('c bench_machine \<times> nat) fallible" where
  "build_interrupt_machine model make_cpu load =
     (let program = (case load of Idle \<Rightarrow> idle_interrupt_program | Loaded \<Rightarrow> loaded_interrupt_program) in
      ok_then bench_dram (\<lambda>dram.
      ok_then (word_in dram_ops RAM_BASE 0xfeedface dram) (\<lambda>dram.
      ok_then (mapped (Plain (DevRom (rom_from_words (ucast RESET_VECTOR) program))) memory_map_new) (\<lambda>memory.
      ok_then (mapped (Plain (DevDram dram)) memory) (\<lambda>memory.
      let msip = length (mm_devices memory) in
      ok_then (mapped (Plain (DevMachineSoftware (software_interrupt_new MSIP_BASE))) memory) (\<lambda>memory.
      let machine = machine_new (make_cpu RESET_VECTOR) memory;
          machine = write_csr model Mstatus (push_bit 3 1) machine;
          machine = write_csr model Mie (push_bit 3 1) machine;
          machine = write_csr model Mtvec 0x20 machine
      in Some (Inr (machine, msip))))))))"

definition measure_interrupt_latency ::
  "('c, device memory_map) cpu_model \<Rightarrow> (u32 \<Rightarrow> 'c) \<Rightarrow> interrupt_load \<Rightarrow> u64 fallible" where
  "measure_interrupt_latency model make_cpu load =
     ok_then (build_interrupt_machine model make_cpu load) (\<lambda>(machine, msip).
     map_option fst (
       and_then (bench_until model 16 ''interrupt benchmark warmup''
         (\<lambda>m. Some (pc (cpu_hart_state model (ms_cpu m)) = (case load of Idle \<Rightarrow> 0 | Loaded \<Rightarrow> 4))) machine) (\<lambda>_ machine.
       and_then (case load of
           Idle \<Rightarrow> Some (Inr (), machine)
         | Loaded \<Rightarrow> bench_until model 32 ''memory pressure trigger'' (\<lambda>m. Some (mm_is_busy (ms_bus m))) machine)
         (\<lambda>_ machine.
       let signal_cycle = ms_clock machine in
       and_then (set_msip msip 1 machine) (\<lambda>_ machine.
       and_then (bench_until model 64 ''interrupt handler'' (reg_at_least model 10 1) machine) (\<lambda>_ machine.
       and_then (set_msip msip 0 machine) (\<lambda>_ machine.
       Some (Inr (ms_clock machine - signal_cycle), machine))))))))"

definition run_interrupt_latency_benchmark :: "interrupt_latency_report fallible" where
  "run_interrupt_latency_benchmark =
     (let r = reference_model (mm_ops device_ops); p = pipeline_model (mm_ops device_ops) in
      ok_then (measure_interrupt_latency r reference_new Idle) (\<lambda>ri.
      ok_then (measure_interrupt_latency r reference_new Loaded) (\<lambda>rl.
      ok_then (measure_interrupt_latency p pipeline_new Idle) (\<lambda>pi'.
      ok_then (measure_interrupt_latency p pipeline_new Loaded) (\<lambda>pl.
      Some (Inr \<lparr>il_reference = \<lparr>idle_cycles = ri, loaded_cycles = rl\<rparr>,
        il_pipeline = \<lparr>idle_cycles = pi', loaded_cycles = pl\<rparr>\<rparr>))))))"

subsection \<open>Address translation\<close>

definition measure_translation_phase ::
  "('c, device memory_map) cpu_model \<Rightarrow> u32 \<Rightarrow> string \<Rightarrow> 'c bench_machine \<Rightarrow>
   (microbench_error + u64, 'c bench_machine) outcome" where
  "measure_translation_phase model target_load_count name m =
     (let start = ms_clock m in
      and_then (bench_until model 128 name (reg_at_least model 3 target_load_count) m) (\<lambda>_ m.
      Some (Inr (ms_clock m - start), m)))"

text \<open>A machine with a program in ROM and a RAM behind a latency of four cycles.\<close>

definition bench_machine_with :: "(u32 \<Rightarrow> 'c) \<Rightarrow> u32 list \<Rightarrow> ram \<Rightarrow> 'c bench_machine fallible" where
  "bench_machine_with make_cpu program ram =
     ok_then (mapped (Plain (DevRom (rom_from_words (ucast RESET_VECTOR) program))) memory_map_new) (\<lambda>memory.
     ok_then (mapped (Delayed \<lparr>la_inner = DevRam ram, la_latency_cycles = 4\<rparr>) memory) (\<lambda>memory.
     Some (Inr (machine_new (make_cpu RESET_VECTOR) memory))))"

definition installed :: "u64 \<Rightarrow> u64 \<Rightarrow> u32 \<Rightarrow> u32 \<Rightarrow> u32 \<Rightarrow> ram \<Rightarrow> ram fallible" where
  "installed root leaf va pa flags d = settled_state (install_sv32_mapping ram_ops root leaf va pa flags d)"

abbreviation supervisor_data :: u32 where
  "supervisor_data \<equiv> MSTATUS_MPRV_FLAG OR push_bit MSTATUS_MPP_SHIFT 1"

definition build_translation_machine ::
  "('c, device memory_map) cpu_model \<Rightarrow> (u32 \<Rightarrow> 'c) \<Rightarrow> bool \<Rightarrow> 'c bench_machine fallible" where
  "build_translation_machine model make_cpu global_mapping =
     (let satp_asid_1 = sv32_satp_with_asid VM_ROOT_TABLE_1 1;
          satp_asid_2 = sv32_satp_with_asid VM_ROOT_TABLE_2 2;
          mapping_flags = PTE_R OR PTE_W OR PTE_A OR PTE_D OR (if global_mapping then PTE_G else 0) in
      ok_then (word_in ram_ops VM_PHYS_PAGE_A VM_VALUE_A (ram_new RAM_BASE VM_RAM_BYTES)) (\<lambda>ram.
      ok_then (word_in ram_ops (if global_mapping then VM_PHYS_PAGE_A else VM_PHYS_PAGE_B)
        (if global_mapping then VM_VALUE_A else VM_VALUE_B) ram) (\<lambda>ram.
      ok_then (installed VM_ROOT_TABLE_1 VM_LEAF_TABLE_1 VM_VIRTUAL_ADDR (ucast VM_PHYS_PAGE_A) mapping_flags ram) (\<lambda>ram.
      ok_then (installed VM_ROOT_TABLE_2 VM_LEAF_TABLE_2 VM_VIRTUAL_ADDR
        (if global_mapping then ucast VM_PHYS_PAGE_A else ucast VM_PHYS_PAGE_B) mapping_flags ram) (\<lambda>ram.
      ok_then (bench_machine_with make_cpu
        (if global_mapping then global_translation_program else translation_program) ram) (\<lambda>machine.
      ok_then (or_panic (write_regs model [(1, VM_VIRTUAL_ADDR), (4, satp_asid_1), (5, satp_asid_2)] machine)) (\<lambda>machine.
      Some (Inr (write_csr model Mstatus supervisor_data (write_csr model Satp satp_asid_1 machine))))))))))"

definition measure_translation_caching ::
  "('c, device memory_map) cpu_model \<Rightarrow> (u32 \<Rightarrow> 'c) \<Rightarrow> translation_caching_sample fallible" where
  "measure_translation_caching model make_cpu =
     ok_then (build_translation_machine model make_cpu False) (\<lambda>machine.
     ok_then (map_option fst (
       and_then (measure_translation_phase model 1 ''translation cold load'' machine) (\<lambda>cold m.
       and_then (assert_reg model 2 VM_VALUE_A m) (\<lambda>_ m.
       and_then (measure_translation_phase model 2 ''translation warm load'' m) (\<lambda>warm m.
       and_then (assert_reg model 2 VM_VALUE_A m) (\<lambda>_ m.
       and_then (measure_translation_phase model 3 ''translation switched asid load'' m) (\<lambda>switched m.
       and_then (assert_reg model 2 VM_VALUE_B m) (\<lambda>_ m.
       and_then (measure_translation_phase model 4 ''translation returned asid load'' m) (\<lambda>returned m.
       and_then (assert_reg model 2 VM_VALUE_A m) (\<lambda>_ m.
       and_then (measure_translation_phase model 5 ''translation sfence reload'' m) (\<lambda>reload m.
       and_then (assert_reg model 2 VM_VALUE_A m) (\<lambda>_ m.
       Some (Inr (cold, warm, switched, returned, reload), m)))))))))))))
     (\<lambda>(cold, warm, switched, returned, reload).
     ok_then (build_translation_machine model make_cpu True) (\<lambda>global_machine.
     ok_then (map_option fst (
       and_then (measure_translation_phase model 1 ''global translation cold load'' global_machine) (\<lambda>_ m.
       and_then (measure_translation_phase model 2 ''global translation warm load'' m) (\<lambda>_ m.
       and_then (measure_translation_phase model 3 ''global translation switched asid load'' m) (\<lambda>global_switched m.
       and_then (assert_reg model 2 VM_VALUE_A m) (\<lambda>_ m.
       Some (Inr global_switched, m)))))))
     (\<lambda>global_switched.
     Some (Inr \<lparr>cold_cycles = cold, warm_cycles = warm, switched_asid_cycles = switched, returned_asid_cycles = returned,
       global_switched_asid_cycles = global_switched, sfence_reload_cycles = reload\<rparr>)))))"

definition run_translation_caching_benchmark :: "translation_caching_report fallible" where
  "run_translation_caching_benchmark =
     ok_then (measure_translation_caching (reference_model (mm_ops device_ops)) reference_new) (\<lambda>r.
     ok_then (measure_translation_caching (pipeline_model (mm_ops device_ops)) pipeline_new) (\<lambda>p.
     Some (Inr \<lparr>tc_reference = r, tc_pipeline = p\<rparr>)))"

definition build_superpage_access_machine ::
  "('c, device memory_map) cpu_model \<Rightarrow> (u32 \<Rightarrow> 'c) \<Rightarrow> 'c bench_machine fallible" where
  "build_superpage_access_machine model make_cpu =
     ok_then (word_in ram_ops VM_SUPERPAGE_DATA_PHYSICAL_ADDR 9 (ram_new RAM_BASE VM_RAM_BYTES)) (\<lambda>ram.
     ok_then (settled_state (install_sv32_superpage_mapping ram_ops VM_ROOT_TABLE_3 VM_SUPERPAGE_VIRTUAL_BASE (ucast RAM_BASE)
       (PTE_R OR PTE_W OR PTE_X OR PTE_A OR PTE_D) ram)) (\<lambda>ram.
     ok_then (bench_machine_with make_cpu superpage_access_program ram) (\<lambda>machine.
     Some (Inr (write_csr model Mstatus supervisor_data
       (write_csr model Satp (sv32_satp_with_asid VM_ROOT_TABLE_3 1) machine))))))"

definition build_namespace_preserve_machine ::
  "('c, device memory_map) cpu_model \<Rightarrow> (u32 \<Rightarrow> 'c) \<Rightarrow> 'c bench_machine fallible" where
  "build_namespace_preserve_machine model make_cpu =
     (let satp_asid_1 = sv32_satp_with_asid VM_ROOT_TABLE_1 1;
          satp_asid_2 = sv32_satp_with_asid VM_ROOT_TABLE_2 2 in
      ok_then (words_in ram_ops [(VM_PHYS_PAGE_A, VM_VALUE_A), (VM_PHYS_PAGE_B, VM_VALUE_B), (VM_PHYS_PAGE_C, VM_VALUE_C)]
        (ram_new RAM_BASE VM_RAM_BYTES)) (\<lambda>ram.
      ok_then (installed VM_ROOT_TABLE_1 VM_LEAF_TABLE_1 VM_VIRTUAL_ADDR (ucast VM_PHYS_PAGE_A) (PTE_R OR PTE_A OR PTE_D) ram) (\<lambda>ram.
      ok_then (installed VM_ROOT_TABLE_2 VM_LEAF_TABLE_2 VM_VIRTUAL_ADDR (ucast VM_PHYS_PAGE_B) (PTE_R OR PTE_A OR PTE_D) ram) (\<lambda>ram.
      ok_then (bench_machine_with make_cpu namespace_preserve_program ram) (\<lambda>machine.
      ok_then (or_panic (write_regs model
        [(1, VM_VIRTUAL_ADDR),
         (4, ucast (VM_LEAF_TABLE_1 + ucast (drop_bit 12 VM_VIRTUAL_ADDR AND 0x3ff) * 4)),
         (5, satp_asid_2),
         (6, PTE_V OR PTE_R OR PTE_A OR PTE_D OR push_bit 10 (drop_bit 12 (ucast VM_PHYS_PAGE_C))),
         (7, push_bit MSTATUS_MPP_SHIFT 1),
         (8, supervisor_data),
         (9, satp_asid_1)] machine)) (\<lambda>machine.
      Some (Inr (write_csr model Mstatus supervisor_data (write_csr model Satp satp_asid_1 machine)))))))))"

definition measure_virtual_memory_paths ::
  "('c, device memory_map) cpu_model \<Rightarrow> (u32 \<Rightarrow> 'c) \<Rightarrow> virtual_memory_paths_sample fallible" where
  "measure_virtual_memory_paths model make_cpu =
     ok_then (build_superpage_access_machine model make_cpu) (\<lambda>superpage_machine.
     ok_then (map_option fst (
       let start = ms_clock superpage_machine in
       and_then (bench_until model 256 ''superpage access flow''
         (\<lambda>m. map_option (\<lambda>x. x = 9) (read_reg model 10 m)) superpage_machine) (\<lambda>_ m.
       Some (Inr (ms_clock m - start), m))))
     (\<lambda>superpage_cycles.
     ok_then (build_namespace_preserve_machine model make_cpu) (\<lambda>namespace_machine.
     ok_then (map_option fst (
       and_then (bench_until model 256 ''namespace preserve warmup'' (reg_at_least model 3 2) namespace_machine) (\<lambda>_ m.
       and_then (assert_reg model 10 VM_VALUE_A m) (\<lambda>_ m.
       and_then (assert_reg model 11 VM_VALUE_B m) (\<lambda>_ m.
       let preserve_start = ms_clock m in
       and_then (bench_until model 256 ''namespace preserved stale load'' (reg_at_least model 3 3) m) (\<lambda>_ m.
       and_then (assert_reg model 12 VM_VALUE_A m) (\<lambda>_ m.
       let preserved = ms_clock m - preserve_start; reload_start = ms_clock m in
       and_then (bench_until model 256 ''namespace reloaded load'' (reg_at_least model 3 4) m) (\<lambda>_ m.
       and_then (assert_reg model 13 VM_VALUE_C m) (\<lambda>_ m.
       Some (Inr (preserved, ms_clock m - reload_start), m))))))))))
     (\<lambda>(preserved, reloaded).
     Some (Inr \<lparr>superpage_access_cycles = superpage_cycles, namespace_preserved_cycles = preserved,
       namespace_reloaded_cycles = reloaded\<rparr>)))))"

definition run_virtual_memory_paths_benchmark :: "virtual_memory_paths_report fallible" where
  "run_virtual_memory_paths_benchmark =
     ok_then (measure_virtual_memory_paths (reference_model (mm_ops device_ops)) reference_new) (\<lambda>r.
     ok_then (measure_virtual_memory_paths (pipeline_model (mm_ops device_ops)) pipeline_new) (\<lambda>p.
     Some (Inr \<lparr>vm_reference = r, vm_pipeline = p\<rparr>)))"

record memory_microbench_report =
  conflict_miss :: conflict_miss_report
  line_refill :: line_refill_report
  write_back_pressure :: write_back_pressure_report
  interrupt_latency :: interrupt_latency_report
  translation_caching :: translation_caching_report
  virtual_memory_paths :: virtual_memory_paths_report

definition run_memory_microbenchmarks :: "memory_microbench_report fallible" where
  "run_memory_microbenchmarks =
     ok_then run_conflict_miss_benchmark (\<lambda>cm.
     ok_then run_line_refill_benchmark (\<lambda>lr.
     ok_then run_write_back_pressure_benchmark (\<lambda>wb.
     ok_then run_interrupt_latency_benchmark (\<lambda>il.
     ok_then run_translation_caching_benchmark (\<lambda>tc.
     ok_then run_virtual_memory_paths_benchmark (\<lambda>vm.
     Some (Inr \<lparr>conflict_miss = cm, line_refill = lr, write_back_pressure = wb, interrupt_latency = il,
       translation_caching = tc, virtual_memory_paths = vm\<rparr>)))))))"

end
