(* ===== verification/Bench_Runs.thy ===== *)
theory Bench_Runs
  imports Microbench
begin

text \<open>
  What the microbenchmarks are sure to do: the locale \<open>bench_cpu_model\<close> is the contract of a core
  that a benchmark prepares and steps (the trait bounds \<open>Processor + CpuModel\<close> of the source), of
  which both cores are interpretations. A benchmark of a machine then returns, with a measurement
  or a timeout, and the loops of a memory benchmark end.
\<close>

section \<open>Stepping a machine\<close>

text \<open>The machines of the interrupt benchmark: slot 2 holds the software interrupt device.\<close>

fun is_msip :: "device \<Rightarrow> bool" where
  "is_msip (Plain (DevMachineSoftware d)) \<longleftrightarrow> si_range d = \<lparr>range_start = MSIP_BASE, range_size = 4\<rparr>"
| "is_msip _ \<longleftrightarrow> False"

definition bench_device :: "nat \<Rightarrow> device \<Rightarrow> bool" where
  "bench_device k d \<longleftrightarrow> device_ok d \<and> (k = 2 \<longrightarrow> is_msip d)"

abbreviation bench_bus_ok :: "device memory_map \<Rightarrow> bool" where
  "bench_bus_ok \<equiv> mm_ok 3 bench_device"

lemma at_offset_kept:
  assumes "at_offset r a f d = Some (x, d')" "\<And>off y d''. f off d = Some (y, d'') \<Longrightarrow> si_range d'' = si_range d"
  shows "si_range d' = si_range d"
  using assms by (auto simp: at_offset_def split: sum.splits)

lemma msip_kept:
  "is_msip d \<Longrightarrow> is_msip (ad_reset device_ops d)"
  "is_msip d \<Longrightarrow> ad_tick device_ops d = Some d' \<Longrightarrow> is_msip d'"
  "is_msip d \<Longrightarrow> is_msip (snd (ad_access_latency device_ops a k w d))"
  "is_msip d \<Longrightarrow> ad_load8 device_ops a d = Some (r, d') \<Longrightarrow> is_msip d'"
  "is_msip d \<Longrightarrow> ad_store8 device_ops a v d = Some (q, d') \<Longrightarrow> is_msip d'"
  by (cases d rule: is_msip.cases;
      auto simp: device_ops_def plain_ops_def lifted_def machine_software_interrupt_ops_def si_ops_def si_reset_def
        si_load8_def si_store8_def returning_def updating_def dest!: at_offset_kept split: option.splits)+

lemma bench_device_contract: "addressable_device device_ops (bench_device k)"
proof
  fix d and a x w and v :: u8
  assume d: "bench_device k d"
  then have ok: "device_ok d" by (simp add: bench_device_def)
  show "bench_device k (ad_reset device_ops d)"
    using d device.reset_dev msip_kept(1) by (simp add: bench_device_def)
  show "\<exists>d'. ad_tick device_ops d = Some d' \<and> bench_device k d'"
    using d device.tick_dev [OF ok] msip_kept(2) by (auto simp: bench_device_def)
  show "bench_device k (snd (ad_access_latency device_ops a x w d))"
    using d device.latency_dev msip_kept(3) by (simp add: bench_device_def)
  show "wp (ad_load8 device_ops a d) (\<lambda>_. bench_device k)"
    using d device.load8_dev [OF ok, of a] msip_kept(4) by (auto simp: bench_device_def elim!: wp_elim)
  show "wp (ad_store8 device_ops a v d) (\<lambda>_. bench_device k)"
    using d device.store8_dev [OF ok, of a v] msip_kept(5) by (auto simp: bench_device_def elim!: wp_elim)
qed

interpretation bench: device_family device_ops 3 bench_device
  by (rule device_family.intro) (rule bench_device_contract)

text \<open>The software interrupt device takes a byte at each of its four addresses.\<close>

lemma msip_takes_byte:
  assumes "is_msip d" "k < 4"
  shows "\<exists>d'. ad_store8 device_ops (MSIP_BASE + of_nat k) v d = Some (Inr (), d')"
proof -
  obtain x where x: "d = Plain (DevMachineSoftware x)" "si_range x = \<lparr>range_start = MSIP_BASE, range_size = 4\<rparr>"
    using assms(1) by (cases d rule: is_msip.cases) auto
  have k: "unat (of_nat k :: u64) = k" using assms(2) by (simp add: unat_of_nat)
  have "unat (MSIP_BASE + of_nat k) = unat MSIP_BASE + k"
    using assms(2) k by (simp add: MSIP_BASE_def unat_word_ariths)
  then have "range_contains (si_range x) (MSIP_BASE + of_nat k)"
    using assms(2) x(2) by (simp add: range_contains_unat range_ok_def MSIP_BASE_def)
  then have "device_offset (si_range x) (MSIP_BASE + of_nat k) = Inr (of_nat k)" using x(2) by (simp add: device_offset_def)
  then show ?thesis
    using x k assms(2) reg_with_byte_Some [of k "si_register x" v]
    by (auto simp: device_ops_def plain_ops_def lifted_def machine_software_interrupt_ops_def si_ops_def si_store8_def
        at_offset_def updating_def)
qed

lemma msip_takes_bytes:
  "bench_bus_ok m \<Longrightarrow> k + length vs \<le> 4 \<Longrightarrow>
    \<exists>m'. store_bytes device_ops 2 (MSIP_BASE + of_nat k) vs m = Some (Inr (), m') \<and> bench_bus_ok m'"
proof (induction vs arbitrary: k m)
  case (Cons v vs)
  let ?a = "MSIP_BASE + of_nat k" and ?d = "slot_device (mm_devices m ! 2)"
  have dev: "2 < length (mm_devices m)" "devices_ok 3 bench_device m"
    using Cons.prems(1) by (auto simp: mm_ok_def devices_ok_def)
  then have "bench_device 2 ?d" by (simp add: devices_ok_def)
  then obtain d' where d': "ad_store8 device_ops ?a v ?d = Some (Inr (), d')"
    using msip_takes_byte [of ?d k v] Cons.prems(2) by (auto simp: bench_device_def)
  then obtain m1 where m1: "on_device 2 (ad_store8 device_ops ?a v) m = Some (Inr (), m1)"
    using dev(1) by (simp add: on_device_def)
  moreover have "access_post 3 bench_device m (\<lambda>_. True) (Inr ()) m1"
    using bench.store8_post [OF dev(2,1), of ?a v] m1 by simp
  ultimately have ok: "bench_bus_ok m1"
    using Cons.prems(1) same_bus_length [of m m1]
    by (cases "mm_compat_transaction m") (auto simp: access_post_def mm_ok_def single_client_def same_bus_def)
  show ?case using Cons.IH [OF ok, of "Suc k"] Cons.prems(2) m1 by (simp add: ac_simps)
qed simp

locale bench_cpu_model = processor "mm_ops device_ops" bench_bus_ok "cpu_step_cycle model" reset_cpu cinv
  for model :: "('c, device memory_map) cpu_model" and reset_cpu :: "'c \<Rightarrow> 'c" and cinv :: "'c \<Rightarrow> bool" +
  assumes hart_inv: "cinv c \<Longrightarrow> hart_ok (cpu_hart_state model c)"
    and hart_mut: "cinv c \<Longrightarrow> hart_ok (f (cpu_hart_state model c)) \<Longrightarrow> cinv (cpu_hart_state_mut model f c)"
begin

definition bench_ok :: "'c bench_machine \<Rightarrow> bool" where
  "bench_ok m \<longleftrightarrow> cinv (ms_cpu m) \<and> bench_bus_ok (ms_bus m)"

text \<open>Stepping until a condition holds returns after at least one and at most \<open>n\<close> cycles, or times out.\<close>

definition stepped :: "nat \<Rightarrow> string \<Rightarrow> 'c bench_machine \<Rightarrow> microbench_error + unit \<Rightarrow> 'c bench_machine \<Rightarrow> bool" where
  "stepped n name m r m' \<longleftrightarrow> bench_ok m' \<and>
     (r = Inl (BenchTimeout name) \<or> r = Inr () \<and> (\<exists>k. 0 < k \<and> k \<le> n \<and> ms_clock m' = ms_clock m + of_nat k))"

lemma until_steps:
  assumes "bench_ok m" "\<And>m. bench_ok m \<Longrightarrow> p m \<noteq> None"
  shows "wp (bench_until model n name p m) (stepped n name m)"
  using assms(1) unfolding bench_until_def
proof (induction n arbitrary: m)
  case 0
  then show ?case by (simp add: stepped_def)
next
  case (Suc n)
  obtain rep m1 where m1: "machine_step_cycle (mm_ops device_ops) (cpu_step_cycle model) m = Some (Inr rep, m1)"
      "ms_clock m1 = ms_clock m + 1" "bench_ok m1"
    using machine_step_safe [of m] Suc.prems by (auto simp: bench_ok_def)
  obtain b where b: "p m1 = Some b" using assms(2) [OF m1(3)] by blast
  show ?case
  proof (cases b)
    case True
    then show ?thesis using m1 b by (auto simp: bench_cpu_def stepped_def intro!: exI [of _ "1 :: nat"])
  next
    case False
    have "stepped (Suc n) name m r m'" if "stepped n name m1 r m'" for r m'
    proof -
      from that consider "r = Inl (BenchTimeout name)" "bench_ok m'"
        | k where "r = Inr ()" "bench_ok m'" "0 < k" "k \<le> n" "ms_clock m' = ms_clock m1 + of_nat k"
        by (auto simp: stepped_def)
      then show ?thesis
        by cases (auto simp: stepped_def m1(2) add.assoc intro!: exI [of _ "Suc k" for k])
    qed
    then show ?thesis using wp_mono [OF Suc.IH [OF m1(3)]] m1(1) b False by (simp add: bench_cpu_def)
  qed
qed

lemma reg_condition: "bench_ok m \<Longrightarrow> unat i < 32 \<Longrightarrow> reg_at_least model i v m \<noteq> None"
  using register_read_ok [of "registers (cpu_hart_state model (ms_cpu m))" i] hart_inv [of "ms_cpu m"]
  by (simp add: bench_ok_def reg_at_least_def read_reg_def hart_ok_def)

lemma write_csr_ok: "bench_ok m \<Longrightarrow> bench_ok (write_csr model a v m)"
  using hart_inv [of "ms_cpu m"] hart_mut [of "ms_cpu m" "\<lambda>s. s\<lparr>csrs := csr_write a v (csrs s)\<rparr>"]
  by (simp add: bench_ok_def write_csr_def hart_ok_def csr_write_ok)

lemma set_msip_ok:
  assumes "bench_ok m"
  shows "\<exists>m'. set_msip 2 v m = Some (Inr (), m') \<and> bench_ok m' \<and> ms_clock m' = ms_clock m"
  using msip_takes_bytes [of "ms_bus m" 0 "le_bytes32 v"] assms
  by (auto simp: set_msip_def bench_bus_def bench_ok_def)

lemma until_then:
  assumes "bench_ok m" "\<And>m. bench_ok m \<Longrightarrow> p m \<noteq> None" "\<And>m'. Q (Inl (BenchTimeout name)) m'"
    "\<And>m' k. bench_ok m' \<Longrightarrow> 0 < k \<Longrightarrow> k \<le> n \<Longrightarrow> ms_clock m' = ms_clock m + of_nat k \<Longrightarrow> wp (f () m') Q"
  shows "wp (and_then (bench_until model n name p m) f) Q"
proof -
  obtain r m' where r: "bench_until model n name p m = Some (r, m')" "stepped n name m r m'"
    using until_steps [where p = p and n = n and name = name, OF assms(1,2)] by (auto elim!: wp_elim)
  from r(2) consider "r = Inl (BenchTimeout name)"
    | k where "r = Inr ()" "bench_ok m'" "0 < k" "k \<le> n" "ms_clock m' = ms_clock m + of_nat k"
    by (auto simp: stepped_def)
  then show ?thesis using r(1) assms(3,4) by cases auto
qed

end

text \<open>A measurement of at most 64 cycles, or a timeout.\<close>

definition measured :: "u64 fallible \<Rightarrow> bool" where
  "measured x \<longleftrightarrow> (\<exists>n. x = Some (Inr n) \<and> 0 < n \<and> n \<le> 64) \<or> (\<exists>name. x = Some (Inl (BenchTimeout name)))"

text \<open>A range that overlaps no other is mapped behind the others.\<close>

lemma mapped_fresh:
  assumes "\<forall>s \<in> set (mm_devices m). \<not> range_overlaps (slot_range s) (ad_range device_ops d)"
  shows "mapped d m = Some (Inr (m\<lparr>mm_devices := mm_devices m @
    [\<lparr>slot_range = ad_range device_ops d, slot_name = ad_name device_ops d, slot_device = d\<rparr>]\<rparr>))"
proof -
  have "ensure_range_available r name ss = Inr ()" if "\<forall>s \<in> set ss. \<not> range_overlaps (slot_range s) r"
    for r name and ss :: "device device_slot list"
    using that by (induction ss) simp_all
  from this [OF assms] show ?thesis
    by (simp add: mapped_def map_device_def settled_state_def bench_bus_def)
qed

lemma word_in_keeps:
  assumes "byte_memory dev dinv content" "dinv d" "\<forall>k < 4. range_contains (ad_range dev d) (a + of_nat k)"
  shows "\<exists>d'. word_in dev a v d = Some (Inr d') \<and> dinv d' \<and> ad_range dev d' = ad_range dev d"
  using byte_memory.write_word_content [OF assms, of v] by (auto simp: word_in_def settled_state_def)

lemma power_64: "Memory_Devices.is_power_of_two 64"
  unfolding Memory_Devices.is_power_of_two_def by (rule bexI [of _ 6]) simp_all

lemma bench_dram_eq:
  "\<exists>d. bench_dram = Some (Inr d) \<and> dram_ok d \<and> dram_range d = ram_area"
  by (simp add: bench_dram_def dram_config_new_def power_64 dram_ok_def dram_new_def RAM_BYTES_def unat_of_nat)

lemma program_bytes: "length (concat (map le_bytes32 ws)) = 4 * length ws"
  by (induction ws) simp_all

lemma program_lengths: "length idle_interrupt_program = 14" "length loaded_interrupt_program = 14"
  by (simp_all add: idle_interrupt_program_def loaded_interrupt_program_def)

text \<open>The bus of the interrupt benchmark: ROM, DRAM and the software interrupt device.\<close>

lemma interrupt_bus:
  assumes "length program = 14" "dram_ok dram" "dram_range dram = ram_area"
  shows "\<exists>b. bench_bus_ok b \<and> (\<forall>f. ok_then (mapped (Plain (DevRom (rom_from_words 0 program))) memory_map_new) (\<lambda>memory.
      ok_then (mapped (Plain (DevDram dram)) memory) (\<lambda>memory.
      let msip = length (mm_devices memory) in
      ok_then (mapped (Plain (DevMachineSoftware (software_interrupt_new MSIP_BASE))) memory) (\<lambda>memory. f memory msip))) =
    f b 2)"
proof -
  let ?slot = "\<lambda>d. \<lparr>slot_range = ad_range device_ops d, slot_name = ad_name device_ops d, slot_device = d\<rparr>"
  let ?rom = "Plain (DevRom (rom_from_words 0 program))" and ?dram = "Plain (DevDram dram)"
    and ?msip = "Plain (DevMachineSoftware (software_interrupt_new MSIP_BASE))"
  have ranges: "ad_range device_ops ?rom = \<lparr>range_start = 0, range_size = 56\<rparr>"
    "ad_range device_ops ?dram = \<lparr>range_start = 0x10000000, range_size = 0x1000\<rparr>"
    "ad_range device_ops ?msip = \<lparr>range_start = 0x50000000, range_size = 4\<rparr>"
    using assms(1,3)
    by (simp_all add: device_ops_def plain_ops_def rom_ops_def dram_ops_def machine_software_interrupt_ops_def si_ops_def
        rom_from_words_def software_interrupt_new_def Let_def program_bytes RAM_BASE_def RAM_BYTES_def MSIP_BASE_def)
  let ?b = "memory_map_new\<lparr>mm_devices := [?slot ?rom, ?slot ?dram, ?slot ?msip]\<rparr>"
  have "bench_device k (slot_device (mm_devices ?b ! k))" if "k < length (mm_devices ?b)" for k
  proof -
    from that have "k < 3" by simp
    then consider "k = 0" | "k = 1" | "k = 2" by linarith
    then show ?thesis using assms(2) by cases (simp_all add: bench_device_def software_interrupt_new_def si_ok_def)
  qed
  then have "bench_bus_ok ?b" by (simp add: mm_ok_def devices_ok_def single_client_def memory_map_new_def)
  moreover have "mapped ?rom memory_map_new = Some (Inr (memory_map_new\<lparr>mm_devices := [?slot ?rom]\<rparr>))"
    by (simp add: mapped_fresh memory_map_new_def)
  moreover have "mapped ?dram (memory_map_new\<lparr>mm_devices := [?slot ?rom]\<rparr>) =
      Some (Inr (memory_map_new\<lparr>mm_devices := [?slot ?rom, ?slot ?dram]\<rparr>))"
    by (subst mapped_fresh) (simp_all add: ranges range_overlaps_def range_end_def memory_map_new_def)
  moreover have "mapped ?msip (memory_map_new\<lparr>mm_devices := [?slot ?rom, ?slot ?dram]\<rparr>) = Some (Inr ?b)"
    by (subst mapped_fresh) (simp_all add: ranges range_overlaps_def range_end_def memory_map_new_def)
  ultimately show ?thesis by (intro exI [of _ ?b]) (simp add: numeral_2_eq_2)
qed

context bench_cpu_model begin

lemma interrupt_machine:
  assumes "cinv (make_cpu 0)"
  shows "\<exists>m. build_interrupt_machine model make_cpu load = Some (Inr (m, 2)) \<and> bench_ok m"
proof -
  let ?p = "case load of Idle \<Rightarrow> idle_interrupt_program | Loaded \<Rightarrow> loaded_interrupt_program"
  obtain d where d: "bench_dram = Some (Inr d)" "dram_ok d" "dram_range d = ram_area" using bench_dram_eq by blast
  have "\<forall>k < 4. range_contains (ad_range dram_ops d) (RAM_BASE + of_nat k)"
    using d(3) by (simp add: dram_ops_def range_contains_unat range_ok_def RAM_BASE_def RAM_BYTES_def unat_word_ariths unat_of_nat)
  then obtain d' where d': "word_in dram_ops RAM_BASE 0xfeedface d = Some (Inr d')" "dram_ok d'" "dram_range d' = ram_area"
    using word_in_keeps [OF dram.byte_memory_axioms d(2), of RAM_BASE "0xfeedface"] d(3) by (auto simp: dram_ops_def)
  have "length ?p = 14" using program_lengths by (cases load) simp_all
  from interrupt_bus [OF this d'(2,3)] obtain b where b: "bench_bus_ok b"
      "\<And>f :: device memory_map \<Rightarrow> nat \<Rightarrow> ('c bench_machine \<times> nat) fallible.
        ok_then (mapped (Plain (DevRom (rom_from_words 0 ?p))) memory_map_new) (\<lambda>memory.
        ok_then (mapped (Plain (DevDram d')) memory) (\<lambda>memory.
        let msip = length (mm_devices memory) in
        ok_then (mapped (Plain (DevMachineSoftware (software_interrupt_new MSIP_BASE))) memory) (\<lambda>memory. f memory msip))) =
      f b 2"
    by blast
  have "bench_ok (machine_new (make_cpu 0) b)" using b(1) assms by (simp add: bench_ok_def machine_new_def)
  note ok = write_csr_ok [OF write_csr_ok [OF write_csr_ok [OF this]]]
  note build = b(2) [of "\<lambda>memory msip. Some (Inr (write_csr model Mtvec 0x20 (write_csr model Mie (push_bit 3 1)
    (write_csr model Mstatus (push_bit 3 1) (machine_new (make_cpu 0) memory))), msip))"]
  show ?thesis
    unfolding build_interrupt_machine_def Let_def RESET_VECTOR_def unsigned_0 d(1) ok_then_simps d'(1)
      build [unfolded Let_def] using ok by simp
qed

lemma interrupt_latency:
  assumes "cinv (make_cpu 0)"
  shows "measured (measure_interrupt_latency model make_cpu load)"
proof -
  obtain m where m: "build_interrupt_machine model make_cpu load = Some (Inr (m, 2))" "bench_ok m"
    using interrupt_machine [of make_cpu load] assms by blast
  define Q where "Q = (\<lambda>(r :: microbench_error + u64) (m' :: 'c bench_machine).
    (\<exists>n. r = Inr n \<and> 0 < n \<and> n \<le> 64) \<or> (\<exists>name. r = Inl (BenchTimeout name)))"
  have late: "Q (Inl (BenchTimeout name)) m'" for name m' by (simp add: Q_def)
  have handler: "wp (and_then (set_msip 2 1 m1) (\<lambda>_ m2.
      and_then (bench_until model 64 ''interrupt handler'' (reg_at_least model 10 1) m2) (\<lambda>_ m3.
      and_then (set_msip 2 0 m3) (\<lambda>_ m4. Some (Inr (ms_clock m4 - ms_clock m1), m4))))) Q" if m1: "bench_ok m1" for m1
  proof -
    obtain m2 where m2: "set_msip 2 1 m1 = Some (Inr (), m2)" "bench_ok m2" "ms_clock m2 = ms_clock m1"
      using set_msip_ok [OF m1] by blast
    have "wp (and_then (set_msip 2 0 m3) (\<lambda>_ m4. Some (Inr (ms_clock m4 - ms_clock m1), m4))) Q"
      if m3: "bench_ok m3" "0 < k" "k \<le> 64" "ms_clock m3 = ms_clock m2 + of_nat k" for m3 k
    proof -
      obtain m4 where "set_msip 2 0 m3 = Some (Inr (), m4)" "ms_clock m4 = ms_clock m3" using set_msip_ok [OF m3(1)] by blast
      moreover have "(0 :: u64) < of_nat k" "(of_nat k :: u64) \<le> 64"
        using m3(2,3) by (simp_all add: word_less_nat_alt word_le_nat_alt unat_of_nat)
      ultimately show ?thesis using m2(3) m3(4) by (simp add: Q_def)
    qed
    then have "wp (and_then (bench_until model 64 ''interrupt handler'' (reg_at_least model 10 1) m2) (\<lambda>_ m3.
        and_then (set_msip 2 0 m3) (\<lambda>_ m4. Some (Inr (ms_clock m4 - ms_clock m1), m4)))) Q"
      by (intro until_then [OF m2(2)] reg_condition late) simp_all
    then show ?thesis using m2(1) by simp
  qed
  have trigger: "wp (and_then (case load of
        Idle \<Rightarrow> Some (Inr (), m1)
      | Loaded \<Rightarrow> bench_until model 32 ''memory pressure trigger'' (\<lambda>m. Some (mm_is_busy (ms_bus m))) m1)
      (\<lambda>_ m1. let signal_cycle = ms_clock m1 in and_then (set_msip 2 1 m1) (\<lambda>_ m2.
      and_then (bench_until model 64 ''interrupt handler'' (reg_at_least model 10 1) m2) (\<lambda>_ m3.
      and_then (set_msip 2 0 m3) (\<lambda>_ m4. Some (Inr (ms_clock m4 - signal_cycle), m4)))))) Q" if "bench_ok m1" for m1
    using handler that unfolding Let_def by (cases load) (auto intro!: until_then late)
  have "wp (and_then (bench_until model 16 ''interrupt benchmark warmup''
      (\<lambda>m. Some (pc (cpu_hart_state model (ms_cpu m)) = (case load of Idle \<Rightarrow> 0 | Loaded \<Rightarrow> 4))) m) (\<lambda>_ m1.
      and_then (case load of
        Idle \<Rightarrow> Some (Inr (), m1)
      | Loaded \<Rightarrow> bench_until model 32 ''memory pressure trigger'' (\<lambda>m. Some (mm_is_busy (ms_bus m))) m1)
      (\<lambda>_ m1. let signal_cycle = ms_clock m1 in and_then (set_msip 2 1 m1) (\<lambda>_ m2.
      and_then (bench_until model 64 ''interrupt handler'' (reg_at_least model 10 1) m2) (\<lambda>_ m3.
      and_then (set_msip 2 0 m3) (\<lambda>_ m4. Some (Inr (ms_clock m4 - signal_cycle), m4))))))) Q"
    by (intro until_then [OF m(2)] late trigger) simp_all
  then show ?thesis using m(1)
    by (auto simp: measure_interrupt_latency_def measured_def Q_def elim!: wp_elim)
qed

end

interpretation reference_bench: bench_cpu_model "reference_model (mm_ops device_ops)" reference_reset reference_ok
proof (intro bench_cpu_model.intro bench_cpu_model_axioms.intro)
  show "processor (mm_ops device_ops) bench_bus_ok (cpu_step_cycle (reference_model (mm_ops device_ops))) reference_reset reference_ok"
    unfolding reference_model_def cpu_model.select_convs by (rule bus_safe.reference_processor [OF bench.mm.bus_safe_axioms])
qed (simp_all add: reference_model_def reference_ok_def)

interpretation pipeline_bench: bench_cpu_model "pipeline_model (mm_ops device_ops)" pipeline_reset pipeline_ok
proof (intro bench_cpu_model.intro bench_cpu_model_axioms.intro)
  show "processor (mm_ops device_ops) bench_bus_ok (cpu_step_cycle (pipeline_model (mm_ops device_ops))) pipeline_reset pipeline_ok"
    unfolding pipeline_model_def cpu_model.select_convs by (rule bus_safe.pipeline_processor [OF bench.mm.bus_safe_axioms])
qed (simp_all add: pipeline_model_def pipeline_ok_def)

section \<open>The loops of the memory benchmarks end\<close>

context memory_bus begin

lemma measure_stores_end:
  assumes "shows_memory f s" "quiet s" "\<forall>(a, v) \<in> set avs. allowed (Store32 a v)"
  shows "\<exists>k s'. measure_stores ops avs n s = Some (Inr k, s')"
  using assms
proof (induction avs arbitrary: f s n)
  case (Cons av avs)
  obtain a v where av: "av = (a, v)" by force
  obtain k s' where "measure_store32 ops a v s = Some (Inr k, s')" "shows_memory (memory_effect (Store32 a v) f) s'" "quiet s'"
    using measure_ends [of "Store32 a v" "\<lambda>_. []" "bus_store32 ops a v", OF _ Cons.prems(1)] Cons.prems(3)
      quiet_ready [OF Cons.prems(2)] av
    by (auto simp: measure_store32_def)
  then show ?case using Cons.IH [of _ s'] Cons.prems(3) av by simp
qed simp

end

subsection \<open>The memory of the write-back benchmark\<close>

definition pressure_cache :: cache_config where
  "pressure_cache = \<lparr>line_count = 1, line_size = 16, associativity = 1, cc_replacement = RoundRobin, cc_write = WriteBack,
     cc_allocation = WriteAllocate, cached_ranges = [ram_area]\<rparr>"

lemma pressure_config_built: "pressure_config = Some pressure_cache" "coherent_config pressure_cache"
proof -
  obtain c where c: "cache_config_new 1 [ram_area] = Some c"
    by (simp add: cache_config_new_def validated_def valid_ranges_def word_bytes_def RAM_BASE_def RAM_BYTES_def)
  obtain d where d: "with_line_size 16 c = Some d"
    using c by (auto simp: cache_config_new_def validated_def valid_ranges_def word_bytes_def RAM_BASE_def RAM_BYTES_def
        with_line_size_def Cache_Bank.is_power_of_two.simps)
  have "built (with_store_allocation_policy WriteAllocate (with_write_policy WriteBack d))"
    using built_line_size [OF built_new [OF c] d] by (intro built_allocation built_write) simp
  moreover have p: "pressure_cache = with_store_allocation_policy WriteAllocate (with_write_policy WriteBack d)"
    using c d by (auto simp: pressure_cache_def cache_config_new_def validated_def valid_ranges_def word_bytes_def RAM_BASE_def
        RAM_BYTES_def with_line_size_def with_store_allocation_policy_def with_write_policy_def split: if_splits)
  ultimately have "built pressure_cache" by simp
  then show "coherent_config pressure_cache" unfolding coherent_config_def by (simp add: pressure_cache_def)
  show "pressure_config = Some pressure_cache" using c d p by (simp add: pressure_config_def)
qed

lemma words_in_keeps:
  assumes "byte_memory dev dinv content"
  shows "dinv d \<Longrightarrow> \<forall>(a, v) \<in> set avs. \<forall>k < 4. range_contains (ad_range dev d) (a + of_nat k) \<Longrightarrow>
    \<exists>d'. words_in dev avs d = Some (Inr d') \<and> dinv d' \<and> ad_range dev d' = ad_range dev d"
proof (induction avs arbitrary: d)
  case (Cons av avs)
  obtain a v where av: "av = (a, v)" by force
  obtain d1 where "word_in dev a v d = Some (Inr d1)" "dinv d1" "ad_range dev d1 = ad_range dev d"
    using word_in_keeps [OF assms Cons.prems(1), of a v] Cons.prems(2) av by auto
  then show ?case using Cons.IH [of d1] Cons.prems(2) av by auto
qed simp

lemma pressure_bytes: "a \<in> set pressure_addresses \<Longrightarrow> k < 4 \<Longrightarrow>
    range_contains ram_area (a + of_nat k) \<and> cached_addresses pressure_cache (a + of_nat k) \<and> unat a mod 4 = 0"
proof -
  assume "a \<in> set pressure_addresses" "k < 4"
  then have "a \<in> {0x10000000, 0x10000010, 0x10000020, 0x10000030}" "k = 0 \<or> k = 1 \<or> k = 2 \<or> k = 3"
    by (auto simp: pressure_addresses_def RAM_BASE_def)
  then show ?thesis
    by (elim insertE emptyE disjE) (simp_all add: cached_addresses_def caches_line_containing_def caches_line_def
        line_base_def cache_bank_new_def pressure_cache_def checked_add_def range_contains_def range_end_def RAM_BASE_def RAM_BYTES_def)
qed

lemma slow_memory_home:
  assumes "ram_ok d" "ram_range d = ram_area"
  shows "\<exists>m. slow_memory d n = Some (Inr m) \<and> map_home 0 ram_area (cached_addresses pressure_cache) [] m"
proof -
  let ?d = "Delayed \<lparr>la_inner = DevRam d, la_latency_cycles = n\<rparr>"
  let ?m = "memory_map_new\<lparr>mm_devices := [\<lparr>slot_range = ram_area, slot_name = ad_name device_ops ?d, slot_device = ?d\<rparr>]\<rparr>"
  have r: "ad_range device_ops ?d = ram_area"
    using assms(2) by (simp add: device_ops_def delayed_ops_def latency_ops_def plain_ops_def ram_ops_def)
  have "slow_memory d n = Some (Inr ?m)" using r by (simp add: slow_memory_def mapped_fresh memory_map_new_def)
  moreover have "range_contains ram_area a" if "cached_addresses pressure_cache a" for a
    using cacheable_address [OF new_bank_shaped(1), of pressure_cache a] that pressure_config_built(2)
    by (simp add: coherent_config_def cached_addresses_def caches_address_def config_caches_address_def cache_bank_new_def
        pressure_cache_def)
  then have "map_home 0 ram_area (cached_addresses pressure_cache) [] ?m"
    using assms r by (auto simp: map_home_def mm_ok_def devices_ok_def single_client_def memory_map_new_def memory_slot_def
        slot_bytes_def find_device_index_def)
  ultimately show ?thesis by blast
qed

lemma write_back_ends:
  "\<exists>r. run_write_back_pressure_benchmark = Some (Inr r) \<and> wb_stores r = 4"
proof -
  let ?w = "zip pressure_addresses [0, 1, 2, 3 :: u32]" and ?s = "zip pressure_addresses [0x1000, 0x1001, 0x1002, 0x1003 :: u32]"
  have r: "ram_ok (ram_new RAM_BASE RAM_BYTES)" "ram_range (ram_new RAM_BASE RAM_BYTES) = ram_area"
    by (simp_all add: ram_ok_new RAM_BYTES_def) (simp add: ram_new_def)
  have "\<forall>(a, v) \<in> set ?w. \<forall>k < 4. range_contains (ad_range ram_ops (ram_new RAM_BASE RAM_BYTES)) (a + of_nat k)"
    using pressure_bytes r(2) by (auto simp: ram_ops_def dest!: set_zip_leftD)
  then obtain d where d: "words_in ram_ops ?w (ram_new RAM_BASE RAM_BYTES) = Some (Inr d)" "ram_ok d" "ram_range d = ram_area"
    using words_in_keeps [OF ram.byte_memory_axioms r(1), of ?w] r(2) by (auto simp: ram_ops_def)
  obtain m where m: "slow_memory d 4 = Some (Inr m)" "map_home 0 ram_area (cached_addresses pressure_cache) [] m"
    using slow_memory_home [OF d(2,3)] by blast
  have "\<forall>(a, v) \<in> set ?s. access_fits (cached_addresses pressure_cache) (Store32 a v)"
    using pressure_bytes pressure_bytes [of _ 0] by (auto simp: access_fits_def dest!: set_zip_leftD)
  moreover have "cb_pending (uc_bank (unified_cache_new m pressure_cache)) = None"
    by (simp add: unified_cache_new_def cache_bank_new_def)
  ultimately obtain k c where "measure_stores bench_cache_ops ?s 0 (unified_cache_new m pressure_cache) = Some (Inr k, c)"
    using unified.measure_stores_end [OF new_unified(3) [OF m(2) pressure_config_built(2)]] by blast
  then show ?thesis
    unfolding run_write_back_pressure_benchmark_def d(1) m(1) pressure_config_built(1) ok_then_simps or_panic_simps
    by (simp add: with_stats_def)
qed

section \<open>The benchmarks return\<close>

definition sample_bounded :: "interrupt_latency_sample \<Rightarrow> bool" where
  "sample_bounded s \<longleftrightarrow> 0 < idle_cycles s \<and> idle_cycles s \<le> 64 \<and> 0 < loaded_cycles s \<and> loaded_cycles s \<le> 64"

lemma measuredE:
  assumes "measured x"
  obtains (cycles) n where "x = Some (Inr n)" "0 < n" "n \<le> 64" | (timeout) name where "x = Some (Inl (BenchTimeout name))"
  using assms by (auto simp: measured_def)

lemma both_cores_measured:
  "measured (measure_interrupt_latency (reference_model (mm_ops device_ops)) reference_new load)"
  "measured (measure_interrupt_latency (pipeline_model (mm_ops device_ops)) pipeline_new load)"
  by (rule reference_bench.interrupt_latency, rule reference_ok_new)
    (rule pipeline_bench.interrupt_latency, rule pipeline_ok_new)

text \<open>
  C34. The microbenchmarks return. The write-back benchmark, whose loops over a busy cache have no
  bound, ends: its four stores go through a write-back cache of one line over a slow RAM, and it
  reports four stores. The interrupt benchmark, for both cores and both loads, ends with latencies
  of one to 64 cycles, or with a timeout: no fetch, load, trap or interrupt of its programs makes
  a core or the bus fail or panic.
\<close>

theorem benchmarks_return:
  "(\<exists>r. run_write_back_pressure_benchmark = Some (Inr r) \<and> wb_stores r = 4) \<and>
   ((\<exists>r. run_interrupt_latency_benchmark = Some (Inr r) \<and> sample_bounded (il_reference r) \<and> sample_bounded (il_pipeline r)) \<or>
    (\<exists>name. run_interrupt_latency_benchmark = Some (Inl (BenchTimeout name))))"
proof
  show "(\<exists>r. run_interrupt_latency_benchmark = Some (Inr r) \<and> sample_bounded (il_reference r) \<and> sample_bounded (il_pipeline r)) \<or>
      (\<exists>name. run_interrupt_latency_benchmark = Some (Inl (BenchTimeout name)))"
    using both_cores_measured [of Idle] both_cores_measured [of Loaded]
    unfolding run_interrupt_latency_benchmark_def Let_def by (elim measuredE) (simp_all add: sample_bounded_def)
qed (rule write_back_ends)

end
