(* ===== verification/Computer.thy ===== *)
theory Computer
  imports Microbench
begin

text \<open>
  The computer (\<open>apps/computer/src/main.rs\<close>): a reference core over a split first-level cache, a
  unified second level, an arbiter with a DMA controller, and a memory map of seven devices; and the
  script of host accesses that the program makes to it, with the values it prints. The shared DMA
  controller is the handle of its slot. The trait \<open>CacheMaintenance\<close> of the map and of the arbiter
  (\<open>crates/system/src/memory_map.rs\<close> and \<open>arbiter.rs\<close>) is here too.
\<close>

section \<open>Maintenance below the caches\<close>

definition mm_maintenance_ops :: "'d memory_map maintenance_ops" where
  "mm_maintenance_ops =
     \<lparr>mt_write_back_range = (\<lambda>_ _ m. Some (Inr (), m)), mt_invalidate_range = (\<lambda>_ _ m. Some (Inr (), m))\<rparr>"

definition arbiter_maintenance_ops :: "('b, 'z) maintenance_ops_scheme \<Rightarrow> ('m, 'b) arbiter maintenance_ops" where
  "arbiter_maintenance_ops mt =
     \<lparr>mt_write_back_range = (\<lambda>start len a. map_option (\<lambda>(r, b). (r, a\<lparr>arb_inner := b\<rparr>))
        (mt_write_back_range mt start len (arb_inner a))),
      mt_invalidate_range = (\<lambda>start len a. map_option (\<lambda>(r, b). (r, a\<lparr>arb_inner := b\<rparr>))
        (mt_invalidate_range mt start len (arb_inner a)))\<rparr>"

section \<open>The machine\<close>

definition CACHED_RAM_BYTES :: u64 where "CACHED_RAM_BYTES = 0x800"
definition UART_BASE :: u64 where "UART_BASE = 0x20000000"
definition INTERRUPT_CONTROLLER_BASE :: u64 where "INTERRUPT_CONTROLLER_BASE = 0x40000000"
definition DMA_BASE :: u64 where "DMA_BASE = 0x60000000"
definition BLOCK_DEVICE_BASE :: u64 where "BLOCK_DEVICE_BASE = 0x70000000"
definition DMA_SOURCE :: u64 where "DMA_SOURCE = RAM_BASE + 0x40"
definition DMA_DESTINATION :: u64 where "DMA_DESTINATION = RAM_BASE + 0x80"

definition computer_program :: "u32 list" where
  "computer_program =
     [0x00500093, 0x00a00113, 0x002081b3, 0x10000237, 0x00322023, 0x00022283, 0x0000006f, 0, 0x00130313, 0x30200073,
      0, 0, 0, 0, 0, 0]"

definition first_block :: "u8 list" where
  "first_block = [0x44, 0x33, 0x22, 0x11, 0x88, 0x77, 0x66, 0x55, 0xcc, 0xbb, 0xaa, 0x99, 0x00, 0xff, 0xee, 0xdd]"

type_synonym fabric = "(nat, device memory_map) arbiter"
type_synonym computer_bus = "fabric unified_cache split_cache"
type_synonym computer = "(reference_core, computer_bus) Machine.machine_state"

abbreviation fabric_bus :: "fabric burst_ops" where
  "fabric_bus \<equiv> arbiter_ops (mm_ops device_ops) shared_dma"

definition computer_ops :: "computer_bus bus_ops" where
  "computer_ops = sc_ops (uc_ops fabric_bus)"

definition computer_maintenance :: "computer_bus maintenance_ops" where
  "computer_maintenance =
     sc_maintenance_ops (uc_ops fabric_bus) (uc_maintenance_ops fabric_bus (arbiter_maintenance_ops mm_maintenance_ops))"

definition computer_core :: "(reference_core, computer_bus) cpu_model" where
  "computer_core = reference_model computer_ops"

abbreviation rom_window :: address_range where
  "rom_window \<equiv> \<lparr>range_start = ucast RESET_VECTOR, range_size = 0x1000\<rparr>"

abbreviation ram_window :: address_range where
  "ram_window \<equiv> \<lparr>range_start = RAM_BASE, range_size = CACHED_RAM_BYTES\<rparr>"

definition write_back_cache :: "cache_config \<Rightarrow> cache_config" where
  "write_back_cache c = with_store_allocation_policy WriteAllocate (with_write_policy WriteBack
     (with_replacement_policy LeastRecentlyUsed c))"

definition l2_config :: "cache_config option" where
  "l2_config = map_option write_back_cache
     (Option.bind (Option.bind (cache_config_new 128 [rom_window, ram_window]) (with_line_size 32)) (with_associativity 4))"

definition l1_instruction_config :: "cache_config option" where
  "l1_instruction_config = map_option (with_replacement_policy LeastRecentlyUsed)
     (Option.bind (Option.bind (cache_config_new 64 [rom_window]) (with_line_size 16)) (with_associativity 2))"

definition l1_data_config :: "cache_config option" where
  "l1_data_config = map_option write_back_cache
     (Option.bind (Option.bind (cache_config_new 64 [ram_window]) (with_line_size 16)) (with_associativity 2))"

definition computer_block :: "block_device fallible" where
  "computer_block =
     ok_then (or_panic (block_device_new BLOCK_DEVICE_BASE 4 16 3)) (\<lambda>d.
     settled_state (bench_bus (write_block_contents 0 first_block d)))"

text \<open>The map and the handle of the DMA controller.\<close>

definition computer_map :: "(device memory_map \<times> nat) fallible" where
  "computer_map =
     ok_then computer_block (\<lambda>block.
     ok_then (mapped (Plain (DevRom (rom_from_words (ucast RESET_VECTOR) computer_program))) memory_map_new) (\<lambda>m.
     ok_then (or_panic (dram_config_new 64 6 2 1)) (\<lambda>timing.
     ok_then (mapped (Plain (DevDram (dram_new RAM_BASE 0x1000 timing))) m) (\<lambda>m.
     ok_then (mapped (Plain (DevUart (simple_uart_new UART_BASE))) m) (\<lambda>m.
     ok_then (mapped (Plain (DevInterruptController (interrupt_controller_new INTERRUPT_CONTROLLER_BASE))) m) (\<lambda>m.
     ok_then (mapped (Plain (DevMachineSoftware (software_interrupt_new MSIP_BASE))) m) (\<lambda>m.
     ok_then (mapped (Plain (DevBlock block)) m) (\<lambda>m.
     let dma = length (mm_devices m) in
     ok_then (mapped (Plain (DevDma (dma_controller_new DMA_BASE))) m) (\<lambda>m.
     Some (Inr (m, dma)))))))))))"

text \<open>The machine and the handle of the DMA controller.\<close>

definition build_computer :: "(computer \<times> nat) fallible" where
  "build_computer =
     ok_then computer_map (\<lambda>(m, dma).
     ok_then (or_panic l2_config) (\<lambda>l2.
     ok_then (or_panic l1_instruction_config) (\<lambda>l1i.
     ok_then (or_panic l1_data_config) (\<lambda>l1d.
     let fabric = add_master dma (arbiter_new m);
         machine = machine_new (reference_new RESET_VECTOR) (split_cache_new (unified_cache_new fabric l2) l1i l1d);
         machine = write_csr computer_core Mstatus (push_bit 3 1) machine;
         machine = write_csr computer_core Mie (push_bit 3 1 OR push_bit 11 1) machine;
         machine = write_csr computer_core Mtvec 0x20 machine
     in Some (Inr (machine, dma))))))"

section \<open>Host accesses\<close>

text \<open>The box of errors of \<open>main\<close>; \<open>step_machine\<close> prints and is the step of the machine.\<close>

definition step_machine :: "computer \<Rightarrow> (microbench_error + cpu_cycle, computer) outcome" where
  "step_machine m = bench_cpu (machine_step_cycle computer_ops (cpu_step_cycle computer_core) m)"

text \<open>Unlike the function of the microbenchmarks, \<open>step_until\<close> succeeds when the cycles run out.\<close>

fun computer_until :: "nat \<Rightarrow> (computer \<Rightarrow> bool option) \<Rightarrow> computer \<Rightarrow> (microbench_error + unit, computer) outcome" where
  "computer_until 0 p m = Some (Inr (), m)"
| "computer_until (Suc n) p m =
     and_then (step_machine m) (\<lambda>_ m.
       case p m of None \<Rightarrow> None | Some b \<Rightarrow> if b then Some (Inr (), m) else computer_until n p m)"

text \<open>The loop of the host functions: a machine cycle after each \<open>Busy\<close>.\<close>

partial_function (option) host_retry ::
  "(computer_bus, 'r) bus_call \<Rightarrow> computer \<Rightarrow> (microbench_error + 'r, computer) outcome" where
  "host_retry f m =
     Option.bind (f (ms_bus m)) (\<lambda>(r, b).
       case r of
         Inr v \<Rightarrow> Some (Inr v, m\<lparr>ms_bus := b\<rparr>)
       | Inl (Busy _) \<Rightarrow>
           Option.bind (step_machine (m\<lparr>ms_bus := b\<rparr>)) (\<lambda>(q, m).
             case q of Inl e \<Rightarrow> Some (Inl e, m) | Inr _ \<Rightarrow> host_retry f m)
       | Inl e \<Rightarrow> Some (Inl (BenchBus e), m\<lparr>ms_bus := b\<rparr>))"

declare host_retry.simps [code]

definition host_store32 :: "u64 \<Rightarrow> u32 \<Rightarrow> computer \<Rightarrow> (microbench_error + unit, computer) outcome" where
  "host_store32 a v = host_retry (bus_store32 computer_ops a v)"

definition host_load32 :: "u64 \<Rightarrow> computer \<Rightarrow> (microbench_error + u32, computer) outcome" where
  "host_load32 a = host_retry (bus_load32 computer_ops a)"

definition host_write_back_range :: "u64 \<Rightarrow> u64 \<Rightarrow> computer \<Rightarrow> (microbench_error + unit, computer) outcome" where
  "host_write_back_range start len = host_retry (mt_write_back_range computer_maintenance start len)"

definition host_invalidate_range :: "u64 \<Rightarrow> u64 \<Rightarrow> computer \<Rightarrow> (microbench_error + unit, computer) outcome" where
  "host_invalidate_range start len = host_retry (mt_invalidate_range computer_maintenance start len)"

fun host_stores :: "(u64 \<times> u32) list \<Rightarrow> computer \<Rightarrow> (microbench_error + unit, computer) outcome" where
  "host_stores [] m = Some (Inr (), m)"
| "host_stores ((a, v) # avs) m = and_then (host_store32 a v m) (\<lambda>_. host_stores avs)"

text \<open>The loop that waits for the block device.\<close>

partial_function (option) wait_block :: "computer \<Rightarrow> (microbench_error + u32, computer) outcome" where
  "wait_block m =
     Option.bind (host_load32 (BLOCK_DEVICE_BASE + 4) m) (\<lambda>(r, m).
       case r of
         Inl e \<Rightarrow> Some (Inl e, m)
       | Inr status \<Rightarrow>
           if status AND 8 \<noteq> 0 then Some (Inr status, m)
           else Option.bind (step_machine m) (\<lambda>(q, m). case q of Inl e \<Rightarrow> Some (Inl e, m) | Inr _ \<Rightarrow> wait_block m))"

declare wait_block.simps [code]

section \<open>The script\<close>

definition fabric_of :: "computer \<Rightarrow> fabric" where
  "fabric_of m = uc_inner (sc_inner (ms_bus m))"

definition handler_ran :: "u32 \<Rightarrow> computer \<Rightarrow> bool option" where
  "handler_ran n m =
     map_option (\<lambda>x. x \<ge> n \<and> pc (cpu_hart_state computer_core (ms_cpu m)) = 0x18) (read_reg computer_core 6 m)"

definition read_mcause :: "computer \<Rightarrow> u32" where
  "read_mcause m = csr_read (csrs (cpu_hart_state computer_core (ms_cpu m))) Mcause"

text \<open>The values that the program prints at its end.\<close>

record computer_report =
  rp_x3 :: u32
  rp_x5 :: u32
  rp_interrupts_seen :: u32
  rp_claimed_source :: u32
  rp_external_mcause :: u32
  rp_software_mcause :: u32
  rp_instruction_cache :: cache_stats
  rp_data_cache :: cache_stats
  rp_l2 :: cache_stats
  rp_arbiter :: arbiter_stats
  rp_dma_done :: bool
  rp_dma_status :: u32
  rp_dma_words :: u32
  rp_dma_word0 :: u32
  rp_dma_word1 :: u32
  rp_block_status :: u32
  rp_block_word0 :: u32
  rp_block_word1 :: u32

definition dma_finished :: "nat \<Rightarrow> computer \<Rightarrow> bool option" where
  "dma_finished dma m = map_option dc_done (dma_at dma (arb_inner (fabric_of m)))"

definition interrupt_script :: "computer \<Rightarrow> (microbench_error + u32 \<times> u32 \<times> u32, computer) outcome" where
  "interrupt_script m =
     and_then (computer_until 64 (\<lambda>m. map_option (\<lambda>x. x = 15) (read_reg computer_core 5 m)) m) (\<lambda>_ m.
     and_then (host_stores [(INTERRUPT_CONTROLLER_BASE + 4, 1), (INTERRUPT_CONTROLLER_BASE + 8, 1)] m) (\<lambda>_ m.
     and_then (computer_until 64 (handler_ran 1) m) (\<lambda>_ m.
     let external_mcause = read_mcause m in
     and_then (host_load32 (INTERRUPT_CONTROLLER_BASE + 12) m) (\<lambda>claimed_source m.
     and_then (host_stores [(INTERRUPT_CONTROLLER_BASE + 12, claimed_source), (MSIP_BASE, 1)] m) (\<lambda>_ m.
     and_then (computer_until 64 (handler_ran 2) m) (\<lambda>_ m.
     let software_mcause = read_mcause m in
     and_then (host_store32 MSIP_BASE 0 m) (\<lambda>_ m.
     Some (Inr (claimed_source, external_mcause, software_mcause), m))))))))"

definition dma_script :: "nat \<Rightarrow> computer \<Rightarrow> (microbench_error + u32 \<times> u32 \<times> u32 \<times> u32, computer) outcome" where
  "dma_script dma m =
     and_then (host_stores [(DMA_SOURCE, 0xcafebabe), (DMA_SOURCE + 4, 0x0badf00d)] m) (\<lambda>_ m.
     and_then (host_load32 DMA_DESTINATION m) (\<lambda>_ m.
     and_then (host_load32 (DMA_DESTINATION + 4) m) (\<lambda>_ m.
     and_then (host_write_back_range DMA_SOURCE 8 m) (\<lambda>_ m.
     and_then (host_stores [(DMA_BASE, ucast DMA_SOURCE), (DMA_BASE + 4, ucast DMA_DESTINATION), (DMA_BASE + 8, 2),
       (DMA_BASE + 12, 1 OR 8)] m) (\<lambda>_ m.
     and_then (computer_until 32 (dma_finished dma) m) (\<lambda>_ m.
     and_then (host_invalidate_range DMA_DESTINATION 8 m) (\<lambda>_ m.
     and_then (host_load32 DMA_DESTINATION m) (\<lambda>word0 m.
     and_then (host_load32 (DMA_DESTINATION + 4) m) (\<lambda>word1 m.
     and_then (host_load32 (DMA_BASE + 12) m) (\<lambda>status m.
     and_then (host_load32 (DMA_BASE + 16) m) (\<lambda>transferred m.
     Some (Inr (word0, word1, status, transferred), m))))))))))))"

definition block_script :: "computer \<Rightarrow> (microbench_error + u32 \<times> u32 \<times> u32, computer) outcome" where
  "block_script m =
     and_then (host_stores [(BLOCK_DEVICE_BASE, 0), (BLOCK_DEVICE_BASE + 4, 1)] m) (\<lambda>_ m.
     and_then (wait_block m) (\<lambda>status m.
     and_then (host_load32 (BLOCK_DEVICE_BASE + 16) m) (\<lambda>word0 m.
     and_then (host_load32 (BLOCK_DEVICE_BASE + 20) m) (\<lambda>word1 m.
     Some (Inr (status, word0, word1), m)))))"

definition run_computer :: "computer_report fallible" where
  "run_computer =
     ok_then build_computer (\<lambda>(machine, dma).
     map_option fst (
       and_then (interrupt_script machine) (\<lambda>(claimed, external, software) m.
       and_then (dma_script dma m) (\<lambda>(word0, word1, status, transferred) m.
       and_then (block_script m) (\<lambda>(block_status, block0, block1) m.
       case (read_reg computer_core 3 m, read_reg computer_core 5 m, read_reg computer_core 6 m, dma_finished dma m) of
         (Some x3, Some x5, Some x6, Some dma_done) \<Rightarrow>
           Some (Inr \<lparr>rp_x3 = x3, rp_x5 = x5, rp_interrupts_seen = x6, rp_claimed_source = claimed,
             rp_external_mcause = external, rp_software_mcause = software,
             rp_instruction_cache = cb_stats (sc_instruction (ms_bus m)), rp_data_cache = cb_stats (sc_data (ms_bus m)),
             rp_l2 = cb_stats (uc_bank (sc_inner (ms_bus m))), rp_arbiter = arb_stats (fabric_of m), rp_dma_done = dma_done, rp_dma_status = status, rp_dma_words = transferred, rp_dma_word0 = word0,
             rp_dma_word1 = word1, rp_block_status = block_status, rp_block_word0 = block0, rp_block_word1 = block1\<rparr>, m)
       | _ \<Rightarrow> None)))))"

end
