(* ===== verification/Deadlock.thy ===== *)
theory Deadlock
  imports System
begin

text \<open>
  A state that the pipelined core cannot leave: a load or a store is in the memory stage while the
  blocking slot of the memory map still holds an instruction fetch. The access is answered \<open>Busy\<close>,
  the stall keeps the fetch from being repeated, and only repeating it would free the slot.
\<close>

text \<open>The payload makes an access of the data side, at an aligned address.\<close>

fun data_access :: "instruction_kind \<Rightarrow> u32 \<Rightarrow> bool" where
  "data_access (Load kind) a \<longleftrightarrow>
     (case kind of LoadWord \<Rightarrow> a mod 4 = 0 | LoadHalf \<Rightarrow> a mod 2 = 0 | LoadHalfUnsigned \<Rightarrow> a mod 2 = 0 | _ \<Rightarrow> True)"
| "data_access (Store kind) a \<longleftrightarrow>
     (case kind of StoreWord \<Rightarrow> a mod 4 = 0 | StoreHalf \<Rightarrow> a mod 2 = 0 | StoreByte \<Rightarrow> True)"
| "data_access _ a \<longleftrightarrow> False"

definition bare :: "csr_file \<Rightarrow> bool" where
  "bare c \<longleftrightarrow> drop_bit 31 (csr_read c Satp) \<noteq> 1"

definition fetch_holds_bus :: "'d memory_map \<Rightarrow> bool" where
  "fetch_holds_bus m \<longleftrightarrow>
     (case mm_compat_transaction m of Some x \<Rightarrow> tr_kind (ct_request x) = Fetch | None \<Rightarrow> False)"

definition wedged :: "pipeline_core \<Rightarrow> 'd memory_map \<Rightarrow> bool" where
  "wedged c m \<longleftrightarrow>
     \<not> halted (pl_state c) \<and> bare (csrs (pl_state c)) \<and> active (pl_walker c) = None \<and>
     mem_wb (pl_latches c) = None \<and> fetch_holds_bus m \<and>
     (case ex_mem (pl_latches c) of
        Some p \<Rightarrow> data_access (d_kind (em_decoded p)) (payload_address p)
      | None \<Rightarrow> False)"

section \<open>The memory stage\<close>

lemma bare_sample_inputs [simp]: "bare (sample_inputs ops b c) = bare c"
  by (simp add: bare_def sample_inputs_def Let_def sync_interrupts_def refresh_mip_def increment_cycle_def
      increment_time_def set_time_def split: option.split)

lemma bare_increment_instret [simp]: "bare (increment_instret n c) = bare c"
  by (simp add: bare_def increment_instret_def)

lemma translate_bare:
  assumes "bare c" "active w = None"
  shows "translate ops c p va a (w, b) = Some (Inr (PhysicalAddress va), (w, b))"
  using assms by (simp add: translate_def translate_loop.simps make_request_def bare_def translation_enabled_def)

lemma fetch_refuses:
  assumes "fetch_holds_bus m" "tr_kind r \<noteq> Fetch"
  shows "perform_request dev r m = Some (Inl (busy_compat m), m)"
  using assms by (auto simp: fetch_holds_bus_def intro: perform_other split: option.splits)

lemma ucast_aligned:
  "(ucast (a :: u32) :: u64) mod 4 = 0 \<longleftrightarrow> a mod 4 = 0" "(ucast (a :: u32) :: u64) mod 2 = 0 \<longleftrightarrow> a mod 2 = 0"
proof -
  have "unat (ucast a :: u64) = unat a" 
    by (simp add: unsigned_ucast_eq) (rule take_bit_nat_eq_self, use unsigned_less [of a, where 'a = nat] in simp)
  then show "(ucast (a :: u32) :: u64) mod 4 = 0 \<longleftrightarrow> a mod 4 = 0"
      "(ucast (a :: u32) :: u64) mod 2 = 0 \<longleftrightarrow> a mod 2 = 0"
    by (simp_all add: word_unat_eq_iff unat_mod)
qed

lemma load_refused:
  assumes "fetch_holds_bus m" "data_access (Load k) a"
  shows "mem_load_value (mm_ops dev) k (ucast a) m = Some (Inl (busy_compat m), m)"
  using assms(2)
  by (cases k) (simp_all add: fetch_refuses [OF assms(1)] ucast_aligned mm_ops_def mm_load8_def mm_load16_def mm_load32_def expect_read_def
      load_request_def map_ok_def and_then_def)

lemma store_refused:
  assumes "fetch_holds_bus m" "data_access (Store k) a"
  shows "mem_store_value (mm_ops dev) k (ucast a) v m = Some (Inl (busy_compat m), m)"
  using assms(2)
  by (cases k) (simp_all add: fetch_refuses [OF assms(1)] ucast_aligned mm_ops_def mm_store8_def mm_store16_def mm_store32_def store_request_def and_then_def)

lemma memory_stage_stalls:
  assumes "fetch_holds_bus m" "bare c" "active w = None" "data_access (d_kind (em_decoded p)) (payload_address p)"
  shows "memory_stage (mm_ops dev) c priv p (w, m) = Some (Inr (MemoryStall p), (w, m))"
proof -
  have "is_busy_error (busy_compat m)" by (simp add: busy_compat_def)
  then show ?thesis
    using assms(4)
    by (cases "d_kind (em_decoded p)")
      (simp_all add: memory_stage_def Let_def translate_bare [OF assms(2,3)] load_refused [OF assms(1)]
        store_refused [OF assms(1)])
qed

section \<open>The cycle\<close>

lemma fetch_holds_busy: "mm_ok slots dinv m \<Longrightarrow> fetch_holds_bus m \<Longrightarrow> mm_is_busy m"
  by (auto simp: mm_ok_def single_client_def fetch_holds_bus_def mm_is_busy_def
      split: option.splits)

lemma wedged_step:
  assumes "wedged c m" "mm_ok slots dinv m"
  shows "\<exists>c'. pipeline_step (mm_ops dev) (c, m) = Some (Inr stalled_cycle, (c', m)) \<and> wedged c' m \<and>
    pl_latches c' = pl_latches c \<and> pc (pl_state c') = pc (pl_state c) \<and>
    registers (pl_state c') = registers (pl_state c)"
proof -
  let ?c = "begin_cycle (mm_ops dev) m c"
  obtain p where p: "ex_mem (pl_latches c) = Some p" "data_access (d_kind (em_decoded p)) (payload_address p)"
    using assms(1) by (auto simp: wedged_def split: option.splits)
  have w: "\<not> halted (pl_state c)" "bare (csrs (pl_state c))" "active (pl_walker c) = None"
      "mem_wb (pl_latches c) = None" "fetch_holds_bus m"
    using assms(1) by (simp_all add: wedged_def)
  have stall: "memory_stage (mm_ops dev) (sample_inputs (mm_ops dev) m (csrs (pl_state c)))
      (privilege (pl_state c)) p (pl_walker c, m) = Some (Inr (MemoryStall p), (pl_walker c, m))"
    by (rule memory_stage_stalls) (use w p in simp_all)
  have "bus_is_busy (mm_ops dev) m" using fetch_holds_busy [OF assms(2) w(5)] by (simp add: mm_ops_def)
  then show ?thesis
    using w p stall
    by (cases "pl_latches c")
      (simp add: pipeline_step_def pipeline_phases_def begin_cycle_def locals_start_def latches_default_def
        phase_write_back_def phase_interrupt_def phase_memory_def phase_execute_def phase_decode_def
        phase_fetch_def phase_done_def and_then_def finish_cycle_def cycle_result_def stalled_cycle_def
        wedged_def Let_def)
qed

section \<open>The machine\<close>

lemma wedged_cycle:
  assumes "wedged (ms_cpu m) (ms_bus m)" "mm_ok 0 (\<lambda>_. device_ok) (ms_bus m)"
  shows "\<exists>m'. machine_step_cycle (mm_ops device_ops) (pipeline_step (mm_ops device_ops)) m =
      Some (Inr stalled_cycle, m') \<and> wedged (ms_cpu m') (ms_bus m') \<and> mm_ok 0 (\<lambda>_. device_ok) (ms_bus m') \<and>
    pl_latches (ms_cpu m') = pl_latches (ms_cpu m) \<and> pc (pl_state (ms_cpu m')) = pc (pl_state (ms_cpu m)) \<and>
    registers (pl_state (ms_cpu m')) = registers (pl_state (ms_cpu m))"
proof -
  obtain b where b: "mm_tick device_ops (ms_bus m) = Some ((), b)" "mm_ok 0 (\<lambda>_. device_ok) b"
      "mm_compat_transaction b = mm_compat_transaction (ms_bus m)"
    using device.family.mm_tick_keeps [OF assms(2)] by (auto elim: wp_elim)
  have "wedged (ms_cpu m) b" using assms(1) b(3) by (simp add: wedged_def fetch_holds_bus_def)
  from wedged_step [OF this b(2), of device_ops] show ?thesis
    using b by (auto simp: machine_step_cycle_def mm_ops_def)
qed

text \<open>
  C9. The pipelined core can hang. Once a load or store is in the memory stage while the bus is held by
  an instruction fetch, with translation off, no number of cycles gets out: every cycle is a stall, nothing retires, the latches,
  registers and program counter stay as they are, and since the bus stays busy no interrupt is taken.
\<close>

theorem wedged_pipeline_stays:
  assumes "wedged (ms_cpu m) (ms_bus m)" "mm_ok 0 (\<lambda>_. device_ok) (ms_bus m)"
  shows "\<exists>m'. run_cycles (mm_ops device_ops) (pipeline_step (mm_ops device_ops)) n m =
      Some (Inr (replicate n stalled_cycle), m') \<and>
    pl_latches (ms_cpu m') = pl_latches (ms_cpu m) \<and> pc (pl_state (ms_cpu m')) = pc (pl_state (ms_cpu m)) \<and>
    registers (pl_state (ms_cpu m')) = registers (pl_state (ms_cpu m)) \<and> wedged (ms_cpu m') (ms_bus m')"
  using assms
proof (induction n arbitrary: m)
  case (Suc n)
  obtain m1 where m1: "machine_step_cycle (mm_ops device_ops) (pipeline_step (mm_ops device_ops)) m =
        Some (Inr stalled_cycle, m1)"
      "wedged (ms_cpu m1) (ms_bus m1)" "mm_ok 0 (\<lambda>_. device_ok) (ms_bus m1)"
      "pl_latches (ms_cpu m1) = pl_latches (ms_cpu m)" "pc (pl_state (ms_cpu m1)) = pc (pl_state (ms_cpu m))"
      "registers (pl_state (ms_cpu m1)) = registers (pl_state (ms_cpu m))"
    using wedged_cycle [OF Suc.prems] by blast
  from Suc.IH [OF m1(2,3)] show ?case using m1 by (auto simp: and_then_def)
qed simp

text \<open>
  The state is reached from reset: a memory with two wait states that holds one load, \<open>lw x1, 0(x0)\<close>, and three
  \<open>nop\<close>. The core is stuck after five cycles.
\<close>

definition slow_load :: "device memory_map" where
  "slow_load = memory_map_new\<lparr>mm_devices := [\<lparr>slot_range = \<lparr>range_start = 0, range_size = 16\<rparr>, slot_name = ''ram'',
     slot_device = Delayed \<lparr>la_inner = DevRam \<lparr>ram_range = \<lparr>range_start = 0, range_size = 16\<rparr>,
       ram_data = [0x83, 0x20, 0, 0, 0x13, 0, 0, 0, 0x13, 0, 0, 0, 0x13, 0, 0, 0]\<rparr>, la_latency_cycles = 2\<rparr>\<rparr>]\<rparr>"

abbreviation slow_run ::
  "nat \<Rightarrow> (cpu_error + cpu_cycle list, (pipeline_core, device memory_map) machine_state) outcome" where
  "slow_run n \<equiv> run_cycles (mm_ops device_ops) (pipeline_step (mm_ops device_ops)) n
     (machine_new (pipeline_new 0) slow_load)"

lemma slow_load_wedged: "case slow_run 5 of Some (Inr _, m) \<Rightarrow> wedged (ms_cpu m) (ms_bus m) | _ \<Rightarrow> False"
  by code_simp

lemma slow_load_ok: "mm_ok 0 (\<lambda>_. device_ok) slow_load"
  by (simp add: mm_ok_def devices_ok_def single_client_def slow_load_def memory_map_new_def ram_ok_def)

lemma wedged_pipeline_stays_witness:
  "\<exists>reps m m'. slow_run 5 = Some (Inr reps, m) \<and>
     run_cycles (mm_ops device_ops) (pipeline_step (mm_ops device_ops)) 1000 m =
       Some (Inr (replicate 1000 stalled_cycle), m')"
proof -
  obtain reps m where m: "slow_run 5 = Some (Inr reps, m)" "mm_ok 0 (\<lambda>_. device_ok) (ms_bus m)"
    using pipeline_machine.run_cycles_safe [of "machine_new (pipeline_new 0) slow_load" 5] slow_load_ok
    by (auto simp: machine_new_def pipeline_ok_new)
  have "wedged (ms_cpu m) (ms_bus m)" using slow_load_wedged m(1) by simp
  from wedged_pipeline_stays [OF this m(2), of 1000] show ?thesis using m(1) by blast
qed

end
