(* ===== verification/Imprecise_Traps.thy ===== *)
theory Imprecise_Traps
  imports System
begin

text \<open>
  Traps of the pipelined core that do not wait for the instructions before them. A fault of the fetch
  stage, and a trap of the execute stage, are entered at once, while older instructions are still in the
  pipeline. The older instruction then runs in the privilege mode of the handler, or its CSR write comes
  after the trap. The reference core, which runs one instruction at a time, does neither.
\<close>

section \<open>A fetch fault overtakes the instruction before it\<close>

text \<open>Nothing is in flight but the instruction \<open>d\<close>, which was fetched and is not decoded yet.\<close>

definition only_fetched :: "pipeline_core \<Rightarrow> decoded_instruction \<Rightarrow> bool" where
  "only_fetched c d \<longleftrightarrow> \<not> halted (pl_state c) \<and> \<not> pl_translation_barrier c \<and>
     id_ex (pl_latches c) = None \<and> ex_mem (pl_latches c) = None \<and> mem_wb (pl_latches c) = None \<and>
     (case pipeline_latches.if_id (pl_latches c) of Some i \<Rightarrow> decode_stage (ii_raw i) (ii_pc i) = Inr d | None \<Rightarrow> False)"

lemma operands_read:
  assumes "pipeline_ok c" "decode_stage raw a = Inr d"
  shows "\<exists>v1 v2. register_read (registers (pl_state c)) (operand_register (d_rs1 d)) = Some v1 \<and>
    register_read (registers (pl_state c)) (operand_register (d_rs2 d)) = Some v2"
proof -
  have "decoded_ok d" using assms(2) by (simp add: decode_stage_def decode_decoded_ok)
  moreover have "regs_ok (registers (pl_state c))" using assms(1) by (simp add: pipeline_ok_def hart_ok_def)
  ultimately show ?thesis by (simp add: decoded_ok_def register_read_ok operand_register_less)
qed

text \<open>
  C10. A fetch fault does not wait for the instruction before it. When the instruction \<open>d\<close> has been
  fetched and the next fetch faults, the cycle enters the trap, and \<open>d\<close>, which has not been executed,
  goes on to the execute stage, in the mode of the handler. Nothing says that the fetch was on the right
  path: \<open>d\<close> may be the jump that leads elsewhere.
\<close>

theorem fetch_trap_overtakes:
  assumes "pipeline_ok c" "only_fetched c d"
    and "pending_interrupt (sample_inputs ops b (csrs (pl_state c))) (privilege (pl_state c)) = None"
    and "fetch_stage ops bimodal_predict (pl_predictor c) (sample_inputs ops b (csrs (pl_state c)))
      (privilege (pl_state c)) (pl_front_end_pc c) (pl_walker c, b) = Some (Inr (FetchTrap t), (w, b'))"
  shows "\<exists>r c' p. pipeline_step ops (c, b) = Some (Inr r, (c', b')) \<and> retired_instructions r = 0 \<and>
    pl_state c' = snd (apply_trap t (pl_front_end_pc c)
      ((pl_state c)\<lparr>csrs := sample_inputs ops b (csrs (pl_state c))\<rparr>)) \<and>
    pl_front_end_pc c' = pc (pl_state c') \<and> id_ex (pl_latches c') = Some p \<and> ie_decoded p = d"
proof -
  let ?s = "(pl_state c)\<lparr>csrs := sample_inputs ops b (csrs (pl_state c))\<rparr>"
  obtain i where i: "pipeline_latches.if_id (pl_latches c) = Some i" "decode_stage (ii_raw i) (ii_pc i) = Inr d"
    using assms(2) by (auto simp: only_fetched_def split: option.splits)
  have o: "\<not> halted (pl_state c)" "\<not> pl_translation_barrier c" "id_ex (pl_latches c) = None"
      "ex_mem (pl_latches c) = None" "mem_wb (pl_latches c) = None"
    using assms(2) by (simp_all add: only_fetched_def)
  obtain v1 v2 where v: "register_read (registers (pl_state c)) (operand_register (d_rs1 d)) = Some v1"
      "register_read (registers (pl_state c)) (operand_register (d_rs2 d)) = Some v2"
    using operands_read [OF assms(1) i(2)] by blast
  obtain s' where s': "apply_trap t (pl_front_end_pc c) ?s =
      (\<lparr>er_retired = 0, er_trap = Some t, er_memory_access = False\<rparr>, s')"
    using apply_trap_result [of t "pl_front_end_pc c" ?s] by (metis prod.collapse)
  show ?thesis
    using o i v s' assms(3,4)
    by (simp add: pipeline_step_def pipeline_phases_def begin_cycle_def locals_start_def latches_default_def
        phase_write_back_def phase_interrupt_def phase_memory_def phase_execute_def phase_decode_def
        phase_fetch_def phase_done_def and_then_def finish_cycle_def cycle_result_def Let_def take_trap_def
        load_use_hazard_def has_in_flight_csr_instruction_def increment_instret_def)
qed

section \<open>A trap overtakes a CSR write\<close>

text \<open>An \<open>ecall\<close> is about to be executed, and the CSR write \<open>e\<close> of the instruction before it is in the memory stage.\<close>

definition write_before_ecall :: "pipeline_core \<Rightarrow> csr_write_effect \<Rightarrow> decoded_instruction \<Rightarrow> bool" where
  "write_before_ecall c e d \<longleftrightarrow> \<not> halted (pl_state c) \<and> \<not> pl_translation_barrier c \<and> mem_wb (pl_latches c) = None \<and>
     (case ex_mem (pl_latches c) of
        Some q \<Rightarrow> is_csr_instruction (em_decoded q) \<and> em_csr_write q = Some e
      | None \<Rightarrow> False) \<and>
     (case id_ex (pl_latches c) of Some p \<Rightarrow> ie_decoded p = d | None \<Rightarrow> False) \<and> d_kind d = System Ecall"

definition ecall_trap :: "privilege_mode \<Rightarrow> trap" where
  "ecall_trap p = TrapException (case p of User \<Rightarrow> EnvironmentCallFromUMode | Supervisor \<Rightarrow> EnvironmentCallFromSMode
     | Machine \<Rightarrow> EnvironmentCallFromMMode)"

text \<open>
  C11. An \<open>ecall\<close> does not wait for the CSR write before it. The cycle enters the trap with the CSR file as
  it was before that write, so a handler address that the write sets is not used, and the write is then
  still to be made: it falls on the state that the trap has saved.
\<close>

theorem ecall_overtakes_csr_write:
  assumes "write_before_ecall c e d"
    and "pending_interrupt (sample_inputs ops b (csrs (pl_state c))) (privilege (pl_state c)) = None"
  shows "\<exists>r c' q. pipeline_step ops (c, b) = Some (Inr r, (c', b)) \<and>
    pl_state c' = snd (apply_trap (ecall_trap (privilege (pl_state c))) (d_pc d)
      ((pl_state c)\<lparr>csrs := sample_inputs ops b (csrs (pl_state c))\<rparr>)) \<and>
    pl_front_end_pc c' = pc (pl_state c') \<and> mem_wb (pl_latches c') = Some q \<and> mw_csr_write q = Some e"
proof -
  let ?s = "(pl_state c)\<lparr>csrs := sample_inputs ops b (csrs (pl_state c))\<rparr>"
  obtain q p where q: "ex_mem (pl_latches c) = Some q" "is_csr_instruction (em_decoded q)" "em_csr_write q = Some e"
      and p: "id_ex (pl_latches c) = Some p" "ie_decoded p = d"
    using assms(1) by (auto simp: write_before_ecall_def split: option.splits)
  have o: "\<not> halted (pl_state c)" "\<not> pl_translation_barrier c" "mem_wb (pl_latches c) = None" "d_kind d = System Ecall"
    using assms(1) by (simp_all add: write_before_ecall_def)
  obtain op where op: "d_kind (em_decoded q) = Csr op" using q(2) by (auto simp: is_csr_instruction_def split: instruction_kind.splits)
  obtain s' where s': "apply_trap (ecall_trap (privilege (pl_state c))) (d_pc d) ?s =
      (\<lparr>er_retired = 0, er_trap = Some (ecall_trap (privilege (pl_state c))), er_memory_access = False\<rparr>, s')"
    using apply_trap_result [of "ecall_trap (privilege (pl_state c))" "d_pc d" ?s] by (metis prod.collapse)
  have ex: "execute_stage d v1 v2 (privilege (pl_state c)) k = Some (ExecuteTrap (ecall_trap (privilege (pl_state c))))" for v1 v2 k
    using o(4) by (simp add: execute_stage_def ecall_trap_def)
  have mem: "memory_stage ops k pr q (pl_walker c, b) =
      Some (Inr (MemoryAdvance (pass_through q (em_writeback_value q))), (pl_walker c, b))" for k pr
    using op by (simp add: memory_stage_def)
  show ?thesis
    using o q p ex s' mem assms(2)
    by (simp add: pipeline_step_def pipeline_phases_def begin_cycle_def locals_start_def latches_default_def
        phase_write_back_def phase_interrupt_def phase_memory_def phase_execute_def phase_decode_def
        phase_fetch_def phase_done_def and_then_def finish_cycle_def cycle_result_def Let_def take_trap_def
        increment_instret_def pass_through_def)
qed

section \<open>Programs that show it\<close>

text \<open>A memory of the given words from address 0 on, without wait states, and a hart with 0x40 in \<open>x1\<close>.\<close>

definition word_memory :: "u32 list \<Rightarrow> device memory_map" where
  "word_memory ws = memory_map_new\<lparr>mm_devices := [\<lparr>
     slot_range = \<lparr>range_start = 0, range_size = of_nat (4 * length ws)\<rparr>, slot_name = ''ram'',
     slot_device = Plain (DevRam \<lparr>ram_range = \<lparr>range_start = 0, range_size = of_nat (4 * length ws)\<rparr>,
       ram_data = concat (map le_bytes32 ws)\<rparr>)\<rparr>]\<rparr>"

definition hart_with_x1 :: "privilege_mode \<Rightarrow> hart_state" where
  "hart_with_x1 p = (hart_new 0)\<lparr>registers := (register_file_default)[1 := 0x40], privilege := p\<rparr>"

definition pipeline_run where
  "pipeline_run p ws n = run_cycles (mm_ops device_ops) (pipeline_step (mm_ops device_ops)) n
     (machine_new ((pipeline_new 0)\<lparr>pl_state := hart_with_x1 p\<rparr>) (word_memory ws))"

definition reference_run where
  "reference_run p ws n = run_cycles (mm_ops device_ops) (reference_step (mm_ops device_ops)) n
     (machine_new ((reference_new 0)\<lparr>rc_state := hart_with_x1 p\<rparr>) (word_memory ws))"

text \<open>
  A program in user mode whose last instruction, before the end of the memory, is \<open>csrrw x0, mtvec, x1\<close>. The
  fetch fault behind it raises the privilege, and the instruction then writes the trap vector of
  machine mode. On the reference core it is an illegal instruction.
\<close>

abbreviation write_mtvec :: u32 where "write_mtvec \<equiv> 0x30509073"

lemma user_writes_mtvec:
  "case pipeline_run User [write_mtvec] 5 of
     Some (Inr _, m) \<Rightarrow> csr_read (csrs (pl_state (ms_cpu m))) Mtvec = 0x40 | _ \<Rightarrow> False"
  by code_simp

lemma user_write_is_illegal:
  "case reference_run User [write_mtvec] 1 of
     Some (Inr _, m) \<Rightarrow> csr_read (csrs (rc_state (ms_cpu m))) Mtvec = 0 \<and> csr_read (csrs (rc_state (ms_cpu m))) Mcause = 2
   | _ \<Rightarrow> False"
  by code_simp

text \<open>
  \<open>csrrw x0, mtvec, x1\<close> before \<open>ecall\<close> in machine mode: the reference core enters the new handler at 0x40,
  the pipelined core the old one at 0.
\<close>

lemma reference_enters_new_handler:
  "case reference_run Machine [write_mtvec, 0x00000073, 0x00000013, 0x00000013] 2 of
     Some (Inr _, m) \<Rightarrow> pc (rc_state (ms_cpu m)) = 0x40 | _ \<Rightarrow> False"
  by code_simp

lemma pipeline_enters_old_handler:
  "case pipeline_run Machine [write_mtvec, 0x00000073, 0x00000013, 0x00000013] 4 of
     Some (Inr _, m) \<Rightarrow> pc (pl_state (ms_cpu m)) = 0 \<and> csr_read (csrs (pl_state (ms_cpu m))) Mcause = 11 | _ \<Rightarrow> False"
  by code_simp

text \<open>The states in which the theorems apply, one cycle before the traps.\<close>

definition stepped :: "(pipeline_core, device memory_map) machine_state \<Rightarrow> device memory_map" where
  "stepped m = (case mm_tick device_ops (ms_bus m) of Some (_, b) \<Rightarrow> b | None \<Rightarrow> ms_bus m)"

definition quiet :: "pipeline_core \<Rightarrow> device memory_map \<Rightarrow> bool" where
  "quiet c b \<longleftrightarrow> pending_interrupt (sample_inputs (mm_ops device_ops) b (csrs (pl_state c))) (privilege (pl_state c)) = None"

definition fetch_faults :: "pipeline_core \<Rightarrow> device memory_map \<Rightarrow> bool" where
  "fetch_faults c b \<longleftrightarrow>
     (case fetch_stage (mm_ops device_ops) bimodal_predict (pl_predictor c)
         (sample_inputs (mm_ops device_ops) b (csrs (pl_state c))) (privilege (pl_state c)) (pl_front_end_pc c)
         (pl_walker c, b) of
        Some (Inr (FetchTrap (TrapException e)), _) \<Rightarrow> e = InstructionAccessFault 4
      | _ \<Rightarrow> False)"

definition fetched_instruction :: "pipeline_core \<Rightarrow> decoded_instruction option" where
  "fetched_instruction c =
     (case pipeline_latches.if_id (pl_latches c) of
        None \<Rightarrow> None
      | Some i \<Rightarrow> (case decode_stage (ii_raw i) (ii_pc i) of Inr d \<Rightarrow> Some d | Inl _ \<Rightarrow> None))"

lemma user_write_fetched:
  "case pipeline_run User [write_mtvec] 1 of
     Some (Inr _, m) \<Rightarrow>
       (case fetched_instruction (ms_cpu m) of
          Some d \<Rightarrow> d_csr d = Some Mtvec \<and> only_fetched (ms_cpu m) d | None \<Rightarrow> False) \<and>
       quiet (ms_cpu m) (stepped m) \<and> fetch_faults (ms_cpu m) (stepped m) \<and> privilege (pl_state (ms_cpu m)) = User
   | _ \<Rightarrow> False"
  by code_simp

lemma machine_write_executed:
  "case pipeline_run Machine [write_mtvec, 0x00000073, 0x00000013, 0x00000013] 3 of
     Some (Inr _, m) \<Rightarrow>
       (case (ex_mem (pl_latches (ms_cpu m)), id_ex (pl_latches (ms_cpu m))) of
          (Some q, Some p) \<Rightarrow>
            (case em_csr_write q of Some e \<Rightarrow> write_before_ecall (ms_cpu m) e (ie_decoded p) | None \<Rightarrow> False)
        | _ \<Rightarrow> False) \<and>
       quiet (ms_cpu m) (stepped m)
   | _ \<Rightarrow> False"
  by code_simp

lemma word_memory_ok:
  assumes "4 * length ws < 2 ^ 64"
  shows "mm_ok 0 (\<lambda>_. device_ok) (word_memory ws)"
proof -
  have "length (concat (map le_bytes32 ws)) = 4 * length ws" by (induction ws) simp_all
  moreover have "unat (of_nat (4 * length ws) :: u64) = 4 * length ws" using assms by (simp only: unat_of_nat) simp
  ultimately show ?thesis
    by (simp add: mm_ok_def devices_ok_def single_client_def word_memory_def memory_map_new_def ram_ok_def del: of_nat_mult)
qed

lemma hart_with_x1_ok: "hart_ok (hart_with_x1 p)"
  using hart_ok_new [of 0] by (simp add: hart_ok_def hart_with_x1_def regs_ok_def hart_new_def register_file_default_def)

lemma pipeline_run_ok:
  assumes "4 * length ws < 2 ^ 64"
  shows "\<exists>reps m. pipeline_run p ws n = Some (Inr reps, m) \<and> pipeline_ok (ms_cpu m)"
proof -
  have "pipeline_ok ((pipeline_new 0)\<lparr>pl_state := hart_with_x1 p\<rparr>)"
    using pipeline_ok_new [of 0] hart_with_x1_ok by (simp add: pipeline_ok_def)
  then show ?thesis
    using pipeline_machine.run_cycles_safe
        [of "machine_new ((pipeline_new 0)\<lparr>pl_state := hart_with_x1 p\<rparr>) (word_memory ws)" n]
      word_memory_ok [OF assms]
    by (auto simp: pipeline_run_def machine_new_def)
qed

lemma fetch_trap_overtakes_witness:
  "\<exists>reps m r c' b' p. pipeline_run User [write_mtvec] 1 = Some (Inr reps, m) \<and> privilege (pl_state (ms_cpu m)) = User \<and>
     pipeline_step (mm_ops device_ops) (ms_cpu m, stepped m) = Some (Inr r, (c', b')) \<and>
     pl_state c' = snd (apply_trap (TrapException (InstructionAccessFault 4)) (pl_front_end_pc (ms_cpu m))
       ((pl_state (ms_cpu m))\<lparr>csrs := sample_inputs (mm_ops device_ops) (stepped m) (csrs (pl_state (ms_cpu m)))\<rparr>)) \<and>
     id_ex (pl_latches c') = Some p \<and> d_csr (ie_decoded p) = Some Mtvec"
proof -
  obtain reps m where m: "pipeline_run User [write_mtvec] 1 = Some (Inr reps, m)" "pipeline_ok (ms_cpu m)"
    using pipeline_run_ok [of "[write_mtvec]" User 1] by auto
  note at = user_write_fetched [unfolded m(1) option.case prod.case sum.case]
  obtain d where d: "d_csr d = Some Mtvec" "only_fetched (ms_cpu m) d"
    using at by (auto split: option.splits)
  have q: "pending_interrupt (sample_inputs (mm_ops device_ops) (stepped m) (csrs (pl_state (ms_cpu m))))
      (privilege (pl_state (ms_cpu m))) = None"
    using at unfolding quiet_def by blast
  have u: "privilege (pl_state (ms_cpu m)) = User" using at by blast
  obtain w b' where f: "fetch_stage (mm_ops device_ops) bimodal_predict (pl_predictor (ms_cpu m))
      (sample_inputs (mm_ops device_ops) (stepped m) (csrs (pl_state (ms_cpu m)))) (privilege (pl_state (ms_cpu m)))
      (pl_front_end_pc (ms_cpu m)) (pl_walker (ms_cpu m), stepped m) =
      Some (Inr (FetchTrap (TrapException (InstructionAccessFault 4))), (w, b'))"
    using at by (auto simp: fetch_faults_def split: option.splits sum.splits fetch_event.splits trap.splits)
  from fetch_trap_overtakes [OF m(2) d(2) q f] show ?thesis using m(1) d(1) u by auto
qed

lemma ecall_overtakes_csr_write_witness:
  "\<exists>reps m r c' q e. pipeline_run Machine [write_mtvec, 0x00000073, 0x00000013, 0x00000013] 3 = Some (Inr reps, m) \<and>
     pipeline_step (mm_ops device_ops) (ms_cpu m, stepped m) = Some (Inr r, (c', stepped m)) \<and>
     mem_wb (pl_latches c') = Some q \<and> mw_csr_write q = Some e"
proof -
  obtain reps m where m: "pipeline_run Machine [write_mtvec, 0x00000073, 0x00000013, 0x00000013] 3 = Some (Inr reps, m)"
    using pipeline_run_ok [of "[write_mtvec, 0x00000073, 0x00000013, 0x00000013]" Machine 3] by auto
  note at = machine_write_executed [unfolded m option.case prod.case sum.case]
  obtain e d where w: "write_before_ecall (ms_cpu m) e d"
    using at by (auto split: option.splits)
  have q: "pending_interrupt (sample_inputs (mm_ops device_ops) (stepped m) (csrs (pl_state (ms_cpu m))))
      (privilege (pl_state (ms_cpu m))) = None"
    using at unfolding quiet_def by blast
  from ecall_overtakes_csr_write [OF w q] show ?thesis using m by blast
qed

end
