(* ===== verification/Forwarding.thy ===== *)
theory Forwarding
  imports Refinement
begin

text \<open>
  The operands of the pipelined core. An instruction reads its registers in the decode stage, while two
  older instructions have not written back yet; one cycle later the execute stage takes the value that
  it read, or one that it forwards from the memory or the write-back stage. Here: in every run without a
  memory wait this is the value of the register after the older instructions; a memory wait breaks it.
\<close>

section \<open>Writing back\<close>

lemma write_back_registers:
  assumes "write_back_stage q (s, w) = Some (ev, (s', w'))"
    "is_xret (mw_decoded q) \<longrightarrow> mw_writeback_value q = None"
  shows "case (d_rd (mw_decoded q), mw_writeback_value q) of
      (Some rd, Some v) \<Rightarrow> register_write rd v (registers s) = Some (registers s')
    | _ \<Rightarrow> registers s' = registers s"
proof (cases "is_xret (mw_decoded q)")
  case True
  then show ?thesis
    using assms by (auto simp: write_back_stage_def is_xret_def Let_def return_from_trap_def
        split: option.splits prod.splits if_splits)
next
  case False
  have w: "write_rd (Some rd) v t = Some t' \<Longrightarrow> register_write rd v (registers t) = Some (registers t')"
    for rd v t t' by (auto simp: write_rd_def)
  have c: "registers (case mw_csr_write q of
      None \<Rightarrow> s | Some cw \<Rightarrow> s\<lparr>csrs := csr_write (cw_address cw) (cw_value cw) (csrs s)\<rparr>) = registers s"
    by (simp split: option.split)
  show ?thesis
    using assms False
    by (cases "d_rd (mw_decoded q)"; cases "mw_writeback_value q")
      (auto simp: write_back_stage_def is_xret_def Let_def c dest!: w split: option.splits if_splits)
qed

lemma write_back_register_value:
  assumes "write_back_stage q (s, w) = Some (ev, (s', w'))"
    "is_xret (mw_decoded q) \<longrightarrow> mw_writeback_value q = None"
    "hart_ok s" "decoded_ok (mw_decoded q)" "unat r < 32"
  shows "register_read (registers s') r =
    (if r \<noteq> 0 \<and> d_rd (mw_decoded q) = Some r \<and> mw_writeback_value q \<noteq> None
     then mw_writeback_value q else register_read (registers s) r)"
proof -
  have regs: "regs_ok (registers s)" using assms(3) by (simp add: hart_ok_def)
  show ?thesis
  proof (cases "d_rd (mw_decoded q) = None \<or> mw_writeback_value q = None")
    case True
    then show ?thesis
      using write_back_registers [OF assms(1,2)]
      by (auto split: option.splits)
  next
    case False
    then obtain rd v where rd: "d_rd (mw_decoded q) = Some rd" "mw_writeback_value q = Some v" by auto
    then have "reg_ok (Some rd)" using assms(4) unfolding decoded_ok_def by metis
    then have "unat rd < 32" by simp
    with rd show ?thesis
      using write_back_registers [OF assms(1,2)] register_read_write [OF regs _ assms(5), of rd v]
        register_read_ok [OF regs assms(5)]
      by auto
  qed
qed

lemma execute_stage_writes_back:
  assumes "execute_stage d v1 v2 p c = Some (ExecuteAdvance out)" "xo_writeback_value out \<noteq> None"
    "d_rd d = Some r" "r \<noteq> 0"
  shows "writes_back d"
proof (cases "d_kind d")
  case (System kind)
  with assms(1,2) show ?thesis
    by (cases kind) (auto simp: execute_stage_def plain_outcome_def execute_trap_illegal_def
        split: if_splits)
qed (use assms in \<open>auto simp: writes_back_def execute_stage_def plain_outcome_def Let_def\<close>)

text \<open>The older instructions write back: a payload of the last stage, if there is one.\<close>

definition written_back ::
  "mem_wb_payload option \<Rightarrow> hart_state \<times> page_walker \<Rightarrow> hart_state \<times> page_walker \<Rightarrow> bool" where
  "written_back m st st' \<longleftrightarrow>
     (case m of None \<Rightarrow> st' = st | Some q \<Rightarrow> \<exists>ev. write_back_stage q st = Some (ev, st'))"

text \<open>A payload that the execute stage has made.\<close>

definition executed :: "ex_mem_payload \<Rightarrow> bool" where
  "executed e \<longleftrightarrow> (\<exists>v1 v2 p c out.
     execute_stage (em_decoded e) v1 v2 p c = Some (ExecuteAdvance out) \<and> e = execute_payload (em_decoded e) out)"

text \<open>What the memory stage passes on: a loaded value \<open>v\<close>, or the value of the execute stage.\<close>

definition through_memory :: "u32 \<Rightarrow> ex_mem_payload \<Rightarrow> mem_wb_payload" where
  "through_memory v e = pass_through e (if is_load (em_decoded e) then Some v else em_writeback_value e)"

lemma xret_no_value: "executed e \<Longrightarrow> is_xret (em_decoded e) \<Longrightarrow> em_writeback_value e = None"
  by (auto simp: executed_def is_xret_def execute_stage_def execute_payload_def plain_outcome_def
      execute_trap_illegal_def split: if_splits) (metis ex_mem_payload.select_convs(2))+

lemma written_back_register:
  assumes "written_back m (s, w) (s', w')" "hart_ok s" "walker_ok w" "payload_ok mw_decoded m" "unat r < 32"
    "\<And>q. m = Some q \<Longrightarrow> is_xret (mw_decoded q) \<Longrightarrow> mw_writeback_value q = None"
  shows "register_read (registers s') r = Some (forwarded_operand (Some r) (registers s ! unat r) None m) \<and>
    hart_ok s' \<and> walker_ok w'"
proof -
  have regs: "regs_ok (registers s)" using assms(2) by (simp add: hart_ok_def)
  show ?thesis
  proof (cases m)
    case None
    then have "s' = s" "w' = w" using assms(1) by (simp_all add: written_back_def)
    then show ?thesis
      using None regs register_read_ok [OF regs assms(5)] assms(2,3)
      by (auto simp: forwarded_operand_def regs_ok_def)
  next
    case (Some q)
    then obtain ev where q: "write_back_stage q (s, w) = Some (ev, (s', w'))"
      using assms(1) by (auto simp: written_back_def)
    have d: "decoded_ok (mw_decoded q)" using assms(4) Some by simp
    have "hart_ok s' \<and> walker_ok w'" using write_back_stage_ok [OF assms(2,3) d] q by auto
    moreover have "register_read (registers s') r = Some (forwarded_operand (Some r) (registers s ! unat r) None m)"
      using write_back_register_value [OF q _ assms(2) d assms(5)] assms(6) [OF Some] Some
        register_read_ok [OF regs assms(5)] regs
      by (auto simp: forwarded_operand_def regs_ok_def)
    ultimately show ?thesis by simp
  qed
qed

text \<open>Both older instructions write back.\<close>

lemma forwarded_register:
  assumes "hart_ok s" "walker_ok w" "unat r < 32"
    "payload_ok mw_decoded m" "\<And>q. m = Some q \<Longrightarrow> is_xret (mw_decoded q) \<Longrightarrow> mw_writeback_value q = None"
    "payload_ok em_decoded e" "\<And>x. e = Some x \<Longrightarrow> executed x"
    "\<And>x. e = Some x \<Longrightarrow> is_load (em_decoded x) \<Longrightarrow> \<not> detect_raw_hazard (d_rd (em_decoded x)) (Some r) None"
    "written_back m (s, w) (s1, w1)" "written_back (map_option (through_memory v) e) (s1, w1) (s2, w2)"
  shows "register_read (registers s2) r = Some (forwarded_operand (Some r) (registers s ! unat r) e m)"
proof -
  note s1 = written_back_register [OF assms(9,1,2,4,3,5)]
  have "unat (0 :: u8) = 0" by simp
  have x: "is_xret (mw_decoded q) \<Longrightarrow> mw_writeback_value q = None" if "map_option (through_memory v) e = Some q" for q
    using that xret_no_value assms(7)
    by (auto simp: through_memory_def pass_through_def is_xret_def is_load_def)
  have "payload_ok mw_decoded (map_option (through_memory v) e)"
    using assms(6) by (cases e) (simp_all add: through_memory_def pass_through_def)
  from written_back_register [OF assms(10) _ _ this assms(3) x] s1
  have s2: "register_read (registers s2) r =
      Some (forwarded_operand (Some r) (registers s1 ! unat r) None (map_option (through_memory v) e))" by blast
  have r1: "registers s1 ! unat r = forwarded_operand (Some r) (registers s ! unat r) None m"
    using s1 register_read_ok [of "registers s1" r] assms(3) by (simp add: hart_ok_def)
  show ?thesis
  proof (cases "r = 0 \<or> e = None")
    case True
    then show ?thesis using s2 r1 by (auto simp: forwarded_operand_def)
  next
    case False
    then obtain x where e: "e = Some x" and r: "r \<noteq> 0" by auto
    have load: "d_rd (em_decoded x) = Some r \<Longrightarrow> \<not> is_load (em_decoded x)"
      using assms(8) [OF e] r by (auto simp: detect_raw_hazard_def)
    have wb: "writes_back (em_decoded x)"
      if "d_rd (em_decoded x) = Some r" "em_writeback_value x \<noteq> None"
      using assms(7) [OF e] execute_stage_writes_back that r
      by (auto simp: executed_def execute_payload_def) (metis ex_mem_payload.select_convs(2))
    show ?thesis
      using s2 r1 e r load wb
      by (auto simp: forwarded_operand_def through_memory_def pass_through_def split: option.splits)
  qed
qed

section \<open>The state between two cycles\<close>

text \<open>
  The latches when the operands are up to date: the instruction before the execute stage has latched the
  values that its registers hold now, it does not read the register of a load that is before the memory
  stage, and what is before the memory and the write-back stage comes from the stages before.
\<close>

definition operands_latched :: "pipeline_core \<Rightarrow> id_ex_payload \<Rightarrow> bool" where
  "operands_latched c p \<longleftrightarrow>
     register_read (registers (pl_state c)) (operand_register (d_rs1 (ie_decoded p))) = Some (ie_rs1_value p) \<and>
     register_read (registers (pl_state c)) (operand_register (d_rs2 (ie_decoded p))) = Some (ie_rs2_value p)"

definition no_load_use :: "ex_mem_payload option \<Rightarrow> id_ex_payload \<Rightarrow> bool" where
  "no_load_use e p \<longleftrightarrow>
     (case e of
        None \<Rightarrow> True
      | Some x \<Rightarrow> \<not> (is_load (em_decoded x) \<and>
          detect_raw_hazard (d_rd (em_decoded x)) (d_rs1 (ie_decoded p)) (d_rs2 (ie_decoded p))))"

definition settled :: "pipeline_core \<Rightarrow> bool" where
  "settled c \<longleftrightarrow>
     (case id_ex (pl_latches c) of
        None \<Rightarrow> True
      | Some p \<Rightarrow> operands_latched c p \<and> no_load_use (ex_mem (pl_latches c)) p \<and> \<not> pl_translation_barrier c) \<and>
     (case ex_mem (pl_latches c) of None \<Rightarrow> True | Some e \<Rightarrow> executed e) \<and>
     (case mem_wb (pl_latches c) of
        None \<Rightarrow> True
      | Some q \<Rightarrow> is_xret (mw_decoded q) \<longrightarrow> mw_writeback_value q = None)"

text \<open>The hart after the instructions before the memory and the write-back stage have finished.\<close>

definition drained :: "pipeline_core \<Rightarrow> hart_state \<Rightarrow> bool" where
  "drained c s \<longleftrightarrow> (\<exists>st v w. written_back (mem_wb (pl_latches c)) (pl_state c, pl_walker c) st \<and>
     written_back (map_option (through_memory v) (ex_mem (pl_latches c))) st (s, w))"

text \<open>The value that the execute stage takes for an operand.\<close>

definition operand_value :: "pipeline_core \<Rightarrow> u8 option \<Rightarrow> u32 \<Rightarrow> u32" where
  "operand_value c src latched = forwarded_operand src latched (ex_mem (pl_latches c)) (mem_wb (pl_latches c))"

lemma settled_operand:
  assumes c: "pipeline_ok c" "settled c" and p: "id_ex (pl_latches c) = Some p" and s: "drained c s"
    and r: "(d_rs1 (ie_decoded p), ie_rs1_value p) = (Some r, v) \<or> (d_rs2 (ie_decoded p), ie_rs2_value p) = (Some r, v)"
  shows "register_read (registers s) r = Some (operand_value c (Some r) v)"
proof -
  have ok: "hart_ok (pl_state c)" "walker_ok (pl_walker c)" "payload_ok em_decoded (ex_mem (pl_latches c))"
    "payload_ok mw_decoded (mem_wb (pl_latches c))" "decoded_ok (ie_decoded p)"
    using c(1) p by (simp_all add: pipeline_ok_def latches_ok_def)
  then have "reg_ok (Some r)" using r unfolding decoded_ok_def by (metis prod.inject)
  then have r32: "unat r < 32" by simp
  have l: "operands_latched c p" "no_load_use (ex_mem (pl_latches c)) p" using c(2) p by (simp_all add: settled_def)
  have "register_read (registers (pl_state c)) r = Some v"
    using l(1) r by (auto simp: operands_latched_def operand_register_def)
  then have v: "v = registers (pl_state c) ! unat r"
    using register_read_ok [of "registers (pl_state c)" r] ok(1) r32 by (simp add: hart_ok_def)
  obtain s1 w1 x w where w: "written_back (mem_wb (pl_latches c)) (pl_state c, pl_walker c) (s1, w1)"
      "written_back (map_option (through_memory x) (ex_mem (pl_latches c))) (s1, w1) (s, w)"
    using s by (auto simp: drained_def)
  have hazard: "\<not> detect_raw_hazard (d_rd (em_decoded e)) (Some r) None"
    if "ex_mem (pl_latches c) = Some e" "is_load (em_decoded e)" for e
    using l(2) that r by (auto simp: no_load_use_def detect_raw_hazard_def split: option.splits)
  have xret: "mw_writeback_value q = None" if "mem_wb (pl_latches c) = Some q" "is_xret (mw_decoded q)" for q
    using c(2) that by (simp add: settled_def)
  have ex: "executed e" if "ex_mem (pl_latches c) = Some e" for e using c(2) that by (simp add: settled_def)
  show ?thesis
    unfolding operand_value_def v
    by (rule forwarded_register [OF ok(1,2) r32 ok(4) xret ok(3) ex hazard w])
qed

text \<open>The older instructions can always finish.\<close>

lemma drained_exists:
  assumes "pipeline_ok c"
  shows "\<exists>s. drained c s"
proof -
  have step: "\<exists>s' w'. written_back m (s, w) (s', w') \<and> hart_ok s' \<and> walker_ok w'"
    if "hart_ok s" "walker_ok w" "payload_ok mw_decoded m" for m s w
    using that write_back_stage_ok [OF that(1,2)] by (cases m) (force simp: written_back_def)+
  have ok: "hart_ok (pl_state c)" "walker_ok (pl_walker c)" "payload_ok mw_decoded (mem_wb (pl_latches c))"
    using assms by (simp_all add: pipeline_ok_def latches_ok_def)
  obtain s1 w1 where s1: "written_back (mem_wb (pl_latches c)) (pl_state c, pl_walker c) (s1, w1)"
      "hart_ok s1" "walker_ok w1"
    using step [OF ok] by blast
  have "payload_ok mw_decoded (map_option (through_memory 0) (ex_mem (pl_latches c)))"
    using assms by (cases "ex_mem (pl_latches c)")
      (simp_all add: pipeline_ok_def latches_ok_def through_memory_def pass_through_def)
  from step [OF s1(2,3) this] s1(1) show ?thesis unfolding drained_def by blast
qed

section \<open>A cycle\<close>

text \<open>What a phase leaves alone: the latches of the cycle, and the registers.\<close>

definition unmoved :: "'b cycle_state \<Rightarrow> 'b cycle_state \<Rightarrow> bool" where
  "unmoved st st' \<longleftrightarrow> (case (st, st') of ((c, b, l), (c', b', l')) \<Rightarrow>
     pl_latches c' = pl_latches c \<and> registers (pl_state c') = registers (pl_state c) \<and>
     lv_memory_wait l' = lv_memory_wait l \<and> lv_translation_barrier l' = lv_translation_barrier l \<and>
     (lv_flushed l \<longrightarrow> lv_flushed l'))"

lemma take_trap_unmoved:
  assumes "take_trap t a msg (c, b, l) = Some (e, (c', b', l'))"
  shows "unmoved (c, b, l) (c', b', l') \<and> lv_next l' = lv_next l \<and> lv_flushed l' \<and> lv_note l' = msg"
proof -
  obtain res s where s: "apply_trap t a (pl_state c) = (res, s)" by force
  have "registers s = registers (pl_state c)" using s by (auto simp: apply_trap_def split: prod.splits)
  then show ?thesis using assms s by (auto simp: take_trap_def phase_done_def unmoved_def)
qed

lemma phase_write_back_latches:
  assumes "phase_write_back (c, b, l) = Some (Inr u, (c', b', l'))"
  shows "pl_latches c' = pl_latches c \<and> lv_next l' = lv_next l \<and> lv_memory_wait l' = lv_memory_wait l \<and>
    lv_flushed l' = lv_flushed l \<and> (lv_translation_barrier l' \<longrightarrow> lv_translation_barrier l)"
  using assms by (auto simp: phase_write_back_def phase_done_def split: option.splits if_splits)

lemma phase_interrupt_latches:
  assumes "phase_interrupt ops (c, b, l) = Some (Inr u, (c', b', l'))"
  shows "unmoved (c, b, l) (c', b', l') \<and> lv_next l' = lv_next l"
  using assms take_trap_unmoved
  by (fastforce simp: phase_interrupt_def phase_done_def unmoved_def split: option.splits if_splits)

lemma memory_stage_value:
  assumes "memory_stage ops c p e st = Some (Inr (MemoryAdvance q), st')" "executed e" "is_xret (mw_decoded q)"
  shows "mw_writeback_value q = None"
proof -
  have d: "mw_decoded q = em_decoded e"
    using assms(1) by (auto simp: memory_stage_def pass_through_def Let_def
        split: instruction_kind.splits option.splits sum.splits prod.splits translation_result.splits if_splits)
  then have "is_xret (em_decoded e)" using assms(3) by simp
  then have "q = pass_through e (em_writeback_value e)"
    using assms(1) by (auto simp: is_xret_def memory_stage_def)
  then show ?thesis using xret_no_value [OF assms(2)] \<open>is_xret (em_decoded e)\<close> by (simp add: pass_through_def)
qed

lemma phase_memory_latches:
  assumes "phase_memory ops (c, b, l) = Some (Inr u, (c', b', l'))" "lv_next l = latches_default"
    "\<not> lv_memory_wait l" "settled c0" "pl_latches c0 = pl_latches c"
  shows "pl_latches c' = pl_latches c \<and> registers (pl_state c') = registers (pl_state c) \<and>
    lv_translation_barrier l' = lv_translation_barrier l \<and>
    (lv_memory_wait l' \<longrightarrow> lv_note l' = ''memory wait'') \<and>
    (\<not> lv_memory_wait l' \<longrightarrow> id_ex (lv_next l') = None \<and> ex_mem (lv_next l') = None \<and>
       (case mem_wb (lv_next l') of
          None \<Rightarrow> True
        | Some q \<Rightarrow> is_xret (mw_decoded q) \<longrightarrow> mw_writeback_value q = None))"
proof (cases "if lv_flushed l then None else ex_mem (pl_latches c)")
  case None
  then show ?thesis using assms by (simp add: phase_memory_def phase_done_def latches_default_def)
next
  case (Some e)
  then have e: "executed e" using assms(4,5) by (simp add: settled_def split: if_splits)
  let ?l = "l\<lparr>lv_fetch_stalled := fetch_blocked_by_memory_access (pl_unified_memory c) (uses_memory (em_decoded e))\<rparr>"
  obtain ev w b1 where m: "memory_stage ops (csrs (pl_state c)) (privilege (pl_state c)) e (pl_walker c, b) =
      Some (Inr ev, (w, b1))"
    using assms(1) Some by (auto simp: phase_memory_def Let_def split: option.splits sum.splits)
  show ?thesis
  proof (cases ev)
    case (MemoryAdvance q)
    then show ?thesis
      using assms m Some memory_stage_value [OF m [unfolded MemoryAdvance] e]
      by (auto simp: phase_memory_def phase_done_def latches_default_def Let_def)
  next
    case (MemoryStall q)
    then show ?thesis using assms m Some by (auto simp: phase_memory_def phase_done_def Let_def)
  next
    case (MemoryTrap t)
    then have "take_trap t (d_pc (em_decoded e)) ''memory trap'' (c\<lparr>pl_walker := w\<rparr>, b1, ?l) = Some (Inr u, (c', b', l'))"
      using assms(1) m Some by (simp add: phase_memory_def Let_def)
    from take_trap_unmoved [OF this] show ?thesis using assms(2,3) by (simp add: unmoved_def latches_default_def)
  qed
qed

lemma phase_execute_latches:
  assumes "phase_execute (c, b, l) = Some (Inr u, (c', b', l'))"
    "\<not> lv_memory_wait l \<longrightarrow> ex_mem (lv_next l) = None"
  shows "pl_latches c' = pl_latches c \<and> registers (pl_state c') = registers (pl_state c) \<and>
    lv_memory_wait l' = lv_memory_wait l \<and>
    (lv_note l = ''memory wait'' \<and> lv_memory_wait l \<longrightarrow> lv_note l' = ''memory wait'') \<and>
    id_ex (lv_next l') = id_ex (lv_next l) \<and> mem_wb (lv_next l') = mem_wb (lv_next l) \<and>
    (lv_translation_barrier l' \<longrightarrow> lv_translation_barrier l \<or> lv_flushed l') \<and>
    (\<not> lv_memory_wait l \<longrightarrow>
       (case ex_mem (lv_next l') of
          None \<Rightarrow> True
        | Some e \<Rightarrow> executed e \<and> (\<exists>p. id_ex (pl_latches c) = Some p \<and> ie_decoded p = em_decoded e)))"
proof (cases "if \<not> lv_flushed l \<and> \<not> lv_memory_wait l \<and> \<not> lv_translation_barrier l then id_ex (pl_latches c) else None")
  case None
  then show ?thesis using assms by (simp add: phase_execute_def phase_done_def)
next
  case (Some p)
  then have o: "\<not> lv_memory_wait l" "id_ex (pl_latches c) = Some p" by (simp_all split: if_splits)
  let ?v1 = "forwarded_operand (d_rs1 (ie_decoded p)) (ie_rs1_value p) (ex_mem (pl_latches c)) (mem_wb (pl_latches c))"
  let ?v2 = "forwarded_operand (d_rs2 (ie_decoded p)) (ie_rs2_value p) (ex_mem (pl_latches c)) (mem_wb (pl_latches c))"
  obtain ev where ev: "execute_stage (ie_decoded p) ?v1 ?v2 (privilege (pl_state c)) (csrs (pl_state c)) = Some ev"
    using assms(1) Some by (auto simp: phase_execute_def Let_def split: option.splits)
  show ?thesis
  proof (cases ev)
    case (ExecuteTrap t)
    then have "take_trap t (d_pc (ie_decoded p)) ''execute trap'' (c, b, l) = Some (Inr u, (c', b', l'))"
      using assms(1) Some ev by (simp add: phase_execute_def Let_def)
    from take_trap_unmoved [OF this] show ?thesis using assms(2) o by (simp add: unmoved_def)
  next
    case (ExecuteAdvance out)
    have "executed (execute_payload (ie_decoded p) out)"
      unfolding executed_def using ev ExecuteAdvance
      by (intro exI [of _ ?v1] exI [of _ ?v2] exI [of _ "privilege (pl_state c)"] exI [of _ "csrs (pl_state c)"]
          exI [of _ out]) (simp add: execute_payload_def)
    then show ?thesis
      using assms(1) Some ev ExecuteAdvance o
      by (auto simp: phase_execute_def phase_done_def Let_def execute_payload_def
          split: option.splits if_splits)
  qed
qed

lemma phase_decode_latches:
  assumes "phase_decode (c, b, l) = Some (Inr u, (c', b', l'))"
    "\<not> lv_memory_wait l" "id_ex (lv_next l) = None"
    "lv_translation_barrier l \<longrightarrow> lv_flushed l \<or> id_ex (pl_latches c) = None"
    "\<And>e p. ex_mem (lv_next l) = Some e \<Longrightarrow> \<exists>p. id_ex (pl_latches c) = Some p \<and> ie_decoded p = em_decoded e"
  shows "unmoved (c, b, l) (c', b', l') \<and> ex_mem (lv_next l') = ex_mem (lv_next l) \<and>
    mem_wb (lv_next l') = mem_wb (lv_next l) \<and>
    (case id_ex (lv_next l') of
       None \<Rightarrow> True
     | Some p \<Rightarrow> operands_latched c p \<and> no_load_use (ex_mem (lv_next l)) p \<and> \<not> lv_translation_barrier l)"
proof (cases "\<not> lv_flushed l \<and> \<not> lv_translation_barrier l")
  case False
  then show ?thesis
    using assms(1-4) by (auto simp: phase_decode_def phase_done_def unmoved_def split: if_splits)
next
  case run: True
  show ?thesis
  proof (cases "pipeline_latches.if_id (pl_latches c)")
    case None
    then show ?thesis using assms(1-3) run by (simp add: phase_decode_def phase_done_def unmoved_def)
  next
    case (Some i)
    show ?thesis
    proof (cases "decode_stage (ii_raw i) (ii_pc i)")
      case (Inl x)
      then have "take_trap (TrapException (IllegalInstruction (ii_raw i))) (ii_pc i) ''illegal instruction'' (c, b, l) =
          Some (Inr u, (c', b', l'))"
        using assms(1,2) run Some by (simp add: phase_decode_def)
      from take_trap_unmoved [OF this] show ?thesis using assms(3) by simp
    next
      case (Inr d)
      have load: "no_load_use (ex_mem (lv_next l)) p"
        if "\<not> load_use_hazard (pl_latches c) d" "ie_decoded p = d" for p
        using that assms(5) by (fastforce simp: no_load_use_def load_use_hazard_def split: option.splits if_splits)
      show ?thesis
        using assms(1-3) run Some Inr load
        by (auto simp: phase_decode_def phase_done_def unmoved_def operands_latched_def Let_def
            split: option.splits if_splits)
    qed
  qed
qed

lemma phase_fetch_latches:
  assumes "phase_fetch ops (c, b, l) = Some (Inr u, (c', b', l'))"
  shows "unmoved (c, b, l) (c', b', l') \<and> ex_mem (lv_next l') = ex_mem (lv_next l) \<and>
    mem_wb (lv_next l') = mem_wb (lv_next l) \<and>
    (id_ex (lv_next l') = id_ex (lv_next l) \<or> id_ex (lv_next l') = None) \<and>
    (lv_flushed l \<longrightarrow> id_ex (lv_next l') = None) \<and>
    (lv_memory_wait l \<and> lv_note l = ''memory wait'' \<longrightarrow> lv_note l' = ''memory wait'')"
  using assms take_trap_unmoved
  by (fastforce simp: phase_fetch_def phase_done_def unmoved_def Let_def
      split: option.splits sum.splits fetch_event.splits if_splits)

lemma and_then_InrE:
  assumes "and_then x f = Some (Inr r, s)"
  obtains u t where "x = Some (Inr u, t)" "f u t = Some (Inr r, s)"
  using assms by (auto simp: and_then_def split: option.splits sum.splits)

lemma pipeline_phasesE:
  assumes "pipeline_phases ops st = Some (Inr u, st6)"
  obtains u1 st1 u2 st2 u3 st3 u4 st4 u5 st5 where
    "phase_write_back st = Some (Inr u1, st1)" "phase_interrupt ops st1 = Some (Inr u2, st2)"
    "phase_memory ops st2 = Some (Inr u3, st3)" "phase_execute st3 = Some (Inr u4, st4)"
    "phase_decode st4 = Some (Inr u5, st5)" "phase_fetch ops st5 = Some (Inr u, st6)"
  using assms unfolding pipeline_phases_def by (elim and_then_InrE) blast

lemma settled_phases:
  assumes "settled c0" "pl_latches c = pl_latches c0" "pl_translation_barrier c = pl_translation_barrier c0"
    "pipeline_phases ops (c, b, locals_start c) = Some (Inr u, (c', b', l'))" "lv_note l' \<noteq> ''memory wait''"
  shows "settled (snd (finish_cycle c' l'))"
proof -
  let ?L = "pl_latches c0"
  obtain u1 u2 u3 u4 u5 and c1 c2 c3 c4 c5 and b1 b2 b3 b4 b5 and l1 l2 l3 l4 l5 where
    p1: "phase_write_back (c, b, locals_start c) = Some (Inr u1, (c1, b1, l1))" and
    p2: "phase_interrupt ops (c1, b1, l1) = Some (Inr u2, (c2, b2, l2))" and
    p3: "phase_memory ops (c2, b2, l2) = Some (Inr u3, (c3, b3, l3))" and
    p4: "phase_execute (c3, b3, l3) = Some (Inr u4, (c4, b4, l4))" and
    p5: "phase_decode (c4, b4, l4) = Some (Inr u5, (c5, b5, l5))" and
    p6: "phase_fetch ops (c5, b5, l5) = Some (Inr u, (c', b', l'))"
    using pipeline_phasesE [OF assms(4)] by (metis prod_cases3)
  have f1: "pl_latches c1 = ?L" "lv_next l1 = latches_default" "\<not> lv_memory_wait l1"
      "lv_translation_barrier l1 \<longrightarrow> pl_translation_barrier c0"
    using phase_write_back_latches [OF p1] assms(2,3) by (auto simp: locals_start_def)
  have f2: "pl_latches c2 = ?L" "lv_next l2 = latches_default" "\<not> lv_memory_wait l2"
      "lv_translation_barrier l2 \<longrightarrow> pl_translation_barrier c0"
    using phase_interrupt_latches [OF p2] f1 by (auto simp: unmoved_def)
  note f3 = phase_memory_latches [OF p3 f2(2,3) assms(1) f2(1) [symmetric]]
  show ?thesis
  proof (cases "lv_memory_wait l3")
    case True
    then have n3: "lv_note l3 = ''memory wait''" using f3 by simp
    have w4: "lv_memory_wait l4" "lv_note l4 = ''memory wait''"
      using phase_execute_latches [OF p4] True n3 by simp_all
    have "(c5, b5, l5) = (c4, b4, l4)" using p5 w4(1) by (simp add: phase_decode_def phase_done_def)
    then have "lv_note l' = ''memory wait''" using phase_fetch_latches [OF p6] w4 by simp
    then show ?thesis using assms(5) by simp
  next
    case False
    then have n3: "id_ex (lv_next l3) = None" "ex_mem (lv_next l3) = None" "pl_latches c3 = ?L"
      using f3 f2(1) by simp_all
    note f4 = phase_execute_latches [OF p4, simplified n3(2), simplified]
    have bar: "lv_translation_barrier l4 \<longrightarrow> lv_flushed l4 \<or> id_ex (pl_latches c4) = None"
      using f4 f3 f2(4) assms(1) n3(3) by (auto simp: settled_def split: option.splits)
    have n4: "\<not> lv_memory_wait l4" "id_ex (lv_next l4) = None" using f4 False n3(1) by simp_all
    have e4: "\<exists>p. id_ex (pl_latches c4) = Some p \<and> ie_decoded p = em_decoded e" if "ex_mem (lv_next l4) = Some e" for e
      using f4 False that by auto
    note f5 = phase_decode_latches [OF p5 n4 bar e4]
    note f6 = phase_fetch_latches [OF p6]
    have regs: "registers (pl_state c') = registers (pl_state c4)" "lv_translation_barrier l' = lv_translation_barrier l4"
      using f5 f6 by (simp_all add: unmoved_def)
    have "case ex_mem (lv_next l') of None \<Rightarrow> True | Some e \<Rightarrow> executed e"
      using f4 f5 f6 False by (auto split: option.splits)
    moreover have "case mem_wb (lv_next l') of None \<Rightarrow> True
        | Some q \<Rightarrow> is_xret (mw_decoded q) \<longrightarrow> mw_writeback_value q = None"
      using f3 f4 f5 f6 False by simp
    moreover have "case id_ex (lv_next l') of None \<Rightarrow> True | Some p \<Rightarrow> operands_latched c4 p \<and>
        no_load_use (ex_mem (lv_next l')) p \<and> \<not> lv_translation_barrier l'"
      using f5 f6 regs(2) by (auto split: option.splits)
    ultimately show ?thesis
      using regs by (auto simp: settled_def finish_cycle_def Let_def operands_latched_def split: option.splits)
  qed
qed

lemma settled_cycle:
  assumes "settled c" "pipeline_step ops (c, b) = Some (Inr rep, (c', b'))"
    "pt_note (pl_last_trace c') \<noteq> ''memory wait''"
  shows "settled c'"
proof (cases "halted (pl_state c)")
  case True
  then have "c' = halted_cycle ops b (begin_cycle ops b c)"
    using assms(2) by (auto simp: pipeline_step_def begin_cycle_def)
  then show ?thesis
    using assms(1)
    by (auto simp: halted_cycle_def begin_cycle_def settled_def operands_latched_def latches_default_def Let_def
        split: option.splits prod.splits)
next
  case False
  let ?c = "begin_cycle ops b c"
  obtain u c1 b1 l1 where p: "pipeline_phases ops (?c, b, locals_start ?c) = Some (Inr u, (c1, b1, l1))"
      "c' = snd (finish_cycle c1 l1)"
    using assms(2) False
    by (auto simp: pipeline_step_def begin_cycle_def Let_def split: option.splits sum.splits prod.splits)
  then have "lv_note l1 \<noteq> ''memory wait''"
    using assms(3) by (simp add: finish_cycle_def cycle_trace_def Let_def)
  from settled_phases [OF assms(1) _ _ p(1) this] show ?thesis using p(2) by (simp add: begin_cycle_def)
qed

end
