(* ===== verification/Stale_Operand.thy ===== *)
theory Stale_Operand
  imports Forwarding Imprecise_Traps
begin

text \<open>
  The operands of the execute stage on a whole machine: right in every run without a memory wait, and
  out of date after a memory wait in whose first cycle the instruction that makes the operand wrote back.
\<close>

section \<open>Runs without a memory wait\<close>

text \<open>In none of the next \<open>n\<close> cycles does the instruction in the memory stage wait for the bus.\<close>

fun waitless :: "nat \<Rightarrow> (pipeline_core, device memory_map) machine_state \<Rightarrow> bool" where
  "waitless 0 m = True"
| "waitless (Suc n) m =
     (case machine_step_cycle (mm_ops device_ops) (pipeline_step (mm_ops device_ops)) m of
        Some (Inr _, m) \<Rightarrow> pt_note (pl_last_trace (ms_cpu m)) \<noteq> ''memory wait'' \<and> waitless n m
      | _ \<Rightarrow> False)"

lemma settled_run:
  assumes "settled (ms_cpu m)" "waitless n m"
    "run_cycles (mm_ops device_ops) (pipeline_step (mm_ops device_ops)) n m = Some (Inr reps, m')"
  shows "settled (ms_cpu m')"
  using assms
proof (induction n arbitrary: m reps)
  case (Suc n)
  obtain x m1 where x: "machine_step_cycle (mm_ops device_ops) (pipeline_step (mm_ops device_ops)) m = Some (x, m1)"
    using Suc.prems(2) by (auto split: option.splits)
  then obtain rep where "x = Inr rep" using Suc.prems(2) by (cases x) simp_all
  with x Suc.prems(2) have m1: "machine_step_cycle (mm_ops device_ops) (pipeline_step (mm_ops device_ops)) m = Some (Inr rep, m1)"
      "pt_note (pl_last_trace (ms_cpu m1)) \<noteq> ''memory wait''" "waitless n m1"
    by simp_all
  obtain b b' where "pipeline_step (mm_ops device_ops) (ms_cpu m, b) = Some (Inr rep, (ms_cpu m1, b'))"
    using m1(1) by (auto simp: machine_step_cycle_def split: option.splits sum.splits prod.splits)
  then have s: "settled (ms_cpu m1)" by (rule settled_cycle [OF Suc.prems(1) _ m1(2)])
  obtain reps1 where "run_cycles (mm_ops device_ops) (pipeline_step (mm_ops device_ops)) n m1 = Some (Inr reps1, m')"
    using Suc.prems(3) m1(1) by (auto simp: and_then_def split: option.splits sum.splits prod.splits)
  then show ?case using Suc.IH s m1(3) by blast
qed simp

text \<open>
  C23. Forwarding delivers the architectural operands in every run without a memory wait. Start a machine
  with empty latches, as reset leaves them, and let it run for any number of cycles in none of which the
  memory stage waits for the bus. When an instruction is then before the execute stage, each register
  that it reads has, after the two older instructions in flight have finished (\<open>drained\<close>: they write back
  in order, a load with whatever value memory gives it), the very value that the execute stage takes: the
  one latched in the decode stage, or the one forwarded from the memory or the write-back stage. The older
  instructions can always finish.
\<close>

theorem forwarding_correct:
  assumes "pipeline_ok (ms_cpu m)" "pl_latches (ms_cpu m) = latches_default" "mm_ok 0 (\<lambda>_. device_ok) (ms_bus m)"
    and "run_cycles (mm_ops device_ops) (pipeline_step (mm_ops device_ops)) n m = Some (Inr reps, m')"
    and "waitless n m" "id_ex (pl_latches (ms_cpu m')) = Some p"
  shows "(\<exists>s. drained (ms_cpu m') s) \<and>
    (\<forall>s r. drained (ms_cpu m') s \<and> d_rs1 (ie_decoded p) = Some r \<longrightarrow> register_read (registers s) r =
       Some (forwarded_operand (Some r) (ie_rs1_value p) (ex_mem (pl_latches (ms_cpu m'))) (mem_wb (pl_latches (ms_cpu m'))))) \<and>
    (\<forall>s r. drained (ms_cpu m') s \<and> d_rs2 (ie_decoded p) = Some r \<longrightarrow> register_read (registers s) r =
       Some (forwarded_operand (Some r) (ie_rs2_value p) (ex_mem (pl_latches (ms_cpu m'))) (mem_wb (pl_latches (ms_cpu m')))))"
proof -
  have "settled (ms_cpu m)" using assms(2) by (simp add: settled_def latches_default_def)
  then have "settled (ms_cpu m')" using settled_run assms(4,5) by blast
  moreover have "pipeline_ok (ms_cpu m')"
    using pipeline_machine.run_cycles_safe [OF assms(1,3), of n] assms(4) by auto
  ultimately show ?thesis
    using settled_operand [OF _ _ assms(6)] drained_exists unfolding operand_value_def by blast
qed

text \<open>
  \<open>addi x1, x0, 5; addi x1, x1, 7; add x4, x1, x1\<close>: after four cycles the \<open>add\<close> is before the execute stage, and
  its operand is the result of the second \<open>addi\<close>, forwarded over that of the first one.
\<close>

abbreviation two_additions :: "u32 list" where
  "two_additions \<equiv> [0x00500093, 0x00708093, 0x00108233, 0x00000013, 0x00000013, 0x00000013]"

lemma two_additions_run:
  "waitless 4 (machine_new ((pipeline_new 0)\<lparr>pl_state := hart_with_x1 Machine\<rparr>) (word_memory two_additions)) \<and>
   (case pipeline_run Machine two_additions 4 of
      Some (Inr _, m) \<Rightarrow>
        (case id_ex (pl_latches (ms_cpu m)) of
           Some p \<Rightarrow> d_rs1 (ie_decoded p) = Some 1 \<and> ie_rs1_value p = 0x40 \<and>
             forwarded_operand (Some 1) (ie_rs1_value p) (ex_mem (pl_latches (ms_cpu m)))
               (mem_wb (pl_latches (ms_cpu m))) = 12
         | None \<Rightarrow> False)
    | _ \<Rightarrow> False)"
  by code_simp

lemma forwarding_correct_witness:
  "\<exists>reps m s. pipeline_run Machine two_additions 4 = Some (Inr reps, m) \<and> drained (ms_cpu m) s \<and>
     register_read (registers s) 1 = Some 12"
proof -
  let ?m = "machine_new ((pipeline_new 0)\<lparr>pl_state := hart_with_x1 Machine\<rparr>) (word_memory two_additions)"
  obtain reps m where m: "pipeline_run Machine two_additions 4 = Some (Inr reps, m)"
    using pipeline_run_ok [of two_additions Machine 4] by auto
  obtain p where p: "id_ex (pl_latches (ms_cpu m)) = Some p" "d_rs1 (ie_decoded p) = Some 1"
      "forwarded_operand (Some 1) (ie_rs1_value p) (ex_mem (pl_latches (ms_cpu m))) (mem_wb (pl_latches (ms_cpu m))) = 12"
    using two_additions_run m by (auto split: option.splits)
  have "pipeline_ok (ms_cpu ?m)" "pl_latches (ms_cpu ?m) = latches_default" "mm_ok 0 (\<lambda>_. device_ok) (ms_bus ?m)"
    using pipeline_ok_new [of 0] hart_with_x1_ok [of Machine] word_memory_ok [of two_additions]
    by (simp_all add: machine_new_def pipeline_ok_def pipeline_new_def)
  note f = forwarding_correct [OF this m [unfolded pipeline_run_def] conjunct1 [OF two_additions_run] p(1)]
  show ?thesis using m f p(2,3) by metis
qed

section \<open>A memory wait\<close>

text \<open>
  C12. A memory wait loses an operand. Let the instruction before the execute stage read \<open>r\<close>, let an
  instruction that writes \<open>v\<close> to \<open>r\<close> be in the write-back stage, and let the one in between wait for the
  bus. After the cycle \<open>r\<close> holds \<open>v\<close>, but the waiting instruction keeps the value that it latched before,
  and nothing is left in the write-back stage to forward: the execute stage takes the latched value,
  however old it is.
\<close>

theorem memory_wait_loses_operand:
  assumes "pipeline_ok c" "\<not> halted (pl_state c)" "r \<noteq> 0"
    and q: "mem_wb (pl_latches c) = Some q" "writes_back (mw_decoded q)" "d_rd (mw_decoded q) = Some r"
      "mw_writeback_value q = Some v" "mw_csr_write q = None" "mw_translation_fence q = None"
    and e: "ex_mem (pl_latches c) = Some e" "d_rd (em_decoded e) \<noteq> Some r"
    and p: "id_ex (pl_latches c) = Some p" "d_rs1 (ie_decoded p) = Some r"
    and "pending_interrupt (sample_inputs ops b (csrs (pl_state c))) (privilege (pl_state c)) = None"
    and "memory_stage ops (sample_inputs ops b (csrs (pl_state c))) (privilege (pl_state c)) e (pl_walker c, b) =
      Some (Inr (MemoryStall e), (w, b'))"
  shows "\<exists>rep c'. pipeline_step ops (c, b) = Some (Inr rep, (c', b')) \<and>
    register_read (registers (pl_state c')) r = Some v \<and> id_ex (pl_latches c') = Some p \<and>
    forwarded_operand (d_rs1 (ie_decoded p)) (ie_rs1_value p) (ex_mem (pl_latches c')) (mem_wb (pl_latches c')) =
      ie_rs1_value p"
proof -
  let ?s = "(pl_state c)\<lparr>csrs := sample_inputs ops b (csrs (pl_state c))\<rparr>"
  have regs: "regs_ok (registers ?s)" "unat r < 32"
  proof -
    show "regs_ok (registers ?s)" using assms(1) by (simp add: pipeline_ok_def hart_ok_def)
    have "decoded_ok (mw_decoded q)" using assms(1) q(1) by (simp add: pipeline_ok_def latches_ok_def)
    then have "reg_ok (Some r)" using q(3) unfolding decoded_ok_def by metis
    then show "unat r < 32" by simp
  qed
  obtain regs' where r: "register_write r v (registers ?s) = Some regs'" "register_read regs' r = Some v"
    using register_write_ok [OF regs, of v] register_read_write [OF regs regs(2), of v] assms(3) by auto
  have k: "d_kind (mw_decoded q) \<noteq> System kind" for kind using q(2) by (auto simp: writes_back_def)
  let ?s1 = "?s\<lparr>registers := regs', pc := mw_next_pc q\<rparr>"
  obtain ev where wb: "write_back_stage q (?s, pl_walker c) = Some (ev, (?s1, pl_walker c))"
    using q r(1) k by (simp add: write_back_stage_def Let_def write_rd_def)
  show ?thesis
    using assms r(2) wb k
    by (simp add: pipeline_step_def pipeline_phases_def begin_cycle_def locals_start_def latches_default_def
        phase_write_back_def phase_interrupt_def phase_memory_def phase_execute_def phase_decode_def
        phase_fetch_def phase_done_def and_then_def finish_cycle_def cycle_result_def Let_def
        is_translation_barrier_payload_def forwarded_operand_def increment_instret_def)
qed

text \<open>
  The program \<open>addi x1, x0, 5; lw x2, 0x100(x0); add x4, x1, x1\<close> in a memory without wait states, with a
  data memory of one wait state at \<open>0x100\<close>; \<open>x1\<close> starts as \<open>0x40\<close>. The reference core computes
  \<open>x4 = 10\<close>. The pipelined core adds the old \<open>x1\<close>, in spite of the \<open>addi\<close> two instructions before.
\<close>

definition slow_data :: "u32 list \<Rightarrow> device memory_map" where
  "slow_data ws = (word_memory ws)\<lparr>mm_devices := mm_devices (word_memory ws) @
     [\<lparr>slot_range = \<lparr>range_start = 0x100, range_size = 4\<rparr>, slot_name = ''ram'',
       slot_device = Delayed \<lparr>la_inner = DevRam (ram_new 0x100 4), la_latency_cycles = 1\<rparr>\<rparr>]\<rparr>"

abbreviation sum_after_load :: "u32 list" where
  "sum_after_load \<equiv> [0x00500093, 0x10002103, 0x00108233, 0x00000013, 0x00000013, 0x00000013, 0x00000013, 0x00000013]"

definition slow_data_run where
  "slow_data_run n = run_cycles (mm_ops device_ops) (pipeline_step (mm_ops device_ops)) n
     (machine_new ((pipeline_new 0)\<lparr>pl_state := hart_with_x1 Machine\<rparr>) (slow_data sum_after_load))"

definition slow_data_reference where
  "slow_data_reference n = run_cycles (mm_ops device_ops) (reference_step (mm_ops device_ops)) n
     (machine_new ((reference_new 0)\<lparr>rc_state := hart_with_x1 Machine\<rparr>) (slow_data sum_after_load))"

lemma reference_adds_new_value:
  "case slow_data_reference 5 of
     Some (Inr _, m) \<Rightarrow> register_read (registers (rc_state (ms_cpu m))) 4 = Some 10 | _ \<Rightarrow> False"
  by code_simp

lemma pipeline_adds_old_value:
  "case slow_data_run 9 of
     Some (Inr _, m) \<Rightarrow> register_read (registers (pl_state (ms_cpu m))) 1 = Some 5 \<and>
       register_read (registers (pl_state (ms_cpu m))) 4 = Some 0x80
   | _ \<Rightarrow> False"
  by code_simp

text \<open>The state in which the theorem applies, after four cycles.\<close>

definition loses_x1 :: "pipeline_core \<Rightarrow> device memory_map \<Rightarrow> bool" where
  "loses_x1 c b \<longleftrightarrow> \<not> halted (pl_state c) \<and> quiet c b \<and>
     (case (mem_wb (pl_latches c), ex_mem (pl_latches c), id_ex (pl_latches c)) of
        (Some q, Some e, Some p) \<Rightarrow>
          writes_back (mw_decoded q) \<and> d_rd (mw_decoded q) = Some 1 \<and> mw_writeback_value q = Some 5 \<and>
          mw_csr_write q = None \<and> mw_translation_fence q = None \<and> d_rd (em_decoded e) \<noteq> Some 1 \<and>
          d_rs1 (ie_decoded p) = Some 1 \<and> ie_rs1_value p = 0x40 \<and>
          (case memory_stage (mm_ops device_ops) (sample_inputs (mm_ops device_ops) b (csrs (pl_state c)))
              (privilege (pl_state c)) e (pl_walker c, b) of
             Some (Inr (MemoryStall _), _) \<Rightarrow> True
           | _ \<Rightarrow> False)
      | _ \<Rightarrow> False)"

lemma slow_data_loses_x1:
  "case slow_data_run 4 of Some (Inr _, m) \<Rightarrow> loses_x1 (ms_cpu m) (stepped m) | _ \<Rightarrow> False"
  by code_simp

lemma memory_stage_stall_same:
  "memory_stage ops c p e st = Some (Inr (MemoryStall e'), st') \<Longrightarrow> e' = e"
  by (auto simp: memory_stage_def Let_def split: instruction_kind.splits option.splits sum.splits prod.splits
      translation_result.splits if_splits)

lemma slow_data_ok: "mm_ok 0 (\<lambda>_. device_ok) (slow_data sum_after_load)"
  using word_memory_ok [of sum_after_load]
  by (simp add: mm_ok_def devices_ok_def single_client_def slow_data_def ram_ok_new nth_append word_memory_def
      less_Suc_eq memory_map_new_def)

lemma memory_wait_loses_operand_witness:
  "\<exists>reps m rep c' b' p. slow_data_run 4 = Some (Inr reps, m) \<and>
     pipeline_step (mm_ops device_ops) (ms_cpu m, stepped m) = Some (Inr rep, (c', b')) \<and>
     register_read (registers (pl_state c')) 1 = Some 5 \<and> id_ex (pl_latches c') = Some p \<and>
     forwarded_operand (Some 1) (ie_rs1_value p) (ex_mem (pl_latches c')) (mem_wb (pl_latches c')) = 0x40"
proof -
  have "pipeline_ok ((pipeline_new 0)\<lparr>pl_state := hart_with_x1 Machine\<rparr>)"
    using pipeline_ok_new [of 0] hart_with_x1_ok by (simp add: pipeline_ok_def)
  then obtain reps m where m: "slow_data_run 4 = Some (Inr reps, m)" "pipeline_ok (ms_cpu m)"
    using pipeline_machine.run_cycles_safe
        [of "machine_new ((pipeline_new 0)\<lparr>pl_state := hart_with_x1 Machine\<rparr>) (slow_data sum_after_load)" 4]
      slow_data_ok
    by (auto simp: slow_data_run_def machine_new_def)
  let ?c = "ms_cpu m" and ?b = "stepped m"
  let ?k = "sample_inputs (mm_ops device_ops) ?b (csrs (pl_state ?c))"
  note at = slow_data_loses_x1 [unfolded m(1) option.case prod.case sum.case]
  obtain q e p where l: "mem_wb (pl_latches ?c) = Some q" "ex_mem (pl_latches ?c) = Some e" "id_ex (pl_latches ?c) = Some p"
    using at by (auto simp: loses_x1_def split: option.splits)
  note at = at [unfolded loses_x1_def quiet_def l option.case prod.case]
  obtain e' w b' where "memory_stage (mm_ops device_ops) ?k (privilege (pl_state ?c)) e (pl_walker ?c, ?b) =
      Some (Inr (MemoryStall e'), (w, b'))"
    using at by (auto split: option.splits sum.splits memory_event.splits)
  with memory_stage_stall_same have stall: "memory_stage (mm_ops device_ops) ?k (privilege (pl_state ?c)) e (pl_walker ?c, ?b) =
      Some (Inr (MemoryStall e), (w, b'))" by metis
  have "\<exists>rep c'. pipeline_step (mm_ops device_ops) (?c, ?b) = Some (Inr rep, (c', b')) \<and>
    register_read (registers (pl_state c')) 1 = Some 5 \<and> id_ex (pl_latches c') = Some p \<and>
    forwarded_operand (d_rs1 (ie_decoded p)) (ie_rs1_value p) (ex_mem (pl_latches c')) (mem_wb (pl_latches c')) =
      ie_rs1_value p"
    by (rule memory_wait_loses_operand [OF m(2) _ _ l(1) _ _ _ _ _ l(2) _ l(3) _ _ stall]) (use at in simp_all)
  then show ?thesis using m(1) at by auto
qed

end
