(* ===== verification/Lost_Line.thy ===== *)
theory Lost_Line
  imports Cache_View Shared_Dma
begin

text \<open>
  What a bank does when the bus below refuses the burst of a write-back, as the arbiter does in every
  cycle that it gives to a master: the operation that holds the victim is dropped by the \<open>?\<close> of
  \<open>continue_pending\<close>, and the line it held is in neither the bank nor the memory.
\<close>

lemma arbiter_refuses_burst:
  assumes "cpu_reserved a"
  shows "\<exists>a'. bus_submit_burst (arbiter_ops ops mo) r a = Some (Inl (Busy 1), a') \<and> arb_inner a' = arb_inner a"
  using assms by (simp add: arbiter_ops_def cpu_call_def ensure_cpu_slot_def and_then_def)

lemma refused_victim:
  assumes "bus_submit_burst ops (BurstWrite (wb_line_base w) (wb_words w)) b = Some (Inl e, b')"
    and "lo_write_back p = Some w" "wb_burst_id w = None" "cb_pending k = Some p"
  shows "continue_pending ops (k, b) = Some (Inl e, (k\<lparr>cb_pending := None\<rparr>, b'))"
  using assms
  by (simp add: continue_pending_def continue_victim_def progress_write_back_def drive_burst_until_blocked_def
      and_then_def Let_def)

text \<open>
  C13. In a cycle that the arbiter gives to a bus master, a load that must evict a dirty line loses it.
  The load answers \<open>Busy\<close>, nothing has reached the memory below, and at every address of the victim
  the bank, which showed the stored words before, now shows the old contents of the memory.
\<close>

theorem refused_eviction_loses_line:
  assumes "bank_ok k m" "cb_pending k = None" "\<not> holds_line k (line_base k x)"
    and "map_option fst (select_victim (set_of k x) k) = Some v"
    and "slot_map k (set_of k x, v) = Some (line_base k y, True, ws)"
    and "cpu_reserved a"
  shows "\<exists>k' a'. load_word (arbiter_ops ops mo) x kind (k, a) = Some (Inl (Busy 1), (k', a')) \<and>
    arb_inner a' = arb_inner a \<and> cb_pending k' = None \<and> \<not> holds_line k' (line_base k y) \<and>
    bank_view k m y = bytes_of ws ! unat (y - line_base k y) \<and> bank_view k' m y = m y"
proof -
  note ok = bank_ok_parts [OF assms(1)]
  obtain k1 where k1: "start_pending (decode_address k x) kind True k = Some k1" "shaped k1" "cb_config k1 = cb_config k"
      "slot_map k1 = (slot_map k)((set_of k x, v) := None)"
      "cb_pending k1 = Some \<lparr>lo_write_back = evicted (slot_map k (set_of k x, v)),
        lo_refill = pending_refill_new (decode_address k x) v (line_words k) kind\<rparr>"
    using start_pending_victim [OF ok(1,5), of x kind True] assms(4) by auto
  note c = same_config [OF k1(3)]
  obtain a' where a': "arb_inner a' = arb_inner a"
      "bus_submit_burst (arbiter_ops ops mo) (BurstWrite (line_base k y) ws) a = Some (Inl (Busy 1), a')"
    using arbiter_refuses_burst [OF assms(6)] by blast
  have "continue_pending (arbiter_ops ops mo) (k1, a) = Some (Inl (Busy 1), (k1\<lparr>cb_pending := None\<rparr>, a'))"
    by (rule refused_victim [where w = "pending_write_back_new (line_base k y) ws"])
      (use a' k1(5) assms(5) in \<open>simp_all add: pending_write_back_new_def\<close>)
  then have load: "load_word (arbiter_ops ops mo) x kind (k, a) = Some (Inl (Busy 1), (k1\<lparr>cb_pending := None\<rparr>, a'))"
    using lookup_miss [OF ok(1) assms(3)] assms(2) k1(1)
    by (simp add: load_word_def ensure_line_def join_pending_def fill_line_def and_then_def Let_def)
  have gone: "\<not> holds_line k1 (line_base k y)"
  proof
    assume "holds_line k1 (line_base k y)"
    then obtain s d ws' where s: "slot_map k1 s = Some (line_base k y, d, ws')" by (auto simp: holds_line_def)
    then have "s \<noteq> (set_of k x, v)" "slot_map k s = Some (line_base k y, d, ws')"
      using k1(4) by (auto split: if_splits)
    then show False using ok(2) assms(5) unfolding unique_lines_def by blast
  qed
  have "bank_view (k1\<lparr>cb_pending := None\<rparr>) m y = m y"
    by (rule view_memory) (use k1(2) gone c(1) in simp_all)
  moreover have "bank_view k m y = bytes_of ws ! unat (y - line_base k y)"
    using view_cached [OF ok(1,2) assms(5)] .
  ultimately show ?thesis using load gone a'(1) by (intro exI [of _ "k1\<lparr>cb_pending := None\<rparr>"] exI [of _ a']) simp
qed

text \<open>A write-back bank of one line of four bytes, which holds a stored word for address 0.\<close>

definition one_line :: cache_config where
  "one_line = \<lparr>line_count = 1, line_size = 4, associativity = 1, cc_replacement = RoundRobin, cc_write = WriteBack,
     cc_allocation = WriteAllocate, cached_ranges = [\<lparr>range_start = 0, range_size = 16\<rparr>]\<rparr>"

definition dirty_bank :: cache_bank where
  "dirty_bank = \<lparr>cb_config = one_line,
     cb_sets = [\<lparr>cs_lines = [\<lparr>cl_valid = True, cl_dirty = True, cl_tag = 0, cl_words = [0xDEADBEEF],
       cl_last_used = 0\<rparr>], next_victim = 0\<rparr>],
     cb_stats = cache_stats_default, cb_pending = None, access_epoch = 0\<rparr>"

lemma built_one_line: "built one_line"
proof -
  let ?c = "\<lparr>line_count = 1, line_size = 4, associativity = 1, cc_replacement = RoundRobin,
     cc_write = WriteThrough, cc_allocation = NoWriteAllocate,
     cached_ranges = [\<lparr>range_start = 0, range_size = 16\<rparr>]\<rparr>"
  have "built ?c"
    by (rule built_new [of 1 "[\<lparr>range_start = 0, range_size = 16\<rparr>]"])
      (simp_all add: cache_config_new_def validated_def valid_ranges_def word_bytes_def)
  then have "built (with_store_allocation_policy WriteAllocate (with_write_policy WriteBack ?c))"
    by (intro built_allocation built_write)
  then show ?thesis by (simp add: one_line_def with_store_allocation_policy_def with_write_policy_def)
qed

lemma dirty_bank_fields [simp]:
  "cb_config dirty_bank = one_line" "set_count one_line = 1" "associativity one_line = 1" "line_size one_line = 4"
  "cc_write one_line = WriteBack" "cc_replacement one_line = RoundRobin" "cb_pending dirty_bank = None"
  by (simp_all add: dirty_bank_def one_line_def set_count_def)

lemma dirty_bank_sets:
  "cb_sets dirty_bank = [\<lparr>cs_lines = [\<lparr>cl_valid = True, cl_dirty = True, cl_tag = 0, cl_words = [0xDEADBEEF],
     cl_last_used = 0\<rparr>], next_victim = 0\<rparr>]"
  by (simp add: dirty_bank_def)

lemma dirty_bank_slots: "slot_map dirty_bank s = (if s = (0, 0) then Some (0, True, [0xDEADBEEF]) else None)"
proof -
  have "line_base_for_tag dirty_bank 0 0 = 0" by (simp add: line_base_for_tag_def)
  then have "line_content dirty_bank 0 (line_in dirty_bank 0 0) = Some (0, True, [0xDEADBEEF])"
    by (simp add: line_content_def dirty_bank_sets)
  then show ?thesis by (cases s) (auto simp: slot_map_def)
qed

lemma dirty_bank_ok: "bank_ok dirty_bank m"
proof -
  have "decode_address dirty_bank 0 = \<lparr>da_line_base = 0, da_set_index = 0, da_tag = 0, da_word_index = 0\<rparr>"
    by (simp add: decode_address_def line_base_def)
  then have "placed dirty_bank 0 0" by (auto simp: placed_def intro!: exI [of _ 0])
  then have "shaped dirty_bank"
    using built_one_line
    by (simp add: shaped_def set_shaped_def line_shaped_def line_words_def word_bytes_def dirty_bank_sets)
  moreover have "caches_line dirty_bank 0"
    by (simp add: caches_line_def checked_add_def range_contains_def range_end_def) (simp add: one_line_def)
  ultimately show ?thesis
    by (auto simp: bank_ok_def unique_lines_def lines_cacheable_def clean_lines_def dirty_bank_slots split: if_splits)
qed

lemma refused_eviction_loses_line_witness:
  "\<exists>k' a'. load_word (arbiter_ops (mm_ops device_ops) shared_dma) 8 RefillLoad
      (dirty_bank, sample_arbiter\<lparr>cpu_reserved := True\<rparr>) = Some (Inl (Busy 1), (k', a')) \<and>
    bank_view dirty_bank (\<lambda>_. 0) 0 = 0xEF \<and> bank_view k' (\<lambda>_. 0) 0 = 0"
proof -
  have base: "line_base dirty_bank 8 = 8" "line_base dirty_bank 0 = 0" "set_of dirty_bank 8 = 0"
    by (simp_all add: line_base_def decode_address_def)
  have "map_option fst (select_victim 0 dirty_bank) = Some 0"
    by (simp add: select_victim_def dirty_bank_sets)
  moreover have "\<not> holds_line dirty_bank 8" by (simp add: holds_line_def dirty_bank_slots)
  ultimately have "\<exists>k' a'. load_word (arbiter_ops (mm_ops device_ops) shared_dma) 8 RefillLoad
        (dirty_bank, sample_arbiter\<lparr>cpu_reserved := True\<rparr>) = Some (Inl (Busy 1), (k', a')) \<and>
      arb_inner a' = arb_inner (sample_arbiter\<lparr>cpu_reserved := True\<rparr>) \<and> cb_pending k' = None \<and>
      \<not> holds_line k' (line_base dirty_bank 0) \<and>
      bank_view dirty_bank (\<lambda>_. 0) 0 = bytes_of [0xDEADBEEF] ! unat (0 - line_base dirty_bank 0) \<and>
      bank_view k' (\<lambda>_. 0) 0 = 0"
    by (intro refused_eviction_loses_line [where v = 0]) (use dirty_bank_ok base dirty_bank_slots in
      \<open>simp_all\<close>)
  then show ?thesis using base(2) by (auto simp: bytes_of_def le_bytes32_def)
qed

end
