(* ===== verification/Spec2Isabelle.thy ===== *)
theory Spec2Isabelle
  imports Refinement Dma_Transfer System Virtual_Memory Bench_Runs Computer Deadlock Imprecise_Traps Stale_Operand
    Lost_Line
begin

text \<open>
  A verification library for a cycle-driven RISC-V simulator written in Rust: the crates \<open>isa\<close>, \<open>cpu\<close>,
  \<open>system\<close> and \<open>devices\<close>, and the programs of \<open>apps/computer\<close>. Every path below is under \<open>src/\<close>.

  \<^bold>\<open>The program.\<close> A \<open>Machine\<close> owns one core and one bus and steps both once per cycle. The core is the
  architectural \<open>ReferenceCore\<close> or the five-stage \<open>PipelineCore\<close>; both decode with the crate \<open>isa\<close>,
  share the hart state (registers, CSR file, privilege mode) and translate addresses with the Sv32 page
  walker. A bus is anything that implements the trait \<open>Bus\<close>. An access that takes time answers \<open>Busy\<close>
  and is repeated by its caller in later cycles. Buses stack: a split first-level cache over a unified
  cache over an arbiter with DMA masters over the memory map, which decodes addresses and calls the
  devices. Interrupts travel from the devices up through \<open>pending_interrupts\<close> into \<open>mip\<close>.

  \<^bold>\<open>The theories.\<close> Models, in the order of their imports:
  \<^item> \<open>Prelude\<close>: integer types, the type \<open>outcome\<close> of an effectful function and its rules, bytes.
  \<^item> \<open>Isa\<close>, \<open>Decode\<close>: \<open>crates/isa/src\<close> (instruction classes, traps, CSR addresses; the decoder).
  \<^item> \<open>Bus\<close>: \<open>crates/system/src/bus.rs\<close>; each trait is a record of functions over a state type, default
    methods included.
  \<^item> \<open>Csr_File\<close>, \<open>Hart\<close>: \<open>crates/cpu/src/state\<close>.
  \<^item> \<open>Exec\<close>, \<open>Mmu\<close>, \<open>Execute\<close>: \<open>crates/cpu/src/exec\<close> and \<open>mmu.rs\<close> (arithmetic, loads and stores, page
    walker with TLB, execution of one instruction).
  \<^item> \<open>Reference_Core\<close>, \<open>Predictor\<close>, \<open>Stages\<close>, \<open>Pipeline_Core\<close>: \<open>crates/cpu/src/core\<close>, \<open>predictor\<close>,
    \<open>hazard\<close>, \<open>pipeline\<close>, \<open>trace.rs\<close>. One cycle of the pipeline is a chain of phase functions over the
    local variables of \<open>step_cycle\<close>, one phase per block of the Rust function.
  \<^item> \<open>Memory_Map\<close>, \<open>Arbiter\<close>, \<open>Cache_Bank\<close>, \<open>Cache\<close>: \<open>memory_map.rs\<close>, \<open>arbiter.rs\<close> and \<open>cache.rs\<close> of
    \<open>crates/system/src\<close>.
  \<^item> \<open>Memory_Devices\<close>, \<open>Interrupt_Devices\<close>, \<open>Block_Device\<close>, \<open>Dma_Controller\<close>, \<open>Devices\<close>:
    \<open>crates/devices/src\<close>; \<open>Devices\<close> collects them into one type for the slots of the map.
  \<^item> \<open>Machine\<close>: \<open>clock.rs\<close>, \<open>component.rs\<close> and \<open>machine.rs\<close>; \<open>Shared_Dma\<close>: a DMA controller that is a device and a bus
    master at once.
  \<^item> \<open>Bench_Programs\<close>, \<open>Microbench\<close>, \<open>Computer\<close>: \<open>microbench.rs\<close> and \<open>main.rs\<close> of
    \<open>apps/computer/src\<close>: the encoders, programs and page tables of the benchmarks, the benchmarks, and
    the machine that \<open>main\<close> builds with its script of host accesses.

  Theories that only prove: \<open>Refinement\<close>, \<open>Memory_System\<close>, \<open>Arbitration\<close>, \<open>Dma_Transfer\<close>, \<open>System\<close>,
  \<open>Cache_Lines\<close>, \<open>Cache_Slots\<close>, \<open>Cache_View\<close>, \<open>Cache_Coherence\<close>, \<open>Burst_Server\<close>, \<open>Cache_Progress\<close>,
  \<open>Cache_Stack\<close>, \<open>Cache_Client\<close>, \<open>Cached_Memory\<close>, \<open>Cached_System\<close>, \<open>Sv32\<close>, \<open>Page_Walk\<close>,
  \<open>Virtual_Memory\<close>, \<open>Bench_Runs\<close>, \<open>Deadlock\<close>, \<open>Imprecise_Traps\<close>, \<open>Forwarding\<close>,
  \<open>Stale_Operand\<close>, \<open>Lost_Line\<close> (with the specifications they need, such as clients and walks).
\<close>

text \<open>
  \<^bold>\<open>The interfaces.\<close> \<open>addressable_device\<close> is the contract of a device with a state invariant, interpreted on
  every device; \<open>byte_memory\<close> adds read-after-write, interpreted on the memories and the latency
  adapter. \<open>device_family\<close> is the contract of the slots of the map and gives \<open>burst_bus_safe\<close> for the map,
  which the arbiter (\<open>arbitrated_bus\<close>) hands on; \<open>idle_masters\<close> and \<open>limited_masters\<close> are what its round robin
  and its limits ask of the masters, and hold of the DMA controllers. \<open>processor\<close> is what a machine asks of a core; it is
  interpreted for both cores over the map and for the pipelined core over the arbiter.
  \<open>cacheable_bus\<close>, \<open>live_bus\<close> and \<open>burst_server\<close> are what a bank asks of the bus below: bytes that only
  its own stores change, progress with every cycle, bursts served beat by beat. The memory map
  (\<open>cached\<close>) and the unified cache (\<open>second\<close>) are burst servers, so the banks stack. \<open>memory_bus\<close> is a
  bus that a retrying client sees as a memory; the hierarchy is one, and the page walker is proved over
  it. \<open>branch_predictor\<close> and \<open>bench_cpu_model\<close> are the contracts of predictors and of cores.

  \<^bold>\<open>What is proved.\<close>
  \<^item> Instructions and state: decoding is well-formed and inverts encoding (RV32I without \<open>FENCE\<close>); arithmetic
    against the integers; the CSR file against architectural slots; interrupt selection; traps and their returns.
  \<^item> Cores: the pipeline's stages compose to the reference semantics; in runs without a memory
    wait, forwarding gives the architectural operands; the front end's own decoder agrees with the decoder; machines with either core run any number of
    cycles without a panic or an error.
  \<^item> Memory map and devices: routing, read after write, the exact latency of a blocking access, the
    block device, the interrupt controller, the timer, DRAM timing.
  \<^item> Arbiter and DMA: fairness among DMA controllers, the limit of each master, order of responses, the
    cycles in which the CPU may start an access; a DMA transfer ends
    and copies in every interleaving (\<open>dma_step\<close> is the step relation).
  \<^item> Caches: line arithmetic and replacement; the two-level hierarchy answers every data access like a
    flat memory of bytes (refinement) and every retried access ends (liveness).
  \<^item> Virtual memory: the walker with its TLB computes the translation that the specification in \<open>Sv32\<close>
    gives, on the page tables as the hierarchy stores them; fences restore the TLB; virtual accesses end
    with the specified result.
  \<^item> Benchmarks: their encoders invert the decoder, the page tables they install translate as intended, and
    their loops end.

  \<^bold>\<open>Modelling decisions.\<close>
  \<^item> A Rust function with effects returns an \<open>outcome\<close>: \<open>None\<close> is a panic (index out of range, failed
    assertion, \<open>expect\<close>, \<open>unreachable\<close>), \<open>Some (r, s)\<close> a result of type error + value and the new state.
    Integers wrap as in the release profile; \<open>usize\<close> is \<open>nat\<close>; \<open>i32\<close> is the word of 32 bits.
  \<^item> A trait object is a record of functions over a state type. A device or master shared by
    \<open>Rc<RefCell>\<close> is a handle, the index of its slot in the map.
  \<^item> A message of \<open>DeviceFault\<close> is a string. All errors of the benchmarks and of \<open>main\<close> are one type.
\<close>

text \<open>
  \<^bold>\<open>Loops, bounds and fuel.\<close> Nothing carries fuel. Loops with a bound in the code (\<open>step_until\<close>, \<open>run\<close>,
  the beats of a burst) recurse on that bound; \<open>translate_loop\<close> ends by a measure on the walk
  that is active, if it is of another request, and on its level. Loops without a bound are \<open>partial_function (option)\<close>, so that not returning is \<open>None\<close>:
  \<open>drive_loop\<close> and \<open>line_bases_loop\<close> (bank), \<open>retry_loop\<close> and \<open>retry_translate\<close> (clients),
  \<open>host_retry\<close> and \<open>wait_block\<close> (computer). The properties state that the first four return under the
  contracts above, with measures such as the beats left and the cycles until an answer. Nothing is
  proved of \<open>host_retry\<close> and \<open>wait_block\<close>, which step the whole machine.

  \<^bold>\<open>Conditions of the hierarchy and walker theorems.\<close> One memory device lies under the cached range; only
  the data side is used (the instruction bank is not kept coherent with dirty data by the code); both
  levels are write-back and write-allocate, as \<open>main\<close> configures them; no DMA master runs. The machine of
  \<open>Computer\<close>, whose second level caches ROM and DRAM over the arbiter, is modelled but is not an instance.
  The walker theorems have a set of address spaces that share their global mappings and stores that leave
  the tables alone unless a covering fence follows; physical addresses of 34 bits are cut to 32 as in
  the code.

  \<^bold>\<open>What the model showed.\<close>
  \<^item> A blocking access that its caller abandons makes every other access \<open>Busy\<close> for ever, and the pipelined
    core brings itself into that state when a load reaches the memory stage while a fetch with latency is
    under way: it then never retires an instruction again (\<open>Deadlock\<close>; reached from reset in five cycles).
  \<^item> Traps of the pipelined core are not precise: a fetch fault or an \<open>ecall\<close> is entered before older
    instructions are done. A user program can write \<open>mtvec\<close> in this way, a fault on a mispredicted path is
    taken, and a CSR write before an \<open>ecall\<close> comes too late (\<open>Imprecise_Traps\<close>). The equivalence of the stages
    with the reference semantics is per instruction; the two cores agree on no more than that.
  \<^item> A memory wait loses an operand: the instruction behind the waiting one keeps the values that it read
    before, though the instruction in front of it writes back in the first cycle of the wait. Three
    instructions, the second a load with one wait state, then compute another result than on the reference
    core (\<open>Stale_Operand\<close>).
  \<^item> A write-back burst that the bus below refuses, as the arbiter does in the cycles it gives to a master,
    is dropped with its dirty line (\<open>Lost_Line\<close>).
  \<^item> Invalidating a line whose refill is open below strands the burst in the cache below.
  \<^item> A maintenance request reaches one line beyond its range, unless that ends on the first byte of a line.
  \<^item> The decoder has no \<open>FENCE\<close>, which the documents' RV32I includes.
  \<^item> \<open>LatencyAdapter\<close> hides the time of a wrapped timer; a failed DMA transfer leaves its late responses to
    the next one; the block device reads its block index when a command ends.
  Evaluating the definitions gives every number of \<open>docs/memory_experiments.md\<close> except the loaded interrupt
  latency of the pipelined core, which is 11 cycles in the code and the model and 10 in the document.

  \<^bold>\<open>Not modelled.\<close> Texts (\<open>Display\<close>, \<open>Debug\<close>, messages of decode errors, printing of \<open>main\<close> and of
  \<open>memory_microbench\<close>), the UTF-8 view of the UART's output, getters and the setters of experiments that
  only assign a field, and the tests under \<open>crates/cpu/tests\<close> and in the modules.
\<close>

end
